(* ===== verification/Prelude.thy ===== *)
theory Prelude
  imports Main "HOL-Library.Word" "HOL-Library.Sublist"
begin

text \<open>
  What every component shares: the exceptions of the program as a datatype, results as sums,
  Python's string operations on lists of characters, and insertion-ordered dictionaries as
  association lists.  Strings here are Isabelle's \<open>string\<close>; case conversion and white space are
  those of Python on ASCII text.
\<close>

named_theorems py_simps \<open>characteristic equations of the Python operations\<close>
named_theorems dict_simps \<open>lookups after updates of dictionaries and tables\<close>

section \<open>Errors and results\<close>

datatype onyx_error_code =
    INVALID_INPUT | MISSING_REQUIRED_FIELD | CREDENTIAL_NOT_FOUND
  | INSUFFICIENT_PERMISSIONS | NOT_FOUND | BAD_GATEWAY | DUPLICATE_RESOURCE | CONFLICT | INTERNAL_ERROR
  | UNAUTHENTICATED

datatype exn =
    OnyxError onyx_error_code
  | ValueError | KeyError | TypeError | AttributeError | IndexError | RuntimeError
  | AssertionError | HTTPError | IntegrityError | TimeoutError | OSError | OverflowError
  | CredentialUnavailableError | SQLAlchemyError | RedisError | RedisSharedLockAcquisitionError

type_synonym 'a result = "exn + 'a"

definition bind_r :: "'a result \<Rightarrow> ('a \<Rightarrow> 'b result) \<Rightarrow> 'b result" where
  "bind_r r f = (case r of Inl e \<Rightarrow> Inl e | Inr x \<Rightarrow> f x)"

lemma bind_r_simps [simp, py_simps]:
  "bind_r (Inl e) f = Inl e" "bind_r (Inr x) f = f x"
  by (simp_all add: bind_r_def)

lemma bind_r_Inr_iff: "bind_r r f = Inr y \<longleftrightarrow> (\<exists>x. r = Inr x \<and> f x = Inr y)"
  by (cases r) auto

text \<open>A comprehension whose body may raise: the first error wins.\<close>

fun map_r :: "('a \<Rightarrow> 'b result) \<Rightarrow> 'a list \<Rightarrow> 'b list result" where
  "map_r f [] = Inr []"
| "map_r f (x # xs) = bind_r (f x) (\<lambda>y. bind_r (map_r f xs) (\<lambda>ys. Inr (y # ys)))"

lemma map_r_total: "(\<And>x. x \<in> set xs \<Longrightarrow> f x = Inr (g x)) \<Longrightarrow> map_r f xs = Inr (map g xs)"
  by (induction xs) auto

lemma map_r_length: "map_r f xs = Inr ys \<Longrightarrow> length ys = length xs"
  by (induction xs arbitrary: ys) (auto simp: bind_r_Inr_iff)

section \<open>Truth values of optional strings\<close>

text \<open>\<open>if x:\<close> for \<open>x: str | None\<close>, and \<open>a or b\<close>.\<close>

definition truthy :: "string option \<Rightarrow> bool" where
  "truthy x \<longleftrightarrow> (case x of None \<Rightarrow> False | Some s \<Rightarrow> s \<noteq> [])"

definition py_or :: "string option \<Rightarrow> string option \<Rightarrow> string option" where
  "py_or a b = (if truthy a then a else b)"

lemma truthy_simps [simp, py_simps]:
  "\<not> truthy None" "truthy (Some s) \<longleftrightarrow> s \<noteq> []"
  by (simp_all add: truthy_def)

lemma truthyE: "truthy x \<Longrightarrow> (\<And>s. x = Some s \<Longrightarrow> s \<noteq> [] \<Longrightarrow> P) \<Longrightarrow> P"
  by (cases x) auto

section \<open>Strings\<close>

definition lower_char :: "char \<Rightarrow> char" where
  "lower_char c = (let n = (of_char c :: nat) in
     if 65 \<le> n \<and> n \<le> 90 then char_of (n + 32) else c)"

definition lower :: "string \<Rightarrow> string" where
  "lower s = map lower_char s"

definition upper_char :: "char \<Rightarrow> char" where
  "upper_char c = (let n = (of_char c :: nat) in
     if 97 \<le> n \<and> n \<le> 122 then char_of (n - 32) else c)"

definition upper :: "string \<Rightarrow> string" where
  "upper s = map upper_char s"

lemma lower_char_idem [simp]: "lower_char (lower_char c) = lower_char c"
proof (cases "65 \<le> (of_char c :: nat) \<and> (of_char c :: nat) \<le> 90")
  case True
  then have "(of_char (char_of (of_char c + 32 :: nat)) :: nat) = of_char c + 32"
    by (simp add: of_char_of)
  with True show ?thesis by (simp add: lower_char_def Let_def)
qed (auto simp: lower_char_def Let_def)

lemma lower_idem [simp]: "lower (lower s) = lower s"
  by (simp add: lower_def)

lemma lower_Nil [simp]: "lower [] = []" "lower s = [] \<longleftrightarrow> s = []"
  by (simp_all add: lower_def)

lemma length_lower [simp]: "length (lower s) = length s"
  by (simp add: lower_def)

lemma lower_append [simp]: "lower (a @ b) = lower a @ lower b"
  by (simp add: lower_def)

definition is_space :: "char \<Rightarrow> bool" where
  "is_space c = (let n = (of_char c :: nat) in (9 \<le> n \<and> n \<le> 13) \<or> (28 \<le> n \<and> n \<le> 32))"

definition strip_by :: "('a \<Rightarrow> bool) \<Rightarrow> 'a list \<Rightarrow> 'a list" where
  "strip_by p s = rev (dropWhile p (rev (dropWhile p s)))"

definition strip :: "string \<Rightarrow> string" where
  "strip s = strip_by is_space s"

lemma strip_by_empty: "(\<forall>c \<in> set s. p c) \<Longrightarrow> strip_by p s = []"
  by (auto simp: strip_by_def dropWhile_eq_Nil_conv dest: set_dropWhileD)

lemma set_strip_by: "set (strip_by p s) \<subseteq> set s"
  by (auto simp: strip_by_def dest!: set_dropWhileD)

lemma strip_by_hd: "strip_by p s \<noteq> [] \<Longrightarrow> \<not> p (hd (strip_by p s))"
proof -
  assume ne: "strip_by p s \<noteq> []"
  define t where "t = dropWhile p s"
  have "\<exists>u. t = strip_by p s @ u"
    unfolding t_def strip_by_def
    by (metis rev_append rev_rev_ident takeWhile_dropWhile_id)
  then have "hd (strip_by p s) = hd t" and "t \<noteq> []" using ne by auto
  then show ?thesis unfolding t_def by (simp add: hd_dropWhile dropWhile_eq_Nil_conv)
qed

lemma strip_by_last: "strip_by p s \<noteq> [] \<Longrightarrow> \<not> p (last (strip_by p s))"
  by (simp add: strip_by_def last_rev hd_dropWhile)

text \<open>\<open>s.split(sep)\<close> for a one-character separator, and \<open>sep.join(xs)\<close>.\<close>

fun split_on :: "'a \<Rightarrow> 'a list \<Rightarrow> 'a list list" where
  "split_on sep [] = [[]]"
| "split_on sep (c # cs) =
     (if c = sep then [] # split_on sep cs
      else (case split_on sep cs of [] \<Rightarrow> [[c]] | w # ws \<Rightarrow> (c # w) # ws))"

fun join :: "'a list \<Rightarrow> 'a list list \<Rightarrow> 'a list" where
  "join sep [] = []"
| "join sep [x] = x"
| "join sep (x # y # ys) = x @ sep @ join sep (y # ys)"

lemma split_on_not_Nil [simp]: "split_on sep s \<noteq> []"
  by (cases s) (auto split: list.splits)

lemma join_Cons: "xs \<noteq> [] \<Longrightarrow> join sep (x # xs) = x @ sep @ join sep xs"
  by (cases xs) auto

lemma join_split_on: "join [sep] (split_on sep s) = s"
proof (induction s)
  case (Cons c cs)
  obtain w ws where w: "split_on sep cs = w # ws"
    by (cases "split_on sep cs") auto
  have "join [sep] ((c # w) # ws) = c # join [sep] (w # ws)"
    by (cases ws) auto
  with Cons w show ?case by (auto simp: join_Cons)
qed simp

lemma split_on_no_sep: "w \<in> set (split_on sep s) \<Longrightarrow> sep \<notin> set w"
  by (induction s arbitrary: w) (auto split: list.splits if_splits)

lemma split_on_append_sep:
  "sep \<notin> set a \<Longrightarrow> split_on sep (a @ sep # b) = a # split_on sep b"
  by (induction a) auto

lemma split_on_id: "sep \<notin> set a \<Longrightarrow> split_on sep a = [a]"
  by (induction a) auto

section \<open>Dictionaries in insertion order\<close>

text \<open>
  A Python dictionary whose order is visible is an association list with distinct keys:
  assignment replaces in place or appends, as Python's does.
\<close>

type_synonym ('k, 'v) dict = "('k \<times> 'v) list"

definition dict_get :: "('k, 'v) dict \<Rightarrow> 'k \<Rightarrow> 'v option" where
  "dict_get d k = map_of d k"

fun dict_set :: "'k \<Rightarrow> 'v \<Rightarrow> ('k, 'v) dict \<Rightarrow> ('k, 'v) dict" where
  "dict_set k v [] = [(k, v)]"
| "dict_set k v ((k', v') # d) =
     (if k = k' then (k', v) # d else (k', v') # dict_set k v d)"

definition dict_del :: "'k \<Rightarrow> ('k, 'v) dict \<Rightarrow> ('k, 'v) dict" where
  "dict_del k d = filter (\<lambda>(k', _). k' \<noteq> k) d"

definition dict_update :: "('k, 'v) dict \<Rightarrow> ('k, 'v) dict \<Rightarrow> ('k, 'v) dict" where
  "dict_update d e = fold (\<lambda>(k, v) acc. dict_set k v acc) e d"

abbreviation dict_keys :: "('k, 'v) dict \<Rightarrow> 'k list" where
  "dict_keys d \<equiv> map fst d"

lemma dict_get_Nil [simp, dict_simps]: "dict_get [] k = None"
  by (simp add: dict_get_def)

lemma dict_get_Cons [simp, dict_simps]:
  "dict_get ((k, v) # d) k' = (if k' = k then Some v else dict_get d k')"
  by (simp add: dict_get_def)

lemma dict_get_set [simp, dict_simps]:
  "dict_get (dict_set k v d) k' = (if k' = k then Some v else dict_get d k')"
  by (induction d rule: dict_set.induct) auto

lemma dict_get_del [simp, dict_simps]:
  "dict_get (dict_del k d) k' = (if k' = k then None else dict_get d k')"
  by (induction d) (auto simp: dict_del_def)

lemma dict_get_None_iff: "dict_get d k = None \<longleftrightarrow> k \<notin> fst ` set d"
  by (simp add: dict_get_def map_of_eq_None_iff)

lemma set_keys_dict_set [simp]: "fst ` set (dict_set k v d) = insert k (fst ` set d)"
  by (induction d rule: dict_set.induct) auto

lemma keys_dict_set: "dict_keys (dict_set k v d)
    = (if k \<in> fst ` set d then dict_keys d else dict_keys d @ [k])"
  by (induction d rule: dict_set.induct) auto

lemma distinct_dict_set [simp]: "distinct (dict_keys d) \<Longrightarrow> distinct (dict_keys (dict_set k v d))"
  by (simp add: keys_dict_set)

lemma dict_update_Nil [simp]: "dict_update d [] = d"
  by (simp add: dict_update_def)

lemma dict_update_Cons [simp]:
  "dict_update d ((k, v) # e) = dict_update (dict_set k v d) e"
  by (simp add: dict_update_def)

lemma dict_get_update: "distinct (dict_keys e) \<Longrightarrow>
    dict_get (dict_update d e) k = (case dict_get e k of Some v \<Rightarrow> Some v | None \<Rightarrow> dict_get d k)"
proof (induction e arbitrary: d)
  case (Cons p e)
  obtain a b where p: "p = (a, b)" by (cases p)
  have "dict_get e a = None" using Cons.prems p by (auto simp: dict_get_None_iff)
  then show ?case using Cons p by (auto split: option.splits)
qed simp

lemma distinct_dict_update [simp]:
  "distinct (dict_keys d) \<Longrightarrow> distinct (dict_keys (dict_update d e))"
  by (induction e arbitrary: d) auto

section \<open>Identifiers\<close>

text \<open>A UUID is its 128-bit number; \<open>str(u)\<close> is 32 hexadecimal digits with four hyphens.\<close>

type_synonym uuid = "128 word"

definition hex_char :: "nat \<Rightarrow> char" where
  "hex_char d = (if d < 10 then char_of (48 + d) else char_of (87 + d))"

definition hex_digits :: "nat \<Rightarrow> uuid \<Rightarrow> string" where
  "hex_digits n w = map (\<lambda>i. hex_char (unat (take_bit 4 (drop_bit (4 * i) w)))) (rev [0..<n])"

definition hyphenate :: "'a \<Rightarrow> 'a list \<Rightarrow> 'a list" where
  "hyphenate h s = take 8 s @ h # take 4 (drop 8 s) @ h # take 4 (drop 12 s)
     @ h # take 4 (drop 16 s) @ h # drop 20 s"

definition uuid_str :: "uuid \<Rightarrow> string" where
  "uuid_str u = hyphenate (CHR ''-'') (hex_digits 32 u)"

lemma hex_char_inj: "hex_char d = hex_char e \<Longrightarrow> d < 16 \<Longrightarrow> e < 16 \<Longrightarrow> d = e"
proof -
  assume eq: "hex_char d = hex_char e" and lt: "d < 16" "e < 16"
  have "(of_char (hex_char d) :: nat) = of_char (hex_char e)" using eq by simp
  then show "d = e" using lt by (simp add: hex_char_def of_char_of split: if_splits)
qed

lemma nibble_less: "unat (take_bit 4 (w :: uuid)) < 16"
proof -
  have "unat (take_bit 4 w) = take_bit 4 (unat w)"
    by (rule unsigned_take_bit_eq)
  then show ?thesis by (simp add: take_bit_eq_mod)
qed

lemma hex_digits_inj: "hex_digits 32 u = hex_digits 32 v \<Longrightarrow> u = v"
proof -
  assume eq: "hex_digits 32 u = hex_digits 32 v"
  have nib: "take_bit 4 (drop_bit (4 * i) u) = take_bit 4 (drop_bit (4 * i) v)" if "i < 32" for i
  proof -
    have "i \<in> set (rev [0..<32])" using that by auto
    then have "hex_char (unat (take_bit 4 (drop_bit (4 * i) u)))
        = hex_char (unat (take_bit 4 (drop_bit (4 * i) v)))"
      using eq unfolding hex_digits_def by (simp only: map_eq_conv)
    then show ?thesis using hex_char_inj nibble_less by (metis word_unat_eq_iff)
  qed
  show "u = v"
  proof (rule bit_word_eqI)
    fix n assume "n < LENGTH(128)"
    then have n: "n div 4 < 32" by auto
    have split: "n = 4 * (n div 4) + n mod 4" by simp
    have "bit (take_bit 4 (drop_bit (4 * (n div 4)) w)) (n mod 4) = bit w n" for w :: uuid
      by (subst (3) split) (simp add: bit_take_bit_iff bit_drop_bit_eq del: div_mult_mod_eq mult_div_mod_eq)
    then show "bit u n = bit v n" using nib [OF n] by metis
  qed
qed

lemma hyphenate_inj: "length s = length t \<Longrightarrow> hyphenate h s = hyphenate h t \<Longrightarrow> s = t"
proof -
  assume len: "length s = length t" and eq: "hyphenate h s = hyphenate h t"
  have parts: "take 8 s = take 8 t \<and> take 4 (drop 8 s) = take 4 (drop 8 t)
      \<and> take 4 (drop 12 s) = take 4 (drop 12 t) \<and> take 4 (drop 16 s) = take 4 (drop 16 t)
      \<and> drop 20 s = drop 20 t"
    using len eq by (simp add: hyphenate_def append_eq_append_conv)
  have j: "drop k x = take 4 (drop k x) @ drop (k + 4) x" for k and x :: "'a list"
    by (metis add.commute append_take_drop_id drop_drop)
  have "x = take 8 x @ take 4 (drop 8 x) @ take 4 (drop 12 x) @ take 4 (drop 16 x) @ drop 20 x"
    for x :: "'a list"
    using j [of 8 x] j [of 12 x] j [of 16 x] by (metis append_take_drop_id numeral_plus_numeral
        semiring_norm(2,3,4,5,6,7,8,9,10))
  then show "s = t" using parts by metis
qed

lemma uuid_str_inj [simp]: "uuid_str u = uuid_str v \<longleftrightarrow> u = v"
  using hex_digits_inj hyphenate_inj [of "hex_digits 32 u" "hex_digits 32 v"]
  by (auto simp: uuid_str_def hex_digits_def)

lemma dict_set_fresh: "k \<notin> fst ` set d \<Longrightarrow> dict_set k v d = d @ [(k, v)]"
  by (induction k v d rule: dict_set.induct) auto

lemma dict_del_fresh: "k \<notin> fst ` set d \<Longrightarrow> dict_del k d = d"
  by (induction d) (auto simp: dict_del_def)

end
