(* ===== verification/PyValue.thy ===== *)
theory PyValue
  imports Prelude "HOL-Library.Char_ord" "HOL-Library.List_Lexorder"
begin

text \<open>
  Python values as the YAML and JSON readers deliver them, with the operations the program applies
  to them: truth value, \<open>or\<close>, \<open>dict.get\<close>, \<open>str\<close>, iteration and \<open>set\<close>.  An operation on the wrong
  kind of value is the exception Python raises.  Floating-point numbers and dates do not occur in
  the values the modelled code inspects and are not represented.
\<close>

section \<open>Decimal rendering\<close>

definition digit_char :: "nat \<Rightarrow> char" where
  "digit_char d = char_of (48 + d)"

fun nat_str :: "nat \<Rightarrow> string" where
  "nat_str n = (if n < 10 then [digit_char n] else nat_str (n div 10) @ [digit_char (n mod 10)])"

declare nat_str.simps [simp del]

definition int_str :: "int \<Rightarrow> string" where
  "int_str i = (if i < 0 then CHR ''-'' # nat_str (nat (- i)) else nat_str (nat i))"

lemma of_char_digit [simp]: "d < 10 \<Longrightarrow> (of_char (digit_char d) :: nat) = 48 + d"
  by (simp add: digit_char_def of_char_of)

lemma digit_char_inj: "d < 10 \<Longrightarrow> e < 10 \<Longrightarrow> digit_char d = digit_char e \<Longrightarrow> d = e"
  using of_char_digit [of d] of_char_digit [of e] by (metis add_left_cancel)

lemma nat_str_not_Nil [simp]: "nat_str n \<noteq> []"
  by (subst nat_str.simps) simp

lemma Nil_eq_nat_str [simp]: "[] \<noteq> nat_str n"
  by (metis nat_str_not_Nil)

lemma nat_str_digits: "c \<in> set (nat_str n) \<Longrightarrow> \<exists>d < 10. c = digit_char d"
proof (induction n rule: nat_str.induct)
  case (1 n)
  show ?case
  proof (cases "n < 10")
    case True
    with "1.prems" show ?thesis by (auto simp: nat_str.simps [of n])
  next
    case False
    with "1.prems" have "c \<in> set (nat_str (n div 10)) \<or> c = digit_char (n mod 10)"
      by (auto simp: nat_str.simps [of n])
    moreover have "n mod 10 < 10" by simp
    ultimately show ?thesis using "1.IH" [OF False] by blast
  qed
qed

lemma nat_str_inj: "nat_str m = nat_str n \<longleftrightarrow> m = n"
proof
  assume "nat_str m = nat_str n"
  then show "m = n"
  proof (induction m arbitrary: n rule: nat_str.induct)
    case (1 m)
    show ?case
    proof (cases "m < 10"; cases "n < 10")
      assume "m < 10" "n < 10"
      with "1.prems" show ?thesis
        by (auto simp: nat_str.simps [of m] nat_str.simps [of n] dest: digit_char_inj)
    next
      assume "m < 10" "\<not> n < 10"
      with "1.prems" show ?thesis by (auto simp: nat_str.simps [of m] nat_str.simps [of n])
    next
      assume "\<not> m < 10" "n < 10"
      with "1.prems" show ?thesis by (auto simp: nat_str.simps [of m] nat_str.simps [of n])
    next
      assume big: "\<not> m < 10" "\<not> n < 10"
      with "1.prems" have "nat_str (m div 10) = nat_str (n div 10)"
        and "digit_char (m mod 10) = digit_char (n mod 10)"
        by (auto simp: nat_str.simps [of m] nat_str.simps [of n])
      with "1.IH" [OF big(1)] have "m div 10 = n div 10" and "m mod 10 = n mod 10"
        by (auto dest: digit_char_inj [rotated 2])
      then show ?thesis by (metis div_mult_mod_eq)
    qed
  qed
qed simp

section \<open>Values\<close>

datatype pyval =
    PNone
  | PBool bool
  | PInt int
  | PStr string
  | PList "pyval list"
  | PDict "(string \<times> pyval) list"

fun py_truthy :: "pyval \<Rightarrow> bool" where
  "py_truthy PNone = False"
| "py_truthy (PBool b) = b"
| "py_truthy (PInt i) = (i \<noteq> 0)"
| "py_truthy (PStr s) = (s \<noteq> [])"
| "py_truthy (PList xs) = (xs \<noteq> [])"
| "py_truthy (PDict d) = (d \<noteq> [])"

definition pv_or :: "pyval \<Rightarrow> pyval \<Rightarrow> pyval" where
  "pv_or a b = (if py_truthy a then a else b)"

text \<open>\<open>x.get(k, default)\<close>: only dictionaries have the method.\<close>

definition pv_get :: "pyval \<Rightarrow> string \<Rightarrow> pyval \<Rightarrow> pyval result" where
  "pv_get x k d = (case x of
       PDict kvs \<Rightarrow> Inr (case dict_get kvs k of Some v \<Rightarrow> v | None \<Rightarrow> d)
     | _ \<Rightarrow> Inl AttributeError)"

lemma pv_get_simps [simp, py_simps]:
  "pv_get (PDict kvs) k d = Inr (case dict_get kvs k of Some v \<Rightarrow> v | None \<Rightarrow> d)"
  "pv_get PNone k d = Inl AttributeError" "pv_get (PBool b) k d = Inl AttributeError"
  "pv_get (PInt i) k d = Inl AttributeError" "pv_get (PStr s) k d = Inl AttributeError"
  "pv_get (PList xs) k d = Inl AttributeError"
  by (simp_all add: pv_get_def)

definition repr_char :: "char \<Rightarrow> char \<Rightarrow> string" where
  "repr_char q c = (if c = q \<or> c = CHR 0x5C then [CHR 0x5C, c]
     else if c = CHR 0x0A then [CHR 0x5C, CHR ''n'']
     else if c = CHR 0x0D then [CHR 0x5C, CHR ''r'']
     else if c = CHR 0x09 then [CHR 0x5C, CHR ''t''] else [c])"

definition repr_str :: "string \<Rightarrow> string" where
  "repr_str s = (let q = (if CHR 0x27 \<in> set s \<and> CHR 0x22 \<notin> set s then CHR 0x22 else CHR 0x27)
     in [q] @ concat (map (repr_char q) s) @ [q])"

fun py_repr :: "pyval \<Rightarrow> string" where
  "py_repr PNone = ''None''"
| "py_repr (PBool b) = (if b then ''True'' else ''False'')"
| "py_repr (PInt i) = int_str i"
| "py_repr (PStr s) = repr_str s"
| "py_repr (PList xs) = ''['' @ join '', '' (map py_repr xs) @ '']''"
| "py_repr (PDict d) = ''{'' @ join '', '' (map (\<lambda>(k, v). repr_str k @ '': '' @ py_repr v) d) @ ''}''"

fun py_str :: "pyval \<Rightarrow> string" where
  "py_str (PStr s) = s"
| "py_str v = py_repr v"

definition py_iter :: "pyval \<Rightarrow> pyval list result" where
  "py_iter v = (case v of
       PList xs \<Rightarrow> Inr xs
     | PStr s \<Rightarrow> Inr (map (\<lambda>c. PStr [c]) s)
     | PDict d \<Rightarrow> Inr (map (\<lambda>(k, _). PStr k) d)
     | _ \<Rightarrow> Inl TypeError)"

lemma py_iter_simps [simp, py_simps]:
  "py_iter (PList xs) = Inr xs"
  "py_iter PNone = Inl TypeError"
  by (simp_all add: py_iter_def)

fun hashable :: "pyval \<Rightarrow> bool" where
  "hashable (PList _) = False"
| "hashable (PDict _) = False"
| "hashable _ = True"

definition py_set :: "pyval \<Rightarrow> pyval set result" where
  "py_set v = bind_r (py_iter v)
     (\<lambda>xs. if list_all hashable xs then Inr (set xs) else Inl TypeError)"

lemma py_set_list [simp, py_simps]:
  "py_set (PList xs) = (if list_all hashable xs then Inr (set xs) else Inl TypeError)"
  by (simp add: py_set_def)

lemma int_str_inj: "int_str i = int_str j \<longleftrightarrow> i = j"
proof
  have minus: "CHR ''-'' \<notin> set (nat_str n)" for n
  proof
    assume "CHR ''-'' \<in> set (nat_str n)"
    then obtain d where d: "d < 10" "CHR ''-'' = digit_char d" using nat_str_digits by blast
    have "(of_char (CHR ''-'') :: nat) = 45" by simp
    moreover have "(of_char (CHR ''-'') :: nat) = 48 + d" using d by (simp only: of_char_digit)
    ultimately show False by linarith
  qed
  assume eq: "int_str i = int_str j"
  show "i = j"
  proof (cases "i < 0"; cases "j < 0")
    assume "i < 0" "j < 0"
    with eq have "nat (- i) = nat (- j)" using nat_str_inj by (simp add: int_str_def)
    with \<open>i < 0\<close> \<open>j < 0\<close> show ?thesis by simp
  next
    assume s: "i < 0" "\<not> j < 0"
    with eq have "CHR ''-'' \<in> set (nat_str (nat j))"
      by (cases "nat_str (nat j)") (auto simp: int_str_def)
    with minus show ?thesis by simp
  next
    assume s: "\<not> i < 0" "j < 0"
    with eq have "CHR ''-'' \<in> set (nat_str (nat i))"
      by (cases "nat_str (nat i)") (auto simp: int_str_def)
    with minus show ?thesis by simp
  next
    assume "\<not> i < 0" "\<not> j < 0"
    with eq have "nat i = nat j" using nat_str_inj by (simp add: int_str_def)
    with \<open>\<not> i < 0\<close> \<open>\<not> j < 0\<close> show ?thesis by simp
  qed
qed simp

section \<open>Query strings\<close>

text \<open>\<open>urllib.parse.urlencode\<close> of ASCII strings.\<close>

definition hex_upper :: "nat \<Rightarrow> char" where
  "hex_upper d = (if d < 10 then char_of (48 + d) else char_of (55 + d))"

definition quote_plus_char :: "char \<Rightarrow> string" where
  "quote_plus_char c = (let n = (of_char c :: nat) in
     if (48 \<le> n \<and> n \<le> 57) \<or> (65 \<le> n \<and> n \<le> 90) \<or> (97 \<le> n \<and> n \<le> 122) \<or> c \<in> set ''_.-~'' then [c]
     else if c = CHR '' '' then ''+''
     else [CHR ''%'', hex_upper (n div 16), hex_upper (n mod 16)])"

definition quote_plus :: "string \<Rightarrow> string" where
  "quote_plus s = concat (map quote_plus_char s)"

definition urlencode :: "(string, string) dict \<Rightarrow> string" where
  "urlencode params = join ''&'' (map (\<lambda>(k, v). quote_plus k @ ''='' @ quote_plus v) params)"

end
