(* ===== verification/PyNumbers.thy ===== *)
theory PyNumbers
  imports PyValue
begin

text \<open>
  Reading numbers: \<open>int(s)\<close> and \<open>int(s, 16)\<close> of the standard library on ASCII text, with white space,
  a sign and single underscores between digits, and the round trip with \<open>str\<close>.
\<close>

section \<open>Digits\<close>

text \<open>The digits after the first; \<open>gap\<close> says that the last character was an underscore.\<close>

fun digits_rest :: "(char \<Rightarrow> nat option) \<Rightarrow> nat \<Rightarrow> bool \<Rightarrow> nat \<Rightarrow> string \<Rightarrow> nat option" where
  "digits_rest val base gap acc [] = (if gap then None else Some acc)"
| "digits_rest val base gap acc (c # cs) =
     (if c = CHR ''_'' then (if gap then None else digits_rest val base True acc cs)
      else case val c of None \<Rightarrow> None | Some d \<Rightarrow> digits_rest val base False (acc * base + d) cs)"

definition digits_number :: "(char \<Rightarrow> nat option) \<Rightarrow> nat \<Rightarrow> string \<Rightarrow> nat option" where
  "digits_number val base s = (case s of [] \<Rightarrow> None
     | c # cs \<Rightarrow> (case val c of None \<Rightarrow> None | Some d \<Rightarrow> digits_rest val base False d cs))"

text \<open>White space around, one sign in front.\<close>

definition signed_number :: "(string \<Rightarrow> nat option) \<Rightarrow> string \<Rightarrow> int result" where
  "signed_number number s =
    (let t = strip s;
         (negative, digits) = (case t of c # cs \<Rightarrow>
            if c = CHR ''-'' then (True, cs) else if c = CHR ''+'' then (False, cs) else (False, t)
          | [] \<Rightarrow> (False, t))
     in case number digits of
          None \<Rightarrow> Inl ValueError
        | Some n \<Rightarrow> Inr (if negative then - int n else int n))"

definition dec_value :: "char \<Rightarrow> nat option" where
  "dec_value c = (let n = (of_char c :: nat) in if 48 \<le> n \<and> n \<le> 57 then Some (n - 48) else None)"

definition py_int :: "string \<Rightarrow> int result" where
  "py_int s = signed_number (digits_number dec_value 10) s"

section \<open>Round trip\<close>

lemma digits_rest_digits:
  "(\<forall>c \<in> set s. c \<noteq> CHR ''_'' \<and> val c \<noteq> None)
    \<Longrightarrow> digits_rest val base False acc s = Some (foldl (\<lambda>a c. a * base + the (val c)) acc s)"
proof (induction s arbitrary: acc)
  case (Cons c s)
  then obtain d where "val c = Some d" by fastforce
  with Cons show ?case by simp
qed simp

lemma digits_number_digits:
  "s \<noteq> [] \<Longrightarrow> (\<forall>c \<in> set s. c \<noteq> CHR ''_'' \<and> val c \<noteq> None)
    \<Longrightarrow> digits_number val base s = Some (foldl (\<lambda>a c. a * base + the (val c)) 0 s)"
proof (cases s)
  case (Cons c cs)
  moreover assume "\<forall>c \<in> set s. c \<noteq> CHR ''_'' \<and> val c \<noteq> None"
  ultimately have "val c \<noteq> None" "\<forall>c \<in> set cs. c \<noteq> CHR ''_'' \<and> val c \<noteq> None" by simp_all
  then obtain d where "val c = Some d" by blast
  with Cons \<open>\<forall>c \<in> set cs. c \<noteq> CHR ''_'' \<and> val c \<noteq> None\<close> show ?thesis
    by (simp add: digits_number_def digits_rest_digits)
qed simp

lemma dec_value_digit [simp]: "d < 10 \<Longrightarrow> dec_value (digit_char d) = Some d"
  by (simp add: dec_value_def Let_def)

lemma foldl_nat_str: "foldl (\<lambda>a c. a * 10 + the (dec_value c)) 0 (nat_str n) = n"
proof (induction n rule: nat_str.induct)
  case (1 n)
  then show ?case by (cases "n < 10") (simp_all add: nat_str.simps [of n])
qed

lemma nat_str_chars: "c \<in> set (nat_str n) \<Longrightarrow> (of_char c :: nat) \<in> {48..57}"
  using nat_str_digits [of c n] by auto

lemma length_nat_str: "n < 10 ^ Suc k \<Longrightarrow> length (nat_str n) \<le> Suc k"
proof (induction k arbitrary: n)
  case 0
  then show ?case by (simp add: nat_str.simps [of n])
next
  case (Suc k)
  then have "n div 10 < 10 ^ Suc k" by simp
  from Suc.IH [OF this] show ?case by (simp add: nat_str.simps [of n])
qed

lemma digits_number_nat_str: "digits_number dec_value 10 (nat_str n) = Some n"
proof -
  have "c \<noteq> CHR ''_'' \<and> dec_value c \<noteq> None" if "c \<in> set (nat_str n)" for c
    using nat_str_chars [OF that] by (auto simp: dec_value_def Let_def)
  then show ?thesis by (simp add: digits_number_digits foldl_nat_str)
qed

lemma strip_by_none: "(\<forall>c \<in> set s. \<not> p c) \<Longrightarrow> strip_by p s = s"
proof -
  have d: "dropWhile p x = x" if "\<forall>c \<in> set x. \<not> p c" for x :: "'a list"
    using that by (cases x) auto
  assume "\<forall>c \<in> set s. \<not> p c"
  then show ?thesis by (simp add: strip_by_def d)
qed

lemma py_int_int_str [simp]: "py_int (int_str i) = Inr i"
proof -
  have ns: "\<not> is_space c" if "c \<in> set (nat_str n)" for c n
    using nat_str_chars [OF that] by (auto simp: is_space_def Let_def)
  then have "strip (int_str i) = int_str i"
    unfolding strip_def by (intro strip_by_none) (auto simp: int_str_def is_space_def split: if_splits)
  moreover obtain c cs where c: "nat_str (nat i) = c # cs" by (cases "nat_str (nat i)") auto
  then have "c \<noteq> CHR ''-''" "c \<noteq> CHR ''+''" using nat_str_chars [of c "nat i"] by auto
  moreover have "digits_number dec_value 10 (c # cs) = Some (nat i)"
    using digits_number_nat_str [of "nat i"] c by simp
  ultimately show ?thesis using c
    by (auto simp: py_int_def signed_number_def int_str_def digits_number_nat_str Let_def)
qed

section \<open>Numbers from values\<close>

definition py_int_of :: "pyval \<Rightarrow> int result" where
  "py_int_of v = (case v of PInt i \<Rightarrow> Inr i | PBool b \<Rightarrow> Inr (if b then 1 else 0) | PStr x \<Rightarrow> py_int x
     | _ \<Rightarrow> Inl TypeError)"

end
