(* ===== verification/BatchStorage.thy ===== *)
theory BatchStorage
  imports PyNumbers
begin

text \<open>
  The batches of documents between fetching and processing (\<open>file_store/document_batch_storage.py\<close>): files of the
  file store, named by connector pair, index attempt and number.  The store is a dictionary from file identifiers
  to batches, and of a document the identifier is kept.
\<close>

section \<open>The file store\<close>

type_synonym batch = "string list"
type_synonym file_store = "(string, batch) dict"

text \<open>\<open>LIKE 'prefix%'\<close> for a prefix without wildcards; the empty prefix lists everything.\<close>

definition list_files_by_prefix :: "string \<Rightarrow> file_store \<Rightarrow> string list" where
  "list_files_by_prefix p files = (if p = [] then dict_keys files else filter (prefix p) (dict_keys files))"

definition change_file_id :: "string \<Rightarrow> string \<Rightarrow> file_store \<Rightarrow> file_store result" where
  "change_file_id old_file_id new_file_id files = (if old_file_id = new_file_id then Inr files
     else case dict_get files old_file_id of None \<Rightarrow> Inl RuntimeError
       | Some content \<Rightarrow> Inr (dict_del old_file_id (dict_set new_file_id content files)))"

section \<open>Batches\<close>

definition per_cc_pair_base_path :: "int \<Rightarrow> string" where
  "per_cc_pair_base_path cc_pair_id = ''iab/'' @ int_str cc_pair_id"

definition get_batch_file_name :: "int \<Rightarrow> int \<Rightarrow> int \<Rightarrow> string" where
  "get_batch_file_name cc_pair_id index_attempt_id batch_num =
    per_cc_pair_base_path cc_pair_id @ ''/'' @ int_str index_attempt_id @ ''/'' @ int_str batch_num @ ''.json''"

definition store_batch :: "int \<Rightarrow> int \<Rightarrow> int \<Rightarrow> batch \<Rightarrow> file_store \<Rightarrow> file_store" where
  "store_batch cc_pair_id index_attempt_id batch_num documents =
    dict_set (get_batch_file_name cc_pair_id index_attempt_id batch_num) documents"

definition get_batch :: "int \<Rightarrow> int \<Rightarrow> int \<Rightarrow> file_store \<Rightarrow> batch option" where
  "get_batch cc_pair_id index_attempt_id batch_num files = dict_get files (get_batch_file_name cc_pair_id index_attempt_id batch_num)"

definition delete_batch_by_name :: "string \<Rightarrow> file_store \<Rightarrow> file_store" where
  "delete_batch_by_name = dict_del"

definition delete_batch_by_num :: "int \<Rightarrow> int \<Rightarrow> int \<Rightarrow> file_store \<Rightarrow> file_store" where
  "delete_batch_by_num cc_pair_id index_attempt_id batch_num =
    delete_batch_by_name (get_batch_file_name cc_pair_id index_attempt_id batch_num)"

definition get_all_batches_for_cc_pair :: "int \<Rightarrow> file_store \<Rightarrow> string list" where
  "get_all_batches_for_cc_pair cc_pair_id = list_files_by_prefix (per_cc_pair_base_path cc_pair_id)"

definition cleanup_all_batches :: "int \<Rightarrow> file_store \<Rightarrow> file_store" where
  "cleanup_all_batches cc_pair_id files = fold delete_batch_by_name (get_all_batches_for_cc_pair cc_pair_id files) files"

text \<open>The pair, the attempt and the number in a path; old paths had no first component.\<close>

definition extract_path_info :: "string \<Rightarrow> (int \<times> int \<times> int) option" where
  "extract_path_info path =
    (let parts = split_on (CHR ''/'') path;
         path_spl = (if length parts = 3 then ''iab'' # parts else parts)
     in case path_spl of
          [_, cc_pair_id, index_attempt_id, batch_num] \<Rightarrow>
            (case (py_int cc_pair_id, py_int index_attempt_id, py_int (hd (split_on (CHR ''.'') batch_num))) of
               (Inr c, Inr i, Inr n) \<Rightarrow> Some (c, i, n) | _ \<Rightarrow> None)
        | _ \<Rightarrow> None)"

fun update_old_batches :: "int \<Rightarrow> int \<Rightarrow> string list \<Rightarrow> file_store \<Rightarrow> file_store result" where
  "update_old_batches cc_pair_id index_attempt_id [] files = Inr files"
| "update_old_batches cc_pair_id index_attempt_id (name # names) files = (case extract_path_info name of
     None \<Rightarrow> update_old_batches cc_pair_id index_attempt_id names files
   | Some (_, _, batch_num) \<Rightarrow> bind_r (change_file_id name (get_batch_file_name cc_pair_id index_attempt_id batch_num) files)
       (update_old_batches cc_pair_id index_attempt_id names))"

section \<open>Paths\<close>

lemma nat_str_no_sep: "c \<in> {CHR ''/'', CHR ''.''} \<Longrightarrow> c \<notin> set (nat_str n)"
  using nat_str_chars [of c n] by auto

lemma int_str_no_sep: "c \<in> {CHR ''/'', CHR ''.''} \<Longrightarrow> c \<notin> set (int_str i)"
  using nat_str_no_sep by (auto simp: int_str_def)

lemma split_prefix: "c \<notin> set s \<Longrightarrow> split_on c (s @ c # t) = s # split_on c t"
  by (rule split_on_append_sep)

lemma extract_batch_path: "extract_path_info (get_batch_file_name c i n) = Some (c, i, n)"
proof -
  have json: "CHR ''/'' \<notin> set (int_str n @ ''.json'')" using int_str_no_sep by auto
  have "split_on (CHR ''/'') (get_batch_file_name c i n) = [''iab'', int_str c, int_str i, int_str n @ ''.json'']"
    using int_str_no_sep split_on_id [OF json] by (simp add: get_batch_file_name_def per_cc_pair_base_path_def split_prefix)
  moreover have "split_on (CHR ''.'') (int_str n @ ''.json'') = [int_str n, ''json'']"
    using int_str_no_sep split_prefix [of "CHR ''.''" "int_str n" "''json''"] by simp
  ultimately show ?thesis by (simp add: extract_path_info_def)
qed

lemma prefix_slash:
  assumes "CHR ''/'' \<notin> set s"
  shows "prefix s (t @ CHR ''/'' # u) \<longleftrightarrow> prefix s t"
proof -
  have "s = t @ x # v \<Longrightarrow> x = CHR ''/'' \<Longrightarrow> False" for x v using assms by auto
  then show ?thesis by (auto simp: prefix_append prefix_Cons)
qed

lemma batch_of_pair_iff: "prefix (per_cc_pair_base_path c) (get_batch_file_name c' i n) \<longleftrightarrow> prefix (int_str c) (int_str c')"
  using int_str_no_sep prefix_slash [of "int_str c" "int_str c'"] by (simp add: per_cc_pair_base_path_def get_batch_file_name_def)

lemma dict_get_deleted: "dict_get (fold delete_batch_by_name names files) k = (if k \<in> set names then None else dict_get files k)"
  by (induction names arbitrary: files) (auto simp: delete_batch_by_name_def)

lemma dict_get_cleanup:
  "dict_get (cleanup_all_batches c files) k = (if prefix (per_cc_pair_base_path c) k then None else dict_get files k)"
proof (cases "k \<in> set (dict_keys files)")
  case True
  then show ?thesis
    by (simp add: cleanup_all_batches_def get_all_batches_for_cc_pair_def list_files_by_prefix_def dict_get_deleted per_cc_pair_base_path_def)
next
  case False
  then have "dict_get files k = None" by (simp add: dict_get_None_iff)
  then show ?thesis by (simp add: cleanup_all_batches_def dict_get_deleted)
qed

text \<open>The name of a batch gives back its pair, attempt and number.  A cleanup, which the code says is for one
  index attempt, removes the batches of every attempt of its connector pair, and of every pair whose number starts
  with the digits of that pair (1 takes 10 and 17 with it), and leaves all other files.\<close>

theorem cleanup_takes_longer_numbers:
  "extract_path_info (get_batch_file_name c' i n) = Some (c', i, n)
   \<and> get_batch c' i n (cleanup_all_batches c files) = (if prefix (int_str c) (int_str c') then None else get_batch c' i n files)
   \<and> (\<not> prefix ''iab/'' name \<longrightarrow> dict_get (cleanup_all_batches c files) name = dict_get files name)"
proof (intro conjI impI)
  show "get_batch c' i n (cleanup_all_batches c files) = (if prefix (int_str c) (int_str c') then None else get_batch c' i n files)"
    by (simp add: get_batch_def dict_get_cleanup batch_of_pair_iff)
  assume "\<not> prefix ''iab/'' name"
  then have "\<not> prefix (per_cc_pair_base_path c) name" unfolding per_cc_pair_base_path_def using append_prefixD by blast
  then show "dict_get (cleanup_all_batches c files) name = dict_get files name" by (simp add: dict_get_cleanup)
qed (rule extract_batch_path)

theorem cleanup_takes_longer_numbers_witness:
  "get_batch 17 3 0 (store_batch 17 3 0 [''doc''] []) = Some [''doc'']
   \<and> get_batch 17 3 0 (cleanup_all_batches 1 (store_batch 17 3 0 [''doc''] [])) = None
   \<and> dict_get (cleanup_all_batches 1 [(''report'', [])]) ''report'' = Some []"
proof -
  have "prefix (int_str 1) (int_str 17)" by code_simp
  then show ?thesis
    using cleanup_takes_longer_numbers [of 17 3 0 1 "store_batch 17 3 0 [''doc''] []"] cleanup_takes_longer_numbers [of 17 3 0 1 "[(''report'', [])]" "''report''"]
    by (simp add: get_batch_def store_batch_def)
qed

end
