(* ===== verification/IndexAttempts.thy ===== *)
theory IndexAttempts
  imports BatchStorage
begin

text \<open>
  Indexing attempts (\<open>db/index_attempt.py\<close>, \<open>db/indexing_coordination.py\<close>, the tasks of
  \<open>background/celery/tasks/docprocessing\<close> and the batches of \<open>background/indexing/run_docfetching.py\<close>): an attempt to index
  the documents of a connector pair is created by a scheduler, one worker fetches documents and stores them in
  batches, many workers process batches, and a monitor decides when the attempt is over.  What fetches documents,
  embeds and writes to the index is an argument, and so is what other processes do between the statements of a task.
\<close>

section \<open>Tables\<close>

datatype indexing_status = NOT_STARTED | IN_PROGRESS | SUCCESS | CANCELED | FAILED | COMPLETED_WITH_ERRORS

definition is_terminal :: "indexing_status \<Rightarrow> bool" where
  "is_terminal s \<longleftrightarrow> s \<in> {SUCCESS, COMPLETED_WITH_ERRORS, CANCELED, FAILED}"

definition is_successful :: "indexing_status \<Rightarrow> bool" where
  "is_successful s \<longleftrightarrow> s = SUCCESS \<or> s = COMPLETED_WITH_ERRORS"

datatype pair_status = SCHEDULED | INITIAL_INDEXING | ACTIVE | PAUSED | DELETING | INVALID

definition pair_is_active :: "pair_status \<Rightarrow> bool" where
  "pair_is_active s \<longleftrightarrow> s \<in> {ACTIVE, SCHEDULED, INITIAL_INDEXING}"

datatype model_status = PAST | PRESENT | FUTURE
datatype indexing_mode = UPDATE | REINDEX
datatype source_kind = NOT_APPLICABLE | INGESTION_API | OtherSource

record attempt_row =
  ia_id :: int
  ia_cc_pair :: int
  ia_settings :: "int option"
  ia_job :: "int option"
  ia_from_beginning :: bool
  ia_status :: indexing_status
  ia_task :: "string option"
  ia_cancellation_requested :: bool
  ia_total_batches :: "int option"
  ia_completed_batches :: int
  ia_total_docs :: int
  ia_new_docs :: int
  ia_total_chunks :: int
  ia_error_msg :: "string option"
  ia_heartbeat_counter :: int
  ia_last_heartbeat_value :: int
  ia_last_heartbeat_time :: "int option"
  ia_time_created :: int
  ia_time_started :: "int option"
  ia_time_updated :: int

record attempt_error_row =
  ae_attempt :: int
  ae_cc_pair :: int
  ae_document :: "string option"
  ae_entity :: "string option"
  ae_resolved :: bool

record indexed_pair =
  cp_id :: int
  cp_status :: pair_status
  cp_trigger :: "indexing_mode option"
  cp_repeated_error :: bool
  cp_last_success :: "int option"
  cp_connector_id :: int
  cp_refresh_freq :: "int option"
  cp_source :: source_kind

text \<open>A task for a batch: pair, attempt and number.  The world is the tables, the stored batches, the two counters of
  each attempt in Redis and the queue of the broker.\<close>

type_synonym batch_task = "int \<times> int \<times> int"

record index_world =
  t_attempts :: "attempt_row list"
  t_attempt_errors :: "attempt_error_row list"
  t_cc_pairs :: "indexed_pair list"
  w_files :: file_store
  w_pending :: "(int, int) dict"
  w_in_flight :: "(int, int) dict"
  w_redis_up :: bool
  w_queue :: "batch_task list"

definition running :: "attempt_row \<Rightarrow> bool" where
  "running a \<longleftrightarrow> ia_status a \<in> {NOT_STARTED, IN_PROGRESS}"

definition get_index_attempt :: "index_world \<Rightarrow> int \<Rightarrow> attempt_row option" where
  "get_index_attempt w i = find (\<lambda>a. ia_id a = i) (t_attempts w)"

definition get_cc_pair :: "index_world \<Rightarrow> int \<Rightarrow> indexed_pair option" where
  "get_cc_pair w c = find (\<lambda>p. cp_id p = c) (t_cc_pairs w)"

text \<open>A bulk update touches every row it selects, a flush only rows that changed; both set the time of the update.\<close>

definition update_attempts :: "int \<Rightarrow> (attempt_row \<Rightarrow> bool) \<Rightarrow> (attempt_row \<Rightarrow> attempt_row) \<Rightarrow> index_world \<Rightarrow> index_world" where
  "update_attempts now p f w = w\<lparr>t_attempts := map (\<lambda>a. if p a then (f a)\<lparr>ia_time_updated := now\<rparr> else a) (t_attempts w)\<rparr>"

definition set_attempt :: "int \<Rightarrow> int \<Rightarrow> (attempt_row \<Rightarrow> attempt_row) \<Rightarrow> index_world \<Rightarrow> index_world" where
  "set_attempt now i f = update_attempts now (\<lambda>a. ia_id a = i \<and> f a \<noteq> a) f"

definition set_cc_pair :: "int \<Rightarrow> (indexed_pair \<Rightarrow> indexed_pair) \<Rightarrow> index_world \<Rightarrow> index_world" where
  "set_cc_pair c f w = w\<lparr>t_cc_pairs := map (\<lambda>p. if cp_id p = c then f p else p) (t_cc_pairs w)\<rparr>"

text \<open>\<open>SELECT ... FOR UPDATE\<close> with \<open>scalar_one\<close>: a row that is not there is an error.\<close>

definition lock_attempt :: "index_world \<Rightarrow> int \<Rightarrow> attempt_row result" where
  "lock_attempt w i = (case get_index_attempt w i of None \<Rightarrow> Inl SQLAlchemyError | Some a \<Rightarrow> Inr a)"

section \<open>Counters of batches\<close>

definition counter :: "(int, int) dict \<Rightarrow> int \<Rightarrow> int" where
  "counter d i = (case dict_get d i of None \<Rightarrow> 0 | Some n \<Rightarrow> n)"

definition incr_pending :: "int \<Rightarrow> index_world \<Rightarrow> index_world" where
  "incr_pending i w = (if w_redis_up w then w\<lparr>w_pending := dict_set i (counter (w_pending w) i + 1) (w_pending w)\<rparr> else w)"

definition decr_pending_incr_in_flight :: "int \<Rightarrow> index_world \<Rightarrow> index_world" where
  "decr_pending_incr_in_flight i w = (if \<not> w_redis_up w then w
     else w\<lparr>w_pending := (if counter (w_pending w) i > 0 then dict_set i (counter (w_pending w) i - 1) (w_pending w) else w_pending w),
       w_in_flight := dict_set i (counter (w_in_flight w) i + 1) (w_in_flight w)\<rparr>)"

definition decr_in_flight :: "int \<Rightarrow> index_world \<Rightarrow> index_world" where
  "decr_in_flight i w = (if w_redis_up w \<and> counter (w_in_flight w) i > 0
     then w\<lparr>w_in_flight := dict_set i (counter (w_in_flight w) i - 1) (w_in_flight w)\<rparr> else w)"

definition cleanup_counters :: "int \<Rightarrow> index_world \<Rightarrow> index_world" where
  "cleanup_counters i w = (if w_redis_up w then w\<lparr>w_pending := dict_del i (w_pending w), w_in_flight := dict_del i (w_in_flight w)\<rparr> else w)"

section \<open>Attempts\<close>

definition create_index_attempt :: "int \<Rightarrow> int \<Rightarrow> int \<Rightarrow> int \<Rightarrow> bool \<Rightarrow> string option \<Rightarrow> index_world \<Rightarrow> index_world result" where
  "create_index_attempt now new_id cc_pair_id search_settings_id from_beginning celery_task_id w =
    (if get_cc_pair w cc_pair_id = None then Inl IntegrityError
     else Inr (w\<lparr>t_attempts := t_attempts w @ [\<lparr>ia_id = new_id, ia_cc_pair = cc_pair_id, ia_settings = Some search_settings_id,
       ia_job = None, ia_from_beginning = from_beginning, ia_status = NOT_STARTED, ia_task = celery_task_id,
       ia_cancellation_requested = False, ia_total_batches = None, ia_completed_batches = 0, ia_total_docs = 0, ia_new_docs = 0,
       ia_total_chunks = 0, ia_error_msg = None, ia_heartbeat_counter = 0, ia_last_heartbeat_value = 0, ia_last_heartbeat_time = None,
       ia_time_created = now, ia_time_started = None, ia_time_updated = now\<rparr>]\<rparr>))"

text \<open>The fence: a running full attempt stops another one.  \<open>locked\<close> says that another transaction holds the rows
  the query asks for, so \<open>NOWAIT\<close> raises.\<close>

definition fenced :: "int \<Rightarrow> int \<Rightarrow> attempt_row \<Rightarrow> bool" where
  "fenced cc_pair_id search_settings_id a \<longleftrightarrow>
     ia_cc_pair a = cc_pair_id \<and> ia_settings a = Some search_settings_id \<and> running a \<and> ia_job a = None"

definition try_create_index_attempt ::
  "bool \<Rightarrow> int \<Rightarrow> int \<Rightarrow> int \<Rightarrow> int \<Rightarrow> string \<Rightarrow> bool \<Rightarrow> index_world \<Rightarrow> int option \<times> index_world" where
  "try_create_index_attempt locked now new_id cc_pair_id search_settings_id celery_task_id from_beginning w =
    (if list_ex (fenced cc_pair_id search_settings_id) (t_attempts w) then (None, w)
     else if locked then (None, w)
     else case create_index_attempt now new_id cc_pair_id search_settings_id from_beginning (Some celery_task_id) w of
         Inl _ \<Rightarrow> (None, w) | Inr w1 \<Rightarrow> (Some new_id, w1))"

definition request_cancellation :: "int \<Rightarrow> int \<Rightarrow> index_world \<Rightarrow> index_world" where
  "request_cancellation now i = set_attempt now i (\<lambda>a. a\<lparr>ia_cancellation_requested := True\<rparr>)"

definition set_total_batches :: "int \<Rightarrow> int \<Rightarrow> int \<Rightarrow> index_world \<Rightarrow> index_world" where
  "set_total_batches now i total_batches = set_attempt now i (\<lambda>a. a\<lparr>ia_total_batches := Some total_batches\<rparr>)"

definition update_batch_completion_and_docs :: "int \<Rightarrow> int \<Rightarrow> int \<Rightarrow> int \<Rightarrow> int \<Rightarrow> index_world \<Rightarrow> index_world result" where
  "update_batch_completion_and_docs now i total_docs_indexed new_docs_indexed total_chunks w =
    bind_r (lock_attempt w i) (\<lambda>_. Inr (set_attempt now i (\<lambda>a. a\<lparr>ia_total_docs := ia_total_docs a + total_docs_indexed,
      ia_new_docs := ia_new_docs a + new_docs_indexed, ia_completed_batches := ia_completed_batches a + 1,
      ia_total_chunks := ia_total_chunks a + total_chunks\<rparr>) w))"

definition transition_attempt_to_in_progress :: "int \<Rightarrow> int \<Rightarrow> index_world \<Rightarrow> index_world result" where
  "transition_attempt_to_in_progress now i w = bind_r (lock_attempt w i) (\<lambda>a.
    if ia_status a \<noteq> NOT_STARTED then Inl RuntimeError
    else Inr (set_attempt now i (\<lambda>a. a\<lparr>ia_status := IN_PROGRESS,
      ia_time_started := (case ia_time_started a of None \<Rightarrow> Some now | t \<Rightarrow> t)\<rparr>) w))"

definition mark_attempt_succeeded :: "int \<Rightarrow> int \<Rightarrow> index_world \<Rightarrow> index_world result" where
  "mark_attempt_succeeded now i w = bind_r (lock_attempt w i) (\<lambda>_.
    Inr (cleanup_counters i (set_attempt now i (\<lambda>a. a\<lparr>ia_status := SUCCESS, ia_task := None\<rparr>) w)))"

definition mark_attempt_partially_succeeded :: "int \<Rightarrow> int \<Rightarrow> index_world \<Rightarrow> index_world result" where
  "mark_attempt_partially_succeeded now i w = bind_r (lock_attempt w i) (\<lambda>_.
    Inr (cleanup_counters i (set_attempt now i (\<lambda>a. a\<lparr>ia_status := COMPLETED_WITH_ERRORS, ia_task := None\<rparr>) w)))"

definition started_at :: "int \<Rightarrow> attempt_row \<Rightarrow> int option" where
  "started_at now a = (case ia_time_started a of None \<Rightarrow> Some now | t \<Rightarrow> t)"

definition mark_attempt_canceled :: "int \<Rightarrow> int \<Rightarrow> string \<Rightarrow> index_world \<Rightarrow> index_world result" where
  "mark_attempt_canceled now i reason w = bind_r (lock_attempt w i) (\<lambda>_.
    Inr (cleanup_counters i (set_attempt now i (\<lambda>a. a\<lparr>ia_time_started := started_at now a, ia_status := CANCELED,
      ia_error_msg := Some reason\<rparr>) w)))"

definition mark_attempt_failed :: "int \<Rightarrow> int \<Rightarrow> string \<Rightarrow> index_world \<Rightarrow> index_world result" where
  "mark_attempt_failed now i failure_reason w = bind_r (lock_attempt w i) (\<lambda>_.
    Inr (cleanup_counters i (set_attempt now i (\<lambda>a. a\<lparr>ia_time_started := started_at now a, ia_status := FAILED,
      ia_error_msg := Some failure_reason, ia_task := None\<rparr>) w)))"

definition expire_index_attempts :: "int \<Rightarrow> int \<Rightarrow> index_world \<Rightarrow> index_world" where
  "expire_index_attempts now search_settings_id w =
    (let w1 = update_attempts now (\<lambda>a. ia_settings a = Some search_settings_id \<and> ia_status a = NOT_STARTED)
           (\<lambda>a. a\<lparr>ia_status := CANCELED, ia_error_msg := Some ''Canceled, likely due to model swap''\<rparr>) w
     in update_attempts now (\<lambda>a. ia_settings a = Some search_settings_id \<and> ia_status a \<noteq> SUCCESS)
          (\<lambda>a. a\<lparr>ia_status := FAILED, ia_error_msg := Some ''Canceled due to embedding model swap''\<rparr>) w1)"

text \<open>The settings come with the status of their model.\<close>

definition cancel_indexing_attempts_for_ccpair :: "int \<Rightarrow> (int \<Rightarrow> model_status) \<Rightarrow> int \<Rightarrow> bool \<Rightarrow> index_world \<Rightarrow> index_world" where
  "cancel_indexing_attempts_for_ccpair now settings cc_pair_id include_secondary_index =
    update_attempts now (\<lambda>a. ia_cc_pair a = cc_pair_id \<and> ia_status a = NOT_STARTED
        \<and> (include_secondary_index \<or> (case ia_settings a of None \<Rightarrow> False | Some s \<Rightarrow> settings s \<noteq> FUTURE)))
      (\<lambda>a. a\<lparr>ia_status := CANCELED, ia_error_msg := Some ''Canceled by user'', ia_time_started := Some now\<rparr>)"

definition cancel_indexing_attempts_past_model :: "int \<Rightarrow> (int \<Rightarrow> model_status) \<Rightarrow> index_world \<Rightarrow> index_world" where
  "cancel_indexing_attempts_past_model now settings =
    update_attempts now (\<lambda>a. running a \<and> (case ia_settings a of None \<Rightarrow> False | Some s \<Rightarrow> settings s = PAST)) (\<lambda>a. a\<lparr>ia_status := FAILED\<rparr>)"

definition cancel_indexing_attempts_for_search_settings :: "int \<Rightarrow> int \<Rightarrow> index_world \<Rightarrow> index_world" where
  "cancel_indexing_attempts_for_search_settings now search_settings_id =
    update_attempts now (\<lambda>a. running a \<and> ia_settings a = Some search_settings_id) (\<lambda>a. a\<lparr>ia_status := FAILED\<rparr>)"

definition heartbeat :: "int \<Rightarrow> int \<Rightarrow> index_world \<Rightarrow> index_world" where
  "heartbeat now i = update_attempts now (\<lambda>a. ia_id a = i) (\<lambda>a. a\<lparr>ia_heartbeat_counter := ia_heartbeat_counter a + 1\<rparr>)"

section \<open>Errors of documents\<close>

text \<open>A failure names a document or an entity.\<close>

record connector_failure =
  cf_document :: "string option"
  cf_entity :: "string option"

definition create_index_attempt_error :: "int \<Rightarrow> int \<Rightarrow> connector_failure \<Rightarrow> index_world \<Rightarrow> index_world result" where
  "create_index_attempt_error i cc_pair_id failure w = (if get_index_attempt w i = None then Inl IntegrityError
     else Inr (w\<lparr>t_attempt_errors := t_attempt_errors w @ [\<lparr>ae_attempt = i, ae_cc_pair = cc_pair_id, ae_document = cf_document failure,
       ae_entity = cf_entity failure, ae_resolved = False\<rparr>]\<rparr>))"

definition count_error_rows_for_index_attempt :: "int \<Rightarrow> index_world \<Rightarrow> int" where
  "count_error_rows_for_index_attempt i w = int (length (filter (\<lambda>e. ae_attempt e = i) (t_attempt_errors w)))"

definition resolve_errors :: "(attempt_error_row \<Rightarrow> bool) \<Rightarrow> int \<Rightarrow> index_world \<Rightarrow> index_world" where
  "resolve_errors p cc_pair_id w = w\<lparr>t_attempt_errors := map (\<lambda>e. if ae_cc_pair e = cc_pair_id \<and> \<not> ae_resolved e \<and> p e
     then e\<lparr>ae_resolved := True\<rparr> else e) (t_attempt_errors w)\<rparr>"

definition resolve_indexing_entity_errors :: "int \<Rightarrow> index_world \<Rightarrow> index_world" where
  "resolve_indexing_entity_errors = resolve_errors (\<lambda>e. truthy (ae_entity e))"

definition resolve_indexing_document_errors :: "int \<Rightarrow> connector_failure list \<Rightarrow> batch \<Rightarrow> index_world \<Rightarrow> index_world" where
  "resolve_indexing_document_errors cc_pair_id failures document_batch =
    (let failed = List.map_filter cf_document failures; successful = filter (\<lambda>d. d \<notin> set failed) document_batch
     in resolve_errors (\<lambda>e. truthy (ae_document e) \<and> the (ae_document e) \<in> set successful) cc_pair_id)"

record coordination_status =
  cs_found :: bool
  cs_total_batches :: "int option"
  cs_completed_batches :: int
  cs_total_failures :: int
  cs_total_docs :: int
  cs_cancellation_requested :: bool

definition get_coordination_status :: "index_world \<Rightarrow> int \<Rightarrow> coordination_status" where
  "get_coordination_status w i = (case get_index_attempt w i of
     None \<Rightarrow> \<lparr>cs_found = False, cs_total_batches = None, cs_completed_batches = 0, cs_total_failures = 0, cs_total_docs = 0,
       cs_cancellation_requested = False\<rparr>
   | Some a \<Rightarrow> \<lparr>cs_found = True, cs_total_batches = ia_total_batches a, cs_completed_batches = ia_completed_batches a,
       cs_total_failures = count_error_rows_for_index_attempt i w, cs_total_docs = ia_total_docs a,
       cs_cancellation_requested = ia_cancellation_requested a\<rparr>)"

text \<open>More than three failures and more than a tenth of the documents; the quotient of floating-point numbers
  compares like the fractions as long as both numbers stay below \<open>2 ^ 49\<close>.\<close>

definition check_failure_threshold :: "bool \<Rightarrow> int \<Rightarrow> int \<Rightarrow> unit result" where
  "check_failure_threshold persistent_indexing total_failures document_count =
    (if persistent_indexing then Inr ()
     else if total_failures > 3 \<and> 10 * total_failures > (if document_count = 0 then 1 else document_count) then Inl RuntimeError
     else Inr ())"

end
