(* ===== verification/IndexTasks.thy ===== *)
theory IndexTasks
  imports IndexAttempts
begin

text \<open>
  The tasks of an indexing attempt: processing one batch (\<open>docprocessing_task\<close>), fetching documents into
  batches (\<open>connector_document_extraction\<close>), and the monitor's checks (\<open>check_for_indexing\<close>).  A task
  whose statements other workers can come between is a function from one control point to the next; running a task takes
  these steps in order, with what others do in between as an argument.
\<close>

section \<open>Processing a batch\<close>

record pipeline_result =
  pr_total_docs :: int
  pr_new_docs :: int
  pr_total_chunks :: int
  pr_failures :: "connector_failure list"

text \<open>What a task meets: the clock, the configuration, the usage limit (the text of the error), the connector's stop
  signal, reading the batch, the indexing pipeline, and releasing the lock on the counts, which fails when the lock timed out,
  and deleting the file.\<close>

record task_env =
  te_now :: int
  te_persistent :: bool
  te_over_limit :: "string option"
  te_stop :: bool
  te_load :: "unit result"
  te_pipeline :: "batch \<Rightarrow> pipeline_result result"
  te_release :: "unit result"
  te_delete :: "unit result"

text \<open>The control points.  \<open>Ended\<close> also says whether the task counted the batch.\<close>

datatype task_point = Queued | Loaded batch | Counted batch pipeline_result | Resolved batch pipeline_result
  | Recorded batch pipeline_result | Ended bool

definition on_docprocessing_task_prerun :: "int \<Rightarrow> int \<Rightarrow> index_world \<Rightarrow> index_world" where
  "on_docprocessing_task_prerun now i w = decr_pending_incr_in_flight i (heartbeat now i w)"

definition on_docprocessing_task_postrun :: "int \<Rightarrow> index_world \<Rightarrow> index_world" where
  "on_docprocessing_task_postrun = decr_in_flight"

definition ended :: "int \<Rightarrow> bool \<Rightarrow> index_world \<Rightarrow> task_point \<times> index_world" where
  "ended i counted w = (Ended counted, on_docprocessing_task_postrun i w)"

text \<open>Persistent indexing turns an exception into rows of errors, and counts the batch.\<close>

definition build_generic_connector_failure :: "string option \<Rightarrow> string option \<Rightarrow> connector_failure result" where
  "build_generic_connector_failure document entity_id = (if (document = None) = (entity_id = None) then Inl ValueError
     else Inr (case document of Some d \<Rightarrow> \<lparr>cf_document = Some d, cf_entity = None\<rparr> | None \<Rightarrow> \<lparr>cf_document = None, cf_entity = entity_id\<rparr>))"

definition record_generic_failure :: "int \<Rightarrow> int \<Rightarrow> connector_failure result \<Rightarrow> index_world \<Rightarrow> index_world" where
  "record_generic_failure i cc_pair_id failure w =
    (case bind_r failure (\<lambda>f. create_index_attempt_error i cc_pair_id f w) of Inl _ \<Rightarrow> w | Inr w1 \<Rightarrow> w1)"

definition batch_entity_id :: "int \<Rightarrow> int \<Rightarrow> string" where
  "batch_entity_id i batch_num = ''docprocessing:attempt_'' @ int_str i @ '':batch_'' @ int_str batch_num"

definition record_docprocessing_failure_persistent :: "int \<Rightarrow> batch_task \<Rightarrow> batch \<Rightarrow> index_world \<Rightarrow> index_world" where
  "record_docprocessing_failure_persistent now t documents w = (case t of (c, i, n) \<Rightarrow>
    (let w1 = (if documents \<noteq> [] then fold (\<lambda>d. record_generic_failure i c (build_generic_connector_failure (Some d) None)) documents w
           else record_generic_failure i c (build_generic_connector_failure None (Some (batch_entity_id i n))) w)
     in case update_batch_completion_and_docs now i 0 0 0 w1 of Inl _ \<Rightarrow> w1 | Inr w2 \<Rightarrow> w2))"

definition task_failed :: "task_env \<Rightarrow> batch_task \<Rightarrow> batch \<Rightarrow> bool \<Rightarrow> index_world \<Rightarrow> task_point \<times> index_world" where
  "task_failed e t documents counted w = (case t of (_, i, _) \<Rightarrow>
    if te_persistent e then ended i True (record_docprocessing_failure_persistent (te_now e) t documents w)
    else ended i counted w)"

definition docprocessing_checks :: "task_env \<Rightarrow> int \<Rightarrow> index_world \<Rightarrow> unit result" where
  "docprocessing_checks e i w = (case get_index_attempt w i of None \<Rightarrow> Inl RuntimeError
   | Some a \<Rightarrow> if ia_settings a = None then Inl ValueError
       else if ia_task a = None \<or> is_terminal (ia_status a) then Inl RuntimeError
       else if te_stop e then Inl RuntimeError else Inr ())"

text \<open>Rows of errors are committed one by one.\<close>

fun create_index_attempt_errors :: "int \<Rightarrow> int \<Rightarrow> connector_failure list \<Rightarrow> index_world \<Rightarrow> unit result \<times> index_world" where
  "create_index_attempt_errors i cc_pair_id [] w = (Inr (), w)"
| "create_index_attempt_errors i cc_pair_id (f # fs) w = (case create_index_attempt_error i cc_pair_id f w of
     Inl err \<Rightarrow> (Inl err, w) | Inr w1 \<Rightarrow> create_index_attempt_errors i cc_pair_id fs w1)"

definition load_step :: "task_env \<Rightarrow> batch_task \<Rightarrow> index_world \<Rightarrow> task_point \<times> index_world" where
  "load_step e t w0 = (case t of (c, i, n) \<Rightarrow> let w = on_docprocessing_task_prerun (te_now e) i w0 in
    case te_over_limit e of
      Some detail \<Rightarrow> ended i False (case mark_attempt_failed (te_now e) i detail w of Inl _ \<Rightarrow> w | Inr w1 \<Rightarrow> w1)
    | None \<Rightarrow> (case te_load e of Inl _ \<Rightarrow> task_failed e t [] False w
      | Inr _ \<Rightarrow> (let documents = (case get_batch c i n (w_files w) of None \<Rightarrow> [] | Some docs \<Rightarrow> docs) in
          if documents = [] then ended i False w
          else case docprocessing_checks e i w of Inl _ \<Rightarrow> task_failed e t documents False w | Inr _ \<Rightarrow> (Loaded documents, w))))"

definition count_step :: "task_env \<Rightarrow> batch_task \<Rightarrow> batch \<Rightarrow> index_world \<Rightarrow> task_point \<times> index_world" where
  "count_step e t documents w = (case t of (c, i, n) \<Rightarrow>
    case te_pipeline e documents of Inl _ \<Rightarrow> task_failed e t documents False w
    | Inr r \<Rightarrow> (case update_batch_completion_and_docs (te_now e) i (pr_total_docs r) (pr_new_docs r) (pr_total_chunks r) w of
        Inl _ \<Rightarrow> task_failed e t documents False w | Inr w1 \<Rightarrow> (Counted documents r, w1)))"

definition resolve_step :: "task_env \<Rightarrow> batch_task \<Rightarrow> batch \<Rightarrow> pipeline_result \<Rightarrow> index_world \<Rightarrow> task_point \<times> index_world" where
  "resolve_step e t documents r w = (case t of (c, i, n) \<Rightarrow>
    let w1 = resolve_indexing_document_errors c (pr_failures r) documents w in
    case te_release e of Inl _ \<Rightarrow> task_failed e t documents True w1 | Inr _ \<Rightarrow> (Resolved documents r, w1))"

definition record_step :: "task_env \<Rightarrow> batch_task \<Rightarrow> batch \<Rightarrow> pipeline_result \<Rightarrow> index_world \<Rightarrow> task_point \<times> index_world" where
  "record_step e t documents r w = (case t of (c, i, n) \<Rightarrow>
    case create_index_attempt_errors i c (pr_failures r) w of
      (Inl _, w1) \<Rightarrow> task_failed e t documents True w1 | (Inr _, w1) \<Rightarrow> (Recorded documents r, w1))"

definition finish_step :: "task_env \<Rightarrow> batch_task \<Rightarrow> batch \<Rightarrow> pipeline_result \<Rightarrow> index_world \<Rightarrow> task_point \<times> index_world" where
  "finish_step e t documents r w = (case t of (c, i, n) \<Rightarrow>
    let status = get_coordination_status w i;
        threshold = (if pr_failures r = [] then Inr ()
          else check_failure_threshold (te_persistent e) (cs_total_failures status) (cs_total_docs status))
    in case threshold of Inl _ \<Rightarrow> task_failed e t documents True w
     | Inr _ \<Rightarrow> (case te_delete e of Inl _ \<Rightarrow> task_failed e t documents True w
         | Inr _ \<Rightarrow> ended i True (w\<lparr>w_files := delete_batch_by_num c i n (w_files w)\<rparr>)))"

fun task_step :: "task_env \<Rightarrow> batch_task \<Rightarrow> task_point \<Rightarrow> index_world \<Rightarrow> task_point \<times> index_world" where
  "task_step e t Queued w = load_step e t w"
| "task_step e t (Loaded documents) w = count_step e t documents w"
| "task_step e t (Counted documents r) w = resolve_step e t documents r w"
| "task_step e t (Resolved documents r) w = record_step e t documents r w"
| "task_step e t (Recorded documents r) w = finish_step e t documents r w"
| "task_step e t (Ended counted) w = (Ended counted, w)"

fun run_task :: "nat \<Rightarrow> task_env \<Rightarrow> batch_task \<Rightarrow> (nat \<Rightarrow> index_world \<Rightarrow> index_world) \<Rightarrow> task_point \<Rightarrow> index_world \<Rightarrow> task_point \<times> index_world" where
  "run_task 0 e t others p w = (p, w)"
| "run_task (Suc k) e t others p w = (case task_step e t p w of
     (Ended counted, w1) \<Rightarrow> (Ended counted, w1) | (p1, w1) \<Rightarrow> run_task k e t others p1 (others k w1))"

definition docprocessing_task :: "task_env \<Rightarrow> batch_task \<Rightarrow> (nat \<Rightarrow> index_world \<Rightarrow> index_world) \<Rightarrow> index_world \<Rightarrow> task_point \<times> index_world" where
  "docprocessing_task e t others w = run_task 5 e t others Queued w"

section \<open>Fetching documents\<close>

definition enqueue_batch :: "batch_task \<Rightarrow> index_world \<Rightarrow> index_world" where
  "enqueue_batch t w = (case t of (_, i, _) \<Rightarrow> (incr_pending i w)\<lparr>w_queue := w_queue w @ [t]\<rparr>)"

text \<open>Attempts of a pair and settings, the last updated first.\<close>

definition attempts_of :: "index_world \<Rightarrow> int \<Rightarrow> int \<Rightarrow> attempt_row list" where
  "attempts_of w cc_pair_id search_settings_id = sort_key (\<lambda>a. - ia_time_updated a)
    (filter (\<lambda>a. ia_cc_pair a = cc_pair_id \<and> ia_settings a = Some search_settings_id \<and> ia_job a = None) (t_attempts w))"

definition get_last_attempt_for_cc_pair :: "index_world \<Rightarrow> int \<Rightarrow> int \<Rightarrow> attempt_row option" where
  "get_last_attempt_for_cc_pair w cc_pair_id search_settings_id =
    (case attempts_of w cc_pair_id search_settings_id of [] \<Rightarrow> None | a # _ \<Rightarrow> Some a)"

definition get_recent_attempts_for_cc_pair :: "index_world \<Rightarrow> int \<Rightarrow> int \<Rightarrow> nat \<Rightarrow> attempt_row list" where
  "get_recent_attempts_for_cc_pair w cc_pair_id search_settings_id limit = take limit (attempts_of w cc_pair_id search_settings_id)"

definition get_recent_completed_attempts_for_cc_pair :: "index_world \<Rightarrow> int \<Rightarrow> int \<Rightarrow> nat \<Rightarrow> attempt_row list" where
  "get_recent_completed_attempts_for_cc_pair w cc_pair_id search_settings_id limit =
    take limit (filter (\<lambda>a. \<not> running a) (attempts_of w cc_pair_id search_settings_id))"

text \<open>Batches left over are renamed to the new attempt, and a task is sent for each; a batch of another pair is an error,
  found after the renaming.\<close>

fun reissue_tasks :: "int \<Rightarrow> int \<Rightarrow> string list \<Rightarrow> index_world \<Rightarrow> unit result \<times> index_world" where
  "reissue_tasks cc_pair_id i [] w = (Inr (), w)"
| "reissue_tasks cc_pair_id i (batch_id # batch_ids) w = (case extract_path_info batch_id of
     None \<Rightarrow> reissue_tasks cc_pair_id i batch_ids w
   | Some (c, _, batch_num) \<Rightarrow> if c \<noteq> cc_pair_id then (Inl RuntimeError, w)
       else reissue_tasks cc_pair_id i batch_ids (enqueue_batch (cc_pair_id, i, batch_num) w))"

definition reissue_old_batches :: "int \<Rightarrow> int \<Rightarrow> attempt_row option \<Rightarrow> index_world \<Rightarrow> (int \<times> int) result \<times> index_world" where
  "reissue_old_batches cc_pair_id i most_recent_attempt w =
    (let old_batches = get_all_batches_for_cc_pair cc_pair_id (w_files w)
     in case update_old_batches cc_pair_id i old_batches (w_files w) of Inl err \<Rightarrow> (Inl err, w)
      | Inr files \<Rightarrow> (case reissue_tasks cc_pair_id i old_batches (w\<lparr>w_files := files\<rparr>) of
          (Inl err, w1) \<Rightarrow> (Inl err, w1)
        | (Inr _, w1) \<Rightarrow> (Inr (int (length old_batches),
            case most_recent_attempt of None \<Rightarrow> 0 | Some a \<Rightarrow> ia_completed_batches a), w1)))"

text \<open>Before the loop: the number of the first batch, and the batches the earlier attempt completed.  The kind of connector, whether a checkpoint was found and whether
  it has more come from the connector; the bounds of the polling window, set here with the time of the update, are left out.\<close>

definition most_recent_attempt :: "index_world \<Rightarrow> int \<Rightarrow> int \<Rightarrow> attempt_row option" where
  "most_recent_attempt w cc_pair_id search_settings_id =
    (case get_recent_completed_attempts_for_cc_pair w cc_pair_id search_settings_id 1 of [] \<Rightarrow> None | a # _ \<Rightarrow> Some a)"

definition prepare_attempt :: "int \<Rightarrow> int \<Rightarrow> attempt_row \<Rightarrow> index_world \<Rightarrow> index_world" where
  "prepare_attempt now i a w = update_attempts now (\<lambda>a. ia_id a = i) id (set_cc_pair (ia_cc_pair a) (\<lambda>p. p\<lparr>cp_trigger := None\<rparr>) w)"

definition resumes :: "bool \<Rightarrow> bool \<Rightarrow> bool \<Rightarrow> attempt_row \<Rightarrow> attempt_row option \<Rightarrow> bool" where
  "resumes checkpointed resuming has_more a recent \<longleftrightarrow>
     \<not> (ia_from_beginning a \<or> (case recent of None \<Rightarrow> False | Some b \<Rightarrow> is_successful (ia_status b)))
     \<and> (checkpointed \<and> resuming \<or> (case recent of None \<Rightarrow> False | Some b \<Rightarrow> ia_total_batches b \<noteq> None \<and> \<not> has_more))"

definition start_extraction :: "int \<Rightarrow> bool \<Rightarrow> bool \<Rightarrow> bool \<Rightarrow> int \<Rightarrow> int \<Rightarrow> index_world \<Rightarrow> (int \<times> int) result \<times> index_world" where
  "start_extraction now checkpointed resuming has_more cc_pair_id i w = (case get_index_attempt w i of
     None \<Rightarrow> (Inl RuntimeError, w)
   | Some a \<Rightarrow> (case ia_settings a of None \<Rightarrow> (Inl ValueError, w)
     | Some s \<Rightarrow>
       (let w1 = prepare_attempt now i a w; recent = most_recent_attempt w cc_pair_id s
        in if \<not> resumes checkpointed resuming has_more a recent
           then (Inr (0, ia_completed_batches a), w1\<lparr>w_files := cleanup_all_batches cc_pair_id (w_files w1)\<rparr>)
           else case reissue_old_batches cc_pair_id i recent w1 of (Inl err, w2) \<Rightarrow> (Inl err, w2)
             | (Inr (reissued, completed), w2) \<Rightarrow> (Inr (reissued + completed, completed), w2))))"

text \<open>The count of the earlier attempt is written after the tasks are sent, over whatever the workers have counted by then;
  a flush writes nothing when the value is the one that was loaded.\<close>

definition set_completed_batches :: "int \<Rightarrow> int \<Rightarrow> int \<Rightarrow> int \<Rightarrow> index_world \<Rightarrow> index_world" where
  "set_completed_batches now i loaded completed w =
    (if completed = loaded then w else set_attempt now i (\<lambda>a. a\<lparr>ia_completed_batches := completed\<rparr>) w)"

text \<open>The loop: what is counted while it runs, what the task meets, and how it ends.\<close>

record fetch_state =
  fs_batch_num :: int
  fs_queued :: int
  fs_failures :: int
  fs_documents :: int

record fetch_env =
  fe_now :: int
  fe_persistent :: bool
  fe_stop :: bool
  fe_settings_status :: model_status

datatype fetch_error = StopSignal | ValidationFailed | OtherFailure

definition check_connector_and_attempt_status :: "model_status \<Rightarrow> int \<Rightarrow> int \<Rightarrow> index_world \<Rightarrow> fetch_error option" where
  "check_connector_and_attempt_status search_settings_status cc_pair_id i w = (case get_cc_pair w cc_pair_id of
     None \<Rightarrow> Some OtherFailure
   | Some p \<Rightarrow> if cp_status p = PAUSED \<and> search_settings_status \<noteq> FUTURE \<or> cp_status p = DELETING then Some StopSignal
       else (case get_index_attempt w i of None \<Rightarrow> Some OtherFailure
         | Some a \<Rightarrow> if ia_status a = CANCELED then Some StopSignal else if ia_status a \<noteq> IN_PROGRESS then Some OtherFailure
             else if ia_task a = None then Some OtherFailure else None))"

text \<open>One item of the connector: a batch of documents, possibly empty, and a failure.\<close>

definition record_connector_failure ::
  "fetch_env \<Rightarrow> int \<Rightarrow> int \<Rightarrow> connector_failure option \<Rightarrow> fetch_state \<Rightarrow> index_world \<Rightarrow> fetch_error option \<times> fetch_state \<times> index_world" where
  "record_connector_failure e cc_pair_id i failure fs w = (case failure of None \<Rightarrow> (None, fs, w)
   | Some f \<Rightarrow> (let fs1 = fs\<lparr>fs_failures := fs_failures fs + 1\<rparr> in
       case create_index_attempt_error i cc_pair_id f w of Inl _ \<Rightarrow> (Some OtherFailure, fs1, w)
       | Inr w1 \<Rightarrow> (case check_failure_threshold (fe_persistent e) (fs_failures fs1) (fs_documents fs1) of
           Inl _ \<Rightarrow> (Some OtherFailure, fs1, w1) | Inr _ \<Rightarrow> (None, fs1, w1))))"

definition queue_batch :: "int \<Rightarrow> int \<Rightarrow> batch \<Rightarrow> fetch_state \<Rightarrow> index_world \<Rightarrow> fetch_state \<times> index_world" where
  "queue_batch cc_pair_id i documents fs w = (if documents = [] then (fs, w)
     else (fs\<lparr>fs_batch_num := fs_batch_num fs + 1, fs_queued := fs_queued fs + 1, fs_documents := fs_documents fs + int (length documents)\<rparr>,
       enqueue_batch (cc_pair_id, i, fs_batch_num fs)
         (w\<lparr>w_files := store_batch cc_pair_id i (fs_batch_num fs) documents (w_files w)\<rparr>)))"

definition fetch_item :: "fetch_env \<Rightarrow> int \<Rightarrow> int \<Rightarrow> batch \<times> connector_failure option \<Rightarrow> fetch_state \<Rightarrow> index_world
    \<Rightarrow> fetch_error option \<times> fetch_state \<times> index_world" where
  "fetch_item e cc_pair_id i item fs w = (if fe_stop e then (Some StopSignal, fs, w)
     else case check_connector_and_attempt_status (fe_settings_status e) cc_pair_id i w of Some err \<Rightarrow> (Some err, fs, w)
     | None \<Rightarrow> (case record_connector_failure e cc_pair_id i (snd item) fs w of (Some err, fs1, w1) \<Rightarrow> (Some err, fs1, w1)
         | (None, fs1, w1) \<Rightarrow> (None, queue_batch cc_pair_id i (fst item) fs1 w1)))"

definition validation_prefix :: string where
  "validation_prefix = ''ConnectorValidationError:''"

text \<open>The handler of exceptions; \<open>message\<close> is the text of the exception.\<close>

definition extraction_failed :: "int \<Rightarrow> bool \<Rightarrow> string \<Rightarrow> fetch_error \<Rightarrow> int \<Rightarrow> int \<Rightarrow> int \<Rightarrow> index_world \<Rightarrow> index_world" where
  "extraction_failed now is_primary message err cc_pair_id i search_settings_id w = (case err of
     ValidationFailed \<Rightarrow> (case mark_attempt_canceled now i (validation_prefix @ message) w of Inl _ \<Rightarrow> w
       | Inr w1 \<Rightarrow>
         let recent = get_recent_completed_attempts_for_cc_pair w1 cc_pair_id search_settings_id 5;
             errors = filter (\<lambda>a. case ia_error_msg a of None \<Rightarrow> False | Some m \<Rightarrow> prefix validation_prefix m) recent
         in if is_primary \<and> length errors \<ge> 5 then set_cc_pair cc_pair_id (\<lambda>p. p\<lparr>cp_status := INVALID\<rparr>) w1 else w1)
   | StopSignal \<Rightarrow> (case mark_attempt_canceled now i message w of Inl _ \<Rightarrow> w | Inr w1 \<Rightarrow> w1)
   | OtherFailure \<Rightarrow> (case get_index_attempt w i of
       Some a \<Rightarrow> if ia_status a = CANCELED \<or> ia_status a = FAILED then w
         else (case mark_attempt_failed now i message w of Inl _ \<Rightarrow> w | Inr w1 \<Rightarrow> w1)
     | None \<Rightarrow> w))"

text \<open>What the connector yields: items, or an exception that ends it.\<close>

fun extract_items :: "fetch_env \<Rightarrow> int \<Rightarrow> int \<Rightarrow> (nat \<Rightarrow> index_world \<Rightarrow> index_world) \<Rightarrow> (fetch_error + batch \<times> connector_failure option) list
    \<Rightarrow> fetch_state \<Rightarrow> index_world \<Rightarrow> fetch_error option \<times> fetch_state \<times> index_world" where
  "extract_items e cc_pair_id i others [] fs w = (None, fs, w)"
| "extract_items e cc_pair_id i others (Inl err # items) fs w = (Some err, fs, w)"
| "extract_items e cc_pair_id i others (Inr item # items) fs w =
    (case fetch_item e cc_pair_id i item fs w of (Some err, fs1, w1) \<Rightarrow> (Some err, fs1, w1)
     | (None, fs1, w1) \<Rightarrow> extract_items e cc_pair_id i others items fs1 (others (length items) w1))"

definition extraction_loop :: "fetch_env \<Rightarrow> int \<Rightarrow> int \<Rightarrow> int \<Rightarrow> string \<Rightarrow> (nat \<Rightarrow> index_world \<Rightarrow> index_world)
    \<Rightarrow> (fetch_error + batch \<times> connector_failure option) list \<Rightarrow> int \<Rightarrow> index_world \<Rightarrow> index_world" where
  "extraction_loop e cc_pair_id i s message others items last_batch_num w =
    (case extract_items e cc_pair_id i others items \<lparr>fs_batch_num = last_batch_num, fs_queued = 0, fs_failures = 0, fs_documents = 0\<rparr> w of
       (None, fs, w1) \<Rightarrow> set_total_batches (fe_now e) i (fs_batch_num fs) w1
     | (Some err, _, w1) \<Rightarrow> extraction_failed (fe_now e) (fe_settings_status e = PRESENT) message err cc_pair_id i s w1)"

section \<open>The monitor\<close>

definition mark_completed :: "int \<Rightarrow> int \<Rightarrow> coordination_status \<Rightarrow> index_world \<Rightarrow> index_world result" where
  "mark_completed now i status w = (if cs_total_failures status = 0 then mark_attempt_succeeded now i w
     else mark_attempt_partially_succeeded now i w)"

text \<open>The pair after its attempt; the time of the last success is only written if a commit follows.\<close>

definition complete_pair :: "int \<Rightarrow> coordination_status \<Rightarrow> index_world \<Rightarrow> index_world result" where
  "complete_pair i status w = bind_r (lock_attempt w i) (\<lambda>a. case get_cc_pair w (ia_cc_pair a) of None \<Rightarrow> Inl RuntimeError
     | Some p \<Rightarrow>
       (let initial = cp_status p \<in> {SCHEDULED, INITIAL_INDEXING};
            committed = initial \<or> cp_repeated_error p \<or> cs_total_failures status = 0;
            w1 = (if committed then set_cc_pair (ia_cc_pair a) (\<lambda>p. p\<lparr>cp_last_success := Some (ia_time_updated a),
                   cp_status := (if initial then ACTIVE else cp_status p), cp_repeated_error := False\<rparr>) w else w)
        in Inr (if cs_total_failures status = 0 then resolve_indexing_entity_errors (ia_cc_pair a) w1 else w1)))"

definition check_indexing_completion :: "int \<Rightarrow> int \<Rightarrow> coordination_status \<Rightarrow> int \<Rightarrow> index_world \<Rightarrow> index_world result" where
  "check_indexing_completion now i status storage_cc_pair w = (case cs_total_batches status of None \<Rightarrow> Inr w
   | Some total_batches \<Rightarrow> if cs_completed_batches status < total_batches then Inr w
     else bind_r (mark_completed now i status w) (\<lambda>w1. bind_r (complete_pair i status w1) (\<lambda>w2.
       Inr (w2\<lparr>w_files := cleanup_all_batches storage_cc_pair (w_files w2)\<rparr>))))"

text \<open>The completion check on a status that was read before; an exception, which comes after the attempt was marked or when it is
  not there, fails the attempt.\<close>

definition complete_attempt :: "int \<Rightarrow> int \<Rightarrow> int \<Rightarrow> coordination_status \<Rightarrow> index_world \<Rightarrow> index_world" where
  "complete_attempt now i cc_pair_id status w = (case check_indexing_completion now i status cc_pair_id w of Inr w1 \<Rightarrow> w1
   | Inl _ \<Rightarrow>
     (let w1 = (case mark_completed now i status w of Inl _ \<Rightarrow> w | Inr w1 \<Rightarrow> w1);
          w2 = (case mark_attempt_failed now i ''Processing monitoring failed'' w1 of Inl _ \<Rightarrow> w1 | Inr w2 \<Rightarrow> w2)
      in w2\<lparr>w_files := cleanup_all_batches cc_pair_id (w_files w2)\<rparr>))"

text \<open>Reading the status: what it finds, unless the attempt was canceled or has nothing to monitor.\<close>

definition read_progress :: "int \<Rightarrow> int \<Rightarrow> index_world \<Rightarrow> coordination_status option \<times> index_world" where
  "read_progress now i w = (case get_index_attempt w i of None \<Rightarrow> (None, w)
   | Some a \<Rightarrow> if \<not> truthy (ia_task a) then (None, w)
     else case get_cc_pair w (ia_cc_pair a) of None \<Rightarrow> (None, w)
     | Some p \<Rightarrow>
       (let w1 = (if cp_status p = SCHEDULED then set_cc_pair (ia_cc_pair a) (\<lambda>p. p\<lparr>cp_status := INITIAL_INDEXING\<rparr>) w else w);
            status = get_coordination_status w1 i
        in if cs_cancellation_requested status then (None, case mark_attempt_canceled now i ''Unknown'' w1 of Inl _ \<Rightarrow> w1 | Inr w2 \<Rightarrow> w2)
           else (Some status, w1)))"

definition monitor_indexing_attempt_progress :: "int \<Rightarrow> (index_world \<Rightarrow> index_world) \<Rightarrow> int \<Rightarrow> int \<Rightarrow> index_world \<Rightarrow> index_world" where
  "monitor_indexing_attempt_progress now others i cc_pair_id w = (case read_progress now i w of (None, w1) \<Rightarrow> w1
   | (Some status, w1) \<Rightarrow> complete_attempt now i cc_pair_id status (others w1))"


section \<open>Validation of running attempts\<close>

text \<open>Times are in seconds: thirty minutes without a heartbeat, twelve hours without a start.\<close>

definition heartbeat_timeout_seconds :: int where
  "heartbeat_timeout_seconds = 1800"

definition not_started_seconds :: int where
  "not_started_seconds = 43200"

text \<open>Invalidating needs a stale heartbeat, and, once the batches are all known, no backlog that waits for workers.
  Counters that cannot be read count as zero.\<close>

definition backlog :: "index_world \<Rightarrow> attempt_row \<Rightarrow> bool" where
  "backlog w a \<longleftrightarrow> ia_total_batches a \<noteq> None \<and> w_redis_up w \<and> max 0 (counter (w_in_flight w) (ia_id a)) = 0
     \<and> max 0 (counter (w_pending w) (ia_id a)) > 0"

definition validate_attempt :: "int \<Rightarrow> int \<Rightarrow> index_world \<Rightarrow> index_world" where
  "validate_attempt now i w = (case get_index_attempt w i of None \<Rightarrow> w
   | Some a \<Rightarrow> if is_terminal (ia_status a) then w
     else let seen = (\<lambda>w. set_attempt now i (\<lambda>a. a\<lparr>ia_last_heartbeat_value := ia_heartbeat_counter a, ia_last_heartbeat_time := Some now\<rparr>) w)
     in case ia_last_heartbeat_time a of None \<Rightarrow> seen w
     | Some last_check \<Rightarrow> if ia_heartbeat_counter a > ia_last_heartbeat_value a then seen w
         else if last_check \<ge> now - heartbeat_timeout_seconds then w
         else if backlog w a then w
         else (case mark_attempt_failed now i ''Heartbeat stale'' w of Inl _ \<Rightarrow> w | Inr w1 \<Rightarrow> w1))"

definition validate_not_started :: "int \<Rightarrow> string list \<Rightarrow> (index_world \<Rightarrow> index_world) \<Rightarrow> int \<Rightarrow> index_world \<Rightarrow> index_world" where
  "validate_not_started now live_ids others i w = (case get_index_attempt w i of None \<Rightarrow> w
   | Some a \<Rightarrow> if \<not> truthy (ia_task a) \<or> the (ia_task a) \<in> set live_ids then w
     else let w1 = others w in case get_index_attempt w1 i of None \<Rightarrow> w1
       | Some fresh \<Rightarrow> if ia_status fresh \<noteq> NOT_STARTED then w1
           else (case mark_attempt_failed now i ''Task never started'' w1 of Inl _ \<Rightarrow> w1 | Inr w2 \<Rightarrow> w2))"

definition get_stale_not_started_index_attempts :: "index_world \<Rightarrow> int \<Rightarrow> attempt_row list" where
  "get_stale_not_started_index_attempts w cutoff =
    filter (\<lambda>a. ia_status a = NOT_STARTED \<and> ia_task a \<noteq> None \<and> ia_time_created a < cutoff) (t_attempts w)"

definition validate_active_indexing_attempts :: "int \<Rightarrow> string list \<Rightarrow> (index_world \<Rightarrow> index_world) \<Rightarrow> index_world \<Rightarrow> index_world" where
  "validate_active_indexing_attempts now live_ids others w =
    (let active = filter (\<lambda>a. ia_status a = IN_PROGRESS \<and> ia_task a \<noteq> None \<and> ia_job a = None) (t_attempts w);
         w1 = fold (\<lambda>a. validate_attempt now (ia_id a)) active w;
         stale = get_stale_not_started_index_attempts w1 (now - not_started_seconds)
     in fold (\<lambda>a. validate_not_started now live_ids others (ia_id a)) stale w1)"

text \<open>Attempts that run without a task are failed.\<close>

definition fail_inconsistent :: "int \<Rightarrow> index_world \<Rightarrow> index_world" where
  "fail_inconsistent now w = fold (\<lambda>a w. case get_index_attempt w (ia_id a) of None \<Rightarrow> w
     | Some fresh \<Rightarrow> if truthy (ia_task fresh) \<or> is_terminal (ia_status fresh) then w
         else (case mark_attempt_failed now (ia_id a) ''Inconsistent index attempt found'' w of Inl _ \<Rightarrow> w | Inr w1 \<Rightarrow> w1))
     (filter (\<lambda>a. running a \<and> ia_task a = None \<and> ia_job a = None) (t_attempts w)) w"

section \<open>Scheduling\<close>

definition is_in_repeated_error_state :: "index_world \<Rightarrow> indexed_pair \<Rightarrow> int \<Rightarrow> bool" where
  "is_in_repeated_error_state w p search_settings_id =
    (let needed = (if cp_refresh_freq p \<noteq> None then 5 else 1);
         recent = get_recent_attempts_for_cc_pair w (cp_id p) search_settings_id needed
     in length recent \<ge> needed \<and> list_all (\<lambda>a. ia_status a = FAILED) recent)"

text \<open>\<open>disable_on_swap\<close> is the environment's \<open>DISABLE_INDEX_UPDATE_ON_SWAP\<close>; the settings come with their status.\<close>

definition should_index :: "bool \<Rightarrow> int \<Rightarrow> index_world \<Rightarrow> indexed_pair \<Rightarrow> int \<Rightarrow> model_status \<Rightarrow> bool \<Rightarrow> bool" where
  "should_index disable_on_swap now w p search_settings_id settings_status secondary_index_building =
    (let last = get_last_attempt_for_cc_pair w (cp_id p) search_settings_id;
         ingestion = cp_connector_id p = 0 \<or> cp_source p = INGESTION_API
     in if cp_source p = NOT_APPLICABLE then False
        else if disable_on_swap \<and> settings_status = PRESENT \<and> secondary_index_building then False
        else if settings_status = FUTURE then
          (case last of Some a \<Rightarrow> \<not> (ia_status a = SUCCESS \<or> ia_status a = NOT_STARTED \<or> ia_status a = IN_PROGRESS) | None \<Rightarrow> \<not> ingestion)
        else if \<not> pair_is_active (cp_status p) \<or> ingestion then False
        else if settings_status = PRESENT \<and> cp_trigger p \<noteq> None then True
        else case last of None \<Rightarrow> True
        | Some a \<Rightarrow> (case cp_refresh_freq p of None \<Rightarrow> False
            | Some freq \<Rightarrow> if cp_status p = INITIAL_INDEXING \<and> \<not> is_in_repeated_error_state w p search_settings_id then True
                else \<not> now - ia_time_updated a < freq))"

definition active_indexing_attempt :: "index_world \<Rightarrow> int \<Rightarrow> int \<Rightarrow> bool" where
  "active_indexing_attempt w cc_pair_id search_settings_id =
    list_ex (\<lambda>a. ia_cc_pair a = cc_pair_id \<and> ia_settings a = Some search_settings_id \<and> running a) (t_attempts w)"

text \<open>What a pair meets: whether the lock is acquired in time, whether another transaction holds the rows, the identifiers
  drawn, and whether the broker takes the task.\<close>

record kickoff_env =
  ke_now :: int
  ke_acquired :: bool
  ke_locked :: bool
  ke_new_id :: int
  ke_task_id :: string
  ke_sent :: bool

definition try_creating_docfetching_task :: "kickoff_env \<Rightarrow> int \<Rightarrow> int \<Rightarrow> bool \<Rightarrow> index_world \<Rightarrow> int option \<times> index_world" where
  "try_creating_docfetching_task e cc_pair_id search_settings_id reindex w = (if \<not> ke_acquired e then (None, w)
     else case get_cc_pair w cc_pair_id of None \<Rightarrow> (None, w)
     | Some p \<Rightarrow> if cp_status p = DELETING then (None, w)
       else (case try_create_index_attempt (ke_locked e) (ke_now e) (ke_new_id e) cc_pair_id search_settings_id (ke_task_id e) reindex w of
           (None, w1) \<Rightarrow> (None, w1)
         | (Some i, w1) \<Rightarrow> if ke_sent e then (Some i, w1)
             else (None, case mark_attempt_failed (ke_now e) i ''Unknown'' w1 of Inl _ \<Rightarrow> w1 | Inr w2 \<Rightarrow> w2)))"

datatype kickoff = created | skipped_active | skipped_not_found | skipped_not_indexable | failed_to_create

definition kickoff_pair :: "bool \<Rightarrow> kickoff_env \<Rightarrow> int \<Rightarrow> model_status \<Rightarrow> bool \<Rightarrow> int \<Rightarrow> index_world \<Rightarrow> kickoff \<times> index_world" where
  "kickoff_pair disable_on_swap e search_settings_id settings_status secondary_index_building cc_pair_id w =
    (if active_indexing_attempt w cc_pair_id search_settings_id then (skipped_active, w)
     else case get_cc_pair w cc_pair_id of None \<Rightarrow> (skipped_not_found, w)
     | Some p \<Rightarrow> if \<not> should_index disable_on_swap (ke_now e) w p search_settings_id settings_status secondary_index_building
         then (skipped_not_indexable, w)
         else let triggered = settings_status = PRESENT \<and> cp_trigger p \<noteq> None;
                  reindex = triggered \<and> cp_trigger p = Some REINDEX;
                  w1 = (if triggered then set_cc_pair cc_pair_id (\<lambda>p. p\<lparr>cp_trigger := None\<rparr>) w else w)
              in case try_creating_docfetching_task e cc_pair_id search_settings_id reindex w1 of
                   (None, w2) \<Rightarrow> (failed_to_create, w2) | (Some _, w2) \<Rightarrow> (created, w2))"

fun kickoff_indexing_tasks :: "bool \<Rightarrow> (int \<Rightarrow> kickoff_env) \<Rightarrow> int \<Rightarrow> model_status \<Rightarrow> bool \<Rightarrow> int list \<Rightarrow> index_world \<Rightarrow> kickoff list \<times> index_world" where
  "kickoff_indexing_tasks disable_on_swap env s st building [] w = ([], w)"
| "kickoff_indexing_tasks disable_on_swap env s st building (c # cs) w =
    (case kickoff_pair disable_on_swap (env c) s st building c w of (r, w1) \<Rightarrow>
       (case kickoff_indexing_tasks disable_on_swap env s st building cs w1 of (rs, w2) \<Rightarrow> (r # rs, w2)))"

end
