(* ===== verification/IndexHistory.thy ===== *)
theory IndexHistory
  imports IndexTasks
begin

text \<open>
  All interleavings of the scheduler, the fetchers, the workers and the monitor on the tables of indexing attempts.
  Every task in the queue has a control point, every attempt a phase of its fetching, and a status the monitor has read
  may be acted on at any later time.  A task runs once: the broker does not deliver it again.
\<close>

section \<open>What steps keep\<close>

definition row_keeps :: "attempt_row \<Rightarrow> attempt_row \<Rightarrow> bool" where
  "row_keeps a b \<longleftrightarrow> ia_id b = ia_id a \<and> ia_cc_pair b = ia_cc_pair a \<and> ia_settings b = ia_settings a \<and> ia_job b = ia_job a
     \<and> (running b \<longrightarrow> running a) \<and> (ia_status b = NOT_STARTED \<longrightarrow> ia_status a = NOT_STARTED)"

definition row_quiet :: "attempt_row \<Rightarrow> attempt_row \<Rightarrow> bool" where
  "row_quiet a b \<longleftrightarrow> row_keeps a b \<and> ia_total_batches b = ia_total_batches a \<and> ia_completed_batches b = ia_completed_batches a
     \<and> (is_successful (ia_status b) \<longrightarrow> is_successful (ia_status a))"

text \<open>Rows with the identifier \<open>i\<close> change by \<open>R\<close>, the others are quiet, and the queue stays.\<close>

definition world_step :: "int \<Rightarrow> (attempt_row \<Rightarrow> attempt_row \<Rightarrow> bool) \<Rightarrow> index_world \<Rightarrow> index_world \<Rightarrow> bool" where
  "world_step i R w w' \<longleftrightarrow> w_queue w' = w_queue w
     \<and> list_all2 (\<lambda>a b. if ia_id a = i then R a b else row_quiet a b) (t_attempts w) (t_attempts w')"

definition quiet :: "index_world \<Rightarrow> index_world \<Rightarrow> bool" where
  "quiet w w' \<longleftrightarrow> w_queue w' = w_queue w \<and> list_all2 row_quiet (t_attempts w) (t_attempts w')"

lemma row_quiet_refl [simp, intro]: "row_quiet a a" "row_keeps a a"
  by (auto simp: row_quiet_def row_keeps_def)

lemma row_quiet_trans: "row_quiet a b \<Longrightarrow> row_quiet b c \<Longrightarrow> row_quiet a c"
  by (auto simp: row_quiet_def row_keeps_def)

lemma quiet_refl [simp, intro]: "quiet w w"
  by (simp add: quiet_def list_all2_refl)

lemma rows_quiet_trans: "list_all2 row_quiet as bs \<Longrightarrow> list_all2 row_quiet bs cs \<Longrightarrow> list_all2 row_quiet as cs"
  by (rule list_all2_trans [of row_quiet row_quiet]) (auto intro: row_quiet_trans)

lemma quiet_trans [trans]: "quiet w w1 \<Longrightarrow> quiet w1 w2 \<Longrightarrow> quiet w w2"
  unfolding quiet_def using rows_quiet_trans by auto

lemma list_all2_map_same: "(\<And>a. R a (f a)) \<Longrightarrow> list_all2 R xs (List.map f xs)"
  by (induction xs) auto

lemma quiet_update_attempts:
  assumes "\<And>a. row_quiet a ((f a)\<lparr>ia_time_updated := now\<rparr>)"
  shows "quiet w (update_attempts now p f w)"
  using assms by (auto simp: quiet_def update_attempts_def intro!: list_all2_map_same)

lemma quiet_set_attempt:
  assumes "\<And>a. row_quiet a ((f a)\<lparr>ia_time_updated := now\<rparr>)"
  shows "quiet w (set_attempt now i f w)"
  unfolding set_attempt_def by (rule quiet_update_attempts [OF assms])

lemma quiet_same: "t_attempts w' = t_attempts w \<Longrightarrow> w_queue w' = w_queue w \<Longrightarrow> quiet w w'"
  by (simp add: quiet_def list_all2_refl)

lemma set_attempt_step:
  assumes "\<And>a. ia_id a = i \<Longrightarrow> R a ((f a)\<lparr>ia_time_updated := now\<rparr>)" and "\<And>a. f a = a \<Longrightarrow> R a a"
  shows "world_step i R w (set_attempt now i f w)"
  using assms by (auto simp: world_step_def set_attempt_def update_attempts_def intro!: list_all2_map_same)

lemma quiet_world_step:
  assumes "quiet w w1" and "world_step i R w1 w2" and "\<And>a b c. row_quiet a b \<Longrightarrow> R b c \<Longrightarrow> S a c"
  shows "world_step i S w w2"
proof -
  have "list_all2 (\<lambda>a c. if ia_id a = i then S a c else row_quiet a c) (t_attempts w) (t_attempts w2)"
  proof (rule list_all2_trans)
    show "list_all2 row_quiet (t_attempts w) (t_attempts w1)" using assms(1) by (simp add: quiet_def)
    show "list_all2 (\<lambda>a b. if ia_id a = i then R a b else row_quiet a b) (t_attempts w1) (t_attempts w2)"
      using assms(2) by (simp add: world_step_def)
    show "row_quiet a b \<Longrightarrow> (if ia_id b = i then R b c else row_quiet b c) \<Longrightarrow> if ia_id a = i then S a c else row_quiet a c" for a b c
      using assms(3) row_quiet_trans by (auto simp: row_quiet_def row_keeps_def split: if_splits)
  qed
  then show ?thesis using assms by (simp add: world_step_def quiet_def)
qed

section \<open>Quiet operations\<close>

named_theorems quiets

lemma quiet_counters [quiets]: "quiet w (decr_pending_incr_in_flight i w)" "quiet w (decr_in_flight i w)" "quiet w (cleanup_counters i w)"
  by (auto simp: decr_pending_incr_in_flight_def decr_in_flight_def cleanup_counters_def intro!: quiet_same)

lemma quiet_files [quiets]: "quiet w (w\<lparr>w_files := f\<rparr>)" "quiet w (set_cc_pair c g w)"
  by (auto simp: set_cc_pair_def intro!: quiet_same)

lemma quiet_heartbeat [quiets]: "quiet w (heartbeat now i w)"
  unfolding heartbeat_def by (rule quiet_update_attempts) (simp add: row_quiet_def row_keeps_def running_def)

lemma quiet_prerun [quiets]: "quiet w (on_docprocessing_task_prerun now i w)"
  unfolding on_docprocessing_task_prerun_def using quiet_heartbeat quiet_counters(1) by (rule quiet_trans)

lemma quiet_postrun [quiets]: "quiet w (on_docprocessing_task_postrun i w)"
  by (simp add: on_docprocessing_task_postrun_def quiets)

lemma quiet_resolve [quiets]: "quiet w (resolve_errors p c w)" "quiet w (resolve_indexing_document_errors c fs docs w)"
    "quiet w (resolve_indexing_entity_errors c w)"
  by (auto simp: resolve_errors_def resolve_indexing_document_errors_def resolve_indexing_entity_errors_def Let_def intro!: quiet_same)

lemma quiet_error_row: "create_index_attempt_error i c f w = Inr w1 \<Longrightarrow> quiet w w1"
  by (auto simp: create_index_attempt_error_def split: if_splits intro!: quiet_same)

lemma quiet_error_rows: "create_index_attempt_errors i c fs w = (r, w1) \<Longrightarrow> quiet w w1"
  by (induction i c fs w rule: create_index_attempt_errors.induct)
    (auto split: sum.splits dest: quiet_error_row intro: quiet_trans)

lemma quiet_failed: "mark_attempt_failed now i m w = Inr w1 \<Longrightarrow> quiet w w1"
  by (auto simp: mark_attempt_failed_def bind_r_Inr_iff row_quiet_def row_keeps_def running_def is_successful_def
      intro!: quiet_trans [OF quiet_set_attempt quiet_counters(3)])

lemma quiet_canceled: "mark_attempt_canceled now i m w = Inr w1 \<Longrightarrow> quiet w w1"
  by (auto simp: mark_attempt_canceled_def bind_r_Inr_iff row_quiet_def row_keeps_def running_def is_successful_def
      intro!: quiet_trans [OF quiet_set_attempt quiet_counters(3)])

lemma quiet_case_failed [quiets]: "quiet w (case mark_attempt_failed now i m w of Inl _ \<Rightarrow> w | Inr w1 \<Rightarrow> w1)"
  by (cases "mark_attempt_failed now i m w") (auto dest: quiet_failed)

lemma quiet_case_canceled [quiets]: "quiet w (case mark_attempt_canceled now i m w of Inl _ \<Rightarrow> w | Inr w1 \<Rightarrow> w1)"
  by (cases "mark_attempt_canceled now i m w") (auto dest: quiet_canceled)

text \<open>What administrators, other tasks and the validation do.\<close>

inductive admin_step :: "index_world \<Rightarrow> index_world \<Rightarrow> bool" where
  A_cancel: "admin_step w (request_cancellation now i w)"
| A_expire: "admin_step w (expire_index_attempts now s w)"
| A_ccpair: "admin_step w (cancel_indexing_attempts_for_ccpair now settings c secondary w)"
| A_past: "admin_step w (cancel_indexing_attempts_past_model now settings w)"
| A_settings: "admin_step w (cancel_indexing_attempts_for_search_settings now s w)"
| A_heartbeat: "admin_step w (heartbeat now i w)"
| A_validate: "admin_step w (validate_attempt now i w)"
| A_not_started: "admin_step w (validate_not_started now live_ids id i w)"
| A_inconsistent: "admin_step w (fail_inconsistent now w)"
| A_pair: "admin_step w (set_cc_pair c f w)"
| A_redis: "admin_step w (w\<lparr>w_redis_up := b, w_pending := p, w_in_flight := q\<rparr>)"

lemma quiet_validate_attempt: "quiet w (validate_attempt now i w)"
proof -
  have seen: "quiet w (set_attempt now i (\<lambda>a. a\<lparr>ia_last_heartbeat_value := ia_heartbeat_counter a, ia_last_heartbeat_time := Some now\<rparr>) w)"
    by (rule quiet_set_attempt) (simp add: row_quiet_def row_keeps_def running_def)
  show ?thesis unfolding validate_attempt_def Let_def
    using seen quiet_case_failed [of w now i "''Heartbeat stale''"] by (auto split: option.splits)
qed

lemma quiet_fold: "(\<And>x w. quiet w (f x w)) \<Longrightarrow> quiet w (fold f xs w)"
  by (induction xs arbitrary: w) (auto intro: quiet_trans)

lemma quiet_fail_inconsistent: "quiet w (fail_inconsistent now w)"
  unfolding fail_inconsistent_def using quiet_case_failed by (auto intro!: quiet_fold split: option.splits)

lemma quiet_not_started: "quiet w (validate_not_started now live_ids id i w)"
  unfolding validate_not_started_def Let_def id_apply using quiet_case_failed [of w now i "''Task never started''"]
  by (auto split: option.splits)

lemma quiet_expire: "quiet w (expire_index_attempts now s w)"
  unfolding expire_index_attempts_def Let_def
  by (rule quiet_trans; rule quiet_update_attempts; auto simp: row_quiet_def row_keeps_def running_def is_successful_def)

lemma quiet_admin: "admin_step w w' \<Longrightarrow> quiet w w'"
proof (induction rule: admin_step.induct)
  case (A_redis w b p q)
  then show ?case by (intro quiet_same) simp_all
qed (auto simp: request_cancellation_def cancel_indexing_attempts_for_ccpair_def cancel_indexing_attempts_past_model_def
    cancel_indexing_attempts_for_search_settings_def row_quiet_def row_keeps_def running_def is_successful_def
    intro!: quiet_set_attempt quiet_update_attempts quiet_expire quiet_heartbeat quiet_validate_attempt quiet_not_started
      quiet_fail_inconsistent quiet_files)

section \<open>Histories\<close>

text \<open>The phases of the fetching of an attempt: the task has begun; the tasks for old batches are sent (the count that was
  loaded, the count of the earlier attempt, the next number); the loop runs; it ended with an error, or with all batches sent.\<close>

datatype fetch_phase = Starting | Reissued int int int | Fetching int fetch_state | Stopped | Fetched int

record history =
  hw :: index_world
  h_points :: "task_point list"
  h_fetch :: "int \<Rightarrow> fetch_phase option"
  h_seen :: "(int \<times> coordination_status) list"

definition move_on :: "index_world \<Rightarrow> int \<Rightarrow> fetch_phase \<Rightarrow> history \<Rightarrow> history" where
  "move_on w i ph h = h\<lparr>hw := w, h_points := h_points h @ replicate (length (w_queue w) - length (w_queue (hw h))) Queued,
     h_fetch := (h_fetch h)(i := Some ph)\<rparr>"

definition first_fetch :: "int \<Rightarrow> fetch_state" where
  "first_fetch n = \<lparr>fs_batch_num = n, fs_queued = 0, fs_failures = 0, fs_documents = 0\<rparr>"

inductive istep :: "bool \<Rightarrow> history \<Rightarrow> history \<Rightarrow> bool" for persistent where
  S_create: "\<lbrakk>ke_new_id e \<notin> ia_id ` set (t_attempts (hw h)); try_creating_docfetching_task e c s reindex (hw h) = (r, w)\<rbrakk>
    \<Longrightarrow> istep persistent h (h\<lparr>hw := w\<rparr>)"
| S_begin: "transition_attempt_to_in_progress now i (hw h) = Inr w \<Longrightarrow> istep persistent h (move_on w i Starting h)"
| S_start: "\<lbrakk>h_fetch h i = Some Starting; get_index_attempt (hw h) i = Some a;
    start_extraction now checkpointed resuming has_more (ia_cc_pair a) i (hw h) = (Inr (n, completed), w)\<rbrakk>
    \<Longrightarrow> istep persistent h (move_on w i (Reissued (ia_completed_batches a) completed n) h)"
| S_start_error: "\<lbrakk>h_fetch h i = Some Starting; start_extraction now checkpointed resuming has_more c i (hw h) = (Inl err, w)\<rbrakk>
    \<Longrightarrow> istep persistent h (move_on w i Stopped h)"
| S_resume: "h_fetch h i = Some (Reissued loaded completed n)
    \<Longrightarrow> istep persistent h (move_on (set_completed_batches now i loaded completed (hw h)) i (Fetching completed (first_fetch n)) h)"
| S_item: "\<lbrakk>h_fetch h i = Some (Fetching base fs); fetch_item e c i item fs (hw h) = (None, fs1, w)\<rbrakk>
    \<Longrightarrow> istep persistent h (move_on w i (Fetching base fs1) h)"
| S_item_error: "\<lbrakk>h_fetch h i = Some (Fetching base fs); fetch_item e c i item fs (hw h) = (Some err, fs1, w)\<rbrakk>
    \<Longrightarrow> istep persistent h (move_on (extraction_failed now primary message err c i s w) i Stopped h)"
| S_connector_error: "h_fetch h i = Some (Fetching base fs)
    \<Longrightarrow> istep persistent h (move_on (extraction_failed now primary message err c i s (hw h)) i Stopped h)"
| S_fetched: "h_fetch h i = Some (Fetching base fs)
    \<Longrightarrow> istep persistent h (move_on (set_total_batches now i (fs_batch_num fs) (hw h)) i (Fetched base) h)"
| S_task: "\<lbrakk>k < length (h_points h); te_persistent e = persistent; task_step e (w_queue (hw h) ! k) (h_points h ! k) (hw h) = (p, w)\<rbrakk>
    \<Longrightarrow> istep persistent h (h\<lparr>hw := w, h_points := (h_points h)[k := p]\<rparr>)"
| S_read: "read_progress now i (hw h) = (seen, w)
    \<Longrightarrow> istep persistent h (h\<lparr>hw := w, h_seen := (case seen of None \<Rightarrow> [] | Some st \<Rightarrow> [(i, st)]) @ h_seen h\<rparr>)"
| S_complete: "(i, st) \<in> set (h_seen h) \<Longrightarrow> istep persistent h (h\<lparr>hw := complete_attempt now i c st (hw h)\<rparr>)"
| S_admin: "admin_step (hw h) w \<Longrightarrow> istep persistent h (h\<lparr>hw := w\<rparr>)"

text \<open>At first there are no attempts, no tasks and no readings; batches and errors may be left from before.\<close>

definition first_history :: "history \<Rightarrow> bool" where
  "first_history h \<longleftrightarrow> t_attempts (hw h) = [] \<and> w_queue (hw h) = [] \<and> h_points h = [] \<and> h_fetch h = (\<lambda>_. None) \<and> h_seen h = []"

inductive ireach :: "bool \<Rightarrow> history \<Rightarrow> bool" for persistent where
  I_first: "first_history h \<Longrightarrow> ireach persistent h"
| I_step: "ireach persistent h \<Longrightarrow> istep persistent h h1 \<Longrightarrow> ireach persistent h1"

section \<open>One running attempt\<close>

definition one_running :: "index_world \<Rightarrow> bool" where
  "one_running w \<longleftrightarrow> distinct (List.map ia_id (t_attempts w)) \<and> (\<forall>c s. length (filter (fenced c s) (t_attempts w)) \<le> 1)"

definition keeps_rows :: "index_world \<Rightarrow> index_world \<Rightarrow> bool" where
  "keeps_rows w w' \<longleftrightarrow> list_all2 row_keeps (t_attempts w) (t_attempts w')"

lemma fenced_kept: "row_keeps a b \<Longrightarrow> fenced c s b \<Longrightarrow> fenced c s a"
  by (auto simp: row_keeps_def fenced_def)

lemma fewer_fenced: "list_all2 row_keeps xs ys \<Longrightarrow> length (filter (fenced c s) ys) \<le> length (filter (fenced c s) xs)"
  by (induction rule: list_all2_induct) (auto dest: fenced_kept)

lemma same_ids: "list_all2 row_keeps xs ys \<Longrightarrow> List.map ia_id ys = List.map ia_id xs"
  by (induction rule: list_all2_induct) (auto simp: row_keeps_def)

lemma one_running_kept: "one_running w \<Longrightarrow> keeps_rows w w' \<Longrightarrow> one_running w'"
  unfolding one_running_def keeps_rows_def using fewer_fenced same_ids by (metis (no_types, lifting) le_trans)

lemma quiet_keeps: "quiet w w' \<Longrightarrow> keeps_rows w w'"
  by (auto simp: quiet_def keeps_rows_def row_quiet_def elim: list_all2_mono)

lemma keeps_trans: "keeps_rows w w1 \<Longrightarrow> keeps_rows w1 w2 \<Longrightarrow> keeps_rows w w2"
  unfolding keeps_rows_def by (rule list_all2_trans [of row_keeps row_keeps]) (auto simp: row_keeps_def)

lemma keeps_step: "world_step i row_keeps w w' \<Longrightarrow> keeps_rows w w'"
  by (auto simp: world_step_def keeps_rows_def row_quiet_def elim!: list_all2_mono split: if_splits)

section \<open>What the steps do to rows\<close>

lemma found_row: "distinct (List.map ia_id (t_attempts w)) \<Longrightarrow> get_index_attempt w i = Some a \<Longrightarrow> b \<in> set (t_attempts w) \<Longrightarrow> ia_id b = i \<Longrightarrow> b = a"
proof -
  assume distinct: "distinct (List.map ia_id (t_attempts w))" and found: "get_index_attempt w i = Some a" and b: "b \<in> set (t_attempts w)" "ia_id b = i"
  have "a \<in> set (t_attempts w) \<and> ia_id a = i" using found by (auto simp: get_index_attempt_def find_Some_iff)
  then show "b = a" using distinct b by (auto simp: distinct_map dest: inj_onD)
qed

lemma found_id: "get_index_attempt w i = Some a \<Longrightarrow> a \<in> set (t_attempts w) \<and> ia_id a = i"
  by (auto simp: get_index_attempt_def find_Some_iff)

lemma set_found_step:
  assumes "distinct (List.map ia_id (t_attempts w))" and "get_index_attempt w i = Some a"
    and "f a \<noteq> a \<Longrightarrow> R a ((f a)\<lparr>ia_time_updated := now\<rparr>)" and "f a = a \<Longrightarrow> R a a"
  shows "world_step i R w (set_attempt now i f w)"
proof -
  have "b \<in> set (t_attempts w) \<Longrightarrow> ia_id b = i \<Longrightarrow> b = a" for b using found_row [OF assms(1,2)] by blast
  then show ?thesis using assms(3,4)
    by (auto simp: world_step_def set_attempt_def update_attempts_def list_all2_map2 intro!: list.rel_refl_strong)
qed

lemma step_then_quiet:
  assumes "world_step i R w w1" and "quiet w1 w2" and "\<And>a b c. R a b \<Longrightarrow> row_quiet b c \<Longrightarrow> S a c"
  shows "world_step i S w w2"
proof -
  have "list_all2 (\<lambda>a c. if ia_id a = i then S a c else row_quiet a c) (t_attempts w) (t_attempts w2)"
  proof (rule list_all2_trans)
    show "list_all2 (\<lambda>a b. if ia_id a = i then R a b else row_quiet a b) (t_attempts w) (t_attempts w1)"
      using assms(1) by (simp add: world_step_def)
    show "list_all2 row_quiet (t_attempts w1) (t_attempts w2)" using assms(2) by (simp add: quiet_def)
    show "(if ia_id a = i then R a b else row_quiet a b) \<Longrightarrow> row_quiet b c \<Longrightarrow> if ia_id a = i then S a c else row_quiet a c" for a b c
      using assms(3) row_quiet_trans by (auto split: if_splits)
  qed
  then show ?thesis using assms by (simp add: world_step_def quiet_def)
qed

text \<open>A count, a total, a start, and a success.\<close>

definition row_counted :: "attempt_row \<Rightarrow> attempt_row \<Rightarrow> bool" where
  "row_counted a b \<longleftrightarrow> row_keeps a b \<and> ia_total_batches b = ia_total_batches a \<and> ia_completed_batches b = ia_completed_batches a + 1
     \<and> ia_status b = ia_status a"

definition row_totalled :: "int \<Rightarrow> attempt_row \<Rightarrow> attempt_row \<Rightarrow> bool" where
  "row_totalled n a b \<longleftrightarrow> row_keeps a b \<and> ia_total_batches b = Some n \<and> ia_completed_batches b = ia_completed_batches a
     \<and> ia_status b = ia_status a"

definition row_set :: "int \<Rightarrow> attempt_row \<Rightarrow> attempt_row \<Rightarrow> bool" where
  "row_set n a b \<longleftrightarrow> row_keeps a b \<and> ia_total_batches b = ia_total_batches a \<and> ia_completed_batches b = n
     \<and> ia_status b = ia_status a"

definition row_begun :: "attempt_row \<Rightarrow> attempt_row \<Rightarrow> bool" where
  "row_begun a b \<longleftrightarrow> row_quiet a b \<and> ia_status a = NOT_STARTED \<and> ia_status b = IN_PROGRESS"

definition row_done :: "attempt_row \<Rightarrow> attempt_row \<Rightarrow> bool" where
  "row_done a b \<longleftrightarrow> row_keeps a b \<and> ia_total_batches b = ia_total_batches a \<and> ia_completed_batches b = ia_completed_batches a
     \<and> ia_status b \<noteq> NOT_STARTED"

lemmas row_changes = row_counted_def row_totalled_def row_set_def row_begun_def row_done_def row_quiet_def row_keeps_def

lemma lock_attempt_Inr: "lock_attempt w i = Inr a \<longleftrightarrow> get_index_attempt w i = Some a"
  by (auto simp: lock_attempt_def split: option.splits)

lemma count_effect:
  assumes "distinct (List.map ia_id (t_attempts w))" and "update_batch_completion_and_docs now i d n k w = Inr w1"
  shows "world_step i row_counted w w1"
proof -
  obtain a where a: "get_index_attempt w i = Some a" and w1: "w1 = set_attempt now i (\<lambda>a. a\<lparr>ia_total_docs := ia_total_docs a + d,
      ia_new_docs := ia_new_docs a + n, ia_completed_batches := ia_completed_batches a + 1, ia_total_chunks := ia_total_chunks a + k\<rparr>) w"
    using assms(2) by (auto simp: update_batch_completion_and_docs_def bind_r_Inr_iff lock_attempt_Inr)
  show ?thesis unfolding w1
  proof (rule set_found_step [OF assms(1) a])
    let ?b = "a\<lparr>ia_total_docs := ia_total_docs a + d, ia_new_docs := ia_new_docs a + n,
      ia_completed_batches := ia_completed_batches a + 1, ia_total_chunks := ia_total_chunks a + k\<rparr>"
    assume "?b = a"
    then have "ia_completed_batches ?b = ia_completed_batches a" by (rule arg_cong)
    then show "row_counted a a" by simp
  qed (simp add: row_changes running_def)
qed

lemma total_effect:
  assumes "distinct (List.map ia_id (t_attempts w))" and "get_index_attempt w i = Some a"
  shows "world_step i (row_totalled n) w (set_total_batches now i n w)"
  unfolding set_total_batches_def
proof (rule set_found_step [OF assms])
  assume "a\<lparr>ia_total_batches := Some n\<rparr> = a"
  then have "ia_total_batches (a\<lparr>ia_total_batches := Some n\<rparr>) = ia_total_batches a" by (rule arg_cong)
  then show "row_totalled n a a" by (simp add: row_changes)
qed (simp add: row_changes running_def)

lemma set_completed_effect:
  assumes "distinct (List.map ia_id (t_attempts w))" and "get_index_attempt w i = Some a"
  shows "world_step i (row_set n) w (set_attempt now i (\<lambda>a. a\<lparr>ia_completed_batches := n\<rparr>) w)"
proof (rule set_found_step [OF assms])
  assume "a\<lparr>ia_completed_batches := n\<rparr> = a"
  then have "ia_completed_batches (a\<lparr>ia_completed_batches := n\<rparr>) = ia_completed_batches a" by (rule arg_cong)
  then show "row_set n a a" by (simp add: row_changes)
qed (simp add: row_changes running_def)

lemma begin_effect:
  assumes "distinct (List.map ia_id (t_attempts w))" and "transition_attempt_to_in_progress now i w = Inr w1"
  shows "world_step i row_begun w w1 \<and> get_index_attempt w i \<noteq> None"
proof -
  let ?f = "\<lambda>a. a\<lparr>ia_status := IN_PROGRESS, ia_time_started := (case ia_time_started a of None \<Rightarrow> Some now | t \<Rightarrow> t)\<rparr>"
  obtain a where a: "get_index_attempt w i = Some a" "ia_status a = NOT_STARTED" and w1: "w1 = set_attempt now i ?f w"
    using assms(2) by (auto simp: transition_attempt_to_in_progress_def bind_r_Inr_iff lock_attempt_Inr split: if_splits)
  have "ia_status (?f a) \<noteq> ia_status a" using a(2) by simp
  then have "?f a \<noteq> a" using arg_cong [of "?f a" a ia_status] by blast
  then show ?thesis unfolding w1 using a
    by (auto intro!: set_found_step [OF assms(1) a(1)] simp: row_changes running_def is_successful_def)
qed

lemma done_effect:
  assumes "distinct (List.map ia_id (t_attempts w))"
    and "mark_completed now i st w = Inr w1"
  shows "world_step i row_done w w1 \<and> get_index_attempt w i \<noteq> None"
proof -
  let ?s = "if cs_total_failures st = 0 then SUCCESS else COMPLETED_WITH_ERRORS"
  let ?f = "\<lambda>a. a\<lparr>ia_status := ?s, ia_task := None\<rparr>"
  obtain a where a: "get_index_attempt w i = Some a" and w1: "w1 = cleanup_counters i (set_attempt now i ?f w)"
    using assms(2)
    by (auto simp: mark_completed_def mark_attempt_succeeded_def mark_attempt_partially_succeeded_def bind_r_Inr_iff lock_attempt_Inr split: if_splits)
  have same: "?f a = a \<Longrightarrow> ia_status a = ?s" by (drule arg_cong [where f = ia_status]) simp
  have "world_step i row_done w (set_attempt now i ?f w)"
    by (rule set_found_step [OF assms(1) a]) (use same in \<open>auto simp: row_changes running_def\<close>)
  then show ?thesis unfolding w1 using a quiet_counters(3) by (auto elim!: step_then_quiet simp: row_changes)
qed

lemma quiet_case_completion:
  "quiet w w1 \<Longrightarrow> quiet w (w1\<lparr>w_files := f\<rparr>)"
  using quiet_files(1) quiet_trans by blast

lemma quiet_pair_resolved: "quiet w (resolve_indexing_entity_errors c (set_cc_pair d g w))"
  by (rule quiet_trans [OF quiet_files(2) quiet_resolve(3)])

lemma complete_pair_effect: "complete_pair i st w = Inr w1 \<Longrightarrow> quiet w w1"
  unfolding complete_pair_def Let_def bind_r_Inr_iff
  by (auto simp: quiet_files quiet_resolve quiet_pair_resolved split: option.splits if_splits)

lemma complete_effect:
  assumes "distinct (List.map ia_id (t_attempts w))"
  shows "quiet w (complete_attempt now i c st w)
    \<or> (\<exists>n. cs_total_batches st = Some n \<and> n \<le> cs_completed_batches st \<and> world_step i row_done w (complete_attempt now i c st w))"
proof -
  let ?after = "\<lambda>w1. let w2 = (case mark_attempt_failed now i ''Processing monitoring failed'' w1 of Inl _ \<Rightarrow> w1 | Inr w2 \<Rightarrow> w2)
    in w2\<lparr>w_files := cleanup_all_batches c (w_files w2)\<rparr>"
  have failed: "quiet w1 (?after w1)" for w1 unfolding Let_def by (rule quiet_case_completion [OF quiet_case_failed])
  have later: "row_done a b \<Longrightarrow> row_quiet b d \<Longrightarrow> row_done a d" for a b d by (auto simp: row_changes)
  show ?thesis
  proof (cases "\<exists>n. cs_total_batches st = Some n \<and> n \<le> cs_completed_batches st")
    case False
    then show ?thesis by (auto simp: complete_attempt_def check_indexing_completion_def split: option.splits)
  next
    case True
    then obtain n where n: "cs_total_batches st = Some n" "n \<le> cs_completed_batches st" by blast
    show ?thesis
    proof (cases "mark_completed now i st w")
      case (Inl err)
      then show ?thesis using n failed by (simp add: complete_attempt_def check_indexing_completion_def)
    next
      case (Inr w1)
      have "quiet w1 (complete_attempt now i c st w)"
      proof (cases "complete_pair i st w1")
        case (Inl err)
        then show ?thesis using n Inr failed by (simp add: complete_attempt_def check_indexing_completion_def)
      next
        case (Inr w2)
        then show ?thesis using n \<open>mark_completed now i st w = Inr w1\<close> quiet_case_completion [OF complete_pair_effect [OF Inr]]
          by (simp add: complete_attempt_def check_indexing_completion_def)
      qed
      then have "world_step i row_done w (complete_attempt now i c st w)"
        using done_effect [OF assms Inr] later by (blast intro: step_then_quiet)
      then show ?thesis using n by blast
    qed
  qed
qed

lemma read_effect: "read_progress now i w = (seen, w1) \<Longrightarrow> quiet w w1"
  unfolding read_progress_def Let_def
  by (auto split: option.splits if_splits intro: quiets quiet_trans [OF quiet_files(2) quiet_case_canceled])

fun is_counted :: "task_point \<Rightarrow> bool" where
  "is_counted Queued = False"
| "is_counted (Loaded documents) = False"
| "is_counted (Counted documents r) = True"
| "is_counted (Resolved documents r) = True"
| "is_counted (Recorded documents r) = True"
| "is_counted (Ended counted) = counted"

text \<open>Without persistent indexing a failed task counts nothing.\<close>

lemma quiet_task_failed:
  "\<not> te_persistent e \<Longrightarrow> task_failed e t docs counted w = (p, w1) \<Longrightarrow> quiet w w1 \<and> is_counted p = counted"
  by (auto simp: task_failed_def ended_def quiets split: prod.splits)

lemma quiet_ended: "ended i counted w = (p, w1) \<Longrightarrow> quiet w w1 \<and> is_counted p = counted"
  by (auto simp: ended_def quiets)

lemma load_effect:
  assumes "\<not> te_persistent e" and "load_step e t w = (p, w1)"
  shows "quiet w w1 \<and> \<not> is_counted p"
proof -
  obtain c i n where t: "t = (c, i, n)" by (cases t)
  let ?w = "on_docprocessing_task_prerun (te_now e) i w"
  have "quiet ?w w1 \<and> \<not> is_counted p"
    using assms unfolding load_step_def t Let_def prod.case
    by (auto split: option.splits sum.splits if_splits dest!: quiet_task_failed quiet_ended
        intro: quiet_failed quiet_trans simp del: on_docprocessing_task_prerun_def)
  then show ?thesis using quiet_prerun quiet_trans by blast
qed

lemma count_step_effect:
  assumes "distinct (List.map ia_id (t_attempts w))" and "\<not> te_persistent e" and "count_step e t docs w = (p, w1)"
  shows "quiet w w1 \<and> \<not> is_counted p \<or> world_step (fst (snd t)) row_counted w w1 \<and> is_counted p"
  using assms(2,3) count_effect [OF assms(1)] unfolding count_step_def
  by (auto split: prod.splits sum.splits dest!: quiet_task_failed)

lemma resolve_effect: "\<not> te_persistent e \<Longrightarrow> resolve_step e t docs r w = (p, w1) \<Longrightarrow> quiet w w1 \<and> is_counted p"
  unfolding resolve_step_def Let_def
  by (auto split: prod.splits sum.splits dest!: quiet_task_failed intro: quiets quiet_trans [OF quiet_resolve(2)])

lemma record_effect: "\<not> te_persistent e \<Longrightarrow> record_step e t docs r w = (p, w1) \<Longrightarrow> quiet w w1 \<and> is_counted p"
  unfolding record_step_def
  by (auto split: prod.splits sum.splits dest!: quiet_task_failed quiet_error_rows intro: quiet_trans)

lemma finish_effect: "\<not> te_persistent e \<Longrightarrow> finish_step e t docs r w = (p, w1) \<Longrightarrow> quiet w w1 \<and> is_counted p"
  unfolding finish_step_def Let_def
  by (auto split: prod.splits sum.splits dest!: quiet_task_failed quiet_ended intro: quiets quiet_trans [OF quiet_files(1)])

lemma task_effect:
  assumes "distinct (List.map ia_id (t_attempts w))" and "\<not> te_persistent e" and "task_step e t p w = (p1, w1)"
  shows "quiet w w1 \<and> is_counted p1 = is_counted p
    \<or> world_step (fst (snd t)) row_counted w w1 \<and> is_counted p1 \<and> \<not> is_counted p"
  using assms load_effect count_step_effect resolve_effect record_effect finish_effect by (cases p) (simp; blast)+

text \<open>A task ends after at most five steps, whatever happens in between.\<close>

fun rank :: "task_point \<Rightarrow> nat" where
  "rank Queued = 0"
| "rank (Loaded documents) = 1"
| "rank (Counted documents r) = 2"
| "rank (Resolved documents r) = 3"
| "rank (Recorded documents r) = 4"
| "rank (Ended counted) = 5"

lemma failed_rank: "rank (fst (task_failed e t docs counted w)) = 5" "rank (fst (ended i counted w)) = 5"
  by (auto simp: task_failed_def ended_def split: prod.split)

lemma step_rank: "rank (fst (task_step e t p w)) = 5 \<or> rank (fst (task_step e t p w)) = Suc (rank p)"
  by (cases p) (auto simp: load_step_def count_step_def resolve_step_def record_step_def finish_step_def Let_def failed_rank
      split: prod.split option.split sum.split)

lemma rank_Ended: "rank p = 5 \<Longrightarrow> \<exists>counted. p = Ended counted"
  by (cases p) auto

lemma run_task_ends: "rank p + k \<ge> 5 \<Longrightarrow> rank (fst (run_task k e t others p w)) = 5"
proof (induction k arbitrary: p w)
  case 0
  then show ?case by (cases p) auto
next
  case (Suc k)
  obtain p1 w1 where step: "task_step e t p w = (p1, w1)" by fastforce
  show ?case
  proof (cases "rank p1 = 5")
    case True
    then show ?thesis using step rank_Ended by fastforce
  next
    case False
    then have "rank p1 + k \<ge> 5" using step_rank [of e t p w] step Suc.prems by simp
    moreover have "run_task (Suc k) e t others p w = run_task k e t others p1 (others k w1)"
      using step False by (cases p1) auto
    ultimately show ?thesis using Suc.IH by simp
  qed
qed

lemma docprocessing_task_ends: "\<exists>counted w1. docprocessing_task e t others w = (Ended counted, w1)"
  using run_task_ends [of Queued 5 e t others w] rank_Ended
  by (metis add_0 docprocessing_task_def order_refl prod.collapse rank.simps(1))

section \<open>What fetching sends\<close>

text \<open>The tasks \<open>ts\<close>, all of the attempt \<open>i\<close>, are sent, and no row changes its counts.\<close>

definition sends :: "int \<Rightarrow> batch_task list \<Rightarrow> index_world \<Rightarrow> index_world \<Rightarrow> bool" where
  "sends i ts w w' \<longleftrightarrow> w_queue w' = w_queue w @ ts \<and> list_all2 row_quiet (t_attempts w) (t_attempts w') \<and> (\<forall>t\<in>set ts. fst (snd t) = i)"

lemma sends_none: "quiet w w' \<Longrightarrow> sends i [] w w'"
  by (simp add: sends_def quiet_def)

lemma sends_append: "sends i ts w w1 \<Longrightarrow> sends i us w1 w2 \<Longrightarrow> sends i (ts @ us) w w2"
  unfolding sends_def using rows_quiet_trans by auto

lemma sends_after: "quiet w w1 \<Longrightarrow> sends i ts w1 w2 \<Longrightarrow> sends i ts w w2"
  using sends_append [OF sends_none] by fastforce

lemma sends_enqueue: "sends i [(c, i, n)] w (enqueue_batch (c, i, n) w)"
  by (auto simp: sends_def enqueue_batch_def incr_pending_def list_all2_refl)

lemma queue_batch_effect:
  "queue_batch c i docs fs w = (fs1, w1) \<Longrightarrow> \<exists>ts. sends i ts w w1 \<and> fs_batch_num fs1 = fs_batch_num fs + int (length ts)"
  using sends_after [OF quiet_files(1) sends_enqueue [of i c "fs_batch_num fs"]] sends_none [OF quiet_refl]
  by (cases "docs = []") (fastforce simp: queue_batch_def)+

lemma failure_effect:
  "record_connector_failure e c i f fs w = (err, fs1, w1) \<Longrightarrow> quiet w w1 \<and> fs_batch_num fs1 = fs_batch_num fs"
  unfolding record_connector_failure_def Let_def by (auto split: option.splits sum.splits dest: quiet_error_row)

lemma fetch_item_effect:
  assumes "fetch_item e c i item fs w = (err, fs1, w1)"
  shows "\<exists>ts. sends i ts w w1 \<and> (err = None \<longrightarrow> fs_batch_num fs1 = fs_batch_num fs + int (length ts)) \<and> (err \<noteq> None \<longrightarrow> ts = [])"
proof -
  obtain err2 fs2 w2 where f: "record_connector_failure e c i (snd item) fs w = (err2, fs2, w2)" by (metis prod_cases3)
  note quiet = failure_effect [OF f]
  show ?thesis
  proof (cases "err = None")
    case True
    then have "queue_batch c i (fst item) fs2 w2 = (fs1, w1)"
      using assms f unfolding fetch_item_def by (auto split: if_splits option.splits)
    then obtain ts where "sends i ts w2 w1" "fs_batch_num fs1 = fs_batch_num fs2 + int (length ts)" using queue_batch_effect by blast
    then show ?thesis using quiet True sends_after [of w w2] by (intro exI [of _ ts]) simp
  next
    case False
    then have "quiet w w1" using assms f quiet unfolding fetch_item_def by (auto split: if_splits option.splits)
    then show ?thesis using sends_none False by blast
  qed
qed

lemma reissue_tasks_effect:
  "reissue_tasks c i names w = (r, w1) \<Longrightarrow> \<exists>ts. sends i ts w w1 \<and> length ts \<le> length names"
proof (induction c i names w rule: reissue_tasks.induct)
  case (1 c i w)
  then show ?case using sends_none by fastforce
next
  case (2 c i name names w)
  show ?case
  proof (cases "extract_path_info name")
    case None
    then show ?thesis using 2(1) [OF None] 2(3) by force
  next
    case (Some info)
    obtain c' j n where info: "extract_path_info name = Some (c', j, n)" using Some by (cases info) auto
    show ?thesis
    proof (cases "c' = c")
      case True
      then have "reissue_tasks c i names (enqueue_batch (c, i, n) w) = (r, w1)" using 2(3) info by simp
      then obtain ts where "sends i ts (enqueue_batch (c, i, n) w) w1" "length ts \<le> length names"
        using 2(2) [OF info refl refl] True by auto
      then show ?thesis using sends_append [OF sends_enqueue] by (intro exI [of _ "(c, i, n) # ts"]) fastforce
    next
      case False
      then show ?thesis using 2(3) info sends_none [OF quiet_refl] by (intro exI [of _ "[]"]) simp
    qed
  qed
qed

lemma reissue_effect:
  assumes "reissue_old_batches c i recent w = (r, w1)"
  shows "\<exists>ts. sends i ts w w1 \<and> (\<forall>n completed. r = Inr (n, completed) \<longrightarrow> int (length ts) \<le> n)"
proof -
  let ?names = "get_all_batches_for_cc_pair c (w_files w)"
  show ?thesis
  proof (cases "update_old_batches c i ?names (w_files w)")
    case (Inl err)
    then show ?thesis using assms sends_none [OF quiet_refl] by (fastforce simp: reissue_old_batches_def)
  next
    case (Inr files)
    obtain r2 w2 where tasks: "reissue_tasks c i ?names (w\<lparr>w_files := files\<rparr>) = (r2, w2)" by fastforce
    then obtain ts where "sends i ts (w\<lparr>w_files := files\<rparr>) w2" "length ts \<le> length ?names" using reissue_tasks_effect by blast
    moreover from this have "sends i ts w w2" using sends_after quiet_files(1) by blast
    ultimately show ?thesis using assms Inr tasks by (fastforce simp: reissue_old_batches_def split: sum.splits)
  qed
qed

lemma start_effect:
  assumes "get_index_attempt w i = Some a" and "start_extraction now ck rs hm c i w = (r, w1)"
  shows "\<exists>ts. sends i ts w w1 \<and> (\<forall>n completed. r = Inr (n, completed) \<longrightarrow>
    completed + int (length ts) \<le> n \<or> n = 0 \<and> ts = [] \<and> completed = ia_completed_batches a)"
proof (cases "ia_settings a")
  case None
  then show ?thesis using assms sends_none [OF quiet_refl] by (intro exI [of _ "[]"]) (auto simp: start_extraction_def)
next
  case (Some s)
  define w0 where "w0 = prepare_attempt now i a w"
  define recent where "recent = most_recent_attempt w c s"
  have quiet: "quiet w w0" unfolding w0_def prepare_attempt_def
    by (rule quiet_trans [OF quiet_files(2) quiet_update_attempts]) (simp add: row_changes running_def)
  obtain r2 w2 where reissue: "reissue_old_batches c i recent w0 = (r2, w2)" by fastforce
  consider "r = Inr (0, ia_completed_batches a)" "w1 = w0\<lparr>w_files := cleanup_all_batches c (w_files w0)\<rparr>"
    | n completed where "r2 = Inr (n, completed)" "r = Inr (n + completed, completed)" "w1 = w2"
    | err where "r = Inl err" "w1 = w2"
    using assms Some reissue by (cases r2) (auto simp: start_extraction_def w0_def recent_def Let_def split: if_splits)
  then show ?thesis
  proof cases
    case 1
    then show ?thesis using sends_none [OF quiet_case_completion [OF quiet]] by (intro exI [of _ "[]"]) simp
  next
    case 2
    then show ?thesis using reissue_effect [OF reissue] sends_after [OF quiet] by fastforce
  next
    case 3
    then show ?thesis using reissue_effect [OF reissue] sends_after [OF quiet] by fastforce
  qed
qed

lemma start_sends: "start_extraction now ck rs hm c i w = (r, w1) \<Longrightarrow> \<exists>ts. sends i ts w w1"
proof (cases "get_index_attempt w i")
  case None
  then show "start_extraction now ck rs hm c i w = (r, w1) \<Longrightarrow> \<exists>ts. sends i ts w w1"
    using sends_none [OF quiet_refl] by (auto simp: start_extraction_def)
next
  case (Some a)
  then show "start_extraction now ck rs hm c i w = (r, w1) \<Longrightarrow> \<exists>ts. sends i ts w w1" using start_effect by blast
qed

lemma extraction_failed_effect: "quiet w (extraction_failed now primary m err c i s w)"
proof (cases err)
  case ValidationFailed
  have "mark_attempt_canceled now i msg w = Inr w1 \<Longrightarrow> quiet w (if b then set_cc_pair c f w1 else w1)" for msg w1 b f
    using quiet_canceled quiet_trans [OF quiet_canceled quiet_files(2)] by simp
  then show ?thesis using ValidationFailed by (simp add: extraction_failed_def Let_def split: sum.split)
next
  case StopSignal
  then show ?thesis using quiet_case_canceled by (simp add: extraction_failed_def)
next
  case OtherFailure
  then show ?thesis using quiet_case_failed by (simp add: extraction_failed_def split: option.split)
qed

section \<open>Rows along a history\<close>

lemma quiet_ids: "quiet w w1 \<Longrightarrow> List.map ia_id (t_attempts w1) = List.map ia_id (t_attempts w)"
  using quiet_keeps same_ids by (auto simp: keeps_rows_def)

lemma keeps_change:
  "world_step i row_counted w w1 \<Longrightarrow> keeps_rows w w1" "world_step i (row_totalled n) w w1 \<Longrightarrow> keeps_rows w w1"
  "world_step i (row_set n) w w1 \<Longrightarrow> keeps_rows w w1" "world_step i row_begun w w1 \<Longrightarrow> keeps_rows w w1"
  "world_step i row_done w w1 \<Longrightarrow> keeps_rows w w1"
  by (auto simp: world_step_def keeps_rows_def row_changes elim!: list_all2_mono split: if_splits)

lemma keeps_sends: "sends i ts w w1 \<Longrightarrow> keeps_rows w w1"
  by (auto simp: sends_def keeps_rows_def row_quiet_def elim!: list_all2_mono)

lemma quiet_generic_failure: "quiet w (record_generic_failure i c f w)"
  unfolding record_generic_failure_def by (cases f) (auto split: sum.splits dest: quiet_error_row)

lemma task_failed_keeps:
  assumes "distinct (List.map ia_id (t_attempts w))" and "task_failed e t docs counted w = (p, w1)"
  shows "keeps_rows w w1"
proof (cases "te_persistent e")
  case True
  obtain c i n where t: "t = (c, i, n)" by (cases t)
  define w2 where "w2 = (if docs \<noteq> [] then fold (\<lambda>d. record_generic_failure i c (build_generic_connector_failure (Some d) None)) docs w
    else record_generic_failure i c (build_generic_connector_failure None (Some (batch_entity_id i n))) w)"
  define w3 where "w3 = (case update_batch_completion_and_docs (te_now e) i 0 0 0 w2 of Inl _ \<Rightarrow> w2 | Inr w3 \<Rightarrow> w3)"
  have w1: "w1 = on_docprocessing_task_postrun i w3"
    using True assms(2) by (auto simp: t task_failed_def ended_def record_docprocessing_failure_persistent_def Let_def w2_def w3_def split: sum.splits)
  have quiet: "quiet w w2" unfolding w2_def by (auto intro!: quiet_fold quiet_generic_failure)
  have "distinct (List.map ia_id (t_attempts w2))" using quiet_ids [OF quiet] assms(1) by simp
  then have "keeps_rows w2 w3" unfolding w3_def
    by (auto split: sum.split intro: quiet_keeps keeps_change(1) dest: count_effect)
  then show ?thesis using quiet quiet_postrun w1 by (blast intro: keeps_trans quiet_keeps)
next
  case False
  then show ?thesis using assms(2) quiet_task_failed quiet_keeps by blast
qed

lemma task_keeps:
  assumes "distinct (List.map ia_id (t_attempts w))" and "task_step e t p w = (p1, w1)"
  shows "keeps_rows w w1"
proof -
  obtain c i n where t: "t = (c, i, n)" by (cases t)
  have failed: "task_failed e t docs counted w2 = (p1, w1) \<Longrightarrow> quiet w w2 \<Longrightarrow> keeps_rows w w1" for docs counted w2
    using task_failed_keeps quiet_ids quiet_keeps keeps_trans assms(1) by metis
  have quiet: "quiet w w1 \<Longrightarrow> keeps_rows w w1" by (rule quiet_keeps)
  show ?thesis
  proof (cases p)
    case Queued
    let ?w = "on_docprocessing_task_prerun (te_now e) i w"
    have "(\<exists>docs counted. task_failed e t docs counted ?w = (p1, w1)) \<or> quiet ?w w1"
    proof (cases "te_over_limit e")
      case None
      then show ?thesis using assms(2) Queued quiet_ended
        by (auto simp: t load_step_def Let_def split: sum.splits if_splits)
    next
      case (Some m)
      then have "ended i False (case mark_attempt_failed (te_now e) i m ?w of Inl _ \<Rightarrow> ?w | Inr w1 \<Rightarrow> w1) = (p1, w1)"
        using assms(2) Queued by (simp add: t load_step_def Let_def)
      then show ?thesis using quiet_ended quiet_case_failed quiet_trans by blast
    qed
    then show ?thesis using failed quiet quiet_prerun quiet_trans by blast
  next
    case (Loaded docs)
    then have "(\<exists>docs counted. task_failed e t docs counted w = (p1, w1)) \<or> world_step i row_counted w w1"
      using assms(2) count_effect [OF assms(1)] by (auto simp: t count_step_def split: sum.splits)
    then show ?thesis using failed quiet_refl keeps_change(1) by blast
  next
    case (Counted docs r)
    then have "(\<exists>docs counted w2. task_failed e t docs counted w2 = (p1, w1) \<and> quiet w w2) \<or> quiet w w1"
      using assms(2) quiet_resolve(2) by (simp add: t resolve_step_def Let_def split: sum.splits) blast+
    then show ?thesis using failed quiet by blast
  next
    case (Resolved docs r)
    then have "(\<exists>docs counted w2. task_failed e t docs counted w2 = (p1, w1) \<and> quiet w w2) \<or> quiet w w1"
      using assms(2) quiet_error_rows by (simp add: t record_step_def split: sum.splits prod.splits) blast+
    then show ?thesis using failed quiet by blast
  next
    case (Recorded docs r)
    then have "(\<exists>docs counted. task_failed e t docs counted w = (p1, w1)) \<or> (\<exists>f. ended i True (w\<lparr>w_files := f\<rparr>) = (p1, w1))"
      using assms(2) by (auto simp: t finish_step_def Let_def split: sum.splits)
    then show ?thesis using failed quiet quiet_refl quiet_ended quiet_trans [OF quiet_files(1)] by blast
  next
    case (Ended counted)
    then show ?thesis using assms(2) quiet_keeps [OF quiet_refl] by simp
  qed
qed

text \<open>Creation appends a row that no other running full attempt of its pair and settings precedes.\<close>

definition new_row :: "attempt_row \<Rightarrow> bool" where
  "new_row a \<longleftrightarrow> ia_status a = NOT_STARTED \<and> ia_total_batches a = None \<and> ia_completed_batches a = 0"

lemma create_effect:
  assumes "try_creating_docfetching_task e c s reindex w = (r, w1)"
  shows "quiet w w1 \<or> (\<exists>w2 a. t_attempts w2 = t_attempts w @ [a] \<and> w_queue w2 = w_queue w \<and> quiet w2 w1 \<and> ia_id a = ke_new_id e \<and> new_row a
    \<and> ia_cc_pair a = c \<and> ia_settings a = Some s \<and> \<not> list_ex (fenced c s) (t_attempts w))"
proof -
  obtain r2 w2 where t: "try_create_index_attempt (ke_locked e) (ke_now e) (ke_new_id e) c s (ke_task_id e) reindex w = (r2, w2)" by fastforce
  have "w1 = w \<or> quiet w2 w1"
    using assms t quiet_case_failed [of w2 "ke_now e" "the r2" "''Unknown''"] unfolding try_creating_docfetching_task_def
    by (auto split: if_splits option.splits)
  moreover have "r2 = None \<and> w2 = w \<or> (\<exists>a. t_attempts w2 = t_attempts w @ [a] \<and> w_queue w2 = w_queue w \<and> ia_id a = ke_new_id e \<and> new_row a
      \<and> ia_cc_pair a = c \<and> ia_settings a = Some s \<and> \<not> list_ex (fenced c s) (t_attempts w))"
    using t by (auto simp: try_create_index_attempt_def create_index_attempt_def new_row_def split: if_splits)
  ultimately show ?thesis by blast
qed

lemma one_running_create:
  assumes "one_running w" and "ke_new_id e \<notin> ia_id ` set (t_attempts w)" and "try_creating_docfetching_task e c s reindex w = (r, w1)"
  shows "one_running w1"
  using create_effect [OF assms(3)]
proof
  assume "quiet w w1"
  then show ?thesis using assms(1) one_running_kept quiet_keeps by blast
next
  assume "\<exists>w2 a. t_attempts w2 = t_attempts w @ [a] \<and> w_queue w2 = w_queue w \<and> quiet w2 w1 \<and> ia_id a = ke_new_id e \<and> new_row a
    \<and> ia_cc_pair a = c \<and> ia_settings a = Some s \<and> \<not> list_ex (fenced c s) (t_attempts w)"
  then obtain w2 a where w2: "t_attempts w2 = t_attempts w @ [a]" "quiet w2 w1" and a: "ia_id a = ke_new_id e" "ia_cc_pair a = c" "ia_settings a = Some s"
    and no: "\<not> list_ex (fenced c s) (t_attempts w)" by blast
  have none: "filter (fenced c s) (t_attempts w) = []" using no by (simp add: list_ex_iff filter_empty_conv)
  have "length (filter (fenced c' s') (t_attempts w2)) \<le> 1" for c' s'
  proof (cases "c' = c \<and> s' = s")
    case True
    then show ?thesis using none by (simp add: w2)
  next
    case False
    then have "\<not> fenced c' s' a" using a by (auto simp: fenced_def)
    then show ?thesis using assms(1) by (simp add: w2 one_running_def)
  qed
  then have "one_running w2" using assms(1,2) a by (simp add: one_running_def w2)
  then show ?thesis using one_running_kept quiet_keeps w2(2) by blast
qed

lemma set_total_keeps:
  "distinct (List.map ia_id (t_attempts w)) \<Longrightarrow> keeps_rows w (set_total_batches now i n w)"
  "distinct (List.map ia_id (t_attempts w)) \<Longrightarrow> keeps_rows w (set_completed_batches now i loaded completed w)"
proof -
  assume distinct: "distinct (List.map ia_id (t_attempts w))"
  have absent: "keeps_rows w (set_attempt now i f w)" if none: "get_index_attempt w i = None" for f
  proof -
    have "\<forall>a\<in>set (t_attempts w). ia_id a \<noteq> i" using none by (simp add: get_index_attempt_def find_None_iff)
    then have "set_attempt now i f w = w" unfolding set_attempt_def update_attempts_def by (simp add: map_idI)
    then show ?thesis using quiet_keeps [OF quiet_refl] by simp
  qed
  show "keeps_rows w (set_total_batches now i n w)"
  proof (cases "get_index_attempt w i")
    case (Some a)
    then show ?thesis using total_effect [OF distinct] keeps_change(2) by blast
  qed (simp add: set_total_batches_def absent)
  show "keeps_rows w (set_completed_batches now i loaded completed w)"
  proof (cases "get_index_attempt w i")
    case (Some a)
    then show ?thesis using set_completed_effect [OF distinct] keeps_change(3) quiet_keeps [OF quiet_refl]
      by (simp add: set_completed_batches_def) blast
  qed (simp add: set_completed_batches_def absent quiet_keeps)
qed

lemma one_running_step:
  assumes "istep persistent h h1" and "one_running (hw h)"
  shows "one_running (hw h1)"
proof -
  have distinct: "distinct (List.map ia_id (t_attempts (hw h)))" using assms(2) by (simp add: one_running_def)
  note kept = one_running_kept [OF assms(2)]
  note quiet = kept [OF quiet_keeps]
  show ?thesis using assms(1)
  proof cases
    case (S_create e c s reindex r w)
    then show ?thesis using one_running_create assms(2) by simp
  next
    case (S_begin now i w)
    then show ?thesis using begin_effect [OF distinct] keeps_change(4) kept by (simp add: move_on_def) blast
  next
    case (S_start i a now checkpointed resuming has_more n completed w)
    then show ?thesis using start_sends keeps_sends kept by (simp add: move_on_def) blast
  next
    case (S_start_error i now checkpointed resuming has_more c err w)
    then show ?thesis using start_sends keeps_sends kept by (simp add: move_on_def) blast
  next
    case (S_item i base fs e c item fs1 w)
    then show ?thesis using fetch_item_effect keeps_sends kept by (simp add: move_on_def) blast
  next
    case (S_item_error i base fs e c item err fs1 w now primary message s)
    then have "quiet (hw h) w" using fetch_item_effect by (fastforce simp: sends_def quiet_def)
    then show ?thesis using S_item_error quiet quiet_trans extraction_failed_effect by (simp add: move_on_def)
  next
    case (S_task k e p w)
    then show ?thesis using task_keeps [OF distinct] kept by simp
  next
    case (S_read now i seen w)
    then show ?thesis using read_effect quiet by simp
  next
    case (S_complete i st now c)
    then show ?thesis using complete_effect [OF distinct] quiet kept keeps_change(5) by simp blast
  next
    case (S_admin w)
    then show ?thesis using quiet_admin quiet by simp
  qed (auto simp: move_on_def intro: kept set_total_keeps distinct quiet extraction_failed_effect)
qed

text \<open>C13: Of a connector pair and search settings at most one full indexing attempt is waiting or running, whatever the
  scheduler, fetchers, workers, the monitor and administrators do and in whatever order they do it, as long as creation is
  serialised; identifiers of attempts are not reused.\<close>

theorem at_most_one_running_attempt: "ireach persistent h \<Longrightarrow> one_running (hw h)"
proof (induction rule: ireach.induct)
  case (I_first h)
  then show ?case by (simp add: first_history_def one_running_def)
next
  case (I_step h h1)
  then show ?case using one_running_step by blast
qed

end
