(* ===== verification/IndexSuccess.thy ===== *)
theory IndexSuccess
  imports IndexHistory
begin

text \<open>
  What a successful attempt means.  Every task that was sent is either counted or not, the number of completed batches
  stays below what the earlier attempt had completed plus the tasks counted, and the number of batches above it plus the tasks
  sent; so the monitor finds the attempt complete only when every task is counted.
\<close>

section \<open>Tasks sent and tasks counted\<close>

definition issued :: "history \<Rightarrow> int \<Rightarrow> int" where
  "issued h i = int (length (filter (\<lambda>t. fst (snd t) = i) (w_queue (hw h))))"

definition counted_tasks :: "history \<Rightarrow> int \<Rightarrow> int" where
  "counted_tasks h i = int (length (filter (\<lambda>(t, p). fst (snd t) = i \<and> is_counted p) (zip (w_queue (hw h)) (h_points h))))"

lemma counted_le_issued:
  assumes "length (h_points h) = length (w_queue (hw h))"
  shows "0 \<le> counted_tasks h i \<and> counted_tasks h i \<le> issued h i"
proof -
  have "length (filter (\<lambda>(t, p). fst (snd t) = i \<and> is_counted p) (zip ts ps)) \<le> length (filter (\<lambda>t. fst (snd t) = i) ts)"
    if "length ts = length ps" for ts :: "batch_task list" and ps
    using that by (induction rule: list_induct2) auto
  then show ?thesis using assms by (simp add: counted_tasks_def issued_def)
qed

lemma all_counted:
  assumes "length (h_points h) = length (w_queue (hw h))" and "counted_tasks h i = issued h i"
    and "k < length (w_queue (hw h))" and "fst (snd (w_queue (hw h) ! k)) = i"
  shows "is_counted (h_points h ! k)"
proof -
  have "length (filter (\<lambda>(t, p). fst (snd t) = i \<and> is_counted p) (zip ts ps)) = length (filter (\<lambda>t. fst (snd t) = i) ts)
      \<Longrightarrow> k < length ts \<Longrightarrow> fst (snd (ts ! k)) = i \<Longrightarrow> is_counted (ps ! k)"
    if "length ts = length ps" for ts :: "batch_task list" and ps k
    using that
  proof (induction arbitrary: k rule: list_induct2)
    case (Cons t ts p ps)
    have "length (filter (\<lambda>(t, p). fst (snd t) = i \<and> is_counted p) (zip ts ps)) \<le> length (filter (\<lambda>t. fst (snd t) = i) ts)"
      using Cons.hyps by (induction rule: list_induct2) auto
    then show ?case using Cons.prems Cons.IH by (cases k) (auto split: if_splits)
  qed simp
  then show ?thesis using assms by (simp add: counted_tasks_def issued_def)
qed

lemma length_filter_update:
  "k < length xs \<Longrightarrow> length (filter P (xs[k := y])) + (if P (xs ! k) then 1 else 0) = length (filter P xs) + (if P y then 1 else 0)"
proof (induction xs arbitrary: k)
  case (Cons x xs)
  then show ?case using Cons.IH [of "k - 1"] by (cases k) (auto split: if_splits)
qed simp

lemma counted_after_task:
  assumes "length (h_points h) = length (w_queue (hw h))" and "k < length (h_points h)" and "w_queue w = w_queue (hw h)"
  shows "counted_tasks (h\<lparr>hw := w, h_points := (h_points h)[k := p]\<rparr>) j = counted_tasks h j
    - (if fst (snd (w_queue (hw h) ! k)) = j \<and> is_counted (h_points h ! k) then 1 else 0)
    + (if fst (snd (w_queue (hw h) ! k)) = j \<and> is_counted p then 1 else 0)"
proof -
  let ?z = "zip (w_queue (hw h)) (h_points h)"
  have "zip (w_queue (hw h)) ((h_points h)[k := p]) = ?z[k := (w_queue (hw h) ! k, p)]"
    using update_zip [of "w_queue (hw h)" "h_points h" k "(w_queue (hw h) ! k, p)"] by simp
  then show ?thesis using assms length_filter_update [of k ?z "\<lambda>(t, p). fst (snd t) = j \<and> is_counted p" "(w_queue (hw h) ! k, p)"]
    by (auto simp: counted_tasks_def split: if_splits)
qed

lemma counts_after_sends:
  assumes "length (h_points h) = length (w_queue (hw h))" and queue: "w_queue w = w_queue (hw h) @ ts" and ids: "\<forall>t\<in>set ts. fst (snd t) = i"
  shows "issued (move_on w i ph h) j = issued h j + (if j = i then int (length ts) else 0)"
    and "counted_tasks (move_on w i ph h) j = counted_tasks h j"
    and "length (h_points (move_on w i ph h)) = length (w_queue w)"
proof -
  have "filter (\<lambda>t. fst (snd t) = j) ts = (if j = i then ts else [])" using ids by (auto simp: filter_empty_conv intro: filter_True)
  then show "issued (move_on w i ph h) j = issued h j + (if j = i then int (length ts) else 0)"
    by (simp add: issued_def move_on_def queue)
  have "filter (\<lambda>(t, p). fst (snd t) = j \<and> is_counted p) (zip ts (replicate (length ts) Queued)) = []"
    by (auto simp: filter_empty_conv set_zip)
  then show "counted_tasks (move_on w i ph h) j = counted_tasks h j" using assms(1) by (simp add: counted_tasks_def move_on_def queue)
  show "length (h_points (move_on w i ph h)) = length (w_queue w)" using assms(1) by (simp add: move_on_def queue)
qed

section \<open>The invariant\<close>

fun row_ok :: "fetch_phase option \<Rightarrow> int \<Rightarrow> int \<Rightarrow> attempt_row \<Rightarrow> bool" where
  "row_ok (Some (Reissued loaded completed n)) sent counts a \<longleftrightarrow> ia_total_batches a = None \<and> \<not> is_successful (ia_status a)
     \<and> ia_status a \<noteq> NOT_STARTED \<and> loaded = 0 \<and> ia_completed_batches a \<le> counts \<and> completed + sent \<le> n"
| "row_ok (Some (Fetching base fs)) sent counts a \<longleftrightarrow> ia_total_batches a = None \<and> \<not> is_successful (ia_status a)
     \<and> ia_status a \<noteq> NOT_STARTED \<and> ia_completed_batches a \<le> base + counts \<and> base + sent \<le> fs_batch_num fs"
| "row_ok (Some (Fetched base)) sent counts a \<longleftrightarrow> (\<exists>n. ia_total_batches a = Some n \<and> base + sent \<le> n)
     \<and> ia_status a \<noteq> NOT_STARTED \<and> ia_completed_batches a \<le> base + counts \<and> (is_successful (ia_status a) \<longrightarrow> counts = sent)"
| "row_ok (Some Stopped) sent counts a \<longleftrightarrow> ia_total_batches a = None \<and> \<not> is_successful (ia_status a) \<and> ia_status a \<noteq> NOT_STARTED"
| "row_ok (Some Starting) sent counts a \<longleftrightarrow> ia_total_batches a = None \<and> \<not> is_successful (ia_status a) \<and> ia_status a \<noteq> NOT_STARTED
     \<and> ia_completed_batches a = 0"
| "row_ok None sent counts a \<longleftrightarrow> ia_total_batches a = None \<and> \<not> is_successful (ia_status a) \<and> ia_completed_batches a = 0"

definition rows_ok :: "history \<Rightarrow> bool" where
  "rows_ok h \<longleftrightarrow> (\<forall>a\<in>set (t_attempts (hw h)). row_ok (h_fetch h (ia_id a)) (issued h (ia_id a)) (counted_tasks h (ia_id a)) a)"

definition phases_ok :: "history \<Rightarrow> bool" where
  "phases_ok h \<longleftrightarrow> (\<forall>i. (h_fetch h i \<noteq> None \<longrightarrow> i \<in> ia_id ` set (t_attempts (hw h)))
     \<and> (h_fetch h i = None \<or> h_fetch h i = Some Starting \<longrightarrow> issued h i = 0))"

definition reading_ok :: "history \<Rightarrow> int \<Rightarrow> coordination_status \<Rightarrow> bool" where
  "reading_ok h i st \<longleftrightarrow> (\<forall>n. cs_total_batches st = Some n \<and> n \<le> cs_completed_batches st \<longrightarrow>
     counted_tasks h i = issued h i \<and> (\<exists>base. h_fetch h i = Some (Fetched base)))"

definition history_ok :: "history \<Rightarrow> bool" where
  "history_ok h \<longleftrightarrow> length (h_points h) = length (w_queue (hw h)) \<and> distinct (List.map ia_id (t_attempts (hw h)))
     \<and> rows_ok h \<and> phases_ok h \<and> (\<forall>(i, st)\<in>set (h_seen h). reading_ok h i st)"

lemma row_quiet_id: "row_quiet a b \<Longrightarrow> ia_id b = ia_id a"
  by (simp add: row_quiet_def row_keeps_def)

lemma row_ok_quiet:
  assumes "row_quiet a b" and "row_ok ph sent counts a"
  shows "row_ok ph sent counts b"
proof -
  have "ia_total_batches b = ia_total_batches a" "ia_completed_batches b = ia_completed_batches a"
      "is_successful (ia_status b) \<longrightarrow> is_successful (ia_status a)" "ia_status b = NOT_STARTED \<longrightarrow> ia_status a = NOT_STARTED"
    using assms(1) by (auto simp: row_quiet_def row_keeps_def)
  then show ?thesis using assms(2) by (cases "(ph, sent, counts, b)" rule: row_ok.cases) auto
qed

lemma list_all2_source: "list_all2 R xs ys \<Longrightarrow> b \<in> set ys \<Longrightarrow> \<exists>a\<in>set xs. R a b"
  by (induction rule: list_all2_induct) auto

text \<open>A step of the attempt \<open>i\<close>.\<close>

lemma rows_ok_step:
  assumes "rows_ok h"
    and rows: "list_all2 (\<lambda>a b. if ia_id a = i then R a b else row_quiet a b) (t_attempts (hw h)) (t_attempts (hw h1))"
    and others: "\<And>j. j \<noteq> i \<Longrightarrow> h_fetch h1 j = h_fetch h j \<and> issued h1 j = issued h j \<and> counted_tasks h1 j = counted_tasks h j"
    and this_row: "\<And>a b. a \<in> set (t_attempts (hw h)) \<Longrightarrow> ia_id a = i \<Longrightarrow> row_ok (h_fetch h i) (issued h i) (counted_tasks h i) a \<Longrightarrow> R a b
      \<Longrightarrow> ia_id b = i \<and> row_ok (h_fetch h1 i) (issued h1 i) (counted_tasks h1 i) b"
  shows "rows_ok h1"
  unfolding rows_ok_def
proof
  fix b assume "b \<in> set (t_attempts (hw h1))"
  then obtain a where a: "a \<in> set (t_attempts (hw h))" and step: "if ia_id a = i then R a b else row_quiet a b"
    using list_all2_source [OF rows] by blast
  have ok: "row_ok (h_fetch h (ia_id a)) (issued h (ia_id a)) (counted_tasks h (ia_id a)) a" using assms(1) a by (simp add: rows_ok_def)
  show "row_ok (h_fetch h1 (ia_id b)) (issued h1 (ia_id b)) (counted_tasks h1 (ia_id b)) b"
  proof (cases "ia_id a = i")
    case True
    then show ?thesis using this_row [OF a True] ok step by auto
  next
    case False
    then have "row_quiet a b" "ia_id b = ia_id a" using step by (auto simp: row_changes)
    then show ?thesis using others False ok row_ok_quiet by auto
  qed
qed

lemma history_ok_step:
  assumes "history_ok h"
    and ids: "List.map ia_id (t_attempts (hw h1)) = List.map ia_id (t_attempts (hw h))"
    and len: "length (h_points h1) = length (w_queue (hw h1))" and rows: "rows_ok h1"
    and others: "\<And>j. j \<noteq> i \<Longrightarrow> h_fetch h1 j = h_fetch h j \<and> issued h1 j = issued h j \<and> counted_tasks h1 j = counted_tasks h j"
    and phase: "h_fetch h1 i \<noteq> None \<Longrightarrow> i \<in> ia_id ` set (t_attempts (hw h))"
      "h_fetch h1 i = None \<or> h_fetch h1 i = Some Starting \<Longrightarrow> issued h1 i = 0"
    and final: "\<And>base. h_fetch h i = Some (Fetched base) \<Longrightarrow>
      h_fetch h1 i = h_fetch h i \<and> issued h1 i = issued h i \<and> counted_tasks h i \<le> counted_tasks h1 i"
    and seen: "\<And>j st. (j, st) \<in> set (h_seen h1) \<Longrightarrow> (j, st) \<in> set (h_seen h) \<or> reading_ok h1 j st"
  shows "history_ok h1"
proof -
  have "phases_ok h" and readings: "\<And>j st. (j, st) \<in> set (h_seen h) \<Longrightarrow> reading_ok h j st" using assms(1) by (auto simp: history_ok_def)
  have same_set: "ia_id ` set (t_attempts (hw h1)) = ia_id ` set (t_attempts (hw h))" using ids by (metis list.set_map)
  have "phases_ok h1" unfolding phases_ok_def same_set
  proof
    fix j
    show "(h_fetch h1 j \<noteq> None \<longrightarrow> j \<in> ia_id ` set (t_attempts (hw h)))
        \<and> (h_fetch h1 j = None \<or> h_fetch h1 j = Some Starting \<longrightarrow> issued h1 j = 0)"
      using phase others [of j] \<open>phases_ok h\<close> by (cases "j = i") (auto simp: phases_ok_def)
  qed
  moreover have "reading_ok h j st \<Longrightarrow> reading_ok h1 j st" for j st
    using others [of j] final counted_le_issued [OF len, of i] by (cases "j = i") (fastforce simp: reading_ok_def)+
  then have "\<forall>(j, st)\<in>set (h_seen h1). reading_ok h1 j st" using seen readings by blast
  ultimately show ?thesis using assms(1) ids len rows by (simp add: history_ok_def)
qed

section \<open>Every step keeps the invariant\<close>

lemma history_ok_seen:
  assumes "history_ok h" and "quiet (hw h) w" and "hw h1 = w" "h_points h1 = h_points h" "h_fetch h1 = h_fetch h"
    and "\<And>j st. (j, st) \<in> set (h_seen h1) \<Longrightarrow> (j, st) \<in> set (h_seen h) \<or> reading_ok h1 j st"
  shows "history_ok h1"
proof -
  have queue: "w_queue w = w_queue (hw h)" using assms(2) by (simp add: quiet_def)
  have same: "h_fetch h1 j = h_fetch h j \<and> issued h1 j = issued h j \<and> counted_tasks h1 j = counted_tasks h j" for j
    using assms(3-5) queue by (simp add: issued_def counted_tasks_def)
  have "rows_ok h1"
  proof (rule rows_ok_step [of h 0 row_quiet])
    show "list_all2 (\<lambda>a b. if ia_id a = 0 then row_quiet a b else row_quiet a b) (t_attempts (hw h)) (t_attempts (hw h1))"
      using assms(2,3) by (simp add: quiet_def)
    show "row_ok (h_fetch h 0) (issued h 0) (counted_tasks h 0) a \<Longrightarrow> ia_id a = 0 \<Longrightarrow> row_quiet a b
        \<Longrightarrow> ia_id b = 0 \<and> row_ok (h_fetch h1 0) (issued h1 0) (counted_tasks h1 0) b" for a b
      using same row_ok_quiet row_quiet_id by simp
  qed (use assms(1) same in \<open>auto simp: history_ok_def\<close>)
  then show ?thesis
    using assms same queue quiet_ids [OF assms(2)]
    by (intro history_ok_step [of h h1 0]) (auto simp: history_ok_def phases_ok_def)
qed

lemma history_ok_quiet: "history_ok h \<Longrightarrow> quiet (hw h) w \<Longrightarrow> history_ok (h\<lparr>hw := w\<rparr>)"
  by (rule history_ok_seen) auto

lemma proceed_ok:
  assumes "history_ok h" and queue: "w_queue w = w_queue (hw h) @ ts" and ids: "\<forall>t\<in>set ts. fst (snd t) = i"
    and rows: "list_all2 (\<lambda>a b. if ia_id a = i then R a b else row_quiet a b) (t_attempts (hw h)) (t_attempts w)"
    and keeps: "keeps_rows (hw h) w" and "\<And>base. h_fetch h i \<noteq> Some (Fetched base)" and "i \<in> ia_id ` set (t_attempts (hw h))"
    and "ph = Starting \<Longrightarrow> ts = [] \<and> issued h i = 0"
    and this_row: "\<And>a b. a \<in> set (t_attempts (hw h)) \<Longrightarrow> ia_id a = i \<Longrightarrow> row_ok (h_fetch h i) (issued h i) (counted_tasks h i) a \<Longrightarrow> R a b
      \<Longrightarrow> ia_id b = i \<and> row_ok (Some ph) (issued h i + int (length ts)) (counted_tasks h i) b"
  shows "history_ok (move_on w i ph h)"
proof -
  have len: "length (h_points h) = length (w_queue (hw h))" using assms(1) by (simp add: history_ok_def)
  note counts = counts_after_sends [OF len queue ids, of ph]
  have fetch: "h_fetch (move_on w i ph h) j = (if j = i then Some ph else h_fetch h j)" "hw (move_on w i ph h) = w"
      "h_seen (move_on w i ph h) = h_seen h" for j by (auto simp: move_on_def)
  have rows1: "rows_ok (move_on w i ph h)"
    by (rule rows_ok_step [of h i R]) (use assms(1) rows this_row counts fetch in \<open>auto simp: history_ok_def\<close>)
  have ids1: "List.map ia_id (t_attempts w) = List.map ia_id (t_attempts (hw h))" using keeps same_ids by (simp add: keeps_rows_def)
  show ?thesis
  proof (rule history_ok_step [where i = i, OF assms(1)])
    assume "h_fetch (move_on w i ph h) i = None \<or> h_fetch (move_on w i ph h) i = Some Starting"
    then show "issued (move_on w i ph h) i = 0" using assms(8) counts(1) fetch(1) by auto
  qed (use rows1 ids1 assms(6,7) counts fetch in simp_all)
qed

text \<open>A phase of fetching that only sends tasks.\<close>

lemma proceed_sends_ok:
  assumes "history_ok h" and "sends i ts (hw h) w" and "h_fetch h i = Some ph0" and "\<And>base. ph0 \<noteq> Fetched base" and "ph \<noteq> Starting"
    and "\<And>a. row_ok (Some ph0) (issued h i) (counted_tasks h i) a \<Longrightarrow> row_ok (Some ph) (issued h i + int (length ts)) (counted_tasks h i) a"
  shows "history_ok (move_on w i ph h)"
proof (rule proceed_ok [where R = row_quiet])
  show "w_queue w = w_queue (hw h) @ ts" "\<forall>t\<in>set ts. fst (snd t) = i" using assms(2) by (auto simp: sends_def)
  show "list_all2 (\<lambda>a b. if ia_id a = i then row_quiet a b else row_quiet a b) (t_attempts (hw h)) (t_attempts w)"
    using assms(2) by (simp add: sends_def)
  show "keeps_rows (hw h) w" using keeps_sends assms(2) by blast
  show "i \<in> ia_id ` set (t_attempts (hw h))" using assms(1,3) by (auto simp: history_ok_def phases_ok_def)
  fix a b assume "ia_id a = i" "row_ok (h_fetch h i) (issued h i) (counted_tasks h i) a" "row_quiet a b"
  then show "ia_id b = i \<and> row_ok (Some ph) (issued h i + int (length ts)) (counted_tasks h i) b"
    using assms(3,6) row_ok_quiet [of a b "Some ph"] row_quiet_id by simp
qed (use assms in auto)

lemma quiet_proceed_ok:
  assumes "history_ok h" and "quiet (hw h) w" and "h_fetch h i = Some ph0" and "\<And>base. ph0 \<noteq> Fetched base" and "ph \<noteq> Starting"
    and "\<And>a. row_ok (Some ph0) (issued h i) (counted_tasks h i) a \<Longrightarrow> row_ok (Some ph) (issued h i) (counted_tasks h i) a"
  shows "history_ok (move_on w i ph h)"
  using proceed_sends_ok [OF assms(1) sends_none [OF assms(2)] assms(3,4,5)] assms(6) by simp

lemma create_ok:
  assumes "history_ok h" and "ke_new_id e \<notin> ia_id ` set (t_attempts (hw h))" and "try_creating_docfetching_task e c s reindex (hw h) = (r, w)"
  shows "history_ok (h\<lparr>hw := w\<rparr>)"
  using create_effect [OF assms(3)]
proof
  assume "quiet (hw h) w"
  then show ?thesis using history_ok_quiet assms(1) by blast
next
  assume "\<exists>w2 a. t_attempts w2 = t_attempts (hw h) @ [a] \<and> w_queue w2 = w_queue (hw h) \<and> quiet w2 w \<and> ia_id a = ke_new_id e \<and> new_row a
    \<and> ia_cc_pair a = c \<and> ia_settings a = Some s \<and> \<not> list_ex (fenced c s) (t_attempts (hw h))"
  then obtain w2 a where w2: "t_attempts w2 = t_attempts (hw h) @ [a]" "w_queue w2 = w_queue (hw h)" "quiet w2 w"
    and a: "ia_id a = ke_new_id e" "new_row a" by blast
  let ?h = "h\<lparr>hw := w2\<rparr>"
  have same: "issued ?h j = issued h j" "counted_tasks ?h j = counted_tasks h j" for j using w2(2) by (simp_all add: issued_def counted_tasks_def)
  have "h_fetch h (ia_id a) = None" using assms(1,2) a(1) by (auto simp: history_ok_def phases_ok_def)
  then have "row_ok (h_fetch h (ia_id a)) (issued h (ia_id a)) (counted_tasks h (ia_id a)) a"
    using a(2) by (simp add: new_row_def is_successful_def)
  then have "history_ok ?h"
    using assms(1,2) a(1) w2(1,2) same by (auto simp: history_ok_def rows_ok_def phases_ok_def reading_ok_def)
  then have "history_ok (?h\<lparr>hw := w\<rparr>)" by (rule history_ok_quiet) (simp add: w2(3))
  then show ?thesis by simp
qed

lemma begin_ok:
  assumes "history_ok h" and "transition_attempt_to_in_progress now i (hw h) = Inr w"
  shows "history_ok (move_on w i Starting h)"
proof -
  have distinct: "distinct (List.map ia_id (t_attempts (hw h)))" using assms(1) by (simp add: history_ok_def)
  note begun = begin_effect [OF distinct assms(2)]
  obtain a where a: "get_index_attempt (hw h) i = Some a" using begun by blast
  have status: "ia_status a = NOT_STARTED" using assms(2) a
    by (auto simp: transition_attempt_to_in_progress_def lock_attempt_def split: if_splits)
  have "row_ok (h_fetch h i) (issued h i) (counted_tasks h i) a" using assms(1) found_id [OF a] by (auto simp: history_ok_def rows_ok_def)
  then have none: "h_fetch h i = None" using status by (cases "(h_fetch h i, issued h i, counted_tasks h i, a)" rule: row_ok.cases) auto
  show ?thesis
  proof (rule proceed_ok [where R = row_begun and ts = "[]"])
    show "list_all2 (\<lambda>a b. if ia_id a = i then row_begun a b else row_quiet a b) (t_attempts (hw h)) (t_attempts w)"
      using begun by (simp add: world_step_def)
    show "keeps_rows (hw h) w" using begun keeps_change(4) by blast
    show "i \<in> ia_id ` set (t_attempts (hw h))" using found_id [OF a] by blast
    show "[] = ([] :: batch_task list) \<and> issued h i = 0" using none assms(1) by (auto simp: history_ok_def phases_ok_def)
    fix b d assume "ia_id b = i" "row_ok (h_fetch h i) (issued h i) (counted_tasks h i) b" "row_begun b d"
    then show "ia_id d = i \<and> row_ok (Some Starting) (issued h i + int (length ([] :: batch_task list))) (counted_tasks h i) d"
      using none by (auto simp: row_begun_def row_quiet_def row_keeps_def is_successful_def)
  qed (use assms(1) begun none in \<open>auto simp: world_step_def\<close>)
qed

text \<open>A change of the rows of one attempt that keeps the queue.\<close>

lemma change_ok:
  assumes "history_ok h" and "world_step i R (hw h) w" and "keeps_rows (hw h) w" and "h_fetch h i = Some ph0" and "\<And>base. ph0 \<noteq> Fetched base"
    and "ph \<noteq> Starting"
    and "\<And>a b. ia_id a = i \<Longrightarrow> row_ok (Some ph0) (issued h i) (counted_tasks h i) a \<Longrightarrow> R a b
      \<Longrightarrow> ia_id b = i \<and> row_ok (Some ph) (issued h i) (counted_tasks h i) b"
  shows "history_ok (move_on w i ph h)"
proof (rule proceed_ok [where R = R and ts = "[]"])
  show "i \<in> ia_id ` set (t_attempts (hw h))" using assms(1,4) by (auto simp: history_ok_def phases_ok_def)
  show "list_all2 (\<lambda>a b. if ia_id a = i then R a b else row_quiet a b) (t_attempts (hw h)) (t_attempts w)"
    using assms(2) by (simp add: world_step_def)
  fix a b assume "ia_id a = i" "row_ok (h_fetch h i) (issued h i) (counted_tasks h i) a" "R a b"
  then show "ia_id b = i \<and> row_ok (Some ph) (issued h i + int (length ([] :: batch_task list))) (counted_tasks h i) b"
    using assms(4,7) by simp
qed (use assms in \<open>auto simp: world_step_def\<close>)

lemma phase_row:
  assumes "history_ok h" and "h_fetch h i = Some ph"
  shows "\<exists>a. get_index_attempt (hw h) i = Some a \<and> row_ok (Some ph) (issued h i) (counted_tasks h i) a"
proof -
  have "i \<in> ia_id ` set (t_attempts (hw h))" using assms by (auto simp: history_ok_def phases_ok_def)
  then obtain a where a: "get_index_attempt (hw h) i = Some a"
    by (cases "get_index_attempt (hw h) i") (auto simp: get_index_attempt_def find_None_iff)
  then show ?thesis using assms found_id [OF a] by (auto simp: history_ok_def rows_ok_def)
qed

lemma start_ok:
  assumes "history_ok h" and "h_fetch h i = Some Starting" and "get_index_attempt (hw h) i = Some a"
    and "start_extraction now ck rs hm c i (hw h) = (Inr (n, completed), w)"
  shows "history_ok (move_on w i (Reissued (ia_completed_batches a) completed n) h)"
proof -
  obtain ts where ts: "sends i ts (hw h) w" "completed + int (length ts) \<le> n \<or> n = 0 \<and> ts = [] \<and> completed = ia_completed_batches a"
    using start_effect [OF assms(3,4)] by blast
  have zero: "issued h i = 0" using assms(1,2) by (auto simp: history_ok_def phases_ok_def)
  have uncounted: "ia_completed_batches a = 0" using phase_row [OF assms(1,2)] assms(3) by auto
  have "0 \<le> counted_tasks h i" using assms(1) counted_le_issued by (auto simp: history_ok_def)
  moreover have "completed + int (length ts) \<le> n" using ts(2) uncounted by auto
  ultimately have "history_ok (move_on w i (Reissued 0 completed n) h)"
    using zero by (intro proceed_sends_ok [OF assms(1) ts(1) assms(2)]) auto
  then show ?thesis by (simp add: uncounted)
qed

lemma resume_ok:
  assumes "history_ok h" and phase: "h_fetch h i = Some (Reissued loaded completed n)"
  shows "history_ok (move_on (set_completed_batches now i loaded completed (hw h)) i (Fetching completed (first_fetch n)) h)"
proof -
  have distinct: "distinct (List.map ia_id (t_attempts (hw h)))" using assms(1) by (simp add: history_ok_def)
  obtain a where a: "get_index_attempt (hw h) i = Some a" "loaded = 0" using phase_row [OF assms] by auto
  have positive: "0 \<le> counted_tasks h i" using assms(1) counted_le_issued by (auto simp: history_ok_def)
  show ?thesis
  proof (cases "completed = loaded")
    case True
    then show ?thesis using a(2) unfolding set_completed_batches_def
      by (auto intro!: quiet_proceed_ok [OF assms(1) _ phase] simp: first_fetch_def)
  next
    case False
    note effect = set_completed_effect [OF distinct a(1), of completed now]
    show ?thesis using False positive unfolding set_completed_batches_def
      by (auto intro!: change_ok [OF assms(1) effect keeps_change(3) [OF effect] phase] simp: first_fetch_def row_set_def row_keeps_def)
  qed
qed

lemma row_ok_counted:
  assumes "row_counted a b" and "row_ok ph sent counts a" and "counts + 1 \<le> sent" and "ph \<noteq> None" "ph \<noteq> Some Starting"
  shows "row_ok ph sent (counts + 1) b"
proof -
  have "ia_total_batches b = ia_total_batches a" "ia_completed_batches b = ia_completed_batches a + 1" "ia_status b = ia_status a"
    using assms(1) by (auto simp: row_counted_def)
  then show ?thesis using assms(2-5) by (cases "(ph, sent, counts, b)" rule: row_ok.cases) auto
qed

lemma task_ok:
  assumes "history_ok h" and k: "k < length (h_points h)" and "\<not> te_persistent e"
    and step: "task_step e (w_queue (hw h) ! k) (h_points h ! k) (hw h) = (p, w)"
  shows "history_ok (h\<lparr>hw := w, h_points := (h_points h)[k := p]\<rparr>)"
proof -
  let ?h = "h\<lparr>hw := w, h_points := (h_points h)[k := p]\<rparr>" and ?i = "fst (snd (w_queue (hw h) ! k))"
  have len: "length (h_points h) = length (w_queue (hw h))" and distinct: "distinct (List.map ia_id (t_attempts (hw h)))"
    using assms(1) by (simp_all add: history_ok_def)
  have effect: "quiet (hw h) w \<and> is_counted p = is_counted (h_points h ! k)
    \<or> world_step ?i row_counted (hw h) w \<and> is_counted p \<and> \<not> is_counted (h_points h ! k)"
    using task_effect [OF distinct assms(3) step] .
  then have queue: "w_queue w = w_queue (hw h)" by (auto simp: quiet_def world_step_def)
  have issued: "issued ?h j = issued h j" for j using queue by (simp add: issued_def)
  note counted = counted_after_task [OF len k queue, of p]
  let ?R = "\<lambda>a b. (is_counted p = is_counted (h_points h ! k) \<and> row_quiet a b) \<or> (is_counted p \<and> \<not> is_counted (h_points h ! k) \<and> row_counted a b)"
  have rows: "list_all2 (\<lambda>a b. if ia_id a = ?i then ?R a b else row_quiet a b) (t_attempts (hw h)) (t_attempts w)"
    using effect by (auto simp: quiet_def world_step_def elim!: list_all2_mono split: if_splits)
  have keeps: "keeps_rows (hw h) w" using effect quiet_keeps keeps_change(1) by blast
  show ?thesis
  proof (rule history_ok_step [where i = ?i, OF assms(1)])
    show "rows_ok ?h"
    proof (rule rows_ok_step [where i = ?i and R = ?R])
      fix a b assume ok: "ia_id a = ?i" "row_ok (h_fetch h ?i) (issued h ?i) (counted_tasks h ?i) a" and step: "?R a b"
      have id: "ia_id b = ?i" using ok(1) step by (auto simp: row_quiet_id row_counted_def row_keeps_def)
      show "ia_id b = ?i \<and> row_ok (h_fetch ?h ?i) (issued ?h ?i) (counted_tasks ?h ?i) b"
      proof (cases "is_counted p = is_counted (h_points h ! k)")
        case True
        then show ?thesis using id ok(2) step row_ok_quiet issued counted by auto
      next
        case False
        then have more: "counted_tasks ?h ?i = counted_tasks h ?i + 1" "row_counted a b" using step counted by auto
        have room: "counted_tasks h ?i + 1 \<le> issued h ?i" "0 \<le> counted_tasks h ?i"
          using counted_le_issued [of ?h ?i] counted_le_issued [OF len, of ?i] len queue more(1) issued by simp_all
        then have "issued h ?i \<noteq> 0" by linarith
        moreover have "phases_ok h" using assms(1) by (simp add: history_ok_def)
        ultimately have "h_fetch h ?i \<noteq> None" "h_fetch h ?i \<noteq> Some Starting" unfolding phases_ok_def by metis+
        then show ?thesis using id row_ok_counted [OF more(2) ok(2) room(1)] issued more(1) by simp
      qed
    qed (use assms(1) rows issued counted in \<open>auto simp: history_ok_def\<close>)
  next
    fix base assume "h_fetch h ?i = Some (Fetched base)"
    show "h_fetch ?h ?i = h_fetch h ?i \<and> issued ?h ?i = issued h ?i \<and> counted_tasks h ?i \<le> counted_tasks ?h ?i"
      using effect issued counted by auto
  qed (use len queue issued counted keeps same_ids assms(1) in \<open>auto simp: keeps_rows_def history_ok_def phases_ok_def\<close>)
qed

text \<open>What the monitor reads, and what it does with it.\<close>

lemma read_ok:
  assumes "history_ok h" and read: "read_progress now i (hw h) = (seen, w)"
  shows "history_ok (h\<lparr>hw := w, h_seen := (case seen of None \<Rightarrow> [] | Some st \<Rightarrow> [(i, st)]) @ h_seen h\<rparr>)"
proof -
  have ok: "history_ok (h\<lparr>hw := w\<rparr>)" using history_ok_quiet assms read_effect by blast
  have "reading_ok (h\<lparr>hw := w\<rparr>) i st" if "seen = Some st" for st
    unfolding reading_ok_def
  proof (intro allI impI)
    fix n assume n: "cs_total_batches st = Some n \<and> n \<le> cs_completed_batches st"
    have st: "st = get_coordination_status w i" using read \<open>seen = Some st\<close>
      by (auto simp: read_progress_def Let_def split: option.splits if_splits)
    then obtain a where a: "get_index_attempt w i = Some a" "ia_total_batches a = Some n" "n \<le> ia_completed_batches a"
      using n by (auto simp: get_coordination_status_def split: option.splits)
    have "row_ok (h_fetch h i) (issued (h\<lparr>hw := w\<rparr>) i) (counted_tasks (h\<lparr>hw := w\<rparr>) i) a"
      using ok found_id [OF a(1)] by (auto simp: history_ok_def rows_ok_def)
    then obtain base where base: "h_fetch h i = Some (Fetched base)" "base + issued (h\<lparr>hw := w\<rparr>) i \<le> n"
        "ia_completed_batches a \<le> base + counted_tasks (h\<lparr>hw := w\<rparr>) i"
      using a(2) by (cases "(h_fetch h i, issued (h\<lparr>hw := w\<rparr>) i, counted_tasks (h\<lparr>hw := w\<rparr>) i, a)" rule: row_ok.cases) auto
    moreover have "counted_tasks (h\<lparr>hw := w\<rparr>) i \<le> issued (h\<lparr>hw := w\<rparr>) i" using counted_le_issued ok by (simp add: history_ok_def)
    ultimately show "counted_tasks (h\<lparr>hw := w\<rparr>) i = issued (h\<lparr>hw := w\<rparr>) i \<and> (\<exists>base. h_fetch (h\<lparr>hw := w\<rparr>) i = Some (Fetched base))"
      using a(3) by simp
  qed
  then show ?thesis
    by (intro history_ok_seen [OF assms(1) read_effect [OF read]])
      (auto simp: reading_ok_def issued_def counted_tasks_def split: option.splits)
qed

lemma complete_ok:
  assumes "history_ok h" and "(i, st) \<in> set (h_seen h)"
  shows "history_ok (h\<lparr>hw := complete_attempt now i c st (hw h)\<rparr>)"
proof -
  let ?w = "complete_attempt now i c st (hw h)" and ?h = "h\<lparr>hw := complete_attempt now i c st (hw h)\<rparr>"
  have distinct: "distinct (List.map ia_id (t_attempts (hw h)))" and "reading_ok h i st" using assms by (auto simp: history_ok_def)
  show ?thesis using complete_effect [OF distinct]
  proof
    assume "quiet (hw h) ?w"
    then show ?thesis using history_ok_quiet assms(1) by blast
  next
    assume "\<exists>n. cs_total_batches st = Some n \<and> n \<le> cs_completed_batches st \<and> world_step i row_done (hw h) ?w"
    then have step: "world_step i row_done (hw h) ?w" and all: "counted_tasks h i = issued h i" and "\<exists>base. h_fetch h i = Some (Fetched base)"
      using \<open>reading_ok h i st\<close> by (auto simp: reading_ok_def)
    then obtain base where base: "h_fetch h i = Some (Fetched base)" by blast
    have queue: "w_queue ?w = w_queue (hw h)" using step by (simp add: world_step_def)
    have same: "h_fetch ?h j = h_fetch h j \<and> issued ?h j = issued h j \<and> counted_tasks ?h j = counted_tasks h j" for j
      using queue by (simp add: issued_def counted_tasks_def)
    have ids: "List.map ia_id (t_attempts ?w) = List.map ia_id (t_attempts (hw h))"
      using keeps_change(5) [OF step] same_ids by (simp add: keeps_rows_def)
    show ?thesis
    proof (rule history_ok_step [where i = i, OF assms(1)])
      show "rows_ok ?h"
      proof (rule rows_ok_step [where i = i and R = row_done])
        fix a b assume "ia_id a = i" "row_ok (h_fetch h i) (issued h i) (counted_tasks h i) a" "row_done a b"
        then show "ia_id b = i \<and> row_ok (h_fetch ?h i) (issued ?h i) (counted_tasks ?h i) b"
          using base all same by (auto simp: row_done_def row_keeps_def)
      qed (use assms(1) step same in \<open>auto simp: history_ok_def world_step_def\<close>)
    qed (use assms(1) queue ids same base in \<open>auto simp: history_ok_def phases_ok_def\<close>)
  qed
qed

lemma history_ok_istep:
  assumes "istep False h h1" and ok: "history_ok h"
  shows "history_ok h1"
  using assms(1)
proof cases
  case (S_create e c s reindex r w)
  then show ?thesis using create_ok [OF ok] by blast
next
  case (S_begin now i w)
  then show ?thesis using begin_ok [OF ok] by blast
next
  case (S_start i a now checkpointed resuming has_more n completed w)
  then show ?thesis using start_ok [OF ok] by blast
next
  case (S_start_error i now checkpointed resuming has_more c err w)
  then obtain ts where "sends i ts (hw h) w" using start_sends by blast
  then show ?thesis using S_start_error by (auto intro!: proceed_sends_ok [OF ok])
next
  case (S_resume i loaded completed n now)
  then show ?thesis using resume_ok [OF ok] by blast
next
  case (S_item i base fs e c item fs1 w)
  then obtain ts where "sends i ts (hw h) w" "fs_batch_num fs1 = fs_batch_num fs + int (length ts)" using fetch_item_effect by blast
  then show ?thesis using S_item by (auto intro!: proceed_sends_ok [OF ok])
next
  case (S_item_error i base fs e c item err fs1 w now primary message s)
  then have "quiet (hw h) w" using fetch_item_effect by (fastforce simp: sends_def quiet_def)
  then have "quiet (hw h) (extraction_failed now primary message err c i s w)" using extraction_failed_effect quiet_trans by blast
  then show ?thesis using S_item_error by (auto intro!: quiet_proceed_ok [OF ok])
next
  case (S_connector_error i base fs now primary message err c s)
  then show ?thesis by (auto intro!: quiet_proceed_ok [OF ok extraction_failed_effect])
next
  case (S_fetched i base fs now)
  obtain a where a: "get_index_attempt (hw h) i = Some a" using phase_row [OF ok S_fetched(2)] by blast
  note effect = total_effect [OF _ a, of "fs_batch_num fs" now]
  have "distinct (List.map ia_id (t_attempts (hw h)))" using ok by (simp add: history_ok_def)
  then show ?thesis unfolding S_fetched(1)
    by (intro change_ok [OF ok effect keeps_change(2) [OF effect] S_fetched(2)]) (auto simp: row_totalled_def row_keeps_def)
next
  case (S_task k e p w)
  then show ?thesis using task_ok [OF ok] by blast
next
  case (S_read now i seen w)
  then show ?thesis using read_ok [OF ok] by blast
next
  case (S_complete i st now c)
  then show ?thesis using complete_ok [OF ok] by blast
next
  case (S_admin w)
  then show ?thesis using history_ok_quiet [OF ok] quiet_admin by blast
qed

lemma history_ok_reach: "ireach False h \<Longrightarrow> history_ok h"
proof (induction rule: ireach.induct)
  case (I_first h)
  then show ?case by (simp add: first_history_def history_ok_def rows_ok_def phases_ok_def issued_def)
next
  case (I_step h h1)
  then show ?case using history_ok_istep by blast
qed


end
