(* ===== verification/IndexRuns.thy ===== *)
theory IndexRuns
  imports IndexSuccess
begin

text \<open>
  Histories of indexing attempts that can be run: a list of actions, each of which is a step, and what three of them show.
\<close>

section \<open>Actions\<close>

datatype action =
    Create kickoff_env int int bool
  | Begin int int
  | Start int bool bool bool int
  | Resume int int
  | Fetch fetch_env int int batch
  | FetchedAll int int
  | Work nat task_env
  | Cancel int int
  | Look int int
  | Complete int int int nat

fun perform :: "bool \<Rightarrow> action \<Rightarrow> history \<Rightarrow> history option" where
  "perform persistent (Create e c s reindex) h = (if ke_new_id e \<in> ia_id ` set (t_attempts (hw h)) then None
     else Some (h\<lparr>hw := snd (try_creating_docfetching_task e c s reindex (hw h))\<rparr>))"
| "perform persistent (Begin now i) h = (case transition_attempt_to_in_progress now i (hw h) of
     Inl _ \<Rightarrow> None | Inr w \<Rightarrow> Some (move_on w i Starting h))"
| "perform persistent (Start now checkpointed resuming has_more i) h = (case (h_fetch h i, get_index_attempt (hw h) i) of
     (Some Starting, Some a) \<Rightarrow> (case start_extraction now checkpointed resuming has_more (ia_cc_pair a) i (hw h) of
         (Inr (n, completed), w) \<Rightarrow> Some (move_on w i (Reissued (ia_completed_batches a) completed n) h)
       | (Inl _, w) \<Rightarrow> Some (move_on w i Stopped h))
   | _ \<Rightarrow> None)"
| "perform persistent (Resume now i) h = (case h_fetch h i of Some (Reissued loaded completed n) \<Rightarrow>
     Some (move_on (set_completed_batches now i loaded completed (hw h)) i (Fetching completed (first_fetch n)) h) | _ \<Rightarrow> None)"
| "perform persistent (Fetch e c i docs) h = (case h_fetch h i of Some (Fetching base fs) \<Rightarrow>
     (case fetch_item e c i (docs, None) fs (hw h) of (None, fs1, w) \<Rightarrow> Some (move_on w i (Fetching base fs1) h) | _ \<Rightarrow> None) | _ \<Rightarrow> None)"
| "perform persistent (FetchedAll now i) h = (case h_fetch h i of Some (Fetching base fs) \<Rightarrow>
     Some (move_on (set_total_batches now i (fs_batch_num fs) (hw h)) i (Fetched base) h) | _ \<Rightarrow> None)"
| "perform persistent (Work k e) h = (if k < length (h_points h) \<and> te_persistent e = persistent
     then (case task_step e (w_queue (hw h) ! k) (h_points h ! k) (hw h) of (p, w) \<Rightarrow> Some (h\<lparr>hw := w, h_points := (h_points h)[k := p]\<rparr>))
     else None)"
| "perform persistent (Cancel now i) h = Some (h\<lparr>hw := request_cancellation now i (hw h)\<rparr>)"
| "perform persistent (Look now i) h = (case read_progress now i (hw h) of
     (seen, w) \<Rightarrow> Some (h\<lparr>hw := w, h_seen := (case seen of None \<Rightarrow> [] | Some st \<Rightarrow> [(i, st)]) @ h_seen h\<rparr>))"
| "perform persistent (Complete now i c k) h = (if k < length (h_seen h) \<and> fst (h_seen h ! k) = i
     then Some (h\<lparr>hw := complete_attempt now i c (snd (h_seen h ! k)) (hw h)\<rparr>) else None)"

fun perform_all :: "bool \<Rightarrow> action list \<Rightarrow> history \<Rightarrow> history option" where
  "perform_all persistent [] h = Some h"
| "perform_all persistent (a # as) h = (case perform persistent a h of None \<Rightarrow> None | Some h1 \<Rightarrow> perform_all persistent as h1)"

lemma perform_step: "perform persistent a h = Some h1 \<Longrightarrow> istep persistent h h1"
proof (cases a)
  case (Create e c s reindex)
  assume "perform persistent a h = Some h1"
  then show ?thesis using S_create [OF _ surjective_pairing] Create by (auto split: if_splits)
next
  case (Complete now i c k)
  assume "perform persistent a h = Some h1"
  then show ?thesis using S_complete [of "fst (h_seen h ! k)" "snd (h_seen h ! k)" h] Complete by (auto split: if_splits)
next
  case (Look now i)
  assume "perform persistent a h = Some h1"
  then show ?thesis using S_read [of now i h "fst (read_progress now i (hw h))" "snd (read_progress now i (hw h))"] Look
    by (auto split: prod.splits)
qed (auto split: sum.splits option.splits fetch_phase.splits prod.splits if_splits intro: istep.intros admin_step.intros)

lemma perform_reach: "ireach persistent h \<Longrightarrow> perform_all persistent as h = Some h1 \<Longrightarrow> ireach persistent h1"
  by (induction as arbitrary: h) (auto split: option.splits dest: perform_step intro: I_step)

section \<open>Example runs\<close>

text \<open>A connector pair 1 with search settings 1, and workers whose pipeline fails no document, fails the document \<open>''b''\<close>, or
  which cannot delete a batch.\<close>

definition example_pair :: indexed_pair where
  "example_pair = \<lparr>cp_id = 1, cp_status = ACTIVE, cp_trigger = None, cp_repeated_error = False, cp_last_success = None,
     cp_connector_id = 7, cp_refresh_freq = Some 60, cp_source = OtherSource\<rparr>"

definition example_start :: history where
  "example_start = \<lparr>hw = \<lparr>t_attempts = [], t_attempt_errors = [], t_cc_pairs = [example_pair], w_files = [], w_pending = [],
     w_in_flight = [], w_redis_up = True, w_queue = []\<rparr>, h_points = [], h_fetch = (\<lambda>_. None), h_seen = []\<rparr>"

definition example_kickoff :: "int \<Rightarrow> action" where
  "example_kickoff i = Create \<lparr>ke_now = 1, ke_acquired = True, ke_locked = False, ke_new_id = i, ke_task_id = ''task'', ke_sent = True\<rparr> 1 1 False"

definition example_fetch :: "int \<Rightarrow> batch \<Rightarrow> action" where
  "example_fetch i docs = Fetch \<lparr>fe_now = 3, fe_persistent = False, fe_stop = False, fe_settings_status = PRESENT\<rparr> 1 i docs"

definition example_worker :: "bool \<Rightarrow> unit result \<Rightarrow> connector_failure list \<Rightarrow> task_env" where
  "example_worker persistent deleting failures = \<lparr>te_now = 5, te_persistent = persistent, te_over_limit = None, te_stop = False, te_load = Inr (),
     te_pipeline = (\<lambda>docs. Inr \<lparr>pr_total_docs = int (length docs), pr_new_docs = 0, pr_total_chunks = 1, pr_failures = failures\<rparr>),
     te_release = Inr (), te_delete = deleting\<rparr>"

abbreviation example_work :: "nat \<Rightarrow> task_env \<Rightarrow> action list" where
  "example_work k e \<equiv> replicate 5 (Work k e)"

definition fetching :: "int \<Rightarrow> batch list \<Rightarrow> action list" where
  "fetching i batches = [example_kickoff i, Begin 2 i, Start 2 False False True i, Resume 2 i] @ List.map (example_fetch i) batches"

lemma first_example: "ireach persistent example_start"
  by (rule I_first) (simp add: first_history_def example_start_def)

text \<open>An attempt that succeeds.\<close>

definition success_run :: "action list" where
  "success_run = fetching 4 [[''a''], [''b'']] @ [FetchedAll 4 4] @ example_work 1 (example_worker False (Inr ()) [])
     @ [Look 6 4] @ example_work 0 (example_worker False (Inr ()) []) @ [Look 6 4, Complete 7 4 1 0, example_kickoff 5]"

text \<open>An attempt that succeeds before the failure of a document is recorded.\<close>

definition early_run :: "action list" where
  "early_run = fetching 4 [[''b'']] @ [FetchedAll 4 4, Work 0 (example_worker False (Inr ()) [\<lparr>cf_document = Some ''b'', cf_entity = None\<rparr>]),
     Work 0 (example_worker False (Inr ()) [\<lparr>cf_document = Some ''b'', cf_entity = None\<rparr>]), Look 6 4, Complete 7 4 1 0]
     @ replicate 2 (Work 0 (example_worker False (Inr ()) [\<lparr>cf_document = Some ''b'', cf_entity = None\<rparr>]))"

text \<open>An attempt that is canceled after one of its two batches, and one that takes up the other; a worker counts that batch
  before the new attempt writes down the earlier count.\<close>

definition lost_run :: "action list" where
  "lost_run = fetching 4 [[''a''], [''b'']] @ example_work 0 (example_worker False (Inr ()) []) @ [Cancel 5 4, Look 6 4, example_kickoff 5,
     Begin 7 5, Start 7 True True True 5] @ example_work 2 (example_worker False (Inr ()) []) @ [Resume 8 5, FetchedAll 9 5, Look 10 5, Complete 10 5 1 0]"

text \<open>Persistent indexing: deleting the first batch fails after it was counted.\<close>

definition double_run :: "action list" where
  "double_run = fetching 4 [[''a''], [''b'']] @ [FetchedAll 4 4] @ example_work 0 (example_worker True (Inl OSError) []) @ [Look 6 4, Complete 7 4 1 0]"

definition after :: "bool \<Rightarrow> action list \<Rightarrow> history" where
  "after persistent acts = the (perform_all persistent acts example_start)"

lemma reach_after: "\<not> Option.is_none (perform_all persistent acts example_start) \<Longrightarrow> ireach persistent (after persistent acts)"
  unfolding after_def using perform_reach [OF first_example] by (auto simp: Option.is_none_def)

lemma runs_exist: "\<not> Option.is_none (perform_all False success_run example_start)" "\<not> Option.is_none (perform_all False early_run example_start)"
    "\<not> Option.is_none (perform_all False lost_run example_start)" "\<not> Option.is_none (perform_all True double_run example_start)"
  by code_simp+

section \<open>What the runs show\<close>




section \<open>Witnesses\<close>

theorem at_most_one_running_attempt_witness:
  "one_running (hw (after False success_run)) \<and> length (filter (fenced 1 1) (t_attempts (hw (after False success_run)))) = 1"
proof
  show "one_running (hw (after False success_run))"
    by (rule at_most_one_running_attempt [of False]) (rule reach_after [OF runs_exist(1)])
  show "length (filter (fenced 1 1) (t_attempts (hw (after False success_run)))) = 1" by code_simp
qed


end
