(* ===== verification/MyndConfig.thy ===== *)
theory MyndConfig
  imports PyValue
begin

text \<open>
  Product configuration: \<open>mynd/platform_config/config_loader.py\<close>, its consumers
  \<open>mynd/auth/rbac.py\<close> and \<open>mynd/isolation/connector_isolation.py\<close>, and the public endpoints of
  \<open>mynd/server/config_router.py\<close>.  The file system below the configuration root is a dictionary of
  entries; a file holds what \<open>yaml.safe_load\<close> returns for it (or the error it raises).  Slugs are
  single path components.
\<close>

section \<open>Configuration directory\<close>

type_synonym yaml_files = "(string, pyval result) dict"

datatype dir_entry = PlainFile | Directory yaml_files

record config_fs =
  config_root :: "(string, dir_entry) dict option"

text \<open>\<open>_read_yaml\<close>\<close>

definition read_yaml :: "yaml_files \<Rightarrow> string \<Rightarrow> pyval result" where
  "read_yaml files name = (case dict_get files name of
       None \<Rightarrow> Inr (PDict [])
     | Some r \<Rightarrow> bind_r r (\<lambda>v. Inr (pv_or v (PDict []))))"

text \<open>\<open>list_product_slugs\<close>\<close>

fun is_product_dir :: "dir_entry \<Rightarrow> bool" where
  "is_product_dir PlainFile = False"
| "is_product_dir (Directory files) = (dict_get files ''product.yaml'' \<noteq> None)"

definition list_product_slugs :: "config_fs \<Rightarrow> string list" where
  "list_product_slugs fs = (case config_root fs of
       None \<Rightarrow> []
     | Some entries \<Rightarrow> sort (map fst (filter (\<lambda>(_, e). is_product_dir e) entries)))"

section \<open>Typed configuration\<close>

record branding =
  primary_color :: pyval
  logo :: pyval
  marketing_tagline :: pyval

record product_config =
  pc_slug :: pyval
  pc_name :: pyval
  pc_description :: pyval
  pc_branding :: branding
  enabled_connectors :: pyval
  default_llm_providers :: pyval
  features :: pyval
  rbac :: pyval
  agents :: pyval
  connectors :: pyval

text \<open>\<open>ProductConfig.public_dict\<close>: what \<open>/api/config/<slug>\<close> ships to the browser.\<close>

definition public_dict :: "product_config \<Rightarrow> pyval" where
  "public_dict c = PDict
     [(''slug'', pc_slug c), (''name'', pc_name c), (''description'', pc_description c),
      (''branding'', PDict
         [(''primary_color'', primary_color (pc_branding c)),
          (''logo'', logo (pc_branding c)),
          (''marketing_tagline'', marketing_tagline (pc_branding c))]),
      (''enabled_connectors'', enabled_connectors c),
      (''default_llm_providers'', default_llm_providers c),
      (''features'', features c)]"

definition product_files :: "config_fs \<Rightarrow> string \<Rightarrow> yaml_files" where
  "product_files fs slug = (case config_root fs of
       None \<Rightarrow> []
     | Some entries \<Rightarrow> (case dict_get entries slug of
           Some (Directory files) \<Rightarrow> files
         | _ \<Rightarrow> []))"

text \<open>The body of \<open>get_product_config\<close>, below its memoisation.\<close>

definition get_product_config :: "config_fs \<Rightarrow> string \<Rightarrow> product_config option result" where
  "get_product_config fs slug =
    (let pdir = product_files fs slug in
     bind_r (read_yaml pdir ''product.yaml'') (\<lambda>product_yaml.
     if \<not> py_truthy product_yaml then Inr None else
     bind_r (pv_get product_yaml ''branding'' (PDict [])) (\<lambda>b0.
     let b = pv_or b0 (PDict []) in
     bind_r (pv_get product_yaml ''slug'' (PStr slug)) (\<lambda>sl.
     bind_r (pv_get product_yaml ''name'' (PStr slug)) (\<lambda>nm.
     bind_r (pv_get product_yaml ''description'' (PStr '''')) (\<lambda>desc.
     bind_r (pv_get b ''primary_color'' (PStr ''#2563EB'')) (\<lambda>pcol.
     bind_r (pv_get b ''logo'' (PStr '''')) (\<lambda>lg.
     bind_r (pv_get b ''marketing_tagline'' (PStr '''')) (\<lambda>tag.
     bind_r (pv_get product_yaml ''enabled_connectors'' (PList [])) (\<lambda>ec.
     bind_r (pv_get product_yaml ''default_llm_providers'' (PList [])) (\<lambda>dl.
     bind_r (pv_get product_yaml ''features'' (PDict [])) (\<lambda>ft.
     bind_r (read_yaml pdir ''rbac.yaml'') (\<lambda>rb.
     bind_r (read_yaml pdir ''agents.yaml'') (\<lambda>ag.
     bind_r (read_yaml pdir ''connectors.yaml'') (\<lambda>cn.
       Inr (Some \<lparr>pc_slug = sl, pc_name = nm, pc_description = desc,
         pc_branding = \<lparr>primary_color = pcol, logo = lg, marketing_tagline = tag\<rparr>,
         enabled_connectors = pv_or ec (PList []),
         default_llm_providers = pv_or dl (PList []),
         features = pv_or ft (PDict []),
         rbac = rb, agents = ag, connectors = cn\<rparr>))))))))))))))))"

section \<open>The memoised lookup\<close>

text \<open>
  \<open>functools.lru_cache(maxsize=64)\<close> around \<open>get_product_config\<close>: entries most recent first; a hit
  moves its entry to the front, a miss inserts in front and drops the oldest entry beyond 64, an
  exception stores nothing.
\<close>

type_synonym config_cache = "(string \<times> product_config option) list"

definition lru_maxsize :: nat where
  "lru_maxsize = 64"

definition get_product_config_cached ::
  "config_fs \<Rightarrow> config_cache \<Rightarrow> string \<Rightarrow> config_cache \<times> product_config option result" where
  "get_product_config_cached fs cache slug = (case dict_get cache slug of
       Some c \<Rightarrow> ((slug, c) # dict_del slug cache, Inr c)
     | None \<Rightarrow> (case get_product_config fs slug of
           Inl e \<Rightarrow> (cache, Inl e)
         | Inr c \<Rightarrow> (take lru_maxsize ((slug, c) # cache), Inr c)))"

definition clear_cache :: "config_cache \<Rightarrow> config_cache" where
  "clear_cache cache = []"

fun lookup_all ::
  "config_fs \<Rightarrow> config_cache \<Rightarrow> string list \<Rightarrow> config_cache \<times> product_config option result list" where
  "lookup_all fs cache [] = (cache, [])"
| "lookup_all fs cache (s # ss) =
     (case get_product_config_cached fs cache s of (cache', r) \<Rightarrow>
        (case lookup_all fs cache' ss of (cache'', rs) \<Rightarrow> (cache'', r # rs)))"

text \<open>A cache agrees with the files and is a well-formed LRU store.\<close>

definition cache_inv :: "config_fs \<Rightarrow> config_cache \<Rightarrow> bool" where
  "cache_inv fs cache \<longleftrightarrow> distinct (map fst cache) \<and> length cache \<le> lru_maxsize
     \<and> (\<forall>(s, c) \<in> set cache. get_product_config fs s = Inr c)"

lemma cache_inv_clear [simp]: "cache_inv fs (clear_cache cache)"
  by (simp add: cache_inv_def clear_cache_def)

lemma dict_del_subset: "set (dict_del k d) \<subseteq> set d"
  by (auto simp: dict_del_def)

lemma length_dict_del_hit:
  "dict_get d k = Some v \<Longrightarrow> length (dict_del k d) < length d"
  by (induction d) (auto simp: dict_del_def less_Suc_eq_le split: if_splits)

lemma keys_dict_del: "map fst (dict_del k d) = filter (\<lambda>x. x \<noteq> k) (map fst d)"
  by (induction d) (auto simp: dict_del_def)

lemma cached_step:
  assumes "cache_inv fs cache"
  shows "cache_inv fs (fst (get_product_config_cached fs cache s))"
    and "snd (get_product_config_cached fs cache s) = get_product_config fs s"
proof -
  have inv: "distinct (map fst cache)" "length cache \<le> lru_maxsize"
    "\<And>k c. (k, c) \<in> set cache \<Longrightarrow> get_product_config fs k = Inr c"
    using assms by (auto simp: cache_inv_def)
  have "cache_inv fs (fst (get_product_config_cached fs cache s)) \<and>
    snd (get_product_config_cached fs cache s) = get_product_config fs s"
  proof (cases "dict_get cache s")
    case (Some c)
    then have "(s, c) \<in> set cache" by (simp add: dict_get_def map_of_SomeD)
    moreover have "Suc (length (dict_del s cache)) \<le> lru_maxsize"
      using length_dict_del_hit [OF Some] inv(2) by simp
    moreover have "distinct (map fst (dict_del s cache))"
      using inv(1) by (simp add: keys_dict_del)
    ultimately show ?thesis
      using Some inv(3) dict_del_subset [of s cache]
      by (auto simp: get_product_config_cached_def cache_inv_def dict_del_def)
  next
    case None
    then have fresh: "s \<notin> fst ` set cache" by (simp add: dict_get_None_iff)
    show ?thesis
    proof (cases "get_product_config fs s")
      case (Inl e)
      with None assms show ?thesis by (simp add: get_product_config_cached_def)
    next
      case (Inr c)
      have "distinct (map fst (take lru_maxsize ((s, c) # cache)))"
        using inv(1) fresh by (metis (no_types, lifting) distinct.simps(2) distinct_take fst_conv
            image_set list.simps(9) take_map)
      then show ?thesis
        using None Inr inv(3)
        by (auto simp: get_product_config_cached_def cache_inv_def dest!: in_set_takeD)
    qed
  qed
  then show "cache_inv fs (fst (get_product_config_cached fs cache s))"
    "snd (get_product_config_cached fs cache s) = get_product_config fs s" by blast+
qed

section \<open>Role-based capabilities\<close>

text \<open>\<open>mynd/auth/rbac.py\<close>\<close>

definition onyx_role_fallback :: "(string, string) dict" where
  "onyx_role_fallback =
     [(''admin'', ''admin''), (''curator'', ''admin''), (''global_curator'', ''admin''),
      (''basic'', ''member''), (''limited'', ''member'')]"

fun find_role :: "string \<Rightarrow> pyval list \<Rightarrow> pyval set option result" where
  "find_role target [] = Inr None"
| "find_role target (role # roles) =
     bind_r (pv_get role ''name'' (PStr '''')) (\<lambda>nm.
     if lower (py_str nm) = target
     then bind_r (pv_get role ''permissions'' (PList [])) (\<lambda>p.
          bind_r (py_set (pv_or p (PList []))) (\<lambda>ps. Inr (Some ps)))
     else find_role target roles)"

definition normalised_role :: "string option \<Rightarrow> string" where
  "normalised_role onyx_role = lower (the (py_or onyx_role (Some ''basic'')))"

definition fallback_role :: "string \<Rightarrow> string" where
  "fallback_role role = (case dict_get onyx_role_fallback role of
       Some r \<Rightarrow> r | None \<Rightarrow> ''member'')"

definition resolve_capabilities :: "config_fs \<Rightarrow> string \<Rightarrow> string option \<Rightarrow> pyval set result" where
  "resolve_capabilities fs product_slug onyx_role =
     bind_r (get_product_config fs product_slug) (\<lambda>config.
     case config of
       None \<Rightarrow> Inr {}
     | Some c \<Rightarrow>
         bind_r (pv_get (rbac c) ''roles'' (PList [])) (\<lambda>roles0.
         bind_r (py_iter (pv_or roles0 (PList []))) (\<lambda>roles.
         let onyx_role_norm = normalised_role onyx_role in
         bind_r (find_role onyx_role_norm roles) (\<lambda>found.
         case found of
           Some ps \<Rightarrow> Inr ps
         | None \<Rightarrow>
             bind_r (find_role (fallback_role onyx_role_norm) roles) (\<lambda>found'.
             case found' of Some ps \<Rightarrow> Inr ps | None \<Rightarrow> Inr {})))))"

definition has_capability :: "config_fs \<Rightarrow> string \<Rightarrow> string option \<Rightarrow> string \<Rightarrow> bool result" where
  "has_capability fs product_slug onyx_role capability =
     bind_r (resolve_capabilities fs product_slug onyx_role) (\<lambda>caps. Inr (PStr capability \<in> caps))"

text \<open>What a role entry of \<open>rbac.yaml\<close> declares, independently of the search for it.\<close>

definition role_declares :: "pyval \<Rightarrow> string \<Rightarrow> pyval set \<Rightarrow> bool" where
  "role_declares role name ps \<longleftrightarrow>
     (\<exists>nm p. pv_get role ''name'' (PStr '''') = Inr nm \<and> lower (py_str nm) = name
       \<and> pv_get role ''permissions'' (PList []) = Inr p \<and> py_set (pv_or p (PList [])) = Inr ps)"

lemma find_role_declares:
  "find_role target roles = Inr (Some ps) \<Longrightarrow> \<exists>role \<in> set roles. role_declares role target ps"
proof (induction roles)
  case (Cons r rs)
  obtain nm where nm: "pv_get r ''name'' (PStr '''') = Inr nm"
    using Cons.prems by (auto simp: bind_r_Inr_iff)
  show ?case
  proof (cases "lower (py_str nm) = target")
    case True
    with Cons.prems nm show ?thesis
      by (auto simp: bind_r_Inr_iff role_declares_def)
  next
    case False
    with Cons nm show ?thesis by auto
  qed
qed simp

section \<open>Connector isolation\<close>

text \<open>\<open>mynd/isolation/connector_isolation.py\<close>\<close>

definition allowed_connectors :: "config_fs \<Rightarrow> string \<Rightarrow> pyval set result" where
  "allowed_connectors fs product_slug =
     bind_r (get_product_config fs product_slug) (\<lambda>config.
     case config of None \<Rightarrow> Inr {} | Some c \<Rightarrow> py_set (enabled_connectors c))"

definition is_connector_allowed :: "config_fs \<Rightarrow> string \<Rightarrow> string \<Rightarrow> bool result" where
  "is_connector_allowed fs product_slug connector =
     bind_r (allowed_connectors fs product_slug) (\<lambda>s. Inr (PStr connector \<in> s))"

definition connector_scopes :: "config_fs \<Rightarrow> string \<Rightarrow> string \<Rightarrow> pyval result" where
  "connector_scopes fs product_slug connector =
     bind_r (get_product_config fs product_slug) (\<lambda>config.
     case config of
       None \<Rightarrow> Inr (PDict [])
     | Some c \<Rightarrow>
         bind_r (pv_get (connectors c) ''connectors'' (PDict [])) (\<lambda>cs.
         bind_r (pv_get (pv_or cs (PDict [])) connector PNone) (\<lambda>spec.
         if \<not> py_truthy spec then Inr (PDict []) else
         bind_r (pv_get spec ''scopes'' (PList [])) (\<lambda>sc.
         bind_r (pv_get spec ''filters'' (PDict [])) (\<lambda>fl.
           Inr (PDict [(''scopes'', pv_or sc (PList [])), (''filters'', pv_or fl (PDict []))]))))))"

definition assert_connector_allowed :: "config_fs \<Rightarrow> string \<Rightarrow> string \<Rightarrow> unit result" where
  "assert_connector_allowed fs product_slug connector =
     bind_r (is_connector_allowed fs product_slug connector) (\<lambda>ok.
     if ok then Inr () else Inl (OnyxError INSUFFICIENT_PERMISSIONS))"

section \<open>Public endpoints\<close>

text \<open>\<open>mynd/server/config_router.py\<close>; \<open>product_persona_name\<close> is from
  \<open>mynd/products/agent_seeder.py\<close>, whose prefix the agents endpoint repeats.\<close>

definition product_persona_name :: "string \<Rightarrow> string \<Rightarrow> string" where
  "product_persona_name slug agent_name = ''[mynd:'' @ slug @ ''] '' @ agent_name"

definition list_products :: "config_fs \<Rightarrow> pyval" where
  "list_products fs = PDict [(''products'', PList (map PStr (list_product_slugs fs)))]"

definition get_product :: "config_fs \<Rightarrow> string \<Rightarrow> pyval result" where
  "get_product fs slug = bind_r (get_product_config fs slug) (\<lambda>config.
     case config of None \<Rightarrow> Inl (OnyxError NOT_FOUND) | Some c \<Rightarrow> Inr (public_dict c))"

definition agent_entry :: "string \<Rightarrow> pyval \<Rightarrow> pyval result" where
  "agent_entry slug a =
     bind_r (pv_get a ''key'' PNone) (\<lambda>key.
     bind_r (pv_get a ''name'' PNone) (\<lambda>name.
     bind_r (pv_get a ''description'' (PStr '''')) (\<lambda>desc.
       Inr (PDict
         [(''key'', key), (''name'', pv_or name key), (''description'', desc),
          (''persona_name'', PStr (product_persona_name slug (py_str (pv_or name key))))]))))"

definition config_agents :: "product_config \<Rightarrow> pyval list result" where
  "config_agents c =
     bind_r (pv_get (agents c) ''agents'' (PList [])) (\<lambda>ag. py_iter (pv_or ag (PList [])))"

definition get_product_agents :: "config_fs \<Rightarrow> string \<Rightarrow> pyval result" where
  "get_product_agents fs slug = bind_r (get_product_config fs slug) (\<lambda>config.
     case config of
       None \<Rightarrow> Inl (OnyxError NOT_FOUND)
     | Some c \<Rightarrow> bind_r (config_agents c) (\<lambda>ags.
         bind_r (map_r (agent_entry slug) ags) (\<lambda>es. Inr (PDict [(''agents'', PList es)]))))"

section \<open>Properties\<close>

lemma lookup_all_correct:
  "cache_inv fs cache \<Longrightarrow>
     snd (lookup_all fs cache ss) = map (get_product_config fs) ss
     \<and> cache_inv fs (fst (lookup_all fs cache ss))"
proof (induction ss arbitrary: cache)
  case (Cons s ss)
  then show ?case
    using cached_step [OF Cons.prems, of s] by (auto simp: case_prod_unfold)
qed simp

text \<open>From a cleared cache, any sequence of memoised lookups against unchanged files returns
  exactly what the unmemoised loader returns for each slug, in order, and the cache never holds
  more than 64 configurations, each under its own slug.\<close>

theorem memoised_lookups_transparent:
  "snd (lookup_all fs (clear_cache cache) ss) = map (get_product_config fs) ss
   \<and> length (fst (lookup_all fs (clear_cache cache) ss)) \<le> 64
   \<and> distinct (map fst (fst (lookup_all fs (clear_cache cache) ss)))"
  using lookup_all_correct [OF cache_inv_clear [of fs cache], of ss]
  by (auto simp: cache_inv_def lru_maxsize_def)

lemma list_product_slugs_set:
  "set (list_product_slugs fs) =
     (case config_root fs of None \<Rightarrow> {}
      | Some es \<Rightarrow> {s. \<exists>e. (s, e) \<in> set es \<and> is_product_dir e})"
  by (force simp: list_product_slugs_def split: option.splits)

lemma list_product_slugs_sorted: "sorted (list_product_slugs fs)"
  by (simp add: list_product_slugs_def split: option.splits)

text \<open>Whatever capabilities the resolver returns for a role are those declared by one role
  entry of the product's own \<open>rbac.yaml\<close>: the entry bearing the Onyx role's name or, when no entry
  bears it, the entry bearing the mapped role's name; otherwise the set is empty.\<close>

theorem capabilities_come_from_config:
  assumes "resolve_capabilities fs slug role = Inr caps" and "caps \<noteq> {}"
  shows "\<exists>c r0 roles entry. get_product_config fs slug = Inr (Some c)
     \<and> pv_get (rbac c) ''roles'' (PList []) = Inr r0
     \<and> py_iter (pv_or r0 (PList [])) = Inr roles \<and> entry \<in> set roles
     \<and> (role_declares entry (normalised_role role) caps
        \<or> find_role (normalised_role role) roles = Inr None
          \<and> role_declares entry (fallback_role (normalised_role role)) caps)"
proof -
  obtain c where c: "get_product_config fs slug = Inr (Some c)"
    using assms by (auto simp: resolve_capabilities_def bind_r_Inr_iff split: option.splits)
  then obtain r0 roles found where r: "pv_get (rbac c) ''roles'' (PList []) = Inr r0"
      "py_iter (pv_or r0 (PList [])) = Inr roles"
      "find_role (normalised_role role) roles = Inr found"
    using assms by (auto simp: resolve_capabilities_def bind_r_Inr_iff Let_def)
  show ?thesis
  proof (cases found)
    case (Some ps)
    then have "ps = caps" using assms c r by (simp add: resolve_capabilities_def)
    then show ?thesis using c r Some find_role_declares by blast
  next
    case None
    then have "find_role (fallback_role (normalised_role role)) roles = Inr (Some caps)"
      using assms c r
      by (auto simp: resolve_capabilities_def bind_r_Inr_iff split: option.splits)
    then show ?thesis using c r None find_role_declares by blast
  qed
qed

text \<open>A product directory with an \<open>admin\<close> and a \<open>member\<close> role, for the witnesses.\<close>

definition example_fs :: config_fs where
  "example_fs = \<lparr>config_root = Some
     [(''eng'', Directory
        [(''product.yaml'', Inr (PDict [(''name'', PStr ''Engineering''),
            (''enabled_connectors'', PList [PStr ''github''])])),
         (''rbac.yaml'', Inr (PDict [(''roles'', PList
            [PDict [(''name'', PStr ''admin''), (''permissions'', PList [PStr ''manage''])],
             PDict [(''name'', PStr ''member''), (''permissions'', PList [PStr ''chat''])]])]))]),
      (''notes.txt'', PlainFile)]\<rparr>"

lemma example_caps_curator:
  "resolve_capabilities example_fs ''eng'' (Some ''CURATOR'') = Inr {PStr ''manage''}"
  by code_simp

lemma capabilities_come_from_config_witness:
  "\<exists>c r0 roles entry. get_product_config example_fs ''eng'' = Inr (Some c)
     \<and> pv_get (rbac c) ''roles'' (PList []) = Inr r0
     \<and> py_iter (pv_or r0 (PList [])) = Inr roles \<and> entry \<in> set roles
     \<and> (role_declares entry (normalised_role (Some ''CURATOR'')) {PStr ''manage''}
        \<or> find_role (normalised_role (Some ''CURATOR'')) roles = Inr None
          \<and> role_declares entry (fallback_role (normalised_role (Some ''CURATOR''))) {PStr ''manage''})"
  by (rule capabilities_come_from_config [OF example_caps_curator]) simp

text \<open>An Onyx role outside the fallback table that the product does not enumerate is given the
  capabilities of a basic user: the table's default is \<open>member\<close>, not the empty set.\<close>

theorem unknown_role_resolves_as_basic:
  assumes "dict_get onyx_role_fallback (normalised_role role) = None"
    and "\<And>c r0 roles. get_product_config fs slug = Inr (Some c) \<Longrightarrow>
           pv_get (rbac c) ''roles'' (PList []) = Inr r0 \<Longrightarrow>
           py_iter (pv_or r0 (PList [])) = Inr roles \<Longrightarrow>
           find_role (normalised_role role) roles = Inr None \<and> find_role ''basic'' roles = Inr None"
  shows "resolve_capabilities fs slug role = resolve_capabilities fs slug (Some ''basic'')"
proof -
  have basic: "normalised_role (Some ''basic'') = ''basic''" "fallback_role ''basic'' = ''member''"
    by code_simp+
  have fb: "fallback_role (normalised_role role) = ''member''"
    using assms(1) by (simp add: fallback_role_def)
  show ?thesis
  proof (cases "get_product_config fs slug")
    case (Inr cfg)
    show ?thesis
    proof (cases cfg)
      case (Some c)
      show ?thesis
      proof (cases "bind_r (pv_get (rbac c) ''roles'' (PList []))
          (\<lambda>r0. py_iter (pv_or r0 (PList [])))")
        case (Inr roles)
        then show ?thesis using assms(2) [of c] Some \<open>get_product_config fs slug = Inr cfg\<close> basic fb
          by (auto simp: resolve_capabilities_def bind_r_Inr_iff)
      next
        case (Inl e)
        then show ?thesis using Some \<open>get_product_config fs slug = Inr cfg\<close>
          by (cases "pv_get (rbac c) ''roles'' (PList [])") (auto simp: resolve_capabilities_def)
      qed
    qed (use Inr in \<open>simp add: resolve_capabilities_def\<close>)
  qed (simp add: resolve_capabilities_def)
qed

lemma example_slack_user_is_member:
  "resolve_capabilities example_fs ''eng'' (Some ''slack_user'') = Inr {PStr ''chat''}"
  by code_simp

definition example_roles :: "pyval list" where
  "example_roles =
     [PDict [(''name'', PStr ''admin''), (''permissions'', PList [PStr ''manage''])],
      PDict [(''name'', PStr ''member''), (''permissions'', PList [PStr ''chat''])]]"

lemma example_config_roles:
  "bind_r (get_product_config example_fs ''eng'') (\<lambda>cfg. case cfg of None \<Rightarrow> Inl TypeError
     | Some c \<Rightarrow> bind_r (pv_get (rbac c) ''roles'' (PList []))
         (\<lambda>r0. py_iter (pv_or r0 (PList [])))) = Inr example_roles"
  by code_simp

lemma unknown_role_resolves_as_basic_witness:
  "resolve_capabilities example_fs ''eng'' (Some ''slack_user'')
     = resolve_capabilities example_fs ''eng'' (Some ''basic'')"
proof (rule unknown_role_resolves_as_basic)
  show "dict_get onyx_role_fallback (normalised_role (Some ''slack_user'')) = None"
    by code_simp
next
  fix c r0 roles
  assume "get_product_config example_fs ''eng'' = Inr (Some c)"
    and "pv_get (rbac c) ''roles'' (PList []) = Inr r0"
    and "py_iter (pv_or r0 (PList [])) = Inr roles"
  with example_config_roles have "roles = example_roles" by simp
  moreover have "find_role (normalised_role (Some ''slack_user'')) example_roles = Inr None"
    and "find_role ''basic'' example_roles = Inr None" by code_simp+
  ultimately show "find_role (normalised_role (Some ''slack_user'')) roles = Inr None
      \<and> find_role ''basic'' roles = Inr None" by simp
qed

text \<open>A connector is admitted exactly when the product has a configuration whose
  \<open>enabled_connectors\<close> is a collection containing its name; in every other case, a missing product
  included, the check raises.\<close>

theorem connector_admitted_iff:
  "assert_connector_allowed fs slug connector = Inr () \<longleftrightarrow>
     (\<exists>c s. get_product_config fs slug = Inr (Some c) \<and> py_set (enabled_connectors c) = Inr s
        \<and> PStr connector \<in> s)"
  by (auto simp: assert_connector_allowed_def is_connector_allowed_def allowed_connectors_def
      bind_r_Inr_iff split: option.splits if_splits)

end
