(* ===== verification/MyndRouting.thy ===== *)
theory MyndRouting
  imports MyndConfig
begin

text \<open>
  Product routing: the flags of \<open>mynd/settings.py\<close>, the request-scoped variables of
  \<open>mynd/context.py\<close> and the middleware of \<open>mynd/routing/product_router.py\<close>.  The process
  environment is a dictionary; a request carries its path, its headers with lower-case names (as the
  ASGI server delivers them) and its cookies.
\<close>

section \<open>Settings\<close>

type_synonym env = "(string, string) dict"

definition pinned_product_slug :: "env \<Rightarrow> string option" where
  "pinned_product_slug env = (let val = dict_get env ''MYND_PRODUCT'' in
     if truthy val then Some (lower (strip (the val))) else None)"

definition is_single_product :: "env \<Rightarrow> bool" where
  "is_single_product env \<longleftrightarrow> pinned_product_slug env \<noteq> None"

definition retrieval_isolation_enabled :: "env \<Rightarrow> bool" where
  "retrieval_isolation_enabled env \<longleftrightarrow>
     lower (case dict_get env ''MYND_RETRIEVAL_ISOLATION'' of Some v \<Rightarrow> v | None \<Rightarrow> ''false'')
       \<in> {''1'', ''true'', ''yes''}"

section \<open>Request context\<close>

text \<open>The four context variables of one task.\<close>


record mynd_ctx =
  product_slug_ctx :: "string option"
  user_id_ctx :: "uuid option"
  org_id_ctx :: "string option"
  llm_credential_scope_ctx :: "string option"

definition empty_ctx :: mynd_ctx where
  "empty_ctx = \<lparr>product_slug_ctx = None, user_id_ctx = None, org_id_ctx = None,
     llm_credential_scope_ctx = None\<rparr>"

section \<open>Slug resolution\<close>

record http_request =
  req_path :: string
  req_headers :: "(string, string) dict"
  req_cookies :: "(string, string) dict"

definition reserved_prefixes :: "string set" where
  "reserved_prefixes = {''api'', ''auth'', ''oauth'', ''health'', ''static'', ''_next'', ''assets'', ''admin''}"

definition product_header :: string where
  "product_header = ''x-mynd-product''"

definition product_cookie :: string where
  "product_cookie = ''mynd_product''"

definition extract_slug_from_path :: "string \<Rightarrow> string set \<Rightarrow> string option" where
  "extract_slug_from_path path known =
     (case filter (\<lambda>s. s \<noteq> []) (split_on (CHR ''/'') path) of
        [] \<Rightarrow> None
      | seg # _ \<Rightarrow>
          let first = lower seg in
          if first \<in> reserved_prefixes then None
          else if first \<in> known then Some first
          else None)"

definition resolve_request_slug :: "env \<Rightarrow> http_request \<Rightarrow> string set \<Rightarrow> string option" where
  "resolve_request_slug env request known =
    (let pinned = pinned_product_slug env in
     if truthy pinned then pinned else
     let slug = extract_slug_from_path (req_path request) known in
     if truthy slug then slug else
     let header = dict_get (req_headers request) product_header in
     if truthy header \<and> lower (the header) \<in> known then Some (lower (the header)) else
     let cookie = dict_get (req_cookies request) product_cookie in
     if truthy cookie \<and> lower (the cookie) \<in> known then Some (lower (the cookie))
     else None)"

section \<open>The middleware\<close>

text \<open>
  \<open>KNOWN_PRODUCT_SLUGS\<close> is module state.  \<open>call_next\<close> runs the rest of the application with
  \<open>request.state.product_slug\<close> and the context, and may change the context or raise;
  \<open>ContextVar.reset\<close> restores the value the variable had before the matching \<open>set\<close>.
\<close>

type_synonym 'r handler =
  "http_request \<Rightarrow> string option \<Rightarrow> mynd_ctx \<Rightarrow> mynd_ctx \<times> 'r result"

definition dispatch ::
  "env \<Rightarrow> config_fs \<Rightarrow> bool \<Rightarrow> 'r handler \<Rightarrow> http_request \<Rightarrow> string set \<times> mynd_ctx
     \<Rightarrow> (string set \<times> mynd_ctx) \<times> 'r result" where
  "dispatch env fs refresh_slugs call_next request st = (case st of (known_slugs, ctx) \<Rightarrow>
     let refresh = refresh_slugs \<and> known_slugs = {};
         known = (if refresh then set (list_product_slugs fs) else known_slugs);
         known_slugs' = (if refresh then known_slugs \<union> known else known_slugs);
         slug = resolve_request_slug env request known;
         saved = product_slug_ctx ctx
     in (case call_next request slug (ctx\<lparr>product_slug_ctx := slug\<rparr>) of (ctx', r) \<Rightarrow>
           ((known_slugs', ctx'\<lparr>product_slug_ctx := saved\<rparr>), r)))"

section \<open>Properties\<close>

lemma extract_slug_from_path_Some:
  "extract_slug_from_path path known = Some s \<Longrightarrow> s \<in> known \<and> s \<notin> reserved_prefixes \<and> s \<noteq> []"
proof -
  assume a: "extract_slug_from_path path known = Some s"
  then obtain seg segs where seg: "filter (\<lambda>s. s \<noteq> []) (split_on (CHR ''/'') path) = seg # segs"
    and s: "s = lower seg" "lower seg \<in> known" "lower seg \<notin> reserved_prefixes"
    by (auto simp: extract_slug_from_path_def Let_def split: list.splits if_splits)
  from seg have "seg \<in> set (filter (\<lambda>s. s \<noteq> []) (split_on (CHR ''/'') path))" by simp
  then have "seg \<noteq> []" by simp
  with s show ?thesis by simp
qed

lemma reserved_path_has_no_slug:
  assumes "CHR ''/'' \<notin> set seg" and "lower seg \<in> reserved_prefixes" and "seg \<noteq> []"
  shows "extract_slug_from_path (CHR ''/'' # seg @ CHR ''/'' # rest) known = None"
proof -
  have "split_on (CHR ''/'') (CHR ''/'' # seg @ CHR ''/'' # rest)
      = [] # seg # split_on (CHR ''/'') rest"
    using assms(1) by (simp add: split_on_append_sep)
  then show ?thesis using assms(2,3) by (simp add: extract_slug_from_path_def)
qed

text \<open>In the shared deployment (nothing pinned) a request is scoped only to a known product, and
  the sources are consulted in the documented order: a product path decides, then the header, then
  the cookie.\<close>

theorem shared_deployment_scoping:
  assumes "\<not> truthy (pinned_product_slug env)"
    and "resolve_request_slug env request known = Some s"
  shows "s \<in> known \<and>
    (extract_slug_from_path (req_path request) known = Some s
     \<or> extract_slug_from_path (req_path request) known = None
        \<and> (\<exists>h. dict_get (req_headers request) product_header = Some h \<and> s = lower h)
     \<or> extract_slug_from_path (req_path request) known = None
        \<and> (\<forall>h. dict_get (req_headers request) product_header = Some h \<longrightarrow> h = [] \<or> lower h \<notin> known)
        \<and> (\<exists>c. dict_get (req_cookies request) product_cookie = Some c \<and> s = lower c))"
proof (cases "extract_slug_from_path (req_path request) known")
  case (Some p)
  then have "truthy (Some p)" using extract_slug_from_path_Some by (simp add: truthy_def)
  then show ?thesis using assms Some extract_slug_from_path_Some
    by (auto simp: resolve_request_slug_def)
next
  case None
  then show ?thesis using assms
    by (auto simp: resolve_request_slug_def Let_def truthy_def split: if_splits option.splits)
qed

lemma shared_deployment_scoping_witness:
  "''eng'' \<in> {''eng''} \<and>
    (extract_slug_from_path ''/api/chat'' {''eng''} = Some ''eng''
     \<or> extract_slug_from_path ''/api/chat'' {''eng''} = None
        \<and> (\<exists>h. dict_get [] product_header = Some h \<and> ''eng'' = lower h)
     \<or> extract_slug_from_path ''/api/chat'' {''eng''} = None
        \<and> (\<forall>h. dict_get [] product_header = Some h \<longrightarrow> h = [] \<or> lower h \<notin> {''eng''})
        \<and> (\<exists>c. dict_get [(''mynd_product'', ''ENG'')] product_cookie = Some c \<and> ''eng'' = lower c))"
proof -
  define r :: http_request where
    "r = \<lparr>req_path = ''/api/chat'', req_headers = [], req_cookies = [(''mynd_product'', ''ENG'')]\<rparr>"
  have "\<not> truthy (pinned_product_slug [])" by code_simp
  moreover have "resolve_request_slug [] r {''eng''} = Some ''eng''"
    unfolding r_def by code_simp
  ultimately show ?thesis
    using shared_deployment_scoping [of "[]" r "{''eng''}" "''eng''"] by (simp add: r_def)
qed

text \<open>In a pinned deployment every request is scoped to the pinned product: path, header, cookie
  and the set of known products are ignored.\<close>

theorem pinned_deployment_scoping:
  assumes "dict_get env ''MYND_PRODUCT'' = Some v" and "strip v \<noteq> []"
  shows "resolve_request_slug env request known = Some (lower (strip v))"
proof -
  have "v \<noteq> []" using assms(2) by (auto simp: strip_def strip_by_def)
  then show ?thesis using assms
    by (simp add: resolve_request_slug_def pinned_product_slug_def)
qed

lemma pinned_deployment_scoping_witness:
  "resolve_request_slug [(''MYND_PRODUCT'', '' GRC '')]
     \<lparr>req_path = ''/eng/x'', req_headers = [], req_cookies = []\<rparr> {''eng''} = Some ''grc''"
proof -
  have "strip '' GRC '' \<noteq> []" and l: "lower (strip '' GRC '') = ''grc''" by code_simp+
  then show ?thesis
    using pinned_deployment_scoping [of "[(''MYND_PRODUCT'', '' GRC '')]" "'' GRC ''"] by simp
qed

text \<open>A blank \<open>MYND_PRODUCT\<close> makes \<open>is_single_product\<close> report a pinned deployment while requests
  are still resolved as in the shared one.\<close>

theorem blank_pin_disagrees:
  assumes "dict_get env ''MYND_PRODUCT'' = Some v" and "v \<noteq> []" and "strip v = []"
  shows "is_single_product env \<and>
    resolve_request_slug env request known = resolve_request_slug [] request known"
  using assms by (simp add: is_single_product_def pinned_product_slug_def resolve_request_slug_def)

lemma blank_pin_disagrees_witness:
  "is_single_product [(''MYND_PRODUCT'', '' '')] \<and>
    resolve_request_slug [(''MYND_PRODUCT'', '' '')]
      \<lparr>req_path = ''/eng'', req_headers = [], req_cookies = []\<rparr> {''eng''}
    = resolve_request_slug [] \<lparr>req_path = ''/eng'', req_headers = [], req_cookies = []\<rparr> {''eng''}"
proof (rule blank_pin_disagrees)
  show "strip '' '' = []" by code_simp
qed simp_all

text \<open>The middleware leaves the caller's product context as it found it, whether the application
  returns or raises and whatever it does to the context, and the application sees the same slug in
  the request state and in the context.\<close>

theorem dispatch_restores_context:
  "product_slug_ctx (snd (fst (dispatch env fs refresh call_next request (known, ctx))))
     = product_slug_ctx ctx
   \<and> (\<exists>slug. snd (dispatch env fs refresh call_next request (known, ctx))
        = snd (call_next request slug (ctx\<lparr>product_slug_ctx := slug\<rparr>)))"
  by (auto simp: dispatch_def Let_def case_prod_unfold)

end
