(* ===== verification/MyndCredentials.thy ===== *)
theory MyndCredentials
  imports MyndRouting
begin

text \<open>
  Bring-your-own LLM credentials: the tables of \<open>mynd/db/models.py\<close>, the envelope encryption of
  \<open>mynd/llm_auth/crypto.py\<close>, the resolver, the endpoints of \<open>mynd/llm_auth/router.py\<close>, the OAuth
  handlers, the refresh worker and the injection into the LLM provider.  A table is the list of its
  rows.  Fresh identifiers, the clock, the ciphers and the HTTP client are arguments.  A handler that
  raises commits nothing, so its model returns the error alone.
\<close>

section \<open>Tables\<close>

definition scope_system :: string where "scope_system = ''system''"
definition scope_org :: string where "scope_org = ''org''"
definition scope_user :: string where "scope_user = ''user''"

definition type_api_key :: string where "type_api_key = ''api_key''"
definition type_oauth_token :: string where "type_oauth_token = ''oauth_token''"

text \<open>The shared columns; the owner is a user identifier in one table and an organisation in the
  other.\<close>

record ('o, 'b) llm_credential =
  cred_id :: uuid
  cred_owner :: 'o
  cred_slug :: string
  cred_provider :: string
  cred_type :: string
  encrypted_payload :: 'b
  base_url :: "string option"
  is_default :: bool
  created_at :: int
  updated_at :: int

section \<open>Envelope encryption\<close>

text \<open>
  \<open>json.dumps\<close> with sorted keys determines the text from the value with its keys sorted, so that
  value stands for the plaintext; \<open>json.loads\<close> reads it back.
\<close>

fun sort_keys :: "pyval \<Rightarrow> pyval" where
  "sort_keys (PList xs) = PList (map sort_keys xs)"
| "sort_keys (PDict d) = PDict (sort_key fst (map (\<lambda>(k, v). (k, sort_keys v)) d))"
| "sort_keys v = v"

type_synonym 'b cipher = "(pyval \<Rightarrow> 'b result) \<times> ('b \<Rightarrow> pyval result)"

record 'b cipher_providers =
  fernet :: "string \<Rightarrow> 'b cipher"
  gcp_kms :: "string \<Rightarrow> 'b cipher"
  aws_kms :: "string \<Rightarrow> 'b cipher"

definition get_cipher :: "env \<Rightarrow> 'b cipher_providers \<Rightarrow> 'b cipher result" where
  "get_cipher env cp =
    (let provider = lower (case dict_get env ''MYND_KMS_PROVIDER'' of Some v \<Rightarrow> v | None \<Rightarrow> ''local'')
     in if provider = ''gcp'' then
          (case dict_get env ''MYND_GCP_KMS_KEY'' of None \<Rightarrow> Inl KeyError | Some k \<Rightarrow> Inr (gcp_kms cp k))
        else if provider = ''aws'' then
          (case dict_get env ''MYND_AWS_KMS_KEY_ID'' of None \<Rightarrow> Inl KeyError | Some k \<Rightarrow> Inr (aws_kms cp k))
        else
          (let key = dict_get env ''MYND_LOCAL_ENCRYPTION_KEY'' in
           if \<not> truthy key then Inl RuntimeError else Inr (fernet cp (the key))))"

definition encrypt_payload :: "env \<Rightarrow> 'b cipher_providers \<Rightarrow> (string, pyval) dict \<Rightarrow> 'b result" where
  "encrypt_payload env cp payload =
     (let raw = sort_keys (PDict payload) in bind_r (get_cipher env cp) (\<lambda>c. fst c raw))"

definition decrypt_payload :: "env \<Rightarrow> 'b cipher_providers \<Rightarrow> 'b \<Rightarrow> pyval result" where
  "decrypt_payload env cp blob = bind_r (get_cipher env cp) (\<lambda>c. snd c blob)"

section \<open>Credential resolution\<close>

record resolved_credential =
  rc_provider :: string
  rc_scope :: string
  rc_payload :: pyval
  rc_base_url :: "string option"
  rc_type :: "string option"

definition matching ::
  "'o \<Rightarrow> string \<Rightarrow> string \<Rightarrow> ('o, 'b) llm_credential \<Rightarrow> bool" where
  "matching owner slug provider r \<longleftrightarrow>
     cred_owner r = owner \<and> cred_slug r = slug \<and> cred_provider r = provider"

text \<open>\<open>_select_default\<close>: the first default row, else the first among the most recently updated
  (Python's sort is stable, also in reverse).\<close>

definition select_default ::
  "('o, 'b) llm_credential list \<Rightarrow> ('o, 'b) llm_credential option" where
  "select_default rows =
     (if rows = [] then None
      else case filter is_default rows of
          r # _ \<Rightarrow> Some r
        | [] \<Rightarrow> Some (hd (sort_key (\<lambda>r. - updated_at r) rows)))"

definition resolved_from ::
  "env \<Rightarrow> 'b cipher_providers \<Rightarrow> string \<Rightarrow> string \<Rightarrow> ('o, 'b) llm_credential \<Rightarrow> resolved_credential result"
  where
  "resolved_from env cp provider_name scope r =
     bind_r (decrypt_payload env cp (encrypted_payload r)) (\<lambda>payload.
       Inr \<lparr>rc_provider = provider_name, rc_scope = scope, rc_payload = payload,
         rc_base_url = base_url r, rc_type = Some (cred_type r)\<rparr>)"

definition resolve_llm_credential ::
  "env \<Rightarrow> 'b cipher_providers \<Rightarrow> (uuid, 'b) llm_credential list \<Rightarrow> (string, 'b) llm_credential list
    \<Rightarrow> string \<Rightarrow> string \<Rightarrow> uuid option \<Rightarrow> string option \<Rightarrow> resolved_credential result" where
  "resolve_llm_credential env cp users orgs provider_name product_slug user_id org_id =
    (let user_cred = (case user_id of None \<Rightarrow> None
           | Some u \<Rightarrow> select_default (filter (matching u product_slug provider_name) users))
     in case user_cred of
       Some r \<Rightarrow> resolved_from env cp provider_name scope_user r
     | None \<Rightarrow>
        (let org_cred = (case org_id of None \<Rightarrow> None
               | Some g \<Rightarrow> select_default (filter (matching g product_slug provider_name) orgs))
         in case org_cred of
           Some r \<Rightarrow> resolved_from env cp provider_name scope_org r
         | None \<Rightarrow> Inr \<lparr>rc_provider = provider_name, rc_scope = scope_system, rc_payload = PDict [],
             rc_base_url = None, rc_type = None\<rparr>))"

section \<open>Endpoints\<close>

record mynd_context =
  mc_slug :: "string option"
  mc_user :: uuid
  mc_org :: "string option"

record credential_request =
  rq_provider :: string
  rq_type :: string
  rq_api_key :: "string option"
  rq_base_url :: "string option"
  rq_extra :: "(string, pyval) dict option"
  rq_default :: bool

record credential_response =
  rs_id :: uuid
  rs_provider :: string
  rs_type :: string
  rs_base_url :: "string option"
  rs_default :: bool

definition to_response :: "('o, 'b) llm_credential \<Rightarrow> credential_response" where
  "to_response cred = \<lparr>rs_id = cred_id cred, rs_provider = cred_provider cred,
     rs_type = cred_type cred, rs_base_url = base_url cred, rs_default = is_default cred\<rparr>"

definition require_slug :: "string option \<Rightarrow> string result" where
  "require_slug slug = (if truthy slug then Inr (the slug) else Inl (OnyxError INVALID_INPUT))"

definition build_payload :: "credential_request \<Rightarrow> (string, pyval) dict result" where
  "build_payload body =
    (let payload0 = (case rq_extra body of None \<Rightarrow> [] | Some d \<Rightarrow> d);
         payload = (if truthy (rq_api_key body)
                    then dict_set ''api_key'' (PStr (the (rq_api_key body))) payload0 else payload0)
     in if payload = [] then Inl (OnyxError MISSING_REQUIRED_FIELD) else Inr payload)"

text \<open>The bulk update that clears the defaults; \<open>onupdate\<close> stamps every row it touches.\<close>

definition clear_defaults ::
  "int \<Rightarrow> 'o \<Rightarrow> string \<Rightarrow> string \<Rightarrow> ('o, 'b) llm_credential list \<Rightarrow> ('o, 'b) llm_credential list" where
  "clear_defaults now owner slug provider rows =
     map (\<lambda>r. if matching owner slug provider r
              then r\<lparr>is_default := False, updated_at := now\<rparr> else r) rows"

definition new_credential ::
  "int \<Rightarrow> uuid \<Rightarrow> 'o \<Rightarrow> string \<Rightarrow> string \<Rightarrow> string \<Rightarrow> 'b \<Rightarrow> string option \<Rightarrow> bool
    \<Rightarrow> ('o, 'b) llm_credential" where
  "new_credential now new_id owner slug provider ctype blob url dflt =
     \<lparr>cred_id = new_id, cred_owner = owner, cred_slug = slug, cred_provider = provider,
      cred_type = ctype, encrypted_payload = blob, base_url = url, is_default = dflt,
      created_at = now, updated_at = now\<rparr>"

definition upsert_user_credential ::
  "env \<Rightarrow> 'b cipher_providers \<Rightarrow> int \<Rightarrow> uuid \<Rightarrow> credential_request \<Rightarrow> mynd_context
    \<Rightarrow> (uuid, 'b) llm_credential list \<Rightarrow> (credential_response \<times> (uuid, 'b) llm_credential list) result"
  where
  "upsert_user_credential env cp now new_id body ctx rows =
     (if \<not> truthy (mc_slug ctx) then Inl (OnyxError INVALID_INPUT) else
      let slug = the (mc_slug ctx) in
      bind_r (build_payload body) (\<lambda>payload.
      let rows1 = (if rq_default body then clear_defaults now (mc_user ctx) slug (rq_provider body) rows
                   else rows) in
      bind_r (encrypt_payload env cp payload) (\<lambda>blob.
      let cred = new_credential now new_id (mc_user ctx) slug (rq_provider body) (rq_type body) blob
                   (rq_base_url body) (rq_default body) in
      Inr (to_response cred, rows1 @ [cred]))))"

definition list_user_credentials ::
  "string option \<Rightarrow> uuid \<Rightarrow> (uuid, 'b) llm_credential list \<Rightarrow> credential_response list result" where
  "list_user_credentials request_slug user rows =
     bind_r (require_slug request_slug) (\<lambda>slug.
       Inr (map to_response (filter (\<lambda>r. cred_owner r = user \<and> cred_slug r = slug) rows)))"

text \<open>\<open>db.get\<close> by primary key, then the ownership check, then the deletion of that row.\<close>

definition delete_credential ::
  "'o option \<Rightarrow> uuid \<Rightarrow> ('o, 'b) llm_credential list \<Rightarrow> ('o, 'b) llm_credential list result" where
  "delete_credential caller cid rows =
     (case filter (\<lambda>r. cred_id r = cid) rows of
        [] \<Rightarrow> Inl (OnyxError CREDENTIAL_NOT_FOUND)
      | r # _ \<Rightarrow> if Some (cred_owner r) \<noteq> caller then Inl (OnyxError CREDENTIAL_NOT_FOUND)
                 else Inr (filter (\<lambda>r. cred_id r \<noteq> cid) rows))"

definition delete_user_credential ::
  "uuid \<Rightarrow> uuid \<Rightarrow> (uuid, 'b) llm_credential list \<Rightarrow> (uuid, 'b) llm_credential list result" where
  "delete_user_credential cid user rows = delete_credential (Some user) cid rows"

definition upsert_org_credential ::
  "env \<Rightarrow> 'b cipher_providers \<Rightarrow> int \<Rightarrow> uuid \<Rightarrow> credential_request \<Rightarrow> mynd_context
    \<Rightarrow> (string, 'b) llm_credential list \<Rightarrow> (credential_response \<times> (string, 'b) llm_credential list) result"
  where
  "upsert_org_credential env cp now new_id body ctx rows =
     (if \<not> truthy (mc_slug ctx) then Inl (OnyxError INVALID_INPUT) else
      if \<not> truthy (mc_org ctx) then Inl (OnyxError INVALID_INPUT) else
      let slug = the (mc_slug ctx); org = the (mc_org ctx) in
      bind_r (build_payload body) (\<lambda>payload.
      let rows1 = (if rq_default body then clear_defaults now org slug (rq_provider body) rows
                   else rows) in
      bind_r (encrypt_payload env cp payload) (\<lambda>blob.
      let cred = new_credential now new_id org slug (rq_provider body) (rq_type body) blob
                   (rq_base_url body) (rq_default body) in
      Inr (to_response cred, rows1 @ [cred]))))"

definition list_org_credentials ::
  "mynd_context \<Rightarrow> (string, 'b) llm_credential list \<Rightarrow> credential_response list" where
  "list_org_credentials ctx rows =
     (if \<not> truthy (mc_slug ctx) \<or> \<not> truthy (mc_org ctx) then []
      else map to_response
        (filter (\<lambda>r. cred_owner r = the (mc_org ctx) \<and> cred_slug r = the (mc_slug ctx)) rows))"

definition delete_org_credential ::
  "uuid \<Rightarrow> mynd_context \<Rightarrow> (string, 'b) llm_credential list \<Rightarrow> (string, 'b) llm_credential list result" where
  "delete_org_credential cid ctx rows = delete_credential (mc_org ctx) cid rows"

section \<open>Provider metadata\<close>

text \<open>\<open>LlmProviderNames\<close> of \<open>onyx/llm/constants.py\<close>, in declaration order, by value.\<close>

definition llm_provider_names :: "string list" where
  "llm_provider_names =
     [''openai'', ''anthropic'', ''google'', ''bedrock'', ''bedrock_converse'', ''vertex_ai'',
      ''openrouter'', ''azure'', ''ollama_chat'', ''lm_studio'', ''mistral'', ''litellm_proxy'',
      ''bifrost'', ''openai_compatible'', ''nebius_tokenfactory'']"

definition base_url_providers :: "string set" where
  "base_url_providers = {''openai_compatible'', ''litellm_proxy'', ''ollama_chat'', ''lm_studio'',
     ''openrouter'', ''bifrost''}"

definition oauth_providers :: "string set" where
  "oauth_providers = {''vertex_ai''}"

definition list_providers :: pyval where
  "list_providers = PDict [(''providers'', PList (map (\<lambda>p. PDict
      [(''name'', PStr p), (''supports_base_url'', PBool (p \<in> base_url_providers)),
       (''supports_oauth'', PBool (p \<in> oauth_providers))]) llm_provider_names))]"

section \<open>OAuth connections\<close>

text \<open>\<open>mynd/llm_auth/oauth_handlers.py\<close>.  \<open>post\<close> is the HTTP client: the decoded JSON answer of a
  form post, or the error raised by the transport, by \<open>raise_for_status\<close> or by the decoding.\<close>

type_synonym http_post = "string \<Rightarrow> (string, pyval) dict \<Rightarrow> pyval result"

record oauth_provider_config =
  client_id :: string
  client_secret :: string
  auth_url :: string
  token_url :: string
  scopes :: string

definition oauth_callback_base :: "env \<Rightarrow> string" where
  "oauth_callback_base env = (case dict_get env ''MYND_OAUTH_CALLBACK_BASE'' of
     Some v \<Rightarrow> v | None \<Rightarrow> ''https://ai.myndlabs.tech/oauth/callback'')"

definition provider_config :: "env \<Rightarrow> string \<Rightarrow> oauth_provider_config result" where
  "provider_config env provider =
    (let var = (\<lambda>field. ''MYND_OAUTH_'' @ upper provider @ field) in
     case dict_get env (var ''_CLIENT_ID'') of None \<Rightarrow> Inl RuntimeError | Some ci \<Rightarrow>
     case dict_get env (var ''_CLIENT_SECRET'') of None \<Rightarrow> Inl RuntimeError | Some cs \<Rightarrow>
     case dict_get env (var ''_AUTH_URL'') of None \<Rightarrow> Inl RuntimeError | Some au \<Rightarrow>
     case dict_get env (var ''_TOKEN_URL'') of None \<Rightarrow> Inl RuntimeError | Some tu \<Rightarrow>
       Inr \<lparr>client_id = ci, client_secret = cs, auth_url = au, token_url = tu,
         scopes = (case dict_get env (var ''_SCOPES'') of Some s \<Rightarrow> s | None \<Rightarrow> [])\<rparr>)"

definition build_authorize_url :: "env \<Rightarrow> string \<Rightarrow> string \<Rightarrow> string result" where
  "build_authorize_url env provider state =
     bind_r (provider_config env provider) (\<lambda>cfg.
     let params =
       [(''client_id'', client_id cfg),
        (''redirect_uri'', oauth_callback_base env @ ''/'' @ provider),
        (''response_type'', ''code''),
        (''scope'', scopes cfg),
        (''access_type'', ''offline''),
        (''prompt'', ''consent''),
        (''state'', state)]
     in Inr (auth_url cfg @ ''?'' @ urlencode params))"

definition handle_oauth_callback ::
  "env \<Rightarrow> 'b cipher_providers \<Rightarrow> http_post \<Rightarrow> int \<Rightarrow> uuid \<Rightarrow> string \<Rightarrow> string \<Rightarrow> uuid \<Rightarrow> string
    \<Rightarrow> (uuid, 'b) llm_credential list
    \<Rightarrow> ((uuid, 'b) llm_credential \<times> (uuid, 'b) llm_credential list) result" where
  "handle_oauth_callback env cp post now new_id provider code user_id product_slug rows =
     bind_r (provider_config env provider) (\<lambda>cfg.
     bind_r (post (token_url cfg)
       [(''client_id'', PStr (client_id cfg)), (''client_secret'', PStr (client_secret cfg)),
        (''code'', PStr code), (''grant_type'', PStr ''authorization_code''),
        (''redirect_uri'', PStr (oauth_callback_base env @ ''/'' @ provider))]) (\<lambda>tokens.
     bind_r (pv_get tokens ''access_token'' PNone) (\<lambda>at.
     bind_r (pv_get tokens ''refresh_token'' PNone) (\<lambda>rt.
     bind_r (pv_get tokens ''expires_in'' PNone) (\<lambda>ei.
     bind_r (pv_get tokens ''token_type'' PNone) (\<lambda>tt.
     bind_r (pv_get tokens ''scope'' PNone) (\<lambda>sc.
     let payload = [(''access_token'', at), (''refresh_token'', rt), (''expires_in'', ei),
           (''token_type'', tt), (''scope'', sc), (''_obtained_at'', PInt now)];
         rows1 = clear_defaults now user_id product_slug provider rows in
     bind_r (encrypt_payload env cp payload) (\<lambda>blob.
     let cred = new_credential now new_id user_id product_slug provider type_oauth_token blob None True
     in Inr (cred, rows1 @ [cred])))))))))"

text \<open>The two OAuth endpoints of the router.  The callback receives no \<open>state\<close>.\<close>

definition start_oauth :: "env \<Rightarrow> string option \<Rightarrow> string \<Rightarrow> string \<Rightarrow> pyval result" where
  "start_oauth env request_slug provider fresh_state =
     bind_r (require_slug request_slug) (\<lambda>_.
     bind_r (build_authorize_url env provider fresh_state) (\<lambda>url.
       Inr (PDict [(''authorize_url'', PStr url)])))"

definition oauth_callback ::
  "env \<Rightarrow> 'b cipher_providers \<Rightarrow> http_post \<Rightarrow> int \<Rightarrow> uuid \<Rightarrow> string \<Rightarrow> string \<Rightarrow> string option \<Rightarrow> uuid
    \<Rightarrow> (uuid, 'b) llm_credential list \<Rightarrow> (string \<times> (uuid, 'b) llm_credential list) result" where
  "oauth_callback env cp post now new_id provider code request_slug user rows =
    (let slug = the (py_or request_slug (Some ''eng'')) in
     bind_r (handle_oauth_callback env cp post now new_id provider code user slug rows)
       (\<lambda>(_, rows'). Inr (''/'' @ slug @ ''/settings/models?connected='' @ provider, rows')))"

section \<open>Token refresh\<close>

text \<open>\<open>mynd/llm_auth/token_refresh.py\<close>; times are in seconds.\<close>

definition refresh_threshold_seconds :: int where
  "refresh_threshold_seconds = 15 * 60"

fun py_num :: "pyval \<Rightarrow> int result" where
  "py_num (PInt i) = Inr i"
| "py_num (PBool b) = Inr (if b then 1 else 0)"
| "py_num _ = Inl TypeError"

definition expires_soon :: "int \<Rightarrow> pyval \<Rightarrow> bool result" where
  "expires_soon now payload =
     bind_r (pv_get payload ''_obtained_at'' PNone) (\<lambda>obtained.
     bind_r (pv_get payload ''expires_in'' PNone) (\<lambda>expires_in.
     if \<not> py_truthy obtained \<or> \<not> py_truthy expires_in
     then bind_r (pv_get payload ''refresh_token'' PNone) (\<lambda>rt. Inr (py_truthy rt))
     else bind_r (py_num obtained) (\<lambda>o'. bind_r (py_num expires_in) (\<lambda>e'.
       Inr (o' + e' - now \<le> refresh_threshold_seconds)))))"

definition refresh_one ::
  "env \<Rightarrow> http_post \<Rightarrow> int \<Rightarrow> string \<Rightarrow> (string, pyval) dict \<Rightarrow> (string, pyval) dict option result" where
  "refresh_one env post now provider payload =
    (let refresh_token = (case dict_get payload ''refresh_token'' of Some t \<Rightarrow> t | None \<Rightarrow> PNone);
         old = (\<lambda>k. case dict_get payload k of Some v \<Rightarrow> v | None \<Rightarrow> PNone) in
     if \<not> py_truthy refresh_token then Inr None else
     bind_r (provider_config env provider) (\<lambda>cfg.
     bind_r (post (token_url cfg)
       [(''client_id'', PStr (client_id cfg)), (''client_secret'', PStr (client_secret cfg)),
        (''refresh_token'', refresh_token), (''grant_type'', PStr ''refresh_token'')]) (\<lambda>tokens.
     bind_r (pv_get tokens ''access_token'' (old ''access_token'')) (\<lambda>at.
     bind_r (pv_get tokens ''refresh_token'' PNone) (\<lambda>rt.
     bind_r (pv_get tokens ''expires_in'' (old ''expires_in'')) (\<lambda>ei.
     let p1 = dict_set ''access_token'' at payload;
         p2 = (if py_truthy rt then dict_set ''refresh_token'' rt p1 else p1);
         p3 = dict_set ''expires_in'' ei p2;
         p4 = dict_set ''_obtained_at'' (PInt now) p3
     in Inr (Some p4)))))))"

text \<open>The body of the loop inside its \<open>try\<close>: the new ciphertext, or \<open>None\<close> for \<open>continue\<close>.\<close>

definition refresh_attempt ::
  "env \<Rightarrow> 'b cipher_providers \<Rightarrow> http_post \<Rightarrow> int \<Rightarrow> (uuid, 'b) llm_credential \<Rightarrow> 'b option result" where
  "refresh_attempt env cp post now cred =
     bind_r (decrypt_payload env cp (encrypted_payload cred)) (\<lambda>payload.
     bind_r (expires_soon now payload) (\<lambda>soon.
     if \<not> soon then Inr None else
     case payload of
       PDict d \<Rightarrow>
         bind_r (refresh_one env post now (cred_provider cred) d) (\<lambda>new_payload.
         case new_payload of
           None \<Rightarrow> Inr None
         | Some p \<Rightarrow> bind_r (encrypt_payload env cp p) (\<lambda>blob. Inr (Some blob)))
     | _ \<Rightarrow> Inl AttributeError))"

definition store_payload ::
  "int \<Rightarrow> uuid \<Rightarrow> 'b \<Rightarrow> (uuid, 'b) llm_credential list \<Rightarrow> (uuid, 'b) llm_credential list" where
  "store_payload now cid blob rows =
     map (\<lambda>r. if cred_id r = cid then r\<lparr>encrypted_payload := blob, updated_at := now\<rparr> else r) rows"

fun refresh_loop ::
  "env \<Rightarrow> 'b cipher_providers \<Rightarrow> http_post \<Rightarrow> int \<Rightarrow> (uuid, 'b) llm_credential list
    \<Rightarrow> (uuid, 'b) llm_credential list \<times> nat \<Rightarrow> (uuid, 'b) llm_credential list \<times> nat" where
  "refresh_loop env cp post now [] st = st"
| "refresh_loop env cp post now (cred # creds) (rows, refreshed) =
     refresh_loop env cp post now creds
       (case refresh_attempt env cp post now cred of
          Inr (Some blob) \<Rightarrow> (store_payload now (cred_id cred) blob rows, Suc refreshed)
        | _ \<Rightarrow> (rows, refreshed))"

definition refresh_oauth_tokens ::
  "env \<Rightarrow> 'b cipher_providers \<Rightarrow> http_post \<Rightarrow> int \<Rightarrow> (uuid, 'b) llm_credential list
    \<Rightarrow> (uuid, 'b) llm_credential list \<times> nat" where
  "refresh_oauth_tokens env cp post now rows =
     refresh_loop env cp post now (filter (\<lambda>r. cred_type r = type_oauth_token) rows) (rows, 0)"

section \<open>Injection\<close>

text \<open>\<open>mynd/llm_auth/credential_injection.py\<close>: the fields of \<open>LLMProviderView\<close> it reads or writes; the
  others are kept abstract.\<close>

record 'x llm_provider_view =
  lp_provider :: string
  lp_api_key :: pyval
  lp_api_base :: "string option"
  lp_rest :: 'x

definition maybe_override_provider ::
  "env \<Rightarrow> 'b cipher_providers \<Rightarrow> (uuid, 'b) llm_credential list \<Rightarrow> (string, 'b) llm_credential list
    \<Rightarrow> mynd_ctx \<Rightarrow> 'x llm_provider_view \<Rightarrow> mynd_ctx \<times> 'x llm_provider_view result" where
  "maybe_override_provider env cp users orgs ctx llm_provider =
    (if \<not> truthy (product_slug_ctx ctx)
     then (ctx\<lparr>llm_credential_scope_ctx := Some scope_system\<rparr>, Inr llm_provider)
     else case resolve_llm_credential env cp users orgs (lp_provider llm_provider)
            (the (product_slug_ctx ctx)) (user_id_ctx ctx) (org_id_ctx ctx) of
       Inl _ \<Rightarrow> (ctx\<lparr>llm_credential_scope_ctx := Some scope_system\<rparr>, Inr llm_provider)
     | Inr resolved \<Rightarrow>
        (let ctx' = ctx\<lparr>llm_credential_scope_ctx := Some (rc_scope resolved)\<rparr> in
         if rc_scope resolved = scope_system then (ctx', Inr llm_provider)
         else
          (let payload = pv_or (rc_payload resolved) (PDict []) in
           (ctx',
            bind_r (pv_get payload ''api_key'' PNone) (\<lambda>api_key.
            bind_r (pv_get payload ''access_token'' PNone) (\<lambda>access_token.
            let p1 = (if py_truthy api_key then llm_provider\<lparr>lp_api_key := api_key\<rparr> else llm_provider);
                p2 = (if truthy (rc_base_url resolved)
                      then p1\<lparr>lp_api_base := rc_base_url resolved\<rparr> else p1);
                p3 = (if py_truthy access_token \<and> \<not> py_truthy api_key
                      then p2\<lparr>lp_api_key := access_token\<rparr> else p2)
            in Inr p3))))))"

section \<open>The default flag\<close>

definition defaults ::
  "'o \<Rightarrow> string \<Rightarrow> string \<Rightarrow> ('o, 'b) llm_credential list \<Rightarrow> ('o, 'b) llm_credential list" where
  "defaults owner slug provider rows = filter (\<lambda>r. matching owner slug provider r \<and> is_default r) rows"

definition table_inv :: "('o, 'b) llm_credential list \<Rightarrow> bool" where
  "table_inv rows \<longleftrightarrow> distinct (map cred_id rows)
     \<and> (\<forall>owner slug provider. length (defaults owner slug provider rows) \<le> 1)"

lemma defaults_append [simp]: "defaults a s p (xs @ ys) = defaults a s p xs @ defaults a s p ys"
  by (simp add: defaults_def)

lemma matching_upd [simp]:
  "matching a s p (r\<lparr>is_default := x, updated_at := y\<rparr>) = matching a s p r"
  by (simp add: matching_def)

lemma matching_unique:
  "matching a s p r \<Longrightarrow> matching a' s' p' r \<Longrightarrow> a = a' \<and> s = s' \<and> p = p'"
  by (simp add: matching_def)

lemma filter_map_frame:
  "(\<And>r. r \<in> set rows \<Longrightarrow> P (f r) = P r \<and> (P r \<longrightarrow> f r = r)) \<Longrightarrow>
     filter P (map f rows) = filter P rows"
  by (induction rows) auto

lemma filter_map_none: "(\<And>r. r \<in> set rows \<Longrightarrow> \<not> P (f r)) \<Longrightarrow> filter P (map f rows) = []"
  by (induction rows) auto

lemma defaults_clear_same [simp]: "defaults a s p (clear_defaults now a s p rows) = []"
  unfolding defaults_def clear_defaults_def by (rule filter_map_none) simp

lemma defaults_clear_other:
  assumes "\<not> (a = a' \<and> s = s' \<and> p = p')"
  shows "defaults a s p (clear_defaults now a' s' p' rows) = defaults a s p rows"
  unfolding defaults_def clear_defaults_def
proof (rule filter_map_frame)
  fix r assume "r \<in> set rows"
  show "(matching a s p (if matching a' s' p' r then r\<lparr>is_default := False, updated_at := now\<rparr> else r)
      \<and> is_default (if matching a' s' p' r then r\<lparr>is_default := False, updated_at := now\<rparr> else r))
      = (matching a s p r \<and> is_default r)
    \<and> (matching a s p r \<and> is_default r \<longrightarrow>
       (if matching a' s' p' r then r\<lparr>is_default := False, updated_at := now\<rparr> else r) = r)"
  proof (cases "matching a' s' p' r")
    case True
    then have "\<not> matching a s p r" using assms matching_unique by metis
    with True show ?thesis by simp
  qed simp
qed

lemma defaults_clear:
  "defaults a s p (clear_defaults now a' s' p' rows) =
     (if a = a' \<and> s = s' \<and> p = p' then [] else defaults a s p rows)"
proof (cases "a = a' \<and> s = s' \<and> p = p'")
  case False
  then show ?thesis using defaults_clear_other [OF False] by (simp only: if_False)
qed simp

lemma ids_clear [simp]: "map cred_id (clear_defaults now a s p rows) = map cred_id rows"
  by (simp add: clear_defaults_def)

lemma new_credential_fields [simp]:
  "cred_id (new_credential now i a s p t b u d) = i"
  "is_default (new_credential now i a s p t b u d) = d"
  "cred_owner (new_credential now i a s p t b u d) = a"
  "cred_slug (new_credential now i a s p t b u d) = s"
  "cred_provider (new_credential now i a s p t b u d) = p"
  "cred_type (new_credential now i a s p t b u d) = t"
  "encrypted_payload (new_credential now i a s p t b u d) = b"
  "base_url (new_credential now i a s p t b u d) = u"
  "updated_at (new_credential now i a s p t b u d) = now"
  by (simp_all add: new_credential_def)

lemma matching_new [simp]:
  "matching a s p (new_credential now i a' s' p' t b u d) \<longleftrightarrow> a' = a \<and> s' = s \<and> p' = p"
  by (simp add: matching_def)

text \<open>What inserting a credential does to the table, default or not.\<close>

definition inserted ::
  "int \<Rightarrow> ('o, 'b) llm_credential \<Rightarrow> ('o, 'b) llm_credential list \<Rightarrow> ('o, 'b) llm_credential list" where
  "inserted now cred rows =
     (if is_default cred then clear_defaults now (cred_owner cred) (cred_slug cred) (cred_provider cred) rows
      else rows) @ [cred]"

lemma table_inv_inserted:
  assumes "table_inv rows" and "cred_id cred \<notin> cred_id ` set rows"
  shows "table_inv (inserted now cred rows)"
proof -
  have "length (defaults a s p (inserted now cred rows)) \<le> 1" for a s p
  proof (cases "is_default cred \<and> matching a s p cred")
    case True
    then have "a = cred_owner cred" "s = cred_slug cred" "p = cred_provider cred"
      by (auto simp: matching_def)
    then show ?thesis using True by (simp add: inserted_def) (simp add: defaults_def)
  next
    case False
    then have "defaults a s p [cred] = []" by (auto simp: defaults_def)
    then show ?thesis using assms(1)
      by (auto simp: inserted_def defaults_clear table_inv_def)
  qed
  moreover have "distinct (map cred_id (inserted now cred rows))"
  proof -
    have "map cred_id (inserted now cred rows) = map cred_id rows @ [cred_id cred]"
      by (simp add: inserted_def)
    then show ?thesis using assms by (simp only:) (auto simp: table_inv_def)
  qed
  ultimately show ?thesis by (simp add: table_inv_def)
qed

lemma table_inv_filter: "table_inv rows \<Longrightarrow> table_inv (filter P rows)"
proof -
  assume inv: "table_inv rows"
  have "length (defaults a s p (filter P rows)) \<le> length (defaults a s p rows)" for a s p
    by (induction rows) (auto simp: defaults_def)
  then have "length (defaults a s p (filter P rows)) \<le> 1" for a s p
    using inv by (meson order_trans table_inv_def)
  then show ?thesis using inv by (simp add: table_inv_def distinct_map_filter)
qed

lemma table_inv_map:
  assumes "table_inv rows"
    and "\<And>r. r \<in> set rows \<Longrightarrow> cred_id (f r) = cred_id r \<and> is_default (f r) = is_default r
           \<and> (\<forall>a s p. matching a s p (f r) = matching a s p r)"
  shows "table_inv (map f rows)"
proof -
  have "length (defaults a s p (map f rows)) = length (defaults a s p rows)" for a s p
    using assms(2) by (induction rows) (auto simp: defaults_def)
  moreover have ids: "map cred_id (map f rows) = map cred_id rows" using assms(2) by simp
  ultimately show ?thesis using assms(1) unfolding table_inv_def ids by simp
qed

lemma upsert_user_inserts:
  assumes "upsert_user_credential env cp now new_id body ctx rows = Inr (resp, rows')"
  shows "\<exists>payload blob cred. build_payload body = Inr payload
     \<and> encrypt_payload env cp payload = Inr blob \<and> truthy (mc_slug ctx)
     \<and> cred = new_credential now new_id (mc_user ctx) (the (mc_slug ctx)) (rq_provider body)
         (rq_type body) blob (rq_base_url body) (rq_default body)
     \<and> resp = to_response cred \<and> rows' = inserted now cred rows"
  using assms
  by (auto simp: upsert_user_credential_def bind_r_Inr_iff Let_def inserted_def split: if_splits)

lemma upsert_org_inserts:
  assumes "upsert_org_credential env cp now new_id body ctx rows = Inr (resp, rows')"
  shows "\<exists>blob. truthy (mc_org ctx) \<and> rows' = inserted now
     (new_credential now new_id (the (mc_org ctx)) (the (mc_slug ctx)) (rq_provider body)
         (rq_type body) blob (rq_base_url body) (rq_default body)) rows"
  using assms
  by (auto simp: upsert_org_credential_def bind_r_Inr_iff Let_def inserted_def split: if_splits)

lemma oauth_callback_inserts:
  assumes "handle_oauth_callback env cp post now new_id provider code user slug rows = Inr (cred, rows')"
  shows "is_default cred \<and> cred_owner cred = user \<and> cred_slug cred = slug
     \<and> cred_provider cred = provider \<and> cred_id cred = new_id \<and> rows' = inserted now cred rows"
  using assms
  by (auto simp: handle_oauth_callback_def bind_r_Inr_iff Let_def inserted_def)

lemma delete_filters:
  assumes "delete_credential caller cid rows = Inr rows'"
  shows "rows' = filter (\<lambda>r. cred_id r \<noteq> cid) rows
     \<and> (\<exists>r \<in> set rows. cred_id r = cid \<and> Some (cred_owner r) = caller)"
proof (cases "filter (\<lambda>r. cred_id r = cid) rows")
  case (Cons r rs)
  then have "r \<in> set (filter (\<lambda>r. cred_id r = cid) rows)" by simp
  then have "r \<in> set rows \<and> cred_id r = cid" by simp
  then show ?thesis using assms Cons
    by (auto simp: delete_credential_def split: if_splits)
qed (use assms in \<open>simp add: delete_credential_def\<close>)

section \<open>The refresh worker, row by row\<close>

definition refresh_row ::
  "env \<Rightarrow> 'b cipher_providers \<Rightarrow> http_post \<Rightarrow> int \<Rightarrow> (uuid, 'b) llm_credential
    \<Rightarrow> (uuid, 'b) llm_credential" where
  "refresh_row env cp post now r =
     (if cred_type r \<noteq> type_oauth_token then r
      else case refresh_attempt env cp post now r of
          Inr (Some blob) \<Rightarrow> r\<lparr>encrypted_payload := blob, updated_at := now\<rparr>
        | _ \<Rightarrow> r)"

definition is_refreshed ::
  "env \<Rightarrow> 'b cipher_providers \<Rightarrow> http_post \<Rightarrow> int \<Rightarrow> (uuid, 'b) llm_credential \<Rightarrow> bool" where
  "is_refreshed env cp post now r \<longleftrightarrow>
     (case refresh_attempt env cp post now r of Inr (Some _) \<Rightarrow> True | _ \<Rightarrow> False)"

lemma refresh_row_frame [simp]:
  "cred_id (refresh_row env cp post now r) = cred_id r"
  "is_default (refresh_row env cp post now r) = is_default r"
  "matching a s p (refresh_row env cp post now r) = matching a s p r"
  by (auto simp: refresh_row_def matching_def split: sum.splits option.splits)

text \<open>The loop over the selected credentials of a table whose identifiers are distinct.\<close>

lemma refresh_loop_map:
  assumes "distinct (map cred_id creds)" and "list_all (\<lambda>r. cred_type r = type_oauth_token) creds"
  shows "refresh_loop env cp post now creds (rows, n) =
    (map (\<lambda>r. case find (\<lambda>c. cred_id c = cred_id r) creds of
         None \<Rightarrow> r
       | Some c \<Rightarrow> (case refresh_attempt env cp post now c of
             Inr (Some blob) \<Rightarrow> r\<lparr>encrypted_payload := blob, updated_at := now\<rparr> | _ \<Rightarrow> r)) rows,
     n + length (filter (is_refreshed env cp post now) creds))"
  using assms
proof (induction creds arbitrary: rows n)
  case (Cons c cs)
  have notin: "find (\<lambda>c'. cred_id c' = cred_id c) cs = None"
    using Cons.prems(1) by (auto simp: find_None_iff) (metis image_eqI)
  have IH: "refresh_loop env cp post now cs (rows, n) = (map (\<lambda>r.
       case find (\<lambda>c. cred_id c = cred_id r) cs of None \<Rightarrow> r
       | Some c \<Rightarrow> (case refresh_attempt env cp post now c of
             Inr (Some blob) \<Rightarrow> r\<lparr>encrypted_payload := blob, updated_at := now\<rparr> | _ \<Rightarrow> r)) rows,
     n + length (filter (is_refreshed env cp post now) cs))" for rows n
    using Cons by simp
  show ?case
  proof (cases "refresh_attempt env cp post now c")
    case (Inl e)
    moreover from Inl have "\<not> is_refreshed env cp post now c" by (simp add: is_refreshed_def)
    ultimately show ?thesis using IH notin by (auto split: option.splits)
  next
    case (Inr ob)
    moreover from Inr have "is_refreshed env cp post now c = (ob \<noteq> None)"
      by (auto simp: is_refreshed_def split: option.splits)
    ultimately show ?thesis using IH notin
      by (cases ob) (auto simp: store_payload_def split: option.splits)
  qed
qed simp

lemma find_by_id:
  assumes "distinct (map cred_id rows)" and "r \<in> set rows"
  shows "find (\<lambda>c. cred_id c = cred_id r) (filter P rows) = (if P r then Some r else None)"
  using assms
proof (induction rows)
  case (Cons x rows)
  show ?case
  proof (cases "x = r")
    case True
    have "find (\<lambda>c. cred_id c = cred_id r) (filter P rows) = None"
      using Cons.prems(1) True by (auto simp: find_None_iff) (metis image_eqI)
    then show ?thesis using True by simp
  next
    case False
    with Cons.prems have "cred_id x \<noteq> cred_id r" by (auto simp: image_iff)
    then show ?thesis using Cons False by simp
  qed
qed simp

section \<open>Properties\<close>

text \<open>The refresh worker is a row-by-row map: every OAuth credential whose refresh succeeds gets its
  new ciphertext, every other row (other kinds, tokens not due, tokens without a refresh token, and
  rows whose refresh raised) is left as it was, and the count returned is the number of refreshed
  rows.\<close>

theorem refresh_is_rowwise:
  assumes "distinct (map cred_id rows)"
  shows "refresh_oauth_tokens env cp post now rows =
    (map (refresh_row env cp post now) rows,
     length (filter (\<lambda>r. cred_type r = type_oauth_token \<and> is_refreshed env cp post now r) rows))"
proof -
  let ?P = "\<lambda>r. cred_type r = type_oauth_token"
  have "distinct (map cred_id (filter ?P rows))" using assms by (simp add: distinct_map_filter)
  moreover have "list_all ?P (filter ?P rows)" by (simp add: list_all_iff)
  ultimately have "refresh_oauth_tokens env cp post now rows =
    (map (\<lambda>r. case find (\<lambda>c. cred_id c = cred_id r) (filter ?P rows) of
         None \<Rightarrow> r
       | Some c \<Rightarrow> (case refresh_attempt env cp post now c of
             Inr (Some blob) \<Rightarrow> r\<lparr>encrypted_payload := blob, updated_at := now\<rparr> | _ \<Rightarrow> r)) rows,
     length (filter (is_refreshed env cp post now) (filter ?P rows)))"
    by (simp add: refresh_oauth_tokens_def refresh_loop_map)
  moreover have "map (\<lambda>r. case find (\<lambda>c. cred_id c = cred_id r) (filter ?P rows) of
         None \<Rightarrow> r
       | Some c \<Rightarrow> (case refresh_attempt env cp post now c of
             Inr (Some blob) \<Rightarrow> r\<lparr>encrypted_payload := blob, updated_at := now\<rparr> | _ \<Rightarrow> r)) rows
      = map (refresh_row env cp post now) rows"
    using find_by_id [OF assms] by (auto simp: refresh_row_def)
  ultimately show ?thesis by (simp add: conj_commute)
qed

text \<open>The steps of the user table, by acting user; the worker acts for nobody.\<close>

inductive user_op ::
  "env \<Rightarrow> 'b cipher_providers \<Rightarrow> http_post \<Rightarrow> uuid \<Rightarrow> (uuid, 'b) llm_credential list
    \<Rightarrow> (uuid, 'b) llm_credential list \<Rightarrow> bool" for env cp post where
  upsert: "upsert_user_credential env cp now new_id body ctx rows = Inr (resp, rows') \<Longrightarrow>
     new_id \<notin> cred_id ` set rows \<Longrightarrow> user_op env cp post (mc_user ctx) rows rows'"
| delete: "delete_user_credential cid user rows = Inr rows' \<Longrightarrow> user_op env cp post user rows rows'"
| oauth: "oauth_callback env cp post now new_id provider code req_slug user rows = Inr (url, rows') \<Longrightarrow>
     new_id \<notin> cred_id ` set rows \<Longrightarrow> user_op env cp post user rows rows'"

inductive reachable_credentials ::
  "env \<Rightarrow> 'b cipher_providers \<Rightarrow> http_post \<Rightarrow> (uuid, 'b) llm_credential list \<Rightarrow> bool"
  for env cp post where
  empty: "reachable_credentials env cp post []"
| user: "reachable_credentials env cp post rows \<Longrightarrow> user_op env cp post user rows rows' \<Longrightarrow>
     reachable_credentials env cp post rows'"
| worker: "reachable_credentials env cp post rows \<Longrightarrow>
     reachable_credentials env cp post (fst (refresh_oauth_tokens env cp post now rows))"

lemma user_op_shape:
  assumes "user_op env cp post user rows rows'"
  shows "(\<exists>cred now. cred_owner cred = user \<and> cred_id cred \<notin> cred_id ` set rows
            \<and> rows' = inserted now cred rows)
       \<or> (\<exists>cid r. r \<in> set rows \<and> cred_id r = cid \<and> cred_owner r = user
            \<and> rows' = filter (\<lambda>r. cred_id r \<noteq> cid) rows)"
  using assms
proof (cases rule: user_op.cases)
  case (upsert now new_id body ctx resp)
  then show ?thesis using upsert_user_inserts [OF upsert(2)] by (metis new_credential_fields(1,3))
next
  case (delete cid)
  then show ?thesis using delete_filters [of "Some user" cid rows rows']
    by (auto simp: delete_user_credential_def)
next
  case (oauth now new_id provider code req_slug url)
  then obtain cred where "handle_oauth_callback env cp post now new_id provider code user
      (the (py_or req_slug (Some ''eng''))) rows = Inr (cred, rows')"
    by (auto simp: oauth_callback_def bind_r_Inr_iff Let_def)
  from oauth_callback_inserts [OF this] oauth(2) show ?thesis by metis
qed

lemma user_op_inv: "user_op env cp post user rows rows' \<Longrightarrow> table_inv rows \<Longrightarrow> table_inv rows'"
  using user_op_shape [of env cp post user rows rows'] table_inv_inserted table_inv_filter by metis


text \<open>A local cipher that stores the plaintext and a first credential, for the witnesses.\<close>

definition example_env :: env where
  "example_env = [(''MYND_LOCAL_ENCRYPTION_KEY'', ''k'')]"

definition example_cp :: "pyval cipher_providers" where
  "example_cp = \<lparr>fernet = (\<lambda>_. (Inr, Inr)), gcp_kms = (\<lambda>_. (Inr, Inr)), aws_kms = (\<lambda>_. (Inr, Inr))\<rparr>"

definition example_ctx :: mynd_context where
  "example_ctx = \<lparr>mc_slug = Some ''eng'', mc_user = 7, mc_org = None\<rparr>"

definition example_body :: credential_request where
  "example_body = \<lparr>rq_provider = ''openai'', rq_type = type_api_key, rq_api_key = Some ''sk-1'',
     rq_base_url = None, rq_extra = None, rq_default = True\<rparr>"

definition example_cred :: "(uuid, pyval) llm_credential" where
  "example_cred = new_credential 100 1 7 ''eng'' ''openai'' type_api_key
     (PDict [(''api_key'', PStr ''sk-1'')]) None True"

lemma example_upsert:
  "upsert_user_credential example_env example_cp 100 1 example_body example_ctx []
     = Inr (to_response example_cred, [example_cred])"
  by code_simp

lemma example_reachable:
  "reachable_credentials example_env example_cp (\<lambda>_ _. Inl HTTPError) [example_cred]"
proof -
  have "user_op example_env example_cp (\<lambda>_ _. Inl HTTPError) (mc_user example_ctx) [] [example_cred]"
    by (rule user_op.upsert [OF example_upsert]) simp
  then show ?thesis by (rule reachable_credentials.user [OF reachable_credentials.empty])
qed

lemma refresh_is_rowwise_witness:
  "refresh_oauth_tokens example_env example_cp (\<lambda>_ _. Inl HTTPError) 200
      [example_cred, example_cred\<lparr>cred_id := 2\<rparr>] =
    (map (refresh_row example_env example_cp (\<lambda>_ _. Inl HTTPError) 200)
       [example_cred, example_cred\<lparr>cred_id := 2\<rparr>],
     length (filter (\<lambda>r. cred_type r = type_oauth_token
         \<and> is_refreshed example_env example_cp (\<lambda>_ _. Inl HTTPError) 200 r)
       [example_cred, example_cred\<lparr>cred_id := 2\<rparr>]))"
  by (rule refresh_is_rowwise) (simp add: example_cred_def)




lemma inserted_default_selected:
  assumes "is_default cred" and "matching a s p cred"
  shows "select_default (filter (matching a s p) (inserted now cred rows)) = Some cred"
proof -
  have k: "a = cred_owner cred" "s = cred_slug cred" "p = cred_provider cred"
    using assms(2) by (auto simp: matching_def)
  have "filter is_default (filter (matching a s p) (clear_defaults now a s p rows))
      = defaults a s p (clear_defaults now a s p rows)"
    by (simp add: defaults_def conj_commute)
  then have "filter is_default (filter (matching a s p) (inserted now cred rows)) = [cred]"
    using assms k by (simp add: inserted_def)
  moreover have "filter (matching a s p) (inserted now cred rows) \<noteq> []"
    using assms by (simp add: inserted_def)
  ultimately show ?thesis by (simp add: select_default_def)
qed

text \<open>C17: A key stored as default is the one inference uses: after a successful upsert, a request of the
  same user for that product and provider resolves, at user scope, to exactly the submitted payload
  (keys sorted by the encoding), URL and type, whatever was stored before and whatever the
  organisation has, provided the configured cipher decrypts what it encrypts.\<close>

theorem stored_credential_is_used:
  assumes "upsert_user_credential env cp now new_id body ctx rows = Inr (resp, rows')"
    and "rq_default body"
    and "\<And>enc dec raw blob. get_cipher env cp = Inr (enc, dec) \<Longrightarrow> enc raw = Inr blob \<Longrightarrow> dec blob = Inr raw"
  shows "\<exists>payload. build_payload body = Inr payload
    \<and> resolve_llm_credential env cp rows' orgs (rq_provider body) (the (mc_slug ctx))
         (Some (mc_user ctx)) org
      = Inr \<lparr>rc_provider = rq_provider body, rc_scope = scope_user,
          rc_payload = sort_keys (PDict payload), rc_base_url = rq_base_url body,
          rc_type = Some (rq_type body)\<rparr>"
proof -
  obtain payload blob cred where payload: "build_payload body = Inr payload"
    and blob: "encrypt_payload env cp payload = Inr blob"
    and cred: "cred = new_credential now new_id (mc_user ctx) (the (mc_slug ctx)) (rq_provider body)
         (rq_type body) blob (rq_base_url body) (rq_default body)"
    and rows': "rows' = inserted now cred rows"
    using upsert_user_inserts [OF assms(1)] by blast
  have "select_default (filter (matching (mc_user ctx) (the (mc_slug ctx)) (rq_provider body)) rows')
      = Some cred"
    unfolding rows' by (rule inserted_default_selected) (simp_all add: cred assms(2))
  moreover have "decrypt_payload env cp blob = Inr (sort_keys (PDict payload))"
    using blob assms(3)
    by (auto simp: encrypt_payload_def decrypt_payload_def bind_r_Inr_iff)
  ultimately show ?thesis using payload
    by (simp add: resolve_llm_credential_def resolved_from_def cred)
qed

lemma stored_credential_is_used_witness:
  "\<exists>payload. build_payload example_body = Inr payload
    \<and> resolve_llm_credential example_env example_cp [example_cred] [] (rq_provider example_body)
         (the (mc_slug example_ctx)) (Some (mc_user example_ctx)) None
      = Inr \<lparr>rc_provider = rq_provider example_body, rc_scope = scope_user,
          rc_payload = sort_keys (PDict payload), rc_base_url = rq_base_url example_body,
          rc_type = Some (rq_type example_body)\<rparr>"
proof (rule stored_credential_is_used [OF example_upsert])
  show "rq_default example_body" by (simp add: example_body_def)
next
  fix enc dec raw blob
  assume "get_cipher example_env example_cp = Inr (enc, dec)" and "enc raw = Inr blob"
  moreover have "get_cipher example_env example_cp = Inr (Inr, Inr)"
    by (simp add: get_cipher_def example_env_def example_cp_def lower_def lower_char_def)
  ultimately show "dec blob = Inr raw" by simp
qed

text \<open>After a default key is replaced and the new default deleted, the resolver falls back to the
  first remaining row in table order, not to the one updated last: clearing the defaults stamped all
  of the remaining rows with one and the same time.\<close>

theorem fallback_after_delete_is_first_row:
  assumes "upsert_user_credential env cp now new_id body ctx rows = Inr (resp, rows1)"
    and "rq_default body" and "new_id \<notin> cred_id ` set rows"
    and "delete_user_credential new_id (mc_user ctx) rows1 = Inr rows2"
  shows "map_option cred_id (select_default
      (filter (matching (mc_user ctx) (the (mc_slug ctx)) (rq_provider body)) rows2))
    = (case filter (matching (mc_user ctx) (the (mc_slug ctx)) (rq_provider body)) rows of
         [] \<Rightarrow> None | r # _ \<Rightarrow> Some (cred_id r))"
proof -
  let ?u = "mc_user ctx" and ?s = "the (mc_slug ctx)" and ?p = "rq_provider body"
  let ?c = "clear_defaults now ?u ?s ?p rows"
  obtain blob cred where
      "cred = new_credential now new_id ?u ?s ?p (rq_type body) blob (rq_base_url body) (rq_default body)"
    and rows1: "rows1 = inserted now cred rows"
    using upsert_user_inserts [OF assms(1)] by blast
  then have cred: "is_default cred" "cred_owner cred = ?u" "cred_slug cred = ?s"
      "cred_provider cred = ?p" "cred_id cred = new_id"
    using assms(2) by simp_all
  have "rows2 = filter (\<lambda>r. cred_id r \<noteq> new_id) rows1"
    using delete_filters [of "Some ?u" new_id rows1 rows2] assms(4)
    by (simp add: delete_user_credential_def)
  moreover have "filter (\<lambda>r. cred_id r \<noteq> new_id) ?c = ?c"
    using assms(3) by (auto simp: filter_id_conv clear_defaults_def)
  ultimately have rows2: "rows2 = ?c" using cred by (simp add: rows1 inserted_def)
  define m where "m = filter (matching ?u ?s ?p) rows"
  have f: "filter (matching ?u ?s ?p) ?c = map (\<lambda>r. r\<lparr>is_default := False, updated_at := now\<rparr>) m"
    unfolding m_def clear_defaults_def by (induction rows) auto
  have sorted: "sort_key (\<lambda>r. - updated_at r) (map (\<lambda>r. r\<lparr>is_default := False, updated_at := now\<rparr>) m)
      = map (\<lambda>r. r\<lparr>is_default := False, updated_at := now\<rparr>) m"
    by (rule sort_key_id_if_sorted) (simp add: sorted_wrt_map)
  have "filter is_default (map (\<lambda>r. r\<lparr>is_default := False, updated_at := now\<rparr>) m) = []"
    by (rule filter_map_none) simp
  then have "select_default (map (\<lambda>r. r\<lparr>is_default := False, updated_at := now\<rparr>) m)
      = (if m = [] then None else Some (hd (map (\<lambda>r. r\<lparr>is_default := False, updated_at := now\<rparr>) m)))"
    unfolding select_default_def by (simp only: sorted) simp
  then show ?thesis unfolding rows2 f m_def [symmetric] by (cases m) simp_all
qed

lemma fallback_after_delete_is_first_row_witness:
  "map_option cred_id (select_default
      (filter (matching (mc_user example_ctx) (the (mc_slug example_ctx)) (rq_provider example_body))
        [example_cred\<lparr>cred_id := 5, is_default := False\<rparr>]))
    = (case filter (matching (mc_user example_ctx) (the (mc_slug example_ctx)) (rq_provider example_body))
          [example_cred\<lparr>cred_id := 5, updated_at := 50\<rparr>] of
         [] \<Rightarrow> None | r # _ \<Rightarrow> Some (cred_id r))"
proof (rule fallback_after_delete_is_first_row)
  show "upsert_user_credential example_env example_cp 100 1 example_body example_ctx
      [example_cred\<lparr>cred_id := 5, updated_at := 50\<rparr>]
    = Inr (to_response example_cred, [example_cred\<lparr>cred_id := 5, is_default := False\<rparr>, example_cred])"
    by code_simp
  show "delete_user_credential 1 (mc_user example_ctx)
      [example_cred\<lparr>cred_id := 5, is_default := False\<rparr>, example_cred]
    = Inr [example_cred\<lparr>cred_id := 5, is_default := False\<rparr>]"
    by code_simp
qed (simp_all add: example_body_def)

text \<open>Injection changes nothing but the API key and the base URL of the provider, nothing at all when
  the recorded scope is the system's, and of the request context only the recorded scope; a failing
  resolution falls back to the system provider.\<close>

theorem injection_frame:
  assumes "maybe_override_provider env cp users orgs ctx provider = (ctx', r)"
  shows "ctx' = ctx\<lparr>llm_credential_scope_ctx := llm_credential_scope_ctx ctx'\<rparr>
    \<and> (llm_credential_scope_ctx ctx' = Some scope_system \<longrightarrow> r = Inr provider)
    \<and> (\<forall>e. resolve_llm_credential env cp users orgs (lp_provider provider)
             (the (product_slug_ctx ctx)) (user_id_ctx ctx) (org_id_ctx ctx) = Inl e
           \<longrightarrow> r = Inr provider \<and> llm_credential_scope_ctx ctx' = Some scope_system)
    \<and> (\<forall>p. r = Inr p \<longrightarrow> lp_provider p = lp_provider provider \<and> lp_rest p = lp_rest provider)"
  using assms
  by (auto simp: maybe_override_provider_def Let_def bind_r_Inr_iff split: if_splits sum.splits)

lemma injection_frame_witness:
  "let ctx = empty_ctx\<lparr>product_slug_ctx := Some ''eng'', user_id_ctx := Some 7\<rparr>;
       view = \<lparr>lp_provider = ''openai'', lp_api_key = PStr ''sys'', lp_api_base = None, lp_rest = ()\<rparr>;
       out = maybe_override_provider example_env example_cp [example_cred] [] ctx view in
    fst out = ctx\<lparr>llm_credential_scope_ctx := Some scope_user\<rparr>
    \<and> snd out = Inr (view\<lparr>lp_api_key := PStr ''sk-1''\<rparr>)
    \<and> (\<forall>p. snd out = Inr p \<longrightarrow> lp_provider p = lp_provider view \<and> lp_rest p = lp_rest view)"
proof -
  let ?ctx = "empty_ctx\<lparr>product_slug_ctx := Some ''eng'', user_id_ctx := Some 7\<rparr>"
  let ?view = "\<lparr>lp_provider = ''openai'', lp_api_key = PStr ''sys'', lp_api_base = None, lp_rest = ()\<rparr>"
  have e: "maybe_override_provider example_env example_cp [example_cred] [] ?ctx ?view
      = (?ctx\<lparr>llm_credential_scope_ctx := Some scope_user\<rparr>, Inr (?view\<lparr>lp_api_key := PStr ''sk-1''\<rparr>))"
    by code_simp
  show ?thesis using injection_frame [OF e] by (simp add: Let_def e)
qed

end
