(* ===== verification/Access.thy ===== *)
theory Access
  imports PyValue
begin

text \<open>
  Document access control: \<open>onyx/access/models.py\<close>, \<open>utils.py\<close> and \<open>access.py\<close>, their enterprise
  versions in \<open>ee/onyx/access/access.py\<close>, and the queries they rest on in \<open>onyx/db/document.py\<close>,
  \<open>ee/onyx/db/user_group.py\<close> and \<open>ee/onyx/db/external_perm.py\<close>.  A table is the list of its rows
  and a query the comprehension its joins and conditions describe; \<open>GROUP BY\<close> lists the groups in
  the order of their first rows.
\<close>

section \<open>Access control entries\<close>

definition public_doc_pat :: string where "public_doc_pat = ''PUBLIC''"

definition prefix_user_email :: "string \<Rightarrow> string" where
  "prefix_user_email user_email = ''user_email:'' @ user_email"

definition prefix_user_group :: "string \<Rightarrow> string" where
  "prefix_user_group user_group_name = ''group:'' @ user_group_name"

definition prefix_external_group :: "string \<Rightarrow> string" where
  "prefix_external_group ext_group_name = ''external_group:'' @ ext_group_name"

lemma prefix_inj [simp]:
  "prefix_user_email a = prefix_user_email b \<longleftrightarrow> a = b"
  "prefix_user_group a = prefix_user_group b \<longleftrightarrow> a = b"
  "prefix_external_group a = prefix_external_group b \<longleftrightarrow> a = b"
  by (simp_all add: prefix_user_email_def prefix_user_group_def prefix_external_group_def)

lemma prefix_apart [simp]:
  "prefix_user_email a \<noteq> prefix_user_group b" "prefix_user_group b \<noteq> prefix_user_email a"
  "prefix_user_email a \<noteq> prefix_external_group b" "prefix_external_group b \<noteq> prefix_user_email a"
  "prefix_user_group a \<noteq> prefix_external_group b" "prefix_external_group b \<noteq> prefix_user_group a"
  "prefix_user_email a \<noteq> public_doc_pat" "public_doc_pat \<noteq> prefix_user_email a"
  "prefix_user_group a \<noteq> public_doc_pat" "public_doc_pat \<noteq> prefix_user_group a"
  "prefix_external_group a \<noteq> public_doc_pat" "public_doc_pat \<noteq> prefix_external_group a"
  by (simp_all add: prefix_user_email_def prefix_user_group_def prefix_external_group_def
      public_doc_pat_def)

text \<open>\<open>DocumentSource\<close> is a string enumeration; a source is its value.\<close>

definition document_sources :: "string list" where
  "document_sources =
    [''ingestion_api'', ''slack'', ''web'', ''google_drive'', ''gmail'', ''github'', ''gitbook'',
     ''gitlab'', ''guru'', ''bookstack'', ''outline'', ''confluence'', ''jira'', ''slab'',
     ''productboard'', ''file'', ''coda'', ''canvas'', ''notion'', ''zulip'', ''linear'',
     ''hubspot'', ''document360'', ''gong'', ''google_sites'', ''zendesk'', ''loopio'', ''dropbox'',
     ''sharepoint'', ''teams'', ''salesforce'', ''discourse'', ''axero'', ''clickup'',
     ''mediawiki'', ''wikipedia'', ''asana'', ''s3'', ''r2'', ''google_cloud_storage'',
     ''oci_storage'', ''xenforo'', ''not_applicable'', ''discord'', ''freshdesk'', ''fireflies'',
     ''egnyte'', ''airtable'', ''highspot'', ''drupal_wiki'', ''imap'', ''bitbucket'',
     ''testrail'', ''braintrust'', ''mock_connector'', ''user_file'', ''craft_file'']"

definition build_ext_group_name_for_onyx :: "string \<Rightarrow> string \<Rightarrow> string" where
  "build_ext_group_name_for_onyx ext_group_name source = lower (source @ ''_'' @ ext_group_name)"

section \<open>External access and its wire format\<close>

record external_access =
  external_user_emails :: "string set"
  external_user_group_ids :: "string set"
  is_public :: bool

definition num_entries :: "external_access \<Rightarrow> nat" where
  "num_entries a = card (external_user_emails a) + card (external_user_group_ids a)"

definition external_public :: external_access where
  "external_public = \<lparr>external_user_emails = {}, external_user_group_ids = {}, is_public = True\<rparr>"

definition external_empty :: external_access where
  "external_empty = \<lparr>external_user_emails = {}, external_user_group_ids = {}, is_public = False\<rparr>"

record doc_external_access =
  dea_access :: external_access
  dea_doc_id :: string

record node_external_access =
  nea_access :: external_access
  nea_raw_node_id :: string
  nea_source :: string

text \<open>\<open>list(s)\<close> enumerates a set in an order of its own: \<open>enum\<close> is that enumeration.\<close>

definition access_to_dict :: "(string set \<Rightarrow> string list) \<Rightarrow> external_access \<Rightarrow> pyval" where
  "access_to_dict enum a = PDict
     [(''external_user_emails'', PList (map PStr (enum (external_user_emails a)))),
      (''external_user_group_ids'', PList (map PStr (enum (external_user_group_ids a)))),
      (''is_public'', PBool (is_public a))]"

definition doc_access_to_dict :: "(string set \<Rightarrow> string list) \<Rightarrow> doc_external_access \<Rightarrow> pyval" where
  "doc_access_to_dict enum d = PDict
     [(''external_access'', access_to_dict enum (dea_access d)), (''doc_id'', PStr (dea_doc_id d))]"

definition node_access_to_dict :: "(string set \<Rightarrow> string list) \<Rightarrow> node_external_access \<Rightarrow> pyval" where
  "node_access_to_dict enum n = PDict
     [(''external_access'', access_to_dict enum (nea_access n)),
      (''raw_node_id'', PStr (nea_raw_node_id n)), (''source'', PStr (nea_source n))]"

text \<open>A data class checks no types: what \<open>from_dict\<close> reads is kept as the values it finds.\<close>

record raw_access =
  raw_emails :: "pyval set"
  raw_groups :: "pyval set"
  raw_public :: pyval

definition py_item :: "pyval \<Rightarrow> string \<Rightarrow> pyval result" where
  "py_item x k = (case x of
       PDict kvs \<Rightarrow> (case dict_get kvs k of Some v \<Rightarrow> Inr v | None \<Rightarrow> Inl KeyError)
     | _ \<Rightarrow> Inl TypeError)"

definition access_from_dict :: "pyval \<Rightarrow> raw_access result" where
  "access_from_dict data =
     bind_r (py_item data ''external_access'') (\<lambda>ea.
     bind_r (pv_get ea ''external_user_emails'' (PList [])) (\<lambda>emails.
     bind_r (py_set emails) (\<lambda>emails'.
     bind_r (pv_get ea ''external_user_group_ids'' (PList [])) (\<lambda>groups.
     bind_r (py_set groups) (\<lambda>groups'.
     bind_r (py_item ea ''is_public'') (\<lambda>pub.
       Inr \<lparr>raw_emails = emails', raw_groups = groups', raw_public = pub\<rparr>))))))"

definition doc_access_from_dict :: "pyval \<Rightarrow> (raw_access \<times> pyval) result" where
  "doc_access_from_dict data =
     bind_r (access_from_dict data) (\<lambda>a.
     bind_r (py_item data ''doc_id'') (\<lambda>d. Inr (a, d)))"

definition node_access_from_dict :: "pyval \<Rightarrow> (raw_access \<times> pyval \<times> pyval) result" where
  "node_access_from_dict data =
     bind_r (access_from_dict data) (\<lambda>a.
     bind_r (py_item data ''raw_node_id'') (\<lambda>n.
     bind_r (py_item data ''source'') (\<lambda>s. Inr (a, n, s))))"

definition raw_of :: "external_access \<Rightarrow> raw_access" where
  "raw_of a = \<lparr>raw_emails = PStr ` external_user_emails a,
     raw_groups = PStr ` external_user_group_ids a, raw_public = PBool (is_public a)\<rparr>"

section \<open>Document access\<close>

record document_access = external_access +
  user_emails :: "string option set"
  user_groups :: "string set"

text \<open>\<open>DocumentAccess.build\<close> turns each iterable into a set.\<close>

definition build_access ::
  "string option set \<Rightarrow> string set \<Rightarrow> string set \<Rightarrow> string set \<Rightarrow> bool \<Rightarrow> document_access" where
  "build_access emails groups ext_emails ext_groups public =
     \<lparr>external_user_emails = ext_emails, external_user_group_ids = ext_groups, is_public = public,
      user_emails = Set.filter truthy emails, user_groups = groups\<rparr>"

definition to_acl :: "document_access \<Rightarrow> string set" where
  "to_acl a =
     (prefix_user_email \<circ> the) ` Set.filter truthy (user_emails a)
     \<union> prefix_user_group ` user_groups a
     \<union> prefix_user_email ` external_user_emails a
     \<union> prefix_external_group ` external_user_group_ids a
     \<union> (if is_public a then {public_doc_pat} else {})"

definition default_public_access :: document_access where
  "default_public_access = build_access {} {} {} {} True"

definition get_null_document_access :: document_access where
  "get_null_document_access = build_access {} {} {} {} False"

lemma to_acl_iff [dict_simps]:
  "prefix_user_email e \<in> to_acl a
     \<longleftrightarrow> (e \<noteq> [] \<and> Some e \<in> user_emails a) \<or> e \<in> external_user_emails a"
  "prefix_user_group g \<in> to_acl a \<longleftrightarrow> g \<in> user_groups a"
  "prefix_external_group x \<in> to_acl a \<longleftrightarrow> x \<in> external_user_group_ids a"
  "public_doc_pat \<in> to_acl a \<longleftrightarrow> is_public a"
  by (auto simp: to_acl_def image_iff elim!: truthyE)

lemma build_access_sel [simp]:
  "external_user_emails (build_access e g xe xg p) = xe"
  "external_user_group_ids (build_access e g xe xg p) = xg"
  "is_public (build_access e g xe xg p) = p"
  "user_emails (build_access e g xe xg p) = Set.filter truthy e"
  "user_groups (build_access e g xe xg p) = g"
  by (simp_all add: build_access_def)

section \<open>Tables\<close>

datatype access_type = PUBLIC | PRIVATE | SYNC

datatype cc_pair_status = SCHEDULED | INITIAL_INDEXING | ACTIVE | PAUSED | DELETING | INVALID

record user_row =
  usr_id :: uuid
  usr_email :: string

definition anonymous_user_uuid :: uuid where "anonymous_user_uuid = 2"

definition is_anonymous :: "user_row \<Rightarrow> bool" where
  "is_anonymous u \<longleftrightarrow> usr_id u = anonymous_user_uuid"

record document_row =
  doc_id :: string
  doc_external_emails :: "string list option"
  doc_external_groups :: "string list option"
  doc_public :: bool
  doc_file_id :: "string option"

record doc_by_cc_row =
  dcc_id :: string
  dcc_connector :: int
  dcc_credential :: int

record cc_pair_row =
  ccp_id :: int
  ccp_connector :: int
  ccp_credential :: int
  ccp_access :: access_type
  ccp_status :: cc_pair_status

record credential_row =
  crd_id :: int
  crd_user :: "uuid option"

record connector_row =
  con_id :: int
  con_source :: string
  con_file_locations :: "string list option"

record user_group_row =
  ugr_id :: int
  ugr_name :: string

record group_cc_row =
  gcc_group :: int
  gcc_cc_pair :: int
  gcc_current :: bool

record membership_row =
  mem_user :: uuid
  mem_group :: int

record user_ext_group_row =
  xug_user :: uuid
  xug_group :: string
  xug_cc_pair :: int
  xug_stale :: bool

record public_ext_group_row =
  xpg_group :: string
  xpg_cc_pair :: int
  xpg_stale :: bool

record access_db =
  t_users :: "user_row list"
  t_documents :: "document_row list"
  t_doc_by_cc :: "doc_by_cc_row list"
  t_cc_pairs :: "cc_pair_row list"
  t_credentials :: "credential_row list"
  t_connectors :: "connector_row list"
  t_user_groups :: "user_group_row list"
  t_group_cc :: "group_cc_row list"
  t_memberships :: "membership_row list"
  t_user_ext_groups :: "user_ext_group_row list"
  t_public_ext_groups :: "public_ext_group_row list"

section \<open>Queries\<close>

definition cc_match :: "doc_by_cc_row \<Rightarrow> cc_pair_row \<Rightarrow> bool" where
  "cc_match d c \<longleftrightarrow> dcc_connector d = ccp_connector c \<and> dcc_credential d = ccp_credential c"

text \<open>The outer join with the owner of the credential: one row of \<open>NULL\<close> when none matches.\<close>

definition credential_owners :: "access_db \<Rightarrow> credential_row \<Rightarrow> cc_pair_row \<Rightarrow> string option list" where
  "credential_owners db k c =
     (let us = [Some (usr_email u). u \<leftarrow> t_users db, crd_user k = Some (usr_id u) \<and> ccp_access c \<noteq> SYNC]
      in if us = [] then [None] else us)"

definition access_info_rows :: "access_db \<Rightarrow> string list \<Rightarrow> (string \<times> string option \<times> bool) list" where
  "access_info_rows db document_ids =
     [(dcc_id d, e, ccp_access c = PUBLIC).
        d \<leftarrow> t_doc_by_cc db, dcc_id d \<in> set document_ids,
        k \<leftarrow> t_credentials db, dcc_credential d = crd_id k,
        c \<leftarrow> t_cc_pairs db, cc_match d c \<and> ccp_status c \<noteq> DELETING,
        e \<leftarrow> credential_owners db k c]"

definition get_access_info_for_documents ::
  "access_db \<Rightarrow> string list \<Rightarrow> (string \<times> string option list \<times> bool) list" where
  "get_access_info_for_documents db document_ids =
     (let rows = access_info_rows db document_ids in
      map (\<lambda>i. (i, map (fst \<circ> snd) (filter (\<lambda>r. fst r = i) rows),
                list_ex (\<lambda>r. fst r = i \<and> snd (snd r)) rows))
        (remdups (map fst rows)))"

definition get_access_info_for_document ::
  "access_db \<Rightarrow> string \<Rightarrow> (string \<times> string option list \<times> bool) option" where
  "get_access_info_for_document db document_id =
     (case get_access_info_for_documents db [document_id] of [] \<Rightarrow> None | r # _ \<Rightarrow> Some r)"

definition get_documents_by_ids :: "access_db \<Rightarrow> string list \<Rightarrow> document_row list" where
  "get_documents_by_ids db document_ids = [d \<leftarrow> t_documents db. doc_id d \<in> set document_ids]"

text \<open>The later of two rows of one document wins in the comprehension over the result.\<close>

definition get_document_sources :: "access_db \<Rightarrow> string list \<Rightarrow> (string, string) dict" where
  "get_document_sources db document_ids = dict_update []
     (remdups [(dcc_id d, con_source n).
        d \<leftarrow> t_doc_by_cc db, c \<leftarrow> t_cc_pairs db, cc_match d c,
        n \<leftarrow> t_connectors db, ccp_connector c = con_id n \<and> dcc_id d \<in> set document_ids])"

definition group_rows :: "access_db \<Rightarrow> string list \<Rightarrow> (string \<times> string) list" where
  "group_rows db document_ids =
     [(doc_id x, ugr_name g).
        g \<leftarrow> t_user_groups db, b \<leftarrow> t_group_cc db, ugr_id g = gcc_group b \<and> gcc_current b,
        c \<leftarrow> t_cc_pairs db,
          ccp_id c = gcc_cc_pair b \<and> ccp_access c \<noteq> SYNC \<and> ccp_status c \<noteq> DELETING,
        d \<leftarrow> t_doc_by_cc db, cc_match d c,
        x \<leftarrow> t_documents db, doc_id x = dcc_id d \<and> doc_id x \<in> set document_ids]"

definition fetch_user_groups_for_documents ::
  "access_db \<Rightarrow> string list \<Rightarrow> (string \<times> string list) list" where
  "fetch_user_groups_for_documents db document_ids =
     (let rows = group_rows db document_ids in
      map (\<lambda>i. (i, map snd (filter (\<lambda>r. fst r = i) rows))) (remdups (map fst rows)))"

definition fetch_user_groups_for_user :: "access_db \<Rightarrow> uuid \<Rightarrow> user_group_row list" where
  "fetch_user_groups_for_user db user_id = remdups
     [g. g \<leftarrow> t_user_groups db, m \<leftarrow> t_memberships db, mem_group m = ugr_id g,
        u \<leftarrow> t_users db, usr_id u = mem_user m \<and> usr_id u = user_id]"

definition fetch_external_groups_for_user :: "access_db \<Rightarrow> uuid \<Rightarrow> user_ext_group_row list" where
  "fetch_external_groups_for_user db user_id = [x \<leftarrow> t_user_ext_groups db. xug_user x = user_id]"

definition fetch_public_external_group_ids :: "access_db \<Rightarrow> string list" where
  "fetch_public_external_group_ids db = map xpg_group (t_public_ext_groups db)"

section \<open>Permission synchronisation of the sources\<close>

text \<open>
  \<open>SyncConfig\<close>: of a document sync the flag \<open>initial_index_should_sync\<close>, of a group sync
  \<open>group_sync_is_cc_pair_agnostic\<close>, of censoring its presence; the synchronising functions and
  their frequencies play no role here.
\<close>

record sync_config =
  doc_sync_config :: "bool option"
  group_sync_config :: "bool option"
  censoring_config :: "unit option"

definition source_to_sync_config :: "(string, sync_config) dict" where
  "source_to_sync_config =
    [(''google_drive'', \<lparr>doc_sync_config = Some True, group_sync_config = Some False, censoring_config = None\<rparr>),
     (''confluence'', \<lparr>doc_sync_config = Some False, group_sync_config = Some True, censoring_config = None\<rparr>),
     (''jira'', \<lparr>doc_sync_config = Some True, group_sync_config = Some True, censoring_config = None\<rparr>),
     (''slack'', \<lparr>doc_sync_config = Some True, group_sync_config = None, censoring_config = None\<rparr>),
     (''gmail'', \<lparr>doc_sync_config = Some False, group_sync_config = None, censoring_config = None\<rparr>),
     (''github'', \<lparr>doc_sync_config = Some True, group_sync_config = Some False, censoring_config = None\<rparr>),
     (''salesforce'', \<lparr>doc_sync_config = None, group_sync_config = None, censoring_config = Some ()\<rparr>),
     (''mock_connector'', \<lparr>doc_sync_config = Some True, group_sync_config = None, censoring_config = None\<rparr>),
     (''teams'', \<lparr>doc_sync_config = Some True, group_sync_config = None, censoring_config = None\<rparr>),
     (''sharepoint'', \<lparr>doc_sync_config = Some True, group_sync_config = Some False, censoring_config = None\<rparr>)]"

definition source_requires_doc_sync :: "string \<Rightarrow> bool" where
  "source_requires_doc_sync source = (case dict_get source_to_sync_config source of
       None \<Rightarrow> False | Some c \<Rightarrow> doc_sync_config c \<noteq> None)"

definition source_requires_external_group_sync :: "string \<Rightarrow> bool" where
  "source_requires_external_group_sync source = (case dict_get source_to_sync_config source of
       None \<Rightarrow> False | Some c \<Rightarrow> group_sync_config c \<noteq> None)"

definition get_source_perm_sync_config :: "string \<Rightarrow> sync_config option" where
  "get_source_perm_sync_config source = dict_get source_to_sync_config source"

definition source_group_sync_is_cc_pair_agnostic :: "string \<Rightarrow> bool" where
  "source_group_sync_is_cc_pair_agnostic source = (case dict_get source_to_sync_config source of
       None \<Rightarrow> False
     | Some c \<Rightarrow> (case group_sync_config c of None \<Rightarrow> False | Some agnostic \<Rightarrow> agnostic))"

definition get_all_cc_pair_agnostic_group_sync_sources :: "string set" where
  "get_all_cc_pair_agnostic_group_sync_sources =
     set (map fst (filter (\<lambda>(_, c). group_sync_config c = Some True) source_to_sync_config))"

definition check_if_valid_sync_source :: "string \<Rightarrow> bool" where
  "check_if_valid_sync_source source \<longleftrightarrow> dict_get source_to_sync_config source \<noteq> None"

definition get_all_censoring_enabled_sources :: "string set" where
  "get_all_censoring_enabled_sources =
     set (map fst (filter (\<lambda>(_, c). censoring_config c \<noteq> None) source_to_sync_config))"

definition source_should_fetch_permissions_during_indexing :: "string \<Rightarrow> bool" where
  "source_should_fetch_permissions_during_indexing source =
     (case dict_get source_to_sync_config source of
       None \<Rightarrow> False
     | Some c \<Rightarrow> (case doc_sync_config c of None \<Rightarrow> False | Some initial \<Rightarrow> initial))"

section \<open>Access of documents\<close>

text \<open>\<open>onyx/access/access.py\<close>\<close>

definition get_access_for_document_mit :: "access_db \<Rightarrow> string \<Rightarrow> document_access" where
  "get_access_for_document_mit db document_id =
     (case get_access_info_for_document db document_id of
       None \<Rightarrow> build_access {} {} {} {} False
     | Some (_, emails, public) \<Rightarrow> build_access (set emails) {} {} {} public)"

definition indexed_access :: "access_db \<Rightarrow> string list \<Rightarrow> (string, document_access) dict" where
  "indexed_access db document_ids = dict_update []
     (map (\<lambda>(i, emails, public). (i, build_access (set (filter truthy emails)) {} {} {} public))
        (get_access_info_for_documents db document_ids))"

fun fill_missing ::
  "string list \<Rightarrow> (string, document_access) dict \<Rightarrow> (string, document_access) dict" where
  "fill_missing [] acc = acc"
| "fill_missing (i # is) acc = fill_missing is
     (if dict_get acc i = None then dict_set i get_null_document_access acc else acc)"

definition get_access_for_documents_mit ::
  "access_db \<Rightarrow> string list \<Rightarrow> (string, document_access) dict" where
  "get_access_for_documents_mit db document_ids =
     fill_missing document_ids (indexed_access db document_ids)"

text \<open>\<open>ee/onyx/access/access.py\<close>: the superset with groups and synchronised permissions.\<close>

definition is_only_censored :: "string \<Rightarrow> bool" where
  "is_only_censored source = (case get_source_perm_sync_config source of
       None \<Rightarrow> False
     | Some c \<Rightarrow> censoring_config c \<noteq> None \<and> doc_sync_config c = None)"

definition opt_set :: "string list option \<Rightarrow> string set" where
  "opt_set x = (case x of None \<Rightarrow> {} | Some xs \<Rightarrow> set xs)"

definition ee_document_access ::
  "string set \<Rightarrow> string list \<Rightarrow> document_row \<Rightarrow> string \<Rightarrow> document_access \<Rightarrow> document_access" where
  "ee_document_access all_public group_names document source base =
    (let ext_u_emails = opt_set (doc_external_emails document);
         ext_u_groups = opt_set (doc_external_groups document);
         is_public_anywhere = (doc_public document \<or> is_public base \<or> is_only_censored source
            \<or> ext_u_groups \<inter> all_public \<noteq> {})
     in build_access (user_emails base) (set group_names) ext_u_emails ext_u_groups is_public_anywhere)"

fun ee_access_loop ::
  "string set \<Rightarrow> (string, string list) dict \<Rightarrow> (string, document_row) dict \<Rightarrow> (string, string) dict
     \<Rightarrow> (string, document_access) dict \<Rightarrow> (string, document_access) dict
     \<Rightarrow> (string, document_access) dict result" where
  "ee_access_loop all_public groups docs sources [] access_map = Inr access_map"
| "ee_access_loop all_public groups docs sources ((i, base) # rest) access_map =
     (case dict_get docs i of
       None \<Rightarrow> Inl KeyError
     | Some document \<Rightarrow>
        (case dict_get sources i of
          None \<Rightarrow> ee_access_loop all_public groups docs sources rest access_map
        | Some source \<Rightarrow> ee_access_loop all_public groups docs sources rest
            (dict_set i (ee_document_access all_public
               (case dict_get groups i of None \<Rightarrow> [] | Some ns \<Rightarrow> ns) document source base)
             access_map)))"

definition get_access_for_documents_ee ::
  "access_db \<Rightarrow> string list \<Rightarrow> (string, document_access) dict result" where
  "get_access_for_documents_ee db document_ids =
     ee_access_loop (set (fetch_public_external_group_ids db))
       (dict_update [] (fetch_user_groups_for_documents db document_ids))
       (dict_update [] (map (\<lambda>d. (doc_id d, d)) (get_documents_by_ids db document_ids)))
       (get_document_sources db document_ids)
       (get_access_for_documents_mit db document_ids) []"

definition get_access_for_document_ee :: "access_db \<Rightarrow> string \<Rightarrow> document_access result" where
  "get_access_for_document_ee db document_id =
     bind_r (get_access_for_documents_ee db [document_id]) (\<lambda>m.
       Inr (case m of [] \<Rightarrow> build_access {} {} {} {} False | (_, a) # _ \<Rightarrow> a))"

section \<open>Access control list of a user\<close>

definition get_acl_for_user_mit :: "user_row \<Rightarrow> string set" where
  "get_acl_for_user_mit u =
     (if is_anonymous u then {public_doc_pat} else {prefix_user_email (usr_email u), public_doc_pat})"

definition get_acl_for_user_ee :: "access_db \<Rightarrow> user_row \<Rightarrow> string set" where
  "get_acl_for_user_ee db u =
    (let db_user_groups = (if is_anonymous u then [] else fetch_user_groups_for_user db (usr_id u));
         db_external_groups = (if is_anonymous u then [] else fetch_external_groups_for_user db (usr_id u))
     in set (map (prefix_user_group \<circ> ugr_name) db_user_groups
             @ map (prefix_external_group \<circ> xug_group) db_external_groups)
        \<union> get_acl_for_user_mit u)"

section \<open>Access of user files\<close>

record file_persona =
  fp_deleted :: bool
  fp_public :: bool
  fp_owner :: "string option"
  fp_shared :: "string list"
  fp_groups :: "string list"

text \<open>\<open>fp_owner\<close> is the address of \<open>persona.user\<close> when both \<open>user_id\<close> and \<open>user\<close> are set.\<close>

record user_file =
  uf_id :: uuid
  uf_owner :: "string option"
  uf_assistants :: "file_persona list"

fun collect_assistants :: "file_persona list \<Rightarrow> string set \<times> bool \<Rightarrow> string set \<times> bool" where
  "collect_assistants [] acc = acc"
| "collect_assistants (p # ps) (emails, public) = collect_assistants ps
     (if fp_deleted p then (emails, public)
      else ((case fp_owner p of None \<Rightarrow> emails | Some e \<Rightarrow> insert e emails) \<union> set (fp_shared p),
            public \<or> fp_public p))"

definition collect_user_file_access :: "user_file \<Rightarrow> (string set \<times> bool) result" where
  "collect_user_file_access f = (case uf_owner f of
       None \<Rightarrow> Inl AttributeError
     | Some e \<Rightarrow> Inr (collect_assistants (uf_assistants f) ({e}, False)))"

definition collect_user_file_group_names :: "user_file \<Rightarrow> string set" where
  "collect_user_file_group_names f =
     (\<Union>p \<in> set (filter (\<lambda>p. \<not> fp_deleted p) (uf_assistants f)). set (fp_groups p))"

fun build_access_for_user_files_mit ::
  "user_file list \<Rightarrow> (string, document_access) dict \<Rightarrow> (string, document_access) dict result" where
  "build_access_for_user_files_mit [] result = Inr result"
| "build_access_for_user_files_mit (f # fs) result =
     bind_r (collect_user_file_access f) (\<lambda>(emails, public).
       build_access_for_user_files_mit fs
         (dict_set (uuid_str (uf_id f)) (build_access (Some ` emails) {} {} {} public) result))"

fun build_access_for_user_files_ee ::
  "user_file list \<Rightarrow> (string, document_access) dict \<Rightarrow> (string, document_access) dict result" where
  "build_access_for_user_files_ee [] result = Inr result"
| "build_access_for_user_files_ee (f # fs) result =
     (if uf_owner f = None
      then build_access_for_user_files_ee fs
         (dict_set (uuid_str (uf_id f)) (build_access {} {} {} {} True) result)
      else bind_r (collect_user_file_access f) (\<lambda>(emails, public).
        build_access_for_user_files_ee fs
          (dict_set (uuid_str (uf_id f))
             (build_access (Some ` emails) (collect_user_file_group_names f) {} {} public) result)))"

section \<open>Lookups in the access maps\<close>

lemma dict_update_map_get:
  "dict_get (dict_update d (map (\<lambda>x. (f x, g x)) xs)) k
     = (if k \<in> f ` set xs then Some (g (last (filter (\<lambda>x. f x = k) xs))) else dict_get d k)"
proof (induction xs arbitrary: d)
  case (Cons x xs)
  have "filter (\<lambda>x. f x = k) xs \<noteq> []" if "k \<in> f ` set xs"
    using that by (auto simp: filter_empty_conv)
  with Cons show ?case by (auto simp: filter_empty_conv)
qed simp

lemma remdups_fst_groups:
  "i \<in> fst ` set rows \<Longrightarrow> filter (\<lambda>x. x = i) (remdups (map fst rows)) = [i]"
proof -
  have "i \<in> set xs \<Longrightarrow> filter (\<lambda>x. x = i) (remdups xs) = [i]" for xs :: "'a list"
  proof (induction xs)
    case (Cons x xs)
    have "i \<notin> set xs \<Longrightarrow> filter (\<lambda>x. x = i) (remdups xs) = []" by (auto simp: filter_empty_conv)
    with Cons show ?case by auto
  qed simp
  then show "i \<in> fst ` set rows \<Longrightarrow> filter (\<lambda>x. x = i) (remdups (map fst rows)) = [i]" by simp
qed

lemma grouped_get:
  "dict_get (dict_update [] (map (\<lambda>i. (i, g i)) (remdups (map fst rows)))) i
     = (if i \<in> fst ` set rows then Some (g i) else None)"
  by (simp add: dict_update_map_get remdups_fst_groups)

definition base_access :: "(string \<times> string option \<times> bool) list \<Rightarrow> string \<Rightarrow> document_access" where
  "base_access rows i = build_access
     {e. truthy e \<and> (\<exists>p. (i, e, p) \<in> set rows)} {} {} {} (\<exists>e. (i, e, True) \<in> set rows)"

lemma indexed_access_get:
  "dict_get (indexed_access db ids) i = (if i \<in> fst ` set (access_info_rows db ids)
     then Some (base_access (access_info_rows db ids) i) else None)"
proof -
  let ?rows = "access_info_rows db ids"
  have "build_access (set (filter truthy (map (fst \<circ> snd) (filter (\<lambda>r. fst r = j) ?rows)))) {} {} {}
      (list_ex (\<lambda>r. fst r = j \<and> snd (snd r)) ?rows) = base_access ?rows j" for j
    unfolding base_access_def
    by (rule arg_cong2 [where f = "\<lambda>a b. build_access a {} {} {} b"])
      (force simp: list_ex_iff image_iff)+
  then have "map (\<lambda>(i, emails, public). (i, build_access (set (filter truthy emails)) {} {} {} public))
      (get_access_info_for_documents db ids)
      = map (\<lambda>i. (i, base_access ?rows i)) (remdups (map fst ?rows))"
    by (simp add: get_access_info_for_documents_def Let_def comp_def)
  then show ?thesis by (simp add: indexed_access_def grouped_get)
qed

lemma base_access_absent:
  "i \<notin> fst ` set rows \<Longrightarrow> base_access rows i = get_null_document_access"
  by (force simp: base_access_def get_null_document_access_def image_iff
      intro!: arg_cong2 [where f = "\<lambda>a b. build_access a {} {} {} b"])

lemma fill_missing_get:
  "dict_get (fill_missing is acc) i = (case dict_get acc i of Some a \<Rightarrow> Some a
     | None \<Rightarrow> if i \<in> set is then Some get_null_document_access else None)"
  by (induction "is" acc rule: fill_missing.induct) (auto split: option.splits)

lemma mit_access_get:
  "i \<in> set ids \<Longrightarrow> dict_get (get_access_for_documents_mit db ids) i
     = Some (base_access (access_info_rows db ids) i)"
  by (simp add: get_access_for_documents_mit_def fill_missing_get indexed_access_get
      base_access_absent)

lemma access_info_rows_ids: "i \<in> fst ` set (access_info_rows db ids) \<Longrightarrow> i \<in> set ids"
  by (auto simp: access_info_rows_def)

lemma mit_access_keys: "fst ` set (get_access_for_documents_mit db ids) = set ids"
proof -
  have "i \<in> fst ` set (get_access_for_documents_mit db ids) \<longleftrightarrow> i \<in> set ids" for i
    using dict_get_None_iff [of "get_access_for_documents_mit db ids" i] access_info_rows_ids [of i]
    by (auto simp: get_access_for_documents_mit_def fill_missing_get indexed_access_get
        split: if_splits)
  then show ?thesis by blast
qed

lemma fill_missing_distinct: "distinct (dict_keys acc) \<Longrightarrow> distinct (dict_keys (fill_missing is acc))"
  by (induction "is" acc rule: fill_missing.induct) auto

lemma mit_access_distinct: "distinct (dict_keys (get_access_for_documents_mit db ids))"
  by (simp add: get_access_for_documents_mit_def fill_missing_distinct indexed_access_def)

lemma ee_loop_succeeds:
  "(\<exists>m. ee_access_loop pub gs docs srcs base acc = Inr m) \<longleftrightarrow>
     (\<forall>i \<in> fst ` set base. dict_get docs i \<noteq> None)"
proof (induction pub gs docs srcs base acc rule: ee_access_loop.induct)
  case (2 pub gs docs srcs j base rest acc)
  show ?case
  proof (cases "dict_get docs j")
    case (Some d)
    with "2.IH" show ?thesis by (cases "dict_get srcs j") simp_all
  qed simp
qed simp

lemma ee_loop_get:
  "ee_access_loop pub gs docs srcs base acc = Inr m \<Longrightarrow> distinct (dict_keys base) \<Longrightarrow>
   dict_get m i = (case dict_get base i of None \<Rightarrow> dict_get acc i
     | Some b \<Rightarrow> (case dict_get srcs i of None \<Rightarrow> dict_get acc i
         | Some s \<Rightarrow> Some (ee_document_access pub
             (case dict_get gs i of None \<Rightarrow> [] | Some ns \<Rightarrow> ns) (the (dict_get docs i)) s b)))"
proof (induction pub gs docs srcs base acc rule: ee_access_loop.induct)
  case (2 pub gs docs srcs j base rest acc)
  have "dict_get rest j = None" using "2.prems" by (auto simp: dict_get_None_iff)
  then show ?case using "2.IH" "2.prems" by (auto split: option.splits if_splits)
qed simp

lemma documents_get:
  assumes "distinct (map doc_id (t_documents db))" "d \<in> set (t_documents db)" "doc_id d \<in> set ids"
  shows "dict_get (dict_update [] (map (\<lambda>d. (doc_id d, d)) (get_documents_by_ids db ids))) (doc_id d)
    = Some d"
proof -
  have "filter (\<lambda>x. doc_id x = doc_id d) xs = [d]"
    if "distinct (map doc_id xs)" "d \<in> set xs" for xs
    using that
  proof (induction xs)
    case (Cons x xs)
    have "doc_id x \<notin> doc_id ` set xs" using Cons.prems by simp
    then have "x = d \<Longrightarrow> filter (\<lambda>x. doc_id x = doc_id d) xs = []"
      by (auto simp: filter_empty_conv image_iff)
    with Cons show ?case by auto
  qed simp
  moreover have "distinct (map doc_id (get_documents_by_ids db ids))"
    using assms(1) by (simp add: get_documents_by_ids_def distinct_map_filter)
  moreover have "d \<in> set (get_documents_by_ids db ids)"
    using assms by (simp add: get_documents_by_ids_def)
  ultimately show ?thesis by (simp add: dict_update_map_get)
qed

section \<open>Who may read a document\<close>

text \<open>
  The specification, in terms of the tables: a document is published when one of its connectors that
  is not being deleted is public; its owners are the owners of the credentials of its connectors,
  those under permission synchronisation excepted; a group reads what its current connectors index,
  again those under synchronisation excepted.
\<close>

definition published :: "access_db \<Rightarrow> string \<Rightarrow> bool" where
  "published db i \<longleftrightarrow> (\<exists>d \<in> set (t_doc_by_cc db). \<exists>k \<in> set (t_credentials db). \<exists>c \<in> set (t_cc_pairs db).
     dcc_id d = i \<and> dcc_credential d = crd_id k \<and> cc_match d c \<and> ccp_status c \<noteq> DELETING
       \<and> ccp_access c = PUBLIC)"

definition owned_by :: "access_db \<Rightarrow> string \<Rightarrow> string \<Rightarrow> bool" where
  "owned_by db i e \<longleftrightarrow> (\<exists>d \<in> set (t_doc_by_cc db). \<exists>k \<in> set (t_credentials db). \<exists>c \<in> set (t_cc_pairs db).
     \<exists>u \<in> set (t_users db). dcc_id d = i \<and> dcc_credential d = crd_id k \<and> cc_match d c
       \<and> ccp_status c \<noteq> DELETING \<and> ccp_access c \<noteq> SYNC \<and> crd_user k = Some (usr_id u)
       \<and> usr_email u = e)"

definition read_by_group :: "access_db \<Rightarrow> document_row \<Rightarrow> string \<Rightarrow> bool" where
  "read_by_group db x n \<longleftrightarrow> (\<exists>g \<in> set (t_user_groups db). \<exists>b \<in> set (t_group_cc db).
     \<exists>c \<in> set (t_cc_pairs db). \<exists>d \<in> set (t_doc_by_cc db). ugr_name g = n \<and> ugr_id g = gcc_group b
       \<and> gcc_current b \<and> ccp_id c = gcc_cc_pair b \<and> ccp_access c \<noteq> SYNC \<and> ccp_status c \<noteq> DELETING
       \<and> cc_match d c \<and> doc_id x = dcc_id d)"

definition member_of :: "access_db \<Rightarrow> user_row \<Rightarrow> string \<Rightarrow> bool" where
  "member_of db u n \<longleftrightarrow> (\<exists>g \<in> set (t_user_groups db). \<exists>m \<in> set (t_memberships db).
     ugr_name g = n \<and> mem_group m = ugr_id g \<and> mem_user m = usr_id u)"

definition open_to_all :: "access_db \<Rightarrow> document_row \<Rightarrow> string \<Rightarrow> bool" where
  "open_to_all db x source \<longleftrightarrow> doc_public x \<or> published db (doc_id x) \<or> is_only_censored source
     \<or> (\<exists>r \<in> set (t_public_ext_groups db). xpg_group r \<in> opt_set (doc_external_groups x))"

definition may_read :: "access_db \<Rightarrow> user_row \<Rightarrow> document_row \<Rightarrow> string \<Rightarrow> bool" where
  "may_read db u x source \<longleftrightarrow> open_to_all db x source \<or> (\<not> is_anonymous u \<and>
     (usr_email u \<noteq> [] \<and> owned_by db (doc_id x) (usr_email u)
      \<or> usr_email u \<in> opt_set (doc_external_emails x)
      \<or> (\<exists>n. member_of db u n \<and> read_by_group db x n)
      \<or> (\<exists>r \<in> set (t_user_ext_groups db). xug_user r = usr_id u
           \<and> xug_group r \<in> opt_set (doc_external_groups x))))"

lemma access_info_rows_iff: "(i, e, p) \<in> set (access_info_rows db ids) \<longleftrightarrow> i \<in> set ids \<and>
    (\<exists>d \<in> set (t_doc_by_cc db). \<exists>k \<in> set (t_credentials db). \<exists>c \<in> set (t_cc_pairs db).
      dcc_id d = i \<and> dcc_credential d = crd_id k \<and> cc_match d c \<and> ccp_status c \<noteq> DELETING
      \<and> p = (ccp_access c = PUBLIC) \<and> e \<in> set (credential_owners db k c))" (is "?l \<longleftrightarrow> ?r")
proof
  show "?l \<Longrightarrow> ?r" by (auto simp: access_info_rows_def split: if_splits)
next
  assume ?r
  then obtain d k c where "d \<in> set (t_doc_by_cc db)" "k \<in> set (t_credentials db)"
    "c \<in> set (t_cc_pairs db)" "i \<in> set ids" "dcc_id d = i" "dcc_credential d = crd_id k"
    "cc_match d c" "ccp_status c \<noteq> DELETING" "p = (ccp_access c = PUBLIC)"
    "e \<in> set (credential_owners db k c)" by blast
  then show ?l unfolding access_info_rows_def
    by (simp, intro bexI [of _ d] conjI bexI [of _ k] bexI [of _ c]) auto
qed

lemma credential_owners_some: "Some e \<in> set (credential_owners db k c) \<longleftrightarrow>
    (\<exists>u \<in> set (t_users db). crd_user k = Some (usr_id u) \<and> ccp_access c \<noteq> SYNC \<and> usr_email u = e)"
  by (auto simp: credential_owners_def Let_def)

lemma access_rows_public:
  assumes "i \<in> set ids"
  shows "(\<exists>e. (i, e, True) \<in> set (access_info_rows db ids)) \<longleftrightarrow> published db i"
proof -
  have "credential_owners db k c \<noteq> []" for k c
    by (simp only: credential_owners_def Let_def split: if_splits) simp
  then have "\<exists>e. e \<in> set (credential_owners db k c)" for k c
    by (metis list.set_sel(1))
  then have "(\<exists>e. e \<in> set (credential_owners db k c)) = True" for k c by blast
  moreover have "(\<exists>e. (i, e, True) \<in> set (access_info_rows db ids)) \<longleftrightarrow>
    (\<exists>d \<in> set (t_doc_by_cc db). \<exists>k \<in> set (t_credentials db). \<exists>c \<in> set (t_cc_pairs db).
      dcc_id d = i \<and> dcc_credential d = crd_id k \<and> cc_match d c \<and> ccp_status c \<noteq> DELETING
      \<and> ccp_access c = PUBLIC \<and> (\<exists>e. e \<in> set (credential_owners db k c)))"
    unfolding access_info_rows_iff using assms by blast
  ultimately show ?thesis by (simp add: published_def)
qed

lemma access_rows_owner:
  assumes "i \<in> set ids"
  shows "(\<exists>p. (i, Some e, p) \<in> set (access_info_rows db ids)) \<longleftrightarrow> owned_by db i e"
  unfolding access_info_rows_iff credential_owners_some owned_by_def using assms by blast

lemma base_access_owner:
  "i \<in> set ids \<Longrightarrow> Some e \<in> user_emails (base_access (access_info_rows db ids) i)
     \<longleftrightarrow> e \<noteq> [] \<and> owned_by db i e"
  using access_rows_owner [of i ids e db] by (auto simp: base_access_def)

lemma base_access_public:
  "i \<in> set ids \<Longrightarrow> is_public (base_access (access_info_rows db ids) i) \<longleftrightarrow> published db i"
  by (simp add: base_access_def access_rows_public)

lemma group_rows_iff: "(i, n) \<in> set (group_rows db ids) \<longleftrightarrow> i \<in> set ids \<and>
    (\<exists>x \<in> set (t_documents db). doc_id x = i \<and> read_by_group db x n)" (is "?l \<longleftrightarrow> ?r")
proof
  assume ?l
  then obtain x g b c d where "x \<in> set (t_documents db)" "g \<in> set (t_user_groups db)"
    "b \<in> set (t_group_cc db)" "c \<in> set (t_cc_pairs db)" "d \<in> set (t_doc_by_cc db)"
    "i \<in> set ids" "doc_id x = i" "ugr_name g = n" "ugr_id g = gcc_group b" "gcc_current b"
    "ccp_id c = gcc_cc_pair b" "ccp_access c \<noteq> SYNC" "ccp_status c \<noteq> DELETING" "cc_match d c"
    "doc_id x = dcc_id d"
    by (auto simp: group_rows_def split: if_splits) blast
  then show ?r unfolding read_by_group_def by blast
next
  assume ?r
  then obtain x g b c d where "x \<in> set (t_documents db)" "g \<in> set (t_user_groups db)"
    "b \<in> set (t_group_cc db)" "c \<in> set (t_cc_pairs db)" "d \<in> set (t_doc_by_cc db)"
    "i \<in> set ids" "doc_id x = i" "ugr_name g = n" "ugr_id g = gcc_group b" "gcc_current b"
    "ccp_id c = gcc_cc_pair b" "ccp_access c \<noteq> SYNC" "ccp_status c \<noteq> DELETING" "cc_match d c"
    "doc_id x = dcc_id d" by (auto simp: read_by_group_def)
  then show ?l unfolding group_rows_def
    by (simp, intro bexI [of _ g] conjI bexI [of _ b] bexI [of _ c] bexI [of _ d] bexI [of _ x]) auto
qed

lemma document_groups:
  assumes "distinct (map doc_id (t_documents db))" "x \<in> set (t_documents db)" "doc_id x \<in> set ids"
  shows "n \<in> set (case dict_get (dict_update [] (fetch_user_groups_for_documents db ids)) (doc_id x) of
      None \<Rightarrow> [] | Some ns \<Rightarrow> ns) \<longleftrightarrow> read_by_group db x n"
proof -
  have "(doc_id x, n) \<in> set (group_rows db ids) \<longleftrightarrow> read_by_group db x n"
    using assms by (auto simp: group_rows_iff dest: inj_onD [OF distinct_map [THEN iffD1, THEN conjunct2]])
  then show ?thesis
    by (auto simp: fetch_user_groups_for_documents_def Let_def grouped_get image_iff)
qed

lemma user_group_names:
  assumes "u \<in> set (t_users db)"
  shows "n \<in> ugr_name ` set (fetch_user_groups_for_user db (usr_id u)) \<longleftrightarrow> member_of db u n"
    (is "?l \<longleftrightarrow> ?r")
proof
  show "?l \<Longrightarrow> ?r"
    by (auto simp: fetch_user_groups_for_user_def member_of_def split: if_splits) blast
next
  assume ?r
  then obtain g m where "g \<in> set (t_user_groups db)" "m \<in> set (t_memberships db)"
    "ugr_name g = n" "mem_group m = ugr_id g" "mem_user m = usr_id u"
    by (auto simp: member_of_def)
  with assms show ?l unfolding fetch_user_groups_for_user_def
    by (intro image_eqI [of _ _ g]) (auto simp: disjoint_iff intro: sym)
qed

text \<open>The access list of a user meets that of a document exactly for the reason they share.\<close>

lemma meets_simps:
  "(A \<union> B) \<inter> C \<noteq> {} \<longleftrightarrow> A \<inter> C \<noteq> {} \<or> B \<inter> C \<noteq> {}"
  "insert x A \<inter> C \<noteq> {} \<longleftrightarrow> x \<in> C \<or> A \<inter> C \<noteq> {}"
  "f ` A \<inter> C \<noteq> {} \<longleftrightarrow> (\<exists>x \<in> A. f x \<in> C)"
  "{} \<inter> C \<noteq> {} \<longleftrightarrow> False"
  by auto

lemma acl_meets_iff:
  assumes "u \<in> set (t_users db)"
  shows "get_acl_for_user_ee db u \<inter> to_acl a \<noteq> {} \<longleftrightarrow> is_public a \<or> (\<not> is_anonymous u \<and>
     ((usr_email u \<noteq> [] \<and> Some (usr_email u) \<in> user_emails a) \<or> usr_email u \<in> external_user_emails a
      \<or> (\<exists>n. member_of db u n \<and> n \<in> user_groups a)
      \<or> (\<exists>r \<in> set (t_user_ext_groups db). xug_user r = usr_id u
           \<and> xug_group r \<in> external_user_group_ids a)))"
proof (cases "is_anonymous u")
  case True
  then show ?thesis
    by (simp add: get_acl_for_user_ee_def get_acl_for_user_mit_def dict_simps)
next
  case False
  have acl: "get_acl_for_user_ee db u = {public_doc_pat, prefix_user_email (usr_email u)}
      \<union> prefix_user_group ` (ugr_name ` set (fetch_user_groups_for_user db (usr_id u)))
      \<union> prefix_external_group ` (xug_group ` {r \<in> set (t_user_ext_groups db). xug_user r = usr_id u})"
    using False by (auto simp: get_acl_for_user_ee_def get_acl_for_user_mit_def
        fetch_external_groups_for_user_def)
  have grp: "ugr_name ` set (fetch_user_groups_for_user db (usr_id u)) = {n. member_of db u n}"
    using user_group_names [OF assms] by blast
  show ?thesis
    unfolding acl grp meets_simps dict_simps using False by auto
qed

lemma ee_access_meets:
  assumes "distinct (map doc_id (t_documents db))" and "set ids \<subseteq> doc_id ` set (t_documents db)"
    and "x \<in> set (t_documents db)" and "doc_id x \<in> set ids"
    and "dict_get (get_document_sources db ids) (doc_id x) = Some source"
  shows "\<exists>m a. get_access_for_documents_ee db ids = Inr m \<and> dict_get m (doc_id x) = Some a
    \<and> (\<forall>u \<in> set (t_users db).
         get_acl_for_user_ee db u \<inter> to_acl a \<noteq> {} \<longleftrightarrow> may_read db u x source)"
proof -
  let ?docs = "dict_update [] (map (\<lambda>d. (doc_id d, d)) (get_documents_by_ids db ids))"
  let ?gs = "case dict_get (dict_update [] (fetch_user_groups_for_documents db ids)) (doc_id x) of
      None \<Rightarrow> [] | Some ns \<Rightarrow> ns"
  let ?base = "base_access (access_info_rows db ids) (doc_id x)"
  have "dict_get ?docs i \<noteq> None" if "i \<in> fst ` set (get_access_for_documents_mit db ids)" for i
  proof -
    obtain d where "d \<in> set (t_documents db)" "i = doc_id d" "i \<in> set ids"
      using assms(2) \<open>i \<in> _\<close> mit_access_keys by blast
    then show ?thesis using documents_get [OF assms(1)] by simp
  qed
  then have "\<exists>m. get_access_for_documents_ee db ids = Inr m"
    unfolding get_access_for_documents_ee_def ee_loop_succeeds by (intro ballI)
  then obtain m where m: "get_access_for_documents_ee db ids = Inr m" ..
  define a where "a = ee_document_access (set (fetch_public_external_group_ids db)) ?gs x source ?base"
  have "dict_get m (doc_id x) = Some a"
    using ee_loop_get [OF m [unfolded get_access_for_documents_ee_def] mit_access_distinct, of "doc_id x"]
    by (simp add: assms(5) mit_access_get [OF assms(4)] documents_get [OF assms(1,3,4)] a_def)
  moreover have "is_public a \<longleftrightarrow> open_to_all db x source"
    using base_access_public [OF assms(4)]
    by (auto simp: a_def ee_document_access_def open_to_all_def Let_def disjoint_iff
        fetch_public_external_group_ids_def)
  moreover have "(e \<noteq> [] \<and> Some e \<in> user_emails a) \<longleftrightarrow> e \<noteq> [] \<and> owned_by db (doc_id x) e" for e
    using base_access_owner [OF assms(4), of e db] by (auto simp: a_def ee_document_access_def Let_def)
  moreover have "n \<in> user_groups a \<longleftrightarrow> read_by_group db x n" for n
    using document_groups [OF assms(1,3,4), of n] by (simp add: a_def ee_document_access_def Let_def)
  moreover have "external_user_emails a = opt_set (doc_external_emails x)"
    "external_user_group_ids a = opt_set (doc_external_groups x)"
    by (simp_all add: a_def ee_document_access_def Let_def)
  ultimately show ?thesis using m by (simp add: acl_meets_iff may_read_def)
qed

text \<open>C10: Retrieval access is what the tables say.  When every requested document is known and the
  document has a source, the string lists the enterprise edition computes for user and document
  meet exactly when the document is open to all, or the user is signed in and owns a non-synchronised
  credential it came through, is named by its synchronised permissions, or shares a group with it.\<close>

theorem acl_overlap_iff_may_read:
  assumes "distinct (map doc_id (t_documents db))" and "set ids \<subseteq> doc_id ` set (t_documents db)"
    and "x \<in> set (t_documents db)" and "doc_id x \<in> set ids"
    and "dict_get (get_document_sources db ids) (doc_id x) = Some source"
    and "u \<in> set (t_users db)"
  shows "\<exists>m a. get_access_for_documents_ee db ids = Inr m \<and> dict_get m (doc_id x) = Some a
    \<and> (get_acl_for_user_ee db u \<inter> to_acl a \<noteq> {} \<longleftrightarrow> may_read db u x source)"
  using ee_access_meets [OF assms(1-5)] assms(6) by blast

text \<open>A document of one signed-in owner and a stranger, for the witnesses.\<close>

definition example_owner :: user_row where
  "example_owner = \<lparr>usr_id = 7, usr_email = ''a@x''\<rparr>"

definition example_document :: document_row where
  "example_document = \<lparr>doc_id = ''d'', doc_external_emails = None, doc_external_groups = None,
     doc_public = False, doc_file_id = Some ''f''\<rparr>"

definition example_db :: access_db where
  "example_db = \<lparr>t_users = [example_owner], t_documents = [example_document],
     t_doc_by_cc = [\<lparr>dcc_id = ''d'', dcc_connector = 1, dcc_credential = 2\<rparr>],
     t_cc_pairs = [\<lparr>ccp_id = 5, ccp_connector = 1, ccp_credential = 2, ccp_access = PRIVATE,
        ccp_status = ACTIVE\<rparr>],
     t_credentials = [\<lparr>crd_id = 2, crd_user = Some 7\<rparr>],
     t_connectors = [\<lparr>con_id = 1, con_source = ''web'', con_file_locations = None\<rparr>],
     t_user_groups = [], t_group_cc = [], t_memberships = [],
     t_user_ext_groups = [], t_public_ext_groups = []\<rparr>"

lemma acl_overlap_iff_may_read_witness:
  "\<exists>m a. get_access_for_documents_ee example_db [''d''] = Inr m \<and> dict_get m ''d'' = Some a
    \<and> (get_acl_for_user_ee example_db example_owner \<inter> to_acl a \<noteq> {}
       \<longleftrightarrow> may_read example_db example_owner example_document ''web'')"
proof -
  have d: "doc_id example_document = ''d''" by (simp add: example_document_def)
  have "dict_get (get_document_sources example_db [''d'']) ''d'' = Some ''web''"
    by code_simp
  then show ?thesis
    using acl_overlap_iff_may_read [of example_db "[''d'']" example_document "''web''" example_owner]
    by (simp add: d) (simp add: example_db_def example_document_def)
qed

text \<open>A request naming a document the document table does not hold fails with \<open>KeyError\<close> in the
  enterprise edition, although the community edition it extends answers it with no access.\<close>

theorem unknown_document_raises:
  assumes "i \<in> set ids" and "i \<notin> doc_id ` set (t_documents db)"
  shows "get_access_for_documents_ee db ids = Inl KeyError
    \<and> dict_get (get_access_for_documents_mit db ids) i \<noteq> None"
proof -
  have err: "ee_access_loop pub gs docs srcs base acc = Inl e \<Longrightarrow> e = KeyError"
    for pub gs docs srcs base acc e
    by (induction pub gs docs srcs base acc rule: ee_access_loop.induct)
      (auto split: option.splits)
  have "dict_get (dict_update [] (map (\<lambda>d. (doc_id d, d)) (get_documents_by_ids db ids))) i = None"
    using assms(2) by (auto simp: dict_update_map_get get_documents_by_ids_def)
  moreover have "i \<in> fst ` set (get_access_for_documents_mit db ids)"
    using assms(1) mit_access_keys by blast
  ultimately have "\<nexists>m. get_access_for_documents_ee db ids = Inr m"
    unfolding get_access_for_documents_ee_def ee_loop_succeeds by blast
  then have "get_access_for_documents_ee db ids = Inl KeyError"
    by (cases "get_access_for_documents_ee db ids")
      (auto simp: get_access_for_documents_ee_def dest: err)
  then show ?thesis by (simp add: mit_access_get [OF assms(1)])
qed

lemma unknown_document_raises_witness:
  "get_access_for_documents_ee example_db [''d'', ''new''] = Inl KeyError
    \<and> dict_get (get_access_for_documents_mit example_db [''d'', ''new'']) ''new'' \<noteq> None"
  by (rule unknown_document_raises) (simp_all add: example_db_def example_document_def)

lemma source_names: "\<forall>s \<in> set document_sources. lower s = s"
  by code_simp

lemma source_prefix_free:
  "\<forall>s \<in> set document_sources. \<forall>t \<in> set document_sources. prefix (s @ ''_'') (t @ ''_'') \<longrightarrow> s = t"
  by code_simp

lemma lower_underscore: "lower ''_'' = ''_''"
  by code_simp

text \<open>Names of external groups do not collide across sources: two groups get the same Onyx name
  only if they come from the same source and their names differ at most in case.\<close>

theorem external_group_names_apart:
  assumes "s \<in> set document_sources" and "t \<in> set document_sources"
    and "build_ext_group_name_for_onyx g s = build_ext_group_name_for_onyx h t"
  shows "s = t \<and> lower g = lower h"
proof -
  have eq: "(s @ ''_'') @ lower g = (t @ ''_'') @ lower h"
    using assms source_names by (simp add: build_ext_group_name_for_onyx_def lower_underscore del: append_Cons)
  have "prefix (s @ ''_'') ((t @ ''_'') @ lower h)" using eq by (metis prefixI)
  then have "prefix (s @ ''_'') (t @ ''_'') \<or> prefix (t @ ''_'') (s @ ''_'')"
    using prefix_same_cases [of "s @ ''_''" "(t @ ''_'') @ lower h" "t @ ''_''", OF _ prefixI [OF refl]]
    by blast
  then have "s = t" using source_prefix_free assms(1,2) by blast
  with eq show ?thesis by simp
qed

lemma external_group_names_apart_witness:
  "''slack'' = ''slack'' \<and> lower ''Eng'' = lower ''eng''"
  by (rule external_group_names_apart [of "''slack''" "''slack''" "''Eng''" "''eng''"]) code_simp+

text \<open>Synchronised permissions survive the trip through their dictionary form: whatever order the
  sets are listed in, reading the dictionary back restores the same permissions and identifiers.\<close>

theorem external_access_roundtrip:
  assumes "\<And>s. finite s \<Longrightarrow> set (enum s) = s"
    and "finite (external_user_emails a)" and "finite (external_user_group_ids a)"
  shows "doc_access_from_dict (doc_access_to_dict enum \<lparr>dea_access = a, dea_doc_id = d\<rparr>)
      = Inr (raw_of a, PStr d)
    \<and> node_access_from_dict
        (node_access_to_dict enum \<lparr>nea_access = a, nea_raw_node_id = n, nea_source = s\<rparr>)
      = Inr (raw_of a, PStr n, PStr s)"
proof -
  have h: "list_all hashable (map PStr xs)" for xs by (simp add: list_all_iff)
  have *: "access_from_dict (PDict ((''external_access'', access_to_dict enum a) # rest))
      = Inr (raw_of a)" for rest
    using assms by (simp add: access_from_dict_def access_to_dict_def py_item_def raw_of_def h)
  then show ?thesis
    by (simp add: doc_access_from_dict_def doc_access_to_dict_def node_access_from_dict_def
        node_access_to_dict_def py_item_def)
qed

lemma external_access_roundtrip_witness:
  "doc_access_from_dict (doc_access_to_dict sorted_list_of_set
      \<lparr>dea_access = \<lparr>external_user_emails = {''a@x''}, external_user_group_ids = {},
         is_public = False\<rparr>, dea_doc_id = ''d''\<rparr>)
    = Inr (raw_of \<lparr>external_user_emails = {''a@x''}, external_user_group_ids = {},
         is_public = False\<rparr>, PStr ''d'')"
  by (rule external_access_roundtrip [where n = "''n''" and s = "''s''", THEN conjunct1]) simp_all

section \<open>Files served to the chat\<close>

text \<open>\<open>fetch_versioned_implementation\<close> picks the community or the enterprise function.\<close>

datatype edition = Community | Enterprise

definition get_acl_for_user :: "edition \<Rightarrow> access_db \<Rightarrow> user_row \<Rightarrow> string set" where
  "get_acl_for_user ed db u = (case ed of
       Community \<Rightarrow> get_acl_for_user_mit u | Enterprise \<Rightarrow> get_acl_for_user_ee db u)"

definition get_access_for_documents ::
  "edition \<Rightarrow> access_db \<Rightarrow> string list \<Rightarrow> (string, document_access) dict result" where
  "get_access_for_documents ed db document_ids = (case ed of
       Community \<Rightarrow> Inr (get_access_for_documents_mit db document_ids)
     | Enterprise \<Rightarrow> get_access_for_documents_ee db document_ids)"

definition get_access_for_document :: "edition \<Rightarrow> access_db \<Rightarrow> string \<Rightarrow> document_access result" where
  "get_access_for_document ed db document_id = (case ed of
       Community \<Rightarrow> Inr (get_access_for_document_mit db document_id)
     | Enterprise \<Rightarrow> get_access_for_document_ee db document_id)"

definition build_access_for_user_files ::
  "edition \<Rightarrow> user_file list \<Rightarrow> (string, document_access) dict result" where
  "build_access_for_user_files ed fs = (case ed of
       Community \<Rightarrow> build_access_for_user_files_mit fs []
     | Enterprise \<Rightarrow> build_access_for_user_files_ee fs [])"

record persona_row =
  per_id :: int
  per_deleted :: bool
  per_public :: bool
  per_user :: "uuid option"

text \<open>
  The other asset classes behind \<open>GET /chat/file\<close>: user files (identifier, file, owner), the personas
  they are attached to, the users personas are shared with, chat messages (session and the
  identifiers in their file descriptors), chat sessions (owner, shared with everyone) and file
  records with their origin.
\<close>

record chat_file_db =
  cf_access :: access_db
  cf_user_files :: "(uuid \<times> string \<times> uuid) list"
  cf_personas :: "persona_row list"
  cf_persona_user_file :: "(int \<times> uuid) list"
  cf_persona_user :: "(int \<times> uuid) list"
  cf_messages :: "(uuid \<times> string list) list"
  cf_sessions :: "(uuid \<times> uuid option \<times> bool) list"
  cf_file_records :: "(string \<times> string) list"

definition user_can_access_persona_attached_file :: "string \<Rightarrow> user_row \<Rightarrow> chat_file_db \<Rightarrow> bool" where
  "user_can_access_persona_attached_file file_id u db \<longleftrightarrow>
     list_ex (\<lambda>(i, f, _). f = file_id \<and> list_ex (\<lambda>(p, i').
        i' = i \<and> list_ex (\<lambda>per. per_id per = p \<and> \<not> per_deleted per
           \<and> (per_public per \<or> per_user per = Some (usr_id u)
              \<or> list_ex (\<lambda>(p', s). p' = p \<and> s = usr_id u) (cf_persona_user db)))
          (cf_personas db)) (cf_persona_user_file db)) (cf_user_files db)"

definition documents_from_file_connector_config :: "access_db \<Rightarrow> string \<Rightarrow> string list" where
  "documents_from_file_connector_config db file_id =
    (let cc_pair_keys = remdups [(dcc_connector d, dcc_credential d).
           d \<leftarrow> t_doc_by_cc db, n \<leftarrow> t_connectors db,
           con_id n = dcc_connector d \<and> (case con_file_locations n of None \<Rightarrow> False
               | Some fs \<Rightarrow> file_id \<in> set fs)]
     in concat (map (\<lambda>(cn, cr).
          (case find (\<lambda>d. dcc_connector d = cn \<and> dcc_credential d = cr) (t_doc_by_cc db) of
             None \<Rightarrow> [] | Some d \<Rightarrow> [dcc_id d])) cc_pair_keys))"

definition user_can_access_connector_file ::
  "edition \<Rightarrow> string \<Rightarrow> user_row \<Rightarrow> access_db \<Rightarrow> bool result" where
  "user_can_access_connector_file ed file_id u db =
    (let direct = [doc_id d. d \<leftarrow> t_documents db, doc_file_id d = Some file_id];
         document_ids = (if direct = [] then documents_from_file_connector_config db file_id else direct)
     in if document_ids = [] then Inr False
        else bind_r (get_access_for_documents ed db document_ids) (\<lambda>m.
          Inr (list_ex (\<lambda>(_, a). get_acl_for_user ed db u \<inter> to_acl a \<noteq> {}) m)))"

definition user_can_access_chat_file ::
  "edition \<Rightarrow> string \<Rightarrow> user_row \<Rightarrow> chat_file_db \<Rightarrow> bool result" where
  "user_can_access_chat_file ed file_id u db =
    (if list_ex (\<lambda>(_, f, owner). f = file_id \<and> owner = usr_id u) (cf_user_files db) then Inr True
     else if user_can_access_persona_attached_file file_id u db then Inr True
     else if list_ex (\<lambda>(s, files). file_id \<in> set files \<and> list_ex (\<lambda>(s', owner, shared).
               s' = s \<and> (owner = Some (usr_id u) \<or> shared)) (cf_sessions db)) (cf_messages db)
     then Inr True
     else if list_ex (\<lambda>(f, origin). f = file_id \<and> origin = ''chat_image_gen'') (cf_file_records db)
     then Inr True
     else user_can_access_connector_file ed file_id u (cf_access db))"

lemma ee_loop_distinct:
  "ee_access_loop pub gs docs srcs base acc = Inr m \<Longrightarrow> distinct (dict_keys acc) \<Longrightarrow> distinct (dict_keys m)"
  by (induction pub gs docs srcs base acc rule: ee_access_loop.induct) (auto split: option.splits)

lemma ee_access_values:
  assumes "get_access_for_documents_ee db ids = Inr m"
  shows "list_ex (\<lambda>(_, a). P a) m \<longleftrightarrow> (\<exists>i \<in> set ids. \<exists>a. dict_get m i = Some a \<and> P a)"
proof -
  note loop = assms [unfolded get_access_for_documents_ee_def]
  have "distinct (dict_keys m)" using ee_loop_distinct [OF loop] by simp
  then have "(i, a) \<in> set m \<longleftrightarrow> dict_get m i = Some a" for i a
    by (simp add: dict_get_def)
  moreover have "i \<in> set ids" if "dict_get m i = Some a" for i a
  proof (rule ccontr)
    assume "i \<notin> set ids"
    then have "dict_get (get_access_for_documents_mit db ids) i = None"
      by (simp add: dict_get_None_iff mit_access_keys)
    then show False using that ee_loop_get [OF loop mit_access_distinct, of i] by simp
  qed
  ultimately show ?thesis by (fastforce simp: list_ex_iff)
qed

text \<open>A file that only one indexed document refers to (it is nobody's upload, in no chat and not a
  generated image) is served exactly to the users whom retrieval would show that document.\<close>

theorem chat_file_mirrors_retrieval:
  assumes "distinct (map doc_id (t_documents (cf_access db)))"
    and "filter (\<lambda>d. doc_file_id d = Some f) (t_documents (cf_access db)) = [x]"
    and "dict_get (get_document_sources (cf_access db) [doc_id x]) (doc_id x) = Some source"
    and "u \<in> set (t_users (cf_access db))"
    and "\<forall>(_, g, _) \<in> set (cf_user_files db). g \<noteq> f"
    and "\<forall>(_, files) \<in> set (cf_messages db). f \<notin> set files"
    and "\<forall>(g, origin) \<in> set (cf_file_records db). g = f \<longrightarrow> origin \<noteq> ''chat_image_gen''"
  shows "user_can_access_chat_file Enterprise f u db = Inr (may_read (cf_access db) u x source)"
proof -
  let ?db = "cf_access db"
  have x: "x \<in> set (t_documents ?db)" using assms(2) by (metis filter_is_subset list.set_intros(1) subsetD)
  have direct: "[doc_id d. d \<leftarrow> t_documents ?db, doc_file_id d = Some f] = [doc_id x]"
  proof -
    have "concat (map (\<lambda>d. if P d then [g d] else []) xs) = map g (filter P xs)"
      for P :: "document_row \<Rightarrow> bool" and g :: "document_row \<Rightarrow> string" and xs
      by (induction xs) auto
    then show ?thesis using assms(2) by simp
  qed
  obtain m a where m: "get_access_for_documents_ee ?db [doc_id x] = Inr m"
    and a: "dict_get m (doc_id x) = Some a"
    and meets: "get_acl_for_user_ee ?db u \<inter> to_acl a \<noteq> {} \<longleftrightarrow> may_read ?db u x source"
    using ee_access_meets [OF assms(1) _ x _ assms(3)] x assms(4) by auto
  have conn: "user_can_access_connector_file Enterprise f u ?db = Inr (may_read ?db u x source)"
    unfolding user_can_access_connector_file_def direct
    using m a meets ee_access_values [OF m, of "\<lambda>a. get_acl_for_user_ee ?db u \<inter> to_acl a \<noteq> {}"]
    by (simp add: get_access_for_documents_def get_acl_for_user_def)
  have "\<not> user_can_access_persona_attached_file f u db"
    using assms(5) by (auto simp: user_can_access_persona_attached_file_def list_ex_iff)
  moreover have "\<not> list_ex (\<lambda>(_, g, owner). g = f \<and> owner = usr_id u) (cf_user_files db)"
    using assms(5) by (auto simp: list_ex_iff)
  moreover have "\<not> list_ex (\<lambda>(s, files). f \<in> set files \<and> P s) (cf_messages db)" for P
    using assms(6) by (auto simp: list_ex_iff)
  moreover have "\<not> list_ex (\<lambda>(g, origin). g = f \<and> origin = ''chat_image_gen'') (cf_file_records db)"
    using assms(7) by (auto simp: list_ex_iff)
  ultimately show ?thesis
    using conn by (simp add: user_can_access_chat_file_def)
qed

definition example_files :: chat_file_db where
  "example_files = \<lparr>cf_access = example_db, cf_user_files = [], cf_personas = [],
     cf_persona_user_file = [], cf_persona_user = [], cf_messages = [], cf_sessions = [],
     cf_file_records = [(''f'', ''connector'')]\<rparr>"

lemma chat_file_mirrors_retrieval_witness:
  "user_can_access_chat_file Enterprise ''f'' example_owner example_files
    = Inr (may_read example_db example_owner example_document ''web'')"
proof -
  have db: "cf_access example_files = example_db" by (simp add: example_files_def)
  have d: "doc_id example_document = ''d''" by (simp add: example_document_def)
  have "dict_get (get_document_sources example_db [''d'']) ''d'' = Some ''web''"
    by code_simp
  then show ?thesis
    using chat_file_mirrors_retrieval [of example_files "''f''" example_document "''web''" example_owner]
    by (simp add: db d) (simp add: example_files_def example_db_def example_document_def)
qed

end
