(* ===== verification/GroupSync.thy ===== *)
theory GroupSync
  imports Access
begin

text \<open>
  Synchronisation of external groups and censoring of search results:
  \<open>ee/onyx/db/external_perm.py\<close>, the user upsert of \<open>onyx/db/users.py\<close>, the task body
  \<open>_timed_perform_external_group_sync\<close> of
  \<open>ee/onyx/background/celery/tasks/external_group_syncing/tasks.py\<close>, and
  \<open>ee/onyx/external_permissions/post_query_censoring.py\<close>.  The connector's generator of groups is an
  argument: the groups it yields, each with whether the time budget is spent when it arrives, and the
  exception it may end with.  \<open>fresh\<close> is the identifier the database gives a new user.  The upserts
  go to the database in slices of 5000 rows, which one pass over all rows equals.
\<close>

section \<open>Users named by a source\<close>

record external_user_group =
  eug_id :: string
  eug_emails :: "string list"
  eug_gives_anyone_access :: bool

text \<open>\<open>_get_users_by_emails\<close>\<close>

definition get_users_by_emails :: "access_db \<Rightarrow> string list \<Rightarrow> user_row list \<times> string list" where
  "get_users_by_emails db lower_emails =
    (let found = [u \<leftarrow> t_users db. lower (usr_email u) \<in> set lower_emails]
     in (found, [e \<leftarrow> lower_emails. e \<notin> set (map (lower \<circ> usr_email) found)]))"

text \<open>The insertions, each under its own savepoint; an address is unique in the table.\<close>

fun insert_users ::
  "(user_row list \<Rightarrow> uuid) \<Rightarrow> bool \<Rightarrow> string list \<Rightarrow> user_row list \<Rightarrow> user_row list \<times> exn option" where
  "insert_users fresh continue_on_error [] users = (users, None)"
| "insert_users fresh continue_on_error (e # es) users =
     (if lower e \<in> usr_email ` set users
      then (if continue_on_error then insert_users fresh continue_on_error es users
            else (users, Some IntegrityError))
      else insert_users fresh continue_on_error es
             (users @ [\<lparr>usr_id = fresh users, usr_email = lower e\<rparr>]))"

definition batch_add_ext_perm_user_if_not_exists ::
  "(user_row list \<Rightarrow> uuid) \<Rightarrow> bool \<Rightarrow> access_db \<Rightarrow> string list \<Rightarrow> access_db \<times> user_row list result" where
  "batch_add_ext_perm_user_if_not_exists fresh continue_on_error db emails =
    (let lower_emails = map lower emails;
         missing = snd (get_users_by_emails db lower_emails)
     in (case insert_users fresh continue_on_error missing (t_users db) of
           (users, Some e) \<Rightarrow> (db\<lparr>t_users := users\<rparr>, Inl e)
         | (users, None) \<Rightarrow> (let db' = db\<lparr>t_users := users\<rparr>
              in (db', Inr (fst (get_users_by_emails db' lower_emails))))))"

section \<open>The tables of groups\<close>

definition delete_user_ext_group_for_user :: "access_db \<Rightarrow> uuid \<Rightarrow> access_db" where
  "delete_user_ext_group_for_user db user_id =
     db\<lparr>t_user_ext_groups := [r \<leftarrow> t_user_ext_groups db. xug_user r \<noteq> user_id]\<rparr>"

definition delete_user_ext_group_for_cc_pair :: "access_db \<Rightarrow> int \<Rightarrow> access_db" where
  "delete_user_ext_group_for_cc_pair db cc_pair_id =
     db\<lparr>t_user_ext_groups := [r \<leftarrow> t_user_ext_groups db. xug_cc_pair r \<noteq> cc_pair_id]\<rparr>"

definition delete_public_external_group_for_cc_pair :: "access_db \<Rightarrow> int \<Rightarrow> access_db" where
  "delete_public_external_group_for_cc_pair db cc_pair_id =
     db\<lparr>t_public_ext_groups := [r \<leftarrow> t_public_ext_groups db. xpg_cc_pair r \<noteq> cc_pair_id]\<rparr>"

definition mark_old_external_groups_as_stale :: "access_db \<Rightarrow> int \<Rightarrow> access_db" where
  "mark_old_external_groups_as_stale db cc_pair_id = db\<lparr>
     t_user_ext_groups := map (\<lambda>r. if xug_cc_pair r = cc_pair_id then r\<lparr>xug_stale := True\<rparr> else r)
       (t_user_ext_groups db),
     t_public_ext_groups := map (\<lambda>r. if xpg_cc_pair r = cc_pair_id then r\<lparr>xpg_stale := True\<rparr> else r)
       (t_public_ext_groups db)\<rparr>"

definition remove_stale_external_groups :: "access_db \<Rightarrow> int \<Rightarrow> access_db" where
  "remove_stale_external_groups db cc_pair_id = db\<lparr>
     t_user_ext_groups := [r \<leftarrow> t_user_ext_groups db. \<not> (xug_cc_pair r = cc_pair_id \<and> xug_stale r)],
     t_public_ext_groups := [r \<leftarrow> t_public_ext_groups db. \<not> (xpg_cc_pair r = cc_pair_id \<and> xpg_stale r)]\<rparr>"

text \<open>\<open>INSERT ... ON CONFLICT DO UPDATE SET stale = false\<close>\<close>

definition upsert_user_row :: "int \<Rightarrow> uuid \<times> string \<Rightarrow> user_ext_group_row list \<Rightarrow> user_ext_group_row list" where
  "upsert_user_row cc k rows =
    (let hit = (\<lambda>r. xug_user r = fst k \<and> xug_group r = snd k \<and> xug_cc_pair r = cc)
     in if list_ex hit rows then map (\<lambda>r. if hit r then r\<lparr>xug_stale := False\<rparr> else r) rows
        else rows @ [\<lparr>xug_user = fst k, xug_group = snd k, xug_cc_pair = cc, xug_stale = False\<rparr>])"

definition upsert_public_row :: "int \<Rightarrow> string \<Rightarrow> public_ext_group_row list \<Rightarrow> public_ext_group_row list" where
  "upsert_public_row cc g rows =
    (let hit = (\<lambda>r. xpg_group r = g \<and> xpg_cc_pair r = cc)
     in if list_ex hit rows then map (\<lambda>r. if hit r then r\<lparr>xpg_stale := False\<rparr> else r) rows
        else rows @ [\<lparr>xpg_group = g, xpg_cc_pair = cc, xpg_stale = False\<rparr>])"

definition user_group_mappings ::
  "(string, uuid) dict \<Rightarrow> string \<Rightarrow> external_user_group list \<Rightarrow> (uuid \<times> string) list" where
  "user_group_mappings email_id_map source external_groups =
     concat (map (\<lambda>g. concat (map (\<lambda>e. case dict_get email_id_map (lower e) of
          None \<Rightarrow> []
        | Some i \<Rightarrow> [(i, build_ext_group_name_for_onyx (eug_id g) source)]) (eug_emails g)))
       external_groups)"

definition public_group_mappings :: "string \<Rightarrow> external_user_group list \<Rightarrow> string list" where
  "public_group_mappings source external_groups =
     map (\<lambda>g. build_ext_group_name_for_onyx (eug_id g) source)
       (filter eug_gives_anyone_access external_groups)"

text \<open>The keys of a dictionary comprehension: each value once, in order of first occurrence.\<close>

definition dedup :: "'a list \<Rightarrow> 'a list" where
  "dedup xs = rev (remdups (rev xs))"

lemma set_dedup [simp]: "set (dedup xs) = set xs"
  by (simp add: dedup_def)

definition upsert_external_groups ::
  "(user_row list \<Rightarrow> uuid) \<Rightarrow> access_db \<Rightarrow> int \<Rightarrow> external_user_group list \<Rightarrow> string
     \<Rightarrow> access_db \<times> exn option" where
  "upsert_external_groups fresh db cc_pair_id external_groups source =
    (if external_groups = [] then (db, None) else
     (case batch_add_ext_perm_user_if_not_exists fresh False db
             (dedup (concat (map eug_emails external_groups))) of
        (db', Inl e) \<Rightarrow> (db', Some e)
      | (db', Inr all_group_members) \<Rightarrow>
         (let email_id_map = dict_update [] (map (\<lambda>u. (lower (usr_email u), usr_id u)) all_group_members);
              members = dedup (user_group_mappings email_id_map source external_groups);
              public = dedup (public_group_mappings source external_groups)
          in (db'\<lparr>t_user_ext_groups := fold (upsert_user_row cc_pair_id) members (t_user_ext_groups db'),
                  t_public_ext_groups := fold (upsert_public_row cc_pair_id) public (t_public_ext_groups db')\<rparr>,
              None))))"

definition fetch_external_groups_for_user_email_and_group_ids ::
  "access_db \<Rightarrow> string \<Rightarrow> string list \<Rightarrow> user_ext_group_row list" where
  "fetch_external_groups_for_user_email_and_group_ids db user_email group_ids =
     (case find (\<lambda>u. lower (usr_email u) = lower user_email) (t_users db) of
        None \<Rightarrow> []
      | Some u \<Rightarrow> [r \<leftarrow> t_user_ext_groups db. xug_user r = usr_id u \<and> xug_group r \<in> set group_ids])"

section \<open>The synchronisation task\<close>

definition external_group_batch_size :: nat where "external_group_batch_size = 100"

fun sync_groups ::
  "(user_row list \<Rightarrow> uuid) \<Rightarrow> int \<Rightarrow> string \<Rightarrow> access_db \<Rightarrow> external_user_group list
     \<Rightarrow> (external_user_group \<times> bool) list \<Rightarrow> exn option \<Rightarrow> access_db \<times> exn option" where
  "sync_groups fresh cc source db batch [] ending =
     (case ending of Some e \<Rightarrow> (db, Some e) | None \<Rightarrow> upsert_external_groups fresh db cc batch source)"
| "sync_groups fresh cc source db batch ((g, timed_out) # gs) ending =
     (if timed_out then (db, Some RuntimeError)
      else if length (batch @ [g]) \<ge> external_group_batch_size
      then (case upsert_external_groups fresh db cc (batch @ [g]) source of
              (db', Some e) \<Rightarrow> (db', Some e)
            | (db', None) \<Rightarrow> sync_groups fresh cc source db' [] gs ending)
      else sync_groups fresh cc source db (batch @ [g]) gs ending)"

definition cc_pair_source :: "access_db \<Rightarrow> int \<Rightarrow> string option" where
  "cc_pair_source db cc_pair_id = (case find (\<lambda>c. ccp_id c = cc_pair_id) (t_cc_pairs db) of
       None \<Rightarrow> None
     | Some c \<Rightarrow> map_option con_source (find (\<lambda>n. con_id n = ccp_connector c) (t_connectors db)))"

definition perform_external_group_sync ::
  "(user_row list \<Rightarrow> uuid) \<Rightarrow> access_db \<Rightarrow> int \<Rightarrow> (external_user_group \<times> bool) list \<times> exn option
     \<Rightarrow> access_db \<times> exn option" where
  "perform_external_group_sync fresh db cc_pair_id generator =
    (case cc_pair_source db cc_pair_id of
       None \<Rightarrow> (db, Some ValueError)
     | Some source \<Rightarrow>
        (case get_source_perm_sync_config source of
           None \<Rightarrow> (db, Some ValueError)
         | Some cfg \<Rightarrow>
            if group_sync_config cfg = None then (db, Some ValueError)
            else (case sync_groups fresh cc_pair_id source
                     (mark_old_external_groups_as_stale
                        (remove_stale_external_groups db cc_pair_id) cc_pair_id)
                     [] (fst generator) (snd generator) of
                    (db', Some e) \<Rightarrow> (db', Some e)
                  | (db', None) \<Rightarrow> (remove_stale_external_groups db' cc_pair_id, None))))"

section \<open>What an upsert leaves in the tables\<close>

lemma upsert_user_row_set:
  "set (upsert_user_row cc k rows) =
     insert \<lparr>xug_user = fst k, xug_group = snd k, xug_cc_pair = cc, xug_stale = False\<rparr>
       {r \<in> set rows. \<not> (xug_cc_pair r = cc \<and> (xug_user r, xug_group r) = k)}"
proof -
  define new where "new = \<lparr>xug_user = fst k, xug_group = snd k, xug_cc_pair = cc, xug_stale = False\<rparr>"
  let ?hit = "\<lambda>r. xug_user r = fst k \<and> xug_group r = snd k \<and> xug_cc_pair r = cc"
  have hit: "?hit r \<longleftrightarrow> xug_cc_pair r = cc \<and> (xug_user r, xug_group r) = k" for r :: user_ext_group_row
    by (cases k) auto
  have upd: "?hit r \<Longrightarrow> r\<lparr>xug_stale := False\<rparr> = new" for r by (simp add: new_def)
  have "set (map (\<lambda>r. if ?hit r then r\<lparr>xug_stale := False\<rparr> else r) rows)
      = (if \<exists>r \<in> set rows. ?hit r then {new} else {}) \<union> {r \<in> set rows. \<not> ?hit r}"
    using upd by (auto simp: image_iff)
  then show ?thesis
    unfolding upsert_user_row_def Let_def hit [symmetric] new_def [symmetric]
    by (auto simp: list_ex_iff split: if_splits)
qed

lemma upsert_user_rows_set:
  "set (fold (upsert_user_row cc) ms rows) =
     (\<lambda>k. \<lparr>xug_user = fst k, xug_group = snd k, xug_cc_pair = cc, xug_stale = False\<rparr>) ` set ms
     \<union> {r \<in> set rows. \<not> (xug_cc_pair r = cc \<and> (xug_user r, xug_group r) \<in> set ms)}"
proof (induction ms arbitrary: rows)
  case (Cons k ms)
  show ?case unfolding fold_simps Cons.IH upsert_user_row_set by auto
qed simp

lemma upsert_public_row_set:
  "set (upsert_public_row cc g rows) =
     insert \<lparr>xpg_group = g, xpg_cc_pair = cc, xpg_stale = False\<rparr>
       {r \<in> set rows. \<not> (xpg_cc_pair r = cc \<and> xpg_group r = g)}"
proof -
  define new where "new = \<lparr>xpg_group = g, xpg_cc_pair = cc, xpg_stale = False\<rparr>"
  let ?hit = "\<lambda>r. xpg_group r = g \<and> xpg_cc_pair r = cc"
  have hit: "?hit r \<longleftrightarrow> xpg_cc_pair r = cc \<and> xpg_group r = g" for r :: public_ext_group_row by auto
  have upd: "?hit r \<Longrightarrow> r\<lparr>xpg_stale := False\<rparr> = new" for r by (simp add: new_def)
  have "set (map (\<lambda>r. if ?hit r then r\<lparr>xpg_stale := False\<rparr> else r) rows)
      = (if \<exists>r \<in> set rows. ?hit r then {new} else {}) \<union> {r \<in> set rows. \<not> ?hit r}"
    using upd by (auto simp: image_iff)
  then show ?thesis
    unfolding upsert_public_row_def Let_def hit [symmetric] new_def [symmetric]
    by (auto simp: list_ex_iff split: if_splits)
qed

lemma upsert_public_rows_set:
  "set (fold (upsert_public_row cc) gs rows) =
     (\<lambda>g. \<lparr>xpg_group = g, xpg_cc_pair = cc, xpg_stale = False\<rparr>) ` set gs
     \<union> {r \<in> set rows. \<not> (xpg_cc_pair r = cc \<and> xpg_group r \<in> set gs)}"
proof (induction gs arbitrary: rows)
  case (Cons g gs)
  show ?case unfolding fold_simps Cons.IH upsert_public_row_set by auto
qed simp

text \<open>Addresses are unique up to case: kept by the insertions, and what makes the map of addresses to
  identifiers a function of the table.\<close>

definition emails_unique :: "access_db \<Rightarrow> bool" where
  "emails_unique db \<longleftrightarrow> distinct (map (lower \<circ> usr_email) (t_users db))"

text \<open>What a list of reported groups means for a table of users.\<close>

definition reported_members :: "user_row list \<Rightarrow> string \<Rightarrow> external_user_group list \<Rightarrow> (uuid \<times> string) set" where
  "reported_members users source gs =
     {(usr_id u, build_ext_group_name_for_onyx (eug_id g) source) | u g.
        u \<in> set users \<and> g \<in> set gs \<and> lower (usr_email u) \<in> lower ` set (eug_emails g)}"

definition reported_public :: "string \<Rightarrow> external_user_group list \<Rightarrow> string set" where
  "reported_public source gs =
     {build_ext_group_name_for_onyx (eug_id g) source | g. g \<in> set gs \<and> eug_gives_anyone_access g}"

lemma insert_users_ok:
  "insert_users fresh False es users = (users', None) \<Longrightarrow>
   distinct (map (lower \<circ> usr_email) users) \<Longrightarrow>
   \<forall>e \<in> set es. lower e = e \<and> e \<notin> (lower \<circ> usr_email) ` set users \<Longrightarrow>
   distinct (map (lower \<circ> usr_email) users') \<and> set users \<subseteq> set users'
     \<and> (lower \<circ> usr_email) ` set users' = (lower \<circ> usr_email) ` set users \<union> set es \<and> distinct es"
proof (induction es arbitrary: users)
  case (Cons e es)
  let ?users = "users @ [\<lparr>usr_id = fresh users, usr_email = lower e\<rparr>]"
  have e: "lower e = e" "e \<notin> (lower \<circ> usr_email) ` set users"
    and rec: "insert_users fresh False es ?users = (users', None)"
    using Cons.prems by (auto split: if_splits)
  have new: "e \<notin> set es"
  proof
    assume "e \<in> set es"
    moreover have "e \<in> usr_email ` set us \<Longrightarrow> e \<in> set ds \<Longrightarrow> lower e = e
        \<Longrightarrow> \<exists>err. snd (insert_users fresh False ds us) = Some err" for ds us
      by (induction ds arbitrary: us) auto
    ultimately have "\<exists>err. snd (insert_users fresh False es ?users) = Some err"
      using e(1) by auto
    with rec show False by simp
  qed
  have "\<forall>x \<in> set es. lower x = x \<and> x \<notin> (lower \<circ> usr_email) ` set ?users"
    using Cons.prems(3) new e(1) by auto
  moreover have "distinct (map (lower \<circ> usr_email) ?users)"
    using Cons.prems(2) e by (auto simp: comp_def)
  ultimately have "distinct (map (lower \<circ> usr_email) users') \<and> set ?users \<subseteq> set users'
     \<and> (lower \<circ> usr_email) ` set users' = (lower \<circ> usr_email) ` set ?users \<union> set es \<and> distinct es"
    using Cons.IH [OF rec] by blast
  then show ?case using new e(1) by (auto simp: comp_def)
qed simp

definition refreshed :: "int \<Rightarrow> (uuid \<times> string) set \<Rightarrow> user_ext_group_row set \<Rightarrow> user_ext_group_row set" where
  "refreshed cc M R =
     (\<lambda>k. \<lparr>xug_user = fst k, xug_group = snd k, xug_cc_pair = cc, xug_stale = False\<rparr>) ` M
     \<union> {r \<in> R. \<not> (xug_cc_pair r = cc \<and> (xug_user r, xug_group r) \<in> M)}"

definition refreshed_public :: "int \<Rightarrow> string set \<Rightarrow> public_ext_group_row set \<Rightarrow> public_ext_group_row set" where
  "refreshed_public cc P R =
     (\<lambda>g. \<lparr>xpg_group = g, xpg_cc_pair = cc, xpg_stale = False\<rparr>) ` P
     \<union> {r \<in> R. \<not> (xpg_cc_pair r = cc \<and> xpg_group r \<in> P)}"

lemma refreshed_twice: "refreshed cc M (refreshed cc N R) = refreshed cc (N \<union> M) R"
proof -
  define row where "row k = \<lparr>xug_user = fst k, xug_group = snd k, xug_cc_pair = cc, xug_stale = False\<rparr>"
    for k :: "uuid \<times> string"
  have "xug_cc_pair (row k) = cc \<and> (xug_user (row k), xug_group (row k)) = k" for k
    by (simp add: row_def)
  then show ?thesis unfolding refreshed_def row_def [symmetric] by (auto simp: image_iff)
qed

lemma refreshed_public_twice:
  "refreshed_public cc P (refreshed_public cc Q R) = refreshed_public cc (Q \<union> P) R"
  by (auto simp: refreshed_public_def image_iff)

lemma batch_add_ok:
  assumes "batch_add_ext_perm_user_if_not_exists fresh False db emails = (db', Inr us)"
    and "emails_unique db"
  shows "emails_unique db' \<and> set (t_users db) \<subseteq> set (t_users db')
    \<and> lower ` set emails \<subseteq> (lower \<circ> usr_email) ` set (t_users db')
    \<and> us = [u \<leftarrow> t_users db'. lower (usr_email u) \<in> lower ` set emails]
    \<and> (\<exists>users. db' = db\<lparr>t_users := users\<rparr>)"
proof -
  let ?missing = "snd (get_users_by_emails db (map lower emails))"
  obtain users where ins: "insert_users fresh False ?missing (t_users db) = (users, None)"
    and db': "db' = db\<lparr>t_users := users\<rparr>"
    and us: "us = [u \<leftarrow> users. lower (usr_email u) \<in> lower ` set emails]"
    using assms(1) by (auto simp: batch_add_ext_perm_user_if_not_exists_def get_users_by_emails_def
        Let_def split: prod.splits option.splits)
  have missing: "set ?missing = lower ` set emails - (lower \<circ> usr_email) ` set (t_users db)"
    by (fastforce simp: get_users_by_emails_def Let_def image_iff)
  then have "\<forall>e \<in> set ?missing. lower e = e \<and> e \<notin> (lower \<circ> usr_email) ` set (t_users db)"
    by auto
  from insert_users_ok [OF ins _ this] assms(2)
  have "distinct (map (lower \<circ> usr_email) users)" "set (t_users db) \<subseteq> set users"
    "(lower \<circ> usr_email) ` set users = (lower \<circ> usr_email) ` set (t_users db) \<union> set ?missing"
    by (auto simp: emails_unique_def)
  then show ?thesis using db' us missing by (auto simp: emails_unique_def)
qed

lemma email_map_get:
  assumes "distinct (map (lower \<circ> usr_email) us)"
  shows "dict_get (dict_update [] (map (\<lambda>u. (lower (usr_email u), usr_id u)) us)) e = Some i
    \<longleftrightarrow> (\<exists>u \<in> set us. lower (usr_email u) = e \<and> usr_id u = i)"
proof -
  have one: "u = v" if "u \<in> set us" "v \<in> set us" "lower (usr_email u) = lower (usr_email v)" for u v
    using assms that inj_onD [of "lower \<circ> usr_email" "set us" u v] by (simp add: distinct_map)
  show ?thesis
  proof (cases "e \<in> (\<lambda>u. lower (usr_email u)) ` set us")
    case True
    then obtain u where u: "u \<in> set us" "lower (usr_email u) = e" by blast
    let ?l = "last (filter (\<lambda>x. lower (usr_email x) = e) us)"
    have "filter (\<lambda>x. lower (usr_email x) = e) us \<noteq> []" using u by (auto simp: filter_empty_conv)
    then have "?l \<in> set us \<and> lower (usr_email ?l) = e" by (metis (mono_tags, lifting) last_in_set filter_set
          filter_is_subset subsetD mem_Collect_eq set_filter)
    then have "?l = u" using one u by metis
    then show ?thesis using True u one by (simp add: dict_update_map_get) metis
  qed (auto simp: dict_update_map_get)
qed

lemma user_group_mappings_iff: "(i, n) \<in> set (user_group_mappings d source gs) \<longleftrightarrow>
    (\<exists>g \<in> set gs. \<exists>e \<in> set (eug_emails g). dict_get d (lower e) = Some i
      \<and> n = build_ext_group_name_for_onyx (eug_id g) source)"
proof -
  have opt: "(i, n) \<in> set (case z of None \<Rightarrow> [] | Some j \<Rightarrow> [(j, m)]) \<longleftrightarrow> z = Some i \<and> n = m"
    for z and m by (cases z) auto
  show ?thesis unfolding user_group_mappings_def by (simp add: opt eq_commute [of "Some i"])
qed

lemma upsert_ok:
  assumes "upsert_external_groups fresh db cc gs source = (db', None)" and "emails_unique db"
  shows "emails_unique db' \<and> set (t_users db) \<subseteq> set (t_users db')
    \<and> (\<forall>g \<in> set gs. lower ` set (eug_emails g) \<subseteq> (lower \<circ> usr_email) ` set (t_users db'))
    \<and> set (t_user_ext_groups db')
        = refreshed cc (reported_members (t_users db') source gs) (set (t_user_ext_groups db))
    \<and> set (t_public_ext_groups db')
        = refreshed_public cc (reported_public source gs) (set (t_public_ext_groups db))"
proof (cases "gs = []")
  case True
  then show ?thesis using assms
    by (simp add: upsert_external_groups_def refreshed_def refreshed_public_def reported_members_def
        reported_public_def)
next
  case False
  let ?emails = "dedup (concat (map eug_emails gs))"
  obtain db1 us where add: "batch_add_ext_perm_user_if_not_exists fresh False db ?emails = (db1, Inr us)"
    and db': "db' = (let m = dict_update [] (map (\<lambda>u. (lower (usr_email u), usr_id u)) us) in
      db1\<lparr>t_user_ext_groups := fold (upsert_user_row cc) (dedup (user_group_mappings m source gs)) (t_user_ext_groups db1),
          t_public_ext_groups := fold (upsert_public_row cc) (dedup (public_group_mappings source gs)) (t_public_ext_groups db1)\<rparr>)"
    using assms(1) False
    by (auto simp: upsert_external_groups_def Let_def split: prod.splits sum.splits)
  note ok = batch_add_ok [OF add assms(2)]
  then obtain users where db1: "db1 = db\<lparr>t_users := users\<rparr>" by blast
  let ?m = "dict_update [] (map (\<lambda>u. (lower (usr_email u), usr_id u)) us)"
  have users: "t_users db' = users" by (simp add: db' db1 Let_def)
  have us: "us = [u \<leftarrow> users. lower (usr_email u) \<in> lower ` set ?emails]" using ok db1 by simp
  have "distinct (map (lower \<circ> usr_email) us)"
    unfolding us using ok db1 by (simp add: emails_unique_def distinct_map_filter)
  then have get: "dict_get ?m (lower e) = Some i
      \<longleftrightarrow> (\<exists>u \<in> set users. lower (usr_email u) = lower e \<and> usr_id u = i)"
    if "e \<in> set ?emails" for e i
    using that by (auto simp: email_map_get us)
  have "set (user_group_mappings ?m source gs) = reported_members users source gs"
  proof (intro set_eqI, clarify)
    fix i n
    show "(i, n) \<in> set (user_group_mappings ?m source gs) \<longleftrightarrow> (i, n) \<in> reported_members users source gs"
      (is "?l \<longleftrightarrow> ?r")
    proof
      assume ?l
      then obtain g e where ge: "g \<in> set gs" "e \<in> set (eug_emails g)" "dict_get ?m (lower e) = Some i"
        "n = build_ext_group_name_for_onyx (eug_id g) source"
        by (auto simp: user_group_mappings_iff)
      moreover from ge have "e \<in> set ?emails" by auto
      ultimately obtain u where "u \<in> set users" "lower (usr_email u) = lower e" "usr_id u = i"
        using get by blast
      then show ?r using ge unfolding reported_members_def by blast
    next
      assume ?r
      then obtain u g where ug: "u \<in> set users" "g \<in> set gs" "usr_id u = i"
        "lower (usr_email u) \<in> lower ` set (eug_emails g)"
        "n = build_ext_group_name_for_onyx (eug_id g) source" by (auto simp: reported_members_def)
      then obtain e where e: "e \<in> set (eug_emails g)" "lower (usr_email u) = lower e" by blast
      then have "e \<in> set ?emails" using ug by auto
      then have "dict_get ?m (lower e) = Some i" using get ug e by blast
      then show ?l using ug e unfolding user_group_mappings_iff by blast
    qed
  qed
  moreover have "set (public_group_mappings source gs) = reported_public source gs"
    by (auto simp: public_group_mappings_def reported_public_def)
  ultimately have "set (t_user_ext_groups db')
        = refreshed cc (reported_members users source gs) (set (t_user_ext_groups db))
      \<and> set (t_public_ext_groups db')
        = refreshed_public cc (reported_public source gs) (set (t_public_ext_groups db))"
    by (simp add: db' db1 Let_def upsert_user_rows_set upsert_public_rows_set refreshed_def
        refreshed_public_def)
  moreover have "lower ` set (eug_emails g) \<subseteq> (lower \<circ> usr_email) ` set users" if "g \<in> set gs" for g
  proof -
    have "lower ` set (eug_emails g) \<subseteq> lower ` set ?emails" using that by auto
    also have "\<dots> \<subseteq> (lower \<circ> usr_email) ` set users" using ok db1 by simp
    finally show ?thesis .
  qed
  ultimately show ?thesis using ok users db1 by (simp add: emails_unique_def)
qed

section \<open>What a synchronisation leaves in the tables\<close>

lemma reported_members_iff: "(i, n) \<in> reported_members users source gs \<longleftrightarrow>
    (\<exists>g \<in> set gs. n = build_ext_group_name_for_onyx (eug_id g) source
      \<and> (\<exists>u \<in> set users. usr_id u = i \<and> lower (usr_email u) \<in> lower ` set (eug_emails g)))"
  unfolding reported_members_def by blast

lemma reported_members_stable:
  assumes "distinct (map (lower \<circ> usr_email) users')" and "set users \<subseteq> set users'"
    and "\<forall>g \<in> set gs. lower ` set (eug_emails g) \<subseteq> (lower \<circ> usr_email) ` set users"
  shows "reported_members users source gs = reported_members users' source gs"
proof
  show "reported_members users source gs \<subseteq> reported_members users' source gs"
    using assms(2) by (clarsimp simp: reported_members_iff) blast
  show "reported_members users' source gs \<subseteq> reported_members users source gs"
  proof clarify
    fix i n assume "(i, n) \<in> reported_members users' source gs"
    then obtain u g where ug: "u \<in> set users'" "g \<in> set gs" "usr_id u = i"
      "lower (usr_email u) \<in> lower ` set (eug_emails g)"
      "n = build_ext_group_name_for_onyx (eug_id g) source" unfolding reported_members_iff by blast
    have "lower (usr_email u) \<in> (lower \<circ> usr_email) ` set users" using assms(3) ug(2,4) by blast
    then obtain v where v: "v \<in> set users" "lower (usr_email v) = lower (usr_email u)" by auto
    then have "v = u"
      using assms(1,2) ug(1) inj_onD [of "lower \<circ> usr_email" "set users'" v u]
      by (simp add: distinct_map subset_iff)
    then show "(i, n) \<in> reported_members users source gs"
      using v(1) ug unfolding reported_members_iff by blast
  qed
qed

lemma reported_members_append:
  "reported_members users source (gs @ hs) = reported_members users source gs \<union> reported_members users source hs"
  by (intro set_eqI) (clarsimp simp: reported_members_iff; blast)

lemma reported_public_append:
  "reported_public source (gs @ hs) = reported_public source gs \<union> reported_public source hs"
  by (auto simp: reported_public_def)

definition synced ::
  "int \<Rightarrow> string \<Rightarrow> external_user_group list \<Rightarrow> access_db \<Rightarrow> access_db \<Rightarrow> bool" where
  "synced cc source gs db db' \<longleftrightarrow> emails_unique db' \<and> set (t_users db) \<subseteq> set (t_users db')
    \<and> (\<forall>g \<in> set gs. lower ` set (eug_emails g) \<subseteq> (lower \<circ> usr_email) ` set (t_users db'))
    \<and> set (t_user_ext_groups db')
        = refreshed cc (reported_members (t_users db') source gs) (set (t_user_ext_groups db))
    \<and> set (t_public_ext_groups db')
        = refreshed_public cc (reported_public source gs) (set (t_public_ext_groups db))"

lemma synced_trans:
  assumes "synced cc source gs db db1" and "synced cc source hs db1 db2"
  shows "synced cc source (gs @ hs) db db2"
proof -
  have "reported_members (t_users db1) source gs = reported_members (t_users db2) source gs"
    using assms unfolding synced_def emails_unique_def by (intro reported_members_stable) blast+
  moreover have "\<forall>g \<in> set (gs @ hs). lower ` set (eug_emails g) \<subseteq> (lower \<circ> usr_email) ` set (t_users db2)"
  proof
    fix g assume g: "g \<in> set (gs @ hs)"
    have sub: "(lower \<circ> usr_email) ` set (t_users db1) \<subseteq> (lower \<circ> usr_email) ` set (t_users db2)"
      using assms(2) unfolding synced_def by (intro image_mono) blast
    show "lower ` set (eug_emails g) \<subseteq> (lower \<circ> usr_email) ` set (t_users db2)"
    proof (cases "g \<in> set gs")
      case True
      then have "lower ` set (eug_emails g) \<subseteq> (lower \<circ> usr_email) ` set (t_users db1)"
        using assms(1) unfolding synced_def by blast
      then show ?thesis using sub by (rule subset_trans)
    next
      case False
      with g have "g \<in> set hs" by simp
      then show ?thesis using assms(2) unfolding synced_def by blast
    qed
  qed
  moreover have "set (t_users db) \<subseteq> set (t_users db2)"
  proof (rule subset_trans)
    show "set (t_users db) \<subseteq> set (t_users db1)" using assms(1) by (simp add: synced_def)
    show "set (t_users db1) \<subseteq> set (t_users db2)" using assms(2) by (simp add: synced_def)
  qed
  moreover have "set (t_user_ext_groups db2)
      = refreshed cc (reported_members (t_users db2) source (gs @ hs)) (set (t_user_ext_groups db))"
  proof -
    have "set (t_user_ext_groups db2) = refreshed cc (reported_members (t_users db2) source hs)
        (refreshed cc (reported_members (t_users db1) source gs) (set (t_user_ext_groups db)))"
      using assms unfolding synced_def by metis
    also note \<open>reported_members (t_users db1) source gs = _\<close>
    finally show ?thesis by (simp only: refreshed_twice reported_members_append)
  qed
  moreover have "set (t_public_ext_groups db2)
      = refreshed_public cc (reported_public source (gs @ hs)) (set (t_public_ext_groups db))"
  proof -
    have "set (t_public_ext_groups db2) = refreshed_public cc (reported_public source hs)
        (refreshed_public cc (reported_public source gs) (set (t_public_ext_groups db)))"
      using assms unfolding synced_def by metis
    then show ?thesis by (simp only: refreshed_public_twice reported_public_append)
  qed
  moreover have "emails_unique db2" using assms(2) by (simp add: synced_def)
  ultimately show ?thesis unfolding synced_def by blast
qed

lemma sync_groups_ok:
  "sync_groups fresh cc source db batch gs ending = (db', None) \<Longrightarrow> emails_unique db \<Longrightarrow>
     synced cc source (batch @ map fst gs) db db'"
proof (induction fresh cc source db batch gs ending arbitrary: db' rule: sync_groups.induct)
  case (1 fresh cc source db batch ending)
  then show ?case using upsert_ok by (auto simp: synced_def split: option.splits)
next
  case (2 fresh cc source db batch g timed_out gs ending)
  have t: "\<not> timed_out" using "2.prems"(1) by (auto split: if_splits)
  show ?case
  proof (cases "length (batch @ [g]) \<ge> external_group_batch_size")
    case True
    with t "2.prems"(1) obtain db1 where up: "upsert_external_groups fresh db cc (batch @ [g]) source = (db1, None)"
      and rest: "sync_groups fresh cc source db1 [] gs ending = (db', None)"
      by (auto split: prod.splits option.splits)
    have one: "synced cc source (batch @ [g]) db db1"
      using upsert_ok [OF up "2.prems"(2)] by (simp add: synced_def)
    then have "emails_unique db1" by (simp add: synced_def)
    then have "synced cc source ([] @ map fst gs) db1 db'"
      using "2.IH"(1) t True up rest by auto
    then show ?thesis using synced_trans [OF one] by simp
  next
    case False
    then show ?thesis using "2.IH"(2) "2.prems" t by auto
  qed
qed

lemma mark_old_rows:
  "set (t_user_ext_groups (mark_old_external_groups_as_stale db cc)) =
     (\<lambda>r. r\<lparr>xug_stale := True\<rparr>) ` {r \<in> set (t_user_ext_groups db). xug_cc_pair r = cc}
     \<union> {r \<in> set (t_user_ext_groups db). xug_cc_pair r \<noteq> cc}"
  "set (t_public_ext_groups (mark_old_external_groups_as_stale db cc)) =
     (\<lambda>r. r\<lparr>xpg_stale := True\<rparr>) ` {r \<in> set (t_public_ext_groups db). xpg_cc_pair r = cc}
     \<union> {r \<in> set (t_public_ext_groups db). xpg_cc_pair r \<noteq> cc}"
  by (simp_all add: mark_old_external_groups_as_stale_def Int_def)

lemma stale_start:
  assumes "xug_cc_pair r = cc" and "r \<in> set (t_user_ext_groups (mark_old_external_groups_as_stale db cc))"
  shows "xug_stale r"
  using assms unfolding mark_old_rows by (elim UnE imageE) simp_all

lemma stale_start_public:
  assumes "xpg_cc_pair r = cc" and "r \<in> set (t_public_ext_groups (mark_old_external_groups_as_stale db cc))"
  shows "xpg_stale r"
  using assms unfolding mark_old_rows by (elim UnE imageE) simp_all

text \<open>C14: A synchronisation that completes leaves, for its connector pair, exactly the memberships and
  public groups the source reported, each reported member having a user; the rows of every other
  connector pair are untouched.\<close>

theorem sync_replaces_memberships:
  assumes "perform_external_group_sync fresh db cc (gs, ending) = (db', None)" and "emails_unique db"
  shows "\<exists>source. cc_pair_source db cc = Some source
    \<and> {r \<in> set (t_user_ext_groups db'). xug_cc_pair r = cc}
        = (\<lambda>k. \<lparr>xug_user = fst k, xug_group = snd k, xug_cc_pair = cc, xug_stale = False\<rparr>)
            ` reported_members (t_users db') source (map fst gs)
    \<and> {q \<in> set (t_public_ext_groups db'). xpg_cc_pair q = cc}
        = (\<lambda>g. \<lparr>xpg_group = g, xpg_cc_pair = cc, xpg_stale = False\<rparr>) ` reported_public source (map fst gs)
    \<and> {r \<in> set (t_user_ext_groups db'). xug_cc_pair r \<noteq> cc}
        = {r \<in> set (t_user_ext_groups db). xug_cc_pair r \<noteq> cc}
    \<and> {q \<in> set (t_public_ext_groups db'). xpg_cc_pair q \<noteq> cc}
        = {q \<in> set (t_public_ext_groups db). xpg_cc_pair q \<noteq> cc}
    \<and> (\<forall>g \<in> fst ` set gs. lower ` set (eug_emails g) \<subseteq> (lower \<circ> usr_email) ` set (t_users db'))"
proof -
  let ?db0 = "mark_old_external_groups_as_stale (remove_stale_external_groups db cc) cc"
  obtain source db1 where src: "cc_pair_source db cc = Some source"
    and run: "sync_groups fresh cc source ?db0 [] gs ending = (db1, None)"
    and db': "db' = remove_stale_external_groups db1 cc"
    using assms(1) by (auto simp: perform_external_group_sync_def split: option.splits prod.splits if_splits)
  have "emails_unique ?db0"
    using assms(2) by (simp add: emails_unique_def mark_old_external_groups_as_stale_def
        remove_stale_external_groups_def)
  from sync_groups_ok [OF run this] have s: "synced cc source (map fst gs) ?db0 db1" by simp
  have u: "set (t_user_ext_groups db') = {r \<in> refreshed cc (reported_members (t_users db1) source (map fst gs))
      (set (t_user_ext_groups ?db0)). \<not> (xug_cc_pair r = cc \<and> xug_stale r)}"
    and p: "set (t_public_ext_groups db') = {r \<in> refreshed_public cc (reported_public source (map fst gs))
      (set (t_public_ext_groups ?db0)). \<not> (xpg_cc_pair r = cc \<and> xpg_stale r)}"
    and users: "t_users db' = t_users db1"
    using s by (simp_all add: db' remove_stale_external_groups_def synced_def)
  have other: "{r \<in> set (t_user_ext_groups ?db0). xug_cc_pair r \<noteq> cc} = {r \<in> set (t_user_ext_groups db). xug_cc_pair r \<noteq> cc}"
    "{q \<in> set (t_public_ext_groups ?db0). xpg_cc_pair q \<noteq> cc} = {q \<in> set (t_public_ext_groups db). xpg_cc_pair q \<noteq> cc}"
    unfolding mark_old_rows by (auto simp: remove_stale_external_groups_def)
  show ?thesis
  proof (intro exI [of _ source] conjI)
    show "cc_pair_source db cc = Some source" by (rule src)
    show "{r \<in> set (t_user_ext_groups db'). xug_cc_pair r = cc}
        = (\<lambda>k. \<lparr>xug_user = fst k, xug_group = snd k, xug_cc_pair = cc, xug_stale = False\<rparr>)
            ` reported_members (t_users db') source (map fst gs)"
      unfolding u users refreshed_def using stale_start by auto
    show "{q \<in> set (t_public_ext_groups db'). xpg_cc_pair q = cc}
        = (\<lambda>g. \<lparr>xpg_group = g, xpg_cc_pair = cc, xpg_stale = False\<rparr>) ` reported_public source (map fst gs)"
      unfolding p refreshed_public_def using stale_start_public by auto
    show "{r \<in> set (t_user_ext_groups db'). xug_cc_pair r \<noteq> cc} = {r \<in> set (t_user_ext_groups db). xug_cc_pair r \<noteq> cc}"
      unfolding u other(1) [symmetric] refreshed_def by auto
    show "{q \<in> set (t_public_ext_groups db'). xpg_cc_pair q \<noteq> cc} = {q \<in> set (t_public_ext_groups db). xpg_cc_pair q \<noteq> cc}"
      unfolding p other(2) [symmetric] refreshed_public_def by auto
    show "\<forall>g \<in> fst ` set gs. lower ` set (eug_emails g) \<subseteq> (lower \<circ> usr_email) ` set (t_users db')"
      using s users by (auto simp: synced_def)
  qed
qed

text \<open>A Google Drive connector with one outdated membership, for the witnesses.\<close>

definition example_sync_db :: access_db where
  "example_sync_db = example_db\<lparr>
     t_connectors := [\<lparr>con_id = 1, con_source = ''google_drive'', con_file_locations = None\<rparr>],
     t_user_ext_groups := [\<lparr>xug_user = 7, xug_group = ''google_drive_old'', xug_cc_pair = 5, xug_stale = False\<rparr>]\<rparr>"

definition example_group :: external_user_group where
  "example_group = \<lparr>eug_id = ''Eng'', eug_emails = [''A@x'', ''b@x''], eug_gives_anyone_access = False\<rparr>"

lemma example_sync_run:
  "snd (perform_external_group_sync (\<lambda>us. 8) example_sync_db 5 ([(example_group, False)], None)) = None"
  by code_simp

lemma sync_replaces_memberships_witness:
  "\<exists>db'. perform_external_group_sync (\<lambda>us. 8) example_sync_db 5 ([(example_group, False)], None) = (db', None)
    \<and> (\<exists>source. {r \<in> set (t_user_ext_groups db'). xug_cc_pair r = 5}
        = (\<lambda>k. \<lparr>xug_user = fst k, xug_group = snd k, xug_cc_pair = 5, xug_stale = False\<rparr>)
            ` reported_members (t_users db') source [example_group])"
proof -
  obtain db' where run:
    "perform_external_group_sync (\<lambda>us. 8) example_sync_db 5 ([(example_group, False)], None) = (db', None)"
    using example_sync_run by (metis prod.collapse)
  have "emails_unique example_sync_db"
    by (simp add: emails_unique_def example_sync_db_def example_db_def)
  from sync_replaces_memberships [OF run this] show ?thesis using run by auto
qed

text \<open>A failing run never takes a current membership away from a group it did not reach.\<close>

lemma refreshed_keeps:
  assumes "r \<in> R" and "xug_cc_pair r = cc"
  shows "\<exists>r' \<in> refreshed cc M R. xug_user r' = xug_user r \<and> xug_group r' = xug_group r \<and> xug_cc_pair r' = cc"
proof (cases "(xug_user r, xug_group r) \<in> M")
  case True
  then have "\<lparr>xug_user = xug_user r, xug_group = xug_group r, xug_cc_pair = cc, xug_stale = False\<rparr>
      \<in> refreshed cc M R"
    unfolding refreshed_def by (intro UnI1 image_eqI [where x = "(xug_user r, xug_group r)"]) simp_all
  then show ?thesis by (rule rev_bexI) simp
next
  case False
  then show ?thesis using assms unfolding refreshed_def by (intro bexI [of _ r]) simp_all
qed

definition grants :: "access_db \<Rightarrow> int \<Rightarrow> uuid \<Rightarrow> string \<Rightarrow> bool" where
  "grants db cc i n \<longleftrightarrow>
     (\<exists>r \<in> set (t_user_ext_groups db). xug_cc_pair r = cc \<and> xug_user r = i \<and> xug_group r = n)"

lemma upsert_rows_on_error:
  "upsert_external_groups fresh db cc gs source = (db', Some e) \<Longrightarrow>
     t_user_ext_groups db' = t_user_ext_groups db"
  by (auto simp: upsert_external_groups_def batch_add_ext_perm_user_if_not_exists_def Let_def
      split: if_splits prod.splits sum.splits option.splits)

lemma upsert_grants:
  assumes "upsert_external_groups fresh db cc gs source = (db', None)" and "emails_unique db"
    and "grants db cc i n"
  shows "grants db' cc i n"
proof -
  obtain r where r: "r \<in> set (t_user_ext_groups db)" "xug_cc_pair r = cc" "xug_user r = i" "xug_group r = n"
    using assms(3) by (auto simp: grants_def)
  have "set (t_user_ext_groups db')
      = refreshed cc (reported_members (t_users db') source gs) (set (t_user_ext_groups db))"
    using upsert_ok [OF assms(1,2)] by blast
  with refreshed_keeps [OF r(1,2), of "reported_members (t_users db') source gs"] r show ?thesis
    by (auto simp: grants_def)
qed

lemma sync_groups_grants:
  "sync_groups fresh cc source db batch gs ending = (db', res) \<Longrightarrow> emails_unique db \<Longrightarrow>
     grants db cc i n \<Longrightarrow> grants db' cc i n"
proof (induction fresh cc source db batch gs ending arbitrary: db' rule: sync_groups.induct)
  case (1 fresh cc source db batch ending)
  show ?case
  proof (cases ending)
    case None
    then have up: "upsert_external_groups fresh db cc batch source = (db', res)" using "1.prems"(1) by simp
    show ?thesis
    proof (cases res)
      case None
      then show ?thesis using upsert_grants "1.prems"(2,3) up by blast
    next
      case (Some e)
      then show ?thesis using upsert_rows_on_error up "1.prems"(3) by (auto simp: grants_def)
    qed
  qed (use "1.prems" in auto)
next
  case (2 fresh cc source db batch g timed_out gs ending)
  obtain db1 r1 where up: "upsert_external_groups fresh db cc (batch @ [g]) source = (db1, r1)"
    by (cases "upsert_external_groups fresh db cc (batch @ [g]) source")
  show ?case
  proof (cases "timed_out \<or> \<not> length (batch @ [g]) \<ge> external_group_batch_size")
    case True
    then show ?thesis using "2.IH"(2) "2.prems" by (auto split: if_splits)
  next
    case False
    show ?thesis
    proof (cases r1)
      case None
      then have "emails_unique db1" "grants db1 cc i n"
        using upsert_ok [of fresh db cc "batch @ [g]" source db1]
          upsert_grants [of fresh db cc "batch @ [g]" source db1] "2.prems"(2,3) up by simp_all
      then show ?thesis using "2.IH"(1) "2.prems" False up None by auto
    next
      case (Some e)
      then have "t_user_ext_groups db1 = t_user_ext_groups db" using upsert_rows_on_error up by blast
      then show ?thesis using "2.prems" False up Some by (auto simp: grants_def)
    qed
  qed
qed



lemma insert_users_errors: "snd (insert_users f False es us) \<in> {None, Some IntegrityError}"
  by (induction es arbitrary: us) auto

text \<open>A group that lists one unknown person under two spellings of the address (differing in case)
  makes the upsert fail: the person is inserted twice and the second insertion violates the
  uniqueness of addresses.\<close>

theorem case_variants_abort_upsert:
  assumes "g \<in> set gs" and "e1 \<in> set (eug_emails g)" and "e2 \<in> set (eug_emails g)"
    and "e1 \<noteq> e2" and "lower e1 = lower e2"
    and "lower e1 \<notin> (lower \<circ> usr_email) ` set (t_users db)" and "emails_unique db"
  shows "snd (upsert_external_groups fresh db cc gs source) = Some IntegrityError"
proof -
  let ?emails = "dedup (concat (map eug_emails gs))"
  let ?missing = "snd (get_users_by_emails db (map lower ?emails))"
  let ?P = "\<lambda>x. x \<notin> set (map (lower \<circ> usr_email)
      [u \<leftarrow> t_users db. lower (usr_email u) \<in> set (map lower ?emails)])"
  have mem: "e1 \<in> set ?emails" "e2 \<in> set ?emails" using assms(1-3) by auto
  have P: "?P (lower e1)" "?P (lower e2)" using assms(5,6) by (auto simp: image_iff)
  have miss: "?missing = map lower (filter (?P \<circ> lower) ?emails)"
    by (simp add: get_users_by_emails_def Let_def filter_map)
  have "\<not> distinct ?missing"
  proof
    assume "distinct ?missing"
    then have "inj_on lower (set (filter (?P \<circ> lower) ?emails))"
      unfolding miss distinct_map by blast
    moreover have "e1 \<in> set (filter (?P \<circ> lower) ?emails)" "e2 \<in> set (filter (?P \<circ> lower) ?emails)"
      using mem P unfolding set_filter comp_apply by blast+
    ultimately show False using inj_onD assms(4,5) by metis
  qed
  moreover have "\<forall>e \<in> set ?missing. lower e = e \<and> e \<notin> (lower \<circ> usr_email) ` set (t_users db)"
    by (fastforce simp: get_users_by_emails_def Let_def image_iff)
  ultimately have "snd (insert_users fresh False ?missing (t_users db)) \<noteq> None"
    using insert_users_ok [of fresh ?missing "t_users db"] assms(7)
    by (metis emails_unique_def prod.collapse)
  moreover have "snd (insert_users fresh False ?missing (t_users db)) \<in> {None, Some IntegrityError}"
    using insert_users_errors .
  ultimately have ins: "snd (insert_users fresh False ?missing (t_users db)) = Some IntegrityError"
    by (metis insertE singletonD)
  then obtain users where "insert_users fresh False ?missing (t_users db) = (users, Some IntegrityError)"
    by (metis prod.collapse)
  moreover have "gs \<noteq> []" using assms(1) by auto
  ultimately show ?thesis
    by (simp add: upsert_external_groups_def batch_add_ext_perm_user_if_not_exists_def)
qed

lemma case_variants_abort_upsert_witness:
  "snd (upsert_external_groups (\<lambda>us. 8) example_sync_db 5
     [\<lparr>eug_id = ''Eng'', eug_emails = [''Bo@x'', ''bo@x''], eug_gives_anyone_access = False\<rparr>]
     ''google_drive'') = Some IntegrityError"
proof (rule case_variants_abort_upsert)
  show "lower ''Bo@x'' = lower ''bo@x''" by code_simp
  show "lower ''Bo@x'' \<notin> (lower \<circ> usr_email) ` set (t_users example_sync_db)" by code_simp
  show "emails_unique example_sync_db"
    by (simp add: emails_unique_def example_sync_db_def example_db_def)
qed (rule list.set_intros, simp_all)

section \<open>Censoring after the query\<close>

text \<open>
  Of an \<open>InferenceChunk\<close> the censoring step uses the source, the document and the index; \<open>content\<close>
  stands for the rest of the chunk, which a censoring function may rewrite.  The censoring functions
  of the sources are arguments.
\<close>

record 'c chunk =
  ch_document :: string
  ch_id :: int
  ch_source :: string
  ch_content :: 'c

text \<open>\<open>InferenceChunk.unique_id\<close>\<close>

definition unique_id :: "'c chunk \<Rightarrow> string" where
  "unique_id c = ch_document c @ ''__'' @ int_str (ch_id c)"

definition censoring_enabled_sources :: "access_db \<Rightarrow> string set" where
  "censoring_enabled_sources db =
     set [con_source n. c \<leftarrow> t_cc_pairs db, ccp_access c = SYNC, n \<leftarrow> t_connectors db,
        con_id n = ccp_connector c \<and> con_source n \<in> get_all_censoring_enabled_sources]"

fun split_chunks :: "string set \<Rightarrow> 'c chunk list \<Rightarrow> (string, 'c chunk) dict \<Rightarrow> (string, 'c chunk list) dict
    \<Rightarrow> (string, 'c chunk) dict \<times> (string, 'c chunk list) dict" where
  "split_chunks srcs [] final to_process = (final, to_process)"
| "split_chunks srcs (c # cs) final to_process =
     (if ch_source c \<in> srcs
      then split_chunks srcs cs final (dict_set (ch_source c)
             ((case dict_get to_process (ch_source c) of None \<Rightarrow> [] | Some xs \<Rightarrow> xs) @ [c]) to_process)
      else split_chunks srcs cs (dict_set (unique_id c) c final) to_process)"

fun censor_sources :: "(string \<Rightarrow> 'c chunk list \<Rightarrow> string \<Rightarrow> 'c chunk list result) \<Rightarrow> string
    \<Rightarrow> (string, 'c chunk list) dict \<Rightarrow> (string, 'c chunk) dict \<Rightarrow> (string, 'c chunk) dict result" where
  "censor_sources censor email [] final = Inr final"
| "censor_sources censor email ((source, cs) # rest) final =
     (case get_source_perm_sync_config source of
        None \<Rightarrow> Inl ValueError
      | Some cfg \<Rightarrow>
          if censoring_config cfg = None then Inl ValueError
          else (case censor source cs email of
                  Inl e \<Rightarrow> censor_sources censor email rest final
                | Inr kept \<Rightarrow> censor_sources censor email rest
                    (dict_update final (map (\<lambda>c. (unique_id c, c)) kept))))"

definition post_query_chunk_censoring ::
  "(string \<Rightarrow> 'c chunk list \<Rightarrow> string \<Rightarrow> 'c chunk list result) \<Rightarrow> access_db \<Rightarrow> 'c chunk list
     \<Rightarrow> user_row \<Rightarrow> 'c chunk list result" where
  "post_query_chunk_censoring censor db chunks u =
    (let sources_to_censor = censoring_enabled_sources db in
     if is_anonymous u then Inr [c \<leftarrow> chunks. ch_source c \<notin> sources_to_censor]
     else (case split_chunks sources_to_censor chunks [] [] of (final, to_process) \<Rightarrow>
       bind_r (censor_sources censor (usr_email u) to_process final) (\<lambda>final'.
         Inr (concat (map (\<lambda>c. case dict_get final' (unique_id c) of None \<Rightarrow> [] | Some c' \<Rightarrow> [c']) chunks)))))"

lemma split_chunks_get:
  "split_chunks srcs cs final pr = (final', pr') \<Longrightarrow> distinct (map unique_id cs) \<Longrightarrow>
   dict_get final' k = (case find (\<lambda>c. ch_source c \<notin> srcs \<and> unique_id c = k) cs of
       Some c \<Rightarrow> Some c | None \<Rightarrow> dict_get final k)
   \<and> dict_get pr' s = (let xs = filter (\<lambda>c. ch_source c = s) cs in
       if s \<in> srcs \<and> xs \<noteq> [] then Some ((case dict_get pr s of None \<Rightarrow> [] | Some ys \<Rightarrow> ys) @ xs)
       else dict_get pr s)"
proof (induction srcs cs final pr rule: split_chunks.induct)
  case (2 srcs c cs final pr)
  show ?case
  proof (cases "ch_source c \<in> srcs")
    case True
    then show ?thesis using "2.IH"(1) "2.prems" by (auto simp: Let_def split: option.splits)
  next
    case False
    have "unique_id c = k \<Longrightarrow> find (\<lambda>c. ch_source c \<notin> srcs \<and> unique_id c = k) cs = None"
      using "2.prems"(2) by (auto simp: find_None_iff) (metis image_eqI)
    then show ?thesis using "2.IH"(2) "2.prems" False by (auto simp: Let_def split: option.splits)
  qed
qed (simp add: Let_def)

lemma split_chunks_keys:
  "split_chunks srcs cs final pr = (final', pr') \<Longrightarrow> distinct (dict_keys pr) \<Longrightarrow> distinct (dict_keys pr')"
  by (induction srcs cs final pr rule: split_chunks.induct) (auto split: if_splits)

definition ids :: "'c chunk list \<Rightarrow> string set" where
  "ids cs = unique_id ` set cs"

definition kept_chunk :: "'c chunk list result \<Rightarrow> string \<Rightarrow> 'c chunk option" where
  "kept_chunk r k = (case r of Inl e \<Rightarrow> None | Inr kept \<Rightarrow> find (\<lambda>c. unique_id c = k) (rev kept))"

lemma dict_update_chunks_get:
  "dict_get (dict_update final (map (\<lambda>c. (unique_id c, c)) kept)) k
     = (case find (\<lambda>c. unique_id c = k) (rev kept) of Some c \<Rightarrow> Some c | None \<Rightarrow> dict_get final k)"
proof -
  have "find P (rev xs) = (if filter P xs = [] then None else Some (last (filter P xs)))"
    for P :: "'a chunk \<Rightarrow> bool" and xs
    by (induction xs rule: rev_induct) auto
  then show ?thesis
    by (auto simp: dict_update_map_get filter_empty_conv image_iff split: option.splits)
qed

lemma censor_sources_get:
  assumes "\<forall>s \<in> fst ` set rest. \<exists>cfg. get_source_perm_sync_config s = Some cfg \<and> censoring_config cfg \<noteq> None"
    and "\<forall>s cs kept. censor s cs email = Inr kept \<longrightarrow> ids kept \<subseteq> ids cs"
    and "pairwise (\<lambda>p q. ids (snd p) \<inter> ids (snd q) = {}) (set rest)" and "distinct rest"
  shows "\<exists>final'. censor_sources censor email rest final = Inr final'
    \<and> (\<forall>k. (\<forall>s cs. (s, cs) \<in> set rest \<longrightarrow> k \<notin> ids cs) \<longrightarrow> dict_get final' k = dict_get final k)
    \<and> (\<forall>s cs k. (s, cs) \<in> set rest \<longrightarrow> k \<in> ids cs \<longrightarrow> dict_get final' k
         = (case kept_chunk (censor s cs email) k of Some c \<Rightarrow> Some c | None \<Rightarrow> dict_get final k))"
  using assms
proof (induction rest arbitrary: final)
  case (Cons p rest)
  obtain s cs where p: "p = (s, cs)" by (cases p)
  obtain cfg where cfg: "get_source_perm_sync_config s = Some cfg" "censoring_config cfg \<noteq> None"
    using Cons.prems(1) p by auto
  define next_final where "next_final = (case censor s cs email of Inl e \<Rightarrow> final
    | Inr kept \<Rightarrow> dict_update final (map (\<lambda>c. (unique_id c, c)) kept))"
  have step: "censor_sources censor email (p # rest) final = censor_sources censor email rest next_final"
    using cfg by (simp add: p next_final_def split: sum.splits)
  have nf: "dict_get next_final k
      = (case kept_chunk (censor s cs email) k of Some c \<Rightarrow> Some c | None \<Rightarrow> dict_get final k)" for k
    by (simp add: next_final_def kept_chunk_def dict_update_chunks_get split: sum.splits)
  have out: "kept_chunk (censor s cs email) k = None" if "k \<notin> ids cs" for k
  proof (cases "censor s cs email")
    case (Inr kept)
    then have "ids kept \<subseteq> ids cs" using Cons.prems(2) by blast
    then show ?thesis using that Inr by (auto simp: kept_chunk_def find_None_iff ids_def)
  qed (simp add: kept_chunk_def)
  have disj: "ids cs \<inter> ids cs' = {}" if "(s', cs') \<in> set rest" for s' cs'
    using Cons.prems(3,4) that p unfolding pairwise_def
    by (metis distinct.simps(2) list.set_intros snd_conv)
  have pw: "pairwise (\<lambda>p q. ids (snd p) \<inter> ids (snd q) = {}) (set rest)" and dist: "distinct rest"
    using Cons.prems(3,4) by (auto simp: pairwise_insert)
  have cfgs: "\<forall>s \<in> fst ` set rest. \<exists>cfg. get_source_perm_sync_config s = Some cfg \<and> censoring_config cfg \<noteq> None"
    using Cons.prems(1) by simp
  obtain final' where run: "censor_sources censor email rest next_final = Inr final'"
    and other: "\<forall>k. (\<forall>s cs. (s, cs) \<in> set rest \<longrightarrow> k \<notin> ids cs) \<longrightarrow> dict_get final' k = dict_get next_final k"
    and inside: "\<forall>s cs k. (s, cs) \<in> set rest \<longrightarrow> k \<in> ids cs \<longrightarrow> dict_get final' k
         = (case kept_chunk (censor s cs email) k of Some c \<Rightarrow> Some c | None \<Rightarrow> dict_get next_final k)"
    using Cons.IH [OF cfgs Cons.prems(2) pw dist, where final = next_final] by (elim exE conjE) (rule that)
  have a: "dict_get final' k = dict_get final k"
    if "\<forall>s cs. (s, cs) \<in> set (p # rest) \<longrightarrow> k \<notin> ids cs" for k
  proof -
    have "k \<notin> ids cs" and "\<forall>s cs. (s, cs) \<in> set rest \<longrightarrow> k \<notin> ids cs" using that p by auto
    then show ?thesis using other nf [of k] out [of k] by simp
  qed
  have b: "dict_get final' k
      = (case kept_chunk (censor s cs email) k of Some c \<Rightarrow> Some c | None \<Rightarrow> dict_get final k)"
    if "k \<in> ids cs" for k
  proof -
    have "\<forall>s cs. (s, cs) \<in> set rest \<longrightarrow> k \<notin> ids cs" using that disj by blast
    then show ?thesis using other nf [of k] by simp
  qed
  have c: "dict_get final' k
      = (case kept_chunk (censor s' cs' email) k of Some c \<Rightarrow> Some c | None \<Rightarrow> dict_get final k)"
    if "(s', cs') \<in> set rest" "k \<in> ids cs'" for s' cs' k
  proof -
    have "k \<notin> ids cs" using that disj by blast
    then show ?thesis using inside that nf [of k] out [of k]
      by (cases "kept_chunk (censor s' cs' email) k") simp_all
  qed
  show ?case unfolding step run using a b c p by (intro exI [of _ final']) auto
qed simp

lemma censoring_sources_configured:
  "s \<in> censoring_enabled_sources db \<Longrightarrow>
     \<exists>cfg. get_source_perm_sync_config s = Some cfg \<and> censoring_config cfg \<noteq> None"
proof -
  assume "s \<in> censoring_enabled_sources db"
  then have "s \<in> get_all_censoring_enabled_sources"
    by (auto simp: censoring_enabled_sources_def split: if_splits)
  then show ?thesis
    by (auto simp: get_all_censoring_enabled_sources_def get_source_perm_sync_config_def
        source_to_sync_config_def)
qed

text \<open>The reference: each chunk on its own, against what its source's censoring function kept.\<close>

definition censored ::
  "(string \<Rightarrow> 'c chunk list \<Rightarrow> string \<Rightarrow> 'c chunk list result) \<Rightarrow> string set \<Rightarrow> string \<Rightarrow> 'c chunk list
     \<Rightarrow> 'c chunk \<Rightarrow> 'c chunk list" where
  "censored censor srcs email chunks c =
     (if ch_source c \<notin> srcs then [c]
      else (case kept_chunk (censor (ch_source c) [x \<leftarrow> chunks. ch_source x = ch_source c] email) (unique_id c) of
              None \<Rightarrow> [] | Some c' \<Rightarrow> [c']))"

text \<open>Censoring treats every chunk on its own and in place: a chunk of an uncensored source passes
  unchanged, a chunk of a censored source is replaced by what its source's function returned for it,
  and dropped when the function leaves it out or fails; the step itself never fails.\<close>

theorem censoring_is_chunkwise:
  assumes "\<not> is_anonymous u" and "distinct (map unique_id chunks)"
    and "\<forall>s cs kept. censor s cs (usr_email u) = Inr kept \<longrightarrow> ids kept \<subseteq> ids cs"
  shows "post_query_chunk_censoring censor db chunks u = Inr (concat (map
    (censored censor (censoring_enabled_sources db) (usr_email u) chunks) chunks))"
proof -
  let ?srcs = "censoring_enabled_sources db"
  let ?of = "\<lambda>s. [x \<leftarrow> chunks. ch_source x = s]"
  obtain final pr where sp: "split_chunks ?srcs chunks [] [] = (final, pr)"
    by (cases "split_chunks ?srcs chunks [] []")
  note get = split_chunks_get [OF sp assms(2)]
  have keys: "distinct (dict_keys pr)" using split_chunks_keys [OF sp] by simp
  have pr: "(s, cs) \<in> set pr \<longleftrightarrow> s \<in> ?srcs \<and> cs = ?of s \<and> cs \<noteq> []" for s cs
  proof -
    have "(s, cs) \<in> set pr \<longleftrightarrow> dict_get pr s = Some cs" using keys by (simp add: dict_get_def)
    then show ?thesis using get [of _ s] by (auto simp: Let_def split: if_splits)
  qed
  have one: "c = d" if "c \<in> set chunks" "d \<in> set chunks" "unique_id c = unique_id d" for c d
    using assms(2) that by (simp add: distinct_map inj_on_def)
  have pw: "pairwise (\<lambda>p q. ids (snd p) \<inter> ids (snd q) = {}) (set pr)"
  proof (rule pairwiseI)
    fix p q assume pq: "p \<in> set pr" "q \<in> set pr" "p \<noteq> q"
    have "fst p \<noteq> fst q" "snd p = ?of (fst p)" "snd q = ?of (fst q)"
      using pq pr [of "fst p" "snd p"] pr [of "fst q" "snd q"] by (auto simp: prod_eq_iff)
    then show "ids (snd p) \<inter> ids (snd q) = {}"
      unfolding ids_def by (auto dest: one)
  qed
  have dist: "distinct pr" using keys by (simp add: distinct_map)
  have cfgs: "\<forall>s \<in> fst ` set pr. \<exists>cfg. get_source_perm_sync_config s = Some cfg \<and> censoring_config cfg \<noteq> None"
  proof
    fix s assume "s \<in> fst ` set pr"
    then obtain cs where "(s, cs) \<in> set pr" by auto
    then show "\<exists>cfg. get_source_perm_sync_config s = Some cfg \<and> censoring_config cfg \<noteq> None"
      using pr [of s cs] censoring_sources_configured by blast
  qed
  obtain final' where run: "censor_sources censor (usr_email u) pr final = Inr final'"
    and other: "\<forall>k. (\<forall>s cs. (s, cs) \<in> set pr \<longrightarrow> k \<notin> ids cs) \<longrightarrow> dict_get final' k = dict_get final k"
    and inside: "\<forall>s cs k. (s, cs) \<in> set pr \<longrightarrow> k \<in> ids cs \<longrightarrow> dict_get final' k
        = (case kept_chunk (censor s cs (usr_email u)) k of Some c \<Rightarrow> Some c | None \<Rightarrow> dict_get final k)"
    using censor_sources_get [of pr censor "usr_email u" final, OF cfgs assms(3) pw dist] by (elim exE conjE) (rule that)
  have "(case dict_get final' (unique_id c) of None \<Rightarrow> [] | Some c' \<Rightarrow> [c'])
      = censored censor ?srcs (usr_email u) chunks c" if c: "c \<in> set chunks" for c
  proof (cases "ch_source c \<in> ?srcs")
    case True
    have "find (\<lambda>d. ch_source d \<notin> ?srcs \<and> unique_id d = unique_id c) chunks = None"
      using one c True by (auto simp: find_None_iff)
    then have "dict_get final (unique_id c) = None" using get [of "unique_id c"] by simp
    moreover have "(ch_source c, ?of (ch_source c)) \<in> set pr" "unique_id c \<in> ids (?of (ch_source c))"
      using c True by (auto simp: pr ids_def filter_empty_conv)
    ultimately show ?thesis using inside True by (simp add: censored_def split: option.splits)
  next
    case False
    have "\<forall>s cs. (s, cs) \<in> set pr \<longrightarrow> unique_id c \<notin> ids cs"
      using False one c by (auto simp: pr ids_def)
    moreover have "find (\<lambda>d. ch_source d \<notin> ?srcs \<and> unique_id d = unique_id c) chunks = Some c"
    proof -
      have "find (\<lambda>d. ch_source d \<notin> ?srcs \<and> unique_id d = unique_id c) chunks \<noteq> None"
        using c False by (auto simp: find_None_iff)
      then show ?thesis using one c by (auto simp: find_Some_iff)
    qed
    ultimately show ?thesis using other get [of "unique_id c"] False by (simp add: censored_def)
  qed
  then show ?thesis
    using assms(1) sp run by (simp add: post_query_chunk_censoring_def Let_def cong: map_cong)
qed

lemma censoring_is_chunkwise_witness:
  "post_query_chunk_censoring (\<lambda>s cs e. Inr (filter (\<lambda>c. ch_content c \<noteq> ''secret'') cs))
     (example_db\<lparr>t_connectors := [\<lparr>con_id = 1, con_source = ''salesforce'', con_file_locations = None\<rparr>],
        t_cc_pairs := [\<lparr>ccp_id = 5, ccp_connector = 1, ccp_credential = 2, ccp_access = SYNC,
          ccp_status = ACTIVE\<rparr>]\<rparr>)
     [\<lparr>ch_document = ''d'', ch_id = 0, ch_source = ''salesforce'', ch_content = ''secret''\<rparr>,
      \<lparr>ch_document = ''e'', ch_id = 0, ch_source = ''web'', ch_content = ''open''\<rparr>] example_owner
   = Inr [\<lparr>ch_document = ''e'', ch_id = 0, ch_source = ''web'', ch_content = ''open''\<rparr>]"
  (is "post_query_chunk_censoring ?f ?db ?cs _ = _")
proof -
  have srcs: "censoring_enabled_sources ?db = {''salesforce''}"
    by (auto simp: censoring_enabled_sources_def example_db_def get_all_censoring_enabled_sources_def
        source_to_sync_config_def)
  have "\<not> is_anonymous example_owner" by code_simp
  moreover have "distinct (map unique_id ?cs)" by code_simp
  moreover have "\<forall>s cs kept. ?f s cs (usr_email example_owner) = Inr kept \<longrightarrow> ids kept \<subseteq> ids cs"
    by (auto simp: ids_def)
  ultimately have "post_query_chunk_censoring ?f ?db ?cs example_owner = Inr (concat (map
      (censored ?f (censoring_enabled_sources ?db) (usr_email example_owner) ?cs) ?cs))"
    by (rule censoring_is_chunkwise)
  then show ?thesis by (simp add: srcs censored_def kept_chunk_def)
qed

end
