(* ===== verification/OsDocument.thy ===== *)
theory OsDocument
  imports Access
begin

text \<open>
  What the OpenSearch index stores: chunk identifiers (\<open>string_filtering.py\<close>,
  \<open>get_opensearch_doc_chunk_id\<close>), the metadata strings of \<open>onyx/connectors/models.py\<close>, the schema
  class of \<open>schema.py\<close>, the conversion of an Onyx chunk in \<open>opensearch_document_index.py\<close> and the
  enrichment of its content in \<open>chunk_content_enrichment.py\<close> with its inverse.  Hashing and JSON
  rendering are arguments.  Instants are microseconds since the epoch, in UTC.
\<close>

section \<open>Identifiers of chunks\<close>

definition max_document_id_encoded_length :: int where
  "max_document_id_encoded_length = 512"

datatype doc_id_error = DocumentIDTooLong | DocumentIDEmpty

definition safe_id_char :: "char \<Rightarrow> bool" where
  "safe_id_char c = (let n = (of_char c :: nat) in
     (65 \<le> n \<and> n \<le> 90) \<or> (97 \<le> n \<and> n \<le> 122) \<or> (48 \<le> n \<and> n \<le> 57)
       \<or> c \<in> {CHR ''_'', CHR ''.'', CHR ''-'', CHR 0x7E})"

text \<open>The characters kept are ASCII, so the encoded length is the length.\<close>

definition filter_and_validate_document_id :: "string \<Rightarrow> int \<Rightarrow> doc_id_error + string" where
  "filter_and_validate_document_id document_id max_encoded_length =
    (let filtered = filter safe_id_char document_id in
     if filtered = [] then Inl DocumentIDEmpty
     else if int (length filtered) \<ge> max_encoded_length then Inl DocumentIDTooLong
     else Inr filtered)"

record tenant_state =
  ts_tenant_id :: string
  ts_multitenant :: bool

definition tenant_id_prefix :: string where "tenant_id_prefix = ''tenant_''"

definition get_tenant_id_short_string :: "string \<Rightarrow> string" where
  "get_tenant_id_short_string tenant_id = take 8
     (if prefix tenant_id_prefix tenant_id then drop (length tenant_id_prefix) tenant_id else tenant_id)"

definition default_max_chunk_size :: int where "default_max_chunk_size = 512"

text \<open>\<open>blake2b\<close> gives the hexadecimal digest of a string for a digest size.  The exceptions are both
  kinds of \<open>ValueError\<close>; a digest size of zero or less is one too.\<close>

definition get_opensearch_doc_chunk_id ::
  "(string \<Rightarrow> nat \<Rightarrow> string) \<Rightarrow> tenant_state \<Rightarrow> string \<Rightarrow> int \<Rightarrow> int \<Rightarrow> string result" where
  "get_opensearch_doc_chunk_id blake2b tenant document_id chunk_index max_chunk_size =
    (let suffix = ''__'' @ int_str max_chunk_size @ ''__'' @ int_str chunk_index;
         tenant_prefix = (if ts_multitenant tenant
            then get_tenant_id_short_string (ts_tenant_id tenant) @ ''__'' else []);
         max_len = max_document_id_encoded_length - int (length suffix) - int (length tenant_prefix);
         digest_size = min ((max_len - 1) div 2) 64;
         sanitized = (case filter_and_validate_document_id document_id max_len of
            Inr s \<Rightarrow> Inr s
          | Inl DocumentIDEmpty \<Rightarrow> Inl ValueError
          | Inl DocumentIDTooLong \<Rightarrow>
              if digest_size < 1 then Inl ValueError
              else Inr (blake2b document_id (nat digest_size)))
     in bind_r sanitized (\<lambda>s.
        (case filter_and_validate_document_id (tenant_prefix @ s @ suffix) max_document_id_encoded_length of
           Inl _ \<Rightarrow> Inl ValueError
         | Inr i \<Rightarrow> Inr i)))"

section \<open>Metadata\<close>

definition index_separator :: string where "index_separator = ''===''"

datatype meta_value = Single string | Many "string list"

type_synonym metadata = "(string, meta_value) dict"

definition meta_strings :: "string \<times> meta_value \<Rightarrow> string list" where
  "meta_strings kv = (case snd kv of
       Many vs \<Rightarrow> map (\<lambda>v. fst kv @ index_separator @ v) vs
     | Single v \<Rightarrow> [fst kv @ index_separator @ v])"

definition convert_metadata_dict_to_list_of_strings :: "metadata \<Rightarrow> string list" where
  "convert_metadata_dict_to_list_of_strings metadata = concat (map meta_strings metadata)"

text \<open>\<open>item.split(INDEX_SEPARATOR, 1)\<close> unpacked into two names.\<close>

fun split_once :: "string \<Rightarrow> string \<Rightarrow> (string \<times> string) option" where
  "split_once sep [] = (if sep = [] then Some ([], []) else None)"
| "split_once sep (c # cs) =
     (if prefix sep (c # cs) then Some ([], drop (length sep) (c # cs))
      else map_option (\<lambda>(a, b). (c # a, b)) (split_once sep cs))"

fun read_metadata :: "string list \<Rightarrow> metadata \<Rightarrow> metadata result" where
  "read_metadata [] metadata = Inr metadata"
| "read_metadata (item # items) metadata = (case split_once index_separator item of
       None \<Rightarrow> Inl ValueError
     | Some (key, value) \<Rightarrow> read_metadata items (dict_set key
         (case dict_get metadata key of
            None \<Rightarrow> Single value
          | Some (Many vs) \<Rightarrow> Many (vs @ [value])
          | Some (Single v) \<Rightarrow> Many [v, value]) metadata))"

definition convert_metadata_list_of_strings_to_dict :: "string list \<Rightarrow> metadata result" where
  "convert_metadata_list_of_strings_to_dict metadata_list = read_metadata metadata_list []"

definition get_metadata_str_attributes :: "metadata \<Rightarrow> string list option" where
  "get_metadata_str_attributes metadata =
     (if metadata = [] then None else Some (convert_metadata_dict_to_list_of_strings metadata))"

section \<open>Titles, owners and clean text\<close>

definition return_separator :: string where
  "return_separator = [CHR 0x0A, CHR 0x0D, CHR 0x0A]"

text \<open>The code points up to 255 that \<open>_INVALID_UNICODE_CHARS_RE\<close> removes.\<close>

definition invalid_char :: "char \<Rightarrow> bool" where
  "invalid_char c = (let n = (of_char c :: nat) in n \<le> 8 \<or> n = 11 \<or> n = 12 \<or> (14 \<le> n \<and> n \<le> 31))"

definition remove_invalid_unicode_chars :: "string \<Rightarrow> string" where
  "remove_invalid_unicode_chars text = filter (\<lambda>c. \<not> invalid_char c) text"

definition get_title_for_document_index :: "string option \<Rightarrow> string \<Rightarrow> string option" where
  "get_title_for_document_index title semantic_identifier =
    (if title = Some [] then None
     else Some (strip (map (\<lambda>c. if c \<in> set return_separator then CHR '' '' else c)
       (case title of None \<Rightarrow> semantic_identifier | Some t \<Rightarrow> t))))"

record expert =
  ex_display_name :: "string option"
  ex_first_name :: "string option"
  ex_middle_initial :: "string option"
  ex_last_name :: "string option"
  ex_email :: "string option"

definition email_local_char :: "char \<Rightarrow> bool" where
  "email_local_char c = (let n = (of_char c :: nat) in
     (65 \<le> n \<and> n \<le> 90) \<or> (97 \<le> n \<and> n \<le> 122) \<or> (48 \<le> n \<and> n \<le> 57)
       \<or> c \<in> {CHR ''.'', CHR ''_'', CHR ''-''})"

definition email_host_char :: "char \<Rightarrow> bool" where
  "email_host_char c \<longleftrightarrow> email_local_char c \<and> c \<noteq> CHR ''_''"

definition letter :: "char \<Rightarrow> bool" where
  "letter c = (let n = (of_char c :: nat) in (65 \<le> n \<and> n \<le> 90) \<or> (97 \<le> n \<and> n \<le> 122))"

text \<open>The regular expression of \<open>is_valid_email\<close>: a local part, an at sign, a host, a dot and two or
  more letters; \<open>$\<close> also matches before a final newline.\<close>

definition is_valid_email :: "string \<Rightarrow> bool" where
  "is_valid_email text =
    (let t = (if text \<noteq> [] \<and> last text = CHR 0x0A then butlast text else text) in
     case split_once ''@'' t of
       None \<Rightarrow> False
     | Some (a, b) \<Rightarrow>
        (let tld = rev (takeWhile letter (rev b)); host = take (length b - length tld) b in
         a \<noteq> [] \<and> list_all email_local_char a \<and> length tld \<ge> 2
         \<and> length host \<ge> 2 \<and> last host = CHR ''.'' \<and> list_all email_host_char host))"

definition opt_str :: "string option \<Rightarrow> string" where
  "opt_str x = (case x of None \<Rightarrow> ''None'' | Some s \<Rightarrow> s)"

definition basic_expert_info_representation :: "expert \<Rightarrow> string option" where
  "basic_expert_info_representation info =
    (if truthy (ex_first_name info) \<and> truthy (ex_last_name info)
     then Some (opt_str (ex_first_name info) @ '' '' @ opt_str (ex_middle_initial info) @ '' ''
            @ opt_str (ex_last_name info))
     else if truthy (ex_display_name info) then ex_display_name info
     else if truthy (ex_email info) \<and> is_valid_email (the (ex_email info)) then ex_email info
     else if truthy (ex_first_name info) then ex_first_name info
     else None)"

definition get_experts_stores_representations :: "expert list option \<Rightarrow> string list option" where
  "get_experts_stores_representations experts = (case experts of
       None \<Rightarrow> None
     | Some [] \<Rightarrow> None
     | Some xs \<Rightarrow> Some (map the (filter (\<lambda>r. r \<noteq> None) (map basic_expert_info_representation xs))))"

section \<open>Chunks\<close>

text \<open>\<open>DocMetadataAwareIndexChunk\<close> with the parts of its document that the index reads; \<open>'v\<close> is a
  vector.  Sets whose order the code fixes by listing them are given as that list.\<close>

record 'v index_chunk =
  ic_document_id :: string
  ic_title :: "string option"
  ic_semantic_identifier :: string
  ic_source :: string
  ic_metadata :: metadata
  ic_updated_at :: "int option"
  ic_primary_owners :: "expert list option"
  ic_secondary_owners :: "expert list option"
  ic_chunk_id :: int
  ic_blurb :: string
  ic_title_prefix :: string
  ic_content :: string
  ic_doc_summary :: string
  ic_chunk_context :: string
  ic_metadata_suffix_keyword :: string
  ic_image_file_id :: "string option"
  ic_source_links :: "(int \<times> string) list option"
  ic_title_embedding :: "'v option"
  ic_full_embedding :: 'v
  ic_access :: document_access
  ic_boost :: int
  ic_document_sets :: "string list"
  ic_user_project :: "int list"
  ic_personas :: "int list"
  ic_tenant_id :: string
  ic_ancestor_hierarchy_node_ids :: "int list"

text \<open>\<open>DocumentChunk\<close>; \<open>source_links\<close> is the JSON object its text denotes.\<close>

record 'v document_chunk =
  dc_document_id :: string
  dc_chunk_index :: int
  dc_max_chunk_size :: int
  dc_title :: "string option"
  dc_title_vector :: "'v option"
  dc_content :: string
  dc_content_vector :: 'v
  dc_source_type :: string
  dc_metadata_list :: "string list option"
  dc_metadata_suffix :: "string option"
  dc_last_updated :: "int option"
  dc_public :: bool
  dc_access_control_list :: "string set"
  dc_hidden :: bool
  dc_global_boost :: int
  dc_semantic_identifier :: string
  dc_image_file_id :: "string option"
  dc_source_links :: "(string \<times> string) list option"
  dc_blurb :: string
  dc_doc_summary :: string
  dc_chunk_context :: string
  dc_document_sets :: "string list option"
  dc_user_projects :: "int list option"
  dc_personas :: "int list option"
  dc_primary_owners :: "string list option"
  dc_secondary_owners :: "string list option"
  dc_ancestor_hierarchy_node_ids :: "int list option"
  dc_tenant :: tenant_state

text \<open>\<open>generate_opensearch_filtered_access_control_list\<close>\<close>

definition filtered_access_control_list :: "document_access \<Rightarrow> string set" where
  "filtered_access_control_list access = to_acl access - {public_doc_pat}"

definition enriched_content :: "'v index_chunk \<Rightarrow> string" where
  "enriched_content chunk = ic_title_prefix chunk @ ic_doc_summary chunk @ ic_content chunk
     @ ic_chunk_context chunk @ ic_metadata_suffix_keyword chunk"

definition or_none :: "'a list \<Rightarrow> 'a list option" where
  "or_none xs = (if xs = [] then None else Some xs)"

definition check_title_and_vector :: "'v document_chunk \<Rightarrow> 'v document_chunk result" where
  "check_title_and_vector c =
     (if (dc_title c \<noteq> None) \<noteq> (dc_title_vector c \<noteq> None) then Inl ValueError else Inr c)"

text \<open>\<open>_convert_onyx_chunk_to_opensearch_document\<close>, with the validators of the schema class.\<close>

definition convert_onyx_chunk :: "bool \<Rightarrow> 'v index_chunk \<Rightarrow> 'v document_chunk result" where
  "convert_onyx_chunk multi_tenant chunk =
    (let title = get_title_for_document_index (ic_title chunk) (ic_semantic_identifier chunk);
         clean = remove_invalid_unicode_chars
     in check_title_and_vector \<lparr>
       dc_document_id = ic_document_id chunk,
       dc_chunk_index = ic_chunk_id chunk,
       dc_max_chunk_size = default_max_chunk_size,
       dc_title = (if truthy title then map_option clean title else None),
       dc_title_vector = ic_title_embedding chunk,
       dc_content = clean (enriched_content chunk),
       dc_content_vector = ic_full_embedding chunk,
       dc_source_type = ic_source chunk,
       dc_metadata_list = map_option (map clean) (get_metadata_str_attributes (ic_metadata chunk)),
       dc_metadata_suffix = Some (clean (ic_metadata_suffix_keyword chunk)),
       dc_last_updated = ic_updated_at chunk,
       dc_public = is_public (ic_access chunk),
       dc_access_control_list = filtered_access_control_list (ic_access chunk),
       dc_hidden = False,
       dc_global_boost = ic_boost chunk,
       dc_semantic_identifier = clean (ic_semantic_identifier chunk),
       dc_image_file_id = ic_image_file_id chunk,
       dc_source_links = (case ic_source_links chunk of None \<Rightarrow> None | Some [] \<Rightarrow> None
          | Some ls \<Rightarrow> Some (map (\<lambda>(k, v). (int_str k, v)) ls)),
       dc_blurb = clean (ic_blurb chunk),
       dc_doc_summary = ic_doc_summary chunk,
       dc_chunk_context = ic_chunk_context chunk,
       dc_document_sets = or_none (ic_document_sets chunk),
       dc_user_projects = or_none (ic_user_project chunk),
       dc_personas = or_none (ic_personas chunk),
       dc_primary_owners = get_experts_stores_representations (ic_primary_owners chunk),
       dc_secondary_owners = get_experts_stores_representations (ic_secondary_owners chunk),
       dc_ancestor_hierarchy_node_ids = or_none (ic_ancestor_hierarchy_node_ids chunk),
       dc_tenant = \<lparr>ts_tenant_id = ic_tenant_id chunk, ts_multitenant = multi_tenant\<rparr>\<rparr>)"

section \<open>Cleaning what was enriched\<close>

definition lstrip :: "string \<Rightarrow> string" where
  "lstrip s = dropWhile is_space s"

definition rstrip_by :: "(char \<Rightarrow> bool) \<Rightarrow> string \<Rightarrow> string" where
  "rstrip_by p s = rev (dropWhile p (rev s))"

definition starts :: "string \<Rightarrow> string \<Rightarrow> bool" where
  "starts p s \<longleftrightarrow> take (length p) s = p"

definition ends :: "string \<Rightarrow> string \<Rightarrow> bool" where
  "ends p s \<longleftrightarrow> length p \<le> length s \<and> drop (length s - length p) s = p"

definition blurb_size :: nat where "blurb_size = 128"

definition remove_title :: "string option \<Rightarrow> string \<Rightarrow> string" where
  "remove_title title content =
    (if \<not> truthy title \<or> content = [] then content
     else (let t = the title in
       if starts t content then lstrip (drop (length t) content)
       else if starts (take blurb_size t) content
       then (case split_once return_separator content of None \<Rightarrow> content | Some (_, rest) \<Rightarrow> rest)
       else content))"

definition remove_metadata_suffix :: "string option \<Rightarrow> string \<Rightarrow> string" where
  "remove_metadata_suffix sfx content =
    (if \<not> truthy sfx then content
     else (let s = the sfx in
       rstrip_by (\<lambda>c. c \<in> set return_separator)
         (if ends s content then take (length content - length s) content else content)))"

definition remove_contextual_rag :: "string \<Rightarrow> string \<Rightarrow> string \<Rightarrow> string" where
  "remove_contextual_rag doc_summary chunk_context content =
    (let c1 = (if doc_summary \<noteq> [] \<and> starts doc_summary content
               then lstrip (drop (length doc_summary) content) else content)
     in if chunk_context \<noteq> [] \<and> ends chunk_context c1
        then rstrip_by is_space (take (length c1 - length chunk_context) c1) else c1)"

definition cleanup_content :: "'v document_chunk \<Rightarrow> string" where
  "cleanup_content c = remove_contextual_rag (dc_doc_summary c) (dc_chunk_context c)
     (remove_metadata_suffix (dc_metadata_suffix c) (remove_title (dc_title c) (dc_content c)))"

section \<open>Properties of chunk identifiers\<close>

lemma safe_int_str: "list_all safe_id_char (int_str i)"
proof -
  have digit: "safe_id_char c" if "c \<in> set (nat_str n)" for c n
    using nat_str_digits [OF that] by (auto simp: safe_id_char_def Let_def)
  have "safe_id_char (CHR ''-'')" by code_simp
  then show ?thesis using digit by (auto simp: int_str_def list_all_iff)
qed

lemma filter_id: "list_all p xs \<Longrightarrow> filter p xs = xs"
  by (simp add: list_all_iff)

lemma safe_underscores: "filter safe_id_char ''__'' = ''__''"
  by code_simp

lemma no_underscore_int_str: "CHR ''_'' \<notin> set (int_str i)"
proof
  assume "CHR ''_'' \<in> set (int_str i)"
  then obtain n where "CHR ''_'' \<in> set (nat_str n)" by (auto simp: int_str_def split: if_splits)
  then obtain d where d: "d < 10" "CHR ''_'' = digit_char d" using nat_str_digits by blast
  have "(of_char (CHR ''_'') :: nat) = 95" by simp
  moreover have "(of_char (CHR ''_'') :: nat) = 48 + d" using d by (simp only: of_char_digit)
  ultimately show False using d(1) by linarith
qed

lemma last_field_eq:
  assumes "a @ sep # x = b @ sep # y" and "sep \<notin> set x" and "sep \<notin> set y"
  shows "a = b \<and> x = y"
proof -
  have t: "takeWhile (\<lambda>c. c \<noteq> sep) (rev (a @ sep # x)) = rev x" if "sep \<notin> set x" for a x
    using that by (auto simp: takeWhile_append)
  have "rev x = rev y" using t [OF assms(2)] t [OF assms(3)] assms(1) by metis
  with assms(1) show ?thesis by simp
qed

lemma chunk_id_shape:
  assumes "get_opensearch_doc_chunk_id h tenant d i m = Inr r"
  shows "\<exists>p. r = p @ ''__'' @ int_str m @ ''__'' @ int_str i"
proof -
  have "\<exists>s. r = filter safe_id_char (s @ ''__'' @ int_str m @ ''__'' @ int_str i)"
  proof -
    obtain t s where "(case filter_and_validate_document_id (t @ s @ ''__'' @ int_str m @ ''__'' @ int_str i)
        max_document_id_encoded_length of Inl _ \<Rightarrow> Inl ValueError | Inr i \<Rightarrow> Inr i) = Inr r"
      using assms unfolding get_opensearch_doc_chunk_id_def Let_def bind_r_Inr_iff by blast
    then have "r = filter safe_id_char ((t @ s) @ ''__'' @ int_str m @ ''__'' @ int_str i)"
      by (simp add: filter_and_validate_document_id_def Let_def split: if_splits)
    then show ?thesis by (rule exI [of _ "t @ s"])
  qed
  then obtain s where "r = filter safe_id_char (s @ ''__'' @ int_str m @ ''__'' @ int_str i)" ..
  then show ?thesis
    using filter_id [OF safe_int_str] safe_underscores unfolding filter_append by metis
qed

text \<open>Chunk identifiers tell chunks apart: whatever the documents and tenants, two chunks with the
  same identifier have the same index and the same maximal size.\<close>

theorem chunk_ids_determine_chunk:
  assumes "get_opensearch_doc_chunk_id h t1 d1 i1 m1 = Inr r"
    and "get_opensearch_doc_chunk_id h t2 d2 i2 m2 = Inr r"
  shows "i1 = i2 \<and> m1 = m2"
proof -
  obtain p q where "p @ ''__'' @ int_str m1 @ ''__'' @ int_str i1 = q @ ''__'' @ int_str m2 @ ''__'' @ int_str i2"
    using chunk_id_shape [OF assms(1)] chunk_id_shape [OF assms(2)] by metis
  then have eq: "(p @ ''__'' @ int_str m1 @ ''_'') @ CHR ''_'' # int_str i1
      = (q @ ''__'' @ int_str m2 @ ''_'') @ CHR ''_'' # int_str i2" by simp
  from last_field_eq [OF this no_underscore_int_str no_underscore_int_str]
  have "(p @ ''_'') @ CHR ''_'' # int_str m1 = (q @ ''_'') @ CHR ''_'' # int_str m2"
    and "int_str i1 = int_str i2" by simp_all
  from this(2) last_field_eq [OF this(1) no_underscore_int_str no_underscore_int_str]
  show ?thesis by (simp add: int_str_inj)
qed

definition single_tenant :: tenant_state where
  "single_tenant = \<lparr>ts_tenant_id = ''public'', ts_multitenant = False\<rparr>"

lemma chunk_ids_determine_chunk_witness: "(3::int) = 3 \<and> (512::int) = 512"
proof (rule chunk_ids_determine_chunk)
  show "get_opensearch_doc_chunk_id (\<lambda>s n. ''00'') single_tenant ''doc'' 3 512 = Inr ''doc__512__3''"
    by code_simp
  then show "get_opensearch_doc_chunk_id (\<lambda>s n. ''00'') single_tenant ''doc'' 3 512 = Inr ''doc__512__3''" .
qed

text \<open>Identifiers do not tell documents apart: two short document identifiers that differ only in
  characters outside the safe set, such as the place of a slash in an address, share every chunk
  identifier, so indexing one overwrites or conflicts with the chunks of the other.\<close>

theorem chunk_ids_collide:
  assumes "filter safe_id_char d1 = filter safe_id_char d2"
    and "length (filter safe_id_char d1) + length (''__'' @ int_str m @ ''__'' @ int_str i) < 512"
  shows "get_opensearch_doc_chunk_id h single_tenant d1 i m = get_opensearch_doc_chunk_id h single_tenant d2 i m"
  using assms by (simp add: get_opensearch_doc_chunk_id_def single_tenant_def Let_def
      filter_and_validate_document_id_def max_document_id_encoded_length_def)

lemma chunk_ids_collide_witness:
  "get_opensearch_doc_chunk_id (\<lambda>s n. ''00'') single_tenant ''https://x/ab/c'' 0 512
   = get_opensearch_doc_chunk_id (\<lambda>s n. ''00'') single_tenant ''https://x/a/bc'' 0 512"
  by (rule chunk_ids_collide) code_simp+

text \<open>Every document identifier with a safe character yields an identifier OpenSearch accepts: the
  hash that replaces a long one leaves room for prefix and suffix, so the final check never fails.\<close>

theorem chunk_id_exists:
  assumes "\<And>s n. 1 \<le> n \<Longrightarrow> n \<le> 64 \<Longrightarrow> length (h s n) = 2 * n \<and> list_all safe_id_char (h s n)"
    and "filter safe_id_char d \<noteq> []"
    and "length (''__'' @ int_str m @ ''__'' @ int_str i) \<le> 200"
  shows "\<exists>r. get_opensearch_doc_chunk_id h tenant d i m = Inr r \<and> r \<noteq> [] \<and> length r < 512
    \<and> list_all safe_id_char r"
proof -
  define sfx where "sfx = ''__'' @ int_str m @ ''__'' @ int_str i"
  define pre where "pre = (if ts_multitenant tenant
      then get_tenant_id_short_string (ts_tenant_id tenant) @ ''__'' else [])"
  define max_len where "max_len = 512 - int (length sfx) - int (length pre)"
  have pre: "length pre \<le> 10" by (simp add: pre_def get_tenant_id_short_string_def)
  have room: "302 \<le> max_len" "max_len \<le> 512" using assms(3) pre by (auto simp: max_len_def sfx_def)
  define san where "san = (if int (length (filter safe_id_char d)) \<ge> max_len
      then h d (nat (min ((max_len - 1) div 2) 64)) else filter safe_id_char d)"
  have digest: "1 \<le> nat (min ((max_len - 1) div 2) 64)" "nat (min ((max_len - 1) div 2) 64) \<le> 64"
    using room by auto
  have san: "int (length san) < max_len" "san \<noteq> []" "list_all safe_id_char san"
    using assms(1) [OF digest, of d] assms(2) digest(2) room
    by (auto simp: san_def list_all_iff)
  let ?r = "filter safe_id_char (pre @ san @ sfx)"
  have "length ?r \<le> length (pre @ san @ sfx)" by (rule length_filter_le)
  then have "length ?r < 512" using san(1) by (simp add: max_len_def del: filter_append)
  moreover have ne: "?r \<noteq> []" using san(2,3) by (cases san) (auto simp: list_all_iff)
  moreover have "get_opensearch_doc_chunk_id h tenant d i m = Inr ?r"
  proof -
    have "filter_and_validate_document_id (pre @ san @ sfx) 512 = Inr ?r"
      using calculation by (simp add: filter_and_validate_document_id_def Let_def del: filter_append)
    moreover have "(case filter_and_validate_document_id d max_len of
            Inr s \<Rightarrow> Inr s
          | Inl DocumentIDEmpty \<Rightarrow> Inl ValueError
          | Inl DocumentIDTooLong \<Rightarrow>
              if min ((max_len - 1) div 2) 64 < 1 then Inl ValueError
              else Inr (h d (nat (min ((max_len - 1) div 2) 64)))) = (Inr san :: string result)"
      using assms(2) room by (auto simp: filter_and_validate_document_id_def san_def Let_def)
    ultimately show ?thesis
      unfolding get_opensearch_doc_chunk_id_def Let_def max_document_id_encoded_length_def
        pre_def [symmetric] sfx_def [symmetric] max_len_def [symmetric] by simp
  qed
  moreover have "list_all safe_id_char ?r" by (auto simp: list_all_iff)
  ultimately show ?thesis by blast
qed

lemma chunk_id_exists_witness:
  "\<exists>r. get_opensearch_doc_chunk_id (\<lambda>s n. replicate (2 * n) (CHR ''0'')) single_tenant ''doc'' 3 512 = Inr r
    \<and> r \<noteq> [] \<and> length r < 512 \<and> list_all safe_id_char r"
proof (rule chunk_id_exists)
  have "safe_id_char (CHR ''0'')" by code_simp
  then show "length (replicate (2 * n) (CHR ''0'')) = 2 * n \<and> list_all safe_id_char (replicate (2 * n) (CHR ''0''))"
    for n :: nat by (simp add: list_all_iff)
qed code_simp+

section \<open>Properties of metadata and content\<close>

lemma split_once_key: "CHR ''='' \<notin> set k \<Longrightarrow> split_once index_separator (k @ index_separator @ v) = Some (k, v)"
  by (induction k) (auto simp: index_separator_def)

lemma dict_set_twice [simp]: "dict_set k v (dict_set k w d) = dict_set k v d"
  by (induction d rule: dict_set.induct) auto

lemma read_many:
  "CHR ''='' \<notin> set k \<Longrightarrow>
   read_metadata (map (\<lambda>v. k @ index_separator @ v) vs @ rest) (dict_set k (Many ws) d)
     = read_metadata rest (dict_set k (Many (ws @ vs)) d)"
  by (induction vs arbitrary: ws) (simp_all add: split_once_key)

lemma read_entry:
  assumes "CHR ''='' \<notin> set k" and "case v of Single _ \<Rightarrow> True | Many vs \<Rightarrow> length vs \<ge> 2"
    and "dict_get d k = None"
  shows "read_metadata (meta_strings (k, v) @ rest) d = read_metadata rest (d @ [(k, v)])"
proof (cases v)
  case (Single x)
  then show ?thesis using assms by (simp add: meta_strings_def split_once_key dict_set_fresh [OF assms(3) [unfolded dict_get_None_iff]])
next
  case (Many vs)
  with assms(2) obtain a b ws where vs: "vs = a # b # ws"
    by (cases vs; cases "tl vs") auto
  have "read_metadata (meta_strings (k, v) @ rest) d
      = read_metadata (map (\<lambda>v. k @ index_separator @ v) ws @ rest) (dict_set k (Many [a, b]) d)"
    using assms(1,3) by (simp add: meta_strings_def Many vs split_once_key)
  also have "\<dots> = read_metadata rest (d @ [(k, v)])"
    using assms(3) by (subst read_many [OF assms(1)]) (simp add: dict_set_fresh [OF assms(3) [unfolded dict_get_None_iff]] Many vs)
  finally show ?thesis .
qed

definition canonical_metadata :: "metadata \<Rightarrow> bool" where
  "canonical_metadata m \<longleftrightarrow> distinct (dict_keys m)
     \<and> (\<forall>(k, v) \<in> set m. CHR ''='' \<notin> set k \<and> (case v of Single _ \<Rightarrow> True | Many vs \<Rightarrow> length vs \<ge> 2))"

lemma read_metadata_all:
  "distinct (dict_keys (d @ m)) \<Longrightarrow>
   \<forall>(k, v) \<in> set m. CHR ''='' \<notin> set k \<and> (case v of Single _ \<Rightarrow> True | Many vs \<Rightarrow> length vs \<ge> 2) \<Longrightarrow>
   read_metadata (concat (map meta_strings m)) d = Inr (d @ m)"
proof (induction m arbitrary: d)
  case (Cons p m)
  obtain k v where p: "p = (k, v)" by (cases p)
  have fresh: "dict_get d k = None" using Cons.prems(1) p by (auto simp: dict_get_None_iff)
  have "read_metadata (concat (map meta_strings (p # m))) d
      = read_metadata (concat (map meta_strings m)) (d @ [(k, v)])"
    using read_entry [OF _ _ fresh] Cons.prems(2) p by simp
  also have "\<dots> = Inr ((d @ [(k, v)]) @ m)"
    by (rule Cons.IH) (use Cons.prems p in auto)
  finally show ?case using p by simp
qed simp

text \<open>The string form of metadata is read back to the same dictionary when no key contains the
  character of the separator and every list has at least two values; a list of one value comes back
  as a plain string and an empty list disappears.\<close>

theorem metadata_roundtrip:
  "(canonical_metadata m \<longrightarrow>
      convert_metadata_list_of_strings_to_dict (convert_metadata_dict_to_list_of_strings m) = Inr m)
   \<and> (CHR ''='' \<notin> set k \<longrightarrow>
      convert_metadata_list_of_strings_to_dict (convert_metadata_dict_to_list_of_strings [(k, Many [v])])
        = Inr [(k, Single v)])
   \<and> convert_metadata_list_of_strings_to_dict (convert_metadata_dict_to_list_of_strings [(k, Many [])])
        = Inr []"
  using read_metadata_all [of "[]" m]
  by (auto simp: canonical_metadata_def convert_metadata_list_of_strings_to_dict_def
      convert_metadata_dict_to_list_of_strings_def meta_strings_def split_once_key)

lemma metadata_roundtrip_witness:
  "convert_metadata_list_of_strings_to_dict (convert_metadata_dict_to_list_of_strings
     [(''author'', Single ''a=b''), (''labels'', Many [''x'', ''y''])])
   = Inr [(''author'', Single ''a=b''), (''labels'', Many [''x'', ''y''])]"
  by (rule metadata_roundtrip [THEN conjunct1, THEN mp]) (simp add: canonical_metadata_def)

lemma clean_id: "\<forall>c \<in> set s. \<not> invalid_char c \<Longrightarrow> remove_invalid_unicode_chars s = s"
  by (simp add: remove_invalid_unicode_chars_def)

lemma clean_append:
  "remove_invalid_unicode_chars (a @ b) = remove_invalid_unicode_chars a @ remove_invalid_unicode_chars b"
  by (simp add: remove_invalid_unicode_chars_def)

text \<open>What indexing adds to the text of a chunk, retrieval takes away: the title in front and the
  metadata behind are stripped and the original text returns, provided it starts with a visible
  character, does not end in a line break and holds no character the index rejects.\<close>

theorem content_survives_indexing:
  assumes "convert_onyx_chunk multi c = Inr d" and "dc_title d = Some t" and "t \<noteq> []"
    and "ic_title_prefix c = t @ return_separator" and "ic_doc_summary c = []" and "ic_chunk_context c = []"
    and "ic_content c \<noteq> []" and "\<not> is_space (hd (ic_content c))"
    and "last (ic_content c) \<notin> set return_separator"
    and "\<forall>x \<in> set (ic_content c @ ic_metadata_suffix_keyword c). \<not> invalid_char x"
  shows "cleanup_content d = ic_content c"
proof -
  let ?m = "ic_metadata_suffix_keyword c"
  have d: "dc_content d = remove_invalid_unicode_chars (enriched_content c)"
    "dc_metadata_suffix d = Some (remove_invalid_unicode_chars ?m)"
    "dc_doc_summary d = []" "dc_chunk_context d = []"
    and t: "\<exists>u. t = remove_invalid_unicode_chars u"
    using assms(1,2,5,6)
    by (auto simp: convert_onyx_chunk_def check_title_and_vector_def Let_def split: if_splits)
  have "remove_invalid_unicode_chars t = t"
    using t by (auto simp: remove_invalid_unicode_chars_def)
  moreover have "remove_invalid_unicode_chars return_separator = return_separator" by code_simp
  moreover have "remove_invalid_unicode_chars (ic_content c) = ic_content c"
    "remove_invalid_unicode_chars ?m = ?m" using assms(10) by (simp_all add: clean_id)
  ultimately have content: "dc_content d = t @ return_separator @ ic_content c @ ?m"
    and sfx: "dc_metadata_suffix d = Some ?m"
    using d(1,2) assms(4,5,6) by (simp_all add: enriched_content_def clean_append)
  have "\<forall>x \<in> set return_separator. is_space x" by code_simp
  then have "lstrip (return_separator @ ic_content c @ ?m) = ic_content c @ ?m"
    using assms(7,8) by (cases "ic_content c") (simp_all add: lstrip_def dropWhile_append2)
  then have title: "remove_title (dc_title d) (dc_content d) = ic_content c @ ?m"
    using assms(2,3,7) by (simp add: remove_title_def content starts_def Let_def)
  have "rstrip_by (\<lambda>x. x \<in> set return_separator) (ic_content c) = ic_content c"
    using assms(7,9) by (cases "ic_content c" rule: rev_cases) (simp_all add: rstrip_by_def)
  then have "remove_metadata_suffix (Some ?m) (ic_content c @ ?m) = ic_content c"
    by (simp add: remove_metadata_suffix_def ends_def Let_def)
  then show ?thesis
    by (simp add: cleanup_content_def title sfx d(3,4) remove_contextual_rag_def)
qed

definition example_chunk :: "unit index_chunk" where
  "example_chunk = \<lparr>ic_document_id = ''d'', ic_title = Some ''Plan'', ic_semantic_identifier = ''plan'',
     ic_source = ''web'', ic_metadata = [(''author'', Single ''ann'')], ic_updated_at = None,
     ic_primary_owners = None, ic_secondary_owners = None, ic_chunk_id = 0, ic_blurb = ''Text'',
     ic_title_prefix = ''Plan'' @ return_separator, ic_content = ''Text body.'', ic_doc_summary = [],
     ic_chunk_context = [], ic_metadata_suffix_keyword = return_separator @ ''ann'',
     ic_image_file_id = None, ic_source_links = None, ic_title_embedding = Some (),
     ic_full_embedding = (), ic_access = get_null_document_access, ic_boost = 0,
     ic_document_sets = [], ic_user_project = [], ic_personas = [], ic_tenant_id = ''public'',
     ic_ancestor_hierarchy_node_ids = []\<rparr>"

lemma content_survives_indexing_witness:
  "\<exists>d. convert_onyx_chunk False example_chunk = Inr d \<and> cleanup_content d = ''Text body.''"
proof -
  have t: "get_title_for_document_index (Some ''Plan'') ''plan'' = Some ''Plan''" by code_simp
  have c: "remove_invalid_unicode_chars ''Plan'' = ''Plan''" by code_simp
  obtain d where d: "convert_onyx_chunk False example_chunk = Inr d" and dt: "dc_title d = Some ''Plan''"
    by (simp add: convert_onyx_chunk_def example_chunk_def Let_def t c check_title_and_vector_def)
  have "\<forall>x \<in> set (''Text body.'' @ return_separator @ ''ann''). \<not> invalid_char x" by code_simp
  moreover have "\<not> is_space (hd ''Text body.'')" by code_simp
  moreover have "last ''Text body.'' \<notin> set return_separator" by code_simp
  ultimately have "cleanup_content d = ic_content example_chunk"
    by (intro content_survives_indexing [OF d dt]) (simp_all add: example_chunk_def)
  with d show ?thesis by (auto simp: example_chunk_def)
qed

end
