(* ===== verification/OsSearch.thy ===== *)
theory OsSearch
  imports OsDocument MyndRouting
begin

text \<open>
  Filters of a search and what they let through: \<open>onyx/document_index/opensearch/search.py\<close>
  (\<open>_get_search_filters\<close> and the two queries by document), the filter models of
  \<open>onyx/context/search/models.py\<close>, \<open>_build_index_filters\<close> of \<open>onyx/context/search/pipeline.py\<close>, the
  product tags of \<open>mynd/isolation/retrieval.py\<close>, and the index operations of
  \<open>opensearch_document_index.py\<close> that write access fields.  OpenSearch evaluates the clauses: the
  evaluator is an argument, and \<open>query_dsl\<close> states what its query language documents.
\<close>

section \<open>Clauses\<close>

datatype field_value = VBool bool | VStr string | VInt int

datatype clause =
    Term string field_value
  | Terms string "field_value list"
  | Range string "int option" "int option"
  | Exists string
  | Should "clause list" nat
  | MustNot clause

text \<open>
  The stored fields of a chunk, in the names of the schema; a missing field has no value.  Serialising
  leaves out what is \<open>None\<close>, and the tenant outside multi-tenant mode.
\<close>

definition epoch_seconds :: "int \<Rightarrow> int" where
  "epoch_seconds t = (if t \<ge> 0 then t div 1000000 else - (- t div 1000000))"

definition opt_values :: "('a \<Rightarrow> field_value) \<Rightarrow> 'a list option \<Rightarrow> field_value set" where
  "opt_values f x = (case x of None \<Rightarrow> {} | Some xs \<Rightarrow> f ` set xs)"

definition stored_fields :: "'v document_chunk \<Rightarrow> string \<Rightarrow> field_value set" where
  "stored_fields c f =
    (if f = ''document_id'' then {VStr (dc_document_id c)}
     else if f = ''chunk_index'' then {VInt (dc_chunk_index c)}
     else if f = ''max_chunk_size'' then {VInt (dc_max_chunk_size c)}
     else if f = ''source_type'' then {VStr (dc_source_type c)}
     else if f = ''metadata_list'' then opt_values VStr (dc_metadata_list c)
     else if f = ''last_updated'' then
       (case dc_last_updated c of None \<Rightarrow> {} | Some t \<Rightarrow> {VInt (epoch_seconds t)})
     else if f = ''public'' then {VBool (dc_public c)}
     else if f = ''access_control_list'' then VStr ` dc_access_control_list c
     else if f = ''hidden'' then {VBool (dc_hidden c)}
     else if f = ''document_sets'' then opt_values VStr (dc_document_sets c)
     else if f = ''user_projects'' then opt_values VInt (dc_user_projects c)
     else if f = ''personas'' then opt_values VInt (dc_personas c)
     else if f = ''ancestor_hierarchy_node_ids'' then opt_values VInt (dc_ancestor_hierarchy_node_ids c)
     else if f = ''tenant_id'' then
       (if ts_multitenant (dc_tenant c) then {VStr (ts_tenant_id (dc_tenant c))} else {})
     else {})"

text \<open>What the query language documents of the clauses used here.\<close>

definition query_dsl :: "('v document_chunk \<Rightarrow> clause \<Rightarrow> bool) \<Rightarrow> bool" where
  "query_dsl m \<longleftrightarrow> (\<forall>c.
     (\<forall>f v. m c (Term f v) \<longleftrightarrow> v \<in> stored_fields c f)
     \<and> (\<forall>f vs. m c (Terms f vs) \<longleftrightarrow> (\<exists>v \<in> set vs. v \<in> stored_fields c f))
     \<and> (\<forall>f lo hi. m c (Range f lo hi) \<longleftrightarrow> (\<exists>x. VInt x \<in> stored_fields c f
           \<and> (case lo of None \<Rightarrow> True | Some l \<Rightarrow> l \<le> x) \<and> (case hi of None \<Rightarrow> True | Some h \<Rightarrow> x \<le> h)))
     \<and> (\<forall>f. m c (Exists f) \<longleftrightarrow> stored_fields c f \<noteq> {})
     \<and> (\<forall>qs n. m c (Should qs n) \<longleftrightarrow> n \<le> length (filter (m c) qs))
     \<and> (\<forall>q. m c (MustNot q) \<longleftrightarrow> \<not> m c q))"

text \<open>The filter context of a query: every clause must hold.\<close>

definition passes :: "('v document_chunk \<Rightarrow> clause \<Rightarrow> bool) \<Rightarrow> clause list \<Rightarrow> 'v document_chunk \<Rightarrow> bool" where
  "passes m qs c \<longleftrightarrow> list_all (m c) qs"

section \<open>Filters\<close>

record tag =
  tag_key :: string
  tag_value :: string

record index_filters =
  if_source_type :: "string list option"
  if_document_set :: "string list option"
  if_time_cutoff :: "int option"
  if_tags :: "tag list option"
  if_project_id :: "int option"
  if_persona_id :: "int option"
  if_attached_document_ids :: "string list option"
  if_hierarchy_node_ids :: "int list option"
  if_access_control_list :: "string list option"
  if_tenant_id :: "string option"

definition max_terms :: nat where "max_terms = 65536"

definition assumed_document_age_days :: int where "assumed_document_age_days = 90"

definition get_acl_visibility_filter :: "string list \<Rightarrow> clause result" where
  "get_acl_visibility_filter acl =
    (let public = Term ''public'' (VBool True) in
     if acl = [] then Inr (Should [public] 1)
     else if length acl > max_terms then Inl ValueError
     else Inr (Should [public, Terms ''access_control_list'' (map VStr acl)] 1))"

definition terms_filter :: "string \<Rightarrow> field_value list \<Rightarrow> clause result" where
  "terms_filter f vs = (if vs = [] then Inl ValueError
     else if length vs > max_terms then Inl ValueError else Inr (Terms f vs))"

definition get_source_type_filter :: "string list \<Rightarrow> clause result" where
  "get_source_type_filter source_types = terms_filter ''source_type'' (map VStr source_types)"

definition tag_string :: "tag \<Rightarrow> string" where
  "tag_string t = tag_key t @ index_separator @ tag_value t"

definition get_tag_filter :: "tag list \<Rightarrow> clause result" where
  "get_tag_filter tags = terms_filter ''metadata_list'' (map (VStr \<circ> tag_string) tags)"

definition get_document_set_filter :: "string list \<Rightarrow> clause result" where
  "get_document_set_filter document_sets = terms_filter ''document_sets'' (map VStr document_sets)"

definition get_user_project_filter :: "int \<Rightarrow> clause" where
  "get_user_project_filter project_id = Term ''user_projects'' (VInt project_id)"

definition get_persona_filter :: "int \<Rightarrow> clause" where
  "get_persona_filter persona_id = Term ''personas'' (VInt persona_id)"

definition get_time_cutoff_filter :: "int \<Rightarrow> int \<Rightarrow> clause" where
  "get_time_cutoff_filter now time_cutoff =
     Should ([Range ''last_updated'' (Some (epoch_seconds time_cutoff)) None]
       @ (if time_cutoff < now - assumed_document_age_days * 86400 * 1000000
          then [MustNot (Exists ''last_updated'')] else [])) 1"

definition get_chunk_index_filter :: "int option \<Rightarrow> int option \<Rightarrow> clause" where
  "get_chunk_index_filter lo hi = Range ''chunk_index'' lo hi"

definition get_attached_document_id_filter :: "string list \<Rightarrow> clause result" where
  "get_attached_document_id_filter doc_ids = terms_filter ''document_id'' (map VStr doc_ids)"

definition get_hierarchy_node_filter :: "int list \<Rightarrow> clause result" where
  "get_hierarchy_node_filter node_ids = terms_filter ''ancestor_hierarchy_node_ids'' (map VInt node_ids)"

text \<open>A clause that is added only under a condition, and may raise while it is built.\<close>

definition add_if :: "bool \<Rightarrow> clause result \<Rightarrow> clause list \<Rightarrow> clause list result" where
  "add_if b q qs = (if b then bind_r q (\<lambda>x. Inr (qs @ [x])) else Inr qs)"

definition some_list :: "'a list option \<Rightarrow> 'a list" where
  "some_list x = (case x of None \<Rightarrow> [] | Some xs \<Rightarrow> xs)"

text \<open>The knowledge scope: any of the attachments of an assistant.\<close>

definition knowledge_clauses ::
  "string list option \<Rightarrow> int list option \<Rightarrow> string list \<Rightarrow> int option \<Rightarrow> int option \<Rightarrow> clause list result" where
  "knowledge_clauses attached nodes document_sets persona project =
     bind_r (add_if (some_list attached \<noteq> []) (get_attached_document_id_filter (some_list attached)) []) (\<lambda>q1.
     bind_r (add_if (some_list nodes \<noteq> []) (get_hierarchy_node_filter (some_list nodes)) q1) (\<lambda>q2.
     bind_r (add_if (document_sets \<noteq> []) (get_document_set_filter document_sets) q2) (\<lambda>q3.
     bind_r (add_if (persona \<noteq> None) (Inr (get_persona_filter (the persona))) q3) (\<lambda>q4.
     add_if (project \<noteq> None) (Inr (get_user_project_filter (the project))) q4))))"

definition has_knowledge_scope ::
  "string list option \<Rightarrow> int list option \<Rightarrow> string list \<Rightarrow> int option \<Rightarrow> int option \<Rightarrow> bool" where
  "has_knowledge_scope attached nodes document_sets persona project \<longleftrightarrow>
     some_list attached \<noteq> [] \<or> some_list nodes \<noteq> [] \<or> document_sets \<noteq> [] \<or> persona \<noteq> None \<or> project \<noteq> None"

definition get_search_filters ::
  "int \<Rightarrow> tenant_state \<Rightarrow> bool \<Rightarrow> index_filters \<Rightarrow> int option \<Rightarrow> int option \<Rightarrow> int option \<Rightarrow> string option
     \<Rightarrow> clause list result" where
  "get_search_filters now tenant include_hidden f min_chunk max_chunk max_size document_id =
    (let source_types = some_list (if_source_type f);
         tags = some_list (if_tags f);
         document_sets = some_list (if_document_set f);
         attached = if_attached_document_ids f;
         nodes = if_hierarchy_node_ids f
     in if document_id \<noteq> None \<and> attached \<noteq> None then Inl ValueError else
     bind_r (add_if (\<not> include_hidden) (Inr (Term ''hidden'' (VBool False))) []) (\<lambda>q1.
     bind_r (add_if (if_access_control_list f \<noteq> None)
       (get_acl_visibility_filter (the (if_access_control_list f))) q1) (\<lambda>q2.
     bind_r (add_if (source_types \<noteq> []) (get_source_type_filter source_types) q2) (\<lambda>q3.
     bind_r (add_if (tags \<noteq> []) (get_tag_filter tags) q3) (\<lambda>q4.
     bind_r (add_if (has_knowledge_scope attached nodes document_sets (if_persona_id f) (if_project_id f))
       (bind_r (knowledge_clauses attached nodes document_sets (if_persona_id f) (if_project_id f))
          (\<lambda>qs. Inr (Should qs 1))) q4) (\<lambda>q5.
     bind_r (add_if (if_time_cutoff f \<noteq> None)
       (Inr (get_time_cutoff_filter now (the (if_time_cutoff f)))) q5) (\<lambda>q6.
     bind_r (add_if (min_chunk \<noteq> None \<or> max_chunk \<noteq> None)
       (Inr (get_chunk_index_filter min_chunk max_chunk)) q6) (\<lambda>q7.
     bind_r (add_if (document_id \<noteq> None) (Inr (Term ''document_id'' (VStr (the document_id)))) q7) (\<lambda>q8.
     bind_r (add_if (max_size \<noteq> None) (Inr (Term ''max_chunk_size'' (VInt (the max_size)))) q8) (\<lambda>q9.
     add_if (ts_multitenant tenant) (Inr (Term ''tenant_id'' (VStr (ts_tenant_id tenant)))) q9))))))))))"

definition no_filters :: index_filters where
  "no_filters = \<lparr>if_source_type = None, if_document_set = None, if_time_cutoff = None, if_tags = None,
     if_project_id = None, if_persona_id = None, if_attached_document_ids = None,
     if_hierarchy_node_ids = None, if_access_control_list = None, if_tenant_id = None\<rparr>"

text \<open>The filters of the two queries by document identifier.\<close>

definition get_from_document_id_filters ::
  "int \<Rightarrow> tenant_state \<Rightarrow> index_filters \<Rightarrow> bool \<Rightarrow> int option \<Rightarrow> int option \<Rightarrow> int option \<Rightarrow> string
     \<Rightarrow> clause list result" where
  "get_from_document_id_filters now tenant f include_hidden min_chunk max_chunk max_size document_id =
     get_search_filters now tenant include_hidden f min_chunk max_chunk max_size (Some document_id)"

definition delete_from_document_id_filters :: "int \<Rightarrow> tenant_state \<Rightarrow> string \<Rightarrow> clause list result" where
  "delete_from_document_id_filters now tenant document_id =
     get_search_filters now tenant True no_filters None None None (Some document_id)"

section \<open>What the filters admit\<close>

text \<open>The reference reading of a filter, over the chunk itself.\<close>

definition visible_to :: "string list \<Rightarrow> 'v document_chunk \<Rightarrow> bool" where
  "visible_to acl c \<longleftrightarrow> dc_public c \<or> set acl \<inter> dc_access_control_list c \<noteq> {}"

definition in_knowledge_scope :: "index_filters \<Rightarrow> 'v document_chunk \<Rightarrow> bool" where
  "in_knowledge_scope f c \<longleftrightarrow>
     dc_document_id c \<in> set (some_list (if_attached_document_ids f))
     \<or> set (some_list (if_hierarchy_node_ids f)) \<inter> set (some_list (dc_ancestor_hierarchy_node_ids c)) \<noteq> {}
     \<or> set (some_list (if_document_set f)) \<inter> set (some_list (dc_document_sets c)) \<noteq> {}
     \<or> (case if_persona_id f of None \<Rightarrow> False | Some p \<Rightarrow> p \<in> set (some_list (dc_personas c)))
     \<or> (case if_project_id f of None \<Rightarrow> False | Some p \<Rightarrow> p \<in> set (some_list (dc_user_projects c)))"

definition recent_enough :: "int \<Rightarrow> int \<Rightarrow> 'v document_chunk \<Rightarrow> bool" where
  "recent_enough now cutoff c \<longleftrightarrow> (case dc_last_updated c of
       Some t \<Rightarrow> epoch_seconds cutoff \<le> epoch_seconds t
     | None \<Rightarrow> cutoff < now - assumed_document_age_days * 86400 * 1000000)"

definition admits ::
  "int \<Rightarrow> tenant_state \<Rightarrow> bool \<Rightarrow> index_filters \<Rightarrow> int option \<Rightarrow> int option \<Rightarrow> int option \<Rightarrow> string option
     \<Rightarrow> 'v document_chunk \<Rightarrow> bool" where
  "admits now tenant include_hidden f min_chunk max_chunk max_size document_id c \<longleftrightarrow>
     (include_hidden \<or> \<not> dc_hidden c)
     \<and> (case if_access_control_list f of None \<Rightarrow> True | Some acl \<Rightarrow> visible_to acl c)
     \<and> (some_list (if_source_type f) = [] \<or> dc_source_type c \<in> set (some_list (if_source_type f)))
     \<and> (some_list (if_tags f) = [] \<or>
          tag_string ` set (some_list (if_tags f)) \<inter> set (some_list (dc_metadata_list c)) \<noteq> {})
     \<and> (\<not> has_knowledge_scope (if_attached_document_ids f) (if_hierarchy_node_ids f)
            (some_list (if_document_set f)) (if_persona_id f) (if_project_id f) \<or> in_knowledge_scope f c)
     \<and> (case if_time_cutoff f of None \<Rightarrow> True | Some t \<Rightarrow> recent_enough now t c)
     \<and> (case min_chunk of None \<Rightarrow> True | Some l \<Rightarrow> l \<le> dc_chunk_index c)
     \<and> (case max_chunk of None \<Rightarrow> True | Some h \<Rightarrow> dc_chunk_index c \<le> h)
     \<and> (case document_id of None \<Rightarrow> True | Some d \<Rightarrow> dc_document_id c = d)
     \<and> (case max_size of None \<Rightarrow> True | Some s \<Rightarrow> dc_max_chunk_size c = s)
     \<and> (ts_multitenant tenant \<longrightarrow> ts_multitenant (dc_tenant c)
          \<and> ts_tenant_id (dc_tenant c) = ts_tenant_id tenant)"

lemma opt_values_eq: "opt_values f x = f ` set (some_list x)"
  by (simp add: opt_values_def some_list_def split: option.splits)

lemma query_dslD:
  assumes "query_dsl m"
  shows "m c (Term f v) \<longleftrightarrow> v \<in> stored_fields c f"
    and "m c (Terms f vs) \<longleftrightarrow> set vs \<inter> stored_fields c f \<noteq> {}"
    and "m c (Range f lo hi) \<longleftrightarrow> (\<exists>x. VInt x \<in> stored_fields c f
           \<and> (case lo of None \<Rightarrow> True | Some l \<Rightarrow> l \<le> x) \<and> (case hi of None \<Rightarrow> True | Some h \<Rightarrow> x \<le> h))"
    and "m c (Exists f) \<longleftrightarrow> stored_fields c f \<noteq> {}"
    and "m c (Should qs (Suc 0)) \<longleftrightarrow> list_ex (m c) qs"
    and "m c (MustNot q) \<longleftrightarrow> \<not> m c q"
proof -
  have "1 \<le> length (filter P qs) \<longleftrightarrow> list_ex P qs" for P :: "clause \<Rightarrow> bool"
    by (induction qs) auto
  then show "m c (Should qs (Suc 0)) \<longleftrightarrow> list_ex (m c) qs"
    using assms unfolding query_dsl_def by (metis One_nat_def)
qed (use assms in \<open>unfold query_dsl_def, blast+\<close>)

lemma add_if_passes: "add_if b q qs = Inr qs' \<Longrightarrow>
    passes m qs' c \<longleftrightarrow> passes m qs c \<and> (b \<longrightarrow> (\<exists>x. q = Inr x \<and> m c x))"
  by (auto simp: add_if_def passes_def bind_r_Inr_iff split: if_splits)

lemma add_if_ex: "add_if b q qs = Inr qs' \<Longrightarrow>
    list_ex (m c) qs' \<longleftrightarrow> list_ex (m c) qs \<or> (b \<and> (\<exists>x. q = Inr x \<and> m c x))"
  by (auto simp: add_if_def bind_r_Inr_iff split: if_splits)

lemma add_if_built: "add_if b q qs = Inr qs' \<Longrightarrow> b \<Longrightarrow> \<exists>x. q = Inr x"
  by (auto simp: add_if_def bind_r_Inr_iff)

lemma terms_filter_match:
  "query_dsl m \<Longrightarrow> terms_filter f vs = Inr x \<Longrightarrow> m c x \<longleftrightarrow> set vs \<inter> stored_fields c f \<noteq> {}"
  by (auto simp: terms_filter_def query_dslD split: if_splits)

lemma values_meet [simp]:
  "VStr ` A \<inter> VStr ` B = {} \<longleftrightarrow> A \<inter> B = {}"
  "VInt ` C \<inter> VInt ` D = {} \<longleftrightarrow> C \<inter> D = {}"
  "(\<lambda>x. VStr (g x)) ` E \<inter> VStr ` B = {} \<longleftrightarrow> g ` E \<inter> B = {}"
  by auto

lemma terms_clause_match:
  assumes "query_dsl m" and "xs \<noteq> [] \<Longrightarrow> \<exists>x. terms_filter f (map v xs) = Inr x"
  shows "(xs \<noteq> [] \<and> (\<exists>x. terms_filter f (map v xs) = Inr x \<and> m c x))
      \<longleftrightarrow> v ` set xs \<inter> stored_fields c f \<noteq> {}"
    and "(xs \<noteq> [] \<longrightarrow> (\<exists>x. terms_filter f (map v xs) = Inr x \<and> m c x))
      \<longleftrightarrow> xs = [] \<or> v ` set xs \<inter> stored_fields c f \<noteq> {}"
proof -
  have *: "(\<exists>x. terms_filter f (map v xs) = Inr x \<and> m c x) \<longleftrightarrow> v ` set xs \<inter> stored_fields c f \<noteq> {}"
    if "xs \<noteq> []"
    using assms(2) [OF that] terms_filter_match [OF assms(1), of f "map v xs" _ c] by auto
  then show "(xs \<noteq> [] \<and> (\<exists>x. terms_filter f (map v xs) = Inr x \<and> m c x))
      \<longleftrightarrow> v ` set xs \<inter> stored_fields c f \<noteq> {}" by (cases "xs = []") simp_all
  from * show "(xs \<noteq> [] \<longrightarrow> (\<exists>x. terms_filter f (map v xs) = Inr x \<and> m c x))
      \<longleftrightarrow> xs = [] \<or> v ` set xs \<inter> stored_fields c f \<noteq> {}" by (cases "xs = []") simp_all
qed

lemma acl_filter_match:
  "query_dsl m \<Longrightarrow> get_acl_visibility_filter acl = Inr x \<Longrightarrow> m c x \<longleftrightarrow> visible_to acl c"
  by (auto simp: get_acl_visibility_filter_def query_dslD Let_def visible_to_def stored_fields_def
      split: if_splits)

lemma time_filter_match:
  "query_dsl m \<Longrightarrow> m c (get_time_cutoff_filter now t) \<longleftrightarrow> recent_enough now t c"
  by (auto simp: get_time_cutoff_filter_def query_dslD recent_enough_def stored_fields_def
      split: option.splits)

lemma knowledge_match:
  assumes dsl: "query_dsl m"
    and "knowledge_clauses (if_attached_document_ids f) (if_hierarchy_node_ids f)
        (some_list (if_document_set f)) (if_persona_id f) (if_project_id f) = Inr qs"
  shows "list_ex (m c) qs \<longleftrightarrow> in_knowledge_scope f c"
proof -
  let ?a = "some_list (if_attached_document_ids f)" and ?n = "some_list (if_hierarchy_node_ids f)"
  let ?s = "some_list (if_document_set f)"
  obtain q1 q2 q3 q4 where
    q1: "add_if (?a \<noteq> []) (get_attached_document_id_filter ?a) [] = Inr q1" and
    q2: "add_if (?n \<noteq> []) (get_hierarchy_node_filter ?n) q1 = Inr q2" and
    q3: "add_if (?s \<noteq> []) (get_document_set_filter ?s) q2 = Inr q3" and
    q4: "add_if (if_persona_id f \<noteq> None) (Inr (get_persona_filter (the (if_persona_id f)))) q3 = Inr q4" and
    q5: "add_if (if_project_id f \<noteq> None) (Inr (get_user_project_filter (the (if_project_id f)))) q4 = Inr qs"
    using assms(2) by (auto simp: knowledge_clauses_def bind_r_Inr_iff)
  have a: "(?a \<noteq> [] \<and> (\<exists>x. get_attached_document_id_filter ?a = Inr x \<and> m c x)) \<longleftrightarrow> dc_document_id c \<in> set ?a"
    using terms_clause_match(1) [OF dsl, of ?a "''document_id''" VStr c] add_if_built [OF q1]
    by (auto simp: get_attached_document_id_filter_def stored_fields_def)
  have n: "(?n \<noteq> [] \<and> (\<exists>x. get_hierarchy_node_filter ?n = Inr x \<and> m c x))
      \<longleftrightarrow> set ?n \<inter> set (some_list (dc_ancestor_hierarchy_node_ids c)) \<noteq> {}"
    using terms_clause_match(1) [OF dsl, of ?n "''ancestor_hierarchy_node_ids''" VInt c] add_if_built [OF q2]
    by (simp add: get_hierarchy_node_filter_def stored_fields_def opt_values_eq)
  have s: "(?s \<noteq> [] \<and> (\<exists>x. get_document_set_filter ?s = Inr x \<and> m c x))
      \<longleftrightarrow> set ?s \<inter> set (some_list (dc_document_sets c)) \<noteq> {}"
    using terms_clause_match(1) [OF dsl, of ?s "''document_sets''" VStr c] add_if_built [OF q3]
    by (simp add: get_document_set_filter_def stored_fields_def opt_values_eq)
  show ?thesis
    unfolding add_if_ex [OF q5] add_if_ex [OF q4] add_if_ex [OF q3] add_if_ex [OF q2] add_if_ex [OF q1] a n s
    by (auto simp: in_knowledge_scope_def get_persona_filter_def get_user_project_filter_def
        query_dslD [OF dsl] stored_fields_def opt_values_eq split: option.splits)
qed

lemma get_search_filters_match:
  assumes dsl: "query_dsl m"
    and "get_search_filters now tenant include_hidden f min_chunk max_chunk max_size document_id = Inr qs"
  shows "passes m qs c \<longleftrightarrow> admits now tenant include_hidden f min_chunk max_chunk max_size document_id c"
proof -
  let ?acl = "the (if_access_control_list f)" and ?src = "some_list (if_source_type f)"
  let ?tags = "some_list (if_tags f)"
  let ?scope = "has_knowledge_scope (if_attached_document_ids f) (if_hierarchy_node_ids f)
        (some_list (if_document_set f)) (if_persona_id f) (if_project_id f)"
  let ?k = "knowledge_clauses (if_attached_document_ids f) (if_hierarchy_node_ids f)
        (some_list (if_document_set f)) (if_persona_id f) (if_project_id f)"
  obtain q1 q2 q3 q4 q5 q6 q7 q8 q9 where
    q1: "add_if (\<not> include_hidden) (Inr (Term ''hidden'' (VBool False))) [] = Inr q1" and
    q2: "add_if (if_access_control_list f \<noteq> None) (get_acl_visibility_filter ?acl) q1 = Inr q2" and
    q3: "add_if (?src \<noteq> []) (get_source_type_filter ?src) q2 = Inr q3" and
    q4: "add_if (?tags \<noteq> []) (get_tag_filter ?tags) q3 = Inr q4" and
    q5: "add_if ?scope (bind_r ?k (\<lambda>qs. Inr (Should qs 1))) q4 = Inr q5" and
    q6: "add_if (if_time_cutoff f \<noteq> None) (Inr (get_time_cutoff_filter now (the (if_time_cutoff f)))) q5 = Inr q6" and
    q7: "add_if (min_chunk \<noteq> None \<or> max_chunk \<noteq> None) (Inr (get_chunk_index_filter min_chunk max_chunk)) q6 = Inr q7" and
    q8: "add_if (document_id \<noteq> None) (Inr (Term ''document_id'' (VStr (the document_id)))) q7 = Inr q8" and
    q9: "add_if (max_size \<noteq> None) (Inr (Term ''max_chunk_size'' (VInt (the max_size)))) q8 = Inr q9" and
    q10: "add_if (ts_multitenant tenant) (Inr (Term ''tenant_id'' (VStr (ts_tenant_id tenant)))) q9 = Inr qs"
    using assms(2) by (auto simp: get_search_filters_def bind_r_Inr_iff Let_def split: if_splits)
  have acl: "(if_access_control_list f \<noteq> None \<longrightarrow> (\<exists>x. get_acl_visibility_filter ?acl = Inr x \<and> m c x))
      \<longleftrightarrow> (case if_access_control_list f of None \<Rightarrow> True | Some acl \<Rightarrow> visible_to acl c)"
    using add_if_built [OF q2] acl_filter_match [OF dsl] by (auto split: option.splits)
  have src: "(?src \<noteq> [] \<longrightarrow> (\<exists>x. get_source_type_filter ?src = Inr x \<and> m c x))
      \<longleftrightarrow> ?src = [] \<or> dc_source_type c \<in> set ?src"
    using terms_clause_match(2) [OF dsl, of ?src "''source_type''" VStr c] add_if_built [OF q3]
    by (auto simp: get_source_type_filter_def stored_fields_def)
  have tags: "(?tags \<noteq> [] \<longrightarrow> (\<exists>x. get_tag_filter ?tags = Inr x \<and> m c x))
      \<longleftrightarrow> ?tags = [] \<or> tag_string ` set ?tags \<inter> set (some_list (dc_metadata_list c)) \<noteq> {}"
    using terms_clause_match(2) [OF dsl, of ?tags "''metadata_list''" "VStr \<circ> tag_string" c] add_if_built [OF q4]
    by (simp add: get_tag_filter_def stored_fields_def opt_values_eq comp_def)
  have scope: "(?scope \<longrightarrow> (\<exists>x. bind_r ?k (\<lambda>qs. Inr (Should qs 1)) = Inr x \<and> m c x))
      \<longleftrightarrow> \<not> ?scope \<or> in_knowledge_scope f c"
  proof (cases ?scope)
    case True
    then obtain ks where k: "?k = Inr ks" using add_if_built [OF q5] by (auto simp: bind_r_Inr_iff)
    show ?thesis using True k knowledge_match [OF dsl k] query_dslD(5) [OF dsl] by simp
  qed simp
  have rest: "(m c (Term ''hidden'' (VBool False)) \<longleftrightarrow> \<not> dc_hidden c)"
    "m c (get_chunk_index_filter min_chunk max_chunk) \<longleftrightarrow>
       (case min_chunk of None \<Rightarrow> True | Some l \<Rightarrow> l \<le> dc_chunk_index c)
       \<and> (case max_chunk of None \<Rightarrow> True | Some h \<Rightarrow> dc_chunk_index c \<le> h)"
    "m c (Term ''document_id'' (VStr d)) \<longleftrightarrow> dc_document_id c = d"
    "m c (Term ''max_chunk_size'' (VInt s)) \<longleftrightarrow> dc_max_chunk_size c = s"
    "m c (Term ''tenant_id'' (VStr t)) \<longleftrightarrow> ts_multitenant (dc_tenant c) \<and> ts_tenant_id (dc_tenant c) = t" for d s t
    by (auto simp: query_dslD [OF dsl] stored_fields_def get_chunk_index_filter_def)
  show ?thesis
    unfolding add_if_passes [OF q10] add_if_passes [OF q9] add_if_passes [OF q8] add_if_passes [OF q7]
      add_if_passes [OF q6] add_if_passes [OF q5] add_if_passes [OF q4] add_if_passes [OF q3]
      add_if_passes [OF q2] add_if_passes [OF q1] acl src tags scope admits_def
    by (simp add: rest time_filter_match [OF dsl] passes_def split: option.splits) blast
qed

section \<open>Building the filters of a request\<close>

text \<open>\<open>mynd/isolation/retrieval.py\<close>\<close>

definition tag_product :: string where "tag_product = ''mynd_product''"
definition tag_org :: string where "tag_org = ''mynd_org''"

definition product_document_tags :: "string \<Rightarrow> string option \<Rightarrow> (string, string) dict" where
  "product_document_tags product_slug org_id =
     (tag_product, product_slug) # (if truthy org_id then [(tag_org, the org_id)] else [])"

definition apply_retrieval_isolation :: "env \<Rightarrow> mynd_ctx \<Rightarrow> index_filters \<Rightarrow> index_filters" where
  "apply_retrieval_isolation env ctx f =
    (if \<not> retrieval_isolation_enabled env then f
     else if \<not> truthy (product_slug_ctx ctx) then f
     else (let extra = \<lparr>tag_key = tag_product, tag_value = the (product_slug_ctx ctx)\<rparr>
             # (if truthy (org_id_ctx ctx)
                then [\<lparr>tag_key = tag_org, tag_value = the (org_id_ctx ctx)\<rparr>] else [])
           in f\<lparr>if_tags := Some (some_list (if_tags f) @ extra)\<rparr>))"

text \<open>
  \<open>_build_index_filters\<close>.  \<open>db\<close> is the session when there is one; \<open>accessible\<close> is the query for the
  document sets a user may see; the list of a user's access entries is in an order of its own.
\<close>

record base_filters =
  bf_source_type :: "string list option"
  bf_document_set :: "string list option"
  bf_time_cutoff :: "int option"
  bf_tags :: "tag list option"

definition no_base_filters :: base_filters where
  "no_base_filters = \<lparr>bf_source_type = None, bf_document_set = None, bf_time_cutoff = None, bf_tags = None\<rparr>"

record persona_search =
  ps_project_id :: "int option"
  ps_persona_id :: "int option"
  ps_document_sets :: "string list option"
  ps_time_cutoff :: "int option"
  ps_attached_document_ids :: "string list option"
  ps_hierarchy_node_ids :: "int list option"

definition build_index_filters ::
  "env \<Rightarrow> mynd_ctx \<Rightarrow> string option \<Rightarrow> edition \<Rightarrow> (string set \<Rightarrow> string list)
    \<Rightarrow> (user_row \<Rightarrow> string list \<Rightarrow> string set) \<Rightarrow> base_filters option \<Rightarrow> user_row \<Rightarrow> persona_search
    \<Rightarrow> access_db option \<Rightarrow> bool \<Rightarrow> string list option \<Rightarrow> index_filters result" where
  "build_index_filters env ctx tenant ed enum accessible user_provided u p db bypass_acl acl_filters =
    (let base = (case user_provided of Some b \<Rightarrow> b | None \<Rightarrow> no_base_filters);
         checked = (bf_document_set base \<noteq> None \<and> \<not> bypass_acl \<and> \<not> is_anonymous u \<and> db \<noteq> None);
         names = some_list (bf_document_set base)
     in if checked \<and> (\<exists>n \<in> set names. n \<notin> accessible u names)
        then Inl (OnyxError INSUFFICIENT_PERMISSIONS) else
     let document_set_filter = (case bf_document_set base of Some s \<Rightarrow> Some s | None \<Rightarrow> ps_document_sets p);
         time_filter = (case bf_time_cutoff base of Some t \<Rightarrow> Some t | None \<Rightarrow> ps_time_cutoff p)
     in bind_r (if bypass_acl then Inr None
          else (case acl_filters of
              Some acl \<Rightarrow> Inr (Some acl)
            | None \<Rightarrow> (case db of
                None \<Rightarrow> Inl ValueError
              | Some d \<Rightarrow> Inr (Some (enum (get_acl_for_user ed d u)))))) (\<lambda>user_acl_filters.
        Inr (apply_retrieval_isolation env ctx
          \<lparr>if_source_type = bf_source_type base, if_document_set = document_set_filter,
           if_time_cutoff = time_filter, if_tags = bf_tags base, if_project_id = ps_project_id p,
           if_persona_id = ps_persona_id p, if_attached_document_ids = ps_attached_document_ids p,
           if_hierarchy_node_ids = ps_hierarchy_node_ids p, if_access_control_list = user_acl_filters,
           if_tenant_id = tenant\<rparr>)))"

section \<open>Updates of the index\<close>

record update_request =
  ur_document_ids :: "string list"
  ur_chunk_counts :: "(string, int) dict"
  ur_access :: "document_access option"
  ur_document_sets :: "string list option"
  ur_boost :: "int option"
  ur_hidden :: "bool option"
  ur_project_ids :: "int list option"
  ur_persona_ids :: "int list option"

text \<open>The properties of an update, as the change they make to a stored chunk.\<close>

definition updated_properties :: "update_request \<Rightarrow> 'v document_chunk \<Rightarrow> 'v document_chunk" where
  "updated_properties r c =
    (let c1 = (case ur_access r of None \<Rightarrow> c
               | Some a \<Rightarrow> c\<lparr>dc_access_control_list := filtered_access_control_list a\<rparr>);
         c2 = (case ur_document_sets r of None \<Rightarrow> c1 | Some s \<Rightarrow> c1\<lparr>dc_document_sets := Some s\<rparr>);
         c3 = (case ur_boost r of None \<Rightarrow> c2 | Some b \<Rightarrow> c2\<lparr>dc_global_boost := b\<rparr>);
         c4 = (case ur_hidden r of None \<Rightarrow> c3 | Some h \<Rightarrow> c3\<lparr>dc_hidden := h\<rparr>);
         c5 = (case ur_project_ids r of None \<Rightarrow> c4 | Some ps \<Rightarrow> c4\<lparr>dc_user_projects := Some ps\<rparr>)
     in (case ur_persona_ids r of None \<Rightarrow> c5 | Some ps \<Rightarrow> c5\<lparr>dc_personas := Some ps\<rparr>))"

definition nothing_to_update :: "update_request \<Rightarrow> bool" where
  "nothing_to_update r \<longleftrightarrow> ur_access r = None \<and> ur_document_sets r = None \<and> ur_boost r = None
     \<and> ur_hidden r = None \<and> ur_project_ids r = None \<and> ur_persona_ids r = None"

fun chunk_ids_of ::
  "(string \<Rightarrow> nat \<Rightarrow> string) \<Rightarrow> tenant_state \<Rightarrow> (string, int) dict \<Rightarrow> string list \<Rightarrow> string list result" where
  "chunk_ids_of h tenant counts [] = Inr []"
| "chunk_ids_of h tenant counts (d # ds) =
    (let n = (case dict_get counts d of None \<Rightarrow> -1 | Some n \<Rightarrow> n) in
     if n \<le> 0 then chunk_ids_of h tenant counts ds
     else bind_r (map_r (\<lambda>i. get_opensearch_doc_chunk_id h tenant d (int i) default_max_chunk_size) [0..<nat n])
       (\<lambda>is. bind_r (chunk_ids_of h tenant counts ds) (\<lambda>rest. Inr (is @ rest))))"

text \<open>A bulk update is applied to the chunks that exist and reports an error when one does not.\<close>

definition bulk_update_documents ::
  "(string, 'v document_chunk) dict \<Rightarrow> string list \<Rightarrow> ('v document_chunk \<Rightarrow> 'v document_chunk)
     \<Rightarrow> (string, 'v document_chunk) dict \<times> unit result" where
  "bulk_update_documents index is g =
     (map (\<lambda>(k, c). (k, if k \<in> set is then g c else c)) index,
      if \<exists>i \<in> set is. dict_get index i = None then Inl RuntimeError else Inr ())"

fun update_index ::
  "(string \<Rightarrow> nat \<Rightarrow> string) \<Rightarrow> tenant_state \<Rightarrow> update_request list \<Rightarrow> (string, 'v document_chunk) dict
     \<Rightarrow> (string, 'v document_chunk) dict \<times> unit result" where
  "update_index h tenant [] index = (index, Inr ())"
| "update_index h tenant (r # rs) index =
     (if nothing_to_update r then update_index h tenant rs index
      else (case chunk_ids_of h tenant (ur_chunk_counts r) (ur_document_ids r) of
              Inl e \<Rightarrow> (index, Inl e)
            | Inr is \<Rightarrow> (case bulk_update_documents index is (updated_properties r) of
                 (index', Inl e) \<Rightarrow> (index', Inl e)
               | (index', Inr _) \<Rightarrow> update_index h tenant rs index')))"

section \<open>Properties\<close>

text \<open>C11: A search shows only what its access list allows: whatever the other filters, a chunk that
  passes was indexed with an access list meeting the one of the request, and with no other filter
  every such chunk of the tenant passes.\<close>

theorem search_respects_access:
  assumes "query_dsl m" and "convert_onyx_chunk mt ic = Inr c" and "public_doc_pat \<in> set acl"
    and "if_access_control_list f = Some acl"
    and "get_search_filters now tenant hid f lo hi sz doc = Inr qs"
  shows "(passes m qs c \<longrightarrow> set acl \<inter> to_acl (ic_access ic) \<noteq> {})
    \<and> (f = no_filters\<lparr>if_access_control_list := Some acl\<rparr> \<and> lo = None \<and> hi = None \<and> sz = None
        \<and> doc = None \<and> tenant = dc_tenant c \<and> set acl \<inter> to_acl (ic_access ic) \<noteq> {} \<longrightarrow> passes m qs c)"
proof -
  have c: "dc_public c \<longleftrightarrow> is_public (ic_access ic)" "dc_hidden c \<longleftrightarrow> False"
    "dc_access_control_list c = to_acl (ic_access ic) - {public_doc_pat}"
    using assms(2) by (auto simp: convert_onyx_chunk_def check_title_and_vector_def Let_def
        filtered_access_control_list_def split: if_splits)
  have v: "visible_to acl c \<longleftrightarrow> set acl \<inter> to_acl (ic_access ic) \<noteq> {}"
    using assms(3) to_acl_iff(4) [of "ic_access ic"] by (auto simp: visible_to_def c)
  show ?thesis
    using v assms(4) by (auto simp: get_search_filters_match [OF assms(1,5)] admits_def no_filters_def
        some_list_def has_knowledge_scope_def c)
qed

text \<open>An evaluator of the clauses, for the witnesses.\<close>

fun eval_clause :: "'v document_chunk \<Rightarrow> clause \<Rightarrow> bool" where
  "eval_clause c (Term f v) \<longleftrightarrow> v \<in> stored_fields c f"
| "eval_clause c (Terms f vs) \<longleftrightarrow> (\<exists>v \<in> set vs. v \<in> stored_fields c f)"
| "eval_clause c (Range f lo hi) \<longleftrightarrow> (\<exists>x. VInt x \<in> stored_fields c f
     \<and> (case lo of None \<Rightarrow> True | Some l \<Rightarrow> l \<le> x) \<and> (case hi of None \<Rightarrow> True | Some h \<Rightarrow> x \<le> h))"
| "eval_clause c (Exists f) \<longleftrightarrow> stored_fields c f \<noteq> {}"
| "eval_clause c (Should qs n) \<longleftrightarrow> n \<le> length (filter id (map (eval_clause c) qs))"
| "eval_clause c (MustNot q) \<longleftrightarrow> \<not> eval_clause c q"

lemma eval_clause_dsl: "query_dsl eval_clause"
  by (simp add: query_dsl_def filter_map comp_def)

lemma search_respects_access_witness:
  "\<exists>c qs. convert_onyx_chunk False example_chunk = Inr c
    \<and> get_search_filters 0 single_tenant False (no_filters\<lparr>if_access_control_list := Some [public_doc_pat]\<rparr>)
        None None None None = Inr qs
    \<and> \<not> passes eval_clause qs c"
proof -
  have t: "get_title_for_document_index (Some ''Plan'') ''plan'' = Some ''Plan''" by code_simp
  obtain c where c: "convert_onyx_chunk False example_chunk = Inr c"
    by (simp add: convert_onyx_chunk_def example_chunk_def Let_def t check_title_and_vector_def)
  obtain qs where qs: "get_search_filters 0 single_tenant False
      (no_filters\<lparr>if_access_control_list := Some [public_doc_pat]\<rparr>) None None None None = Inr qs"
    by (simp add: get_search_filters_def no_filters_def add_if_def some_list_def
        has_knowledge_scope_def single_tenant_def get_acl_visibility_filter_def max_terms_def Let_def)
  have "set [public_doc_pat] \<inter> to_acl (ic_access example_chunk) = {}"
    using to_acl_iff(4) [of "ic_access example_chunk"]
    by (simp add: example_chunk_def get_null_document_access_def)
  then have "\<not> passes eval_clause qs c"
    using search_respects_access [OF eval_clause_dsl c _ _ qs, of "[public_doc_pat]"] by simp
  with c qs show ?thesis by blast
qed

lemma isolation_tags:
  assumes "retrieval_isolation_enabled env" and "product_slug_ctx ctx = Some slug" and "slug \<noteq> []"
  shows "tag_string ` set (some_list (if_tags (apply_retrieval_isolation env ctx f))) =
    tag_string ` set (some_list (if_tags f)) \<union> {tag_product @ index_separator @ slug}
      \<union> (if truthy (org_id_ctx ctx) then {tag_org @ index_separator @ the (org_id_ctx ctx)} else {})"
  using assms by (auto simp: apply_retrieval_isolation_def Let_def some_list_def tag_string_def)

lemma isolation_keeps:
  "admits now tenant hid (apply_retrieval_isolation env ctx f) lo hi sz doc c \<longleftrightarrow>
     admits now tenant hid (f\<lparr>if_tags := None\<rparr>) lo hi sz doc c
     \<and> (some_list (if_tags (apply_retrieval_isolation env ctx f)) = [] \<or>
        tag_string ` set (some_list (if_tags (apply_retrieval_isolation env ctx f)))
          \<inter> set (some_list (dc_metadata_list c)) \<noteq> {})"
proof -
  have a: "admits now tenant hid (f\<lparr>if_tags := ts\<rparr>) lo hi sz doc c \<longleftrightarrow>
     admits now tenant hid (f\<lparr>if_tags := None\<rparr>) lo hi sz doc c
     \<and> (some_list ts = [] \<or> tag_string ` set (some_list ts) \<inter> set (some_list (dc_metadata_list c)) \<noteq> {})"
    for ts
    by (simp add: admits_def in_knowledge_scope_def some_list_def) blast
  have "\<exists>ts. apply_retrieval_isolation env ctx f = f\<lparr>if_tags := ts\<rparr>"
    by (auto simp: apply_retrieval_isolation_def Let_def intro: exI [of _ "if_tags f"])
  then obtain ts where "apply_retrieval_isolation env ctx f = f\<lparr>if_tags := ts\<rparr>" ..
  then show ?thesis using a [of ts] by simp
qed

text \<open>Under retrieval isolation a chunk passes a product's search exactly when it passes without
  any tag filter and carries the product's tag, or the organisation's tag, or one of the tags the
  user asked for: the tags are alternatives, so what another product of the organisation indexed,
  or what matches the user's own tag, is shown too.\<close>

theorem product_tags_are_alternatives:
  assumes "query_dsl m" and "retrieval_isolation_enabled env"
    and "product_slug_ctx ctx = Some slug" and "slug \<noteq> []"
    and "get_search_filters now tenant hid (apply_retrieval_isolation env ctx f) lo hi sz doc = Inr qs"
    and "get_search_filters now tenant hid (f\<lparr>if_tags := None\<rparr>) lo hi sz doc = Inr qs0"
  shows "passes m qs c \<longleftrightarrow> passes m qs0 c \<and>
    (tag_product @ index_separator @ slug \<in> set (some_list (dc_metadata_list c))
     \<or> (truthy (org_id_ctx ctx) \<and>
          tag_org @ index_separator @ the (org_id_ctx ctx) \<in> set (some_list (dc_metadata_list c)))
     \<or> (\<exists>t \<in> set (some_list (if_tags f)). tag_string t \<in> set (some_list (dc_metadata_list c))))"
proof -
  let ?f = "apply_retrieval_isolation env ctx f"
  have tags: "tag_string ` set (some_list (if_tags ?f)) =
      tag_string ` set (some_list (if_tags f)) \<union> {tag_product @ index_separator @ slug}
      \<union> (if truthy (org_id_ctx ctx) then {tag_org @ index_separator @ the (org_id_ctx ctx)} else {})"
    by (rule isolation_tags [OF assms(2-4)])
  then have "some_list (if_tags ?f) \<noteq> []" by auto
  then have "passes m qs c \<longleftrightarrow> passes m qs0 c
      \<and> tag_string ` set (some_list (if_tags ?f)) \<inter> set (some_list (dc_metadata_list c)) \<noteq> {}"
    using get_search_filters_match [OF assms(1,5), of c] get_search_filters_match [OF assms(1,6), of c]
      isolation_keeps [of now tenant hid env ctx f lo hi sz doc c] by simp
  then show ?thesis unfolding tags by auto
qed

text \<open>A chunk of product \<open>eng\<close> in the same organisation, seen from product \<open>grc\<close>.\<close>

definition grc_env :: env where "grc_env = [(''MYND_RETRIEVAL_ISOLATION'', ''true'')]"

definition grc_ctx :: mynd_ctx where
  "grc_ctx = empty_ctx\<lparr>product_slug_ctx := Some ''grc'', org_id_ctx := Some ''42''\<rparr>"

lemma product_tags_are_alternatives_witness:
  "\<exists>qs c. get_search_filters 0 single_tenant False (apply_retrieval_isolation grc_env grc_ctx no_filters)
        None None None None = Inr qs
    \<and> convert_onyx_chunk False (example_chunk\<lparr>ic_metadata :=
        [(''mynd_product'', Single ''eng''), (''mynd_org'', Single ''42'')]\<rparr>) = Inr c
    \<and> passes eval_clause qs c"
proof -
  have on: "retrieval_isolation_enabled grc_env" by code_simp
  have slug: "product_slug_ctx grc_ctx = Some ''grc''" and org: "org_id_ctx grc_ctx = Some ''42''"
    by (simp_all add: grc_ctx_def)
  have t: "get_title_for_document_index (Some ''Plan'') ''plan'' = Some ''Plan''" by code_simp
  have m1: "remove_invalid_unicode_chars ''mynd_product===eng'' = ''mynd_product===eng''"
    and m2: "remove_invalid_unicode_chars ''mynd_org===42'' = ''mynd_org===42''" by code_simp+
  obtain c where c: "convert_onyx_chunk False (example_chunk\<lparr>ic_metadata :=
        [(''mynd_product'', Single ''eng''), (''mynd_org'', Single ''42'')]\<rparr>) = Inr c"
    and md: "some_list (dc_metadata_list c) = [''mynd_product===eng'', ''mynd_org===42'']"
    and hid: "\<not> dc_hidden c"
    by (simp add: convert_onyx_chunk_def example_chunk_def Let_def t check_title_and_vector_def
        get_metadata_str_attributes_def convert_metadata_dict_to_list_of_strings_def meta_strings_def
        index_separator_def m1 m2 some_list_def)
  obtain qs where qs: "get_search_filters 0 single_tenant False
      (apply_retrieval_isolation grc_env grc_ctx no_filters) None None None None = Inr qs"
    using on by (simp add: get_search_filters_def no_filters_def add_if_def some_list_def
        has_knowledge_scope_def single_tenant_def max_terms_def Let_def apply_retrieval_isolation_def
        slug org get_tag_filter_def terms_filter_def)
  obtain qs0 where qs0: "get_search_filters 0 single_tenant False (no_filters\<lparr>if_tags := None\<rparr>)
      None None None None = Inr qs0"
    and p: "passes eval_clause qs0 c"
    using hid by (simp add: get_search_filters_def no_filters_def add_if_def some_list_def
        has_knowledge_scope_def single_tenant_def Let_def passes_def stored_fields_def)
  have "passes eval_clause qs c"
    using product_tags_are_alternatives [OF eval_clause_dsl on slug _ qs qs0, of c] p
    by (simp add: md org tag_org_def index_separator_def)
  with qs c show ?thesis by blast
qed

text \<open>Writing new permissions to the index leaves the public flag of every chunk as it was: a
  document that stops being public stays visible to every user, and one that becomes public stays
  hidden from users its list does not name.\<close>

theorem permission_update_keeps_public_flag:
  assumes "ur_access r = Some a" and "(k, c) \<in> set index"
    and "chunk_ids_of h tenant (ur_chunk_counts r) (ur_document_ids r) = Inr is" and "k \<in> set is"
  shows "\<exists>c'. (k, c') \<in> set (fst (update_index h tenant [r] index))
    \<and> dc_access_control_list c' = filtered_access_control_list a
    \<and> (\<forall>acl. visible_to acl c' \<longleftrightarrow> dc_public c \<or> set acl \<inter> filtered_access_control_list a \<noteq> {})"
proof -
  have idx: "fst (update_index h tenant [r] index)
      = map (\<lambda>(k, c). (k, if k \<in> set is then updated_properties r c else c)) index"
    using assms(1,3) by (simp add: nothing_to_update_def bulk_update_documents_def)
  have "(k, updated_properties r c) \<in> set (fst (update_index h tenant [r] index))"
    unfolding idx using assms(2,4) by force
  moreover have "dc_access_control_list (updated_properties r c) = filtered_access_control_list a"
    "dc_public (updated_properties r c) = dc_public c"
    using assms(1) by (simp_all add: updated_properties_def Let_def split: option.splits)
  ultimately show ?thesis by (intro exI [of _ "updated_properties r c"]) (simp add: visible_to_def)
qed

definition make_private :: update_request where
  "make_private = \<lparr>ur_document_ids = [''d''], ur_chunk_counts = [(''d'', 1)],
     ur_access = Some get_null_document_access, ur_document_sets = None, ur_boost = None,
     ur_hidden = None, ur_project_ids = None, ur_persona_ids = None\<rparr>"

lemma permission_update_keeps_public_flag_witness:
  "\<exists>c c'. convert_onyx_chunk False (example_chunk\<lparr>ic_access := default_public_access\<rparr>) = Inr c
    \<and> (''d__512__0'', c') \<in> set (fst (update_index (\<lambda>s n. []) single_tenant [make_private] [(''d__512__0'', c)]))
    \<and> visible_to [] c'"
proof -
  have t: "get_title_for_document_index (Some ''Plan'') ''plan'' = Some ''Plan''" by code_simp
  obtain c where c: "convert_onyx_chunk False (example_chunk\<lparr>ic_access := default_public_access\<rparr>) = Inr c"
    and pub: "dc_public c"
    by (simp add: convert_onyx_chunk_def example_chunk_def Let_def t check_title_and_vector_def
        default_public_access_def)
  have ids: "chunk_ids_of (\<lambda>s n. []) single_tenant (ur_chunk_counts make_private)
      (ur_document_ids make_private) = Inr [''d__512__0'']" by code_simp
  have a: "ur_access make_private = Some get_null_document_access" by (simp add: make_private_def)
  show ?thesis
    using permission_update_keeps_public_flag [OF a _ ids, of "''d__512__0''" c "[(''d__512__0'', c)]"] c pub
    by auto
qed

text \<open>The filters of a user's request are never wider than the user: unless a system caller
  bypasses them, they carry the user's own access list (or the one fetched for the user before), and
  a signed-in user naming a document set beyond the accessible ones is refused.\<close>

theorem request_filters_are_the_users:
  assumes "build_index_filters env ctx tenant ed enum accessible b u p (Some db) False acl_filters = Inr f"
    and "\<And>s. finite s \<Longrightarrow> set (enum s) = s"
    and "\<forall>acl. acl_filters = Some acl \<longrightarrow> set acl = get_acl_for_user ed db u"
  shows "\<exists>acl. if_access_control_list f = Some acl \<and> set acl = get_acl_for_user ed db u
    \<and> (\<not> is_anonymous u \<longrightarrow> (\<forall>base names. b = Some base \<longrightarrow> bf_document_set base = Some names
         \<longrightarrow> if_document_set f = Some names \<and> set names \<subseteq> accessible u names))"
proof -
  have fin: "finite (get_acl_for_user ed db u)"
    by (simp add: get_acl_for_user_def get_acl_for_user_mit_def get_acl_for_user_ee_def Let_def
        split: edition.split)
  have keep: "if_access_control_list (apply_retrieval_isolation env ctx g) = if_access_control_list g"
    "if_document_set (apply_retrieval_isolation env ctx g) = if_document_set g" for g
    by (simp_all add: apply_retrieval_isolation_def Let_def)
  show ?thesis
    using assms(1,3) assms(2) [OF fin]
    by (auto simp: build_index_filters_def Let_def bind_r_Inr_iff keep some_list_def
        split: if_splits option.splits)
qed

lemma request_filters_are_the_users_witness:
  "\<exists>f acl. build_index_filters [] empty_ctx None Enterprise sorted_list_of_set (\<lambda>u ns. {}) None
      example_owner \<lparr>ps_project_id = None, ps_persona_id = None, ps_document_sets = None,
        ps_time_cutoff = None, ps_attached_document_ids = None, ps_hierarchy_node_ids = None\<rparr>
      (Some example_db) False None = Inr f
    \<and> if_access_control_list f = Some acl \<and> set acl = get_acl_for_user Enterprise example_db example_owner"
  (is "\<exists>f acl. ?run = Inr f \<and> _ f acl \<and> _ acl")
proof -
  obtain f where f: "?run = Inr f"
    by (simp add: build_index_filters_def Let_def no_base_filters_def)
  show ?thesis
    using request_filters_are_the_users [OF f] f by auto
qed

end
