(* ===== verification/CacheStore.thy ===== *)
theory CacheStore
  imports PyValue
begin

text \<open>
  The key-value cache of \<open>onyx/cache\<close>: the interface \<open>CacheBackend\<close> as a record of operations with
  the laws its clients rely on, and the Postgres back end of \<open>postgres_backend.py\<close>, which is shown to
  obey them.  The table \<open>cache_store\<close> is a dictionary from its primary key to value and expiry.
  \<open>set\<close>, the only writer, never stores \<open>NULL\<close>, so the value column is not optional.  Every operation
  takes the reading of the clock it uses; times are in microseconds.  Strings are compared by
  character codes, the order of a database with the C collation.
\<close>

section \<open>The interface\<close>

definition ttl_key_not_found :: int where "ttl_key_not_found = -2"
definition ttl_no_expiry :: int where "ttl_no_expiry = -1"

definition second :: int where "second = 1000000"

record ('s, 'b) cache_backend =
  cb_get :: "int \<Rightarrow> string \<Rightarrow> 's \<Rightarrow> 'b option"
  cb_set :: "int \<Rightarrow> string \<Rightarrow> 'b \<Rightarrow> int option \<Rightarrow> 's \<Rightarrow> 's"
  cb_delete :: "string \<Rightarrow> 's \<Rightarrow> 's"
  cb_exists :: "int \<Rightarrow> string \<Rightarrow> 's \<Rightarrow> bool"
  cb_expire :: "int \<Rightarrow> string \<Rightarrow> int \<Rightarrow> 's \<Rightarrow> 's"
  cb_ttl :: "int \<Rightarrow> string \<Rightarrow> 's \<Rightarrow> int"

text \<open>The value a key shows at time \<open>t\<close> when it was stored at \<open>now\<close> with lifetime \<open>ex\<close>.\<close>

definition alive :: "int \<Rightarrow> int \<Rightarrow> int option \<Rightarrow> bool" where
  "alive t now ex \<longleftrightarrow> (case ex of None \<Rightarrow> True | Some d \<Rightarrow> t < now + d * second)"

lemma alive_simps [simp]: "alive t now None" "alive t now (Some d) \<longleftrightarrow> t < now + d * second"
  by (simp_all add: alive_def)

locale cache_laws =
  fixes cache :: "('s, 'b) cache_backend"
  assumes get_set: "cb_get cache t k (cb_set cache now k' v ex s)
      = (if k = k' then (if alive t now ex then Some v else None) else cb_get cache t k s)"
    and get_delete: "cb_get cache t k (cb_delete cache k' s) = (if k = k' then None else cb_get cache t k s)"
    and get_expire_other: "k \<noteq> k' \<Longrightarrow> cb_get cache t k (cb_expire cache now k' d s) = cb_get cache t k s"
    and get_expire: "cb_get cache now k s = Some v \<Longrightarrow>
      cb_get cache t k (cb_expire cache now k d s) = (if alive t now (Some d) then Some v else None)"
    and get_expire_value: "cb_get cache t k (cb_expire cache now k' d s) = Some v \<Longrightarrow> \<exists>t'. cb_get cache t' k s = Some v"
    and exists_iff: "cb_exists cache t k s \<longleftrightarrow> cb_get cache t k s \<noteq> None"
    and ttl_missing: "cb_ttl cache t k s = ttl_key_not_found \<longleftrightarrow> cb_get cache t k s = None"
    and get_before: "cb_get cache t k s = Some v \<Longrightarrow> t' \<le> t \<Longrightarrow> cb_get cache t' k s = Some v"
begin

lemma get_set_same [simp]:
  "cb_get cache t k (cb_set cache now k v ex s) = (if alive t now ex then Some v else None)"
  by (simp add: get_set)

lemma get_set_other [simp]:
  "k \<noteq> k' \<Longrightarrow> cb_get cache t k (cb_set cache now k' v ex s) = cb_get cache t k s"
  by (simp add: get_set)

lemma get_after: "cb_get cache t k s = None \<Longrightarrow> t \<le> t' \<Longrightarrow> cb_get cache t' k s = None"
  using get_before [of t' k s _ t] by (cases "cb_get cache t' k s") auto

end

section \<open>Values as bytes\<close>

text \<open>\<open>_to_bytes\<close>: text stands for its UTF-8 encoding, a float is given by its \<open>repr\<close>.\<close>

datatype cache_value = CvBytes string | CvStr string | CvInt int | CvFloat string

definition to_bytes :: "cache_value \<Rightarrow> string" where
  "to_bytes v = (case v of CvBytes b \<Rightarrow> b | CvStr s \<Rightarrow> s | CvInt i \<Rightarrow> int_str i | CvFloat r \<Rightarrow> r)"

section \<open>The Postgres table\<close>

type_synonym 'b cache_table = "(string, 'b \<times> int option) dict"

text \<open>\<open>expires_at IS NULL OR expires_at > now()\<close>\<close>

definition unexpired :: "int \<Rightarrow> int option \<Rightarrow> bool" where
  "unexpired now expires_at \<longleftrightarrow> (case expires_at of None \<Rightarrow> True | Some e \<Rightarrow> now < e)"

definition pg_get :: "int \<Rightarrow> string \<Rightarrow> 'b cache_table \<Rightarrow> 'b option" where
  "pg_get now key s = (case dict_get s key of
     Some (v, e) \<Rightarrow> if unexpired now e then Some v else None
   | None \<Rightarrow> None)"

text \<open>\<open>INSERT ... ON CONFLICT (key) DO UPDATE\<close>\<close>

definition pg_set :: "int \<Rightarrow> string \<Rightarrow> 'b \<Rightarrow> int option \<Rightarrow> 'b cache_table \<Rightarrow> 'b cache_table" where
  "pg_set now key value_bytes ex s =
     (let expires_at = (case ex of None \<Rightarrow> None | Some d \<Rightarrow> Some (now + d * second))
      in dict_set key (value_bytes, expires_at) s)"

definition pg_delete :: "string \<Rightarrow> 'b cache_table \<Rightarrow> 'b cache_table" where
  "pg_delete key s = dict_del key s"

definition pg_exists :: "int \<Rightarrow> string \<Rightarrow> 'b cache_table \<Rightarrow> bool" where
  "pg_exists now key s = (case dict_get s key of Some (v, e) \<Rightarrow> unexpired now e | None \<Rightarrow> False)"

definition pg_expire :: "int \<Rightarrow> string \<Rightarrow> int \<Rightarrow> 'b cache_table \<Rightarrow> 'b cache_table" where
  "pg_expire now key seconds s =
     map (\<lambda>(k, v, e). if k = key then (k, v, Some (now + seconds * second)) else (k, v, e)) s"

text \<open>\<open>int(remaining)\<close> of a positive number of seconds is its integral part.\<close>

definition pg_ttl :: "int \<Rightarrow> string \<Rightarrow> 'b cache_table \<Rightarrow> int" where
  "pg_ttl now key s = (case dict_get s key of
     None \<Rightarrow> ttl_key_not_found
   | Some (v, None) \<Rightarrow> ttl_no_expiry
   | Some (v, Some e) \<Rightarrow>
       (let remaining = e - now in
        if remaining \<le> 0 then ttl_key_not_found else remaining div second))"

definition cleanup_expired_cache_entries :: "int \<Rightarrow> 'b cache_table \<Rightarrow> 'b cache_table" where
  "cleanup_expired_cache_entries now s =
     filter (\<lambda>(k, v, e). \<not> (case e of None \<Rightarrow> False | Some x \<Rightarrow> x < now)) s"

definition postgres_backend :: "('b cache_table, 'b) cache_backend" where
  "postgres_backend = \<lparr>cb_get = pg_get, cb_set = pg_set, cb_delete = pg_delete, cb_exists = pg_exists,
     cb_expire = pg_expire, cb_ttl = pg_ttl\<rparr>"

lemma postgres_backend_simps [simp]:
  "cb_get postgres_backend = pg_get" "cb_set postgres_backend = pg_set"
  "cb_delete postgres_backend = pg_delete" "cb_exists postgres_backend = pg_exists"
  "cb_expire postgres_backend = pg_expire" "cb_ttl postgres_backend = pg_ttl"
  by (simp_all add: postgres_backend_def)

lemma unexpired_antimono: "unexpired t e \<Longrightarrow> t' \<le> t \<Longrightarrow> unexpired t' e"
  by (auto simp: unexpired_def split: option.splits)

lemma dict_get_pg_expire: "dict_get (pg_expire now k d s) k' =
    (if k' = k then map_option (\<lambda>(v, e). (v, Some (now + d * second))) (dict_get s k') else dict_get s k')"
  by (induction s) (auto simp: pg_expire_def)

interpretation pg: cache_laws postgres_backend
proof unfold_locales
  fix t k now k' v and ex :: "int option" and s :: "'b cache_table"
  show "cb_get postgres_backend t k (cb_set postgres_backend now k' v ex s)
      = (if k = k' then if alive t now ex then Some v else None else cb_get postgres_backend t k s)"
    by (auto simp: pg_get_def pg_set_def unexpired_def split: option.splits)
  show "cb_get postgres_backend t k (cb_delete postgres_backend k' s)
      = (if k = k' then None else cb_get postgres_backend t k s)"
    by (simp add: pg_get_def pg_delete_def)
  show "k \<noteq> k' \<Longrightarrow> cb_get postgres_backend t k (cb_expire postgres_backend now k' d s)
      = cb_get postgres_backend t k s" for d
    by (simp add: pg_get_def dict_get_pg_expire)
  show "cb_get postgres_backend now k s = Some v \<Longrightarrow>
      cb_get postgres_backend t k (cb_expire postgres_backend now k d s)
      = (if alive t now (Some d) then Some v else None)" for d
    by (auto simp: pg_get_def dict_get_pg_expire unexpired_def split: option.splits if_splits)
  show "cb_get postgres_backend t k (cb_expire postgres_backend now k' d s) = Some v
      \<Longrightarrow> \<exists>t'. cb_get postgres_backend t' k s = Some v" for d
  proof -
    assume "cb_get postgres_backend t k (cb_expire postgres_backend now k' d s) = Some v"
    then obtain e where "dict_get s k = Some (v, e)"
      by (auto simp: pg_get_def dict_get_pg_expire split: option.splits if_splits)
    moreover have "unexpired (case e of None \<Rightarrow> 0 | Some x \<Rightarrow> x - 1) e" by (simp add: unexpired_def split: option.split)
    ultimately have "cb_get postgres_backend (case e of None \<Rightarrow> 0 | Some x \<Rightarrow> x - 1) k s = Some v"
      by (simp add: pg_get_def)
    then show ?thesis by blast
  qed
  show "cb_exists postgres_backend t k s \<longleftrightarrow> cb_get postgres_backend t k s \<noteq> None"
    by (auto simp: pg_get_def pg_exists_def split: option.splits)
  show "cb_ttl postgres_backend t k s = ttl_key_not_found \<longleftrightarrow> cb_get postgres_backend t k s = None"
  proof -
    have "e - t > 0 \<Longrightarrow> (e - t) div second \<ge> 0" for e by (simp add: second_def)
    then have "e - t > 0 \<Longrightarrow> (e - t) div second \<noteq> -2" for e by (metis not_numeral_le_zero neg_0_le_iff_le)
    then show ?thesis
      by (auto simp: pg_get_def pg_ttl_def unexpired_def ttl_key_not_found_def ttl_no_expiry_def Let_def
          split: option.splits)
  qed
  show "cb_get postgres_backend t k s = Some v \<Longrightarrow> t' \<le> t \<Longrightarrow> cb_get postgres_backend t' k s = Some v" for t'
    by (auto simp: pg_get_def unexpired_antimono split: option.splits if_splits)
qed

text \<open>Most clients store text.\<close>

locale text_cache = cache_laws cache for cache :: "('s, string) cache_backend"
begin

lemma write_then_read: "t < now + d * second \<Longrightarrow> cb_get cache t k (cb_set cache now k v (Some d) s) = Some v"
  by simp

lemma exists_set: "cb_exists cache t k (cb_set cache now k' v ex s)
    \<longleftrightarrow> (if k = k' then alive t now ex else cb_exists cache t k s)"
  by (simp add: exists_iff get_set)

lemma exists_delete: "cb_exists cache t k (cb_delete cache k' s) \<longleftrightarrow> k \<noteq> k' \<and> cb_exists cache t k s"
  by (simp add: exists_iff get_delete)

end

interpretation text_pg: text_cache "postgres_backend :: (string cache_table, string) cache_backend"
  by unfold_locales

lemma cleanup_invisible: "distinct (dict_keys s) \<Longrightarrow>
    pg_get t k (cleanup_expired_cache_entries now s) = pg_get t k s" if "now \<le> t"
proof (induction s)
  case (Cons p s)
  obtain k' v e where p: "p = (k', v, e)" by (cases p)
  have "dict_get (cleanup_expired_cache_entries now s) k' = None" "dict_get s k' = None"
    using Cons.prems p by (auto simp: dict_get_None_iff cleanup_expired_cache_entries_def)
  then show ?case using Cons p that
    by (auto simp: pg_get_def cleanup_expired_cache_entries_def unexpired_def split: option.splits)
qed (simp add: cleanup_expired_cache_entries_def)


section \<open>Lists\<close>

definition list_key_prefix :: string where "list_key_prefix = ''_q:''"
definition list_item_ttl_seconds :: int where "list_item_ttl_seconds = 3600"

definition list_item_key :: "string \<Rightarrow> nat \<Rightarrow> uuid \<Rightarrow> string" where
  "list_item_key key time_ns u = list_key_prefix @ key @ '':'' @ nat_str time_ns @ '':'' @ hex_digits 32 u"

definition pg_rpush :: "int \<Rightarrow> nat \<Rightarrow> uuid \<Rightarrow> string \<Rightarrow> 'b \<Rightarrow> 'b cache_table \<Rightarrow> 'b cache_table" where
  "pg_rpush now time_ns u key value s =
     pg_set now (list_item_key key time_ns u) value (Some list_item_ttl_seconds) s"

text \<open>The query of \<open>blpop\<close> for one list: unexpired rows in the key range, first by key.\<close>

definition list_range :: "int \<Rightarrow> string \<Rightarrow> 'b cache_table \<Rightarrow> 'b cache_table" where
  "list_range now key s =
    (let lo = list_key_prefix @ key @ '':''; hi = list_key_prefix @ key @ '';''
     in sort_key fst (filter (\<lambda>(k, v, e). lo \<le> k \<and> k < hi \<and> unexpired now e) s))"

text \<open>One pass over the lists, popping from the first that has a row.\<close>

fun pg_scan ::
  "int \<Rightarrow> string list \<Rightarrow> 'b cache_table \<Rightarrow> ((string \<times> 'b) \<times> 'b cache_table) option" where
  "pg_scan now [] s = None"
| "pg_scan now (key # keys) s = (case list_range now key s of
     (k, v, e) # _ \<Rightarrow> Some ((key, v), dict_del k s)
   | [] \<Rightarrow> pg_scan now keys s)"

text \<open>
  The polling loop.  A turn of the loop is given by the database clock of its queries, the monotonic
  clock after them and what other processes do to the table during the sleep that follows.  The
  result is the table and the return value, \<open>None\<close> while the caller is still blocked.
\<close>

type_synonym 'b poll = "int \<times> int \<times> ('b cache_table \<Rightarrow> 'b cache_table)"

fun blpop_loop ::
  "int \<Rightarrow> string list \<Rightarrow> 'b poll list \<Rightarrow> 'b cache_table
    \<Rightarrow> 'b cache_table \<times> (string \<times> 'b) option option" where
  "blpop_loop deadline keys [] s = (s, None)"
| "blpop_loop deadline keys ((now, clock, others) # polls) s =
    (case pg_scan now keys s of
       Some (r, s') \<Rightarrow> (s', Some (Some r))
     | None \<Rightarrow> if deadline \<le> clock then (s, Some None) else blpop_loop deadline keys polls (others s))"

definition pg_blpop ::
  "int \<Rightarrow> string list \<Rightarrow> int \<Rightarrow> 'b poll list \<Rightarrow> 'b cache_table
    \<Rightarrow> ('b cache_table \<times> (string \<times> 'b) option option) result" where
  "pg_blpop start keys timeout polls s =
     (if timeout \<le> 0 then Inl ValueError else Inr (blpop_loop (start + timeout * second) keys polls s))"

text \<open>The key range of a list holds the keys that start with its name and a colon.\<close>

lemma range_iff_prefix:
  "p @ '':'' \<le> k \<and> k < p @ '';'' \<longleftrightarrow> prefix (p @ '':'') (k :: string)"
proof (induction p arbitrary: k)
  case Nil
  have sandwich: "CHR '':'' \<le> c \<and> c < CHR '';'' \<longleftrightarrow> c = CHR '':''" for c :: char
  proof
    assume "CHR '':'' \<le> c \<and> c < CHR '';''"
    then have "(of_char c :: nat) = of_char CHR '':''"
      by (simp add: less_eq_char_def less_char_def)
    then show "c = CHR '':''" by (metis of_char_eq_iff)
  qed (simp add: less_eq_char_def less_char_def)
  show ?case
  proof (cases k)
    case (Cons c x)
    then have "'':'' \<le> k \<and> k < '';'' \<longleftrightarrow> CHR '':'' \<le> c \<and> c < CHR '';''"
      by (cases x) (auto simp: le_less)
    with sandwich [of c] Cons show ?thesis by auto
  qed simp
next
  case (Cons a p)
  show ?case
  proof (cases k)
    case k: (Cons b x)
    show ?thesis using Cons.IH [of x] by (cases "a = b") (simp_all add: k, meson less_asym)
  qed simp
qed

lemma list_range_eq: "list_range now key s =
    sort_key fst (filter (\<lambda>(k, v, e). prefix (list_key_prefix @ key @ '':'') k \<and> unexpired now e) s)"
proof -
  have "lo @ key @ '':'' \<le> k \<and> k < lo @ key @ '';'' \<longleftrightarrow> prefix (lo @ key @ '':'') k" for lo k :: string
    using range_iff_prefix [of "lo @ key" k] by simp
  then have "(\<lambda>(k, v, e). list_key_prefix @ key @ '':'' \<le> k \<and> k < list_key_prefix @ key @ '';'' \<and> unexpired now e)
      = (\<lambda>(k, v :: 'a, e). prefix (list_key_prefix @ key @ '':'') k \<and> unexpired now e)"
    by (auto simp: fun_eq_iff)
  then show ?thesis by (simp add: list_range_def Let_def)
qed

section \<open>Order of list keys\<close>

lemma less_append: "xs < ys \<Longrightarrow> length xs = length ys \<Longrightarrow> xs @ u < ys @ (v :: 'a :: linorder list)"
  by (induction xs ys rule: list_induct2') auto

lemma append_less_append: "xs @ u < xs @ (v :: 'a :: linorder list) \<longleftrightarrow> u < v"
  by (induction xs) auto

lemma digit_char_less: "d < e \<Longrightarrow> e < 10 \<Longrightarrow> digit_char d < digit_char e"
  by (simp add: less_char_def)

lemma nat_str_less: "m < n \<Longrightarrow> length (nat_str m) = length (nat_str n) \<Longrightarrow> nat_str m < nat_str n"
proof (induction m arbitrary: n rule: nat_str.induct)
  case (1 m)
  show ?case
  proof (cases "m < 10")
    case True
    then have "length (nat_str n) = 1" using "1.prems" by (simp add: nat_str.simps [of m])
    then have "n < 10" by (auto simp: nat_str.simps [of n] split: if_splits)
    then show ?thesis using True "1.prems"
      by (simp add: nat_str.simps [of m] nat_str.simps [of n] digit_char_less)
  next
    case False
    then have big: "\<not> n < 10" using "1.prems" by simp
    have len: "length (nat_str (m div 10)) = length (nat_str (n div 10))"
      using "1.prems" False big by (simp add: nat_str.simps [of m] nat_str.simps [of n])
    have eq: "nat_str m = nat_str (m div 10) @ [digit_char (m mod 10)]"
        "nat_str n = nat_str (n div 10) @ [digit_char (n mod 10)]"
      using False big by (simp_all add: nat_str.simps [of m] nat_str.simps [of n])
    show ?thesis
    proof (cases "m div 10 = n div 10")
      case True
      with "1.prems" have "m mod 10 < n mod 10" by (metis div_mult_mod_eq nat_add_left_cancel_less)
      with True show ?thesis by (simp add: eq append_less_append digit_char_less)
    next
      case False
      with "1.prems" have "m div 10 < n div 10" by (simp add: div_le_mono le_neq_implies_less)
      with "1.IH" \<open>\<not> m < 10\<close> len show ?thesis by (simp add: eq less_append)
    qed
  qed
qed

lemma list_item_key_less:
  "t < t' \<Longrightarrow> length (nat_str t) = length (nat_str t') \<Longrightarrow> list_item_key key t u < list_item_key key t' u'"
  by (simp add: list_item_key_def append_less_append nat_str_less less_append)

lemma insort_key_append_max:
  "(\<And>y. y \<in> insert a (set ys) \<Longrightarrow> f y \<le> f x) \<Longrightarrow> insort_key f a (ys @ [x]) = insort_key f a ys @ [x]"
  by (induction ys) auto

lemma sort_key_append_max:
  "(\<And>y. y \<in> set ys \<Longrightarrow> f y \<le> f x) \<Longrightarrow> sort_key f (ys @ [x]) = sort_key f ys @ [x]"
  by (induction ys) (auto intro!: insort_key_append_max)

section \<open>A list is a queue\<close>

text \<open>What a client does to one list, and to other keys of the cache, in order.\<close>

datatype 'b list_event = Push int nat uuid 'b | Pop int | Store int string 'b "int option"

definition list_step :: "string \<Rightarrow> 'b list_event \<Rightarrow> 'b cache_table \<Rightarrow> 'b cache_table \<times> 'b option" where
  "list_step key ev s = (case ev of
     Push now t u v \<Rightarrow> (pg_rpush now t u key v s, None)
   | Pop now \<Rightarrow> (case pg_scan now [key] s of None \<Rightarrow> (s, None) | Some ((_, v), s') \<Rightarrow> (s', Some v))
   | Store now k v ex \<Rightarrow> (pg_set now k v ex s, None))"

definition queue_step :: "'b list_event \<Rightarrow> 'b list \<Rightarrow> 'b list \<times> 'b option" where
  "queue_step ev q = (case ev of
     Push _ _ _ v \<Rightarrow> (q @ [v], None)
   | Pop _ \<Rightarrow> (case q of [] \<Rightarrow> ([], None) | v # q' \<Rightarrow> (q', Some v))
   | Store _ _ _ _ \<Rightarrow> (q, None))"

fun run_steps :: "('e \<Rightarrow> 's \<Rightarrow> 's \<times> 'o) \<Rightarrow> 'e list \<Rightarrow> 's \<Rightarrow> 'o list" where
  "run_steps step [] s = []"
| "run_steps step (ev # evs) s = (let (s', out) = step ev s in out # run_steps step evs s')"

text \<open>Pushes come with growing 19-digit times (the years 2001 to 2286), nothing pushed expires before
  \<open>horizon\<close>, no operation is later than it, and other keys are outside the list's range.\<close>

fun timely :: "string \<Rightarrow> int \<Rightarrow> nat \<Rightarrow> 'b list_event list \<Rightarrow> bool" where
  "timely key horizon t0 [] \<longleftrightarrow> True"
| "timely key horizon t0 (Push now t u v # evs) \<longleftrightarrow>
     t0 < t \<and> length (nat_str t) = 19 \<and> horizon < now + list_item_ttl_seconds * second
     \<and> timely key horizon t evs"
| "timely key horizon t0 (Pop now # evs) \<longleftrightarrow> now \<le> horizon \<and> timely key horizon t0 evs"
| "timely key horizon t0 (Store now k v ex # evs) \<longleftrightarrow>
     \<not> prefix (list_key_prefix @ key @ '':'') k \<and> timely key horizon t0 evs"

definition list_rows :: "string \<Rightarrow> 'b cache_table \<Rightarrow> 'b cache_table" where
  "list_rows key s = filter (\<lambda>(k, v, e). prefix (list_key_prefix @ key @ '':'') k) s"

definition list_inv :: "string \<Rightarrow> int \<Rightarrow> nat \<Rightarrow> 'b cache_table \<Rightarrow> 'b list \<Rightarrow> bool" where
  "list_inv key horizon t0 s q \<longleftrightarrow> distinct (dict_keys s)
     \<and> (\<forall>(k, v, e) \<in> set (list_rows key s). unexpired horizon e
          \<and> (\<exists>t u. k = list_item_key key t u \<and> length (nat_str t) = 19 \<and> t \<le> t0))
     \<and> map (\<lambda>(k, v, e). v) (sort_key fst (list_rows key s)) = q"

lemma list_range_rows:
  "list_inv key horizon t0 s q \<Longrightarrow> now \<le> horizon \<Longrightarrow> list_range now key s = sort_key fst (list_rows key s)"
proof -
  assume inv: "list_inv key horizon t0 s q" and now: "now \<le> horizon"
  have "filter (\<lambda>(k, v, e). prefix (list_key_prefix @ key @ '':'') k \<and> unexpired now e) s
      = filter (\<lambda>(k, v, e). prefix (list_key_prefix @ key @ '':'') k) s"
  proof (rule filter_cong [OF refl])
    fix x assume x: "x \<in> set s"
    obtain k v e where xe: "x = (k, v, e)" by (cases x)
    have "unexpired now e" if "prefix (list_key_prefix @ key @ '':'') k"
    proof -
      have "(k, v, e) \<in> set (list_rows key s)" using x xe that by (simp add: list_rows_def)
      then have "unexpired horizon e" using inv by (auto simp: list_inv_def)
      then show ?thesis using now by (rule unexpired_antimono)
    qed
    with xe show "(case x of (k, v, e) \<Rightarrow> prefix (list_key_prefix @ key @ '':'') k \<and> unexpired now e)
        = (case x of (k, v, e) \<Rightarrow> prefix (list_key_prefix @ key @ '':'') k)" by auto
  qed
  then show ?thesis unfolding list_range_eq list_rows_def by (rule arg_cong)
qed

lemma list_item_key_prefix [simp]: "prefix (list_key_prefix @ key @ '':'') (list_item_key key t u)"
  by (simp add: list_item_key_def)

lemma list_inv_push:
  assumes inv: "list_inv key horizon t0 s q" and t: "t0 < t" "length (nat_str t) = 19"
    and live: "horizon < now + list_item_ttl_seconds * second"
  shows "list_inv key horizon t (pg_rpush now t u key v s) (q @ [v])"
proof -
  let ?k = "list_item_key key t u"
  have smaller: "fst x < ?k" if "x \<in> set (list_rows key s)" for x
  proof -
    have "case x of (k, v, e) \<Rightarrow> \<exists>t u. k = list_item_key key t u \<and> length (nat_str t) = 19 \<and> t \<le> t0"
      using inv that unfolding list_inv_def by blast
    then show ?thesis using t by (auto intro!: list_item_key_less)
  qed
  have "?k \<notin> fst ` set s"
  proof
    assume "?k \<in> fst ` set s"
    then obtain x where "x \<in> set s" "fst x = ?k" by auto
    then have "x \<in> set (list_rows key s)" by (auto simp: list_rows_def)
    with smaller \<open>fst x = ?k\<close> show False by fastforce
  qed
  then have push: "pg_rpush now t u key v s
      = s @ [(?k, v, Some (now + list_item_ttl_seconds * second))]"
    by (simp add: pg_rpush_def pg_set_def dict_set_fresh)
  then have rows: "list_rows key (pg_rpush now t u key v s)
      = list_rows key s @ [(?k, v, Some (now + list_item_ttl_seconds * second))]"
    by (simp add: list_rows_def)
  have "sort_key fst (list_rows key (pg_rpush now t u key v s))
      = sort_key fst (list_rows key s) @ [(?k, v, Some (now + list_item_ttl_seconds * second))]"
    unfolding rows by (rule sort_key_append_max) (simp add: smaller less_imp_le)
  moreover have "distinct (dict_keys (pg_rpush now t u key v s))"
    using inv by (simp add: pg_rpush_def pg_set_def list_inv_def)
  ultimately show ?thesis using inv t live
    unfolding list_inv_def rows by (fastforce simp: unexpired_def)
qed

lemma list_inv_store:
  assumes inv: "list_inv key horizon t0 s q" and k: "\<not> prefix (list_key_prefix @ key @ '':'') k"
  shows "list_inv key horizon t0 (pg_set now k v ex s) q"
proof -
  have "list_rows key (dict_set k x s) = list_rows key s" for x
    using k by (induction k x s rule: dict_set.induct) (auto simp: list_rows_def)
  with inv show ?thesis by (simp add: list_inv_def pg_set_def)
qed

lemma list_inv_pop_empty:
  "list_inv key horizon t0 s [] \<Longrightarrow> now \<le> horizon \<Longrightarrow> pg_scan now [key] s = None"
  using list_range_rows [of key horizon t0 s "[]" now] by (simp add: list_inv_def)

lemma list_inv_pop:
  assumes inv: "list_inv key horizon t0 s (v # q)" and now: "now \<le> horizon"
  shows "\<exists>s'. pg_scan now [key] s = Some ((key, v), s') \<and> list_inv key horizon t0 s' q"
proof -
  obtain k e rest where sorted: "sort_key fst (list_rows key s) = (k, v, e) # rest"
      and q: "map (\<lambda>(k, v, e). v) rest = q"
    using inv by (auto simp: list_inv_def)
  have scan: "pg_scan now [key] s = Some ((key, v), dict_del k s)"
    using list_range_rows [OF inv now] sorted by simp
  have "distinct (dict_keys (list_rows key s))"
    using inv by (auto simp: list_inv_def list_rows_def distinct_map intro: inj_on_subset)
  then have "distinct (map fst (sort_key fst (list_rows key s)))"
    by (metis distinct_map distinct_sort set_sort)
  then have fresh: "k \<notin> fst ` set rest" using sorted by simp
  have "list_rows key (dict_del k s) = filter (\<lambda>(k', _). k' \<noteq> k) (list_rows key s)"
    by (auto simp: list_rows_def dict_del_def intro!: filter_cong)
  then have "sort_key fst (list_rows key (dict_del k s)) = filter (\<lambda>(k', _). k' \<noteq> k) ((k, v, e) # rest)"
    by (metis filter_sort sorted)
  also have "\<dots> = rest" using fresh by (auto intro!: filter_True) (metis fst_conv image_eqI)
  finally have "sort_key fst (list_rows key (dict_del k s)) = rest" .
  moreover have "set (list_rows key (dict_del k s)) \<subseteq> set (list_rows key s)"
    by (auto simp: list_rows_def dict_del_def)
  moreover have "distinct (dict_keys (dict_del k s))"
    using inv by (auto simp: list_inv_def dict_del_def distinct_map intro: inj_on_subset)
  ultimately have "list_inv key horizon t0 (dict_del k s) q"
    using inv q unfolding list_inv_def by blast
  with scan show ?thesis by blast
qed

lemma list_refines_queue:
  "list_inv key horizon t0 s q \<Longrightarrow> timely key horizon t0 evs
    \<Longrightarrow> run_steps (list_step key) evs s = run_steps queue_step evs q"
proof (induction evs arbitrary: s q t0)
  case (Cons ev evs)
  show ?case
  proof (cases ev)
    case (Push now t u v)
    with Cons.prems have "list_inv key horizon t (pg_rpush now t u key v s) (q @ [v])"
      by (simp add: list_inv_push)
    with Cons Push show ?thesis by (simp add: list_step_def queue_step_def)
  next
    case (Store now k v ex)
    with Cons.prems have "list_inv key horizon t0 (pg_set now k v ex s) q"
      by (simp add: list_inv_store)
    with Cons Store show ?thesis by (simp add: list_step_def queue_step_def)
  next
    case (Pop now)
    with Cons.prems have now: "now \<le> horizon" and rest: "timely key horizon t0 evs" by simp_all
    show ?thesis
    proof (cases q)
      case Nil
      with list_inv_pop_empty Cons.prems now have "pg_scan now [key] s = None" by blast
      with Nil Pop Cons.IH [OF Cons.prems(1) rest] show ?thesis
        by (simp add: list_step_def queue_step_def del: pg_scan.simps)
    next
      case q: (Cons v q')
      then obtain s' where "pg_scan now [key] s = Some ((key, v), s')" "list_inv key horizon t0 s' q'"
        using list_inv_pop Cons.prems(1) now by (metis (no_types))
      with q Pop Cons.IH rest show ?thesis
        by (simp add: list_step_def queue_step_def del: pg_scan.simps)
    qed
  qed
qed simp


definition example_events :: "string list_event list" where
  "example_events = [Push 5 1700000000000000001 7 ''a'', Store 5 ''other'' ''x'' None,
     Push 6 1700000000000000002 3 ''b'', Pop 7, Pop 8, Pop 9]"

lemma example_times: "length (nat_str 1700000000000000001) = 19" "length (nat_str 1700000000000000002) = 19"
  by (simp_all add: nat_str.simps)


text \<open>The range of a list also holds the items of every list whose name continues its name with a
  colon: a reader of the shorter name takes, and deletes, what was pushed to the longer one.\<close>

theorem list_takes_from_longer_name:
  assumes "\<forall>k \<in> fst ` set s. \<not> prefix (list_key_prefix @ key @ '':'') k" and "now < now0 + 3600 * second"
  shows "\<exists>s'. pg_scan now [key] (pg_rpush now0 t u (key @ '':'' @ tail) v s) = Some ((key, v), s')
    \<and> pg_scan now [key @ '':'' @ tail] s' = None"
proof -
  let ?k = "list_item_key (key @ '':'' @ tail) t u" and ?e = "Some (now0 + list_item_ttl_seconds * second)"
  let ?row = "(?k, v, ?e)"
  have pre: "prefix (list_key_prefix @ key @ '':'') ?k" by (simp add: list_item_key_def)
  have fresh: "?k \<notin> fst ` set s" using assms(1) pre by blast
  then have push: "pg_rpush now0 t u (key @ '':'' @ tail) v s = s @ [?row]"
    by (simp add: pg_rpush_def pg_set_def dict_set_fresh)
  have "filter (\<lambda>(k, v, e). prefix (list_key_prefix @ key @ '':'') k \<and> unexpired now e) s = []"
    using assms(1) by (auto simp: filter_empty_conv)
  then have range: "list_range now key (s @ [?row]) = [?row]"
    using pre assms(2) by (simp add: list_range_eq unexpired_def list_item_ttl_seconds_def)
  have "dict_del ?k (s @ [?row]) = s" using dict_del_fresh [OF fresh] by (simp add: dict_del_def)
  moreover have "list_range now (key @ '':'' @ tail) s = []"
  proof -
    have "\<not> prefix (list_key_prefix @ (key @ '':'' @ tail) @ '':'') (fst x)" if "x \<in> set s" for x
      using bspec [OF assms(1), of "fst x"] that
        append_prefixD [of "list_key_prefix @ key @ '':''" "tail @ '':''" "fst x"] by auto
    then have "filter (\<lambda>(k, v, e). prefix (list_key_prefix @ (key @ '':'' @ tail) @ '':'') k
        \<and> unexpired now e) s = []"
      unfolding filter_empty_conv split_def by blast
    then show ?thesis unfolding list_range_eq by simp
  qed
  ultimately show ?thesis using range unfolding push by simp
qed

lemma list_takes_from_longer_name_witness:
  "\<exists>s'. pg_scan 5 [''user''] (pg_rpush 0 17 3 (''user'' @ '':'' @ ''7'') ''secret'' []) = Some ((''user'', ''secret''), s')
    \<and> pg_scan 5 [''user'' @ '':'' @ ''7''] s' = None"
  by (rule list_takes_from_longer_name) (simp_all add: second_def)

end
