(* ===== verification/CacheLocks.thy ===== *)
theory CacheLocks
  imports CacheStore
begin

text \<open>
  Distributed locks of the Postgres cache back end: \<open>PostgresCacheLock\<close> of
  \<open>onyx/cache/postgres_backend.py\<close> over the server's advisory locks.  The server's lock table maps a
  lock to the session holding it; a session is the number the connection pool gave it.  A call of
  \<open>acquire\<close> that still waits returns no answer.
\<close>

section \<open>The server\<close>

type_synonym lock_table = "(int, nat) dict"

text \<open>A session may take a lock again that it holds.\<close>

definition pg_try_advisory_lock :: "nat \<Rightarrow> int \<Rightarrow> lock_table \<Rightarrow> bool \<times> lock_table" where
  "pg_try_advisory_lock session k locks = (case dict_get locks k of
     None \<Rightarrow> (True, dict_set k session locks)
   | Some holder \<Rightarrow> (holder = session, locks))"

definition pg_advisory_unlock :: "nat \<Rightarrow> int \<Rightarrow> lock_table \<Rightarrow> lock_table" where
  "pg_advisory_unlock session k locks = (if dict_get locks k = Some session then dict_del k locks else locks)"

text \<open>Closing a session frees its locks.\<close>

definition end_session :: "nat \<Rightarrow> lock_table \<Rightarrow> lock_table" where
  "end_session session locks = filter (\<lambda>(k, holder). holder \<noteq> session) locks"

section \<open>Lock objects\<close>

record pg_lock =
  pl_id :: int
  pl_timeout :: "int option"
  pl_session :: "nat option"
  pl_acquired :: bool

text \<open>The first eight bytes of the digest, read as a signed 64-bit integer; the hash is an argument.\<close>

definition lock_id_for :: "(string \<Rightarrow> 64 word) \<Rightarrow> string \<Rightarrow> string \<Rightarrow> int" where
  "lock_id_for md5 tenant_id name = sint (md5 (tenant_id @ '':'' @ name))"

definition new_pg_lock :: "(string \<Rightarrow> 64 word) \<Rightarrow> string \<Rightarrow> string \<Rightarrow> int option \<Rightarrow> pg_lock" where
  "new_pg_lock md5 tenant_id name timeout =
     \<lparr>pl_id = lock_id_for md5 tenant_id name, pl_timeout = timeout, pl_session = None, pl_acquired = False\<rparr>"

definition try_lock :: "pg_lock \<times> lock_table \<Rightarrow> (bool \<times> pg_lock \<times> lock_table) result" where
  "try_lock = (\<lambda>(lk, locks). case pl_session lk of
     None \<Rightarrow> Inl AssertionError
   | Some session \<Rightarrow>
       (case pg_try_advisory_lock session (pl_id lk) locks of (got, locks') \<Rightarrow>
          if got then Inr (True, lk\<lparr>pl_acquired := True\<rparr>, locks') else Inr (False, lk, locks')))"

definition close_session :: "pg_lock \<times> lock_table \<Rightarrow> pg_lock \<times> lock_table" where
  "close_session = (\<lambda>(lk, locks). case pl_session lk of
     None \<Rightarrow> (lk, locks)
   | Some session \<Rightarrow> (lk\<lparr>pl_session := None\<rparr>, end_session session locks))"

definition int_truthy :: "int option \<Rightarrow> bool" where
  "int_truthy x \<longleftrightarrow> x \<noteq> None \<and> x \<noteq> Some 0"

text \<open>A poll is the monotonic clock after the attempt and what others do to the lock table meanwhile.\<close>

fun acquire_loop ::
  "int option \<Rightarrow> (int \<times> (lock_table \<Rightarrow> lock_table)) list \<Rightarrow> pg_lock \<times> lock_table
    \<Rightarrow> (bool option \<times> pg_lock \<times> lock_table) result" where
  "acquire_loop deadline [] st = Inr (None, st)"
| "acquire_loop deadline ((clock, others) # polls) st =
     bind_r (try_lock st) (\<lambda>(got, lk, locks).
       if got then Inr (Some True, lk, locks)
       else if deadline \<noteq> None \<and> the deadline \<le> clock then Inr (Some False, lk, locks)
       else acquire_loop deadline polls (lk, others locks))"

text \<open>The \<open>finally\<close> clause: a session that did not get the lock is closed.\<close>

definition finish_acquire :: "bool option \<times> pg_lock \<times> lock_table \<Rightarrow> bool option \<times> pg_lock \<times> lock_table" where
  "finish_acquire = (\<lambda>(r, lk, locks).
     if r = None then (r, lk, locks)
     else if \<not> pl_acquired lk then (r, close_session (lk, locks)) else (r, lk, locks))"

definition acquire ::
  "nat \<Rightarrow> bool \<Rightarrow> int option \<Rightarrow> int \<Rightarrow> (int \<times> (lock_table \<Rightarrow> lock_table)) list
    \<Rightarrow> pg_lock \<times> lock_table \<Rightarrow> (bool option \<times> pg_lock \<times> lock_table) result" where
  "acquire new_session blocking blocking_timeout start polls = (\<lambda>(lk, locks).
     let lk1 = lk\<lparr>pl_session := Some new_session\<rparr> in
     bind_r
       (if \<not> blocking then bind_r (try_lock (lk1, locks)) (\<lambda>(got, st). Inr (Some got, st))
        else let effective_timeout = (if int_truthy blocking_timeout then blocking_timeout else pl_timeout lk);
                 deadline = (if int_truthy effective_timeout then Some (start + the effective_timeout) else None)
             in acquire_loop deadline polls (lk1, locks))
       (\<lambda>r. Inr (finish_acquire r)))"

definition release :: "pg_lock \<times> lock_table \<Rightarrow> pg_lock \<times> lock_table" where
  "release = (\<lambda>(lk, locks).
     if \<not> pl_acquired lk \<or> pl_session lk = None then (lk, locks)
     else close_session (lk\<lparr>pl_acquired := False\<rparr>, pg_advisory_unlock (the (pl_session lk)) (pl_id lk) locks))"

definition owned :: "pg_lock \<Rightarrow> bool" where
  "owned lk = pl_acquired lk"

section \<open>Several lock objects at once\<close>

text \<open>
  The steps of \<open>acquire\<close> and \<open>release\<close> on a pool of lock objects, interleaved: open a session that the
  pool has not handed out, try the lock, give up, release.  An object is acquired again only after
  it was released, as its use in a \<open>with\<close> statement does.
\<close>

type_synonym lock_pool = "pg_lock list \<times> lock_table \<times> nat"

inductive lock_step :: "lock_pool \<Rightarrow> lock_pool \<Rightarrow> bool" where
  open_session: "i < length objs \<Longrightarrow> pl_session (objs ! i) = None \<Longrightarrow>
    lock_step (objs, locks, n) (objs[i := (objs ! i)\<lparr>pl_session := Some n\<rparr>], locks, Suc n)"
| attempt: "i < length objs \<Longrightarrow> \<not> pl_acquired (objs ! i) \<Longrightarrow> try_lock (objs ! i, locks) = Inr (got, lk, locks') \<Longrightarrow>
    lock_step (objs, locks, n) (objs[i := lk], locks', n)"
| give_up: "i < length objs \<Longrightarrow> \<not> pl_acquired (objs ! i) \<Longrightarrow> close_session (objs ! i, locks) = (lk, locks') \<Longrightarrow>
    lock_step (objs, locks, n) (objs[i := lk], locks', n)"
| free: "i < length objs \<Longrightarrow> release (objs ! i, locks) = (lk, locks') \<Longrightarrow>
    lock_step (objs, locks, n) (objs[i := lk], locks', n)"

inductive lock_reachable :: "lock_pool \<Rightarrow> bool" where
  start: "\<forall>lk \<in> set objs. pl_session lk = None \<and> \<not> pl_acquired lk \<Longrightarrow> lock_reachable (objs, [], 0)"
| step: "lock_reachable st \<Longrightarrow> lock_step st st' \<Longrightarrow> lock_reachable st'"

inductive_cases lock_stepE: "lock_step (objs, locks, n) st'"

definition pool_inv :: "lock_pool \<Rightarrow> bool" where
  "pool_inv = (\<lambda>(objs, locks, n).
     (\<forall>i < length objs. pl_acquired (objs ! i) \<longrightarrow>
        (\<exists>s. pl_session (objs ! i) = Some s \<and> dict_get locks (pl_id (objs ! i)) = Some s))
     \<and> (\<forall>i < length objs. \<forall>j < length objs. \<forall>s. pl_session (objs ! i) = Some s
          \<and> pl_session (objs ! j) = Some s \<longrightarrow> i = j)
     \<and> (\<forall>i < length objs. \<forall>s. pl_session (objs ! i) = Some s \<longrightarrow> s < n))"

lemma pool_inv_update:
  assumes inv: "pool_inv (objs, locks, n)" and i: "i < length objs"
    and keep: "\<And>k s. dict_get locks k = Some s \<Longrightarrow> pl_session (objs ! i) \<noteq> Some s \<Longrightarrow> dict_get locks' k = Some s"
    and own: "pl_acquired lk \<Longrightarrow> \<exists>s. pl_session lk = Some s \<and> dict_get locks' (pl_id lk) = Some s"
    and sess: "\<And>s. pl_session lk = Some s \<Longrightarrow> pl_session (objs ! i) = Some s \<or> s = n \<and> m = Suc n"
    and m: "n \<le> m"
  shows "pool_inv (objs[i := lk], locks', m)"
proof -
  have apart: "pl_session (objs ! i) \<noteq> pl_session (objs ! j)" if "j < length objs" "j \<noteq> i" "pl_session (objs ! j) = Some s" for j s
    using inv i that unfolding pool_inv_def by fastforce
  have "\<exists>s. pl_session (objs[i := lk] ! j) = Some s \<and> dict_get locks' (pl_id (objs[i := lk] ! j)) = Some s"
    if j: "j < length objs" "pl_acquired (objs[i := lk] ! j)" for j
  proof (cases "j = i")
    case True with own j i show ?thesis by simp
  next
    case False
    with j obtain s where s: "pl_session (objs ! j) = Some s" "dict_get locks (pl_id (objs ! j)) = Some s"
      using inv unfolding pool_inv_def by auto
    with apart [OF j(1) False s(1)] keep [OF s(2)] False show ?thesis by simp
  qed
  moreover have "j = j'" if "j < length objs" "j' < length objs"
      "pl_session (objs[i := lk] ! j) = Some s" "pl_session (objs[i := lk] ! j') = Some s" for j j' s
  proof -
    have old: "s < n" if "j < length objs" "pl_session (objs ! j) = Some s" for j
      using inv that unfolding pool_inv_def by auto
    have uniq: "j = j'" if "j < length objs" "j' < length objs"
        "pl_session (objs ! j) = Some s" "pl_session (objs ! j') = Some s" for j j'
      using inv that unfolding pool_inv_def by auto
    show ?thesis using that old uniq sess i
      by (cases "j = i"; cases "j' = i") (fastforce simp: nth_list_update)+
  qed
  moreover have "s < m" if "j < length objs" "pl_session (objs[i := lk] ! j) = Some s" for j s
  proof -
    have "s < n \<or> s = n \<and> m = Suc n"
    proof (cases "j = i")
      case True
      with that i have "pl_session lk = Some s" by simp
      with sess inv i show ?thesis unfolding pool_inv_def by blast
    next
      case False
      with that inv show ?thesis unfolding pool_inv_def by auto
    qed
    with m show ?thesis by auto
  qed
  ultimately show ?thesis unfolding pool_inv_def prod.case length_list_update by blast
qed

lemma dict_get_end_session:
  "dict_get locks k = Some s \<Longrightarrow> s \<noteq> session \<Longrightarrow> dict_get (end_session session locks) k = Some s"
  by (induction locks) (auto simp: end_session_def split: if_splits)

lemma close_session_cases:
  "close_session (lk, locks) = (lk', locks') \<Longrightarrow> pl_session lk' = None \<and> pl_acquired lk' = pl_acquired lk
    \<and> (\<forall>k s. dict_get locks k = Some s \<longrightarrow> pl_session lk \<noteq> Some s \<longrightarrow> dict_get locks' k = Some s)"
  by (auto simp: close_session_def dict_get_end_session split: option.splits)

lemma unlock_keeps:
  "dict_get locks k = Some s' \<Longrightarrow> s' \<noteq> s \<Longrightarrow> dict_get (pg_advisory_unlock s k' locks) k = Some s'"
  by (auto simp: pg_advisory_unlock_def)

lemma release_cases:
  assumes "release (lk, locks) = (lk', locks')" and "pl_acquired lk \<Longrightarrow> pl_session lk \<noteq> None"
  shows "\<not> pl_acquired lk' \<and> (\<forall>s. pl_session lk' = Some s \<longrightarrow> pl_session lk = Some s)
    \<and> (\<forall>k s. dict_get locks k = Some s \<longrightarrow> pl_session lk \<noteq> Some s \<longrightarrow> dict_get locks' k = Some s)"
proof (cases "pl_acquired lk")
  case True
  then obtain s where s: "pl_session lk = Some s" using assms(2) by auto
  with True assms(1) have "close_session (lk\<lparr>pl_acquired := False\<rparr>, pg_advisory_unlock s (pl_id lk) locks) = (lk', locks')"
    by (simp add: release_def)
  from close_session_cases [OF this] s show ?thesis by (auto simp: unlock_keeps)
qed (use assms(1) in \<open>auto simp: release_def\<close>)

lemma try_lock_cases:
  assumes "try_lock (lk, locks) = Inr (got, lk', locks')" and "\<not> pl_acquired lk"
  shows "pl_session lk' = pl_session lk \<and> pl_id lk' = pl_id lk \<and> pl_acquired lk' = got
    \<and> (got \<longrightarrow> (\<exists>s. pl_session lk' = Some s \<and> dict_get locks' (pl_id lk) = Some s))
    \<and> (\<forall>k s. dict_get locks k = Some s \<longrightarrow> dict_get locks' k = Some s)"
  using assms by (auto simp: try_lock_def pg_try_advisory_lock_def split: option.splits if_splits)

lemma lock_step_inv: "lock_step st st' \<Longrightarrow> pool_inv st \<Longrightarrow> pool_inv st'"
proof (induction rule: lock_step.induct)
  case (open_session i objs locks n)
  then have "\<not> pl_acquired (objs ! i)" by (fastforce simp: pool_inv_def)
  with open_session show ?case by (intro pool_inv_update [where locks = locks and n = n]) auto
next
  case (attempt i objs locks got lk locks' n)
  note c = try_lock_cases [OF attempt(3,2)]
  show ?case by (rule pool_inv_update [OF attempt(4,1)]) (use c in \<open>simp_all, metis\<close>)
next
  case (give_up i objs locks lk locks' n)
  note c = close_session_cases [OF give_up(3)]
  show ?case by (rule pool_inv_update [OF give_up(4,1)]) (use c give_up(2) in auto)
next
  case (free i objs locks lk locks' n)
  have "pl_acquired (objs ! i) \<Longrightarrow> pl_session (objs ! i) \<noteq> None"
    using free by (auto simp: pool_inv_def)
  note c = release_cases [OF free(2) this]
  show ?case by (rule pool_inv_update [OF free(3,1)]) (use c in auto)
qed

lemma lock_reachable_inv: "lock_reachable st \<Longrightarrow> pool_inv st"
proof (induction rule: lock_reachable.induct)
  case (start objs)
  have "pl_session (objs ! i) = None \<and> \<not> pl_acquired (objs ! i)" if "i < length objs" for i
    using start that by simp
  then show ?case by (simp add: pool_inv_def)
qed (rule lock_step_inv)

text \<open>A call of \<open>acquire\<close> that nobody interrupts is a sequence of these steps.\<close>

lemma acquire_loop_steps:
  assumes "i < length objs" and "\<not> pl_acquired (objs ! i)"
    and "acquire_loop deadline polls (objs ! i, locks) = Inr (r, lk, locks')"
    and "\<forall>(clock, others) \<in> set polls. others = id"
  shows "lock_step\<^sup>*\<^sup>* (objs, locks, n) (objs[i := lk], locks', n)
    \<and> (pl_acquired lk \<longleftrightarrow> r = Some True)"
  using assms
proof (induction polls arbitrary: objs locks)
  case (Cons p polls)
  obtain clock others where p: "p = (clock, others)" by (cases p)
  obtain got lk1 locks1 where t: "try_lock (objs ! i, locks) = Inr (got, lk1, locks1)"
    using Cons.prems(3) p by (auto simp: bind_r_Inr_iff)
  have s: "lock_step (objs, locks, n) (objs[i := lk1], locks1, n)"
    using Cons.prems t by (intro lock_step.attempt) auto
  note c = try_lock_cases [OF t Cons.prems(2)]
  show ?case
  proof (cases "got \<or> deadline \<noteq> None \<and> the deadline \<le> clock")
    case True
    with Cons.prems(3) p t have "lk = lk1 \<and> locks' = locks1 \<and> (r = Some True \<longleftrightarrow> got)"
      by (auto split: if_splits)
    with s c show ?thesis by auto
  next
    case False
    with Cons.prems p t have "acquire_loop deadline polls (objs[i := lk1] ! i, locks1) = Inr (r, lk, locks')"
      by (auto split: if_splits)
    with Cons.IH [of "objs[i := lk1]" locks1] Cons.prems c False
    have "lock_step\<^sup>*\<^sup>* (objs[i := lk1], locks1, n) (objs[i := lk], locks', n)
        \<and> (pl_acquired lk \<longleftrightarrow> r = Some True)" by auto
    with s show ?thesis by (meson converse_rtranclp_into_rtranclp)
  qed
qed auto

lemma finish_acquire_steps:
  assumes "lock_step\<^sup>*\<^sup>* st (objs[i := lk], locks', n)" and "i < length objs"
    and "finish_acquire (r, lk, locks') = (r', lk', locks'')"
  shows "lock_step\<^sup>*\<^sup>* st (objs[i := lk'], locks'', n)"
proof (cases "r = None \<or> pl_acquired lk")
  case True
  with assms(3) have "lk' = lk \<and> locks'' = locks'" by (auto simp: finish_acquire_def split: if_splits)
  with assms(1) show ?thesis by simp
next
  case False
  with assms(3) have "close_session (lk, locks') = (lk', locks'')" by (auto simp: finish_acquire_def)
  with False assms(2) have "lock_step (objs[i := lk], locks', n) ((objs[i := lk])[i := lk'], locks'', n)"
    by (intro lock_step.give_up) auto
  with assms(1) show ?thesis by (simp add: rtranclp.rtrancl_into_rtrancl)
qed

lemma acquire_steps:
  assumes "i < length objs" and "pl_session (objs ! i) = None" and "\<not> pl_acquired (objs ! i)"
    and "acquire n blocking timeout start polls (objs ! i, locks) = Inr (r, lk, locks')"
    and "\<forall>(clock, others) \<in> set polls. others = id"
  shows "lock_step\<^sup>*\<^sup>* (objs, locks, n) (objs[i := lk], locks', Suc n)"
proof -
  define lk1 where "lk1 = (objs ! i)\<lparr>pl_session := Some n\<rparr>"
  have o: "lock_step (objs, locks, n) (objs[i := lk1], locks, Suc n)"
    unfolding lk1_def using assms by (intro lock_step.open_session)
  have lk1: "i < length (objs[i := lk1])" "objs[i := lk1] ! i = lk1" "\<not> pl_acquired lk1"
    using assms by (simp_all add: lk1_def)
  have "\<exists>r0 lk0 locks0. lock_step\<^sup>*\<^sup>* (objs[i := lk1], locks, Suc n) (objs[i := lk0], locks0, Suc n)
      \<and> finish_acquire (r0, lk0, locks0) = (r, lk, locks')"
  proof (cases blocking)
    case True
    with assms(4) obtain deadline r0 lk0 locks0
      where l: "acquire_loop deadline polls (lk1, locks) = Inr (r0, lk0, locks0)"
        and f: "finish_acquire (r0, lk0, locks0) = (r, lk, locks')"
      by (auto simp: acquire_def lk1_def Let_def bind_r_Inr_iff)
    from acquire_loop_steps [OF lk1(1) _ _ assms(5), of deadline locks r0 lk0 locks0 "Suc n"] l f lk1
    show ?thesis by auto
  next
    case False
    with assms(4) obtain got lk0 locks0 where t: "try_lock (lk1, locks) = Inr (got, lk0, locks0)"
        and f: "finish_acquire (Some got, lk0, locks0) = (r, lk, locks')"
      by (auto simp: acquire_def lk1_def Let_def bind_r_Inr_iff)
    have "lock_step (objs[i := lk1], locks, Suc n) ((objs[i := lk1])[i := lk0], locks0, Suc n)"
      using t lk1 by (intro lock_step.attempt) auto
    with f show ?thesis by auto
  qed
  then obtain r0 lk0 locks0
    where "lock_step\<^sup>*\<^sup>* (objs, locks, n) (objs[i := lk0], locks0, Suc n)"
      and "finish_acquire (r0, lk0, locks0) = (r, lk, locks')"
    using o by (meson converse_rtranclp_into_rtranclp)
  then show ?thesis using finish_acquire_steps assms(1) by blast
qed

text \<open>C29: However the attempts, releases and closed sessions of several lock objects interleave, while
  one object owns a lock no other object for the same lock does.\<close>

theorem advisory_lock_exclusive:
  assumes "lock_reachable (objs, locks, n)" and "i < length objs" and "j < length objs" and "i \<noteq> j"
    and "pl_id (objs ! i) = pl_id (objs ! j)" and "owned (objs ! i)"
  shows "\<not> owned (objs ! j)"
proof
  assume "owned (objs ! j)"
  have inv: "pool_inv (objs, locks, n)" using assms(1) by (rule lock_reachable_inv)
  obtain s where "pl_session (objs ! i) = Some s" "dict_get locks (pl_id (objs ! i)) = Some s"
    using inv assms(2,6) by (auto simp: pool_inv_def owned_def)
  moreover obtain s' where "pl_session (objs ! j) = Some s'" "dict_get locks (pl_id (objs ! j)) = Some s'"
    using inv assms(3) \<open>owned (objs ! j)\<close> by (auto simp: pool_inv_def owned_def)
  ultimately show False using inv assms(2-5) by (auto simp: pool_inv_def)
qed

definition example_lock :: pg_lock where
  "example_lock = new_pg_lock (\<lambda>_. 42) ''public'' ''turn'' (Some 60)"

definition example_pool :: "pg_lock list" where
  "example_pool = [example_lock\<lparr>pl_session := Some 0, pl_acquired := True\<rparr>, example_lock\<lparr>pl_session := Some 1\<rparr>]"

lemma example_pool_reachable: "lock_reachable (example_pool, [(42, 0)], 2)"
proof -
  let ?a = "example_lock\<lparr>pl_session := Some 0\<rparr>"
  let ?b = "example_lock\<lparr>pl_session := Some 0, pl_acquired := True\<rparr>"
  let ?c = "example_lock\<lparr>pl_session := Some 1\<rparr>"
  note ex = example_lock_def new_pg_lock_def lock_id_for_def try_lock_def pg_try_advisory_lock_def
  have "lock_reachable ([example_lock, example_lock], [], 0)"
    by (rule lock_reachable.start) (simp add: ex)
  then have "lock_reachable ([?a, example_lock], [], 1)"
    using lock_step.open_session [of 0 "[example_lock, example_lock]" "[]" 0]
    by (auto simp: ex elim: lock_reachable.step)
  then have "lock_reachable ([?b, example_lock], [(42, 0)], 1)"
    using lock_step.attempt [of 0 "[?a, example_lock]" "[]" True ?b "[(42, 0)]" 1]
    by (auto simp: ex elim: lock_reachable.step)
  then have "lock_reachable ([?b, ?c], [(42, 0)], 2)"
    using lock_step.open_session [of 1 "[?b, example_lock]" "[(42, 0)]" 1]
    by (auto simp: ex numeral_2_eq_2 elim: lock_reachable.step)
  then show ?thesis by (simp add: example_pool_def)
qed

lemma advisory_lock_exclusive_witness:
  "owned (example_pool ! 0) \<and> \<not> owned (example_pool ! 1)"
  using advisory_lock_exclusive [OF example_pool_reachable, of 0 1]
  by (simp add: example_pool_def example_lock_def new_pg_lock_def owned_def)

end
