(* ===== verification/StreamBuffer.thy ===== *)
theory StreamBuffer
  imports CacheStore
begin

text \<open>
  The buffer of a chat run's outbound stream, \<open>onyx/chat/stream_buffer.py\<close>: a writer that stores the
  stream in the cache as numbered compressed chunks beside a meta record, and the reader that replays
  and follows it from any server.  The cache is any back end that obeys the laws; each of the writer's
  cache writes may succeed, fail, or fail after taking effect.  Compression and the JSON form of the
  meta record are arguments.  Text is ASCII, one byte per character.
\<close>

section \<open>Keys and configuration\<close>

record stream_meta =
  sm_chunk_count :: nat
  sm_done :: bool
  sm_truncated :: bool

record stream_codec =
  sc_compress :: "string \<Rightarrow> string"
  sc_decompress :: "string \<Rightarrow> string result"
  sc_dump :: "stream_meta \<Rightarrow> string"
  sc_load :: "string \<Rightarrow> stream_meta result"

text \<open>\<open>CHAT_STREAM_BUFFER_TTL_S\<close>, \<open>CHAT_STREAM_BUFFER_DONE_TTL_S\<close> and \<open>CHAT_STREAM_BUFFER_MAX_BYTES\<close>\<close>

record stream_config =
  st_ttl :: int
  st_done_ttl :: int
  st_max_bytes :: nat

definition stream_prefix :: string where "stream_prefix = ''chatstream''"
definition flush_threshold_bytes :: nat where "flush_threshold_bytes = 32 * 1024"

definition chunk_key :: "uuid \<Rightarrow> int \<Rightarrow> nat \<Rightarrow> string" where
  "chunk_key chat_session_id run_id chunk_n =
     stream_prefix @ ''_'' @ uuid_str chat_session_id @ ''_'' @ int_str run_id @ '':'' @ nat_str chunk_n"

definition meta_key :: "uuid \<Rightarrow> int \<Rightarrow> string" where
  "meta_key chat_session_id run_id =
     stream_prefix @ ''_'' @ uuid_str chat_session_id @ ''_'' @ int_str run_id @ '':meta''"

section \<open>The writer\<close>

record stream_writer =
  sw_session :: uuid
  sw_run :: int
  sw_meta :: stream_meta
  sw_pending :: "string list"
  sw_pending_bytes :: nat
  sw_compressed_total :: nat

definition new_stream_writer :: "uuid \<Rightarrow> int \<Rightarrow> stream_writer" where
  "new_stream_writer chat_session_id run_id =
     \<lparr>sw_session = chat_session_id, sw_run = run_id,
      sw_meta = \<lparr>sm_chunk_count = 0, sm_done = False, sm_truncated = False\<rparr>,
      sw_pending = [], sw_pending_bytes = 0, sw_compressed_total = 0\<rparr>"

text \<open>How a write to the cache ends: it takes effect, it is lost, or it takes effect although the
  client sees an exception.  The result says whether an exception was raised.\<close>

datatype write_outcome = Written | Lost | WrittenThenRaised

definition cache_write ::
  "write_outcome \<Rightarrow> ('s, string) cache_backend \<Rightarrow> int \<Rightarrow> string \<Rightarrow> string \<Rightarrow> int \<Rightarrow> 's \<Rightarrow> bool \<times> 's" where
  "cache_write out cache now key v ttl s =
     (out \<noteq> Written, if out = Lost then s else cb_set cache now key v (Some ttl) s)"

definition write_meta ::
  "write_outcome \<Rightarrow> ('s, string) cache_backend \<Rightarrow> stream_codec \<Rightarrow> int \<Rightarrow> int \<Rightarrow> stream_writer \<times> 's \<Rightarrow> bool \<times> 's" where
  "write_meta out cache codec now ttl = (\<lambda>(w, s).
     cache_write out cache now (meta_key (sw_session w) (sw_run w)) (sc_dump codec (sw_meta w)) ttl s)"

text \<open>The handler of \<open>except\<close> in \<open>flush\<close>.\<close>

definition mark_truncated :: "stream_writer \<Rightarrow> stream_writer" where
  "mark_truncated w = w\<lparr>sw_meta := (sw_meta w)\<lparr>sm_truncated := True\<rparr>\<rparr>"

definition flush_failed ::
  "write_outcome \<Rightarrow> ('s, string) cache_backend \<Rightarrow> stream_codec \<Rightarrow> stream_config \<Rightarrow> int
    \<Rightarrow> stream_writer \<times> 's \<Rightarrow> stream_writer \<times> 's" where
  "flush_failed out cache codec cfg now = (\<lambda>(w, s).
     (mark_truncated w, snd (write_meta out cache codec now (st_ttl cfg) (mark_truncated w, s))))"

text \<open>The outcomes are those of the first write of \<open>flush\<close>, the second, and the handler's.\<close>

type_synonym flush_outcomes = "write_outcome \<times> write_outcome \<times> write_outcome"

definition flush_chunk ::
  "flush_outcomes \<Rightarrow> ('s, string) cache_backend \<Rightarrow> stream_codec \<Rightarrow> stream_config \<Rightarrow> int \<Rightarrow> string
    \<Rightarrow> stream_writer \<times> 's \<Rightarrow> stream_writer \<times> 's" where
  "flush_chunk outs cache codec cfg now payload = (\<lambda>(w, s).
     let (o1, o2, o3) = outs;
         n = sm_chunk_count (sw_meta w);
         (raised, s1) = cache_write o1 cache now (chunk_key (sw_session w) (sw_run w) n) payload (st_ttl cfg) s
     in if raised then flush_failed o3 cache codec cfg now (w, s1)
        else let w1 = w\<lparr>sw_compressed_total := sw_compressed_total w + length payload,
                        sw_meta := (sw_meta w)\<lparr>sm_chunk_count := Suc n\<rparr>\<rparr>;
                 (raised2, s2) = write_meta o2 cache codec now (st_ttl cfg) (w1, s1)
             in if raised2 then flush_failed o3 cache codec cfg now (w1, s2) else (w1, s2))"

definition flush_over_limit ::
  "flush_outcomes \<Rightarrow> ('s, string) cache_backend \<Rightarrow> stream_codec \<Rightarrow> stream_config \<Rightarrow> int
    \<Rightarrow> stream_writer \<times> 's \<Rightarrow> stream_writer \<times> 's" where
  "flush_over_limit outs cache codec cfg now = (\<lambda>(w, s).
     let (o1, o2, o3) = outs;
         (raised, s1) = write_meta o1 cache codec now (st_ttl cfg) (mark_truncated w, s)
     in if raised then flush_failed o3 cache codec cfg now (mark_truncated w, s1) else (mark_truncated w, s1))"

definition flush ::
  "flush_outcomes \<Rightarrow> ('s, string) cache_backend \<Rightarrow> stream_codec \<Rightarrow> stream_config \<Rightarrow> int
    \<Rightarrow> stream_writer \<times> 's \<Rightarrow> stream_writer \<times> 's" where
  "flush outs cache codec cfg now = (\<lambda>(w, s).
     if sw_pending w = [] \<or> sm_truncated (sw_meta w) \<or> sm_done (sw_meta w) then (w, s)
     else let payload = sc_compress codec (concat (sw_pending w));
              w0 = w\<lparr>sw_pending := [], sw_pending_bytes := 0\<rparr>
          in if sw_compressed_total w0 + length payload > st_max_bytes cfg
             then flush_over_limit outs cache codec cfg now (w0, s)
             else flush_chunk outs cache codec cfg now payload (w0, s))"

definition append_line ::
  "flush_outcomes \<Rightarrow> ('s, string) cache_backend \<Rightarrow> stream_codec \<Rightarrow> stream_config \<Rightarrow> int \<Rightarrow> string
    \<Rightarrow> stream_writer \<times> 's \<Rightarrow> stream_writer \<times> 's" where
  "append_line outs cache codec cfg now line = (\<lambda>(w, s).
     if sm_truncated (sw_meta w) \<or> sm_done (sw_meta w) then (w, s)
     else let w0 = w\<lparr>sw_pending := sw_pending w @ [line], sw_pending_bytes := sw_pending_bytes w + length line\<rparr>
          in if flush_threshold_bytes \<le> sw_pending_bytes w0 then flush outs cache codec cfg now (w0, s)
             else (w0, s))"

text \<open>The loop over the chunks ends at the first \<open>expire\<close> that raises; \<open>reached\<close> counts the calls
  before it.\<close>

definition mark_done ::
  "flush_outcomes \<Rightarrow> write_outcome \<Rightarrow> nat \<Rightarrow> ('s, string) cache_backend \<Rightarrow> stream_codec \<Rightarrow> stream_config
    \<Rightarrow> int \<Rightarrow> stream_writer \<times> 's \<Rightarrow> stream_writer \<times> 's" where
  "mark_done outs out reached cache codec cfg now st =
     (let (w, s) = flush outs cache codec cfg now st in
      if sm_done (sw_meta w) then (w, s)
      else let w1 = w\<lparr>sw_meta := (sw_meta w)\<lparr>sm_done := True\<rparr>\<rparr>;
               (raised, s1) = write_meta out cache codec now (st_done_ttl cfg) (w1, s)
           in if raised then (w1, s1)
              else (w1, fold (\<lambda>n. cb_expire cache now (chunk_key (sw_session w) (sw_run w) n) (st_done_ttl cfg))
                      [0..<min reached (sm_chunk_count (sw_meta w1))] s1))"

section \<open>The reader\<close>

record stream_chunk_read =
  cr_blocks :: "string list"
  cr_next_cursor :: nat
  cr_done :: bool
  cr_gap :: bool

definition has_stream_buffer :: "('s, string) cache_backend \<Rightarrow> int \<Rightarrow> uuid \<Rightarrow> int \<Rightarrow> 's \<Rightarrow> bool" where
  "has_stream_buffer cache now chat_session_id run_id s =
     cb_exists cache now (meta_key chat_session_id run_id) s"

text \<open>The loop from \<open>chunk_n\<close> over the chunks still to read; it returns blocks, cursor and gap.\<close>

fun read_loop ::
  "(nat \<Rightarrow> string option) \<Rightarrow> stream_codec \<Rightarrow> nat option \<Rightarrow> nat list \<Rightarrow> nat \<Rightarrow> string list \<Rightarrow> bool
    \<Rightarrow> string list \<times> nat \<times> bool" where
  "read_loop get codec max_chunks [] chunk_n blocks gap = (blocks, chunk_n, gap)"
| "read_loop get codec max_chunks (i # rest) chunk_n blocks gap =
     (if max_chunks \<noteq> None \<and> the max_chunks \<le> length blocks then (blocks, chunk_n, gap)
      else case get i of
        None \<Rightarrow> (blocks, chunk_n, True)
      | Some raw \<Rightarrow> (case sc_decompress codec raw of
            Inl e \<Rightarrow> (blocks, chunk_n, True)
          | Inr block \<Rightarrow> read_loop get codec max_chunks rest (Suc chunk_n) (blocks @ [block]) gap))"

definition read_stream_chunks ::
  "('s, string) cache_backend \<Rightarrow> stream_codec \<Rightarrow> int \<Rightarrow> uuid \<Rightarrow> int \<Rightarrow> nat \<Rightarrow> nat option \<Rightarrow> 's
    \<Rightarrow> stream_chunk_read option" where
  "read_stream_chunks cache codec now chat_session_id run_id cursor max_chunks s =
     (case cb_get cache now (meta_key chat_session_id run_id) s of
        None \<Rightarrow> None
      | Some meta_raw \<Rightarrow> (case sc_load codec meta_raw of
            Inl e \<Rightarrow> None
          | Inr meta \<Rightarrow>
              let (blocks, next, gap) = read_loop (\<lambda>n. cb_get cache now (chunk_key chat_session_id run_id n) s)
                    codec max_chunks [cursor..<sm_chunk_count meta] cursor [] (sm_truncated meta)
              in Some \<lparr>cr_blocks = blocks, cr_next_cursor = next, cr_done = sm_done meta, cr_gap = gap\<rparr>))"

section \<open>Keys\<close>

lemma chunk_key_eq [simp]: "chunk_key c r i = chunk_key c r j \<longleftrightarrow> i = j"
  by (simp add: chunk_key_def nat_str_inj)

lemma chunk_key_meta [simp]: "chunk_key c r i \<noteq> meta_key c r" "meta_key c r \<noteq> chunk_key c r i"
proof -
  have "nat_str i \<noteq> ''meta''"
  proof
    assume "nat_str i = ''meta''"
    then obtain d where "d < 10" "CHR ''m'' = digit_char d"
      using nat_str_digits [of "CHR ''m''" i] by auto
    then have "(of_char CHR ''m'' :: nat) = 48 + d" by (metis of_char_digit)
    with \<open>d < 10\<close> show False by simp
  qed
  then show "chunk_key c r i \<noteq> meta_key c r" "meta_key c r \<noteq> chunk_key c r i"
    by (auto simp: chunk_key_def meta_key_def)
qed

section \<open>What the cache holds for a run\<close>

definition chunks_ok ::
  "('s, string) cache_backend \<Rightarrow> stream_codec \<Rightarrow> uuid \<Rightarrow> int \<Rightarrow> string list \<Rightarrow> 's \<Rightarrow> bool" where
  "chunks_ok cache codec c r F s \<longleftrightarrow>
     (\<forall>t i raw. i < length F \<longrightarrow> cb_get cache t (chunk_key c r i) s = Some raw \<longrightarrow> raw = sc_compress codec (F ! i))"

definition meta_ok ::
  "('s, string) cache_backend \<Rightarrow> stream_codec \<Rightarrow> uuid \<Rightarrow> int \<Rightarrow> (stream_meta \<Rightarrow> bool) \<Rightarrow> 's \<Rightarrow> bool" where
  "meta_ok cache codec c r P s \<longleftrightarrow>
     (\<forall>t raw. cb_get cache t (meta_key c r) s = Some raw \<longrightarrow> (\<exists>m. raw = sc_dump codec m \<and> P m))"

text \<open>A meta record counts stored blocks only, and one that says the run is over, untruncated, counts
  them all and they are the whole text.\<close>

definition meta_good :: "string list \<Rightarrow> string \<Rightarrow> bool \<Rightarrow> stream_meta \<Rightarrow> bool" where
  "meta_good F T finished m \<longleftrightarrow> sm_chunk_count m \<le> length F \<and> (sm_done m \<longrightarrow> finished)
     \<and> (sm_done m \<and> \<not> sm_truncated m \<longrightarrow> sm_chunk_count m = length F \<and> concat F = T)"

text \<open>\<open>F\<close> lists the blocks stored so far.  Unless the run is truncated they and the pending lines make
  up the text.\<close>

definition stream_base ::
  "('s, string) cache_backend \<Rightarrow> stream_codec \<Rightarrow> uuid \<Rightarrow> int \<Rightarrow> string \<Rightarrow> string list \<Rightarrow> stream_writer \<times> 's \<Rightarrow> bool"
  where
  "stream_base cache codec c r T F = (\<lambda>(w, s).
     sw_session w = c \<and> sw_run w = r \<and> sm_chunk_count (sw_meta w) = length F \<and> prefix (concat F) T
     \<and> chunks_ok cache codec c r F s \<and> meta_ok cache codec c r (meta_good F T (sm_done (sw_meta w))) s)"

definition stream_inv ::
  "('s, string) cache_backend \<Rightarrow> stream_codec \<Rightarrow> uuid \<Rightarrow> int \<Rightarrow> string \<Rightarrow> string list \<Rightarrow> stream_writer \<times> 's \<Rightarrow> bool"
  where
  "stream_inv cache codec c r T F = (\<lambda>(w, s). stream_base cache codec c r T F (w, s)
     \<and> (\<not> sm_truncated (sw_meta w) \<longrightarrow> concat F @ concat (sw_pending w) = T))"

lemma mark_truncated_simps [simp]:
  "sw_session (mark_truncated w) = sw_session w" "sw_run (mark_truncated w) = sw_run w"
  "sw_pending (mark_truncated w) = sw_pending w" "sm_truncated (sw_meta (mark_truncated w))"
  "sm_chunk_count (sw_meta (mark_truncated w)) = sm_chunk_count (sw_meta w)"
  "sm_done (sw_meta (mark_truncated w)) = sm_done (sw_meta w)"
  by (simp_all add: mark_truncated_def)

context text_cache
begin

lemma write_other: "k \<noteq> k' \<Longrightarrow>
    cb_get cache t k (snd (cache_write out cache now k' v ttl s)) = cb_get cache t k s"
  by (simp add: cache_write_def)

lemma write_same: "cb_get cache t k (snd (cache_write out cache now k v ttl s)) = Some x
    \<Longrightarrow> x = v \<or> cb_get cache t k s = Some x"
  by (auto simp: cache_write_def split: if_splits)

lemma chunks_ok_write [simp]:
  "(\<forall>i < length F. k \<noteq> chunk_key c r i) \<Longrightarrow> chunks_ok cache codec c r F s
    \<Longrightarrow> chunks_ok cache codec c r F (snd (cache_write out cache now k v ttl s))"
  by (auto simp: chunks_ok_def write_other)

lemma chunks_ok_append:
  "chunks_ok cache codec c r F s \<Longrightarrow> chunks_ok cache codec c r (F @ [b])
     (cb_set cache now (chunk_key c r (length F)) (sc_compress codec b) ex s)"
  by (auto simp: chunks_ok_def get_set nth_append less_Suc_eq split: if_splits)

lemma chunks_ok_expire:
  "chunks_ok cache codec c r F s \<Longrightarrow> chunks_ok cache codec c r F (cb_expire cache now k d s)"
  unfolding chunks_ok_def by (metis get_expire_value)

lemma chunks_ok_delete:
  "chunks_ok cache codec c r F s \<Longrightarrow> chunks_ok cache codec c r F (cb_delete cache k s)"
  by (auto simp: chunks_ok_def get_delete split: if_splits)

lemma meta_ok_write [simp]:
  "k \<noteq> meta_key c r \<Longrightarrow> meta_ok cache codec c r P s
    \<Longrightarrow> meta_ok cache codec c r P (snd (cache_write out cache now k v ttl s))"
  by (auto simp: meta_ok_def write_other)

lemma meta_ok_set: "k \<noteq> meta_key c r \<Longrightarrow> meta_ok cache codec c r P s
    \<Longrightarrow> meta_ok cache codec c r P (cb_set cache now k v ex s)"
  by (auto simp: meta_ok_def)

lemma meta_ok_write_meta:
  "meta_ok cache codec (sw_session w) (sw_run w) P s \<Longrightarrow> P (sw_meta w)
    \<Longrightarrow> meta_ok cache codec (sw_session w) (sw_run w) P (snd (write_meta out cache codec now ttl (w, s)))"
  unfolding meta_ok_def write_meta_def by (auto dest!: write_same)

lemma chunks_ok_write_meta:
  "chunks_ok cache codec c r F s \<Longrightarrow> sw_session w = c \<Longrightarrow> sw_run w = r
    \<Longrightarrow> chunks_ok cache codec c r F (snd (write_meta out cache codec now ttl (w, s)))"
  by (simp add: write_meta_def)

lemma meta_ok_expire:
  "meta_ok cache codec c r P s \<Longrightarrow> meta_ok cache codec c r P (cb_expire cache now k d s)"
  unfolding meta_ok_def by (metis get_expire_value)

lemma meta_ok_delete: "meta_ok cache codec c r P s \<Longrightarrow> meta_ok cache codec c r P (cb_delete cache k s)"
  by (auto simp: meta_ok_def get_delete split: if_splits)

lemma meta_ok_mono:
  "meta_ok cache codec c r P s \<Longrightarrow> (\<And>m. P m \<Longrightarrow> Q m) \<Longrightarrow> meta_ok cache codec c r Q s"
  unfolding meta_ok_def by blast

end

section \<open>The writer keeps the invariant\<close>

text \<open>Before the run is over, stored meta records stay good when blocks and text grow.\<close>

lemma meta_good_running: "meta_good F T False m \<Longrightarrow> prefix F F' \<Longrightarrow> meta_good F' T' False m"
  using prefix_length_le [of F F'] by (auto simp: meta_good_def)

context text_cache
begin

lemma write_meta_base:
  assumes "stream_base cache codec c r T F (w, s)"
    and "meta_good F T (sm_done (sw_meta w)) (sw_meta w)"
  shows "stream_base cache codec c r T F (w, snd (write_meta out cache codec now ttl (w, s)))"
  using assms meta_ok_write_meta [of codec w "meta_good F T (sm_done (sw_meta w))" s out now ttl]
  by (auto simp: stream_base_def chunks_ok_write_meta)

lemma mark_truncated_base:
  "stream_base cache codec c r T F (w, s) \<Longrightarrow> stream_base cache codec c r T F (mark_truncated w, s)
    \<and> meta_good F T (sm_done (sw_meta w)) (sw_meta (mark_truncated w))"
  by (simp add: stream_base_def meta_good_def)

lemma flush_failed_inv:
  "stream_base cache codec c r T F (w, s)
    \<Longrightarrow> stream_inv cache codec c r T F (flush_failed out cache codec cfg now (w, s))"
  using mark_truncated_base [of codec c r T F w s]
    write_meta_base [of codec c r T F "mark_truncated w" s out now "st_ttl cfg"]
  by (simp add: stream_inv_def flush_failed_def)

lemma flush_over_limit_inv:
  assumes "stream_base cache codec c r T F (w, s)"
  shows "stream_inv cache codec c r T F (flush_over_limit outs cache codec cfg now (w, s))"
proof -
  obtain o1 o2 o3 where outs: "outs = (o1, o2, o3)" by (cases outs)
  have "stream_base cache codec c r T F
      (mark_truncated w, snd (write_meta o1 cache codec now (st_ttl cfg) (mark_truncated w, s)))"
    using mark_truncated_base [OF assms] by (intro write_meta_base) auto
  with flush_failed_inv [OF this] show ?thesis
    by (auto simp: flush_over_limit_def outs Let_def stream_inv_def split_def)
qed

lemma flush_chunk_inv:
  assumes base: "stream_base cache codec c r T F (w, s)"
    and live: "\<not> sm_done (sw_meta w)" and b: "concat F @ b = T" and pend: "sw_pending w = []"
  shows "\<exists>F'. prefix F F' \<and> stream_inv cache codec c r T F'
      (flush_chunk outs cache codec cfg now (sc_compress codec b) (w, s))"
proof -
  obtain o1 o2 o3 where outs: "outs = (o1, o2, o3)" by (cases outs)
  have k: "sw_session w = c" "sw_run w = r" "sm_chunk_count (sw_meta w) = length F"
    and ok: "chunks_ok cache codec c r F s" "meta_ok cache codec c r (meta_good F T False) s"
    using base live by (simp_all add: stream_base_def)
  let ?put = "cache_write o1 cache now (chunk_key c r (length F)) (sc_compress codec b) (st_ttl cfg) s"
  show ?thesis
  proof (cases "o1 = Written")
    case False
    have "stream_base cache codec c r T F (w, snd ?put)"
      using base by (simp add: stream_base_def)
    from flush_failed_inv [OF this] False show ?thesis
      by (intro exI [of _ F], cases o1) (simp_all add: flush_chunk_def outs k Let_def cache_write_def split_def)
  next
    case True
    let ?F = "F @ [b]"
    define w1 where "w1 = w\<lparr>sw_compressed_total := sw_compressed_total w + length (sc_compress codec b),
        sw_meta := (sw_meta w)\<lparr>sm_chunk_count := Suc (length F)\<rparr>\<rparr>"
    define s1 where "s1 = cb_set cache now (chunk_key c r (length F)) (sc_compress codec b) (Some (st_ttl cfg)) s"
    have "meta_ok cache codec c r (meta_good ?F T False) s1" unfolding s1_def
      by (rule meta_ok_mono [OF meta_ok_set [OF _ ok(2)]]) (auto intro: meta_good_running)
    then have "stream_base cache codec c r T ?F (w1, s1)"
      using k ok live b chunks_ok_append [OF ok(1)] by (auto simp: stream_base_def w1_def s1_def)
    moreover have "meta_good ?F T (sm_done (sw_meta w1)) (sw_meta w1)"
      using live by (simp add: meta_good_def w1_def)
    ultimately have st: "stream_base cache codec c r T ?F
        (w1, snd (write_meta o2 cache codec now (st_ttl cfg) (w1, s1)))"
      by (rule write_meta_base)
    have w1: "concat ?F @ concat (sw_pending w1) = T" using b pend by (simp add: w1_def)
    have "flush_chunk outs cache codec cfg now (sc_compress codec b) (w, s) =
        (if o2 \<noteq> Written then flush_failed o3 cache codec cfg now
             (w1, snd (write_meta o2 cache codec now (st_ttl cfg) (w1, s1)))
         else (w1, snd (write_meta o2 cache codec now (st_ttl cfg) (w1, s1))))"
      using True by (simp add: flush_chunk_def outs k Let_def cache_write_def w1_def s1_def write_meta_def split_def)
    with flush_failed_inv [OF st] st w1 show ?thesis
      by (intro exI [of _ ?F]) (auto simp: stream_inv_def)
  qed
qed

lemma flush_inv:
  assumes inv: "stream_inv cache codec c r T F (w, s)"
  shows "\<exists>F'. prefix F F' \<and> stream_inv cache codec c r T F' (flush outs cache codec cfg now (w, s))"
proof (cases "sw_pending w = [] \<or> sm_truncated (sw_meta w) \<or> sm_done (sw_meta w)")
  case True
  with inv show ?thesis by (intro exI [of _ F]) (simp add: flush_def)
next
  case False
  let ?w = "w\<lparr>sw_pending := [], sw_pending_bytes := 0\<rparr>" and ?b = "concat (sw_pending w)"
  have base: "stream_base cache codec c r T F (?w, s)" and b: "concat F @ ?b = T"
    using inv False by (auto simp: stream_inv_def stream_base_def)
  have "\<exists>F'. prefix F F' \<and> stream_inv cache codec c r T F' (flush_over_limit outs cache codec cfg now (?w, s))"
    using flush_over_limit_inv [OF base] by blast
  moreover have "\<exists>F'. prefix F F' \<and> stream_inv cache codec c r T F'
      (flush_chunk outs cache codec cfg now (sc_compress codec ?b) (?w, s))"
    using False by (intro flush_chunk_inv [OF base _ b]) simp_all
  ultimately show ?thesis using False by (simp add: flush_def Let_def)
qed

end

lemma flush_failed_simps [simp]:
  "fst (flush_failed out cache codec cfg now (w, s)) = mark_truncated w"
  by (simp add: flush_failed_def)

lemma flush_chunk_writer:
  "sm_done (sw_meta (fst (flush_chunk outs cache codec cfg now payload (w, s)))) = sm_done (sw_meta w)"
  "sw_pending (fst (flush_chunk outs cache codec cfg now payload (w, s))) = sw_pending w"
  by (auto simp: flush_chunk_def Let_def split_def)

lemma flush_over_limit_writer:
  "sm_done (sw_meta (fst (flush_over_limit outs cache codec cfg now (w, s)))) = sm_done (sw_meta w)"
  "sm_truncated (sw_meta (fst (flush_over_limit outs cache codec cfg now (w, s))))"
  by (auto simp: flush_over_limit_def Let_def split_def)

lemma flush_done: "sm_done (sw_meta (fst (flush outs cache codec cfg now (w, s)))) = sm_done (sw_meta w)"
  by (simp add: flush_def Let_def flush_chunk_writer flush_over_limit_writer)

lemma flush_drained:
  "sw_pending (fst (flush outs cache codec cfg now (w, s))) = []
    \<or> sm_truncated (sw_meta (fst (flush outs cache codec cfg now (w, s)))) \<or> sm_done (sw_meta w)"
  by (simp add: flush_def Let_def flush_chunk_writer flush_over_limit_writer)

context text_cache
begin

lemma append_inv:
  assumes inv: "stream_inv cache codec c r T F (w, s)"
  shows "\<exists>F'. prefix F F' \<and> stream_inv cache codec c r (if sm_done (sw_meta w) then T else T @ line) F'
      (append_line outs cache codec cfg now line (w, s))"
proof (cases "sm_done (sw_meta w)")
  case True
  with inv show ?thesis by (intro exI [of _ F]) (simp add: append_line_def)
next
  case live: False
  let ?w = "w\<lparr>sw_pending := sw_pending w @ [line], sw_pending_bytes := sw_pending_bytes w + length line\<rparr>"
  have base: "stream_base cache codec c r (T @ line) F (w, s)"
    using inv live by (auto simp: stream_inv_def stream_base_def intro: meta_ok_mono meta_good_running)
  show ?thesis
  proof (cases "sm_truncated (sw_meta w)")
    case True
    with base live show ?thesis by (intro exI [of _ F]) (simp add: append_line_def stream_inv_def)
  next
    case False
    have inv': "stream_inv cache codec c r (T @ line) F (?w, s)"
      using base inv False by (auto simp: stream_inv_def stream_base_def)
    with flush_inv [OF inv'] live False show ?thesis
      by (auto simp: append_line_def Let_def)
  qed
qed

lemma expire_inv:
  "stream_inv cache codec c r T F (w, s) \<Longrightarrow> stream_inv cache codec c r T F (w, cb_expire cache now k d s)"
  by (simp add: stream_inv_def stream_base_def chunks_ok_expire meta_ok_expire)

lemma expire_all_inv:
  "stream_inv cache codec c r T F (w, s) \<Longrightarrow>
    stream_inv cache codec c r T F (w, fold (\<lambda>n. cb_expire cache now (key n) d) ns s)"
  by (induction ns arbitrary: s) (simp_all add: expire_inv)

lemma mark_done_inv:
  assumes inv: "stream_inv cache codec c r T F (w, s)"
  shows "\<exists>F'. prefix F F' \<and> stream_inv cache codec c r T F'
      (mark_done outs out reached cache codec cfg now (w, s))
    \<and> sm_done (sw_meta (fst (mark_done outs out reached cache codec cfg now (w, s))))"
proof -
  obtain w1 s1 where f: "flush outs cache codec cfg now (w, s) = (w1, s1)" by fastforce
  obtain F' where F: "prefix F F'" and inv1: "stream_inv cache codec c r T F' (w1, s1)"
    using flush_inv [OF inv, of outs cfg now] f by auto
  show ?thesis
  proof (cases "sm_done (sw_meta w1)")
    case True
    with F inv1 f show ?thesis by (intro exI [of _ F']) (simp add: mark_done_def)
  next
    case False
    let ?w = "w1\<lparr>sw_meta := (sw_meta w1)\<lparr>sm_done := True\<rparr>\<rparr>"
    have drained: "sw_pending w1 = [] \<or> sm_truncated (sw_meta w1)"
      using flush_drained [of outs cache codec cfg now w s] flush_done [of outs cache codec cfg now w s]
        False f by auto
    have "stream_base cache codec c r T F' (?w, s1)"
      using inv1 False
      by (auto simp: stream_inv_def stream_base_def meta_good_def elim!: meta_ok_mono)
    moreover have "meta_good F' T (sm_done (sw_meta ?w)) (sw_meta ?w)"
      using inv1 drained by (auto simp: meta_good_def stream_inv_def stream_base_def)
    ultimately have "stream_base cache codec c r T F'
        (?w, snd (write_meta out cache codec now (st_done_ttl cfg) (?w, s1)))"
      by (rule write_meta_base)
    then have inv2: "stream_inv cache codec c r T F'
        (?w, snd (write_meta out cache codec now (st_done_ttl cfg) (?w, s1)))"
      using inv1 by (simp add: stream_inv_def)
    show ?thesis using F inv2 f False expire_all_inv [OF inv2, of now
        "chunk_key (sw_session w1) (sw_run w1)" "st_done_ttl cfg" "[0..<min reached (sm_chunk_count (sw_meta w1))]"]
      by (intro exI [of _ F']) (simp add: mark_done_def Let_def split_def)
  qed
qed

lemma delete_inv:
  "stream_inv cache codec c r T F (w, s) \<Longrightarrow> stream_inv cache codec c r T F (w, cb_delete cache k s)"
  by (simp add: stream_inv_def stream_base_def chunks_ok_delete meta_ok_delete)

lemma foreign_inv:
  assumes "stream_inv cache codec c r T F (w, s)" and "k \<noteq> meta_key c r" and "\<forall>i. k \<noteq> chunk_key c r i"
  shows "stream_inv cache codec c r T F (w, cb_set cache now k v ex s)"
  using assms by (auto simp: stream_inv_def stream_base_def chunks_ok_def meta_ok_def get_set split: if_splits)

end

section \<open>The reader\<close>

lemma read_loop_correct:
  assumes "read_loop get codec max_chunks [k..<n] k blocks gap = (blocks', next, gap')"
    and "\<And>i raw. i < n \<Longrightarrow> get i = Some raw \<Longrightarrow> sc_decompress codec raw = Inr (F ! i)"
    and "n \<le> length F" and "blocks = drop c0 (take k F)" and "c0 \<le> k" and "k \<le> length F"
  shows "k \<le> next \<and> next \<le> length F \<and> blocks' = drop c0 (take next F) \<and> (gap \<longrightarrow> gap')
    \<and> (next < n \<and> \<not> gap' \<longrightarrow> (\<exists>m. max_chunks = Some m \<and> m \<le> length blocks'))"
  using assms
proof (induction "n - k" arbitrary: k blocks)
  case 0
  then show ?case by auto
next
  case (Suc d)
  then have k: "k < n" and upt: "[k..<n] = k # [Suc k..<n]" by (simp_all add: upt_conv_Cons)
  show ?case
  proof (cases "\<not> (max_chunks \<noteq> None \<and> the max_chunks \<le> length blocks) \<and> (\<exists>raw. get k = Some raw)")
    case False
    then consider "max_chunks \<noteq> None \<and> the max_chunks \<le> length blocks" | 
        "\<not> (max_chunks \<noteq> None \<and> the max_chunks \<le> length blocks)" "get k = None" by fastforce
    then have "blocks' = blocks \<and> next = k
        \<and> ((gap' = gap \<and> max_chunks \<noteq> None \<and> the max_chunks \<le> length blocks) \<or> gap')"
      using Suc.prems(1) by cases (auto simp: upt split: if_splits)
    with Suc.prems show ?thesis by auto
  next
    case True
    then obtain raw where raw: "get k = Some raw" "sc_decompress codec raw = Inr (F ! k)"
      using Suc.prems(2) k by blast
    with True Suc.prems(1)
    have "read_loop get codec max_chunks [Suc k..<n] (Suc k) (blocks @ [F ! k]) gap = (blocks', next, gap')"
      by (auto simp: upt split: if_splits)
    moreover have "blocks @ [F ! k] = drop c0 (take (Suc k) F)"
      using Suc.prems k by (simp add: take_Suc_conv_app_nth)
    ultimately have "Suc k \<le> next \<and> next \<le> length F \<and> blocks' = drop c0 (take next F) \<and> (gap \<longrightarrow> gap')
        \<and> (next < n \<and> \<not> gap' \<longrightarrow> (\<exists>m. max_chunks = Some m \<and> m \<le> length blocks'))"
      using Suc k by (intro Suc.hyps(1)) auto
    then show ?thesis by (elim conjE, intro conjI) simp_all
  qed
qed

section \<open>A run and a reader that follows it\<close>

text \<open>
  What happens to a run's buffer: the writer's calls, the eviction of any key, writes of others to
  keys that are not the run's, and reads by a reader that keeps its cursor and the blocks it got.
\<close>

datatype stream_event =
    Append flush_outcomes int string
  | Flush flush_outcomes int
  | Finish flush_outcomes write_outcome nat int
  | Evict string
  | Foreign int string string "int option"
  | Read int "nat option"

type_synonym 's stream_state = "(stream_writer \<times> 's) \<times> nat \<times> string list"

definition stream_step ::
  "('s, string) cache_backend \<Rightarrow> stream_codec \<Rightarrow> stream_config \<Rightarrow> uuid \<Rightarrow> int \<Rightarrow> stream_event
    \<Rightarrow> 's stream_state \<Rightarrow> 's stream_state" where
  "stream_step cache codec cfg c r ev = (\<lambda>((w, s), cursor, acc). case ev of
     Append outs now line \<Rightarrow> (append_line outs cache codec cfg now line (w, s), cursor, acc)
   | Flush outs now \<Rightarrow> (flush outs cache codec cfg now (w, s), cursor, acc)
   | Finish outs out reached now \<Rightarrow> (mark_done outs out reached cache codec cfg now (w, s), cursor, acc)
   | Evict k \<Rightarrow> ((w, cb_delete cache k s), cursor, acc)
   | Foreign now k v ex \<Rightarrow> ((w, cb_set cache now k v ex s), cursor, acc)
   | Read now max_chunks \<Rightarrow> (case read_stream_chunks cache codec now c r cursor max_chunks s of
         None \<Rightarrow> ((w, s), cursor, acc)
       | Some rd \<Rightarrow> ((w, s), cr_next_cursor rd, acc @ cr_blocks rd)))"

definition stream_run ::
  "('s, string) cache_backend \<Rightarrow> stream_codec \<Rightarrow> stream_config \<Rightarrow> uuid \<Rightarrow> int \<Rightarrow> stream_event list
    \<Rightarrow> 's \<Rightarrow> 's stream_state" where
  "stream_run cache codec cfg c r evs s =
     fold (stream_step cache codec cfg c r) evs ((new_stream_writer c r, s), 0, [])"

fun finishes :: "stream_event \<Rightarrow> bool" where
  "finishes (Finish _ _ _ _) \<longleftrightarrow> True"
| "finishes _ \<longleftrightarrow> False"

text \<open>The text of a run: the lines appended before it was marked done.\<close>

fun run_text :: "bool \<Rightarrow> stream_event list \<Rightarrow> string" where
  "run_text finished [] = ''''"
| "run_text finished (ev # evs) = (case ev of
     Append _ _ line \<Rightarrow> (if finished then '''' else line) @ run_text finished evs
   | Finish _ _ _ _ \<Rightarrow> run_text True evs
   | _ \<Rightarrow> run_text finished evs)"

definition foreign_key :: "uuid \<Rightarrow> int \<Rightarrow> stream_event \<Rightarrow> bool" where
  "foreign_key c r ev \<longleftrightarrow> (case ev of
     Foreign _ k _ _ \<Rightarrow> k \<noteq> meta_key c r \<and> (\<forall>i. k \<noteq> chunk_key c r i) | _ \<Rightarrow> True)"

definition inverse_codec :: "stream_codec \<Rightarrow> bool" where
  "inverse_codec codec \<longleftrightarrow> (\<forall>x. sc_decompress codec (sc_compress codec x) = Inr x)
     \<and> (\<forall>m. sc_load codec (sc_dump codec m) = Inr m)"

definition follow_inv ::
  "('s, string) cache_backend \<Rightarrow> stream_codec \<Rightarrow> uuid \<Rightarrow> int \<Rightarrow> string \<Rightarrow> string list \<Rightarrow> 's stream_state \<Rightarrow> bool"
  where
  "follow_inv cache codec c r T F = (\<lambda>(ws, cursor, acc).
     stream_inv cache codec c r T F ws \<and> cursor \<le> length F \<and> acc = take cursor F)"

context text_cache
begin

lemma read_correct:
  assumes codec: "inverse_codec codec" and inv: "stream_inv cache codec c r T F (w, s)"
    and cursor: "cursor \<le> length F"
    and read: "read_stream_chunks cache codec now c r cursor max_chunks s = Some rd"
  shows "cursor \<le> cr_next_cursor rd" "cr_next_cursor rd \<le> length F"
    "cr_blocks rd = drop cursor (take (cr_next_cursor rd) F)"
    "cr_done rd \<Longrightarrow> \<not> cr_gap rd \<Longrightarrow> cr_blocks rd = [] \<Longrightarrow> max_chunks \<noteq> Some 0
      \<Longrightarrow> cursor = length F \<and> concat F = T"
proof -
  obtain raw m where "cb_get cache now (meta_key c r) s = Some raw" and m: "sc_load codec raw = Inr m"
    using read by (auto simp: read_stream_chunks_def split: option.splits sum.splits)
  moreover have "meta_ok cache codec c r (meta_good F T (sm_done (sw_meta w))) s"
    using inv by (simp add: stream_inv_def stream_base_def)
  ultimately obtain m' where "raw = sc_dump codec m'" "meta_good F T (sm_done (sw_meta w)) m'"
    unfolding meta_ok_def by blast
  with m codec have good: "meta_good F T (sm_done (sw_meta w)) m"
    by (simp add: inverse_codec_def)
  define get where "get = (\<lambda>n. cb_get cache now (chunk_key c r n) s)"
  obtain blocks nxt gap
    where loop: "read_loop get codec max_chunks [cursor..<sm_chunk_count m] cursor [] (sm_truncated m)
        = (blocks, nxt, gap)" by (metis prod_cases3)
  with read m \<open>cb_get cache now (meta_key c r) s = Some raw\<close>
  have rd: "rd = \<lparr>cr_blocks = blocks, cr_next_cursor = nxt, cr_done = sm_done m, cr_gap = gap\<rparr>"
    by (simp add: read_stream_chunks_def get_def)
  have chunks: "chunks_ok cache codec c r F s" using inv by (simp add: stream_inv_def stream_base_def)
  have n: "sm_chunk_count m \<le> length F" using good by (simp add: meta_good_def)
  have "sc_decompress codec x = Inr (F ! i)" if "i < sm_chunk_count m" "get i = Some x" for i x
  proof -
    have "x = sc_compress codec (F ! i)"
      using chunks n that unfolding chunks_ok_def get_def by fastforce
    with codec show ?thesis by (simp add: inverse_codec_def)
  qed
  from read_loop_correct [OF loop this n, of cursor] cursor
  have l: "cursor \<le> nxt \<and> nxt \<le> length F \<and> blocks = drop cursor (take nxt F)
      \<and> (sm_truncated m \<longrightarrow> gap)
      \<and> (nxt < sm_chunk_count m \<and> \<not> gap \<longrightarrow> (\<exists>k. max_chunks = Some k \<and> k \<le> length blocks))"
    by auto
  then show "cursor \<le> cr_next_cursor rd" "cr_next_cursor rd \<le> length F"
    "cr_blocks rd = drop cursor (take (cr_next_cursor rd) F)" by (simp_all add: rd)
  assume d: "cr_done rd" "\<not> cr_gap rd" "cr_blocks rd = []" "max_chunks \<noteq> Some 0"
  then have "sm_chunk_count m = length F" "concat F = T"
    using good l by (auto simp: rd meta_good_def)
  moreover have "\<not> nxt < sm_chunk_count m" using l d by (auto simp: rd)
  moreover have "nxt = cursor" using l d by (auto simp: rd)
  ultimately show "cursor = length F \<and> concat F = T" using l by simp
qed

lemma stream_step_inv:
  assumes codec: "inverse_codec codec" and inv: "follow_inv cache codec c r T F ((w, s), cursor, acc)"
    and own: "foreign_key c r ev"
  shows "\<exists>F' w' s' cursor' acc'. stream_step cache codec cfg c r ev ((w, s), cursor, acc) = ((w', s'), cursor', acc')
    \<and> follow_inv cache codec c r (T @ run_text (sm_done (sw_meta w)) [ev]) F' ((w', s'), cursor', acc')
    \<and> (sm_done (sw_meta w') \<longleftrightarrow> sm_done (sw_meta w) \<or> finishes ev)"
proof -
  have inv': "stream_inv cache codec c r T F (w, s)" and cur: "cursor \<le> length F" "acc = take cursor F"
    using inv by (simp_all add: follow_inv_def)
  have keep: "cursor \<le> length F' \<and> acc = take cursor F'" if "prefix F F'" for F'
    using that cur by (auto elim!: prefixE)
  note known = stream_step_def follow_inv_def
  show ?thesis
  proof (cases ev)
    case (Append outs now line)
    obtain F' where "prefix F F'" "stream_inv cache codec c r (if sm_done (sw_meta w) then T else T @ line) F'
        (append_line outs cache codec cfg now line (w, s))"
      using append_inv [OF inv'] by blast
    moreover have "sm_done (sw_meta (fst (append_line outs cache codec cfg now line (w, s)))) = sm_done (sw_meta w)"
      by (simp add: append_line_def Let_def flush_done)
    ultimately show ?thesis using keep Append
      by (intro exI [of _ F'], cases "append_line outs cache codec cfg now line (w, s)") (auto simp: known)
  next
    case (Flush outs now)
    obtain F' where "prefix F F'" "stream_inv cache codec c r T F' (flush outs cache codec cfg now (w, s))"
      using flush_inv [OF inv'] by blast
    with keep Flush flush_done [of outs cache codec cfg now w s] show ?thesis
      by (intro exI [of _ F'], cases "flush outs cache codec cfg now (w, s)") (auto simp: known)
  next
    case (Finish outs out reached now)
    obtain F' where "prefix F F'" "stream_inv cache codec c r T F'
          (mark_done outs out reached cache codec cfg now (w, s))"
        "sm_done (sw_meta (fst (mark_done outs out reached cache codec cfg now (w, s))))"
      using mark_done_inv [OF inv'] by blast
    with keep Finish show ?thesis
      by (intro exI [of _ F'], cases "mark_done outs out reached cache codec cfg now (w, s)") (auto simp: known)
  next
    case (Evict k)
    with delete_inv [OF inv'] cur show ?thesis by (intro exI [of _ F]) (simp add: known)
  next
    case (Foreign now k v ex)
    with foreign_inv [OF inv'] cur own show ?thesis
      by (intro exI [of _ F]) (simp add: known foreign_key_def)
  next
    case (Read now max_chunks)
    show ?thesis
    proof (cases "read_stream_chunks cache codec now c r cursor max_chunks s")
      case None
      with Read inv' cur show ?thesis by (intro exI [of _ F]) (simp add: known)
    next
      case (Some rd)
      note rd = read_correct [OF codec inv' cur(1) Some]
      have "take cursor F @ drop cursor (take (cr_next_cursor rd) F) = take (cr_next_cursor rd) F"
        using rd(1) by (metis append_take_drop_id min.absorb1 take_take)
      with Read Some rd inv' cur show ?thesis by (intro exI [of _ F]) (simp add: known)
    qed
  qed
qed

lemma stream_run_inv:
  assumes "inverse_codec codec" and "follow_inv cache codec c r T F ((w, s), cursor, acc)"
    and "\<forall>ev \<in> set evs. foreign_key c r ev"
  shows "\<exists>F'. follow_inv cache codec c r (T @ run_text (sm_done (sw_meta w)) evs) F'
      (fold (stream_step cache codec cfg c r) evs ((w, s), cursor, acc))"
  using assms(2,3)
proof (induction evs arbitrary: T F w s cursor acc)
  case Nil
  then show ?case by auto
next
  case (Cons ev evs)
  obtain F' w' s' cursor' acc'
    where st: "stream_step cache codec cfg c r ev ((w, s), cursor, acc) = ((w', s'), cursor', acc')"
      and inv: "follow_inv cache codec c r (T @ run_text (sm_done (sw_meta w)) [ev]) F' ((w', s'), cursor', acc')"
      and d: "sm_done (sw_meta w') \<longleftrightarrow> sm_done (sw_meta w) \<or> finishes ev"
    using stream_step_inv [OF assms(1) Cons.prems(1), of ev cfg] Cons.prems(2)
    by (metis list.set_intros(1))
  have "run_text (sm_done (sw_meta w)) (ev # evs)
      = run_text (sm_done (sw_meta w)) [ev] @ run_text (sm_done (sw_meta w')) evs"
    using d by (cases ev) auto
  with Cons.IH [OF inv] Cons.prems(2) st show ?case by simp
qed

lemma stream_start: "(\<And>t. cb_get cache t (meta_key c r) s = None)
    \<Longrightarrow> follow_inv cache codec c r '''' [] ((new_stream_writer c r, s), 0, [])"
  by (simp add: follow_inv_def stream_inv_def stream_base_def new_stream_writer_def chunks_ok_def meta_ok_def)

text \<open>The reader never gets anything but a prefix of the text; once a read says the run is over, shows
  no gap and brings nothing new, it has the whole text.\<close>

lemma stream_replay:
  assumes "inverse_codec codec" and "\<And>t. cb_get cache t (meta_key c r) s = None"
    and "\<forall>ev \<in> set evs. foreign_key c r ev"
    and "stream_run cache codec cfg c r evs s = ((w', s'), cursor, acc)"
  shows "prefix (concat acc) (run_text False evs)"
    and "read_stream_chunks cache codec now c r cursor max_chunks s' = Some rd \<Longrightarrow> cr_done rd \<Longrightarrow> \<not> cr_gap rd
      \<Longrightarrow> cr_blocks rd = [] \<Longrightarrow> max_chunks \<noteq> Some 0 \<Longrightarrow> concat acc = run_text False evs"
proof -
  obtain F where F: "follow_inv cache codec c r (run_text False evs) F ((w', s'), cursor, acc)"
    using stream_run_inv [OF assms(1) stream_start [OF assms(2)] assms(3), of cfg] assms(4)
    by (auto simp: stream_run_def new_stream_writer_def)
  then have inv: "stream_inv cache codec c r (run_text False evs) F (w', s')"
    and acc: "cursor \<le> length F" "acc = take cursor F" by (simp_all add: follow_inv_def)
  have "prefix (concat F) (run_text False evs)" using inv by (simp add: stream_inv_def stream_base_def)
  moreover have "prefix (concat acc) (concat F)"
    using acc by (metis append_take_drop_id concat_append prefixI)
  ultimately show "prefix (concat acc) (run_text False evs)" by simp
  assume "read_stream_chunks cache codec now c r cursor max_chunks s' = Some rd" "cr_done rd" "\<not> cr_gap rd"
    "cr_blocks rd = []" "max_chunks \<noteq> Some 0"
  with read_correct(4) [OF assms(1) inv acc(1)] acc show "concat acc = run_text False evs" by auto
qed

end

section \<open>The buffer in the Postgres cache\<close>

text \<open>C28: Whatever cache writes are lost or fail, whatever is evicted and whenever the reader comes, the
  blocks a reader collects are a prefix of the run's text; and when a read says the run is over, shows
  no gap and brings nothing new, the reader has the whole text.\<close>

theorem stream_replay_complete:
  assumes "inverse_codec codec" and "\<And>t. pg_get t (meta_key c r) s = None"
    and "\<forall>ev \<in> set evs. foreign_key c r ev"
    and "stream_run postgres_backend codec cfg c r evs s = ((w', s'), cursor, acc)"
    and "read_stream_chunks postgres_backend codec now c r cursor max_chunks s' = Some rd"
  shows "prefix (concat acc) (run_text False evs)
    \<and> (cr_done rd \<and> \<not> cr_gap rd \<and> cr_blocks rd = [] \<and> max_chunks \<noteq> Some 0
        \<longrightarrow> concat acc = run_text False evs)"
  using text_pg.stream_replay [of codec c r s evs cfg w' s' cursor acc] assms by auto

text \<open>A codec for the example: no compression, and a meta record as its count in unary with two flags.\<close>

definition example_codec :: stream_codec where
  "example_codec = \<lparr>sc_compress = id, sc_decompress = Inr,
     sc_dump = (\<lambda>m. (if sm_done m then CHR ''d'' else CHR ''-'')
        # (if sm_truncated m then CHR ''t'' else CHR ''-'') # replicate (sm_chunk_count m) (CHR ''1'')),
     sc_load = (\<lambda>s. case s of d # t # n \<Rightarrow> Inr \<lparr>sm_chunk_count = length n,
        sm_done = (d = CHR ''d''), sm_truncated = (t = CHR ''t'')\<rparr> | _ \<Rightarrow> Inl ValueError)\<rparr>"

lemma example_codec_inverse: "inverse_codec example_codec"
  by (simp add: inverse_codec_def example_codec_def)

definition example_stream :: "stream_event list" where
  "example_stream = (let ok = (Written, Written, Written) in
    [Append ok 0 ''ab'', Flush ok 1, Read 2 None, Append ok 3 ''c'', Read 4 None,
     Finish ok Written 1 5, Evict ''other'', Read 6 None])"

definition example_config :: stream_config where
  "example_config = \<lparr>st_ttl = 3600, st_done_ttl = 600, st_max_bytes = 1000\<rparr>"

lemmas stream_eval = stream_run_def stream_step_def new_stream_writer_def append_line_def flush_def flush_chunk_def
  mark_done_def write_meta_def cache_write_def read_stream_chunks_def flush_threshold_bytes_def
  example_codec_def example_config_def pg_get_def pg_set_def pg_delete_def pg_expire_def unexpired_def
  second_def Let_def

lemma example_other_key: "chunk_key c r i \<noteq> ''other''" "meta_key c r \<noteq> ''other''"
  by (simp_all add: chunk_key_def meta_key_def stream_prefix_def)

lemma example_stream_run:
  "case stream_run postgres_backend example_codec example_config 7 1 example_stream [] of
     ((w, s), cursor, acc) \<Rightarrow> cursor = 2 \<and> acc = [''ab'', ''c'']
       \<and> read_stream_chunks postgres_backend example_codec 7 7 1 2 None s
           = Some \<lparr>cr_blocks = [], cr_next_cursor = 2, cr_done = True, cr_gap = False\<rparr>"
  by (simp add: stream_eval example_stream_def example_other_key)

lemma stream_replay_complete_witness:
  "\<exists>w s. stream_run postgres_backend example_codec example_config 7 1 example_stream []
      = ((w, s), 2, [''ab'', ''c'']) \<and> run_text False example_stream = ''abc''"
proof -
  obtain w s cursor acc where run: "stream_run postgres_backend example_codec example_config 7 1 example_stream []
      = ((w, s), cursor, acc)" by (metis prod.collapse)
  then have r: "cursor = 2" "acc = [''ab'', ''c'']" "read_stream_chunks postgres_backend example_codec 7 7 1 cursor None s
      = Some \<lparr>cr_blocks = [], cr_next_cursor = 2, cr_done = True, cr_gap = False\<rparr>"
    using example_stream_run by auto
  have "\<forall>ev \<in> set example_stream. foreign_key 7 1 ev"
    by (simp add: example_stream_def foreign_key_def Let_def)
  from stream_replay_complete [OF example_codec_inverse _ this run r(3)] run r show ?thesis
    by (simp add: pg_get_def)
qed

end
