(* ===== verification/Uuids.thy ===== *)
theory Uuids
  imports PyNumbers
begin

text \<open>
  Reading identifiers back: the constructor \<open>UUID(s)\<close> of the standard library, with the leniency of
  \<open>int(s, 16)\<close> (white space, a sign, a base prefix, single underscores between digits), and the
  round trip with \<open>str\<close>.
\<close>

section \<open>Hexadecimal numbers\<close>

definition hex_value :: "char \<Rightarrow> nat option" where
  "hex_value c = (let n = (of_char c :: nat) in
     if 48 \<le> n \<and> n \<le> 57 then Some (n - 48)
     else if 97 \<le> n \<and> n \<le> 102 then Some (n - 87)
     else if 65 \<le> n \<and> n \<le> 70 then Some (n - 55) else None)"

text \<open>After \<open>0x\<close> one underscore may come before the first digit.\<close>

definition unprefixed :: "string \<Rightarrow> string" where
  "unprefixed s = (case s of z # x # rest \<Rightarrow>
       if z = CHR ''0'' \<and> (x = CHR ''x'' \<or> x = CHR ''X'')
       then (case rest of u # digits \<Rightarrow> if u = CHR ''_'' then digits else rest | [] \<Rightarrow> rest)
       else s
     | _ \<Rightarrow> s)"

definition int_base_16 :: "string \<Rightarrow> int result" where
  "int_base_16 s = signed_number (\<lambda>t. digits_number hex_value 16 (unprefixed t)) s"

section \<open>The constructor\<close>

text \<open>\<open>s.replace(sub, '')\<close> for a non-empty \<open>sub\<close>: occurrences from the left, without overlap.\<close>

function remove_all :: "string \<Rightarrow> string \<Rightarrow> string" where
  "remove_all sub s =
     (if s = [] then [] else if sub \<noteq> [] \<and> prefix sub s then remove_all sub (drop (length sub) s)
      else hd s # remove_all sub (tl s))"
  by auto
termination by (relation "measure (\<lambda>(sub, s). length s)") (auto simp: prefix_def)

declare remove_all.simps [simp del]

definition uuid_of_str :: "string \<Rightarrow> uuid result" where
  "uuid_of_str s =
    (let h = remove_all ''-'' (strip_by (\<lambda>c. c \<in> set ''{}'') (remove_all ''uuid:'' (remove_all ''urn:'' s)))
     in if length h \<noteq> 32 then Inl ValueError
        else bind_r (int_base_16 h) (\<lambda>n. if 0 \<le> n \<and> n < 2 ^ 128 then Inr (word_of_int n) else Inl ValueError))"

section \<open>Round trip\<close>

lemma hex_value_hex_char: "d < 16 \<Longrightarrow> hex_value (hex_char d) = Some d"
proof -
  assume "d < 16"
  then have "(of_char (hex_char d) :: nat) = (if d < 10 then 48 + d else 87 + d)"
    by (simp add: hex_char_def of_char_of)
  with \<open>d < 16\<close> show ?thesis by (simp add: hex_value_def Let_def)
qed

lemma hex_char_range: "d < 16 \<Longrightarrow> (of_char (hex_char d) :: nat) \<in> {48..57} \<union> {97..102}"
  by (auto simp: hex_char_def of_char_of)

lemma hex_digits_range: "c \<in> set (hex_digits n u) \<Longrightarrow> (of_char c :: nat) \<in> {48..57} \<union> {97..102}"
  using hex_char_range [OF nibble_less] by (auto simp: hex_digits_def)

lemma hex_digits_Suc: "hex_digits (Suc n) u = hex_char (unat (take_bit 4 (drop_bit (4 * n) u))) # hex_digits n u"
  by (simp add: hex_digits_def)

lemma nibble_nat: "unat (take_bit 4 (drop_bit k (u :: uuid))) = unat u div 2 ^ k mod 16"
proof -
  have "unat (take_bit 4 x) = unat x mod 16" for x :: uuid
  proof -
    have "unat (take_bit 4 x) = take_bit 4 (unat x)" by (rule unsigned_take_bit_eq)
    also have "\<dots> = unat x mod 16" by (simp add: take_bit_eq_mod)
    finally show ?thesis .
  qed
  moreover have "unat (drop_bit k u) = unat u div 2 ^ k"
  proof -
    have "unat (drop_bit k u) = drop_bit k (take_bit LENGTH(128) (unat u))" by (rule unsigned_drop_bit_eq)
    also have "take_bit LENGTH(128) (unat u) = unat u" by (rule take_bit_nat_eq_self) (rule unsigned_less)
    finally show ?thesis by (simp only: drop_bit_eq_div)
  qed
  ultimately show ?thesis by simp
qed

lemma hex_rest_digits: "digits_rest hex_value 16 False acc (hex_digits n u) = Some (acc * 16 ^ n + unat u mod 16 ^ n)"
proof (induction n arbitrary: acc)
  case 0
  then show ?case by (simp add: hex_digits_def)
next
  case (Suc n)
  let ?d = "unat (take_bit 4 (drop_bit (4 * n) u))"
  have "hex_char ?d \<noteq> CHR ''_''"
    using hex_char_range [OF nibble_less, of "drop_bit (4 * n) u"] by auto
  then have "digits_rest hex_value 16 False acc (hex_digits (Suc n) u) = Some ((acc * 16 + ?d) * 16 ^ n + unat u mod 16 ^ n)"
    using Suc by (simp add: hex_digits_Suc hex_value_hex_char nibble_less)
  also have "?d = unat u div 16 ^ n mod 16"
    by (simp add: nibble_nat power_mult)
  also have "(acc * 16 + unat u div 16 ^ n mod 16) * 16 ^ n + unat u mod 16 ^ n
      = acc * 16 ^ Suc n + unat u mod 16 ^ Suc n"
    using mod_mult2_eq [of "unat u" "16 ^ n" 16] by (simp add: algebra_simps)
  finally show ?case .
qed

lemma hex_number_digits: "digits_number hex_value 16 (hex_digits 32 u) = Some (unat u)"
proof -
  have h: "hex_digits 32 u = hex_digits (Suc 31) u" by simp
  have "unat u < 2 ^ LENGTH(128)" by (rule unsigned_less)
  then have "digits_rest hex_value 16 False 0 (hex_digits (Suc 31) u) = Some (unat u)"
    using hex_rest_digits [of 0 "Suc 31" u] by simp
  moreover have "hex_char (unat (take_bit 4 (drop_bit (4 * 31) u))) \<noteq> CHR ''_''"
    using hex_char_range [OF nibble_less, of "drop_bit (4 * 31) u"] by auto
  ultimately show ?thesis unfolding h hex_digits_Suc
    by (simp add: digits_number_def hex_value_hex_char nibble_less)
qed

lemma remove_all_absent: "(\<exists>c \<in> set sub. c \<notin> set s) \<Longrightarrow> remove_all sub s = s"
proof (induction sub s rule: remove_all.induct)
  case (1 sub s)
  have "\<not> prefix sub s" using 1(3) by (auto simp: prefix_def)
  with 1 show ?case by (subst remove_all.simps) (cases s; auto)
qed

lemma remove_hyphen: "remove_all [h] s = filter (\<lambda>c. c \<noteq> h) s"
  by (induction s) (simp_all add: remove_all.simps)

lemma length_hex_digits [simp]: "length (hex_digits n u) = n"
  by (simp add: hex_digits_def)

lemma filter_hyphenate: "h \<notin> set s \<Longrightarrow> filter (\<lambda>c. c \<noteq> h) (hyphenate h s) = s"
proof -
  assume h: "h \<notin> set s"
  have f: "filter (\<lambda>c. c \<noteq> h) x = x" if "set x \<subseteq> set s" for x using that h by (auto intro!: filter_True)
  have "take 8 s @ take 4 (drop 8 s) @ take 4 (drop 12 s) @ take 4 (drop 16 s) @ drop 20 s = s"
    using append_take_drop_id [of 4 "drop 8 s"] append_take_drop_id [of 4 "drop 12 s"]
      append_take_drop_id [of 4 "drop 16 s"] append_take_drop_id [of 8 s] by simp
  then show ?thesis by (simp add: hyphenate_def f set_take_subset set_drop_subset
        order_trans [OF set_take_subset set_drop_subset])
qed

lemma uuid_of_str_inverse [simp]: "uuid_of_str (uuid_str u) = Inr u"
proof -
  have range: "(of_char c :: nat) \<in> insert 45 ({48..57} \<union> {97..102})" if "c \<in> set (uuid_str u)" for c
    using that hex_digits_range [of c 32 u]
    by (auto simp: uuid_str_def hyphenate_def dest: in_set_takeD in_set_dropD)
  have none: "c \<notin> set (uuid_str u)" if "(of_char c :: nat) \<notin> insert 45 ({48..57} \<union> {97..102})" for c
    using range that by blast
  have "CHR '':'' \<notin> set (uuid_str u)" "CHR ''{'' \<notin> set (uuid_str u)" "CHR ''}'' \<notin> set (uuid_str u)"
    by (rule none, simp)+
  then have "remove_all ''uuid:'' (remove_all ''urn:'' (uuid_str u)) = uuid_str u"
      "strip_by (\<lambda>c. c \<in> set ''{}'') (uuid_str u) = uuid_str u"
    by (simp_all add: remove_all_absent) (rule strip_by_none, auto)
  moreover have "remove_all ''-'' (uuid_str u) = hex_digits 32 u"
  proof -
    have "CHR ''-'' \<notin> set (hex_digits 32 u)" using hex_digits_range [of "CHR ''-''" 32 u] by auto
    then show ?thesis by (simp add: remove_hyphen uuid_str_def filter_hyphenate)
  qed
  moreover have "int_base_16 (hex_digits 32 u) = Inr (uint u)"
  proof -
    have sp: "strip (hex_digits 32 u) = hex_digits 32 u"
      using hex_digits_range [of _ 32 u] unfolding strip_def
      by (intro strip_by_none) (fastforce simp: is_space_def Let_def)
    obtain c c' cs where c: "hex_digits 32 u = c # c' # cs"
      using hex_digits_Suc [of 31 u] hex_digits_Suc [of 30 u] by (auto simp: eval_nat_numeral)
    have "c \<noteq> CHR ''-''" "c \<noteq> CHR ''+''" "c' \<noteq> CHR ''x''" "c' \<noteq> CHR ''X''"
      using hex_digits_range [of c 32 u] hex_digits_range [of c' 32 u] c by auto
    moreover have "digits_number hex_value 16 (c # c' # cs) = Some (unat u)" using hex_number_digits [of u] c by simp
    ultimately show ?thesis using c sp by (simp add: int_base_16_def signed_number_def unprefixed_def Let_def)
  qed
  ultimately show ?thesis
    using uint_lt2p [of u] by (simp add: uuid_of_str_def)
qed

lemma length_uuid_str [simp]: "length (uuid_str u) = 36"
  by (simp add: uuid_str_def hyphenate_def)

end
