(* ===== verification/ChatSignals.thy ===== *)
theory ChatSignals
  imports CacheStore Uuids
begin

text \<open>
  Small protocols over the cache: the fence that says a chat session is being answered
  (\<open>onyx/chat/chat_processing_checker.py\<close>), the stop signal (\<open>onyx/chat/stop_signal_checker.py\<close>), the
  interrupt of a build session (\<open>session/interrupt_signal.py\<close>), and the signals and session grants of
  the approval rendezvous (\<open>onyx/sandbox_proxy/approval_cache.py\<close>).  The list signals are modelled on
  the Postgres back end, everything else on any cache that obeys the laws.
\<close>

section \<open>Fences\<close>

definition processing_fence_ttl :: int where "processing_fence_ttl = 30 * 60"
definition stop_fence_ttl :: int where "stop_fence_ttl = 10 * 60"
definition interrupt_fence_ttl :: int where "interrupt_fence_ttl = 10 * 60"

definition processing_fence_key :: "uuid \<Rightarrow> string" where
  "processing_fence_key chat_session_id = ''chatprocessing_fence_'' @ uuid_str chat_session_id"

definition stop_fence_key :: "uuid \<Rightarrow> string" where
  "stop_fence_key chat_session_id = ''chatsessionstop_fence_'' @ uuid_str chat_session_id"

definition interrupt_fence_key :: "uuid \<Rightarrow> string" where
  "interrupt_fence_key session_id = ''buildsessioninterrupt_fence_'' @ uuid_str session_id"

definition set_processing_status ::
  "('s, string) cache_backend \<Rightarrow> int \<Rightarrow> uuid \<Rightarrow> bool \<Rightarrow> int option \<Rightarrow> 's \<Rightarrow> 's" where
  "set_processing_status cache now chat_session_id value run_id s =
    (let fence_key = processing_fence_key chat_session_id in
     if value then cb_set cache now fence_key
         (to_bytes (CvInt (case run_id of Some r \<Rightarrow> r | None \<Rightarrow> 0))) (Some processing_fence_ttl) s
     else cb_delete cache fence_key s)"

definition get_processing_run_id :: "('s, string) cache_backend \<Rightarrow> int \<Rightarrow> uuid \<Rightarrow> 's \<Rightarrow> int option" where
  "get_processing_run_id cache now chat_session_id s =
    (case cb_get cache now (processing_fence_key chat_session_id) s of
       None \<Rightarrow> None
     | Some raw \<Rightarrow> (case py_int raw of Inl e \<Rightarrow> None | Inr run_id \<Rightarrow> if 0 < run_id then Some run_id else None))"

definition is_chat_session_processing :: "('s, string) cache_backend \<Rightarrow> int \<Rightarrow> uuid \<Rightarrow> 's \<Rightarrow> bool" where
  "is_chat_session_processing cache now chat_session_id s =
     cb_exists cache now (processing_fence_key chat_session_id) s"

definition set_fence :: "('s, string) cache_backend \<Rightarrow> int \<Rightarrow> uuid \<Rightarrow> bool \<Rightarrow> 's \<Rightarrow> 's" where
  "set_fence cache now chat_session_id value s =
    (let fence_key = stop_fence_key chat_session_id in
     if \<not> value then cb_delete cache fence_key s
     else cb_set cache now fence_key (to_bytes (CvInt 0)) (Some stop_fence_ttl) s)"

definition is_connected :: "('s, string) cache_backend \<Rightarrow> int \<Rightarrow> uuid \<Rightarrow> 's \<Rightarrow> bool" where
  "is_connected cache now chat_session_id s \<longleftrightarrow> \<not> cb_exists cache now (stop_fence_key chat_session_id) s"

definition reset_cancel_status :: "('s, string) cache_backend \<Rightarrow> uuid \<Rightarrow> 's \<Rightarrow> 's" where
  "reset_cancel_status cache chat_session_id s = cb_delete cache (stop_fence_key chat_session_id) s"

definition request_interrupt :: "('s, string) cache_backend \<Rightarrow> int \<Rightarrow> uuid \<Rightarrow> 's \<Rightarrow> 's" where
  "request_interrupt cache now session_id s =
     cb_set cache now (interrupt_fence_key session_id) (to_bytes (CvInt 0)) (Some interrupt_fence_ttl) s"

definition is_interrupt_requested :: "('s, string) cache_backend \<Rightarrow> int \<Rightarrow> uuid \<Rightarrow> 's \<Rightarrow> bool" where
  "is_interrupt_requested cache now session_id s = cb_exists cache now (interrupt_fence_key session_id) s"

definition clear_interrupt :: "('s, string) cache_backend \<Rightarrow> uuid \<Rightarrow> 's \<Rightarrow> 's" where
  "clear_interrupt cache session_id s = cb_delete cache (interrupt_fence_key session_id) s"

lemma fence_keys_apart [simp]:
  "processing_fence_key a = processing_fence_key b \<longleftrightarrow> a = b"
  "stop_fence_key a = stop_fence_key b \<longleftrightarrow> a = b"
  "interrupt_fence_key a = interrupt_fence_key b \<longleftrightarrow> a = b"
  "processing_fence_key a \<noteq> stop_fence_key b" "stop_fence_key b \<noteq> processing_fence_key a"
  by (simp_all add: processing_fence_key_def stop_fence_key_def interrupt_fence_key_def)

context text_cache
begin

lemma processing_run_id:
  assumes "now \<le> t" and "t < now + processing_fence_ttl * second"
  shows "get_processing_run_id cache t sid (set_processing_status cache now sid True run_id s)
      = (case run_id of Some r \<Rightarrow> if 0 < r then Some r else None | None \<Rightarrow> None)"
    and "is_chat_session_processing cache t sid (set_processing_status cache now sid True run_id s)"
    and "\<not> is_chat_session_processing cache t sid (set_processing_status cache now sid False run_id s)"
  using assms by (auto simp: get_processing_run_id_def set_processing_status_def to_bytes_def Let_def
      is_chat_session_processing_def exists_set exists_delete split: option.splits)

lemma stop_signal:
  "is_connected cache t sid (set_fence cache now sid' True s)
    \<longleftrightarrow> (if sid = sid' then now + stop_fence_ttl * second \<le> t else is_connected cache t sid s)"
  "is_connected cache t sid (reset_cancel_status cache sid s)"
  "is_connected cache t sid (set_processing_status cache now sid' b run_id s) \<longleftrightarrow> is_connected cache t sid s"
  by (auto simp: is_connected_def set_fence_def reset_cancel_status_def set_processing_status_def Let_def
      exists_set exists_delete)

end

section \<open>Approval signals\<close>

datatype approval_decision = APPROVED | REJECTED | EXPIRED

definition decision_value :: "approval_decision \<Rightarrow> string" where
  "decision_value d = (case d of APPROVED \<Rightarrow> ''APPROVED'' | REJECTED \<Rightarrow> ''REJECTED'' | EXPIRED \<Rightarrow> ''EXPIRED'')"

definition parse_decision :: "string \<Rightarrow> approval_decision result" where
  "parse_decision s = (if s = ''APPROVED'' then Inr APPROVED else if s = ''REJECTED'' then Inr REJECTED
     else if s = ''EXPIRED'' then Inr EXPIRED else Inl ValueError)"

lemma parse_decision_value [simp]: "parse_decision (decision_value d) = Inr d"
  by (cases d) (simp_all add: parse_decision_def decision_value_def)

definition announce_ttl_s :: int where "announce_ttl_s = 60"
definition wake_ttl_s :: int where "wake_ttl_s = 30"
definition session_grant_ttl_s :: int where "session_grant_ttl_s = 60 * 60"

definition announce_key :: "uuid \<Rightarrow> string" where
  "announce_key session_id = ''approval:announce:'' @ uuid_str session_id"

definition wake_key :: "uuid \<Rightarrow> string" where
  "wake_key approval_id = ''approval:wake:'' @ uuid_str approval_id"

definition session_grant_key :: "uuid \<Rightarrow> int \<Rightarrow> string \<Rightarrow> string" where
  "session_grant_key session_id external_app_id action_type =
     ''approval:session-grant:'' @ uuid_str session_id @ '':'' @ int_str external_app_id @ '':'' @ action_type"

definition announce_approval ::
  "int \<Rightarrow> nat \<Rightarrow> uuid \<Rightarrow> uuid \<Rightarrow> uuid \<Rightarrow> string cache_table \<Rightarrow> string cache_table" where
  "announce_approval now time_ns u approval_id session_id s =
     pg_expire now (announce_key session_id) announce_ttl_s
       (pg_rpush now time_ns u (announce_key session_id) (uuid_str approval_id) s)"

definition send_wake ::
  "int \<Rightarrow> nat \<Rightarrow> uuid \<Rightarrow> uuid \<Rightarrow> approval_decision \<Rightarrow> string cache_table \<Rightarrow> string cache_table" where
  "send_wake now time_ns u approval_id decision s =
     pg_expire now (wake_key approval_id) wake_ttl_s
       (pg_rpush now time_ns u (wake_key approval_id) (decision_value decision) s)"

text \<open>A value still awaited is \<open>None\<close>; what arrives is \<open>Some\<close> of the function's return value.\<close>

definition pop_announcement ::
  "int \<Rightarrow> uuid \<Rightarrow> int \<Rightarrow> string poll list \<Rightarrow> string cache_table
    \<Rightarrow> (string cache_table \<times> uuid option option) result" where
  "pop_announcement start session_id timeout_s polls s =
     bind_r (pg_blpop start [announce_key session_id] timeout_s polls s) (\<lambda>(s', r). Inr (s', case r of
         None \<Rightarrow> None
       | Some None \<Rightarrow> Some None
       | Some (Some (k, value)) \<Rightarrow> Some (case uuid_of_str value of Inl e \<Rightarrow> None | Inr u \<Rightarrow> Some u)))"

text \<open>A turn of the waiting loop: the clock of its deadline check, the clock and polls of its \<open>blpop\<close>.\<close>

fun wake_loop ::
  "int \<Rightarrow> uuid \<Rightarrow> (int \<times> int \<times> string poll list) list \<Rightarrow> string cache_table
    \<Rightarrow> (string cache_table \<times> approval_decision option option) result" where
  "wake_loop deadline approval_id [] s = Inr (s, None)"
| "wake_loop deadline approval_id ((clock, start, polls) # turns) s =
     (if deadline - clock \<le> 0 then Inr (s, Some None)
      else bind_r (pg_blpop start [wake_key approval_id] 1 polls s) (\<lambda>(s', r). case r of
          None \<Rightarrow> Inr (s', None)
        | Some None \<Rightarrow> wake_loop deadline approval_id turns s'
        | Some (Some (k, value)) \<Rightarrow>
            Inr (s', Some (case parse_decision value of Inl e \<Rightarrow> None | Inr d \<Rightarrow> Some d))))"

definition wait_for_wake ::
  "int \<Rightarrow> uuid \<Rightarrow> int \<Rightarrow> (int \<times> int \<times> string poll list) list \<Rightarrow> string cache_table
    \<Rightarrow> (string cache_table \<times> approval_decision option option) result" where
  "wait_for_wake start approval_id timeout_s turns s =
     (if timeout_s \<le> 0 then Inr (s, Some None)
      else wake_loop (start + timeout_s * second) approval_id turns s)"

section \<open>Session grants\<close>

definition cache_session_grant_actions ::
  "('s, string) cache_backend \<Rightarrow> int \<Rightarrow> uuid \<Rightarrow> int \<Rightarrow> string list \<Rightarrow> uuid \<Rightarrow> 's \<Rightarrow> 's" where
  "cache_session_grant_actions cache now session_id external_app_id action_types source_approval_id s =
     fold (\<lambda>a. cb_set cache now (session_grant_key session_id external_app_id a)
         (uuid_str source_approval_id) (Some session_grant_ttl_s)) (remdups action_types) s"

definition cached_session_grants_cover ::
  "('s, string) cache_backend \<Rightarrow> int \<Rightarrow> uuid \<Rightarrow> int \<Rightarrow> string list \<Rightarrow> 's \<Rightarrow> bool \<times> 's" where
  "cached_session_grants_cover cache now session_id external_app_id action_types s =
    (let unique_action_types = remdups action_types in
     if unique_action_types = [] then (False, s)
     else let keys = map (session_grant_key session_id external_app_id) unique_action_types in
       if list_ex (\<lambda>k. cb_get cache now k s = None) keys then (False, s)
       else (True, fold (\<lambda>k. cb_expire cache now k session_grant_ttl_s) keys s))"

lemma colon_not_in_int_str [simp]: "CHR '':'' \<notin> set (int_str i)"
  using nat_str_chars [of "CHR '':''"] by (auto simp: int_str_def)

lemma split_first: "c \<notin> set xs \<Longrightarrow> c \<notin> set ys \<Longrightarrow> xs @ c # us = ys @ c # vs \<longleftrightarrow> xs = ys \<and> us = vs"
proof (induction xs arbitrary: ys)
  case Nil
  then show ?case by (cases ys) auto
next
  case (Cons x xs)
  then show ?case by (cases ys) auto
qed

lemma session_grant_key_inj [simp]:
  "session_grant_key s1 a1 t1 = session_grant_key s2 a2 t2 \<longleftrightarrow> s1 = s2 \<and> a1 = a2 \<and> t1 = t2"
proof
  assume "session_grant_key s1 a1 t1 = session_grant_key s2 a2 t2"
  then have "uuid_str s1 @ '':'' @ int_str a1 @ '':'' @ t1 = uuid_str s2 @ '':'' @ int_str a2 @ '':'' @ t2"
    by (simp add: session_grant_key_def)
  then have "uuid_str s1 = uuid_str s2" and "int_str a1 @ CHR '':'' # t1 = int_str a2 @ CHR '':'' # t2"
    by (simp_all add: append_eq_append_conv)
  then show "s1 = s2 \<and> a1 = a2 \<and> t1 = t2" by (simp add: split_first int_str_inj)
qed simp

context text_cache
begin

lemma get_fold_set:
  "cb_get cache t k (fold (\<lambda>a. cb_set cache now (key a) v ex) acts s)
    = (if k \<in> key ` set acts then (if alive t now ex then Some v else None) else cb_get cache t k s)"
  by (induction acts arbitrary: s) (auto simp: get_set)

lemma get_fold_expire_other:
  "k \<notin> set ks \<Longrightarrow> cb_get cache t k (fold (\<lambda>k. cb_expire cache now k d) ks s) = cb_get cache t k s"
  by (induction ks arbitrary: s) (auto simp: get_expire_other)

lemma get_fold_expire:
  "distinct ks \<Longrightarrow> k \<in> set ks \<Longrightarrow> cb_get cache now k s = Some v
    \<Longrightarrow> cb_get cache t k (fold (\<lambda>k. cb_expire cache now k d) ks s) = (if alive t now (Some d) then Some v else None)"
proof (induction ks arbitrary: s)
  case (Cons k' ks)
  then show ?case
    by (cases "k = k'") (auto simp: get_fold_expire_other get_expire get_expire_other)
qed simp

lemma cover_iff:
  "fst (cached_session_grants_cover cache t sid app qs s)
    \<longleftrightarrow> qs \<noteq> [] \<and> (\<forall>q \<in> set qs. cb_get cache t (session_grant_key sid app q) s \<noteq> None)"
  by (auto simp: cached_session_grants_cover_def Let_def list_ex_iff)

lemma grants_cover:
  assumes none: "\<And>a t. cb_get cache t (session_grant_key sid app a) s = None"
    and t: "t < now + session_grant_ttl_s * second"
    and s1_def: "s1 = cache_session_grant_actions cache now sid app acts src s"
  shows "fst (cached_session_grants_cover cache t sid app qs s1) \<longleftrightarrow> qs \<noteq> [] \<and> set qs \<subseteq> set acts"
    and "(sid', app') \<noteq> (sid, app) \<Longrightarrow> fst (cached_session_grants_cover cache t sid' app' qs s1)
      \<longleftrightarrow> fst (cached_session_grants_cover cache t sid' app' qs s)"
    and "fst (cached_session_grants_cover cache t sid app qs s1) \<Longrightarrow> t' < t + session_grant_ttl_s * second
      \<Longrightarrow> fst (cached_session_grants_cover cache t' sid app qs (snd (cached_session_grants_cover cache t sid app qs s1)))"
proof -
  have get: "cb_get cache x (session_grant_key sid app a) s1
      = (if a \<in> set acts \<and> x < now + session_grant_ttl_s * second then Some (uuid_str src) else None)" for x a
    using none by (auto simp: s1_def cache_session_grant_actions_def get_fold_set)
  show first: "fst (cached_session_grants_cover cache t sid app qs s1) \<longleftrightarrow> qs \<noteq> [] \<and> set qs \<subseteq> set acts"
    using t by (auto simp: cover_iff get)
  show "fst (cached_session_grants_cover cache t sid' app' qs s1)
      \<longleftrightarrow> fst (cached_session_grants_cover cache t sid' app' qs s)" if "(sid', app') \<noteq> (sid, app)"
  proof -
    have "cb_get cache t (session_grant_key sid' app' a) s1 = cb_get cache t (session_grant_key sid' app' a) s" for a
      using that by (auto simp: s1_def cache_session_grant_actions_def get_fold_set)
    then show ?thesis by (simp add: cover_iff)
  qed
  assume c: "fst (cached_session_grants_cover cache t sid app qs s1)" and t': "t' < t + session_grant_ttl_s * second"
  let ?ks = "map (session_grant_key sid app) (remdups qs)"
  have s2: "snd (cached_session_grants_cover cache t sid app qs s1)
      = fold (\<lambda>k. cb_expire cache t k session_grant_ttl_s) ?ks s1"
    using c by (auto simp: cached_session_grants_cover_def Let_def)
  have "cb_get cache t' (session_grant_key sid app q) (fold (\<lambda>k. cb_expire cache t k session_grant_ttl_s) ?ks s1) \<noteq> None"
    if q: "q \<in> set qs" for q
  proof -
    have "cb_get cache t (session_grant_key sid app q) s1 = Some (uuid_str src)"
      using first c t q by (auto simp: get)
    then show ?thesis using get_fold_expire [of ?ks "session_grant_key sid app q" t s1] q t'
      by (simp add: distinct_map inj_on_def)
  qed
  then show "fst (cached_session_grants_cover cache t' sid app qs (snd (cached_session_grants_cover cache t sid app qs s1)))"
    using first c by (simp add: cover_iff s2)
qed

end

text \<open>A cached session grant covers exactly what was granted: a request is let through when it names
  some actions and all were granted to that session and app, a request of another session or app is
  judged as before, and every use starts the hour anew.\<close>

theorem grants_cover_exactly:
  assumes "\<And>a t. pg_get t (session_grant_key sid app a) s = None"
    and "t < now + session_grant_ttl_s * second" and "(sid', app') \<noteq> (sid, app)"
    and "s1 = cache_session_grant_actions postgres_backend now sid app acts src s"
  shows "(fst (cached_session_grants_cover postgres_backend t sid app qs s1) \<longleftrightarrow> qs \<noteq> [] \<and> set qs \<subseteq> set acts)
    \<and> (fst (cached_session_grants_cover postgres_backend t sid' app' qs s1)
        \<longleftrightarrow> fst (cached_session_grants_cover postgres_backend t sid' app' qs s))
    \<and> (qs \<noteq> [] \<and> set qs \<subseteq> set acts \<and> t' < t + session_grant_ttl_s * second \<longrightarrow>
        fst (cached_session_grants_cover postgres_backend t' sid app qs
          (snd (cached_session_grants_cover postgres_backend t sid app qs s1))))"
  using text_pg.grants_cover [of sid app s t now s1 acts src] assms by auto

lemma grants_cover_exactly_witness:
  "let s1 = cache_session_grant_actions postgres_backend 0 7 3 [''read'', ''write''] 9 [] in
    fst (cached_session_grants_cover postgres_backend 5 7 3 [''read''] s1)
    \<and> \<not> fst (cached_session_grants_cover postgres_backend 5 7 3 [''read'', ''delete''] s1)
    \<and> \<not> fst (cached_session_grants_cover postgres_backend 5 7 4 [''read''] s1)"
proof -
  have none: "\<And>a t. pg_get t (session_grant_key 7 3 a) ([] :: string cache_table) = None"
    by (simp add: pg_get_def)
  have t: "(5 :: int) < 0 + session_grant_ttl_s * second" by (simp add: session_grant_ttl_s_def second_def)
  have other: "((7, 4) :: uuid \<times> int) \<noteq> (7, 3)" by simp
  note g = grants_cover_exactly [OF none t other refl, where acts = "[''read'', ''write'']" and src = 9]
  have "\<not> fst (cached_session_grants_cover postgres_backend 5 7 4 [''read''] [])"
    by (simp add: text_pg.cover_iff pg_get_def)
  then show ?thesis using g [where qs = "[''read'']"] g [where qs = "[''read'', ''delete'']"] by (simp add: Let_def)
qed

end
