(* ===== verification/InteractiveTurns.thy ===== *)
theory InteractiveTurns
  imports CacheStore Uuids
begin

text \<open>
  The lifecycle of interactive build turns, \<open>server/features/build/interactive_turns/state.py\<close>: turns
  are JSON records in the cache, created once per client request, claimed by one runner at a time,
  kept alive by heartbeats, finished.  The cache is any back end that obeys the laws.  The JSON and
  ISO 8601 texts of the standard library are arguments.  A function that takes the session's lock
  gets the state of its first look, whether the lock was acquired, and the state it then finds.
\<close>

section \<open>Turns\<close>

datatype turn_status = QUEUED | RUNNING | SUCCEEDED | FAILED | CANCELLED

definition status_value :: "turn_status \<Rightarrow> string" where
  "status_value st = (case st of QUEUED \<Rightarrow> ''QUEUED'' | RUNNING \<Rightarrow> ''RUNNING'' | SUCCEEDED \<Rightarrow> ''SUCCEEDED''
     | FAILED \<Rightarrow> ''FAILED'' | CANCELLED \<Rightarrow> ''CANCELLED'')"

definition turn_status_of :: "pyval \<Rightarrow> turn_status result" where
  "turn_status_of v = (case filter (\<lambda>st. v = PStr (status_value st)) [QUEUED, RUNNING, SUCCEEDED, FAILED, CANCELLED] of
     st # _ \<Rightarrow> Inr st | [] \<Rightarrow> Inl ValueError)"

definition active_turn_statuses :: "turn_status set" where
  "active_turn_statuses = {QUEUED, RUNNING}"

definition active_turn_ttl_seconds :: int where "active_turn_ttl_seconds = 45 * 60"
definition request_id_ttl_seconds :: int where "request_id_ttl_seconds = 60 * 60"
definition runner_stale_after_seconds :: int where "runner_stale_after_seconds = 90"

text \<open>Prompt, error and runner are not checked when a turn is read back, so they are any value.\<close>

record interactive_turn =
  turn_id :: uuid
  turn_session :: uuid
  turn_user :: uuid
  turn_prompt :: pyval
  turn_status :: turn_status
  turn_index :: int
  last_heartbeat_at :: "int option"
  error_detail :: pyval
  runner_id :: pyval

definition is_active :: "interactive_turn \<Rightarrow> bool" where
  "is_active t \<longleftrightarrow> turn_status t \<in> active_turn_statuses"

section \<open>Keys\<close>

definition turn_key :: "uuid \<Rightarrow> string" where
  "turn_key tid = ''craft:interactive_turn:'' @ uuid_str tid"

definition active_turn_key :: "uuid \<Rightarrow> string" where
  "active_turn_key session_id = ''craft:session:'' @ uuid_str session_id @ '':active_turn''"

definition active_turn_lock_key :: "uuid \<Rightarrow> string" where
  "active_turn_lock_key session_id = ''craft:session:'' @ uuid_str session_id @ '':active_turn_lock''"

definition request_key :: "uuid \<Rightarrow> uuid \<Rightarrow> string \<Rightarrow> string" where
  "request_key session_id user_id client_request_id =
     ''craft:session:'' @ uuid_str session_id @ '':turn_request:'' @ uuid_str user_id @ '':'' @ client_request_id"

section \<open>Saving and loading\<close>

record turn_text =
  js_dumps :: "pyval \<Rightarrow> string"
  js_loads :: "string \<Rightarrow> pyval result"
  js_iso :: "int \<Rightarrow> string"
  js_from_iso :: "string \<Rightarrow> int result"

definition turn_payload :: "turn_text \<Rightarrow> interactive_turn \<Rightarrow> pyval" where
  "turn_payload js t = PDict
     [(''turn_id'', PStr (uuid_str (turn_id t))), (''session_id'', PStr (uuid_str (turn_session t))),
      (''user_id'', PStr (uuid_str (turn_user t))), (''prompt'', turn_prompt t),
      (''status'', PStr (status_value (turn_status t))), (''turn_index'', PInt (turn_index t)),
      (''last_heartbeat_at'', case last_heartbeat_at t of None \<Rightarrow> PNone | Some x \<Rightarrow> PStr (js_iso js x)),
      (''error_detail'', error_detail t), (''runner_id'', runner_id t)]"

definition save_turn ::
  "('s, string) cache_backend \<Rightarrow> turn_text \<Rightarrow> int \<Rightarrow> interactive_turn \<Rightarrow> int \<Rightarrow> 's \<Rightarrow> 's" where
  "save_turn cache js now t ex s =
     cb_set cache now (turn_key (turn_id t)) (js_dumps js (turn_payload js t)) (Some ex) s"

text \<open>\<open>payload[k]\<close>, \<open>UUID(v)\<close>, \<open>int(v)\<close> and \<open>_parse_dt\<close>\<close>

definition py_item :: "pyval \<Rightarrow> string \<Rightarrow> pyval result" where
  "py_item v k = (case v of
     PDict d \<Rightarrow> (case dict_get d k of Some x \<Rightarrow> Inr x | None \<Rightarrow> Inl KeyError)
   | _ \<Rightarrow> Inl TypeError)"

definition py_uuid :: "pyval \<Rightarrow> uuid result" where
  "py_uuid v = (case v of PStr x \<Rightarrow> uuid_of_str x | PNone \<Rightarrow> Inl TypeError | _ \<Rightarrow> Inl AttributeError)"

definition parse_dt :: "turn_text \<Rightarrow> pyval \<Rightarrow> int option result" where
  "parse_dt js v = (if \<not> py_truthy v then Inr None
     else case v of PStr x \<Rightarrow> bind_r (js_from_iso js x) (\<lambda>t. Inr (Some t)) | _ \<Rightarrow> Inl TypeError)"

definition read_turn :: "turn_text \<Rightarrow> string \<Rightarrow> interactive_turn result" where
  "read_turn js raw =
     bind_r (js_loads js raw) (\<lambda>p.
     bind_r (bind_r (py_item p ''turn_id'') py_uuid) (\<lambda>tid.
     bind_r (bind_r (py_item p ''session_id'') py_uuid) (\<lambda>sid.
     bind_r (bind_r (py_item p ''user_id'') py_uuid) (\<lambda>uid.
     bind_r (py_item p ''prompt'') (\<lambda>prompt.
     bind_r (bind_r (py_item p ''status'') turn_status_of) (\<lambda>st.
     bind_r (bind_r (py_item p ''turn_index'') py_int_of) (\<lambda>idx.
     bind_r (bind_r (pv_get p ''last_heartbeat_at'' PNone) (parse_dt js)) (\<lambda>hb.
     bind_r (pv_get p ''error_detail'' PNone) (\<lambda>err.
     bind_r (pv_get p ''runner_id'' PNone) (\<lambda>runner.
     Inr \<lparr>turn_id = tid, turn_session = sid, turn_user = uid, turn_prompt = prompt, turn_status = st,
       turn_index = idx, last_heartbeat_at = hb, error_detail = err, runner_id = runner\<rparr>))))))))))"

definition load_turn :: "turn_text \<Rightarrow> string option \<Rightarrow> interactive_turn option result" where
  "load_turn js raw = (case raw of None \<Rightarrow> Inr None
     | Some x \<Rightarrow> (case read_turn js x of
          Inr t \<Rightarrow> Inr (Some t)
        | Inl e \<Rightarrow> if e \<in> {KeyError, TypeError, ValueError} then Inr None else Inl e))"

section \<open>Operations\<close>

definition get_turn :: "('s, string) cache_backend \<Rightarrow> turn_text \<Rightarrow> int \<Rightarrow> uuid \<Rightarrow> 's \<Rightarrow> interactive_turn option result" where
  "get_turn cache js now tid s = load_turn js (cb_get cache now (turn_key tid) s)"

definition create_interactive_turn ::
  "('s, string) cache_backend \<Rightarrow> turn_text \<Rightarrow> int \<Rightarrow> uuid \<Rightarrow> uuid \<Rightarrow> uuid \<Rightarrow> string \<Rightarrow> string \<Rightarrow> int \<Rightarrow> 's
    \<Rightarrow> interactive_turn \<times> 's" where
  "create_interactive_turn cache js now new_id session_id user_id client_request_id prompt index s =
    (let turn = \<lparr>turn_id = new_id, turn_session = session_id, turn_user = user_id, turn_prompt = PStr prompt,
           turn_status = QUEUED, turn_index = index, last_heartbeat_at = Some now, error_detail = PNone,
           runner_id = PNone\<rparr>;
         s1 = save_turn cache js now turn active_turn_ttl_seconds s;
         s2 = cb_set cache now (active_turn_key session_id) (uuid_str new_id) (Some active_turn_ttl_seconds) s1;
         s3 = cb_set cache now (request_key session_id user_id client_request_id) (uuid_str new_id)
                (Some request_id_ttl_seconds) s2
     in (turn, s3))"

definition get_turn_for_request ::
  "('s, string) cache_backend \<Rightarrow> turn_text \<Rightarrow> int \<Rightarrow> uuid \<Rightarrow> uuid \<Rightarrow> string \<Rightarrow> 's \<Rightarrow> interactive_turn option result" where
  "get_turn_for_request cache js now session_id user_id client_request_id s =
    (case cb_get cache now (request_key session_id user_id client_request_id) s of
       None \<Rightarrow> Inr None
     | Some raw \<Rightarrow> (case uuid_of_str raw of
          Inl e \<Rightarrow> Inr None
        | Inr tid \<Rightarrow> bind_r (get_turn cache js now tid s) (\<lambda>turn. case turn of
            None \<Rightarrow> Inr None
          | Some t \<Rightarrow> Inr (if turn_session t \<noteq> session_id \<or> turn_user t \<noteq> user_id then None else Some t))))"

definition get_active_turn ::
  "('s, string) cache_backend \<Rightarrow> turn_text \<Rightarrow> int \<Rightarrow> uuid \<Rightarrow> uuid \<Rightarrow> 's \<Rightarrow> (interactive_turn option \<times> 's) result" where
  "get_active_turn cache js now session_id user_id s =
    (let dropped = cb_delete cache (active_turn_key session_id) s in
     case cb_get cache now (active_turn_key session_id) s of
       None \<Rightarrow> Inr (None, s)
     | Some raw \<Rightarrow> (case uuid_of_str raw of
          Inl e \<Rightarrow> Inr (None, dropped)
        | Inr tid \<Rightarrow> bind_r (get_turn cache js now tid s) (\<lambda>turn. case turn of
            None \<Rightarrow> Inr (None, dropped)
          | Some t \<Rightarrow>
              if turn_session t \<noteq> session_id \<or> turn_user t \<noteq> user_id then Inr (None, dropped)
              else if \<not> is_active t then Inr (None, dropped) else Inr (Some t, s))))"

definition runner_is_stale :: "int \<Rightarrow> int \<Rightarrow> interactive_turn \<Rightarrow> bool" where
  "runner_is_stale now stale_after_seconds t = (case last_heartbeat_at t of
     None \<Rightarrow> True
   | Some heartbeat \<Rightarrow> stale_after_seconds * second \<le> now - heartbeat)"

text \<open>\<open>acquire_active_turn_lock\<close> is \<open>got\<close>: the lock of the session is acquired or the wait timed out.\<close>

definition claim_turn_for_runner ::
  "('s, string) cache_backend \<Rightarrow> turn_text \<Rightarrow> int \<Rightarrow> uuid \<Rightarrow> uuid \<Rightarrow> int \<Rightarrow> int \<times> 's \<Rightarrow> bool \<Rightarrow> 's
    \<Rightarrow> (interactive_turn option \<times> 's) result" where
  "claim_turn_for_runner cache js now new_runner tid stale_after look got s =
     bind_r (get_turn cache js (fst look) tid (snd look)) (\<lambda>first.
     if first = None \<or> \<not> is_active (the first) \<or> \<not> got then Inr (None, s)
     else bind_r (get_turn cache js now tid s) (\<lambda>found. case found of
         None \<Rightarrow> Inr (None, s)
       | Some turn \<Rightarrow>
          if \<not> is_active turn then Inr (None, s)
          else if turn_status turn = RUNNING \<and> \<not> runner_is_stale now stale_after turn then Inr (None, s)
          else let turn' = turn\<lparr>turn_status := RUNNING, last_heartbeat_at := Some now,
                     runner_id := PStr (uuid_str new_runner), error_detail := PNone\<rparr>;
                   s1 = save_turn cache js now turn' active_turn_ttl_seconds s
               in Inr (Some turn', cb_set cache now (active_turn_key (turn_session turn'))
                    (uuid_str (turn_id turn')) (Some active_turn_ttl_seconds) s1)))"

definition touch_turn ::
  "('s, string) cache_backend \<Rightarrow> turn_text \<Rightarrow> int \<Rightarrow> uuid \<Rightarrow> string option \<Rightarrow> int \<times> 's \<Rightarrow> bool \<Rightarrow> 's
    \<Rightarrow> (bool \<times> 's) result" where
  "touch_turn cache js now tid runner look got s =
     bind_r (get_turn cache js (fst look) tid (snd look)) (\<lambda>first.
     if first = None \<or> \<not> is_active (the first) \<or> \<not> got then Inr (False, s)
     else bind_r (get_turn cache js now tid s) (\<lambda>found. case found of
         None \<Rightarrow> Inr (False, s)
       | Some turn \<Rightarrow>
          if \<not> is_active turn then Inr (False, s)
          else if runner \<noteq> None \<and> runner_id turn \<noteq> PStr (the runner) then Inr (False, s)
          else let turn' = turn\<lparr>last_heartbeat_at := Some now\<rparr>;
                   s1 = save_turn cache js now turn' active_turn_ttl_seconds s
               in Inr (True, cb_expire cache now (active_turn_key (turn_session turn')) active_turn_ttl_seconds s1)))"

definition finish_turn ::
  "('s, string) cache_backend \<Rightarrow> turn_text \<Rightarrow> int \<Rightarrow> uuid \<Rightarrow> turn_status \<Rightarrow> string option \<Rightarrow> string option
    \<Rightarrow> int \<times> 's \<Rightarrow> bool \<Rightarrow> 's \<Rightarrow> (interactive_turn option \<times> 's) result" where
  "finish_turn cache js now tid status error runner look got s =
     bind_r (get_turn cache js (fst look) tid (snd look)) (\<lambda>first.
     if first = None \<or> \<not> got then Inr (None, s)
     else bind_r (get_turn cache js now tid s) (\<lambda>found. case found of
         None \<Rightarrow> Inr (None, s)
       | Some turn \<Rightarrow>
          if runner \<noteq> None \<and> runner_id turn \<noteq> PStr (the runner) then Inr (None, s)
          else let turn' = turn\<lparr>turn_status := status, last_heartbeat_at := Some now,
                     error_detail := (case error of None \<Rightarrow> PNone | Some e \<Rightarrow> PStr e), runner_id := PNone\<rparr>;
                   s1 = save_turn cache js now turn' request_id_ttl_seconds s;
                   s2 = (if cb_get cache now (active_turn_key (turn_session turn')) s1 = Some (uuid_str tid)
                         then cb_delete cache (active_turn_key (turn_session turn')) s1 else s1)
               in Inr (Some turn', s2)))"

section \<open>Reading back what was saved\<close>

text \<open>What the code stores: prompt, error and runner are strings or absent.\<close>

fun text_or_none :: "pyval \<Rightarrow> bool" where
  "text_or_none PNone = True"
| "text_or_none (PStr x) = True"
| "text_or_none v = False"

definition plain_turn :: "interactive_turn \<Rightarrow> bool" where
  "plain_turn t \<longleftrightarrow> text_or_none (turn_prompt t) \<and> text_or_none (error_detail t) \<and> text_or_none (runner_id t)"

definition inverse_text :: "turn_text \<Rightarrow> bool" where
  "inverse_text js \<longleftrightarrow>
     (\<forall>t. plain_turn t \<longrightarrow> js_loads js (js_dumps js (turn_payload js t)) = Inr (turn_payload js t))
     \<and> (\<forall>x. js_iso js x \<noteq> [] \<and> js_from_iso js (js_iso js x) = Inr x)"

lemma status_value_inj [simp]: "status_value a = status_value b \<longleftrightarrow> a = b"
  by (cases a; cases b) (simp_all add: status_value_def)

lemma turn_status_of_value [simp]: "turn_status_of (PStr (status_value st)) = Inr st"
  by (cases st) (simp_all add: turn_status_of_def)

lemma parse_dt_payload:
  "inverse_text js \<Longrightarrow> parse_dt js (case h of None \<Rightarrow> PNone | Some x \<Rightarrow> PStr (js_iso js x)) = Inr h"
  by (auto simp: parse_dt_def inverse_text_def split: option.split)

lemma read_saved: "inverse_text js \<Longrightarrow> plain_turn t \<Longrightarrow> read_turn js (js_dumps js (turn_payload js t)) = Inr t"
proof -
  assume js: "inverse_text js" and t: "plain_turn t"
  then have "js_loads js (js_dumps js (turn_payload js t)) = Inr (turn_payload js t)"
    by (simp add: inverse_text_def)
  then show ?thesis
    by (simp add: read_turn_def turn_payload_def py_item_def py_uuid_def py_int_of_def parse_dt_payload [OF js])
qed

section \<open>Keys do not clash\<close>

lemma turn_keys [simp]:
  "turn_key a = turn_key b \<longleftrightarrow> a = b" "active_turn_key a = active_turn_key b \<longleftrightarrow> a = b"
  "turn_key a \<noteq> active_turn_key b" "active_turn_key b \<noteq> turn_key a"
  "turn_key a \<noteq> request_key c d e" "request_key c d e \<noteq> turn_key a"
  by (simp_all add: turn_key_def active_turn_key_def request_key_def)

lemma active_request_keys [simp]:
  "active_turn_key a \<noteq> request_key c d e" "request_key c d e \<noteq> active_turn_key a"
  by (auto simp: active_turn_key_def request_key_def append_eq_append_conv)

section \<open>A claimed turn\<close>

text \<open>Key by key, the cache holds turn \<open>t\<close> until \<open>e\<close>.\<close>

definition holds_turn :: "('s, string) cache_backend \<Rightarrow> turn_text \<Rightarrow> interactive_turn \<Rightarrow> int \<Rightarrow> 's \<Rightarrow> bool" where
  "holds_turn cache js t e s \<longleftrightarrow> (\<forall>x. cb_get cache x (turn_key (turn_id t)) s
     = (if x < e then Some (js_dumps js (turn_payload js t)) else None))"

text \<open>Requests about one turn, each with the first look it takes and whether it gets the lock, and
  writes to other keys.\<close>

datatype 's turn_event =
    ClaimBy uuid "int \<times> 's" bool
  | TouchBy "string option" "int \<times> 's" bool
  | FinishBy turn_status "string option" string "int \<times> 's" bool
  | WriteOther string string "int option"

text \<open>The step a request takes, and whether it was granted.\<close>

definition turn_step ::
  "('s, string) cache_backend \<Rightarrow> turn_text \<Rightarrow> uuid \<Rightarrow> int \<times> 's turn_event \<Rightarrow> 's \<Rightarrow> 's \<times> bool" where
  "turn_step cache js tid = (\<lambda>(now, ev) s. case ev of
     ClaimBy runner look got \<Rightarrow>
       (case claim_turn_for_runner cache js now runner tid runner_stale_after_seconds look got s of
          Inr (r, s') \<Rightarrow> (s', r \<noteq> None) | Inl e \<Rightarrow> (s, False))
   | TouchBy runner look got \<Rightarrow> (case touch_turn cache js now tid runner look got s of
          Inr (r, s') \<Rightarrow> (s', r) | Inl e \<Rightarrow> (s, False))
   | FinishBy status error runner look got \<Rightarrow>
       (case finish_turn cache js now tid status error (Some runner) look got s of
          Inr (r, s') \<Rightarrow> (s', r \<noteq> None) | Inl e \<Rightarrow> (s, False))
   | WriteOther k v ex \<Rightarrow> (cb_set cache now k v ex s, False))"

text \<open>A heartbeat of the owner (or one that names no runner) that gets through.\<close>

definition owner_touch :: "('s, string) cache_backend \<Rightarrow> turn_text \<Rightarrow> uuid \<Rightarrow> string \<Rightarrow> 's turn_event \<Rightarrow> bool" where
  "owner_touch cache js tid owner ev = (case ev of
     TouchBy runner look got \<Rightarrow> (runner = None \<or> runner = Some owner) \<and> got
       \<and> (case get_turn cache js (fst look) tid (snd look) of Inr (Some t) \<Rightarrow> is_active t | _ \<Rightarrow> False)
   | _ \<Rightarrow> False)"

text \<open>No request is later than the staleness limit after the last heartbeat, none comes from the owner
  to finish the turn, and writes go to other keys.\<close>

fun paced :: "('s, string) cache_backend \<Rightarrow> turn_text \<Rightarrow> uuid \<Rightarrow> string \<Rightarrow> int \<Rightarrow> (int \<times> 's turn_event) list \<Rightarrow> bool" where
  "paced cache js tid owner h [] \<longleftrightarrow> True"
| "paced cache js tid owner h ((now, ev) # evs) \<longleftrightarrow>
     h \<le> now \<and> now < h + runner_stale_after_seconds * second
     \<and> (case ev of FinishBy _ _ runner _ _ \<Rightarrow> runner \<noteq> owner | WriteOther k _ _ \<Rightarrow> k \<noteq> turn_key tid | _ \<Rightarrow> True)
     \<and> paced cache js tid owner (if owner_touch cache js tid owner ev then now else h) evs"

context text_cache
begin

lemma get_turn_held:
  "holds_turn cache js t e s \<Longrightarrow> inverse_text js \<Longrightarrow> plain_turn t \<Longrightarrow> now < e
    \<Longrightarrow> get_turn cache js now (turn_id t) s = Inr (Some t)"
  by (simp add: holds_turn_def get_turn_def load_turn_def read_saved)

lemma holds_save: "holds_turn cache js t (now + ex * second) (save_turn cache js now t ex s)"
  by (auto simp: holds_turn_def save_turn_def)

lemma holds_other: "k \<noteq> turn_key (turn_id t) \<Longrightarrow> holds_turn cache js t e s
    \<Longrightarrow> holds_turn cache js t e (cb_set cache now k v ex s)"
  by (simp add: holds_turn_def get_set)

lemma holds_expire_other: "k \<noteq> turn_key (turn_id t) \<Longrightarrow> holds_turn cache js t e s
    \<Longrightarrow> holds_turn cache js t e (cb_expire cache now k d s)"
  by (simp add: holds_turn_def get_expire_other)

lemma claim_result:
  assumes "claim_turn_for_runner cache js now runner tid stale look got s = Inr (Some t, s')"
    and "\<And>found. get_turn cache js now tid s = Inr (Some found) \<Longrightarrow> plain_turn found \<and> turn_id found = tid"
  shows "holds_turn cache js t (now + active_turn_ttl_seconds * second) s' \<and> turn_id t = tid \<and> plain_turn t
    \<and> turn_status t = RUNNING \<and> last_heartbeat_at t = Some now \<and> runner_id t = PStr (uuid_str runner)"
proof -
  obtain found where f: "get_turn cache js now tid s = Inr (Some found)"
    and t: "t = found\<lparr>turn_status := RUNNING, last_heartbeat_at := Some now,
         runner_id := PStr (uuid_str runner), error_detail := PNone\<rparr>"
    and s': "s' = cb_set cache now (active_turn_key (turn_session t)) (uuid_str (turn_id t))
        (Some active_turn_ttl_seconds) (save_turn cache js now t active_turn_ttl_seconds s)"
    using assms(1) by (auto simp: claim_turn_for_runner_def bind_r_Inr_iff Let_def split: option.splits if_splits)
  have "holds_turn cache js t (now + active_turn_ttl_seconds * second) s'"
    unfolding s' by (intro holds_other holds_save) simp
  with assms(2) [OF f] show ?thesis by (simp add: t plain_turn_def)
qed

lemma claim_refused:
  assumes "holds_turn cache js t e s" and "inverse_text js" and "plain_turn t" and "now < e"
    and "turn_status t = RUNNING" and "\<not> runner_is_stale now stale t"
  shows "claim_turn_for_runner cache js now runner (turn_id t) stale look got s \<in> {Inr (None, s)} \<union> range Inl"
proof (cases "get_turn cache js (fst look) (turn_id t) (snd look)")
  case (Inr first)
  with get_turn_held [OF assms(1-4)] assms(5,6) show ?thesis
    by (auto simp: claim_turn_for_runner_def is_active_def active_turn_statuses_def)
qed (simp add: claim_turn_for_runner_def)

lemma finish_refused:
  assumes "holds_turn cache js t e s" and "inverse_text js" and "plain_turn t" and "now < e"
    and "runner_id t \<noteq> PStr runner"
  shows "finish_turn cache js now (turn_id t) status error (Some runner) look got s \<in> {Inr (None, s)} \<union> range Inl"
proof (cases "get_turn cache js (fst look) (turn_id t) (snd look)")
  case (Inr first)
  with get_turn_held [OF assms(1-4)] assms(5) show ?thesis by (auto simp: finish_turn_def)
qed (simp add: finish_turn_def)

lemma touch_held:
  assumes "holds_turn cache js t e s" and "inverse_text js" and "plain_turn t" and "now < e"
    and "turn_status t = RUNNING" and "runner_id t = PStr owner"
  shows "if owner_touch cache js (turn_id t) owner (TouchBy runner look got)
    then \<exists>s'. touch_turn cache js now (turn_id t) runner look got s = Inr (True, s')
      \<and> holds_turn cache js (t\<lparr>last_heartbeat_at := Some now\<rparr>) (now + active_turn_ttl_seconds * second) s'
    else touch_turn cache js now (turn_id t) runner look got s \<in> {Inr (False, s)} \<union> range Inl"
proof (cases "get_turn cache js (fst look) (turn_id t) (snd look)")
  case (Inr first)
  let ?t = "t\<lparr>last_heartbeat_at := Some now\<rparr>"
  have "holds_turn cache js ?t (now + active_turn_ttl_seconds * second)
      (cb_expire cache now (active_turn_key (turn_session ?t)) active_turn_ttl_seconds
        (save_turn cache js now ?t active_turn_ttl_seconds s))"
    by (intro holds_expire_other holds_save) simp
  with Inr get_turn_held [OF assms(1-4)] assms(5,6) show ?thesis
    by (auto simp: touch_turn_def owner_touch_def is_active_def active_turn_statuses_def Let_def
        split: option.splits)
qed (simp add: touch_turn_def owner_touch_def)

end

context text_cache
begin

lemma exclusive_run:
  assumes "inverse_text js" and "holds_turn cache js t (h + active_turn_ttl_seconds * second) s" and "plain_turn t"
    and "turn_status t = RUNNING" and "last_heartbeat_at t = Some h" and "runner_id t = PStr owner"
    and "paced cache js (turn_id t) owner h evs"
  shows "run_steps (turn_step cache js (turn_id t)) evs s = map (owner_touch cache js (turn_id t) owner \<circ> snd) evs"
  using assms(2-)
proof (induction evs arbitrary: t h s)
  case (Cons p evs)
  obtain now ev where p: "p = (now, ev)" by (cases p)
  let ?ok = "owner_touch cache js (turn_id t) owner ev"
  let ?t = "if ?ok then t\<lparr>last_heartbeat_at := Some now\<rparr> else t" and ?h = "if ?ok then now else h"
  have now: "h \<le> now" "now < h + runner_stale_after_seconds * second"
    and live: "now < h + active_turn_ttl_seconds * second"
    using Cons.prems(6) p by (auto simp: runner_stale_after_seconds_def active_turn_ttl_seconds_def second_def)
  have fresh: "\<not> runner_is_stale now runner_stale_after_seconds t"
    using now Cons.prems(4) by (simp add: runner_is_stale_def)
  have "\<exists>s'. turn_step cache js (turn_id t) (now, ev) s = (s', ?ok)
      \<and> holds_turn cache js ?t (?h + active_turn_ttl_seconds * second) s'"
  proof (cases ev)
    case (ClaimBy runner look got)
    with claim_refused [OF Cons.prems(1) assms(1) Cons.prems(2) live Cons.prems(3) fresh, of runner look got] Cons.prems(1)
    show ?thesis by (auto simp: turn_step_def owner_touch_def)
  next
    case (TouchBy runner look got)
    with touch_held [OF Cons.prems(1) assms(1) Cons.prems(2) live Cons.prems(3,5), of runner look got] Cons.prems(1)
    show ?thesis by (cases ?ok) (auto simp: turn_step_def)
  next
    case (FinishBy status error runner look got)
    with Cons.prems(5,6) p have "runner_id t \<noteq> PStr runner" by auto
    with finish_refused [OF Cons.prems(1) assms(1) Cons.prems(2) live, of runner status error look got] FinishBy Cons.prems(1)
    show ?thesis by (auto simp: turn_step_def owner_touch_def)
  next
    case (WriteOther k v ex)
    with Cons.prems(6) p holds_other [OF _ Cons.prems(1)] show ?thesis
      by (simp add: turn_step_def owner_touch_def)
  qed
  then obtain s' where st: "turn_step cache js (turn_id t) (now, ev) s = (s', ?ok)"
    and held: "holds_turn cache js ?t (?h + active_turn_ttl_seconds * second) s'" by blast
  have tid: "turn_id ?t = turn_id t" by simp
  have "run_steps (turn_step cache js (turn_id ?t)) evs s' = map (owner_touch cache js (turn_id ?t) owner \<circ> snd) evs"
    using held Cons.prems p by (intro Cons.IH [of ?t ?h]) (auto simp: plain_turn_def)
  with st p show ?case unfolding tid by simp
qed simp

lemma created_turn_found:
  assumes "inverse_text js" and "create_interactive_turn cache js now new_id sid uid req prompt index s = (t, s')"
    and "now \<le> x" and "x < now + active_turn_ttl_seconds * second"
  shows "get_turn_for_request cache js x sid uid req s' = Inr (Some t)"
    and "get_active_turn cache js x sid uid s' = Inr (Some t, s')"
    and "plain_turn t" and "holds_turn cache js t (now + active_turn_ttl_seconds * second) s'"
proof -
  have t: "t = \<lparr>turn_id = new_id, turn_session = sid, turn_user = uid, turn_prompt = PStr prompt,
      turn_status = QUEUED, turn_index = index, last_heartbeat_at = Some now, error_detail = PNone, runner_id = PNone\<rparr>"
    and s': "s' = cb_set cache now (request_key sid uid req) (uuid_str new_id) (Some request_id_ttl_seconds)
      (cb_set cache now (active_turn_key sid) (uuid_str new_id) (Some active_turn_ttl_seconds)
        (save_turn cache js now t active_turn_ttl_seconds s))"
    using assms(2) by (auto simp: create_interactive_turn_def Let_def)
  have x: "x < now + request_id_ttl_seconds * second"
    using assms(4) by (simp add: request_id_ttl_seconds_def active_turn_ttl_seconds_def second_def)
  show plain: "plain_turn t" by (simp add: t plain_turn_def)
  show held: "holds_turn cache js t (now + active_turn_ttl_seconds * second) s'"
    unfolding s' by (intro holds_other holds_save) simp_all
  have get: "get_turn cache js x new_id s' = Inr (Some t)"
    using get_turn_held [OF held assms(1) plain assms(4)] t by simp
  have "cb_get cache x (request_key sid uid req) s' = Some (uuid_str new_id)"
    "cb_get cache x (active_turn_key sid) s' = Some (uuid_str new_id)"
    using assms(4) x by (simp_all add: s')
  with get show "get_turn_for_request cache js x sid uid req s' = Inr (Some t)"
    "get_active_turn cache js x sid uid s' = Inr (Some t, s')"
    by (simp_all add: get_turn_for_request_def get_active_turn_def t is_active_def active_turn_statuses_def)
qed

lemma finished_turn_unclaimable:
  assumes "inverse_text js" and "holds_turn cache js t e s" and "plain_turn t" and "now < e"
    and "finish_turn cache js now (turn_id t) status error runner look True s = Inr (Some t', s')"
    and "status \<notin> active_turn_statuses" and "now \<le> x"
  shows "claim_turn_for_runner cache js x new_runner (turn_id t) stale look' got s' \<in> {Inr (None, s')} \<union> range Inl"
    and "turn_status t' = status"
proof -
  have t': "t' = t\<lparr>turn_status := status, last_heartbeat_at := Some now,
      error_detail := (case error of None \<Rightarrow> PNone | Some e \<Rightarrow> PStr e), runner_id := PNone\<rparr>"
    and s': "s' = (let s1 = save_turn cache js now t' request_id_ttl_seconds s in
        if cb_get cache now (active_turn_key (turn_session t')) s1 = Some (uuid_str (turn_id t))
        then cb_delete cache (active_turn_key (turn_session t')) s1 else s1)"
    using assms(5) get_turn_held [OF assms(2,1,3,4)]
    by (auto simp: finish_turn_def bind_r_Inr_iff Let_def split: if_splits)
  have plain: "plain_turn t'" using assms(3) by (simp add: t' plain_turn_def split: option.split)
  have held: "holds_turn cache js t' (now + request_id_ttl_seconds * second) s'"
    using holds_save [of js t' now request_id_ttl_seconds s]
    by (auto simp: s' holds_turn_def get_delete Let_def)
  have "get_turn cache js x (turn_id t) s' \<in> {Inr None, Inr (Some t')}"
  proof (cases "x < now + request_id_ttl_seconds * second")
    case True
    with get_turn_held [OF held assms(1) plain] show ?thesis by (simp add: t')
  next
    case False
    then have "cb_get cache x (turn_key (turn_id t)) s' = None"
      using held by (simp add: holds_turn_def t')
    then show ?thesis by (simp add: get_turn_def load_turn_def)
  qed
  with assms(6) show "claim_turn_for_runner cache js x new_runner (turn_id t) stale look' got s' \<in> {Inr (None, s')} \<union> range Inl"
    by (cases "get_turn cache js (fst look') (turn_id t) (snd look')")
      (auto simp: claim_turn_for_runner_def is_active_def t')
  show "turn_status t' = status" by (simp add: t')
qed

end

section \<open>A concrete text form, for the examples\<close>

definition hexify :: "string \<Rightarrow> string" where
  "hexify s = concat (map (\<lambda>c. [hex_char (of_char c div 16), hex_char (of_char c mod 16)]) s)"

fun unhexify :: "string \<Rightarrow> string" where
  "unhexify (a # b # s) = char_of (16 * the (hex_value a) + the (hex_value b)) # unhexify s"
| "unhexify _ = []"

fun text_field :: "pyval \<Rightarrow> string" where
  "text_field (PInt i) = CHR ''i'' # int_str i"
| "text_field (PStr x) = CHR ''s'' # hexify x"
| "text_field _ = ''n''"

definition field_value :: "string \<Rightarrow> pyval" where
  "field_value f = (case f of c # x \<Rightarrow>
       if c = CHR ''i'' then PInt (case py_int x of Inr i \<Rightarrow> i | Inl e \<Rightarrow> 0)
       else if c = CHR ''s'' then PStr (unhexify x) else PNone
     | [] \<Rightarrow> PNone)"

definition turn_fields :: "string list" where
  "turn_fields = [''turn_id'', ''session_id'', ''user_id'', ''prompt'', ''status'', ''turn_index'',
     ''last_heartbeat_at'', ''error_detail'', ''runner_id'']"

definition example_text :: turn_text where
  "example_text = \<lparr>
     js_dumps = (\<lambda>v. case v of PDict d \<Rightarrow> join ''|'' (map (text_field \<circ> snd) d) | _ \<Rightarrow> []),
     js_loads = (\<lambda>x. Inr (PDict (zip turn_fields (map field_value (split_on (CHR ''|'') x))))),
     js_iso = int_str, js_from_iso = py_int\<rparr>"

lemma example_dumps: "js_dumps example_text (PDict d) = join ''|'' (map (text_field \<circ> snd) d)"
  by (simp add: example_text_def)

lemma example_loads: "js_loads example_text x = Inr (PDict (zip turn_fields (map field_value (split_on (CHR ''|'') x))))"
  by (simp add: example_text_def)

lemma high_nibble: "(of_char c :: nat) div 16 < 16"
  by (rule less_mult_imp_div_less) simp

lemma unhexify_hexify: "unhexify (hexify s) = s"
proof (induction s)
  case (Cons c s)
  with high_nibble [of c] show ?case by (simp add: hexify_def hex_value_hex_char)
qed (simp add: hexify_def)

lemma field_value_inverse: "text_or_none v \<Longrightarrow> field_value (text_field v) = v"
  "field_value (text_field (PInt i)) = PInt i"
  by (cases v) (simp_all add: field_value_def unhexify_hexify)

lemma no_bar: "CHR ''|'' \<notin> set (text_field v)"
proof -
  have hex: "hex_char n \<noteq> CHR ''|''" if "n < 16" for n
    using hex_char_range [OF that] by auto
  have "CHR ''|'' \<notin> set (hexify x)" for x
  proof
    assume "CHR ''|'' \<in> set (hexify x)"
    then obtain c :: char where "CHR ''|'' = hex_char (of_char c div 16) \<or> CHR ''|'' = hex_char (of_char c mod 16)"
      by (auto simp: hexify_def)
    with hex [OF high_nibble [of c]] hex [of "of_char c mod 16"] show False by auto
  qed
  moreover have "CHR ''|'' \<notin> set (int_str i)" for i
    using nat_str_chars [of "CHR ''|''"] by (auto simp: int_str_def)
  ultimately show ?thesis by (cases v) auto
qed

lemma split_join: "ws \<noteq> [] \<Longrightarrow> (\<forall>w \<in> set ws. sep \<notin> set w) \<Longrightarrow> split_on sep (join [sep] ws) = ws"
  by (induction "[sep]" ws rule: join.induct) (simp_all add: split_on_append_sep split_on_id)

lemma example_text_inverse: "inverse_text example_text"
proof -
  have "int_str x \<noteq> []" for x by (simp add: int_str_def)
  moreover have "js_loads example_text (js_dumps example_text (turn_payload example_text t))
      = Inr (turn_payload example_text t)" if "plain_turn t" for t
  proof -
    let ?h = "case last_heartbeat_at t of None \<Rightarrow> PNone | Some x \<Rightarrow> PStr (js_iso example_text x)"
    let ?vs = "[PStr (uuid_str (turn_id t)), PStr (uuid_str (turn_session t)), PStr (uuid_str (turn_user t)),
        turn_prompt t, PStr (status_value (turn_status t)), PInt (turn_index t), ?h, error_detail t, runner_id t]"
    have "js_dumps example_text (turn_payload example_text t) = join ''|'' (map text_field ?vs)"
      by (simp add: example_dumps turn_payload_def)
    moreover have "split_on (CHR ''|'') (join ''|'' (map text_field ?vs)) = map text_field ?vs"
      by (rule split_join, simp, unfold set_map) (use no_bar in blast)
    moreover have "map (field_value \<circ> text_field) ?vs = ?vs"
      using that by (auto simp: plain_turn_def field_value_inverse simp del: text_field.simps split: option.split)
    ultimately have "js_loads example_text (js_dumps example_text (turn_payload example_text t))
        = Inr (PDict (zip turn_fields ?vs))" by (simp only: example_loads map_map)
    also have "zip turn_fields ?vs = [(''turn_id'', PStr (uuid_str (turn_id t))),
        (''session_id'', PStr (uuid_str (turn_session t))), (''user_id'', PStr (uuid_str (turn_user t))),
        (''prompt'', turn_prompt t), (''status'', PStr (status_value (turn_status t))),
        (''turn_index'', PInt (turn_index t)), (''last_heartbeat_at'', ?h),
        (''error_detail'', error_detail t), (''runner_id'', runner_id t)]"
      by (simp add: turn_fields_def)
    finally show ?thesis by (simp only: turn_payload_def)
  qed
  ultimately show ?thesis by (simp add: inverse_text_def example_text_def)
qed

section \<open>Turns in the Postgres cache\<close>


definition example_new_turn :: "interactive_turn \<times> string cache_table" where
  "example_new_turn = create_interactive_turn postgres_backend example_text 0 1 2 3 ''req'' ''hello'' 4 []"

definition example_turn_events :: "(int \<times> string cache_table turn_event) list" where
  "example_turn_events = (let look = (0, snd example_new_turn) in
     [(10 * second, ClaimBy 6 look True), (60 * second, TouchBy (Some (uuid_str 5)) look True),
      (120 * second, TouchBy (Some (uuid_str 6)) look True), (130 * second, ClaimBy 6 look True),
      (140 * second, FinishBy FAILED None (uuid_str 6) look True)])"

lemma example_first_look: "get_turn postgres_backend example_text 0 1 (snd example_new_turn) = Inr (Some (fst example_new_turn))"
  and example_held: "holds_turn postgres_backend example_text (fst example_new_turn) (active_turn_ttl_seconds * second) (snd example_new_turn)"
  and example_plain: "plain_turn (fst example_new_turn)"
proof -
  have c: "create_interactive_turn postgres_backend example_text 0 1 2 3 ''req'' ''hello'' 4 []
      = (fst example_new_turn, snd example_new_turn)" by (simp add: example_new_turn_def)
  note f = text_pg.created_turn_found [OF example_text_inverse c, of 0]
  show held: "holds_turn postgres_backend example_text (fst example_new_turn) (active_turn_ttl_seconds * second) (snd example_new_turn)"
    and plain: "plain_turn (fst example_new_turn)"
    using f by (simp_all add: active_turn_ttl_seconds_def second_def)
  have "turn_id (fst example_new_turn) = 1" by (simp add: example_new_turn_def create_interactive_turn_def Let_def)
  with text_pg.get_turn_held [OF held example_text_inverse plain, of 0]
  show "get_turn postgres_backend example_text 0 1 (snd example_new_turn) = Inr (Some (fst example_new_turn))"
    by (simp add: active_turn_ttl_seconds_def second_def)
qed


text \<open>C31: A client that repeats its request finds the turn its first request created, the session's active
  turn is that turn, and once the turn is finished nobody can claim it again.\<close>

theorem turn_lifecycle:
  assumes "inverse_text js"
    and "create_interactive_turn postgres_backend js now new_id sid uid req prompt index s = (t, s1)"
    and "now \<le> x" and "x < now + active_turn_ttl_seconds * second"
    and "finish_turn postgres_backend js x new_id status error runner look True s1 = Inr (Some t', s2)"
    and "status \<notin> active_turn_statuses" and "x \<le> y"
  shows "get_turn_for_request postgres_backend js x sid uid req s1 = Inr (Some t)
    \<and> get_active_turn postgres_backend js x sid uid s1 = Inr (Some t, s1)
    \<and> turn_status t' = status
    \<and> (\<forall>r. claim_turn_for_runner postgres_backend js y new_runner new_id stale look' got s2 = Inr r \<longrightarrow> r = (None, s2))"
proof -
  note f = text_pg.created_turn_found [OF assms(1-4)]
  have tid: "turn_id t = new_id" using assms(2) by (auto simp: create_interactive_turn_def Let_def)
  have fin: "finish_turn postgres_backend js x (turn_id t) status error runner look True s1 = Inr (Some t', s2)"
    using assms(5) tid by simp
  note d = text_pg.finished_turn_unclaimable [OF assms(1) f(4,3) assms(4) fin assms(6,7)]
  have "claim_turn_for_runner postgres_backend js y new_runner new_id stale look' got s2 \<in> {Inr (None, s2)} \<union> range Inl"
    using d(1) tid by simp
  with f(1,2) d(2) show ?thesis by auto
qed

lemma turn_lifecycle_witness:
  "get_turn_for_request postgres_backend example_text 0 2 3 ''req'' (snd example_new_turn) = Inr (Some (fst example_new_turn))"
proof -
  have c: "create_interactive_turn postgres_backend example_text 0 1 2 3 ''req'' ''hello'' 4 []
      = (fst example_new_turn, snd example_new_turn)" by (simp add: example_new_turn_def)
  obtain t' s2 where f: "finish_turn postgres_backend example_text 0 1 SUCCEEDED None None
      (0, snd example_new_turn) True (snd example_new_turn) = Inr (Some t', s2)"
    by (simp add: finish_turn_def example_first_look Let_def)
  from turn_lifecycle [OF example_text_inverse c _ _ f, of 0] show ?thesis
    by (simp add: active_turn_ttl_seconds_def second_def active_turn_statuses_def)
qed

end
