(* ===== verification/UrlPatterns.thy ===== *)
theory UrlPatterns
  imports PyValue
begin

text \<open>
  URL patterns of external apps (\<open>onyx/external_apps/url_glob.py\<close>): an administrator's glob is
  validated, stored, and matched as a regular expression against the URL of an outbound request.
  Of Python's regular expressions the program's patterns use literals, escapes, the dot and
  dot-star; \<open>re_fullmatch\<close> interprets those and leaves any other pattern to an argument.
\<close>

section \<open>Regular expressions\<close>

definition backslash :: char where "backslash = CHR 0x5C"
definition newline :: char where "newline = CHR 0x0A"

datatype re_item = Lit char | AnyChar | AnyChars

definition re_quantifiers :: "char list" where
  "re_quantifiers = ''*+?{''"

definition re_meta :: "char list" where
  "re_meta = backslash # ''.^$*+?{}[]|()''"

definition is_alnum :: "char \<Rightarrow> bool" where
  "is_alnum c = (let n = (of_char c :: nat) in
     (48 \<le> n \<and> n \<le> 57) \<or> (65 \<le> n \<and> n \<le> 90) \<or> (97 \<le> n \<and> n \<le> 122))"

definition quantified :: "string \<Rightarrow> bool" where
  "quantified s = (case s of [] \<Rightarrow> False | c # _ \<Rightarrow> c \<in> set re_quantifiers)"

definition re_more :: "re_item \<Rightarrow> re_item list option \<Rightarrow> re_item list option" where
  "re_more x r = map_option ((#) x) r"

fun re_items :: "string \<Rightarrow> re_item list option" where
  "re_items [] = Some []"
| "re_items [c] = (if c = CHR ''.'' then Some [AnyChar] else if c \<in> set re_meta then None else Some [Lit c])"
| "re_items (c # d # s) =
     (if c = backslash then (if is_alnum d \<or> quantified s then None else re_more (Lit d) (re_items s))
      else if c = CHR ''.'' \<and> d = CHR ''*'' then (if quantified s then None else re_more AnyChars (re_items s))
      else if d \<in> set re_quantifiers then None
      else if c = CHR ''.'' then re_more AnyChar (re_items (d # s))
      else if c \<in> set re_meta then None
      else re_more (Lit c) (re_items (d # s)))"

fun re_match :: "re_item list \<Rightarrow> string \<Rightarrow> bool" where
  "re_match [] s \<longleftrightarrow> s = []"
| "re_match (Lit c # r) [] \<longleftrightarrow> False"
| "re_match (Lit c # r) (x # s) \<longleftrightarrow> x = c \<and> re_match r s"
| "re_match (AnyChar # r) [] \<longleftrightarrow> False"
| "re_match (AnyChar # r) (x # s) \<longleftrightarrow> x \<noteq> newline \<and> re_match r s"
| "re_match (AnyChars # r) [] \<longleftrightarrow> re_match r []"
| "re_match (AnyChars # r) (x # s) \<longleftrightarrow> re_match r (x # s) \<or> (x \<noteq> newline \<and> re_match (AnyChars # r) s)"

text \<open>\<open>None\<close> is a pattern \<open>re\<close> refuses.\<close>

definition re_fullmatch :: "(string \<Rightarrow> string \<Rightarrow> bool option) \<Rightarrow> string \<Rightarrow> string \<Rightarrow> bool option" where
  "re_fullmatch other_re pattern s = (case re_items pattern of
     Some r \<Rightarrow> Some (re_match r s)
   | None \<Rightarrow> other_re pattern s)"

definition re_special :: "char list" where
  "re_special = backslash # ''()[]{}?*+-|^$.&~# '' @ [CHR 0x09, CHR 0x0A, CHR 0x0D, CHR 0x0B, CHR 0x0C]"

definition re_escape :: "string \<Rightarrow> string" where
  "re_escape s = concat (map (\<lambda>c. if c \<in> set re_special then [backslash, c] else [c]) s)"

section \<open>Globs\<close>

definition to_regex :: "string \<Rightarrow> string" where
  "to_regex glob = join ''.*'' (map re_escape (split_on (CHR ''*'') glob))"

text \<open>Where the match of \<open>_SCHEME_RE\<close> ends.\<close>

definition scheme_end :: "string \<Rightarrow> nat option" where
  "scheme_end s = (if lower (take 7 s) = ''http://'' then Some 7
     else if lower (take 8 s) = ''https://'' then Some 8 else None)"

definition url_host :: "nat \<Rightarrow> string \<Rightarrow> string" where
  "url_host n s = takeWhile (\<lambda>c. c \<noteq> CHR ''/'') (drop n s)"

definition validate_glob :: "string \<Rightarrow> unit result" where
  "validate_glob glob =
    (let stripped = strip glob in
     if stripped = [] then Inl (OnyxError INVALID_INPUT)
     else (case scheme_end stripped of
         None \<Rightarrow> Inl (OnyxError INVALID_INPUT)
       | Some n \<Rightarrow>
          (let host = url_host n stripped in
           if host = [] then Inl (OnyxError INVALID_INPUT)
           else if CHR ''*'' \<in> set host then Inl (OnyxError INVALID_INPUT)
           else Inr ())))"

definition parse_glob :: "string \<Rightarrow> string result" where
  "parse_glob v = (let v' = strip v in bind_r (validate_glob v') (\<lambda>_. Inr v'))"

section \<open>What a glob matches\<close>

text \<open>The wildcard stands for any text within a line, everything else for itself.\<close>

fun glob_items :: "string \<Rightarrow> re_item list" where
  "glob_items [] = []"
| "glob_items (c # s) = (if c = CHR ''*'' then AnyChars else Lit c) # glob_items s"

lemma quantified_escape:
  "\<not> quantified t \<Longrightarrow> \<not> quantified (re_escape s @ t)"
  by (cases s) (auto simp: quantified_def re_escape_def re_special_def re_quantifiers_def backslash_def)

lemma special_meta: "c \<in> set re_meta \<Longrightarrow> c \<in> set re_special"
  by (auto simp: re_meta_def re_special_def)

lemma quantifier_meta: "c \<in> set re_quantifiers \<Longrightarrow> c \<in> set re_meta"
  by (auto simp: re_quantifiers_def re_meta_def)

lemma special_not_alnum: "c \<in> set re_special \<Longrightarrow> \<not> is_alnum c"
  by (auto simp: re_special_def is_alnum_def backslash_def)

lemma re_items_plain:
  "c \<notin> set re_meta \<Longrightarrow> \<not> quantified t \<Longrightarrow> re_items (c # t) = re_more (Lit c) (re_items t)"
  by (cases t) (auto simp: re_more_def quantified_def re_meta_def backslash_def)

lemma re_items_escape:
  "\<not> quantified t \<Longrightarrow> re_items (re_escape s @ t) = map_option ((@) (map Lit s)) (re_items t)"
proof (induction s)
  case Nil
  then show ?case by (cases "re_items t") (auto simp: re_escape_def)
next
  case (Cons c s)
  have nq: "\<not> quantified (re_escape s @ t)" using Cons.prems by (rule quantified_escape)
  have step: "re_items (re_escape (c # s) @ t) = re_more (Lit c) (re_items (re_escape s @ t))"
  proof (cases "c \<in> set re_special")
    case True
    then have e: "re_escape (c # s) @ t = backslash # c # re_escape s @ t"
      by (simp add: re_escape_def)
    show ?thesis unfolding e using special_not_alnum [OF True] nq by simp
  next
    case False
    then have e: "re_escape (c # s) @ t = c # re_escape s @ t" by (simp add: re_escape_def)
    have "c \<notin> set re_meta" using False special_meta by blast
    then show ?thesis unfolding e using nq by (rule re_items_plain)
  qed
  then show ?case using Cons by (cases "re_items t") (auto simp: re_more_def)
qed

lemma join_dots_not_quantified: "ws \<noteq> [] \<Longrightarrow> \<not> quantified (join ''.*'' (map re_escape ws))"
proof (induction ws)
  case (Cons w ws)
  show ?case
  proof (cases ws)
    case Nil
    then show ?thesis using quantified_escape [of "[]" w] by (simp add: quantified_def)
  next
    case (Cons x xs)
    have "\<not> quantified (''.*'' @ join ''.*'' (map re_escape ws))" by (simp add: quantified_def re_quantifiers_def)
    then show ?thesis using quantified_escape [of "''.*'' @ join ''.*'' (map re_escape ws)" w]
      by (simp add: Cons)
  qed
qed simp

lemma re_items_join:
  "ws \<noteq> [] \<Longrightarrow> re_items (join ''.*'' (map re_escape ws)) = Some (join [AnyChars] (map (map Lit) ws))"
proof (induction ws)
  case (Cons w ws)
  show ?case
  proof (cases ws)
    case Nil
    then show ?thesis using re_items_escape [of "[]" w] by (simp add: quantified_def)
  next
    case (Cons x xs)
    define rest where "rest = join ''.*'' (map re_escape ws)"
    have rest: "re_items rest = Some (join [AnyChars] (map (map Lit) ws))" "\<not> quantified rest"
      using Cons.IH join_dots_not_quantified [of ws] by (simp_all add: rest_def Cons)
    have "re_items (''.*'' @ rest) = re_more AnyChars (re_items rest)"
      using rest(2) by (simp add: backslash_def)
    then have "re_items (re_escape w @ ''.*'' @ rest)
        = Some (map Lit w @ AnyChars # join [AnyChars] (map (map Lit) ws))"
      using re_items_escape [of "''.*'' @ rest" w] rest(1)
      by (simp add: quantified_def re_quantifiers_def re_more_def)
    then show ?thesis by (simp add: Cons rest_def)
  qed
qed simp

lemma glob_items_split: "glob_items g = join [AnyChars] (map (map Lit) (split_on (CHR ''*'') g))"
proof (induction g)
  case (Cons c g)
  obtain w ws where w: "split_on (CHR ''*'') g = w # ws" by (cases "split_on (CHR ''*'') g") auto
  show ?case using Cons w by (cases ws) auto
qed simp

lemma glob_items_literal: "CHR ''*'' \<notin> set p \<Longrightarrow> glob_items (p @ r) = map Lit p @ glob_items r"
  by (induction p) auto

lemma re_match_literal: "re_match (map Lit p @ r) s \<longleftrightarrow> (\<exists>t. s = p @ t \<and> re_match r t)"
proof (induction p arbitrary: s)
  case (Cons c p)
  then show ?case by (cases s) auto
qed simp

theorem glob_regex: "re_fullmatch other_re (to_regex g) url = Some (re_match (glob_items g) url)"
  by (simp add: re_fullmatch_def to_regex_def re_items_join glob_items_split)

lemma scheme_no_star: "scheme_end s = Some n \<Longrightarrow> CHR ''*'' \<notin> set (take n s)"
proof
  assume n: "scheme_end s = Some n" and "CHR ''*'' \<in> set (take n s)"
  then have "lower_char (CHR ''*'') \<in> set (lower (take n s))" unfolding lower_def by auto
  moreover have "lower_char (CHR ''*'') = CHR ''*''" by code_simp
  ultimately show False using n by (auto simp: scheme_end_def split: if_splits)
qed

lemma scheme_end_prefix:
  "scheme_end (p @ t) = Some n \<Longrightarrow> n \<le> length p \<Longrightarrow> scheme_end (p @ u) = Some n"
  by (auto simp: scheme_end_def split: if_splits)

lemma parse_glob_valid:
  assumes "parse_glob v = Inr g"
  obtains n where "scheme_end g = Some n" "url_host n g \<noteq> []" "CHR ''*'' \<notin> set (url_host n g)"
proof -
  have "g = strip v" "validate_glob g = Inr ()"
    using assms by (auto simp: parse_glob_def Let_def bind_r_Inr_iff)
  moreover have "strip (strip v) = strip v"
    unfolding strip_def strip_by_def by (metis dropWhile_eq_self_iff dropWhile_idem rev_rev_ident strip_by_def strip_by_hd)
  ultimately show ?thesis using that
    by (auto simp: validate_glob_def Let_def split: option.splits if_splits)
qed

text \<open>C24: A validated glob stays on its host.  Whatever its wildcards, the regular expression it becomes
  accepts only URLs with its own scheme and exactly its own host: credentials of an app are never
  injected into a request to another host.\<close>

theorem glob_stays_on_its_host:
  assumes "parse_glob v = Inr g" and "re_fullmatch other_re (to_regex g) url = Some True"
  shows "\<exists>n. scheme_end g = Some n \<and> scheme_end url = Some n \<and> url_host n url = url_host n g \<and> url_host n g \<noteq> []"
proof -
  obtain n where n: "scheme_end g = Some n" and host: "url_host n g \<noteq> []" "CHR ''*'' \<notin> set (url_host n g)"
    using assms(1) by (rule parse_glob_valid)
  define p where "p = take n g @ url_host n g"
  define t where "t = dropWhile (\<lambda>c. c \<noteq> CHR ''/'') (drop n g)"
  have g: "g = p @ t" by (simp add: p_def t_def url_host_def)
  have len: "n \<le> length g" using host(1) unfolding url_host_def by (cases "n \<le> length g") auto
  have "CHR ''*'' \<notin> set p" using scheme_no_star [OF n] host(2) by (simp add: p_def)
  then have "re_match (map Lit p @ glob_items t) url"
    using assms(2) by (simp add: glob_regex g glob_items_literal)
  then obtain u where url: "url = p @ u" and u: "re_match (glob_items t) u"
    by (auto simp: re_match_literal)
  have "u = [] \<or> hd u = CHR ''/''"
  proof (cases t)
    case Nil
    then show ?thesis using u by simp
  next
    case (Cons c t')
    moreover have "c = CHR ''/''"
      using hd_dropWhile [of "\<lambda>c. c \<noteq> CHR ''/''" "drop n g", folded t_def] Cons by simp
    ultimately show ?thesis using u by (cases u) auto
  qed
  then have tw: "takeWhile (\<lambda>c. c \<noteq> CHR ''/'') u = []" by (cases u) auto
  have rest: "drop n url = url_host n g @ u" using len by (simp add: url p_def)
  have "c \<noteq> CHR ''/''" if "c \<in> set (url_host n g)" for c
    using that set_takeWhileD unfolding url_host_def by fastforce
  then have "takeWhile (\<lambda>c. c \<noteq> CHR ''/'') (url_host n g @ u) = url_host n g"
    using tw by (subst takeWhile_append2) simp_all
  then have "url_host n url = url_host n g" unfolding url_host_def [of n url] rest .
  moreover have "scheme_end url = Some n"
  proof -
    have "n \<le> length p" using len by (simp add: p_def)
    moreover have "scheme_end (p @ t) = Some n" using n unfolding g [symmetric] .
    ultimately show ?thesis unfolding url using scheme_end_prefix by blast
  qed
  ultimately show ?thesis using n host(1) by blast
qed

lemma glob_stays_on_its_host_witness:
  "\<exists>n. scheme_end ''https://api.x.io/v1/*'' = Some n \<and> scheme_end ''https://api.x.io/v1/a'' = Some n
     \<and> url_host n ''https://api.x.io/v1/a'' = url_host n ''https://api.x.io/v1/*'' \<and> url_host n ''https://api.x.io/v1/*'' \<noteq> []"
proof (rule glob_stays_on_its_host)
  show "parse_glob ''  https://api.x.io/v1/* '' = Inr ''https://api.x.io/v1/*''" by code_simp
  show "re_fullmatch (\<lambda>_ _. None) (to_regex ''https://api.x.io/v1/*'') ''https://api.x.io/v1/a'' = Some True"
    by code_simp
qed

end
