(* ===== verification/ActionRules.thy ===== *)
theory ActionRules
  imports PyValue
begin

text \<open>
  How an outbound request is recognised as an action of an external app:
  \<open>onyx/external_apps/providers/actions.py\<close> (rules), \<open>matching/rules.py\<close> (their matchers),
  \<open>matching/request.py\<close> and \<open>matching/graphql_parsing.py\<close>.  The GraphQL parser and the JSON reader
  are arguments; of a parsed document the model keeps what the traversal looks at.
\<close>

section \<open>Rules\<close>

datatype match_rule =
    RestRoute (rr_method: string) (rr_path: string) (rr_resource: "string option")
  | GraphQLOp (gq_operation: string) (gq_field: string) (gq_resource: "string option")

text \<open>\<open>path.rstrip("/")\<close> and \<open>str.endswith\<close>\<close>

definition rstrip_slash :: "string \<Rightarrow> string" where
  "rstrip_slash p = rev (dropWhile (\<lambda>c. c = CHR ''/'') (rev p))"

definition segments :: "string \<Rightarrow> string list" where
  "segments p = split_on (CHR ''/'') (rstrip_slash p)"

text \<open>The constructor of a route refuses a wildcard that is not the last segment.\<close>

definition rest_route :: "string \<Rightarrow> string \<Rightarrow> string option \<Rightarrow> match_rule result" where
  "rest_route method path resource =
     (if list_ex (\<lambda>seg. suffix ''...}'' seg) (butlast (segments path)) then Inl ValueError
      else Inr (RestRoute method path resource))"

definition segment_matches :: "string \<Rightarrow> string \<Rightarrow> bool" where
  "segment_matches expected actual \<longleftrightarrow>
     (if prefix ''{'' expected \<and> suffix ''}'' expected then actual \<noteq> [] else expected = actual)"

definition is_wildcard :: "string \<Rightarrow> bool" where
  "is_wildcard seg \<longleftrightarrow> prefix ''{'' seg \<and> suffix ''...}'' seg"

definition path_matches :: "string \<Rightarrow> string \<Rightarrow> bool" where
  "path_matches template path =
    (let expected = segments template; actual = segments path in
     if is_wildcard (last expected) then
       (let pre = butlast expected; tail = drop (length pre) actual in
        if tail = [] \<or> \<not> list_all (\<lambda>s. s \<noteq> []) tail then False
        else list_all (\<lambda>(e, a). segment_matches e a) (zip pre actual))
     else if length expected \<noteq> length actual then False
     else list_all (\<lambda>(e, a). segment_matches e a) (zip expected actual))"

section \<open>GraphQL documents\<close>

datatype selection =
    FieldNode string
  | InlineFragment "selection list"
  | FragmentSpread string

datatype gql_definition =
    OperationDefinition (op_type: string) (op_selections: "selection list")
  | FragmentDefinition (fragment_name: string) (fragment_selections: "selection list")
  | OtherDefinition

type_synonym fragments = "(string, selection list) dict"

definition open_fragments :: "fragments \<Rightarrow> string set \<Rightarrow> nat" where
  "open_fragments frags seen = card (fst ` set frags - seen)"

lemma open_fragments_seen:
  "dict_get frags n = Some body \<Longrightarrow> n \<notin> seen \<Longrightarrow> open_fragments frags (insert n seen) < open_fragments frags seen"
  unfolding open_fragments_def
proof (rule psubset_card_mono)
  assume "dict_get frags n = Some body" "n \<notin> seen"
  moreover from this have "n \<in> fst ` set frags" using dict_get_None_iff [of frags n] by auto
  ultimately show "fst ` set frags - insert n seen \<subset> fst ` set frags - seen" by auto
qed simp

text \<open>Only fragments of the document are expanded and none inside itself, so the traversal ends.\<close>

function root_field_names :: "fragments \<Rightarrow> string set \<Rightarrow> selection list \<Rightarrow> string list" where
  "root_field_names frags seen [] = []"
| "root_field_names frags seen (FieldNode f # sels) = f # root_field_names frags seen sels"
| "root_field_names frags seen (InlineFragment s # sels) =
     root_field_names frags seen s @ root_field_names frags seen sels"
| "root_field_names frags seen (FragmentSpread n # sels) =
     (case dict_get frags n of
        None \<Rightarrow> []
      | Some body \<Rightarrow> if n \<in> seen then [] else root_field_names frags (insert n seen) body)
     @ root_field_names frags seen sels"
  by pat_completeness auto

termination
  by (relation "measures [\<lambda>(frags, seen, sels). open_fragments frags seen, \<lambda>(frags, seen, sels). size_list size sels]")
    (auto simp: open_fragments_seen)

definition fragment_table :: "gql_definition list \<Rightarrow> fragments" where
  "fragment_table defs = dict_update []
     (concat (map (\<lambda>d. case d of FragmentDefinition n s \<Rightarrow> [(n, s)] | _ \<Rightarrow> []) defs))"

text \<open>\<open>None\<close> is a syntax error.\<close>

definition operation_invocations ::
  "(string \<Rightarrow> gql_definition list option) \<Rightarrow> string \<Rightarrow> (string \<times> string) list" where
  "operation_invocations parse query = (case parse query of
     None \<Rightarrow> []
   | Some defs \<Rightarrow> concat (map (\<lambda>d. case d of
         OperationDefinition t s \<Rightarrow> map (Pair t) (root_field_names (fragment_table defs) {} s)
       | _ \<Rightarrow> []) defs))"

text \<open>The JSON reader and the GraphQL parser.\<close>

record body_readers =
  read_json :: "string \<Rightarrow> pyval result"
  read_graphql :: "string \<Rightarrow> gql_definition list option"

definition document_invocations :: "body_readers \<Rightarrow> pyval \<Rightarrow> (string \<times> string) list" where
  "document_invocations rd document = (case document of
     PDict d \<Rightarrow> (case dict_get d ''query'' of
         Some (PStr query) \<Rightarrow> operation_invocations (read_graphql rd) query
       | _ \<Rightarrow> [])
   | _ \<Rightarrow> [])"

definition parse_invocations :: "body_readers \<Rightarrow> string option \<Rightarrow> (string \<times> string) list result" where
  "parse_invocations rd body =
    (if \<not> truthy body then Inr []
     else case read_json rd (the body) of
         Inl e \<Rightarrow> if e \<in> {ValueError, TypeError} then Inr [] else Inl e
       | Inr payload \<Rightarrow>
          (let documents = (case payload of PList xs \<Rightarrow> xs | _ \<Rightarrow> [payload])
           in Inr (concat (map (document_invocations rd) documents))))"

section \<open>Matching\<close>

record proxied_request =
  pr_method :: string
  pr_path :: string
  pr_body :: "string option"

text \<open>The body is read at most once, and only when a rule asks for its invocations.\<close>

definition rule_matches :: "body_readers \<Rightarrow> match_rule \<Rightarrow> proxied_request \<Rightarrow> bool result" where
  "rule_matches rd rule req = (case rule of
     RestRoute m p _ \<Rightarrow> Inr (if upper m \<noteq> upper (pr_method req) then False else path_matches p (pr_path req))
   | GraphQLOp t f _ \<Rightarrow> bind_r (parse_invocations rd (pr_body req)) (\<lambda>inv.
       Inr (list_ex (\<lambda>(operation_type, field). operation_type = t \<and> field = f) inv)))"

fun any_rule_matches :: "body_readers \<Rightarrow> match_rule list \<Rightarrow> proxied_request \<Rightarrow> bool result" where
  "any_rule_matches rd [] req = Inr False"
| "any_rule_matches rd (rule # rules) req =
     bind_r (rule_matches rd rule req) (\<lambda>b. if b then Inr True else any_rule_matches rd rules req)"
section \<open>Paths\<close>

text \<open>The reference: a template is walked along the path, the wildcard takes what is left.\<close>

fun segments_match :: "string list \<Rightarrow> string list \<Rightarrow> bool" where
  "segments_match [] actual = (actual = [])"
| "segments_match [e] actual =
     (if is_wildcard e then actual \<noteq> [] \<and> [] \<notin> set actual
      else \<exists>a. actual = [a] \<and> segment_matches e a)"
| "segments_match (e # e' # es) [] = False"
| "segments_match (e # e' # es) (a # as) = (segment_matches e a \<and> segments_match (e' # es) as)"

lemma segments_match_wild:
  "is_wildcard w \<Longrightarrow> segments_match (pre @ [w]) actual \<longleftrightarrow>
     drop (length pre) actual \<noteq> [] \<and> [] \<notin> set (drop (length pre) actual)
     \<and> list_all (\<lambda>(e, a). segment_matches e a) (zip pre actual)"
proof (induction pre arbitrary: actual)
  case (Cons e pre)
  then show ?case by (cases actual; cases pre) auto
qed simp

lemma segments_match_plain:
  "es \<noteq> [] \<Longrightarrow> \<not> is_wildcard (last es) \<Longrightarrow> segments_match es actual \<longleftrightarrow>
     length es = length actual \<and> list_all (\<lambda>(e, a). segment_matches e a) (zip es actual)"
proof (induction es arbitrary: actual)
  case (Cons e es)
  show ?case
  proof (cases es)
    case Nil
    with Cons.prems show ?thesis by (cases actual) auto
  next
    case (Cons e' es')
    then show ?thesis using Cons.IH Cons.prems by (cases actual) auto
  qed
qed simp

lemma segments_not_Nil [simp]: "segments p \<noteq> []"
  by (simp add: segments_def)

lemma path_matches_walk: "path_matches template path \<longleftrightarrow> segments_match (segments template) (segments path)"
proof (cases "is_wildcard (last (segments template))")
  case True
  have "segments_match (segments template) (segments path)
      = segments_match (butlast (segments template) @ [last (segments template)]) (segments path)" by simp
  also note segments_match_wild [OF True]
  finally show ?thesis using True by (auto simp: path_matches_def Let_def list_all_iff)
qed (auto simp: path_matches_def Let_def segments_match_plain)

section \<open>Hidden fields\<close>

text \<open>A field is exposed by a selection set when a chain of inline fragments and fragment spreads
  leads to it; the number bounds the length of the chain.\<close>

inductive exposes :: "fragments \<Rightarrow> nat \<Rightarrow> selection list \<Rightarrow> string \<Rightarrow> bool" for frags where
  field: "FieldNode f \<in> set sels \<Longrightarrow> exposes frags k sels f"
| inline: "InlineFragment s \<in> set sels \<Longrightarrow> exposes frags k s f \<Longrightarrow> exposes frags (Suc k) sels f"
| spread: "FragmentSpread n \<in> set sels \<Longrightarrow> dict_get frags n = Some body \<Longrightarrow> exposes frags k body f
    \<Longrightarrow> exposes frags (Suc k) sels f"

inductive_cases exposesE: "exposes frags k sels f"

lemma exposes_subset: "exposes frags k sels f \<Longrightarrow> set sels \<subseteq> set sels' \<Longrightarrow> exposes frags k sels' f"
  by (erule exposesE) (blast intro: exposes.intros)+

lemma root_field_names_sound:
  "f \<in> set (root_field_names frags seen sels) \<Longrightarrow> \<exists>k. exposes frags k sels f"
proof (induction frags seen sels rule: root_field_names.induct)
  case (2 frags seen g sels)
  show ?case
  proof (cases "f = g")
    case True
    then show ?thesis by (blast intro: exposes.field list.set_intros(1))
  next
    case False
    then show ?thesis using 2 exposes_subset [of frags _ sels f "FieldNode g # sels"] by auto
  qed
next
  case (3 frags seen s sels)
  show ?case
  proof (cases "f \<in> set (root_field_names frags seen s)")
    case True
    then show ?thesis using "3.IH"(1) by (blast intro: exposes.inline list.set_intros(1))
  next
    case False
    then show ?thesis using 3 exposes_subset [of frags _ sels f "InlineFragment s # sels"] by auto
  qed
next
  case (4 frags seen n sels)
  show ?case
  proof (cases "f \<in> set (root_field_names frags seen sels)")
    case True
    then show ?thesis using 4 exposes_subset [of frags _ sels f "FragmentSpread n # sels"] by auto
  next
    case False
    then obtain body where b: "dict_get frags n = Some body" "n \<notin> seen"
        "f \<in> set (root_field_names frags (insert n seen) body)"
      using "4.prems" by (cases "dict_get frags n") (auto split: if_splits)
    then obtain k where "exposes frags k body f" using "4.IH"(1) by blast
    with b(1) show ?thesis by (blast intro: exposes.spread list.set_intros(1))
  qed
qed simp

lemma root_field_names_field: "FieldNode f \<in> set sels \<Longrightarrow> f \<in> set (root_field_names frags seen sels)"
  by (induction frags seen sels rule: root_field_names.induct) auto

lemma root_field_names_inline:
  "InlineFragment s \<in> set sels \<Longrightarrow> set (root_field_names frags seen s) \<subseteq> set (root_field_names frags seen sels)"
  by (induction frags seen sels rule: root_field_names.induct) auto

lemma root_field_names_spread:
  "FragmentSpread n \<in> set sels \<Longrightarrow> dict_get frags n = Some body \<Longrightarrow> n \<notin> seen
    \<Longrightarrow> set (root_field_names frags (insert n seen) body) \<subseteq> set (root_field_names frags seen sels)"
  by (induction frags seen sels rule: root_field_names.induct) auto

text \<open>A shortest chain never enters a fragment twice, so the guard against cycles loses nothing.\<close>

lemma root_field_names_complete:
  "exposes frags k sels f
    \<Longrightarrow> (\<And>n body j. n \<in> seen \<Longrightarrow> dict_get frags n = Some body \<Longrightarrow> exposes frags j body f \<Longrightarrow> k \<le> j)
    \<Longrightarrow> f \<in> set (root_field_names frags seen sels)"
proof (induction k arbitrary: sels seen rule: less_induct)
  case (less k)
  from less.prems(1) show ?case
  proof cases
    case field
    then show ?thesis by (rule root_field_names_field)
  next
    case (inline s k')
    have "f \<in> set (root_field_names frags seen s)"
    proof (rule less.IH [OF _ inline(3)])
      show "k' < k" by (simp add: inline(1))
      show "k' \<le> j" if "n \<in> seen" "dict_get frags n = Some body" "exposes frags j body f" for n body j
        using less.prems(2) [OF that] inline(1) by simp
    qed
    then show ?thesis using root_field_names_inline [OF inline(2)] by blast
  next
    case (spread n body k')
    define m where "m = (LEAST j. exposes frags j body f)"
    have m: "exposes frags m body f" "m \<le> k'" and least: "\<And>j. exposes frags j body f \<Longrightarrow> m \<le> j"
      unfolding m_def using spread(4) by (auto intro: LeastI Least_le)
    have "n \<notin> seen" using less.prems(2) [OF _ spread(3,4)] spread(1) by auto
    moreover have "f \<in> set (root_field_names frags (insert n seen) body)"
    proof (rule less.IH [OF _ m(1)])
      show "m < k" using m(2) spread(1) by simp
      show "m \<le> j" if "n' \<in> insert n seen" "dict_get frags n' = Some body'" "exposes frags j body' f" for n' body' j
      proof (cases "n' = n")
        case True
        then show ?thesis using that spread(3) least by simp
      next
        case False
        then show ?thesis using less.prems(2) [of n' body' j] that m(2) spread(1) by simp
      qed
    qed
    ultimately show ?thesis using root_field_names_spread [OF spread(2,3)] by blast
  qed
qed

lemma root_field_names_iff: "f \<in> set (root_field_names frags {} sels) \<longleftrightarrow> (\<exists>k. exposes frags k sels f)"
  using root_field_names_sound root_field_names_complete [of frags _ sels f "{}"] by blast

text \<open>C25: Fields cannot hide in fragments.  A GraphQL rule fires exactly when some operation of some
  document of the body exposes its field at the top level, through whatever chain of inline and named
  fragments, cyclic ones included; the traversal always ends.\<close>

theorem graphql_fields_cannot_hide:
  assumes "body \<noteq> []" and "read_json rd body = Inr payload"
  shows "rule_matches rd (GraphQLOp t f res) \<lparr>pr_method = m, pr_path = p, pr_body = Some body\<rparr>
    = Inr (\<exists>d query defs sels k. PDict d \<in> set (case payload of PList xs \<Rightarrow> xs | _ \<Rightarrow> [payload])
        \<and> dict_get d ''query'' = Some (PStr query) \<and> read_graphql rd query = Some defs
        \<and> OperationDefinition t sels \<in> set defs \<and> exposes (fragment_table defs) k sels f)"
proof -
  have op: "(t, f) \<in> set (operation_invocations (read_graphql rd) query) \<longleftrightarrow>
      (\<exists>defs sels k. read_graphql rd query = Some defs \<and> OperationDefinition t sels \<in> set defs
        \<and> exposes (fragment_table defs) k sels f)" for query
  proof (cases "read_graphql rd query")
    case (Some defs)
    have "(t, f) \<in> set (case d of OperationDefinition t s \<Rightarrow> map (Pair t) (root_field_names (fragment_table defs) {} s)
          | _ \<Rightarrow> []) \<longleftrightarrow> (\<exists>sels k. d = OperationDefinition t sels \<and> exposes (fragment_table defs) k sels f)" for d
      by (cases d) (auto simp: root_field_names_iff [symmetric])
    then show ?thesis by (auto simp: operation_invocations_def Some)
  qed (simp add: operation_invocations_def)
  have doc: "(t, f) \<in> set (document_invocations rd v) \<longleftrightarrow>
      (\<exists>d query. v = PDict d \<and> dict_get d ''query'' = Some (PStr query)
        \<and> (t, f) \<in> set (operation_invocations (read_graphql rd) query))" for v
    by (auto simp: document_invocations_def split: pyval.splits option.splits dest!: sym [of "Some _"])
  define docs where "docs = (case payload of PList xs \<Rightarrow> xs | _ \<Rightarrow> [payload])"
  have "rule_matches rd (GraphQLOp t f res) \<lparr>pr_method = m, pr_path = p, pr_body = Some body\<rparr>
      = Inr (list_ex (\<lambda>(x, y). x = t \<and> y = f) (concat (map (document_invocations rd) docs)))"
    using assms by (simp add: rule_matches_def parse_invocations_def docs_def)
  also have "list_ex (\<lambda>(x, y). x = t \<and> y = f) (concat (map (document_invocations rd) docs))
      \<longleftrightarrow> (\<exists>v \<in> set docs. (t, f) \<in> set (document_invocations rd v))"
    by (auto simp: list_ex_iff)
  also have "\<dots> \<longleftrightarrow> (\<exists>d query defs sels k. PDict d \<in> set docs
        \<and> dict_get d ''query'' = Some (PStr query) \<and> read_graphql rd query = Some defs
        \<and> OperationDefinition t sels \<in> set defs \<and> exposes (fragment_table defs) k sels f)"
    unfolding doc op by blast
  finally show ?thesis unfolding docs_def .
qed

definition example_readers :: body_readers where
  "example_readers = \<lparr>read_json = (\<lambda>s. Inr (PList [PInt 0, PDict [(''query'', PStr s)]])),
     read_graphql = (\<lambda>s. Some [OperationDefinition ''mutation'' [FragmentSpread ''A''],
       FragmentDefinition ''A'' [FragmentSpread ''B''],
       FragmentDefinition ''B'' [FragmentSpread ''A'', InlineFragment [FieldNode ''issueDelete'']]])\<rparr>"

lemma graphql_fields_cannot_hide_witness:
  "rule_matches example_readers (GraphQLOp ''mutation'' ''issueDelete'' None)
     \<lparr>pr_method = ''POST'', pr_path = ''/graphql'', pr_body = Some ''q''\<rparr> = Inr True"
proof -
  let ?defs = "[OperationDefinition ''mutation'' [FragmentSpread ''A''], FragmentDefinition ''A'' [FragmentSpread ''B''],
       FragmentDefinition ''B'' [FragmentSpread ''A'', InlineFragment [FieldNode ''issueDelete'']]]"
  have t: "fragment_table ?defs = [(''A'', [FragmentSpread ''B'']), (''B'', [FragmentSpread ''A'', InlineFragment [FieldNode ''issueDelete'']])]"
    by code_simp
  have "exposes (fragment_table ?defs) (Suc (Suc (Suc 0))) [FragmentSpread ''A''] ''issueDelete''"
    unfolding t by (rule exposes.spread [of "''A''"], simp, simp, rule exposes.spread [of "''B''"], simp, simp,
      rule exposes.inline [of "[FieldNode ''issueDelete'']"], simp, rule exposes.field, simp)
  then show ?thesis
    by (subst graphql_fields_cannot_hide [of "''q''" example_readers "PList [PInt 0, PDict [(''query'', PStr ''q'')]]"])
      (auto simp: example_readers_def)
qed

end
