(* ===== verification/AppCatalogs.thy ===== *)
theory AppCatalogs
  imports ActionRules
begin

text \<open>
  The built-in external apps: policies and their strictness (\<open>onyx/db/enums.py\<close>), the endpoint and
  provider records (\<open>onyx/external_apps/providers/actions.py\<close>, \<open>base.py\<close>, \<open>google_base.py\<close>) and the
  action catalogs of the seven providers.  Labels and set-up instructions of the administration pages
  are left out; text that is not ASCII is written as its UTF-8 bytes.
\<close>

section \<open>Policies\<close>

datatype endpoint_policy = ALWAYS | ASK | DENY

definition policy_severity :: "endpoint_policy \<Rightarrow> int" where
  "policy_severity p = (case p of ALWAYS \<Rightarrow> 0 | ASK \<Rightarrow> 1 | DENY \<Rightarrow> 2)"

lemma policy_severity_inj: "policy_severity p = policy_severity q \<longleftrightarrow> p = q"
  by (cases p; cases q) (simp_all add: policy_severity_def)

text \<open>Policies are ordered by strictness.\<close>

instantiation endpoint_policy :: linorder
begin

definition less_eq_endpoint_policy :: "endpoint_policy \<Rightarrow> endpoint_policy \<Rightarrow> bool" where
  "p \<le> q \<longleftrightarrow> policy_severity p \<le> policy_severity q"

definition less_endpoint_policy :: "endpoint_policy \<Rightarrow> endpoint_policy \<Rightarrow> bool" where
  "p < q \<longleftrightarrow> policy_severity p < policy_severity q"

instance
  by standard (auto simp: less_eq_endpoint_policy_def less_endpoint_policy_def policy_severity_inj)

end

lemma policy_order [simp]: "ALWAYS \<le> p" "p \<le> DENY" "DENY \<le> p \<longleftrightarrow> p = DENY" "p \<le> ALWAYS \<longleftrightarrow> p = ALWAYS"
  by (cases p; simp add: less_eq_endpoint_policy_def policy_severity_def)+

definition policy_value :: "endpoint_policy \<Rightarrow> string" where
  "policy_value p = (case p of ALWAYS \<Rightarrow> ''ALWAYS'' | ASK \<Rightarrow> ''ASK'' | DENY \<Rightarrow> ''DENY'')"

definition parse_policy :: "string \<Rightarrow> endpoint_policy result" where
  "parse_policy s = (if s = ''ALWAYS'' then Inr ALWAYS else if s = ''ASK'' then Inr ASK
     else if s = ''DENY'' then Inr DENY else Inl ValueError)"

lemma parse_policy_value [simp]: "parse_policy (policy_value p) = Inr p"
  by (cases p) (simp_all add: parse_policy_def policy_value_def)

section \<open>Apps and actions\<close>

datatype app_type = GOOGLE_CALENDAR | GOOGLE_DRIVE | GMAIL | SLACK | LINEAR | GITHUB | HUBSPOT | CUSTOM

definition app_type_value :: "app_type \<Rightarrow> string" where
  "app_type_value t = (case t of GOOGLE_CALENDAR \<Rightarrow> ''GOOGLE_CALENDAR'' | GOOGLE_DRIVE \<Rightarrow> ''GOOGLE_DRIVE''
     | GMAIL \<Rightarrow> ''GMAIL'' | SLACK \<Rightarrow> ''SLACK'' | LINEAR \<Rightarrow> ''LINEAR'' | GITHUB \<Rightarrow> ''GITHUB''
     | HUBSPOT \<Rightarrow> ''HUBSPOT'' | CUSTOM \<Rightarrow> ''CUSTOM'')"

definition is_built_in :: "app_type \<Rightarrow> bool" where
  "is_built_in t \<longleftrightarrow> t \<noteq> CUSTOM"

record endpoint_spec =
  ep_id :: string
  ep_name :: string
  ep_description :: string
  ep_matches :: "match_rule list"
  ep_default :: endpoint_policy

record oauth_flow =
  of_authorize_url :: string
  of_token_url :: string
  of_scope :: string
  of_scope_param :: string
  of_extra_params :: "(string, string) dict"

text \<open>A credential field an administrator fills in is its key and whether it is secret.\<close>

record provider_spec =
  ps_app_type :: app_type
  ps_app_name :: string
  ps_oauth :: oauth_flow
  ps_description :: string
  ps_url_patterns :: "string list"
  ps_auth_template :: "(string, string) dict"
  ps_org_fields :: "(string \<times> bool) list"
  ps_catalog :: "endpoint_spec list"

definition build_google_spec ::
  "app_type \<Rightarrow> string \<Rightarrow> string \<Rightarrow> string list \<Rightarrow> string \<Rightarrow> endpoint_spec list \<Rightarrow> provider_spec" where
  "build_google_spec app_type app_name scope patterns description catalog =
     \<lparr>ps_app_type = app_type, ps_app_name = app_name,
      ps_oauth = \<lparr>of_authorize_url = ''https://accounts.google.com/o/oauth2/v2/auth'',
        of_token_url = ''https://oauth2.googleapis.com/token'', of_scope = scope, of_scope_param = ''scope'',
        of_extra_params = [(''response_type'', ''code''), (''access_type'', ''offline''), (''prompt'', ''consent'')]\<rparr>,
      ps_description = description, ps_url_patterns = patterns,
      ps_auth_template = [(''Authorization'', ''Bearer {access_token}'')],
      ps_org_fields = [(''client_id'', False), (''client_secret'', True)], ps_catalog = catalog\<rparr>"

section \<open>The catalogs\<close>

definition slack_endpoints :: "endpoint_spec list" where
  "slack_endpoints =
    [
     \<lparr>ep_id = ''slack.channels.read'', ep_name = ''View channels & conversations'',
      ep_description = ''List the workspace's channels and conversations and look up a single conversation's metadata.'',
      ep_matches =
       [RestRoute ''POST'' ''/api/conversations.list'' None,
        RestRoute ''POST'' ''/api/conversations.info'' None],
      ep_default = ALWAYS\<rparr>,
     \<lparr>ep_id = ''slack.messages.read'', ep_name = ''Read messages'',
      ep_description = ''Read messages and thread replies in a channel or direct message.'',
      ep_matches =
       [RestRoute ''POST'' ''/api/conversations.history'' None,
        RestRoute ''POST'' ''/api/conversations.replies'' None],
      ep_default = ALWAYS\<rparr>,
     \<lparr>ep_id = ''slack.users.read'', ep_name = ''Read users'',
      ep_description = ''List workspace users and look up individual profiles.'',
      ep_matches =
       [RestRoute ''POST'' ''/api/users.list'' None,
        RestRoute ''POST'' ''/api/users.info'' None],
      ep_default = ALWAYS\<rparr>,
     \<lparr>ep_id = ''slack.search.read'', ep_name = ''Search messages'',
      ep_description = ''Full-text search across messages the user can see.'',
      ep_matches =
       [RestRoute ''POST'' ''/api/search.messages'' None],
      ep_default = ALWAYS\<rparr>,
     \<lparr>ep_id = ''slack.messages.write'', ep_name = ''Post a message'',
      ep_description = ''Post a message to a channel or conversation.'',
      ep_matches =
       [RestRoute ''POST'' ''/api/chat.postMessage'' None],
      ep_default = ASK\<rparr>,
     \<lparr>ep_id = ''slack.dm.open'', ep_name = ''Open a direct message'',
      ep_description = ''Open (or resume) a direct message conversation with a user.'',
      ep_matches =
       [RestRoute ''POST'' ''/api/conversations.open'' None],
      ep_default = ASK\<rparr>]"

definition google_calendar_endpoints :: "endpoint_spec list" where
  "google_calendar_endpoints =
    [
     \<lparr>ep_id = ''gcal.calendars.read'', ep_name = ''List calendars'',
      ep_description = ''List the calendars on the user's calendar list.'',
      ep_matches =
       [RestRoute ''GET'' ''/calendar/v3/users/{userId}/calendarList'' None],
      ep_default = ALWAYS\<rparr>,
     \<lparr>ep_id = ''gcal.events.read'', ep_name = ''Read events'',
      ep_description = ''List events in a calendar or fetch a single event.'',
      ep_matches =
       [RestRoute ''GET'' ''/calendar/v3/calendars/{calendarId}/events'' None,
        RestRoute ''GET'' ''/calendar/v3/calendars/{calendarId}/events/{eventId}'' None],
      ep_default = ALWAYS\<rparr>,
     \<lparr>ep_id = ''gcal.freebusy.read'', ep_name = ''Query free/busy'',
      ep_description = ''Query busy intervals across calendars.'',
      ep_matches =
       [RestRoute ''POST'' ''/calendar/v3/freeBusy'' None],
      ep_default = ALWAYS\<rparr>,
     \<lparr>ep_id = ''gcal.events.create'', ep_name = ''Create an event'',
      ep_description = ''Create a new event on a calendar.'',
      ep_matches =
       [RestRoute ''POST'' ''/calendar/v3/calendars/{calendarId}/events'' None],
      ep_default = ASK\<rparr>,
     \<lparr>ep_id = ''gcal.events.update'', ep_name = ''Update an event'',
      ep_description = ''Modify an existing event.'',
      ep_matches =
       [RestRoute ''PUT'' ''/calendar/v3/calendars/{calendarId}/events/{eventId}'' None,
        RestRoute ''PATCH'' ''/calendar/v3/calendars/{calendarId}/events/{eventId}'' None],
      ep_default = ASK\<rparr>,
     \<lparr>ep_id = ''gcal.events.delete'', ep_name = ''Delete an event'',
      ep_description = ''Permanently delete an event.'',
      ep_matches =
       [RestRoute ''DELETE'' ''/calendar/v3/calendars/{calendarId}/events/{eventId}'' None],
      ep_default = ASK\<rparr>]"

definition google_drive_endpoints :: "endpoint_spec list" where
  "google_drive_endpoints =
    [
     \<lparr>ep_id = ''gdrive.files.read'', ep_name = ''Read files'',
      ep_description = ''Search/list files and folders, read a file's metadata, and download a non-native file's contents.'',
      ep_matches =
       [RestRoute ''GET'' ''/drive/v3/files'' None,
        RestRoute ''GET'' ''/drive/v3/files/{fileId}'' None],
      ep_default = ALWAYS\<rparr>,
     \<lparr>ep_id = ''gdrive.files.export'', ep_name = ''Export a document'',
      ep_description = ''Export a Google-native doc (Docs/Sheets/Slides) to text, markdown, or CSV so its contents can be read.'',
      ep_matches =
       [RestRoute ''GET'' ''/drive/v3/files/{fileId}/export'' None],
      ep_default = ALWAYS\<rparr>,
     \<lparr>ep_id = ''gdrive.drives.read'', ep_name = ''List shared drives'',
      ep_description = ''List the shared drives the user can access.'',
      ep_matches =
       [RestRoute ''GET'' ''/drive/v3/drives'' None,
        RestRoute ''GET'' ''/drive/v3/drives/{driveId}'' None],
      ep_default = ALWAYS\<rparr>,
     \<lparr>ep_id = ''gdrive.files.create'', ep_name = ''Create or upload a file'',
      ep_description = ''Create a folder/file or upload new content (optionally converting to a Google-native Doc/Sheet/Slides).'',
      ep_matches =
       [RestRoute ''POST'' ''/drive/v3/files'' None,
        RestRoute ''POST'' ''/upload/drive/v3/files'' None],
      ep_default = ASK\<rparr>,
     \<lparr>ep_id = ''gdrive.files.update'', ep_name = ''Edit a file'',
      ep_description = ''Update a file's metadata or replace its contents.'',
      ep_matches =
       [RestRoute ''PATCH'' ''/drive/v3/files/{fileId}'' None,
        RestRoute ''PATCH'' ''/upload/drive/v3/files/{fileId}'' None],
      ep_default = ASK\<rparr>,
     \<lparr>ep_id = ''gdrive.files.delete'', ep_name = ''Delete a file'',
      ep_description = ''Trash or permanently delete a file.'',
      ep_matches =
       [RestRoute ''DELETE'' ''/drive/v3/files/{fileId}'' None],
      ep_default = ASK\<rparr>,
     \<lparr>ep_id = ''gdrive.docs.read'', ep_name = ''Read a document'',
      ep_description = ''Read a Google Doc's structured contents (text, formatting, and layout) via the Docs API.'',
      ep_matches =
       [RestRoute ''GET'' ''/v1/documents/{documentId}'' None],
      ep_default = ALWAYS\<rparr>,
     \<lparr>ep_id = ''gdrive.docs.create'', ep_name = ''Create a document'',
      ep_description = ''Create a new, empty Google Doc via the Docs API.'',
      ep_matches =
       [RestRoute ''POST'' ''/v1/documents'' None],
      ep_default = ASK\<rparr>,
     \<lparr>ep_id = ''gdrive.docs.update'', ep_name = ''Edit a document'',
      ep_description = ''Apply edits to a Google Doc's contents via the Docs API.'',
      ep_matches =
       [RestRoute ''POST'' ''/v1/documents/{documentId}'' None],
      ep_default = ASK\<rparr>]"

definition gmail_endpoints :: "endpoint_spec list" where
  "gmail_endpoints =
    [
     \<lparr>ep_id = ''gmail.messages.read'', ep_name = ''Read messages'',
      ep_description = ''List or search messages and read a single message.'',
      ep_matches =
       [RestRoute ''GET'' ''/gmail/v1/users/{userId}/messages'' None,
        RestRoute ''GET'' ''/gmail/v1/users/{userId}/messages/{messageId}'' None],
      ep_default = ALWAYS\<rparr>,
     \<lparr>ep_id = ''gmail.labels.read'', ep_name = ''List labels'',
      ep_description = ''List the labels in the mailbox.'',
      ep_matches =
       [RestRoute ''GET'' ''/gmail/v1/users/{userId}/labels'' None],
      ep_default = ALWAYS\<rparr>,
     \<lparr>ep_id = ''gmail.profile.read'', ep_name = ''Read profile'',
      ep_description = ''Read the connected account's Gmail profile.'',
      ep_matches =
       [RestRoute ''GET'' ''/gmail/v1/users/{userId}/profile'' None],
      ep_default = ALWAYS\<rparr>,
     \<lparr>ep_id = ''gmail.messages.send'', ep_name = ''Send a message'',
      ep_description = ''Send an email from the connected account.'',
      ep_matches =
       [RestRoute ''POST'' ''/gmail/v1/users/{userId}/messages/send'' None],
      ep_default = ASK\<rparr>,
     \<lparr>ep_id = ''gmail.messages.modify'', ep_name = ''Modify message labels'',
      ep_description = (''Add or remove labels on a message (mark read, archive, '' @ [CHR 0xE2, CHR 0x80, CHR 0xA6] @ '').''),
      ep_matches =
       [RestRoute ''POST'' ''/gmail/v1/users/{userId}/messages/{messageId}/modify'' None],
      ep_default = ASK\<rparr>,
     \<lparr>ep_id = ''gmail.messages.trash'', ep_name = ''Trash a message'',
      ep_description = ''Move a message to the trash.'',
      ep_matches =
       [RestRoute ''POST'' ''/gmail/v1/users/{userId}/messages/{messageId}/trash'' None],
      ep_default = ASK\<rparr>,
     \<lparr>ep_id = ''gmail.threads.read'', ep_name = ''Read threads'',
      ep_description = ''List threads and read a single conversation thread.'',
      ep_matches =
       [RestRoute ''GET'' ''/gmail/v1/users/{userId}/threads'' None,
        RestRoute ''GET'' ''/gmail/v1/users/{userId}/threads/{threadId}'' None],
      ep_default = ALWAYS\<rparr>,
     \<lparr>ep_id = ''gmail.attachments.read'', ep_name = ''Read attachments'',
      ep_description = ''Download an attachment from a message.'',
      ep_matches =
       [RestRoute ''GET'' ''/gmail/v1/users/{userId}/messages/{messageId}/attachments/{attachmentId}'' None],
      ep_default = ALWAYS\<rparr>,
     \<lparr>ep_id = ''gmail.drafts.read'', ep_name = ''Read drafts'',
      ep_description = ''List drafts and read a single draft.'',
      ep_matches =
       [RestRoute ''GET'' ''/gmail/v1/users/{userId}/drafts'' None,
        RestRoute ''GET'' ''/gmail/v1/users/{userId}/drafts/{draftId}'' None],
      ep_default = ALWAYS\<rparr>,
     \<lparr>ep_id = ''gmail.drafts.create'', ep_name = ''Create a draft'',
      ep_description = ''Save a new draft email (not sent).'',
      ep_matches =
       [RestRoute ''POST'' ''/gmail/v1/users/{userId}/drafts'' None],
      ep_default = ALWAYS\<rparr>,
     \<lparr>ep_id = ''gmail.drafts.update'', ep_name = ''Update a draft'',
      ep_description = ''Replace the contents of an existing draft (not sent).'',
      ep_matches =
       [RestRoute ''PUT'' ''/gmail/v1/users/{userId}/drafts/{draftId}'' None],
      ep_default = ALWAYS\<rparr>,
     \<lparr>ep_id = ''gmail.drafts.delete'', ep_name = ''Delete a draft'',
      ep_description = ''Permanently delete a draft.'',
      ep_matches =
       [RestRoute ''DELETE'' ''/gmail/v1/users/{userId}/drafts/{draftId}'' None],
      ep_default = ASK\<rparr>,
     \<lparr>ep_id = ''gmail.drafts.send'', ep_name = ''Send a draft'',
      ep_description = ''Send an existing draft as an email.'',
      ep_matches =
       [RestRoute ''POST'' ''/gmail/v1/users/{userId}/drafts/send'' None],
      ep_default = ASK\<rparr>]"

definition linear_endpoints :: "endpoint_spec list" where
  "linear_endpoints =
    [
     \<lparr>ep_id = ''linear.viewer.read'', ep_name = ''Read the connected user'',
      ep_description = ''Read the authenticated user's profile (viewer).'',
      ep_matches =
       [GraphQLOp ''query'' ''viewer'' None],
      ep_default = ALWAYS\<rparr>,
     \<lparr>ep_id = ''linear.teams.read'', ep_name = ''Read teams'',
      ep_description = ''List the workspace's teams.'',
      ep_matches =
       [GraphQLOp ''query'' ''teams'' None],
      ep_default = ALWAYS\<rparr>,
     \<lparr>ep_id = ''linear.issues.read'', ep_name = ''Read issues'',
      ep_description = ''List, fetch, and search issues.'',
      ep_matches =
       [GraphQLOp ''query'' ''issues'' None,
        GraphQLOp ''query'' ''issue'' None,
        GraphQLOp ''query'' ''issueSearch'' None],
      ep_default = ALWAYS\<rparr>,
     \<lparr>ep_id = ''linear.projects.read'', ep_name = ''Read projects'',
      ep_description = ''List projects.'',
      ep_matches =
       [GraphQLOp ''query'' ''projects'' None],
      ep_default = ALWAYS\<rparr>,
     \<lparr>ep_id = ''linear.issues.create'', ep_name = ''Create an issue'',
      ep_description = ''Create a new issue.'',
      ep_matches =
       [GraphQLOp ''mutation'' ''issueCreate'' None],
      ep_default = ASK\<rparr>,
     \<lparr>ep_id = ''linear.comments.create'', ep_name = ''Comment on an issue'',
      ep_description = ''Add a comment to an issue.'',
      ep_matches =
       [GraphQLOp ''mutation'' ''commentCreate'' None],
      ep_default = ASK\<rparr>,
     \<lparr>ep_id = ''linear.projects.create'', ep_name = ''Create a project'',
      ep_description = ''Create a new project.'',
      ep_matches =
       [GraphQLOp ''mutation'' ''projectCreate'' None],
      ep_default = ASK\<rparr>,
     \<lparr>ep_id = ''linear.projects.update'', ep_name = ''Edit a project'',
      ep_description = ''Update an existing project.'',
      ep_matches =
       [GraphQLOp ''mutation'' ''projectUpdate'' None],
      ep_default = ASK\<rparr>]"

definition github_endpoints :: "endpoint_spec list" where
  "github_endpoints =
    [
     \<lparr>ep_id = ''github.user.read'', ep_name = ''Read the connected user'',
      ep_description = ''Read the authenticated user's profile.'',
      ep_matches =
       [RestRoute ''GET'' ''/user'' None,
        GraphQLOp ''query'' ''viewer'' None],
      ep_default = ALWAYS\<rparr>,
     \<lparr>ep_id = ''github.repos.read'', ep_name = ''Read repositories'',
      ep_description = ''List the user's repositories and fetch a single repo.'',
      ep_matches =
       [RestRoute ''GET'' ''/user/repos'' None,
        RestRoute ''GET'' ''/repos/{owner}/{repo}'' None],
      ep_default = ALWAYS\<rparr>,
     \<lparr>ep_id = ''github.issues.read'', ep_name = ''Read issues'',
      ep_description = ''List a repo's issues and fetch a single issue with its comments.'',
      ep_matches =
       [RestRoute ''GET'' ''/repos/{owner}/{repo}/issues'' None,
        RestRoute ''GET'' ''/repos/{owner}/{repo}/issues/{number}'' None,
        RestRoute ''GET'' ''/repos/{owner}/{repo}/issues/{number}/comments'' None],
      ep_default = ALWAYS\<rparr>,
     \<lparr>ep_id = ''github.pulls.read'', ep_name = ''Read pull requests'',
      ep_description = ''List a repo's pull requests and fetch a single pull request.'',
      ep_matches =
       [RestRoute ''GET'' ''/repos/{owner}/{repo}/pulls'' None,
        RestRoute ''GET'' ''/repos/{owner}/{repo}/pulls/{number}'' None],
      ep_default = ALWAYS\<rparr>,
     \<lparr>ep_id = ''github.search.read'', ep_name = ''Search'',
      ep_description = ''Search repositories, issues, and pull requests.'',
      ep_matches =
       [RestRoute ''GET'' ''/search/repositories'' None,
        RestRoute ''GET'' ''/search/issues'' None,
        GraphQLOp ''query'' ''search'' None],
      ep_default = ALWAYS\<rparr>,
     \<lparr>ep_id = ''github.graphql.repo.read'', ep_name = ''Read repos, issues, and PRs via the GitHub CLI'',
      ep_description = (''Read repository-scoped data (the repo, its issues, and its pull requests) through GitHub's GraphQL API '' @ [CHR 0xE2, CHR 0x80, CHR 0x94] @ '' the path `gh repo/pr/issue view` and `list` take.''),
      ep_matches =
       [GraphQLOp ''query'' ''repository'' None,
        GraphQLOp ''query'' ''repositoryOwner'' None],
      ep_default = ALWAYS\<rparr>,
     \<lparr>ep_id = ''github.refs.read'', ep_name = ''Read branches and refs'',
      ep_description = ''List branches and read a branch or git ref (its SHA).'',
      ep_matches =
       [RestRoute ''GET'' ''/repos/{owner}/{repo}/branches'' None,
        RestRoute ''GET'' ''/repos/{owner}/{repo}/branches/{branch...}'' None,
        RestRoute ''GET'' ''/repos/{owner}/{repo}/git/ref/{ref...}'' None,
        RestRoute ''GET'' ''/repos/{owner}/{repo}/git/refs'' None,
        RestRoute ''GET'' ''/repos/{owner}/{repo}/git/refs/{ref...}'' None,
        RestRoute ''GET'' ''/repos/{owner}/{repo}/git/matching-refs/{ref...}'' None],
      ep_default = ALWAYS\<rparr>,
     \<lparr>ep_id = ''github.contents.read'', ep_name = ''Read file contents'',
      ep_description = ''Read a file or directory's contents (and the README).'',
      ep_matches =
       [RestRoute ''GET'' ''/repos/{owner}/{repo}/contents'' None,
        RestRoute ''GET'' ''/repos/{owner}/{repo}/contents/{path...}'' None,
        RestRoute ''GET'' ''/repos/{owner}/{repo}/readme'' None,
        RestRoute ''GET'' ''/repos/{owner}/{repo}/readme/{dir...}'' None],
      ep_default = ALWAYS\<rparr>,
     \<lparr>ep_id = ''github.git_data.read'', ep_name = ''Read commits and git objects'',
      ep_description = ''Read commits, trees, and blobs (the git object graph).'',
      ep_matches =
       [RestRoute ''GET'' ''/repos/{owner}/{repo}/git/trees/{sha}'' None,
        RestRoute ''GET'' ''/repos/{owner}/{repo}/git/blobs/{sha}'' None,
        RestRoute ''GET'' ''/repos/{owner}/{repo}/git/commits/{sha}'' None,
        RestRoute ''GET'' ''/repos/{owner}/{repo}/commits'' None,
        RestRoute ''GET'' ''/repos/{owner}/{repo}/commits/{ref...}'' None],
      ep_default = ALWAYS\<rparr>,
     \<lparr>ep_id = ''github.releases.read'', ep_name = ''Read releases'',
      ep_description = ''List releases and read a single release, asset, or tag.'',
      ep_matches =
       [RestRoute ''GET'' ''/repos/{owner}/{repo}/releases'' None,
        RestRoute ''GET'' ''/repos/{owner}/{repo}/releases/{release...}'' None],
      ep_default = ALWAYS\<rparr>,
     \<lparr>ep_id = ''github.issues.create'', ep_name = ''Create an issue'',
      ep_description = ''Open a new issue in a repository.'',
      ep_matches =
       [RestRoute ''POST'' ''/repos/{owner}/{repo}/issues'' None,
        GraphQLOp ''mutation'' ''createIssue'' None],
      ep_default = ASK\<rparr>,
     \<lparr>ep_id = ''github.comments.create'', ep_name = ''Comment on an issue'',
      ep_description = ''Add a comment to an issue or pull request.'',
      ep_matches =
       [RestRoute ''POST'' ''/repos/{owner}/{repo}/issues/{number}/comments'' None,
        GraphQLOp ''mutation'' ''addComment'' None],
      ep_default = ASK\<rparr>,
     \<lparr>ep_id = ''github.contents.write'', ep_name = ''Create, update, or delete files'',
      ep_description = ''Write or delete a file in a repository (a single-file commit).'',
      ep_matches =
       [RestRoute ''PUT'' ''/repos/{owner}/{repo}/contents/{path...}'' None,
        RestRoute ''DELETE'' ''/repos/{owner}/{repo}/contents/{path...}'' None],
      ep_default = ASK\<rparr>,
     \<lparr>ep_id = ''github.refs.write'', ep_name = ''Create, update, or delete branches'',
      ep_description = ''Create a branch/ref, move it, or delete it.'',
      ep_matches =
       [RestRoute ''POST'' ''/repos/{owner}/{repo}/git/refs'' None,
        RestRoute ''PATCH'' ''/repos/{owner}/{repo}/git/refs/{ref...}'' None,
        RestRoute ''DELETE'' ''/repos/{owner}/{repo}/git/refs/{ref...}'' None],
      ep_default = ASK\<rparr>,
     \<lparr>ep_id = ''github.pulls.create'', ep_name = ''Open a pull request'',
      ep_description = ''Open a new pull request.'',
      ep_matches =
       [RestRoute ''POST'' ''/repos/{owner}/{repo}/pulls'' None,
        GraphQLOp ''mutation'' ''createPullRequest'' None],
      ep_default = ASK\<rparr>]"

definition hubspot_endpoints :: "endpoint_spec list" where
  "hubspot_endpoints =
    [
     \<lparr>ep_id = ''hubspot.owners.read'', ep_name = ''Read owners'',
      ep_description = ''List CRM owners and fetch a single owner.'',
      ep_matches =
       [RestRoute ''GET'' ''/crm/v3/owners'' None,
        RestRoute ''GET'' ''/crm/v3/owners/{owner_id}'' None],
      ep_default = ALWAYS\<rparr>,
     \<lparr>ep_id = ''hubspot.contacts.read'', ep_name = ''Read contacts'',
      ep_description = ''List contacts and fetch a single contact.'',
      ep_matches =
       [RestRoute ''GET'' ''/crm/v3/objects/contacts'' None,
        RestRoute ''GET'' ''/crm/v3/objects/contacts/{contact_id}'' None],
      ep_default = ALWAYS\<rparr>,
     \<lparr>ep_id = ''hubspot.companies.read'', ep_name = ''Read companies'',
      ep_description = ''List companies and fetch a single company.'',
      ep_matches =
       [RestRoute ''GET'' ''/crm/v3/objects/companies'' None,
        RestRoute ''GET'' ''/crm/v3/objects/companies/{company_id}'' None],
      ep_default = ALWAYS\<rparr>,
     \<lparr>ep_id = ''hubspot.deals.read'', ep_name = ''Read deals'',
      ep_description = ''List deals and fetch a single deal.'',
      ep_matches =
       [RestRoute ''GET'' ''/crm/v3/objects/deals'' None,
        RestRoute ''GET'' ''/crm/v3/objects/deals/{deal_id}'' None],
      ep_default = ALWAYS\<rparr>,
     \<lparr>ep_id = ''hubspot.crm.search'', ep_name = ''Search the CRM'',
      ep_description = ''Search contacts, companies, and deals by filters.'',
      ep_matches =
       [RestRoute ''POST'' ''/crm/v3/objects/contacts/search'' None,
        RestRoute ''POST'' ''/crm/v3/objects/companies/search'' None,
        RestRoute ''POST'' ''/crm/v3/objects/deals/search'' None],
      ep_default = ALWAYS\<rparr>,
     \<lparr>ep_id = ''hubspot.contacts.write'', ep_name = ''Create or update contacts'',
      ep_description = ''Create a new contact or update an existing one.'',
      ep_matches =
       [RestRoute ''POST'' ''/crm/v3/objects/contacts'' None,
        RestRoute ''PATCH'' ''/crm/v3/objects/contacts/{contact_id}'' None],
      ep_default = ASK\<rparr>,
     \<lparr>ep_id = ''hubspot.companies.write'', ep_name = ''Create or update companies'',
      ep_description = ''Create a new company or update an existing one.'',
      ep_matches =
       [RestRoute ''POST'' ''/crm/v3/objects/companies'' None,
        RestRoute ''PATCH'' ''/crm/v3/objects/companies/{company_id}'' None],
      ep_default = ASK\<rparr>,
     \<lparr>ep_id = ''hubspot.deals.write'', ep_name = ''Create or update deals'',
      ep_description = ''Create a new deal or update an existing one.'',
      ep_matches =
       [RestRoute ''POST'' ''/crm/v3/objects/deals'' None,
        RestRoute ''PATCH'' ''/crm/v3/objects/deals/{deal_id}'' None],
      ep_default = ASK\<rparr>]"

section \<open>The providers\<close>

definition slack_spec :: provider_spec where
  "slack_spec = \<lparr>ps_app_type = SLACK, ps_app_name = ''Slack'',
     ps_oauth = \<lparr>of_authorize_url = ''https://slack.com/oauth/v2/authorize'',
       of_token_url = ''https://slack.com/api/oauth.v2.access'',
       of_scope = ''channels:history,channels:read,chat:write,groups:history,groups:read,im:history,im:read,im:write,search:read,users:read'',
       of_scope_param = ''user_scope'', of_extra_params = []\<rparr>,
     ps_description = ''Read your Slack messages and channels as context inside Onyx Craft.'',
     ps_url_patterns = [(''https://slack'' @ [CHR 0x5C] @ ''.com/api/.*'')],
     ps_auth_template = [(''Authorization'', ''Bearer {access_token}'')],
     ps_org_fields = [(''client_id'', False), (''client_secret'', True)],
     ps_catalog = slack_endpoints\<rparr>"

definition google_calendar_spec :: provider_spec where
  "google_calendar_spec = build_google_spec GOOGLE_CALENDAR ''Google Calendar''
     ''https://www.googleapis.com/auth/calendar''
     [(''https://www'' @ [CHR 0x5C] @ ''.googleapis'' @ [CHR 0x5C] @ ''.com/calendar/.*'')]
     ''Read and create events on your Google Calendar from inside Onyx Craft.'' google_calendar_endpoints"

definition google_drive_spec :: provider_spec where
  "google_drive_spec = build_google_spec GOOGLE_DRIVE ''Google Drive''
     ''https://www.googleapis.com/auth/drive''
     [(''https://www'' @ [CHR 0x5C] @ ''.googleapis'' @ [CHR 0x5C] @ ''.com/drive/.*''), (''https://www'' @ [CHR 0x5C] @ ''.googleapis'' @ [CHR 0x5C] @ ''.com/upload/drive/.*''), (''https://docs'' @ [CHR 0x5C] @ ''.googleapis'' @ [CHR 0x5C] @ ''.com/.*'')]
     ''Search, read, create, and edit files and Google Docs in your Google Drive inside Onyx Craft.'' google_drive_endpoints"

definition gmail_spec :: provider_spec where
  "gmail_spec = build_google_spec GMAIL ''Gmail''
     ''https://www.googleapis.com/auth/gmail.modify''
     [(''https://gmail'' @ [CHR 0x5C] @ ''.googleapis'' @ [CHR 0x5C] @ ''.com/gmail/.*'')]
     ''Read, search, send, and draft email from your Gmail account inside Onyx Craft.'' gmail_endpoints"

definition linear_spec :: provider_spec where
  "linear_spec = \<lparr>ps_app_type = LINEAR, ps_app_name = ''Linear'',
     ps_oauth = \<lparr>of_authorize_url = ''https://linear.app/oauth/authorize'',
       of_token_url = ''https://api.linear.app/oauth/token'',
       of_scope = ''read,write'',
       of_scope_param = ''scope'', of_extra_params = [(''response_type'', ''code''), (''actor'', ''user'')]\<rparr>,
     ps_description = ''Read and create issues, projects, and comments in Linear on the user's behalf.'',
     ps_url_patterns = [(''https://api'' @ [CHR 0x5C] @ ''.linear'' @ [CHR 0x5C] @ ''.app/.*'')],
     ps_auth_template = [(''Authorization'', ''Bearer {access_token}'')],
     ps_org_fields = [(''client_id'', False), (''client_secret'', True)],
     ps_catalog = linear_endpoints\<rparr>"

definition github_spec :: provider_spec where
  "github_spec = \<lparr>ps_app_type = GITHUB, ps_app_name = ''GitHub'',
     ps_oauth = \<lparr>of_authorize_url = ''https://github.com/login/oauth/authorize'',
       of_token_url = ''https://github.com/login/oauth/access_token'',
       of_scope = ''repo read:org read:user'',
       of_scope_param = ''scope'', of_extra_params = []\<rparr>,
     ps_description = ''Read repositories, issues, and pull requests, open new issues, and add comments in GitHub on the user's behalf.'',
     ps_url_patterns = [(''https://api'' @ [CHR 0x5C] @ ''.github'' @ [CHR 0x5C] @ ''.com/.*'')],
     ps_auth_template = [(''Authorization'', ''Bearer {access_token}'')],
     ps_org_fields = [(''client_id'', False), (''client_secret'', True)],
     ps_catalog = github_endpoints\<rparr>"

definition hubspot_spec :: provider_spec where
  "hubspot_spec = \<lparr>ps_app_type = HUBSPOT, ps_app_name = ''HubSpot'',
     ps_oauth = \<lparr>of_authorize_url = ''https://app.hubspot.com/oauth/authorize'',
       of_token_url = ''https://api.hubapi.com/oauth/v1/token'',
       of_scope = ''oauth crm.objects.owners.read crm.objects.contacts.read crm.objects.contacts.write crm.objects.companies.read crm.objects.companies.write crm.objects.deals.read crm.objects.deals.write'',
       of_scope_param = ''scope'', of_extra_params = []\<rparr>,
     ps_description = ''Read and manage HubSpot CRM contacts, companies, and deals on the user's behalf.'',
     ps_url_patterns = [(''https://api'' @ [CHR 0x5C] @ ''.hubapi'' @ [CHR 0x5C] @ ''.com/.*'')],
     ps_auth_template = [(''Authorization'', ''Bearer {access_token}'')],
     ps_org_fields = [(''client_id'', False), (''client_secret'', True)],
     ps_catalog = hubspot_endpoints\<rparr>"

text \<open>\<open>_build_providers\<close> refuses two providers of one type.\<close>

definition provider_specs :: "provider_spec list" where
  "provider_specs = [slack_spec, google_calendar_spec, google_drive_spec, gmail_spec, linear_spec,
     github_spec, hubspot_spec]"

fun build_providers :: "provider_spec list \<Rightarrow> (app_type, provider_spec) dict \<Rightarrow> (app_type, provider_spec) dict result" where
  "build_providers [] providers = Inr providers"
| "build_providers (p # ps) providers =
     (if dict_get providers (ps_app_type p) \<noteq> None then Inl RuntimeError
      else build_providers ps (dict_set (ps_app_type p) p providers))"

definition providers :: "(app_type, provider_spec) dict" where
  "providers = map (\<lambda>p. (ps_app_type p, p)) provider_specs"

lemma providers_built: "build_providers provider_specs [] = Inr providers"
  by (simp add: provider_specs_def providers_def slack_spec_def google_calendar_spec_def google_drive_spec_def
      gmail_spec_def linear_spec_def github_spec_def hubspot_spec_def build_google_spec_def)

definition get_endpoint_catalog :: "app_type \<Rightarrow> endpoint_spec list" where
  "get_endpoint_catalog t = (case dict_get providers t of Some p \<Rightarrow> ps_catalog p | None \<Rightarrow> [])"

lemmas catalog_defs = slack_endpoints_def google_calendar_endpoints_def google_drive_endpoints_def
  gmail_endpoints_def linear_endpoints_def github_endpoints_def hubspot_endpoints_def

lemma endpoint_catalogs [simp]:
  "get_endpoint_catalog SLACK = slack_endpoints" "get_endpoint_catalog GOOGLE_CALENDAR = google_calendar_endpoints"
  "get_endpoint_catalog GOOGLE_DRIVE = google_drive_endpoints" "get_endpoint_catalog GMAIL = gmail_endpoints"
  "get_endpoint_catalog LINEAR = linear_endpoints" "get_endpoint_catalog GITHUB = github_endpoints"
  "get_endpoint_catalog HUBSPOT = hubspot_endpoints" "get_endpoint_catalog CUSTOM = []"
  by (simp_all add: get_endpoint_catalog_def providers_def provider_specs_def slack_spec_def
      google_calendar_spec_def google_drive_spec_def gmail_spec_def linear_spec_def github_spec_def
      hubspot_spec_def build_google_spec_def)

section \<open>What the catalogs keep\<close>

definition well_formed_rule :: "match_rule \<Rightarrow> bool" where
  "well_formed_rule r = (case r of
     RestRoute m p x \<Rightarrow> rest_route m p x = Inr r \<and> prefix ''/'' p
   | GraphQLOp t f _ \<Rightarrow> t \<in> set [''query'', ''mutation'', ''subscription''] \<and> f \<noteq> [])"

text \<open>A rule that changes or deletes existing data.\<close>

definition destructive_rule :: "match_rule \<Rightarrow> bool" where
  "destructive_rule r = (case r of
     RestRoute m _ _ \<Rightarrow> m \<in> set [''DELETE'', ''PATCH'']
   | GraphQLOp t _ _ \<Rightarrow> t = ''mutation'')"

definition well_formed_endpoint :: "endpoint_spec \<Rightarrow> bool" where
  "well_formed_endpoint e \<longleftrightarrow> ep_matches e \<noteq> [] \<and> list_all well_formed_rule (ep_matches e)
     \<and> (list_ex destructive_rule (ep_matches e) \<longrightarrow> ep_default e = ASK)"

definition all_endpoints :: "endpoint_spec list" where
  "all_endpoints = concat (map ps_catalog provider_specs)"


end
