(* ===== verification/Masking.thy ===== *)
theory Masking
  imports PyValue
begin

text \<open>
  Masked credentials: \<open>mask_string\<close>, \<open>is_masked_credential\<close>, \<open>mask_credential_dict\<close> and
  \<open>reject_masked_credentials\<close> of \<open>onyx/utils/encryption.py\<close>, and the restoring of secrets a form
  echoes back masked (\<open>resolve_masked_credentials\<close> of \<open>onyx/db/external_app.py\<close>).  Characters have
  eight bits here; the bullet U+2022 has its place in the Windows-1252 code page.
\<close>

section \<open>Masks\<close>

definition mask_char :: char where "mask_char = CHR 0x95"

definition mask_string :: "string \<Rightarrow> string" where
  "mask_string s = (if length s < 14 then replicate 12 mask_char
     else take 4 s @ ''...'' @ drop (length s - 4) s)"

text \<open>\<open>^.{4}\.{3}.{4}$\<close>: the dollar also matches before a final line feed.\<close>

definition mask_long_re :: "string \<Rightarrow> bool" where
  "mask_long_re s \<longleftrightarrow>
     (let t = (if length s = 12 \<and> last s = CHR 0x0A then butlast s else s) in
      length t = 11 \<and> take 3 (drop 4 t) = ''...'' \<and> CHR 0x0A \<notin> set t)"

definition is_masked_credential :: "string \<Rightarrow> bool" where
  "is_masked_credential s \<longleftrightarrow> mask_char \<in> set s \<or> mask_long_re s"

definition mask_whitelist :: "string list" where
  "mask_whitelist = [''authentication_method'', ''wiki_base'', ''cloud_name'', ''cloud_id'']"

text \<open>The first argument says whether the value stands under a whitelisted key.\<close>

fun mask_value :: "bool \<Rightarrow> pyval \<Rightarrow> pyval" where
  "mask_value w PNone = PNone"
| "mask_value w (PBool b) = PBool b"
| "mask_value w (PInt i) = PStr ''*****''"
| "mask_value w (PStr s) = PStr (if w then s else mask_string s)"
| "mask_value w (PList xs) = PList (map (mask_value False) xs)"
| "mask_value w (PDict d) = PDict (map (\<lambda>(k, v). (k, mask_value (k \<in> set mask_whitelist) v)) d)"

definition mask_credential_dict :: "(string, pyval) dict \<Rightarrow> (string, pyval) dict" where
  "mask_credential_dict d = map (\<lambda>(k, v). (k, mask_value (k \<in> set mask_whitelist) v)) d"

fun all_ok :: "unit result list \<Rightarrow> unit result" where
  "all_ok [] = Inr ()"
| "all_ok (r # rs) = bind_r r (\<lambda>_. all_ok rs)"

fun reject_masked_in_value :: "pyval \<Rightarrow> unit result" where
  "reject_masked_in_value (PStr s) = (if is_masked_credential s then Inl ValueError else Inr ())"
| "reject_masked_in_value (PDict d) = all_ok (map (\<lambda>(k, v). reject_masked_in_value v) d)"
| "reject_masked_in_value (PList xs) = all_ok (map reject_masked_in_value xs)"
| "reject_masked_in_value v = Inr ()"

definition reject_masked_credentials :: "(string, pyval) dict \<Rightarrow> unit result" where
  "reject_masked_credentials d = reject_masked_in_value (PDict d)"

fun resolve_masked :: "(string, string) dict \<Rightarrow> (string, pyval) dict \<Rightarrow> (string, pyval) dict \<Rightarrow> (string, pyval) dict result" where
  "resolve_masked [] existing resolved = Inr resolved"
| "resolve_masked ((k, v) # d) existing resolved =
     (if is_masked_credential v then
        (case dict_get existing k of
           None \<Rightarrow> Inl (OnyxError INVALID_INPUT)
         | Some old \<Rightarrow> resolve_masked d existing (dict_set k old resolved))
      else resolve_masked d existing (dict_set k (PStr v) resolved))"

definition resolve_masked_credentials ::
  "(string, string) dict \<Rightarrow> (string, pyval) dict option \<Rightarrow> (string, pyval) dict result" where
  "resolve_masked_credentials incoming existing =
     resolve_masked incoming (case existing of None \<Rightarrow> [] | Some d \<Rightarrow> d) []"

section \<open>Which masks are recognised\<close>

definition visible_part :: "string \<Rightarrow> string" where
  "visible_part s = take 4 s @ drop (length s - 4) s"

text \<open>A long secret is told from its mask by the shape of the mask, which a line feed among the visible
  characters breaks.\<close>

definition recoverable :: "string \<Rightarrow> bool" where
  "recoverable s \<longleftrightarrow> length s < 14 \<or> mask_char \<in> set (visible_part s) \<or> CHR 0x0A \<notin> set (visible_part s)"

lemma mask_recognised_iff: "is_masked_credential (mask_string s) \<longleftrightarrow> recoverable s"
proof (cases "length s < 14")
  case True
  then show ?thesis by (simp add: recoverable_def is_masked_credential_def mask_string_def)
next
  case False
  let ?m = "take 4 s @ ''...'' @ drop (length s - 4) s"
  have len: "length ?m = 11" using False by simp
  have mid: "take 3 (drop 4 ?m) = ''...''" using False by simp
  have "mask_char \<in> set ?m \<longleftrightarrow> mask_char \<in> set (visible_part s)"
    by (auto simp: visible_part_def mask_char_def)
  moreover have "CHR 0x0A \<in> set ?m \<longleftrightarrow> CHR 0x0A \<in> set (visible_part s)"
    by (auto simp: visible_part_def)
  ultimately show ?thesis using False len mid
    by (simp add: recoverable_def is_masked_credential_def mask_string_def mask_long_re_def Let_def)
qed
section \<open>Forms that echo masks\<close>

definition text_creds :: "(string, string) dict \<Rightarrow> (string, pyval) dict" where
  "text_creds d = map (\<lambda>(k, s). (k, PStr s)) d"

lemma text_creds_inj: "text_creds d = text_creds e \<longleftrightarrow> d = e"
  unfolding text_creds_def by (rule inj_map_eq_map) (auto simp: inj_on_def)

lemma resolve_masked_fresh:
  assumes "\<forall>(k, v) \<in> set form. is_masked_credential v \<longrightarrow> dict_get existing k \<noteq> None"
    and "distinct (map fst form)" and "fst ` set form \<inter> fst ` set acc = {}"
  shows "resolve_masked form existing acc
    = Inr (acc @ map (\<lambda>(k, v). (k, if is_masked_credential v then the (dict_get existing k) else PStr v)) form)"
  using assms
proof (induction form arbitrary: acc)
  case (Cons p form)
  obtain k v where p: "p = (k, v)" by (cases p)
  define x where "x = (if is_masked_credential v then the (dict_get existing k) else PStr v)"
  have "dict_set k x acc = acc @ [(k, x)]" using Cons.prems(3) p by (auto intro: dict_set_fresh)
  moreover have "resolve_masked (p # form) existing acc = resolve_masked form existing (dict_set k x acc)"
    using Cons.prems(1) p by (auto simp: x_def)
  moreover have "resolve_masked form existing (acc @ [(k, x)])
      = Inr ((acc @ [(k, x)]) @ map (\<lambda>(k, v). (k, if is_masked_credential v then the (dict_get existing k) else PStr v)) form)"
    by (rule Cons.IH) (use Cons.prems p in \<open>auto simp: image_iff\<close>)
  ultimately show ?case by (simp add: p x_def)
qed simp

lemma mask_text_creds:
  "mask_credential_dict (text_creds creds)
    = text_creds (map (\<lambda>(k, s). (k, if k \<in> set mask_whitelist then s else mask_string s)) creds)"
  by (auto simp: mask_credential_dict_def text_creds_def)

lemma mask_string_neq: "\<not> recoverable s \<Longrightarrow> mask_string s \<noteq> s"
  by (auto simp: recoverable_def mask_string_def dest: arg_cong [where f = length])

text \<open>C32: An unchanged form keeps the stored secrets.  A form shows every text credential masked and is
  sent back unedited; restoring it yields the stored credentials exactly when each secret outside the
  whitelist is short, or none of its first and last four characters is a line feed (or one of them is
  the mask character).  A long secret that ends in a line feed, as a PEM key does, is overwritten by its
  own mask.\<close>

theorem unchanged_form_keeps_secrets:
  assumes "distinct (map fst creds)" and "mask_credential_dict (text_creds creds) = text_creds form"
  shows "resolve_masked_credentials form (Some (text_creds creds)) = Inr (text_creds creds)
    \<longleftrightarrow> (\<forall>(k, s) \<in> set creds. k \<in> set mask_whitelist \<or> recoverable s)"
proof -
  define shown where "shown = (\<lambda>(k :: string, s). if k \<in> set mask_whitelist then s else mask_string s)"
  have form: "form = map (\<lambda>p. (fst p, shown p)) creds"
    using assms(2) by (simp add: mask_text_creds text_creds_inj shown_def case_prod_unfold)
  have get: "dict_get (text_creds creds) k = Some (PStr s)" if "(k, s) \<in> set creds" for k s
    using that assms(1) unfolding dict_get_def text_creds_def
    by (intro map_of_is_SomeI) (force simp: comp_def case_prod_unfold)+
  have "resolve_masked_credentials form (Some (text_creds creds))
      = Inr (map (\<lambda>(k, v). (k, if is_masked_credential v then the (dict_get (text_creds creds) k) else PStr v)) form)"
    unfolding resolve_masked_credentials_def option.case
  proof (subst resolve_masked_fresh)
    show "\<forall>(k, v) \<in> set form. is_masked_credential v \<longrightarrow> dict_get (text_creds creds) k \<noteq> None"
      using get by (fastforce simp: form)
    show "distinct (map fst form)" using assms(1) by (simp add: form comp_def)
  qed simp_all
  also have "\<dots> = Inr (map (\<lambda>(k, s). (k, if is_masked_credential (shown (k, s)) then PStr s else PStr (shown (k, s)))) creds)"
    by (auto simp: form get)
  finally have "resolve_masked_credentials form (Some (text_creds creds)) = Inr (text_creds creds)
      \<longleftrightarrow> (\<forall>(k, s) \<in> set creds. is_masked_credential (shown (k, s)) \<or> shown (k, s) = s)"
    by (fastforce simp: text_creds_def split: if_splits)
  also have "\<dots> \<longleftrightarrow> (\<forall>(k, s) \<in> set creds. k \<in> set mask_whitelist \<or> recoverable s)"
    using mask_string_neq by (auto simp: shown_def mask_recognised_iff split: if_splits)
  finally show ?thesis .
qed

definition example_creds :: "(string, string) dict" where
  "example_creds = [(''cloud_id'', ''abc''), (''private_key'', ''-----END PRIVATE KEY-----'' @ [CHR 0x0A])]"

lemma unchanged_form_keeps_secrets_witness:
  "resolve_masked_credentials [(''cloud_id'', ''abc''), (''private_key'', ''----...---'' @ [CHR 0x0A])]
      (Some (text_creds example_creds)) \<noteq> Inr (text_creds example_creds)"
proof -
  have d: "distinct (map fst example_creds)" by code_simp
  have m: "mask_credential_dict (text_creds example_creds)
      = text_creds [(''cloud_id'', ''abc''), (''private_key'', ''----...---'' @ [CHR 0x0A])]"
    by code_simp
  have "\<not> (\<forall>(k, s) \<in> set example_creds. k \<in> set mask_whitelist \<or> recoverable s)" by code_simp
  then show ?thesis using unchanged_form_keeps_secrets [OF d m] by blast
qed

end
