(* ===== verification/AppStore.thy ===== *)
theory AppStore
  imports AppCatalogs UrlPatterns Masking
begin

text \<open>
  The external apps a tenant has connected: their tables and queries (\<open>onyx/db/external_app.py\<close>), the
  built-in skills behind them, the per-action policies (\<open>onyx/external_apps/providers/registry.py\<close>), the
  endpoints of the administrator (\<open>server/features/build/external_apps/api.py\<close>) and the headers
  injected into a request (\<open>onyx/external_apps/credentials.py\<close>).  The row of the skill behind an app
  is part of the app's row; skills without an app are known by their slugs.  An operation that raises
  is rolled back by its caller, so its model returns the error alone.
\<close>

section \<open>Tables\<close>

record skill_row =
  sk_slug :: string
  sk_name :: string
  sk_description :: string
  sk_enabled :: bool
  sk_public :: bool
  sk_built_in :: "string option"
  sk_bundle_file_id :: "string option"
  sk_bundle_sha256 :: "string option"

record external_app =
  ea_id :: int
  ea_type :: app_type
  ea_skill :: skill_row
  ea_patterns :: "string list"
  ea_auth_template :: "(string, pyval) dict"
  ea_org_credentials :: "(string, pyval) dict"

record app_user_credential =
  auc_app :: int
  auc_user :: uuid
  auc_credentials :: "(string, pyval) dict"

record app_policy =
  ap_app :: int
  ap_action :: string
  ap_policy :: endpoint_policy

record app_db =
  t_apps :: "external_app list"
  t_app_policies :: "app_policy list"
  t_app_user_creds :: "app_user_credential list"
  t_other_slugs :: "string list"

definition upstream_url_regexes :: "external_app \<Rightarrow> string list" where
  "upstream_url_regexes app = (if ea_type app = CUSTOM then map to_regex (ea_patterns app) else ea_patterns app)"

section \<open>Queries\<close>

definition get_external_app_by_id :: "app_db \<Rightarrow> int \<Rightarrow> external_app option" where
  "get_external_app_by_id db app_id = find (\<lambda>a. ea_id a = app_id) (t_apps db)"

definition get_external_apps :: "app_db \<Rightarrow> external_app list" where
  "get_external_apps db = sort_key ea_id (t_apps db)"

definition get_policies :: "app_db \<Rightarrow> int \<Rightarrow> (string, endpoint_policy) dict" where
  "get_policies db app_id = dict_update []
     (map (\<lambda>r. (ap_action r, ap_policy r)) (filter (\<lambda>r. ap_app r = app_id) (t_app_policies db)))"

definition get_external_app_user_credential :: "app_db \<Rightarrow> int \<Rightarrow> uuid \<Rightarrow> app_user_credential option" where
  "get_external_app_user_credential db app_id user_id =
     find (\<lambda>r. auc_app r = app_id \<and> auc_user r = user_id) (t_app_user_creds db)"

definition get_user_credentials_by_app_id :: "app_db \<Rightarrow> uuid \<Rightarrow> (int, app_user_credential) dict" where
  "get_user_credentials_by_app_id db user_id = dict_update []
     (map (\<lambda>r. (auc_app r, r)) (filter (\<lambda>r. auc_user r = user_id) (t_app_user_creds db)))"

section \<open>Header templates\<close>

lemma length_after_dropWhile [termination_simp]: "length (dropWhile P s) - Suc 0 < Suc (length s)"
  using length_dropWhile_le [of P s] by linarith

definition is_name_char :: "char \<Rightarrow> bool" where
  "is_name_char c \<longleftrightarrow> is_alnum c \<or> c = CHR ''_''"

definition is_digit :: "char \<Rightarrow> bool" where
  "is_digit c = (let n = (of_char c :: nat) in 48 \<le> n \<and> n \<le> 57)"

definition is_identifier :: "string \<Rightarrow> bool" where
  "is_identifier s \<longleftrightarrow> s \<noteq> [] \<and> \<not> is_digit (hd s) \<and> list_all is_name_char s"

text \<open>\<open>_PLACEHOLDER_RE.findall\<close>\<close>

fun placeholders :: "string \<Rightarrow> string list" where
  "placeholders [] = []"
| "placeholders (c # s) =
    (if c = CHR ''{'' then
       (let name = takeWhile is_name_char s; rest = dropWhile is_name_char s in
        if is_identifier name \<and> rest \<noteq> [] \<and> hd rest = CHR ''}'' then name # placeholders (tl rest)
        else placeholders s)
     else placeholders s)"

definition placeholders_in_template :: "(string, pyval) dict \<Rightarrow> string set" where
  "placeholders_in_template auth_template =
     (\<Union>(k, v) \<in> set auth_template. case v of PStr t \<Rightarrow> set (placeholders t) | _ \<Rightarrow> {})"

definition required_user_credential_keys :: "(string, pyval) dict \<Rightarrow> (string, pyval) dict \<Rightarrow> string list" where
  "required_user_credential_keys auth_template organization_credentials =
     sorted_list_of_set (placeholders_in_template auth_template - fst ` set organization_credentials)"

definition is_user_authenticated_for_app :: "external_app \<Rightarrow> app_user_credential option \<Rightarrow> bool" where
  "is_user_authenticated_for_app app user_cred =
    (let required = required_user_credential_keys (ea_auth_template app) (ea_org_credentials app) in
     if required = [] then True
     else case user_cred of
         None \<Rightarrow> False
       | Some r \<Rightarrow> list_all (\<lambda>k. k \<in> fst ` set (auc_credentials r)) required)"

definition validate_auth_template :: "(string, pyval) dict \<Rightarrow> (string, pyval) dict \<Rightarrow> unit result" where
  "validate_auth_template auth_template organization_credentials =
    (if list_ex (\<lambda>(k, v). strip k = [] \<or> (case v of PStr t \<Rightarrow> strip t = [] | _ \<Rightarrow> True)) auth_template
     then Inl (OnyxError INVALID_INPUT)
     else if list_ex (\<lambda>(k, v). strip k = []) organization_credentials then Inl (OnyxError INVALID_INPUT)
     else Inr ())"

text \<open>\<open>str.format\<close> with named fields.  A template with any other field syntax is left to an argument.\<close>

datatype format_item = Chr char | Field string

fun format_items :: "string \<Rightarrow> format_item list option" where
  "format_items [] = Some []"
| "format_items (c # s) =
    (if c = CHR ''{'' then
       (if s \<noteq> [] \<and> hd s = CHR ''{'' then map_option ((#) (Chr c)) (format_items (tl s))
        else let name = takeWhile (\<lambda>x. x \<noteq> CHR ''}'') s; rest = dropWhile (\<lambda>x. x \<noteq> CHR ''}'') s in
          if is_identifier name \<and> rest \<noteq> [] then map_option ((#) (Field name)) (format_items (tl rest)) else None)
     else if c = CHR ''}'' then
       (if s \<noteq> [] \<and> hd s = CHR ''}'' then map_option ((#) (Chr c)) (format_items (tl s)) else None)
     else map_option ((#) (Chr c)) (format_items s))"

definition format_item :: "(string, pyval) dict \<Rightarrow> format_item \<Rightarrow> string result" where
  "format_item credentials i = (case i of
     Chr c \<Rightarrow> Inr [c]
   | Field n \<Rightarrow> (case dict_get credentials n of None \<Rightarrow> Inl KeyError | Some v \<Rightarrow> Inr (py_str v)))"

type_synonym formatter = "string \<Rightarrow> (string, pyval) dict \<Rightarrow> string result"

definition py_format :: "formatter \<Rightarrow> formatter" where
  "py_format other_format template credentials = (case format_items template of
     Some items \<Rightarrow> bind_r (map_r (format_item credentials) items) (\<lambda>xs. Inr (concat xs))
   | None \<Rightarrow> other_format template credentials)"

fun build_headers :: "formatter \<Rightarrow> (string, pyval) dict \<Rightarrow> (string, pyval) dict \<Rightarrow> (string, string) dict \<Rightarrow> (string, string) dict result" where
  "build_headers other_format [] credentials headers = Inr headers"
| "build_headers other_format ((name, v) # auth_template) credentials headers = (case v of
     PStr template \<Rightarrow> (case py_format other_format template credentials of
         Inr x \<Rightarrow> build_headers other_format auth_template credentials (dict_set name x headers)
       | Inl e \<Rightarrow> if e \<in> {KeyError, IndexError, ValueError, AttributeError, TypeError}
                  then build_headers other_format auth_template credentials headers else Inl e)
   | _ \<Rightarrow> build_headers other_format auth_template credentials headers)"

definition build_auth_headers :: "formatter \<Rightarrow> (string, pyval) dict \<Rightarrow> (string, pyval) dict \<Rightarrow> (string, string) dict result" where
  "build_auth_headers other_format auth_template credentials = build_headers other_format auth_template credentials []"

definition resolve_injection_headers :: "formatter \<Rightarrow> app_db \<Rightarrow> int \<Rightarrow> uuid \<Rightarrow> (string, string) dict result" where
  "resolve_injection_headers other_format db app_id user_id = (case get_external_app_by_id db app_id of
     None \<Rightarrow> Inr []
   | Some app \<Rightarrow>
      if \<not> sk_enabled (ea_skill app) then Inr []
      else let credentials = (case get_external_app_user_credential db app_id user_id of
               None \<Rightarrow> ea_org_credentials app
             | Some r \<Rightarrow> dict_update (ea_org_credentials app) (auc_credentials r))
           in build_auth_headers other_format (ea_auth_template app) credentials)"

definition app_is_available :: "formatter \<Rightarrow> app_db \<Rightarrow> external_app \<Rightarrow> uuid \<Rightarrow> bool result" where
  "app_is_available other_format db app user_id =
    (if \<not> sk_enabled (ea_skill app) then Inr False
     else if ea_auth_template app = [] then Inr True
     else bind_r (resolve_injection_headers other_format db (ea_id app) user_id) (\<lambda>h. Inr (h \<noteq> [])))"

section \<open>An authenticated user's headers\<close>

lemma placeholders_suffix: "set (placeholders s) \<subseteq> set (placeholders (c # s))"
proof (cases "c = CHR ''{'' \<and> is_identifier (takeWhile is_name_char s)
    \<and> dropWhile is_name_char s \<noteq> [] \<and> hd (dropWhile is_name_char s) = CHR ''}''")
  case True
  have skip: "set (placeholders (a @ b)) \<subseteq> set (placeholders b)" if "\<forall>x \<in> set a. is_name_char x" for a b
    using that
  proof (induction a)
    case (Cons x a)
    have "x \<noteq> CHR ''{''" using Cons.prems by (auto simp: is_name_char_def is_alnum_def)
    then show ?case using Cons by simp
  qed simp
  have "placeholders (dropWhile is_name_char s) = placeholders (tl (dropWhile is_name_char s))"
    using True by (cases "dropWhile is_name_char s") auto
  moreover have "set (placeholders s) \<subseteq> set (placeholders (dropWhile is_name_char s))"
    using skip [of "takeWhile is_name_char s" "dropWhile is_name_char s"] by (auto dest: set_takeWhileD)
  ultimately show ?thesis using True by (auto simp: Let_def)
next
  case False
  then show ?thesis by (auto simp: Let_def)
qed

lemma placeholders_append: "set (placeholders s) \<subseteq> set (placeholders (t @ s))"
  using placeholders_suffix by (induction t) fastforce+

lemma placeholder_found: "is_identifier name \<Longrightarrow> name \<in> set (placeholders (CHR ''{'' # name @ CHR ''}'' # s))"
proof -
  assume i: "is_identifier name"
  have "\<not> is_name_char (CHR ''}'')" by code_simp
  then have "takeWhile is_name_char (name @ CHR ''}'' # s) = name"
    and "dropWhile is_name_char (name @ CHR ''}'' # s) = CHR ''}'' # s"
    using i by (auto simp: is_identifier_def list_all_iff takeWhile_append2 dropWhile_append2)
  with i show ?thesis by (simp add: Let_def)
qed

lemma fields_are_placeholders:
  "format_items s = Some items \<Longrightarrow> Field n \<in> set items \<Longrightarrow> n \<in> set (placeholders s)"
proof (induction s arbitrary: items rule: format_items.induct)
  case (2 c s)
  define name where "name = takeWhile (\<lambda>x. x \<noteq> CHR ''}'') s"
  define rest where "rest = dropWhile (\<lambda>x. x \<noteq> CHR ''}'') s"
  consider (brace) "c \<in> {CHR ''{'', CHR ''}''}" "s \<noteq> []" "hd s = c"
      "\<exists>xs. format_items (tl s) = Some xs \<and> items = Chr c # xs"
    | (field) "c = CHR ''{''" "is_identifier name" "rest \<noteq> []"
      "\<exists>xs. format_items (tl rest) = Some xs \<and> items = Field name # xs"
    | (plain) "c \<noteq> CHR ''{''" "c \<noteq> CHR ''}''" "\<exists>xs. format_items s = Some xs \<and> items = Chr c # xs"
    using "2.prems"(1) by (auto simp: Let_def name_def rest_def split: if_splits)
  then show ?case
  proof cases
    case brace
    then have "n \<in> set (placeholders (tl s))" using "2.IH" "2.prems"(2) by auto
    moreover have "c # s = [c, hd s] @ tl s" using brace(2) by simp
    ultimately show ?thesis using placeholders_append [of "tl s" "[c, hd s]"] by (metis subsetD)
  next
    case field
    have "hd rest = CHR ''}''" using field(3) hd_dropWhile [of "\<lambda>x. x \<noteq> CHR ''}''" s] by (simp add: rest_def)
    then have s: "s = name @ CHR ''}'' # tl rest" using field(3)
      by (metis list.collapse name_def rest_def takeWhile_dropWhile_id)
    show ?thesis
    proof (cases "n = name")
      case True
      then show ?thesis using placeholder_found [OF field(2), of "tl rest"] field(1) s by metis
    next
      case False
      have c: "c \<noteq> CHR ''{'' \<or> \<not> (s \<noteq> [] \<and> hd s = CHR ''{'')"
        using field(2) s by (cases name) (auto simp: is_identifier_def is_name_char_def is_alnum_def)
      have "n \<in> set (placeholders (tl rest))"
        using "2.IH"(2) [OF field(1) _ name_def rest_def] False field "2.prems"(2) c by auto
      then show ?thesis using placeholders_append [of "tl rest" "c # name @ [CHR ''}'']"] s by auto
    qed
  next
    case plain
    then have "n \<in> set (placeholders s)" using "2.IH"(4) "2.prems"(2) by auto
    then show ?thesis using placeholders_suffix by blast
  qed
qed simp

lemma format_items_ok:
  "\<forall>n. Field n \<in> set items \<longrightarrow> dict_get credentials n \<noteq> None \<Longrightarrow> \<exists>xs. map_r (format_item credentials) items = Inr xs"
proof (induction items)
  case (Cons i items)
  then have "\<exists>x. format_item credentials i = Inr x"
    by (cases i) (auto simp: format_item_def)
  then show ?case using Cons by auto
qed simp

definition filled :: "(string, pyval) dict \<Rightarrow> format_item \<Rightarrow> bool" where
  "filled credentials i = (case i of Field n \<Rightarrow> dict_get credentials n \<noteq> None | Chr c \<Rightarrow> True)"

definition renders :: "(string, pyval) dict \<Rightarrow> pyval \<Rightarrow> bool" where
  "renders credentials v = (case v of
     PStr t \<Rightarrow> (case format_items t of
         Some items \<Rightarrow> list_all (filled credentials) items
       | None \<Rightarrow> False)
   | _ \<Rightarrow> False)"

text \<open>A template that uses only literal text and named fields.\<close>

definition plain_template :: "pyval \<Rightarrow> bool" where
  "plain_template v = (case v of PStr t \<Rightarrow> format_items t \<noteq> None | _ \<Rightarrow> False)"

lemma format_item_cases: "format_item credentials i = Inl KeyError \<or> (\<exists>x. format_item credentials i = Inr x)"
  by (cases i) (auto simp: format_item_def split: option.splits)

lemma map_format_cases:
  "map_r (format_item credentials) items = Inl KeyError \<or> (\<exists>xs. map_r (format_item credentials) items = Inr xs)"
proof (induction items)
  case (Cons i items)
  then show ?case using format_item_cases [of credentials i] by auto
qed simp

lemma map_format_ok_iff:
  "(\<exists>xs. map_r (format_item credentials) items = Inr xs)
    \<longleftrightarrow> list_all (filled credentials) items"
proof (induction items)
  case (Cons i items)
  show ?case
  proof (cases "format_item credentials i")
    case (Inl e)
    then show ?thesis by (cases i) (auto simp: format_item_def filled_def split: option.splits)
  next
    case (Inr x)
    then have "filled credentials i"
      by (cases i) (auto simp: format_item_def filled_def split: option.splits)
    with Inr Cons show ?thesis by (auto simp: bind_r_Inr_iff)
  qed
qed simp

lemma py_format_plain:
  assumes "plain_template v" and "v = PStr t"
  shows "(renders credentials v \<longrightarrow> (\<exists>x. py_format other_format t credentials = Inr x))
    \<and> (\<not> renders credentials v \<longrightarrow> py_format other_format t credentials = Inl KeyError)"
proof -
  obtain items where i: "format_items t = Some items" using assms by (auto simp: plain_template_def)
  have "py_format other_format t credentials = bind_r (map_r (format_item credentials) items) (\<lambda>xs. Inr (concat xs))"
    by (simp add: py_format_def i)
  moreover have "renders credentials v \<longleftrightarrow> (\<exists>xs. map_r (format_item credentials) items = Inr xs)"
    by (simp add: renders_def assms(2) i map_format_ok_iff)
  ultimately show ?thesis using map_format_cases [of credentials items] by auto
qed

lemma build_headers_keys:
  assumes "list_all (\<lambda>(name, v). plain_template v) ts" and "distinct (map fst ts)"
    and "fst ` set ts \<inter> fst ` set acc = {}"
  shows "\<exists>h. build_headers other_format ts credentials acc = Inr h
    \<and> map fst h = map fst acc @ map fst (filter (\<lambda>(name, v). renders credentials v) ts)"
  using assms
proof (induction ts arbitrary: acc)
  case (Cons p ts)
  obtain name v where p: "p = (name, v)" by (cases p)
  obtain t where v: "v = PStr t" "plain_template v"
    using Cons.prems(1) p by (auto simp: plain_template_def split: pyval.splits)
  note f = py_format_plain [OF v(2,1), of credentials other_format]
  show ?case
  proof (cases "renders credentials v")
    case True
    then obtain x where x: "py_format other_format t credentials = Inr x" using f by blast
    have fresh: "dict_set name x acc = acc @ [(name, x)]"
      using Cons.prems(3) p by (auto intro: dict_set_fresh)
    have "\<exists>h. build_headers other_format ts credentials (acc @ [(name, x)]) = Inr h
      \<and> map fst h = map fst (acc @ [(name, x)]) @ map fst (filter (\<lambda>(name, v). renders credentials v) ts)"
      by (rule Cons.IH) (use Cons.prems p in \<open>auto simp: image_iff\<close>)
    then show ?thesis using True v x fresh by (simp add: p)
  next
    case False
    then have "build_headers other_format (p # ts) credentials acc = build_headers other_format ts credentials acc"
      using f v(1) by (simp add: p)
    then show ?thesis using Cons False p by auto
  qed
qed simp

lemma injected_headers:
  assumes "get_external_app_by_id db app_id = Some app" and "sk_enabled (ea_skill app)"
    and "list_all (\<lambda>(name, v). plain_template v) (ea_auth_template app)" and "distinct (map fst (ea_auth_template app))"
    and "credentials = (case get_external_app_user_credential db app_id user_id of
        None \<Rightarrow> ea_org_credentials app | Some r \<Rightarrow> dict_update (ea_org_credentials app) (auc_credentials r))"
  shows "\<exists>h. resolve_injection_headers other_format db app_id user_id = Inr h
    \<and> map fst h = map fst (filter (\<lambda>(name, v). renders credentials v) (ea_auth_template app))"
  using build_headers_keys [OF assms(3,4), of "[]" other_format credentials] assms(1,2,5)
  by (simp add: resolve_injection_headers_def build_auth_headers_def Let_def)

lemma dict_update_keys: "fst ` set (dict_update d e) = fst ` set d \<union> fst ` set e"
proof (induction e arbitrary: d)
  case (Cons p e)
  then show ?case by (cases p) simp
qed simp

lemma finite_placeholders: "finite (placeholders_in_template ts)"
  by (auto simp: placeholders_in_template_def split: pyval.splits)

lemma authenticated_has_fields:
  assumes "is_user_authenticated_for_app app cred" and "n \<in> placeholders_in_template (ea_auth_template app)"
  shows "n \<in> fst ` set (case cred of None \<Rightarrow> ea_org_credentials app
    | Some r \<Rightarrow> dict_update (ea_org_credentials app) (auc_credentials r))"
proof (cases "n \<in> fst ` set (ea_org_credentials app)")
  case True
  then show ?thesis by (cases cred) (auto simp: dict_update_keys)
next
  case False
  then have n: "n \<in> set (required_user_credential_keys (ea_auth_template app) (ea_org_credentials app))"
    using assms(2) finite_placeholders by (simp add: required_user_credential_keys_def)
  then obtain r where "cred = Some r" "n \<in> fst ` set (auc_credentials r)"
    using assms(1) by (auto simp: is_user_authenticated_for_app_def Let_def list_all_iff split: if_splits option.splits)
  then show ?thesis by (simp add: dict_update_keys)
qed

text \<open>What the user is told about an app agrees with what the proxy injects.  For an enabled app whose
  header templates use only named fields, a user the app counts as authenticated gets every header of
  the template injected, and the gate takes the app as available.\<close>

theorem authenticated_user_gets_headers:
  assumes "get_external_app_by_id db app_id = Some app" and "sk_enabled (ea_skill app)"
    and "list_all (\<lambda>(name, v). plain_template v) (ea_auth_template app)" and "distinct (map fst (ea_auth_template app))"
    and "is_user_authenticated_for_app app (get_external_app_user_credential db app_id user_id)"
  shows "\<exists>h. resolve_injection_headers other_format db app_id user_id = Inr h
      \<and> map fst h = map fst (ea_auth_template app)
      \<and> app_is_available other_format db app user_id = Inr True"
proof -
  define creds where "creds = (case get_external_app_user_credential db app_id user_id of
      None \<Rightarrow> ea_org_credentials app | Some r \<Rightarrow> dict_update (ea_org_credentials app) (auc_credentials r))"
  have "renders creds v" if nv: "(name, v) \<in> set (ea_auth_template app)" for name v
  proof -
    have "plain_template v" using assms(3) nv by (auto simp: list_all_iff)
    then obtain t items where t: "v = PStr t" "format_items t = Some items"
      by (auto simp: plain_template_def split: pyval.splits)
    have "filled creds i" if "i \<in> set items" for i
    proof (cases i)
      case (Field n)
      then have "n \<in> set (placeholders t)" using fields_are_placeholders [OF t(2)] that by simp
      then have "n \<in> placeholders_in_template (ea_auth_template app)"
        using nv t(1) by (force simp: placeholders_in_template_def)
      then have "n \<in> fst ` set creds" unfolding creds_def by (rule authenticated_has_fields [OF assms(5)])
      then show ?thesis using dict_get_None_iff [of creds n] by (auto simp: filled_def Field)
    qed (simp add: filled_def)
    then show ?thesis by (simp add: renders_def t list_all_iff)
  qed
  then have all: "filter (\<lambda>(name, v). renders creds v) (ea_auth_template app) = ea_auth_template app"
    by (auto simp: filter_id_conv)
  obtain h where h: "resolve_injection_headers other_format db app_id user_id = Inr h"
      "map fst h = map fst (ea_auth_template app)"
    using injected_headers [OF assms(1-4) creds_def, of other_format] all by auto
  have "ea_id app = app_id" using assms(1) by (auto simp: get_external_app_by_id_def find_Some_iff)
  then have "app_is_available other_format db app user_id = Inr True"
    using h assms(2) by (auto simp: app_is_available_def)
  with h show ?thesis by blast
qed

definition example_app :: external_app where
  "example_app = \<lparr>ea_id = 3, ea_type = SLACK,
     ea_skill = \<lparr>sk_slug = ''slack'', sk_name = ''Slack'', sk_description = '''', sk_enabled = True, sk_public = True,
       sk_built_in = Some ''slack'', sk_bundle_file_id = None, sk_bundle_sha256 = None\<rparr>,
     ea_patterns = ps_url_patterns slack_spec,
     ea_auth_template = [(''Authorization'', PStr ''Bearer {access_token}'')],
     ea_org_credentials = [(''client_id'', PStr ''c'')]\<rparr>"

definition example_app_db :: app_db where
  "example_app_db = \<lparr>t_apps = [example_app], t_app_policies = [],
     t_app_user_creds = [\<lparr>auc_app = 3, auc_user = 7, auc_credentials = [(''access_token'', PStr ''xoxp'')]\<rparr>],
     t_other_slugs = []\<rparr>"

lemma authenticated_user_gets_headers_witness:
  "\<exists>h. resolve_injection_headers (\<lambda>_ _. Inl ValueError) example_app_db 3 7 = Inr h \<and> map fst h = [''Authorization'']
     \<and> app_is_available (\<lambda>_ _. Inl ValueError) example_app_db example_app 7 = Inr True"
proof -
  have "get_external_app_by_id example_app_db 3 = Some example_app"
    by (simp add: get_external_app_by_id_def example_app_db_def example_app_def)
  moreover have "sk_enabled (ea_skill example_app)" by (simp add: example_app_def)
  moreover have "list_all (\<lambda>(name, v). plain_template v) (ea_auth_template example_app)" by code_simp
  moreover have "distinct (map fst (ea_auth_template example_app))" by (simp add: example_app_def)
  moreover have "is_user_authenticated_for_app example_app (get_external_app_user_credential example_app_db 3 7)"
    by code_simp
  ultimately show ?thesis
    using authenticated_user_gets_headers [of example_app_db 3 example_app 7 "\<lambda>_ _. Inl ValueError"]
    by (simp add: example_app_def)
qed

end
