(* ===== verification/AppAdmin.thy ===== *)
theory AppAdmin
  imports AppStore
begin

text \<open>
  Administration of external apps: per-action policies (\<open>onyx/external_apps/providers/registry.py\<close>), the
  writes of \<open>onyx/db/external_app.py\<close>, the built-in skill identifiers (\<open>onyx/skills/built_in.py\<close>) and the
  endpoints of \<open>server/features/build/external_apps/api.py\<close> for built-in apps, updates and user
  credentials.  Pushing a changed skill to the sandboxes is left out.
\<close>

section \<open>Policies in force\<close>

definition effective_policy :: "endpoint_spec \<Rightarrow> (string, endpoint_policy) dict \<Rightarrow> endpoint_policy" where
  "effective_policy endpoint stored = (case dict_get stored (ep_id endpoint) of Some p \<Rightarrow> p | None \<Rightarrow> ep_default endpoint)"

definition validate_action_policies :: "app_type \<Rightarrow> (string, endpoint_policy) dict \<Rightarrow> (string, endpoint_policy) dict result" where
  "validate_action_policies t policies =
    (let valid_ids = map ep_id (get_endpoint_catalog t) in
     if list_ex (\<lambda>(a, _). a \<notin> set valid_ids) policies then Inl (OnyxError INVALID_INPUT) else Inr policies)"

definition catalog_defaults :: "app_type \<Rightarrow> (string, endpoint_policy) dict" where
  "catalog_defaults t = dict_update [] (map (\<lambda>e. (ep_id e, ep_default e)) (get_endpoint_catalog t))"

definition resolve_action_overrides ::
  "app_type \<Rightarrow> (string, endpoint_policy) dict option \<Rightarrow> (string, endpoint_policy) dict \<Rightarrow> (string, endpoint_policy) dict result" where
  "resolve_action_overrides t requested existing =
     bind_r (case requested of
         None \<Rightarrow> Inr existing
       | Some r \<Rightarrow> bind_r (validate_action_policies t r) (\<lambda>v. Inr (dict_update existing v)))
     (\<lambda>merged. Inr (filter (\<lambda>(a, p). case dict_get (catalog_defaults t) a of None \<Rightarrow> False | Some d \<Rightarrow> p \<noteq> d) merged))"

record action_policy_view =
  apv_action :: string
  apv_name :: string
  apv_description :: string
  apv_state :: endpoint_policy

definition action_policy_views :: "app_type \<Rightarrow> (string, endpoint_policy) dict \<Rightarrow> action_policy_view list" where
  "action_policy_views t stored = map (\<lambda>e. \<lparr>apv_action = ep_id e, apv_name = ep_name e,
     apv_description = ep_description e, apv_state = effective_policy e stored\<rparr>) (get_endpoint_catalog t)"

section \<open>Writes\<close>

definition write_policies :: "int \<Rightarrow> (string, endpoint_policy) dict \<Rightarrow> app_db \<Rightarrow> app_db" where
  "write_policies app_id policies db = db\<lparr>t_app_policies :=
     filter (\<lambda>r. ap_app r \<noteq> app_id) (t_app_policies db)
     @ map (\<lambda>(a, p). \<lparr>ap_app = app_id, ap_action = a, ap_policy = p\<rparr>) policies\<rparr>"

text \<open>\<open>EXTERNAL_APP_BUILT_IN_SKILL_IDS\<close>\<close>

definition built_in_skill_ids :: "(app_type, string) dict" where
  "built_in_skill_ids = [(SLACK, ''slack''), (LINEAR, ''linear''), (GOOGLE_CALENDAR, ''google-calendar''),
     (GOOGLE_DRIVE, ''google-drive''), (GMAIL, ''gmail''), (GITHUB, ''github''), (HUBSPOT, ''hubspot'')]"

definition slug_taken :: "app_db \<Rightarrow> string \<Rightarrow> bool" where
  "slug_taken db slug \<longleftrightarrow> slug \<in> set (t_other_slugs db) \<union> (sk_slug \<circ> ea_skill) ` set (t_apps db)"

definition create_built_in_skill_row :: "app_db \<Rightarrow> string \<Rightarrow> string \<Rightarrow> string \<Rightarrow> bool \<Rightarrow> bool \<Rightarrow> skill_row result" where
  "create_built_in_skill_row db built_in_skill_id name description is_public enabled =
    (if slug_taken db built_in_skill_id then Inl (OnyxError DUPLICATE_RESOURCE)
     else Inr \<lparr>sk_slug = built_in_skill_id, sk_name = name, sk_description = description, sk_enabled = enabled,
       sk_public = is_public, sk_built_in = Some built_in_skill_id, sk_bundle_file_id = None, sk_bundle_sha256 = None\<rparr>)"

definition create_skill :: "app_db \<Rightarrow> string \<Rightarrow> string \<Rightarrow> string \<Rightarrow> string \<Rightarrow> string \<Rightarrow> bool \<Rightarrow> skill_row result" where
  "create_skill db slug name description bundle_file_id bundle_sha256 is_public =
    (if slug_taken db slug then Inl (OnyxError DUPLICATE_RESOURCE)
     else Inr \<lparr>sk_slug = slug, sk_name = name, sk_description = description, sk_enabled = True, sk_public = is_public,
       sk_built_in = None, sk_bundle_file_id = Some bundle_file_id, sk_bundle_sha256 = Some bundle_sha256\<rparr>)"

record new_app =
  na_name :: string
  na_description :: string
  na_bundle_file_id :: string
  na_bundle_sha256 :: string
  na_type :: app_type
  na_patterns :: "string list"
  na_auth_template :: "(string, pyval) dict"
  na_org_credentials :: "(string, string) dict"
  na_enabled :: bool
  na_public :: bool
  na_slug :: "string option"
  na_policies :: "(string, endpoint_policy) dict option"

text \<open>\<open>hex8\<close> is \<open>uuid4().hex[:8]\<close>, the identifier comes from the sequence of the table.\<close>

definition create_external_app :: "int \<Rightarrow> string \<Rightarrow> new_app \<Rightarrow> app_db \<Rightarrow> (external_app \<times> app_db) result" where
  "create_external_app new_id hex8 n db =
     bind_r (resolve_masked_credentials (na_org_credentials n) None) (\<lambda>org.
     bind_r (case dict_get built_in_skill_ids (na_type n) of
         Some sid \<Rightarrow> create_built_in_skill_row db sid (na_name n) (na_description n) (na_public n) (na_enabled n)
       | None \<Rightarrow>
           bind_r (create_skill db (if truthy (na_slug n) then the (na_slug n)
                                    else lower (app_type_value (na_type n)) @ ''-'' @ hex8)
               (na_name n) (na_description n) (na_bundle_file_id n) (na_bundle_sha256 n) (na_public n))
             (\<lambda>sk. Inr (if \<not> na_enabled n then sk\<lparr>sk_enabled := False\<rparr> else sk)))
     (\<lambda>skill.
       let app = \<lparr>ea_id = new_id, ea_type = na_type n, ea_skill = skill, ea_patterns = na_patterns n,
                  ea_auth_template = na_auth_template n, ea_org_credentials = org\<rparr>;
           db1 = db\<lparr>t_apps := t_apps db @ [app]\<rparr>
       in Inr (app, case na_policies n of None \<Rightarrow> db1 | Some p \<Rightarrow> write_policies new_id p db1)))"

text \<open>A patch: absent fields are \<open>UNSET\<close>; a new bundle is its file and its hash.\<close>

record app_patch =
  pt_name :: "string option"
  pt_description :: "string option"
  pt_enabled :: "bool option"
  pt_patterns :: "string list option"
  pt_auth_template :: "(string, pyval) dict option"
  pt_org_credentials :: "(string, string) dict option"
  pt_bundle :: "(string \<times> string option) option"
  pt_policies :: "(string, endpoint_policy) dict option"

definition set_if :: "'a option \<Rightarrow> ('a \<Rightarrow> 's \<Rightarrow> 's) \<Rightarrow> 's \<Rightarrow> 's" where
  "set_if x f s = (case x of None \<Rightarrow> s | Some v \<Rightarrow> f v s)"

definition patch_skill :: "app_patch \<Rightarrow> skill_row \<Rightarrow> skill_row" where
  "patch_skill p sk =
     set_if (pt_bundle p) (\<lambda>(fid, sha) sk. sk\<lparr>sk_bundle_file_id := Some fid, sk_bundle_sha256 := sha\<rparr>)
     (set_if (pt_enabled p) (\<lambda>v sk. sk\<lparr>sk_enabled := v\<rparr>)
     (set_if (pt_description p) (\<lambda>v sk. sk\<lparr>sk_description := v\<rparr>)
     (set_if (pt_name p) (\<lambda>v sk. sk\<lparr>sk_name := v\<rparr>) sk)))"

definition replace_app :: "external_app \<Rightarrow> app_db \<Rightarrow> app_db" where
  "replace_app app db = db\<lparr>t_apps := map (\<lambda>a. if ea_id a = ea_id app then app else a) (t_apps db)\<rparr>"

definition update_external_app :: "int \<Rightarrow> app_type \<Rightarrow> app_patch \<Rightarrow> app_db \<Rightarrow> (external_app \<times> string option \<times> app_db) result" where
  "update_external_app app_id t p db = (case get_external_app_by_id db app_id of
     None \<Rightarrow> Inl (OnyxError NOT_FOUND)
   | Some app \<Rightarrow>
      if ea_type app \<noteq> t then Inl (OnyxError INVALID_INPUT)
      else bind_r (case pt_org_credentials p of
              None \<Rightarrow> Inr (ea_org_credentials app)
            | Some c \<Rightarrow> resolve_masked_credentials c (Some (ea_org_credentials app)))
        (\<lambda>org.
          let app' = set_if (pt_auth_template p) (\<lambda>v a. a\<lparr>ea_auth_template := v\<rparr>)
                (set_if (pt_patterns p) (\<lambda>v a. a\<lparr>ea_patterns := v\<rparr>)
                (app\<lparr>ea_skill := patch_skill p (ea_skill app), ea_org_credentials := org\<rparr>));
              old = (if pt_bundle p = None then None else sk_bundle_file_id (ea_skill app))
          in Inr (app', old, set_if (pt_policies p) (write_policies app_id) (replace_app app' db))))"

definition set_external_app_organization_credentials :: "int \<Rightarrow> (string, pyval) dict \<Rightarrow> app_db \<Rightarrow> app_db" where
  "set_external_app_organization_credentials app_id org db = db\<lparr>t_apps :=
     map (\<lambda>a. if ea_id a = app_id then a\<lparr>ea_org_credentials := org\<rparr> else a) (t_apps db)\<rparr>"

text \<open>Deleting the skill deletes the app, its policies and its users' credentials.\<close>

definition delete_external_app :: "int \<Rightarrow> app_db \<Rightarrow> (string option \<times> app_db) result" where
  "delete_external_app app_id db = (case get_external_app_by_id db app_id of
     None \<Rightarrow> Inl (OnyxError NOT_FOUND)
   | Some app \<Rightarrow> Inr (sk_bundle_file_id (ea_skill app),
       db\<lparr>t_apps := filter (\<lambda>a. ea_id a \<noteq> app_id) (t_apps db),
          t_app_policies := filter (\<lambda>r. ap_app r \<noteq> app_id) (t_app_policies db),
          t_app_user_creds := filter (\<lambda>r. auc_app r \<noteq> app_id) (t_app_user_creds db)\<rparr>))"

text \<open>Credentials come from a form, which may echo masks, or from the OAuth flow.\<close>

datatype credential_input = FromForm "(string, string) dict" | FromOAuth "(string, pyval) dict"

definition store_user_credential :: "int \<Rightarrow> uuid \<Rightarrow> (string, pyval) dict \<Rightarrow> app_db \<Rightarrow> app_db" where
  "store_user_credential app_id user_id creds db =
     (if get_external_app_user_credential db app_id user_id = None
      then db\<lparr>t_app_user_creds := t_app_user_creds db @ [\<lparr>auc_app = app_id, auc_user = user_id, auc_credentials = creds\<rparr>]\<rparr>
      else db\<lparr>t_app_user_creds := map (\<lambda>r. if auc_app r = app_id \<and> auc_user r = user_id
                then r\<lparr>auc_credentials := creds\<rparr> else r) (t_app_user_creds db)\<rparr>)"

definition upsert_external_app_user_credential :: "int \<Rightarrow> uuid \<Rightarrow> credential_input \<Rightarrow> app_db \<Rightarrow> app_db result" where
  "upsert_external_app_user_credential app_id user_id inp db =
    (if get_external_app_by_id db app_id = None then Inl (OnyxError NOT_FOUND)
     else bind_r (case inp of
         FromOAuth c \<Rightarrow> Inr c
       | FromForm c \<Rightarrow> resolve_masked_credentials c
           (map_option auc_credentials (get_external_app_user_credential db app_id user_id)))
       (\<lambda>creds. Inr (store_user_credential app_id user_id creds db)))"

definition delete_external_app_user_credential :: "int \<Rightarrow> uuid \<Rightarrow> app_db \<Rightarrow> app_db" where
  "delete_external_app_user_credential app_id user_id db = db\<lparr>t_app_user_creds :=
     filter (\<lambda>r. \<not> (auc_app r = app_id \<and> auc_user r = user_id)) (t_app_user_creds db)\<rparr>"

section \<open>Endpoints\<close>

text \<open>Every built-in provider of the registry is managed by Onyx; in the multi-tenant cloud its
  configuration is locked.\<close>

definition onyx_managed :: "bool \<Rightarrow> app_type \<Rightarrow> bool" where
  "onyx_managed multi_tenant t \<longleftrightarrow> multi_tenant \<and> dict_get providers t \<noteq> None"

record built_in_request =
  br_name :: string
  br_description :: string
  br_enabled :: bool
  br_type :: app_type
  br_patterns :: "string list"
  br_auth_template :: "(string, pyval) dict"
  br_org_credentials :: "(string, string) dict"
  br_policies :: "(string, endpoint_policy) dict option"

definition create_built_in_external_app ::
  "bool \<Rightarrow> int \<Rightarrow> string \<Rightarrow> built_in_request \<Rightarrow> app_db \<Rightarrow> (external_app \<times> app_db) result" where
  "create_built_in_external_app multi_tenant new_id hex8 rq db =
    (if br_type rq = CUSTOM then Inl (OnyxError INVALID_INPUT)
     else if onyx_managed multi_tenant (br_type rq) then Inl (OnyxError INVALID_INPUT)
     else bind_r (resolve_action_overrides (br_type rq) (br_policies rq) []) (\<lambda>policies.
       create_external_app new_id hex8 \<lparr>na_name = br_name rq, na_description = br_description rq,
         na_bundle_file_id = '''', na_bundle_sha256 = '''', na_type = br_type rq, na_patterns = br_patterns rq,
         na_auth_template = br_auth_template rq, na_org_credentials = br_org_credentials rq,
         na_enabled = br_enabled rq, na_public = True, na_slug = None, na_policies = Some policies\<rparr> db))"

record app_update_request =
  ur_enabled :: "bool option"
  ur_name :: "string option"
  ur_description :: "string option"
  ur_patterns :: "string list option"
  ur_auth_template :: "(string, pyval) dict option"
  ur_org_credentials :: "(string, string) dict option"
  ur_policies :: "(string, endpoint_policy) dict option"

definition update_external_app_admin :: "bool \<Rightarrow> int \<Rightarrow> app_update_request \<Rightarrow> app_db \<Rightarrow> (external_app \<times> app_db) result" where
  "update_external_app_admin multi_tenant app_id rq db = (case get_external_app_by_id db app_id of
     None \<Rightarrow> Inl (OnyxError NOT_FOUND)
   | Some app \<Rightarrow>
      let managed = onyx_managed multi_tenant (ea_type app) in
      bind_r (if \<not> managed \<and> ea_type app = CUSTOM \<and> ur_patterns rq \<noteq> None
              then map_r parse_glob (the (ur_patterns rq)) else Inr []) (\<lambda>_.
      bind_r (resolve_action_overrides (ea_type app) (ur_policies rq) (get_policies db app_id)) (\<lambda>policies.
      bind_r (update_external_app app_id (ea_type app)
          \<lparr>pt_name = ur_name rq, pt_description = ur_description rq, pt_enabled = ur_enabled rq,
           pt_patterns = (if managed then None else ur_patterns rq),
           pt_auth_template = (if managed then None else ur_auth_template rq),
           pt_org_credentials = (if managed then None else ur_org_credentials rq),
           pt_bundle = None, pt_policies = Some policies\<rparr> db)
        (\<lambda>(app', old, db'). Inr (app', db')))))"

definition delete_external_app_admin :: "bool \<Rightarrow> int \<Rightarrow> app_db \<Rightarrow> app_db result" where
  "delete_external_app_admin multi_tenant app_id db = (case get_external_app_by_id db app_id of
     None \<Rightarrow> Inl (OnyxError NOT_FOUND)
   | Some app \<Rightarrow>
      if onyx_managed multi_tenant (ea_type app) then Inl (OnyxError INVALID_INPUT)
      else bind_r (delete_external_app app_id db) (\<lambda>(_, db'). Inr db'))"

section \<open>Policies after an update\<close>

lemma catalog_ids_distinct: "distinct (map ep_id (get_endpoint_catalog t))"
proof (cases t)
qed (simp_all only: endpoint_catalogs, code_simp+)

lemma dict_get_from_list: "distinct (map fst xs) \<Longrightarrow> dict_get (dict_update [] xs) k = dict_get xs k"
  by (subst dict_get_update) (auto split: option.splits)

lemma dict_get_map_endpoints:
  "distinct (map ep_id es) \<Longrightarrow> e \<in> set es \<Longrightarrow> dict_get (map (\<lambda>e. (ep_id e, f e)) es) (ep_id e) = Some (f e)"
  unfolding dict_get_def by (intro map_of_is_SomeI) (auto simp: comp_def)

lemma catalog_defaults_get:
  "e \<in> set (get_endpoint_catalog t) \<Longrightarrow> dict_get (catalog_defaults t) (ep_id e) = Some (ep_default e)"
  unfolding catalog_defaults_def
  by (subst dict_get_from_list) (simp_all add: catalog_ids_distinct comp_def dict_get_map_endpoints)

lemma dict_get_filter:
  "distinct (map fst d) \<Longrightarrow> dict_get (filter (\<lambda>(a, p). P a p) d) a
    = (case dict_get d a of None \<Rightarrow> None | Some p \<Rightarrow> if P a p then Some p else None)"
proof (induction d)
  case (Cons x d)
  obtain b q where x: "x = (b, q)" by (cases x)
  have "b \<notin> fst ` set d" using Cons.prems x by simp
  then have "dict_get d b = None" by (simp add: dict_get_None_iff)
  then show ?case using Cons x by auto
qed simp

lemma distinct_filter_keys: "distinct (map fst d) \<Longrightarrow> distinct (map fst (filter P d))"
  by (induction d) auto

definition requested_policy ::
  "(string, endpoint_policy) dict option \<Rightarrow> (string, endpoint_policy) dict \<Rightarrow> string \<Rightarrow> endpoint_policy option" where
  "requested_policy requested existing a =
     (case requested of None \<Rightarrow> dict_get existing a
      | Some r \<Rightarrow> (case dict_get r a of Some p \<Rightarrow> Some p | None \<Rightarrow> dict_get existing a))"

lemma resolve_action_overrides_get:
  assumes "resolve_action_overrides t requested existing = Inr stored"
    and "distinct (map fst existing)" and "\<And>r. requested = Some r \<Longrightarrow> distinct (map fst r)"
  shows "distinct (map fst stored)
    \<and> (\<forall>e \<in> set (get_endpoint_catalog t).
         effective_policy e stored = (case requested_policy requested existing (ep_id e) of Some p \<Rightarrow> p | None \<Rightarrow> ep_default e))"
proof -
  obtain merged where m: "distinct (map fst merged)" "\<And>a. dict_get merged a = requested_policy requested existing a"
    and stored: "stored = filter (\<lambda>(a, p). case dict_get (catalog_defaults t) a of None \<Rightarrow> False | Some d \<Rightarrow> p \<noteq> d) merged"
  proof (cases requested)
    case None
    then show ?thesis using that [of existing] assms by (auto simp: resolve_action_overrides_def requested_policy_def)
  next
    case (Some r)
    then show ?thesis using that [of "dict_update existing r"] assms
      by (auto simp: resolve_action_overrides_def requested_policy_def bind_r_Inr_iff validate_action_policies_def
          Let_def dict_get_update split: if_splits)
  qed
  have "effective_policy e stored = (case requested_policy requested existing (ep_id e) of Some p \<Rightarrow> p | None \<Rightarrow> ep_default e)"
    if "e \<in> set (get_endpoint_catalog t)" for e
    using dict_get_filter [OF m(1), of "\<lambda>a p. case dict_get (catalog_defaults t) a of None \<Rightarrow> False | Some d \<Rightarrow> p \<noteq> d" "ep_id e"]
    by (auto simp: effective_policy_def stored m(2) catalog_defaults_get [OF that] split: option.splits)
  then show ?thesis using distinct_filter_keys [OF m(1)] stored by blast
qed

lemma unknown_action_rejected:
  "resolve_action_overrides t (Some r) existing = Inl e
    \<longleftrightarrow> e = OnyxError INVALID_INPUT \<and> (\<exists>a \<in> fst ` set r. a \<notin> ep_id ` set (get_endpoint_catalog t))"
proof -
  have "list_ex (\<lambda>(a, _). a \<notin> S) r \<longleftrightarrow> (\<exists>a \<in> fst ` set r. a \<notin> S)" for S by (induction r) auto
  then show ?thesis by (auto simp: resolve_action_overrides_def validate_action_policies_def Let_def)
qed

lemma get_policies_distinct: "distinct (map fst (get_policies db app_id))"
  by (simp add: get_policies_def)

lemma get_policies_written:
  "distinct (map fst policies) \<Longrightarrow> dict_get (get_policies (write_policies app_id policies db) app_id) a = dict_get policies a"
  by (simp add: get_policies_def write_policies_def filter_filter comp_def case_prod_unfold dict_get_from_list)

lemma get_policies_other: "app_id' \<noteq> app_id \<Longrightarrow>
    get_policies (write_policies app_id policies db) app_id' = get_policies db app_id'"
  by (auto simp: get_policies_def write_policies_def filter_filter comp_def case_prod_unfold
      intro!: arg_cong [where f = "\<lambda>x. dict_update [] (map _ x)"] filter_cong)

lemma get_app_replaced:
  assumes "get_external_app_by_id db app_id = Some app" and "ea_id app' = app_id"
  shows "get_external_app_by_id (replace_app app' db) app_id = Some app'"
proof -
  have "find (\<lambda>a. ea_id a = app_id) (map (\<lambda>a. if ea_id a = ea_id app' then app' else a) as)
      = (case find (\<lambda>a. ea_id a = app_id) as of None \<Rightarrow> None | Some _ \<Rightarrow> Some app')" for as
    using assms(2) by (induction as) auto
  with assms show ?thesis by (simp add: get_external_app_by_id_def replace_app_def)
qed

lemma get_policies_frame [simp]: "get_policies (replace_app app db) i = get_policies db i"
  by (simp add: get_policies_def replace_app_def)

text \<open>A policy update is a merge.  After an administrator's update the policy in force for each action
  of the catalog is the one requested, else the one stored before, else the catalog's default; an empty
  map therefore clears nothing.  Unknown actions are refused before anything is written, and the policies
  of every other app stay as they were.\<close>

theorem policy_update_merges:
  assumes "update_external_app_admin multi_tenant app_id rq db = Inr (app, db')"
    and "\<And>r. ur_policies rq = Some r \<Longrightarrow> distinct (map fst r)"
    and "e \<in> set (get_endpoint_catalog (ea_type app))" and "app_id' \<noteq> app_id"
  shows "effective_policy e (get_policies db' app_id)
      = (case requested_policy (ur_policies rq) (get_policies db app_id) (ep_id e) of
           Some p \<Rightarrow> p | None \<Rightarrow> ep_default e)
    \<and> get_policies db' app_id' = get_policies db app_id'
    \<and> (\<forall>r. ur_policies rq = Some r \<longrightarrow> fst ` set r \<subseteq> ep_id ` set (get_endpoint_catalog (ea_type app)))"
proof -
  obtain old policies r' blob where found: "get_external_app_by_id db app_id = Some old"
    and pol: "resolve_action_overrides (ea_type old) (ur_policies rq) (get_policies db app_id) = Inr policies"
    and upd: "update_external_app app_id (ea_type old) r' db = Inr (app, blob, db')" "pt_policies r' = Some policies"
    using assms(1) by (auto simp: update_external_app_admin_def Let_def bind_r_Inr_iff split: option.splits)
  have same: "ea_type app = ea_type old" and db': "\<exists>a. db' = write_policies app_id policies (replace_app a db)"
    using upd found by (auto simp: update_external_app_def Let_def bind_r_Inr_iff set_if_def split: option.splits if_splits)
  note ov = resolve_action_overrides_get [OF pol get_policies_distinct assms(2)]
  have "dict_get (get_policies db' app_id) a = dict_get policies a" for a
    using ov db' by (auto simp: get_policies_written)
  then have "effective_policy e (get_policies db' app_id) = effective_policy e policies"
    by (simp add: effective_policy_def)
  moreover have "get_policies db' app_id' = get_policies db app_id'"
    using db' assms(4) by (auto simp: get_policies_other)
  moreover have "fst ` set r \<subseteq> ep_id ` set (get_endpoint_catalog (ea_type app))" if "ur_policies rq = Some r" for r
    using pol unknown_action_rejected [of "ea_type old" r "get_policies db app_id" "OnyxError INVALID_INPUT"] that same
    by auto
  ultimately show ?thesis using ov assms(3) same by auto
qed

definition example_update :: app_update_request where
  "example_update = \<lparr>ur_enabled = None, ur_name = None, ur_description = None, ur_patterns = None,
     ur_auth_template = None, ur_org_credentials = None, ur_policies = Some []\<rparr>"

definition example_policy_db :: app_db where
  "example_policy_db = example_app_db\<lparr>t_app_policies := [\<lparr>ap_app = 3, ap_action = ''slack.messages.write'', ap_policy = ALWAYS\<rparr>]\<rparr>"

lemma policy_update_merges_witness:
  "\<exists>app db'. update_external_app_admin False 3 example_update example_policy_db = Inr (app, db')
     \<and> effective_policy (slack_endpoints ! 4) (get_policies db' 3) = ALWAYS"
proof -
  obtain app db' where u: "update_external_app_admin False 3 example_update example_policy_db = Inr (app, db')"
    and t: "ea_type app = SLACK"
  proof -
    have "(case update_external_app_admin False 3 example_update example_policy_db of
        Inl e \<Rightarrow> False | Inr (app, db') \<Rightarrow> ea_type app = SLACK)" by code_simp
    then show ?thesis using that by (auto split: sum.splits)
  qed
  have "slack_endpoints ! 4 \<in> set (get_endpoint_catalog (ea_type app))"
    unfolding t endpoint_catalogs by (rule nth_mem) code_simp
  note h = policy_update_merges [OF u _ this, of 4]
  have "requested_policy (ur_policies example_update) (get_policies example_policy_db 3) (ep_id (slack_endpoints ! 4)) = Some ALWAYS"
    by code_simp
  then have "effective_policy (slack_endpoints ! 4) (get_policies db' 3) = ALWAYS"
    using h by (simp add: example_update_def)
  with u show ?thesis by blast
qed

end
