(* ===== verification/AppGate.thy ===== *)
theory AppGate
  imports AppAdmin
begin

text \<open>
  The verdict on an outbound request: \<open>onyx/external_apps/matching/engine.py\<close> (recognised actions, the
  credential gate) and \<open>onyx/sandbox_proxy/request_evaluator.py\<close> (the app that owns the URL, the
  evaluation, the payload shown to the user).  The JSON reader, the GraphQL parser, \<open>parse_qs\<close> and the
  formatter are arguments.
\<close>

section \<open>Matched actions\<close>

record matched_action =
  ma_type :: string
  ma_name :: string
  ma_description :: string
  ma_policy :: endpoint_policy

record all_matched =
  am_actions :: "matched_action list"
  am_app_name :: string
  am_app_id :: int
  am_payload :: "(string, pyval) dict"

text \<open>The model refuses an empty list of actions.\<close>

definition new_all_matched :: "matched_action list \<Rightarrow> string \<Rightarrow> int \<Rightarrow> all_matched result" where
  "new_all_matched actions app_name app_id = (if actions = [] then Inl ValueError
     else Inr \<lparr>am_actions = actions, am_app_name = app_name, am_app_id = app_id, am_payload = []\<rparr>)"

definition governing_action :: "all_matched \<Rightarrow> matched_action" where
  "governing_action m = hd (am_actions m)"

text \<open>An action as the gate holds it, or as it is read back from the database.\<close>

datatype action_like = Live matched_action | Persisted pyval

definition approval_type :: "action_like \<Rightarrow> string option" where
  "approval_type a = (case a of
     Live m \<Rightarrow> if ma_policy m = ASK then Some (ma_type m) else None
   | Persisted (PDict d) \<Rightarrow>
      (case dict_get d ''policy'' of
         Some (PStr s) \<Rightarrow> (case parse_policy s of
             Inl e \<Rightarrow> None
           | Inr p \<Rightarrow> (case dict_get d ''action_type'' of
                 Some (PStr t) \<Rightarrow> if p = ASK then Some t else None
               | _ \<Rightarrow> None))
       | _ \<Rightarrow> None)
   | Persisted _ \<Rightarrow> None)"

definition actions_requiring_approval :: "action_like list \<Rightarrow> string list" where
  "actions_requiring_approval actions = sorted_list_of_set (set (List.map_filter approval_type actions))"

definition app_name :: "external_app \<Rightarrow> string" where
  "app_name app = (case dict_get providers (ea_type app) of
     Some p \<Rightarrow> ps_app_name p
   | None \<Rightarrow> if ea_type app = CUSTOM then sk_name (ea_skill app) else app_type_value (ea_type app))"

fun matching_actions ::
  "body_readers \<Rightarrow> (string, endpoint_policy) dict \<Rightarrow> proxied_request \<Rightarrow> endpoint_spec list \<Rightarrow> matched_action list result" where
  "matching_actions rd stored req [] = Inr []"
| "matching_actions rd stored req (e # catalog) =
     bind_r (any_rule_matches rd (ep_matches e) req) (\<lambda>b.
     bind_r (matching_actions rd stored req catalog) (\<lambda>rest.
       Inr (if b then \<lparr>ma_type = ep_id e, ma_name = ep_name e, ma_description = ep_description e,
                       ma_policy = effective_policy e stored\<rparr> # rest else rest)))"

text \<open>\<open>sort\<close> with \<open>reverse=True\<close> keeps the order of actions of one policy.\<close>

definition recognize_actions :: "body_readers \<Rightarrow> app_db \<Rightarrow> external_app \<Rightarrow> proxied_request \<Rightarrow> all_matched option result" where
  "recognize_actions rd db app req =
     bind_r (matching_actions rd (get_policies db (ea_id app)) req (get_endpoint_catalog (ea_type app))) (\<lambda>matched.
       if matched = [] then Inr None
       else bind_r (new_all_matched (sort_key (\<lambda>a. - policy_severity (ma_policy a)) matched) (app_name app) (ea_id app))
         (\<lambda>m. Inr (Some m)))"

definition whole_domain_action_type :: string where "whole_domain_action_type = ''unspecified''"

definition apply_credential_gate :: "external_app \<Rightarrow> proxied_request \<Rightarrow> all_matched option \<Rightarrow> bool \<Rightarrow> all_matched option result" where
  "apply_credential_gate app req matched_actions is_available =
    (if \<not> is_available then
       (case matched_actions of
          None \<Rightarrow> Inr None
        | Some m \<Rightarrow> (let deny = filter (\<lambda>a. ma_policy a = DENY) (am_actions m) in
            Inr (if deny \<noteq> [] then Some (m\<lparr>am_actions := deny\<rparr>) else None)))
     else case matched_actions of
         Some m \<Rightarrow> Inr (Some m)
       | None \<Rightarrow> bind_r (new_all_matched [\<lparr>ma_type = whole_domain_action_type, ma_name = ''Perform action'',
             ma_description = pr_method req @ '' '' @ pr_path req, ma_policy = ASK\<rparr>] (app_name app) (ea_id app))
           (\<lambda>m. Inr (Some m)))"

section \<open>The evaluator\<close>

fun claims_url :: "(string \<Rightarrow> string \<Rightarrow> bool option) \<Rightarrow> string \<Rightarrow> string list \<Rightarrow> bool" where
  "claims_url other_re url [] = False"
| "claims_url other_re url (regex # rs) =
     (case re_fullmatch other_re regex url of
        Some True \<Rightarrow> True
      | _ \<Rightarrow> claims_url other_re url rs)"

definition resolve_app_for_url :: "(string \<Rightarrow> string \<Rightarrow> bool option) \<Rightarrow> string \<Rightarrow> external_app list \<Rightarrow> external_app option" where
  "resolve_app_for_url other_re url apps = find (\<lambda>app. claims_url other_re url (upstream_url_regexes app)) apps"

text \<open>The request as the proxy sees it.\<close>

record http_request =
  hr_url :: string
  hr_method :: string
  hr_path :: string
  hr_body :: "string option"
  hr_content_type :: "string option"

text \<open>\<open>json.loads\<close> of text decoded as UTF-8, and \<open>parse_qs\<close>; a body that is not UTF-8 or not JSON is
  \<open>ValueError\<close>.\<close>

record gate_readers = body_readers +
  read_json_utf8 :: "string \<Rightarrow> pyval result"
  read_form :: "string \<Rightarrow> (string, string list) dict result"
  other_regex :: "string \<Rightarrow> string \<Rightarrow> bool option"
  other_format :: formatter

definition contains :: "string \<Rightarrow> string \<Rightarrow> bool" where
  "contains s sub \<longleftrightarrow> sublist sub s"

definition decode_body :: "gate_readers \<Rightarrow> string \<Rightarrow> string \<Rightarrow> (string, pyval) dict option result" where
  "decode_body rd body content_type =
    (if contains content_type ''application/json'' then
       (case read_json_utf8 rd body of
          Inl e \<Rightarrow> if e = ValueError then Inr None else Inl e
        | Inr (PDict d) \<Rightarrow> Inr (Some d)
        | Inr (PList xs) \<Rightarrow> Inr (Some [(''batch'', PList xs)])
        | Inr _ \<Rightarrow> Inr None)
     else if contains content_type ''application/x-www-form-urlencoded'' then
       (case read_form rd body of
          Inl e \<Rightarrow> if e = ValueError then Inr None else Inl e
        | Inr raw \<Rightarrow> Inr (Some (map (\<lambda>(k, vs). (k, case vs of [v] \<Rightarrow> PStr v | _ \<Rightarrow> PList (map PStr vs))) raw)))
     else Inr None)"

definition proxied :: "http_request \<Rightarrow> proxied_request" where
  "proxied req = \<lparr>pr_method = hr_method req, pr_path = takeWhile (\<lambda>c. c \<noteq> CHR ''?'') (hr_path req),
     pr_body = hr_body req\<rparr>"

definition evaluate :: "gate_readers \<Rightarrow> app_db \<Rightarrow> http_request \<Rightarrow> uuid \<Rightarrow> all_matched option result" where
  "evaluate rd db req user_id =
    (case resolve_app_for_url (other_regex rd) (hr_url req) (get_external_apps db) of
       None \<Rightarrow> Inr None
     | Some app \<Rightarrow>
        bind_r (recognize_actions (body_readers.truncate rd) db app (proxied req)) (\<lambda>recognised.
        bind_r (app_is_available (other_format rd) db app user_id) (\<lambda>available.
        bind_r (apply_credential_gate app (proxied req) recognised available) (\<lambda>gated.
        case gated of
          None \<Rightarrow> Inr None
        | Some m \<Rightarrow>
           bind_r (decode_body rd (case hr_body req of None \<Rightarrow> '''' | Some b \<Rightarrow> b)
               (lower (case hr_content_type req of None \<Rightarrow> '''' | Some t \<Rightarrow> t)))
             (\<lambda>payload. Inr (Some (m\<lparr>am_payload := (case payload of None \<Rightarrow> [] | Some p \<Rightarrow> p)\<rparr>)))))))"

section \<open>The verdict\<close>

lemma sort_key_hd_least: "xs \<noteq> [] \<Longrightarrow> hd (sort_key f xs) \<in> set xs \<and> (\<forall>x \<in> set xs. f (hd (sort_key f xs)) \<le> f x)"
proof -
  assume "xs \<noteq> []"
  moreover have s: "sorted (map f (sort_key f xs))" "set (sort_key f xs) = set xs" by simp_all
  ultimately obtain y ys where ys: "sort_key f xs = y # ys" by (cases "sort_key f xs") auto
  show ?thesis using s unfolding ys by auto
qed

lemma matching_policies:
  "matching_actions rd stored req catalog = Inr matched \<Longrightarrow>
    ma_policy ` set matched
      = {effective_policy e stored |e. e \<in> set catalog \<and> any_rule_matches rd (ep_matches e) req = Inr True}"
proof (induction catalog arbitrary: matched)
  case (Cons e catalog)
  then obtain b rest where b: "any_rule_matches rd (ep_matches e) req = Inr b"
    and rest: "matching_actions rd stored req catalog = Inr rest"
    and m: "matched = (if b then \<lparr>ma_type = ep_id e, ma_name = ep_name e, ma_description = ep_description e,
                       ma_policy = effective_policy e stored\<rparr> # rest else rest)"
    by (auto simp: bind_r_Inr_iff)
  show ?case using Cons.IH [OF rest] b m by (auto simp del: any_rule_matches.simps)
qed simp

text \<open>The reference: the strictest of the policies that matched; ASK when an available app matched
  nothing; without a credential only a block counts.\<close>

definition verdict :: "endpoint_policy set \<Rightarrow> bool \<Rightarrow> endpoint_policy option" where
  "verdict policies available =
     (if available then Some (if policies = {} then ASK else Max policies)
      else if DENY \<in> policies then Some DENY else None)"

lemma governing_strictest:
  "matched \<noteq> [] \<Longrightarrow> ma_policy (hd (sort_key (\<lambda>a. - policy_severity (ma_policy a)) matched)) = Max (ma_policy ` set matched)"
proof -
  assume ne: "matched \<noteq> []"
  note h = sort_key_hd_least [OF ne, of "\<lambda>a. - policy_severity (ma_policy a)"]
  show ?thesis
    by (rule Max_eqI [symmetric]) (use h in \<open>auto simp: less_eq_endpoint_policy_def\<close>)
qed

lemma gate_verdict:
  assumes "recognize_actions rd db app req = Inr recognised"
    and "matching_actions rd (get_policies db (ea_id app)) req (get_endpoint_catalog (ea_type app)) = Inr matched"
    and "apply_credential_gate app req recognised available = Inr gated"
  shows "map_option (ma_policy \<circ> governing_action) gated = verdict (ma_policy ` set matched) available
    \<and> (\<forall>m. gated = Some m \<longrightarrow> am_actions m \<noteq> [] \<and> am_app_id m = ea_id app)"
proof (cases "matched = []")
  case True
  then have "recognised = None" using assms(1,2) by (simp add: recognize_actions_def)
  then show ?thesis using assms(3) True
    by (auto simp: apply_credential_gate_def new_all_matched_def verdict_def governing_action_def split: if_splits)
next
  case False
  let ?sorted = "sort_key (\<lambda>a. - policy_severity (ma_policy a)) matched"
  have ne: "?sorted \<noteq> []" using False by (metis set_empty set_sort)
  then have rec: "recognised = Some \<lparr>am_actions = ?sorted, am_app_name = app_name app, am_app_id = ea_id app, am_payload = []\<rparr>"
    using assms(1,2) False by (simp add: recognize_actions_def new_all_matched_def)
  show ?thesis
  proof (cases available)
    case True
    then show ?thesis using assms(3) rec ne False
      by (auto simp: apply_credential_gate_def verdict_def governing_action_def governing_strictest)
  next
    case unavailable: False
    let ?deny = "filter (\<lambda>a. ma_policy a = DENY) ?sorted"
    have iff: "?deny \<noteq> [] \<longleftrightarrow> DENY \<in> ma_policy ` set matched"
      by (force simp: filter_empty_conv)
    have "ma_policy (hd ?deny) = DENY" if "?deny \<noteq> []"
      using that hd_in_set [OF that] by simp
    then show ?thesis using assms(3) rec unavailable iff
      by (auto simp: apply_credential_gate_def verdict_def governing_action_def Let_def)
  qed
qed

lemma gate_verdict_of_evaluate:
  assumes "evaluate rd db req user_id = Inr r"
    and "resolve_app_for_url (other_regex rd) (hr_url req) (get_external_apps db) = Some app"
    and "app_is_available (other_format rd) db app user_id = Inr available"
  shows "map_option (ma_policy \<circ> governing_action) r
    = verdict {effective_policy e (get_policies db (ea_id app)) |e. e \<in> set (get_endpoint_catalog (ea_type app))
        \<and> any_rule_matches (body_readers.truncate rd) (ep_matches e) (proxied req) = Inr True} available"
proof -
  obtain recognised gated where rec: "recognize_actions (body_readers.truncate rd) db app (proxied req) = Inr recognised"
    and gate: "apply_credential_gate app (proxied req) recognised available = Inr gated"
    and r: "map_option (ma_policy \<circ> governing_action) r = map_option (ma_policy \<circ> governing_action) gated"
    using assms by (auto simp: evaluate_def bind_r_Inr_iff governing_action_def split: option.splits)
  obtain matched where m: "matching_actions (body_readers.truncate rd) (get_policies db (ea_id app)) (proxied req)
      (get_endpoint_catalog (ea_type app)) = Inr matched"
    using rec by (auto simp: recognize_actions_def bind_r_Inr_iff)
  show ?thesis using gate_verdict [OF rec m gate] r by (simp add: matching_policies [OF m])
qed


section \<open>Requests in the shadow of a read\<close>

definition route_fires :: "match_rule \<Rightarrow> proxied_request \<Rightarrow> bool" where
  "route_fires rule req = (case rule of
     RestRoute m p _ \<Rightarrow> upper m = upper (pr_method req) \<and> path_matches p (pr_path req)
   | GraphQLOp _ _ _ \<Rightarrow> False)"

lemma route_fires_body [simp]: "route_fires rule (proxied (req\<lparr>hr_body := b\<rparr>)) = route_fires rule (proxied req)"
  by (cases rule) (simp_all add: route_fires_def proxied_def)

definition operation_fires :: "(string \<times> string) list \<Rightarrow> match_rule \<Rightarrow> bool" where
  "operation_fires invs rule = (case rule of
     RestRoute _ _ _ \<Rightarrow> False | GraphQLOp t f _ \<Rightarrow> (t, f) \<in> set invs)"

lemma rule_matches_invocations:
  "parse_invocations rd (pr_body req) = Inr invs \<Longrightarrow>
    rule_matches rd r req = Inr (route_fires r req \<or> operation_fires invs r)"
  by (cases r) (auto simp: rule_matches_def route_fires_def operation_fires_def list_ex_iff)

lemma any_rule_matches_invocations:
  "parse_invocations rd (pr_body req) = Inr invs \<Longrightarrow>
    any_rule_matches rd rules req = Inr (list_ex (\<lambda>r. route_fires r req \<or> operation_fires invs r) rules)"
  by (induction rules) (auto simp: rule_matches_invocations)

lemma policies_of_invocations:
  assumes "parse_invocations rd (pr_body req) = Inr invs"
    and "\<forall>e \<in> set catalog. \<forall>r \<in> set (ep_matches e). \<not> route_fires r req"
  shows "{effective_policy e stored |e. e \<in> set catalog \<and> any_rule_matches rd (ep_matches e) req = Inr True}
    = set (map (\<lambda>e. effective_policy e stored) (filter (\<lambda>e. list_ex (operation_fires invs) (ep_matches e)) catalog))"
proof -
  have "any_rule_matches rd (ep_matches e) req = Inr True \<longleftrightarrow> list_ex (operation_fires invs) (ep_matches e)"
    if "e \<in> set catalog" for e
    using assms(2) that by (auto simp: any_rule_matches_invocations [OF assms(1)] list_ex_iff)
  then show ?thesis by auto
qed

text \<open>A read query in the body hides a REST call.  GraphQL rules look at the body of any request,
  whatever its method and path.  For a connected GitHub app with the default policies, a request that no
  REST route of the catalog recognises needs approval; the same request with a GraphQL body that reads
  the viewer is approved without asking, so the REST call is carried out unseen.\<close>

theorem read_query_hides_rest_call:
  assumes "evaluate rd db req user_id = Inr r" and "evaluate rd db (req\<lparr>hr_body := None\<rparr>) user_id = Inr r'"
    and "resolve_app_for_url (other_regex rd) (hr_url req) (get_external_apps db) = Some app"
    and "ea_type app = GITHUB" and "get_policies db (ea_id app) = []"
    and "app_is_available (other_format rd) db app user_id = Inr True"
    and "\<forall>e \<in> set github_endpoints. \<forall>rule \<in> set (ep_matches e). \<not> route_fires rule (proxied req)"
    and "parse_invocations (body_readers.truncate rd) (hr_body req) = Inr [(''query'', ''viewer'')]"
  shows "map_option (ma_policy \<circ> governing_action) r = Some ALWAYS
    \<and> map_option (ma_policy \<circ> governing_action) r' = Some ASK"
proof
  let ?rd = "body_readers.truncate rd"
  have "{effective_policy e [] |e. e \<in> set github_endpoints
        \<and> any_rule_matches ?rd (ep_matches e) (proxied req) = Inr True}
      = set (map (\<lambda>e. effective_policy e [])
          (filter (\<lambda>e. list_ex (operation_fires [(''query'', ''viewer'')]) (ep_matches e)) github_endpoints))"
    using policies_of_invocations [OF _ assms(7), of ?rd "[(''query'', ''viewer'')]" "[]"] assms(8)
    by (simp add: proxied_def)
  also have "\<dots> = {ALWAYS}"
    by code_simp
  finally show "map_option (ma_policy \<circ> governing_action) r = Some ALWAYS"
    using gate_verdict_of_evaluate [OF assms(1,3,6)] by (simp add: assms(4,5) verdict_def)
  have "\<forall>e \<in> set github_endpoints. \<forall>rule \<in> set (ep_matches e). \<not> route_fires rule (proxied (req\<lparr>hr_body := None\<rparr>))"
    using assms(7) by simp
  then have "{effective_policy e [] |e. e \<in> set github_endpoints
        \<and> any_rule_matches ?rd (ep_matches e) (proxied (req\<lparr>hr_body := None\<rparr>)) = Inr True}
      = set (map (\<lambda>e. effective_policy e [])
          (filter (\<lambda>e. list_ex (operation_fires []) (ep_matches e)) github_endpoints))"
    by (intro policies_of_invocations) (simp_all add: proxied_def parse_invocations_def)
  also have "\<dots> = {}"
    by code_simp
  finally show "map_option (ma_policy \<circ> governing_action) r' = Some ASK"
    using gate_verdict_of_evaluate [OF assms(2) _ assms(6)] assms(3) by (simp add: assms(4,5) verdict_def)
qed

definition github_app :: external_app where
  "github_app = example_app\<lparr>ea_type := GITHUB, ea_patterns := ps_url_patterns github_spec\<rparr>"

definition github_db :: app_db where
  "github_db = example_app_db\<lparr>t_apps := [github_app]\<rparr>"

definition viewer_readers :: gate_readers where
  "viewer_readers = \<lparr>read_json = (\<lambda>s. Inr (PDict [(''query'', PStr s)])),
     read_graphql = (\<lambda>s. Some [OperationDefinition ''query'' [FieldNode ''viewer'']]),
     read_json_utf8 = (\<lambda>s. Inr (PDict [])), read_form = (\<lambda>s. Inr []),
     other_regex = (\<lambda>_ _. None), other_format = (\<lambda>_ _. Inl ValueError)\<rparr>"

definition delete_repo :: http_request where
  "delete_repo = \<lparr>hr_url = ''https://api.github.com/repos/acme/site'', hr_method = ''DELETE'',
     hr_path = ''/repos/acme/site'', hr_body = Some ''{viewer{login}}'', hr_content_type = None\<rparr>"

lemma evaluate_delete_repo:
  "\<exists>r. evaluate viewer_readers github_db delete_repo 7 = Inr r"
  "\<exists>r. evaluate viewer_readers github_db (delete_repo\<lparr>hr_body := None\<rparr>) 7 = Inr r"
proof -
  have "\<not> isl (evaluate viewer_readers github_db delete_repo 7)" by code_simp
  then show "\<exists>r. evaluate viewer_readers github_db delete_repo 7 = Inr r" by (metis isl_def sum.exhaust)
  have "\<not> isl (evaluate viewer_readers github_db (delete_repo\<lparr>hr_body := None\<rparr>) 7)" by code_simp
  then show "\<exists>r. evaluate viewer_readers github_db (delete_repo\<lparr>hr_body := None\<rparr>) 7 = Inr r"
    by (metis isl_def sum.exhaust)
qed

lemma delete_repo_setting:
  "resolve_app_for_url (other_regex viewer_readers) (hr_url delete_repo) (get_external_apps github_db) = Some github_app"
  "ea_type github_app = GITHUB" "get_policies github_db (ea_id github_app) = []"
  "app_is_available (other_format viewer_readers) github_db github_app 7 = Inr True"
  "list_all (\<lambda>e. list_all (\<lambda>rule. \<not> route_fires rule (proxied delete_repo)) (ep_matches e)) github_endpoints"
  "parse_invocations (body_readers.truncate viewer_readers) (hr_body delete_repo) = Inr [(''query'', ''viewer'')]"
  by code_simp+


lemma read_query_hides_rest_call_witness:
  "\<exists>r r'. evaluate viewer_readers github_db delete_repo 7 = Inr r
     \<and> evaluate viewer_readers github_db (delete_repo\<lparr>hr_body := None\<rparr>) 7 = Inr r'
     \<and> map_option (ma_policy \<circ> governing_action) r = Some ALWAYS
     \<and> map_option (ma_policy \<circ> governing_action) r' = Some ASK"
proof -
  obtain r r' where r: "evaluate viewer_readers github_db delete_repo 7 = Inr r"
    and r': "evaluate viewer_readers github_db (delete_repo\<lparr>hr_body := None\<rparr>) 7 = Inr r'"
    using evaluate_delete_repo by blast
  have "\<forall>e \<in> set github_endpoints. \<forall>rule \<in> set (ep_matches e). \<not> route_fires rule (proxied delete_repo)"
    using delete_repo_setting(5) by (simp add: list_all_iff)
  then show ?thesis
    using read_query_hides_rest_call [OF r r' delete_repo_setting(1-4) _ delete_repo_setting(6)] r r' by blast
qed

end
