(* ===== verification/Approvals.thy ===== *)
theory Approvals
  imports AppGate ChatSignals
begin

text \<open>
  Approvals of outbound requests: the table behind them
  (\<open>onyx/server/features/build/db/action_approval.py\<close>), the endpoints that decide them
  (\<open>approvals/api.py\<close>) and the grants of running scheduled tasks (\<open>onyx/db/scheduled_task.py\<close>).  The
  tables of one tenant and its Postgres cache are the state; what other requests do to it between two
  statements of an endpoint is an argument, indexed by the place in the code.
\<close>

section \<open>Tables\<close>

datatype decided_via = USER | PRE_APPROVAL | SESSION_GRANT

record approval_row =
  ar_id :: uuid
  ar_session :: uuid
  ar_actions :: "pyval list"
  ar_app_name :: string
  ar_payload :: "(string, pyval) dict"
  ar_created_at :: int
  ar_decision :: "approval_decision option"
  ar_decided_at :: "int option"
  ar_via :: "decided_via option"
  ar_app :: "int option"

record build_session =
  bs_id :: uuid
  bs_user :: "uuid option"

datatype run_status = QUEUED | RUN_RUNNING | SUCCEEDED | RUN_FAILED | SKIPPED | AWAITING_APPROVAL

record task_run =
  tr_id :: uuid
  tr_task :: uuid
  tr_session :: "uuid option"
  tr_status :: run_status

record pre_approved_app =
  pa_id :: int
  pa_task :: uuid
  pa_app :: int

record sandbox_row =
  sb_id :: uuid
  sb_user :: uuid
  sb_pat :: "string option"

record build_db =
  t_external :: app_db
  t_sessions :: "build_session list"
  t_approvals :: "approval_row list"
  t_runs :: "task_run list"
  t_pre_approved :: "pre_approved_app list"
  t_sandboxes :: "sandbox_row list"

record tenant_data =
  ts_db :: build_db
  ts_cache :: "string cache_table"

section \<open>Queries and statements\<close>

definition action_dump :: "matched_action \<Rightarrow> pyval" where
  "action_dump a = PDict [(''action_type'', PStr (ma_type a)), (''display_name'', PStr (ma_name a)),
     (''description'', PStr (ma_description a)), (''policy'', PStr (policy_value (ma_policy a)))]"

definition policy_key :: "pyval \<Rightarrow> int result" where
  "policy_key a = (case a of
     PDict d \<Rightarrow> (case dict_get d ''policy'' of
        None \<Rightarrow> Inl KeyError
      | Some (PStr s) \<Rightarrow> bind_r (parse_policy s) (\<lambda>p. Inr (policy_severity p))
      | Some _ \<Rightarrow> Inl ValueError)
   | _ \<Rightarrow> Inl TypeError)"

definition sorted_actions :: "pyval list \<Rightarrow> pyval list result" where
  "sorted_actions actions = bind_r (map_r policy_key actions) (\<lambda>keys.
     Inr (map snd (sort_key (\<lambda>(k, a). - k) (zip keys actions))))"

text \<open>The row's identifier is fresh; its references must exist.\<close>

definition insert_action_approval ::
  "int \<Rightarrow> uuid \<Rightarrow> uuid \<Rightarrow> pyval list \<Rightarrow> string \<Rightarrow> (string, pyval) dict \<Rightarrow> int option
    \<Rightarrow> approval_decision option \<Rightarrow> decided_via option \<Rightarrow> build_db \<Rightarrow> (approval_row \<times> build_db) result" where
  "insert_action_approval now new_id session_id actions app payload app_id decision via db =
    (if actions = [] then Inl ValueError
     else bind_r (sorted_actions actions) (\<lambda>acts.
       let row = \<lparr>ar_id = new_id, ar_session = session_id, ar_actions = acts, ar_app_name = app,
             ar_payload = payload, ar_created_at = now, ar_decision = decision,
             ar_decided_at = (if decision = None then None else Some now), ar_via = via, ar_app = app_id\<rparr>
       in if session_id \<notin> bs_id ` set (t_sessions db) then Inl IntegrityError
          else if (case app_id of None \<Rightarrow> False | Some i \<Rightarrow> i \<notin> ea_id ` set (t_apps (t_external db)))
          then Inl IntegrityError
          else Inr (row, db\<lparr>t_approvals := t_approvals db @ [row]\<rparr>)))"

definition decide :: "int \<Rightarrow> approval_decision \<Rightarrow> decided_via option \<Rightarrow> approval_row \<Rightarrow> approval_row" where
  "decide now decision via r = r\<lparr>ar_decision := Some decision, ar_decided_at := Some now, ar_via := via\<rparr>"

definition try_record_decision ::
  "int \<Rightarrow> uuid \<Rightarrow> approval_decision \<Rightarrow> decided_via option \<Rightarrow> build_db \<Rightarrow> approval_row option \<times> build_db" where
  "try_record_decision now approval_id decision via db =
    (let pending = (\<lambda>r. ar_id r = approval_id \<and> ar_decision r = None) in
     (map_option (decide now decision via) (find pending (t_approvals db)),
      db\<lparr>t_approvals := map (\<lambda>r. if pending r then decide now decision via r else r) (t_approvals db)\<rparr>))"

definition get_action_approval :: "build_db \<Rightarrow> uuid \<Rightarrow> approval_row option" where
  "get_action_approval db approval_id = find (\<lambda>r. ar_id r = approval_id) (t_approvals db)"

definition get_action_approval_for_user :: "build_db \<Rightarrow> uuid \<Rightarrow> uuid \<Rightarrow> approval_row option" where
  "get_action_approval_for_user db approval_id user_id =
     find (\<lambda>r. ar_id r = approval_id
        \<and> (\<exists>s \<in> set (t_sessions db). bs_id s = ar_session r \<and> bs_user s = Some user_id)) (t_approvals db)"

definition list_session_pending_action_approvals :: "build_db \<Rightarrow> uuid \<Rightarrow> int option \<Rightarrow> approval_row list" where
  "list_session_pending_action_approvals db session_id created_after =
     sort_key (\<lambda>r. - ar_created_at r) (filter (\<lambda>r. ar_session r = session_id \<and> ar_decision r = None
        \<and> (case created_after of None \<Rightarrow> True | Some c \<Rightarrow> c \<le> ar_created_at r)) (t_approvals db))"

text \<open>Descending order puts rows without a date first.\<close>

definition list_session_grant_action_approvals :: "build_db \<Rightarrow> uuid \<Rightarrow> int \<Rightarrow> approval_row list" where
  "list_session_grant_action_approvals db session_id app_id =
    (let rows = filter (\<lambda>r. ar_session r = session_id \<and> ar_app r = Some app_id
        \<and> ar_decision r = Some APPROVED \<and> ar_via r = Some SESSION_GRANT) (t_approvals db)
     in filter (\<lambda>r. ar_decided_at r = None) rows
        @ sort_key (\<lambda>r. - the (ar_decided_at r)) (filter (\<lambda>r. ar_decided_at r \<noteq> None) rows))"

definition get_build_session :: "build_db \<Rightarrow> uuid \<Rightarrow> uuid \<Rightarrow> build_session option" where
  "get_build_session db session_id user_id =
     find (\<lambda>s. bs_id s = session_id \<and> bs_user s = Some user_id) (t_sessions db)"

definition get_live_scheduled_run_grants :: "build_db \<Rightarrow> uuid \<Rightarrow> (uuid \<times> int list) option" where
  "get_live_scheduled_run_grants db session_id =
    (case find (\<lambda>r. tr_session r = Some session_id \<and> tr_status r = RUN_RUNNING) (t_runs db) of
       None \<Rightarrow> None
     | Some run \<Rightarrow> Some (tr_id run,
         map pa_app (sort_key pa_id (filter (\<lambda>p. pa_task p = tr_task run) (t_pre_approved db)))))"

section \<open>Views\<close>

record approval_view =
  av_row :: approval_row
  av_actions :: "matched_action list"

definition parse_action :: "pyval \<Rightarrow> matched_action result" where
  "parse_action a = (case a of
     PDict d \<Rightarrow>
       (case (dict_get d ''action_type'', dict_get d ''display_name'', dict_get d ''description'', dict_get d ''policy'') of
          (Some (PStr t), Some (PStr n), Some (PStr x), Some (PStr p)) \<Rightarrow>
            bind_r (parse_policy p) (\<lambda>q. Inr \<lparr>ma_type = t, ma_name = n, ma_description = x, ma_policy = q\<rparr>)
        | _ \<Rightarrow> Inl ValueError)
   | _ \<Rightarrow> Inl ValueError)"

definition view_of :: "approval_row \<Rightarrow> approval_view result" where
  "view_of r = bind_r (map_r parse_action (ar_actions r)) (\<lambda>acts. Inr \<lparr>av_row = r, av_actions = acts\<rparr>)"

definition is_live :: "int \<Rightarrow> int \<Rightarrow> approval_row \<Rightarrow> bool" where
  "is_live wait_s now r \<longleftrightarrow> ar_decision r = None \<and> now - wait_s * second \<le> ar_created_at r"

section \<open>Cache writes that may fail\<close>

text \<open>A push is lost, or stored without its time to live, or complete.\<close>

datatype push_fault = NotPushed | NotExpired | Pushed

record push_stamp =
  ps_now :: int
  ps_time_ns :: nat
  ps_nonce :: uuid
  ps_fault :: push_fault

definition send_wake_best_effort :: "push_stamp \<Rightarrow> uuid \<Rightarrow> approval_decision \<Rightarrow> tenant_data \<Rightarrow> tenant_data" where
  "send_wake_best_effort p approval_id decision st = (case ps_fault p of
     NotPushed \<Rightarrow> st
   | NotExpired \<Rightarrow> st\<lparr>ts_cache := pg_rpush (ps_now p) (ps_time_ns p) (ps_nonce p) (wake_key approval_id)
         (decision_value decision) (ts_cache st)\<rparr>
   | Pushed \<Rightarrow> st\<lparr>ts_cache := send_wake (ps_now p) (ps_time_ns p) (ps_nonce p) approval_id decision (ts_cache st)\<rparr>)"

definition ask_types :: "approval_row \<Rightarrow> string list" where
  "ask_types r = actions_requiring_approval (map Persisted (ar_actions r))"

text \<open>The grants of the rows are cached in order; the fault says how many rows and how many of the
  next row's actions are written before the cache fails.\<close>

definition cache_row_grants :: "int \<Rightarrow> uuid \<Rightarrow> int \<Rightarrow> nat \<Rightarrow> approval_row \<Rightarrow> string cache_table \<Rightarrow> string cache_table" where
  "cache_row_grants now session_id app_id n r =
     cache_session_grant_actions postgres_backend now session_id app_id (take n (ask_types r)) (ar_id r)"

definition cache_grants ::
  "int \<Rightarrow> (nat \<times> nat) option \<Rightarrow> uuid \<Rightarrow> int \<Rightarrow> approval_row list \<Rightarrow> string cache_table \<Rightarrow> string cache_table" where
  "cache_grants now fault session_id app_id rows s = (case fault of
     None \<Rightarrow> fold (\<lambda>r. cache_row_grants now session_id app_id (length (ask_types r)) r) rows s
   | Some (i, n) \<Rightarrow>
      (let s' = fold (\<lambda>r. cache_row_grants now session_id app_id (length (ask_types r)) r) (take i rows) s
       in if i < length rows then cache_row_grants now session_id app_id n (rows ! i) s' else s'))"

section \<open>Endpoints\<close>

type_synonym others = "nat \<Rightarrow> tenant_data \<Rightarrow> tenant_data"

definition list_live_approvals :: "int \<Rightarrow> int \<Rightarrow> uuid \<Rightarrow> uuid \<Rightarrow> build_db \<Rightarrow> approval_view list result" where
  "list_live_approvals wait_s now session_id user_id db =
    (if get_build_session db session_id user_id = None then Inl (OnyxError NOT_FOUND)
     else map_r view_of (list_session_pending_action_approvals db session_id (Some (now - wait_s * second))))"

definition existing_decision_response :: "approval_decision \<Rightarrow> approval_view \<Rightarrow> approval_view result" where
  "existing_decision_response requested view =
    (if ar_decision (av_row view) = Some requested then Inr view else Inl (OnyxError CONFLICT))"

text \<open>What another request decided first is read again; the row may be gone with its session.\<close>

definition lost_race :: "(approval_row \<Rightarrow> approval_view result) \<Rightarrow> uuid \<Rightarrow> tenant_data \<Rightarrow> approval_view result" where
  "lost_race answer approval_id st = (case get_action_approval (ts_db st) approval_id of
     None \<Rightarrow> Inl (OnyxError NOT_FOUND)
   | Some winner \<Rightarrow>
      if ar_decision winner = None then Inl (OnyxError INTERNAL_ERROR) else answer winner)"

definition submit_decision ::
  "others \<Rightarrow> push_stamp \<Rightarrow> int \<Rightarrow> uuid \<Rightarrow> approval_decision \<Rightarrow> uuid \<Rightarrow> tenant_data
    \<Rightarrow> approval_view result \<times> tenant_data" where
  "submit_decision others p now approval_id decision user_id st =
    (if decision = EXPIRED then (Inl ValueError, st)
     else case get_action_approval_for_user (ts_db st) approval_id user_id of
       None \<Rightarrow> (Inl (OnyxError NOT_FOUND), st)
     | Some current \<Rightarrow>
        if ar_decision current \<noteq> None
        then (bind_r (view_of current) (existing_decision_response decision), st)
        else let st1 = others 0 st in
          case try_record_decision now approval_id decision (Some USER) (ts_db st1) of
            (None, _) \<Rightarrow> let st2 = others 1 st1 in
              (lost_race (\<lambda>w. bind_r (view_of w) (existing_decision_response decision)) approval_id st2, st2)
          | (Some decided, db) \<Rightarrow>
              (view_of decided,
               send_wake_best_effort p approval_id decision (others 1 (st1\<lparr>ts_db := db\<rparr>))))"

definition covered_by :: "string set \<Rightarrow> approval_row \<Rightarrow> bool" where
  "covered_by granted r \<longleftrightarrow> ask_types r \<noteq> [] \<and> set (ask_types r) \<subseteq> granted"

fun approve_covered ::
  "int \<Rightarrow> uuid \<Rightarrow> int \<Rightarrow> string set \<Rightarrow> approval_row list \<Rightarrow> uuid list \<times> build_db \<Rightarrow> uuid list \<times> build_db" where
  "approve_covered now approval_id app_id granted [] acc = acc"
| "approve_covered now approval_id app_id granted (row # rows) (ids, db) =
    (if ar_id row = approval_id \<or> ar_app row \<noteq> Some app_id \<or> \<not> covered_by granted row
     then approve_covered now approval_id app_id granted rows (ids, db)
     else case try_record_decision now (ar_id row) APPROVED (Some SESSION_GRANT) db of
        (None, db') \<Rightarrow> approve_covered now approval_id app_id granted rows (ids, db')
      | (Some _, db') \<Rightarrow> approve_covered now approval_id app_id granted rows (ids @ [ar_id row], db'))"

text \<open>What the endpoint does after the row is decided.\<close>

definition after_grant ::
  "others \<Rightarrow> (nat \<Rightarrow> push_stamp) \<Rightarrow> (nat \<times> nat) option \<Rightarrow> int \<Rightarrow> int \<Rightarrow> uuid \<Rightarrow> uuid \<Rightarrow> int \<Rightarrow> tenant_data \<Rightarrow> tenant_data" where
  "after_grant others p fault wait_s now i s a st =
    (let st2 = others 2 (send_wake_best_effort (p 0) i APPROVED (others 1 st));
         sources = list_session_grant_action_approvals (ts_db st2) s a;
         granted = (\<Union>r \<in> set sources. set (ask_types r));
         st3 = others 3 (st2\<lparr>ts_cache := cache_grants now fault s a sources (ts_cache st2)\<rparr>);
         pending = list_session_pending_action_approvals (ts_db st3) s (Some (now - wait_s * second));
         st4 = others 4 st3;
         (ids, db') = approve_covered now i a granted pending ([], ts_db st4);
         st5 = others 5 (st4\<lparr>ts_db := db'\<rparr>)
     in fold (\<lambda>(k, j). send_wake_best_effort (p (Suc k)) j APPROVED) (enumerate 0 ids) st5)"

definition submit_session_grant ::
  "others \<Rightarrow> (nat \<Rightarrow> push_stamp) \<Rightarrow> (nat \<times> nat) option \<Rightarrow> int \<Rightarrow> int \<Rightarrow> uuid \<Rightarrow> uuid \<Rightarrow> tenant_data
    \<Rightarrow> approval_view result \<times> tenant_data" where
  "submit_session_grant others p fault wait_s now approval_id user_id st =
    (case get_action_approval_for_user (ts_db st) approval_id user_id of
       None \<Rightarrow> (Inl (OnyxError NOT_FOUND), st)
     | Some current \<Rightarrow>
      (case ar_app current of
         None \<Rightarrow> (Inl (OnyxError INVALID_INPUT), st)
       | Some app_id \<Rightarrow>
        if ar_decision current \<noteq> None then (Inl (OnyxError CONFLICT), st)
        else if ar_created_at current < now - wait_s * second then (Inl (OnyxError CONFLICT), st)
        else if ask_types current = [] then (Inl (OnyxError INVALID_INPUT), st)
        else let st1 = others 0 st in
          case try_record_decision now approval_id APPROVED (Some SESSION_GRANT) (ts_db st1) of
            (None, _) \<Rightarrow> let st2 = others 1 st1 in
              (lost_race (\<lambda>_. Inl (OnyxError CONFLICT)) approval_id st2, st2)
          | (Some decided, db) \<Rightarrow>
              (view_of decided, after_grant others p fault wait_s now approval_id (ar_session current) app_id
                 (st1\<lparr>ts_db := db\<rparr>))))"

end
