(* ===== verification/ApprovalHistory.thy ===== *)
theory ApprovalHistory
  imports Approvals
begin

text \<open>
  The history of approvals: every way the program changes the approval table and the signals and grants
  in the cache is a step, taken by any number of servers and proxies at once.  A ghost remembers every
  row ever stored and what was granted to a session.  The invariants say that a recorded decision is
  final, that a wake signal tells the truth, and that grants of a session never grow beyond what its
  owner granted.
\<close>

section \<open>Steps\<close>

record ghost =
  g_log :: "uuid \<Rightarrow> approval_row option"
  g_granted :: "(uuid \<times> int \<times> string) set"

type_synonym config = "tenant_data \<times> ghost"

definition remember :: "build_db \<Rightarrow> (uuid \<Rightarrow> approval_row option) \<Rightarrow> uuid \<Rightarrow> approval_row option" where
  "remember db log i = (case get_action_approval db i of Some r \<Rightarrow> Some r | None \<Rightarrow> log i)"

definition logged :: "tenant_data \<Rightarrow> ghost \<Rightarrow> config" where
  "logged st g = (st, g\<lparr>g_log := remember (ts_db st) (g_log g)\<rparr>)"

definition within_grants :: "(uuid \<times> int \<times> string) set \<Rightarrow> approval_row \<Rightarrow> bool" where
  "within_grants granted r \<longleftrightarrow>
     (\<forall>a t. ar_app r = Some a \<longrightarrow> t \<in> set (ask_types r) \<longrightarrow> (ar_session r, a, t) \<in> granted)"

definition pending_rows :: "build_db \<Rightarrow> uuid \<Rightarrow> approval_row set" where
  "pending_rows db i = {r \<in> set (t_approvals db). ar_id r = i \<and> ar_decision r = None}"

text \<open>What a user grants with a row.\<close>

definition row_grants :: "approval_row \<Rightarrow> (uuid \<times> int \<times> string) set" where
  "row_grants r = {(ar_session r, a, t) |a t. ar_app r = Some a \<and> t \<in> set (ask_types r)}"

definition wake_prefix :: "uuid \<Rightarrow> string" where
  "wake_prefix i = list_key_prefix @ wake_key i @ '':''"

definition protected_key :: "string \<Rightarrow> bool" where
  "protected_key k \<longleftrightarrow> (\<exists>i. prefix (wake_prefix i) k) \<or> (\<exists>s a t. k = session_grant_key s a t)"

definition keeps_protected :: "string cache_table \<Rightarrow> string cache_table \<Rightarrow> bool" where
  "keeps_protected c c' \<longleftrightarrow> (\<forall>k v e. (k, (v, e)) \<in> set c' \<longrightarrow> protected_key k \<longrightarrow> (\<exists>e'. (k, (v, e')) \<in> set c))"

definition drop_session :: "uuid \<Rightarrow> build_db \<Rightarrow> build_db" where
  "drop_session s db = db\<lparr>t_sessions := filter (\<lambda>x. bs_id x \<noteq> s) (t_sessions db),
     t_approvals := filter (\<lambda>r. ar_session r \<noteq> s) (t_approvals db),
     t_runs := map (\<lambda>r. if tr_session r = Some s then r\<lparr>tr_session := None\<rparr> else r) (t_runs db)\<rparr>"

definition with_apps :: "app_db \<Rightarrow> build_db \<Rightarrow> build_db" where
  "with_apps e db = db\<lparr>t_external := e,
     t_approvals := map (\<lambda>r. case ar_app r of None \<Rightarrow> r
        | Some a \<Rightarrow> if a \<in> ea_id ` set (t_apps e) then r else r\<lparr>ar_app := None\<rparr>) (t_approvals db)\<rparr>"

inductive step :: "config \<Rightarrow> config \<Rightarrow> bool" where
  ask: "insert_action_approval now i s acts nm pay app None None (ts_db st) = Inr (r, db)
    \<Longrightarrow> g_log g i = None \<Longrightarrow> step (st, g) (logged (st\<lparr>ts_db := db\<rparr>) g)"
| granted: "insert_action_approval now i s acts nm pay app (Some APPROVED) (Some via) (ts_db st) = Inr (r, db)
    \<Longrightarrow> g_log g i = None \<Longrightarrow> via \<noteq> USER \<Longrightarrow> (via = SESSION_GRANT \<Longrightarrow> within_grants (g_granted g) r)
    \<Longrightarrow> step (st, g) (logged (st\<lparr>ts_db := db\<rparr>) g)"
| decide: "(via = Some SESSION_GRANT \<Longrightarrow> d = APPROVED \<and> (\<forall>r \<in> pending_rows (ts_db st) i. within_grants (g_granted g) r))
    \<Longrightarrow> step (st, g) (logged (st\<lparr>ts_db := snd (try_record_decision now i d via (ts_db st))\<rparr>) g)"
| user_grant: "step (st, g) (logged (st\<lparr>ts_db := snd (try_record_decision now i APPROVED (Some SESSION_GRANT) (ts_db st))\<rparr>)
      (g\<lparr>g_granted := g_granted g \<union> \<Union> (row_grants ` pending_rows (ts_db st) i)\<rparr>))"
| wake: "(d = APPROVED \<Longrightarrow> \<exists>r. g_log g i = Some r \<and> ar_decision r = Some APPROVED)
    \<Longrightarrow> step (st, g) (send_wake_best_effort p i d st, g)"
| cache_grant: "(s, a, t) \<in> g_granted g
    \<Longrightarrow> step (st, g) (st\<lparr>ts_cache := pg_set now (session_grant_key s a t) v ex (ts_cache st)\<rparr>, g)"
| cache_else: "keeps_protected (ts_cache st) c \<Longrightarrow> step (st, g) (st\<lparr>ts_cache := c\<rparr>, g)"
| session_deleted: "step (st, g) (logged (st\<lparr>ts_db := drop_session s (ts_db st)\<rparr>) g)"
| apps_changed: "step (st, g) (logged (st\<lparr>ts_db := with_apps e (ts_db st)\<rparr>) g)"
| tables_else: "t_approvals db = t_approvals (ts_db st) \<Longrightarrow> step (st, g) (logged (st\<lparr>ts_db := db\<rparr>) g)"

abbreviation steps :: "config \<Rightarrow> config \<Rightarrow> bool" where "steps \<equiv> step\<^sup>*\<^sup>*"

section \<open>Invariants\<close>

definition wakes_true :: "config \<Rightarrow> bool" where
  "wakes_true c \<longleftrightarrow> (\<forall>i k e. (k, (decision_value APPROVED, e)) \<in> set (ts_cache (fst c)) \<longrightarrow> prefix (wake_prefix i) k
     \<longrightarrow> (\<exists>r. g_log (snd c) i = Some r \<and> ar_decision r = Some APPROVED))"

definition grants_true :: "config \<Rightarrow> bool" where
  "grants_true c \<longleftrightarrow> (\<forall>s a t x. (session_grant_key s a t, x) \<in> set (ts_cache (fst c)) \<longrightarrow> (s, a, t) \<in> g_granted (snd c))
     \<and> (\<forall>i r. g_log (snd c) i = Some r \<longrightarrow> ar_via r = Some SESSION_GRANT
          \<longrightarrow> ar_decision r = Some APPROVED \<and> within_grants (g_granted (snd c)) r)"

definition rows_logged :: "config \<Rightarrow> bool" where
  "rows_logged c \<longleftrightarrow> distinct (map ar_id (t_approvals (ts_db (fst c))))
     \<and> (\<forall>r \<in> set (t_approvals (ts_db (fst c))). g_log (snd c) (ar_id r) = Some r)
     \<and> (\<forall>i r. g_log (snd c) i = Some r \<longrightarrow> ar_id r = i)
     \<and> (\<forall>i r. g_log (snd c) i = Some r \<longrightarrow> ar_via r \<noteq> None \<longrightarrow> ar_decision r \<noteq> None)"

definition coherent :: "config \<Rightarrow> bool" where
  "coherent c \<longleftrightarrow> rows_logged c \<and> wakes_true c \<and> grants_true c"

definition row_evolves :: "approval_row \<Rightarrow> approval_row \<Rightarrow> bool" where
  "row_evolves r r' \<longleftrightarrow> ar_id r' = ar_id r \<and> ar_session r' = ar_session r \<and> ar_actions r' = ar_actions r
     \<and> ar_app_name r' = ar_app_name r \<and> ar_payload r' = ar_payload r \<and> ar_created_at r' = ar_created_at r
     \<and> ar_app r' \<in> {ar_app r, None}
     \<and> (ar_decision r \<noteq> None \<longrightarrow> ar_decision r' = ar_decision r \<and> ar_decided_at r' = ar_decided_at r \<and> ar_via r' = ar_via r)"

definition evolves :: "ghost \<Rightarrow> ghost \<Rightarrow> bool" where
  "evolves g g' \<longleftrightarrow> g_granted g \<subseteq> g_granted g'
     \<and> (\<forall>i r. g_log g i = Some r \<longrightarrow> (\<exists>r'. g_log g' i = Some r' \<and> row_evolves r r'))"

lemma row_evolves_refl [simp, intro]: "row_evolves r r"
  by (simp add: row_evolves_def)

lemma row_evolves_trans: "row_evolves a b \<Longrightarrow> row_evolves b c \<Longrightarrow> row_evolves a c"
  by (auto simp: row_evolves_def)

lemma evolves_refl [simp, intro]: "evolves g g"
  by (auto simp: evolves_def)

lemma evolves_trans: "evolves a b \<Longrightarrow> evolves b c \<Longrightarrow> evolves a c"
  unfolding evolves_def by (metis row_evolves_trans subset_trans)

lemma evolves_approved: "evolves g g' \<Longrightarrow> \<exists>r. g_log g i = Some r \<and> ar_decision r = Some d
    \<Longrightarrow> \<exists>r. g_log g' i = Some r \<and> ar_decision r = Some d"
  by (fastforce simp: evolves_def row_evolves_def)

lemma get_action_approval_Some: "get_action_approval db i = Some r \<Longrightarrow> r \<in> set (t_approvals db) \<and> ar_id r = i"
  by (auto simp: get_action_approval_def find_Some_iff)

lemma get_action_approval_None: "get_action_approval db i = None \<longleftrightarrow> i \<notin> ar_id ` set (t_approvals db)"
  by (auto simp: get_action_approval_def find_None_iff)

lemma get_action_approval_row:
  "distinct (map ar_id (t_approvals db)) \<Longrightarrow> r \<in> set (t_approvals db) \<Longrightarrow> get_action_approval db (ar_id r) = Some r"
  by (metis get_action_approval_None get_action_approval_Some distinct_map inj_onD imageI not_None_eq)

subsection \<open>Steps of the table\<close>

definition table_ok :: "ghost \<Rightarrow> approval_row list \<Rightarrow> bool" where
  "table_ok g rows \<longleftrightarrow> distinct (map ar_id rows) \<and> (\<forall>r' \<in> set rows. \<forall>r. g_log g (ar_id r') = Some r \<longrightarrow> row_evolves r r')"

lemma remember_cases:
  assumes "remember db log i = Some r"
  obtains "r \<in> set (t_approvals db)" "ar_id r = i" | "i \<notin> ar_id ` set (t_approvals db)" "log i = Some r"
  using assms by (auto simp: remember_def get_action_approval_None [symmetric] split: option.splits
      dest: get_action_approval_Some)

lemma evolves_logged:
  assumes "table_ok g (t_approvals (ts_db st))" and "g_granted g \<subseteq> G"
  shows "evolves g (snd (logged st (g\<lparr>g_granted := G\<rparr>)))"
  unfolding evolves_def
proof (intro conjI allI impI)
  show "g_granted g \<subseteq> g_granted (snd (logged st (g\<lparr>g_granted := G\<rparr>)))"
    using assms(2) by (simp add: logged_def)
  fix i r assume log: "g_log g i = Some r"
  show "\<exists>r'. g_log (snd (logged st (g\<lparr>g_granted := G\<rparr>))) i = Some r' \<and> row_evolves r r'"
  proof (cases "get_action_approval (ts_db st) i")
    case None
    then show ?thesis using log by (simp add: logged_def remember_def)
  next
    case (Some r')
    then have "row_evolves r r'"
      using assms(1) log by (auto simp: table_ok_def dest: get_action_approval_Some)
    then show ?thesis using Some by (simp add: logged_def remember_def)
  qed
qed

lemma wakes_true_mono:
  "wakes_true (st, g) \<Longrightarrow> evolves g g' \<Longrightarrow> ts_cache st' = ts_cache st \<Longrightarrow> wakes_true (st', g')"
  unfolding wakes_true_def by simp (meson evolves_approved)

lemma coherent_logged:
  assumes c: "coherent (st, g)" and t: "table_ok g (t_approvals (ts_db st'))" and G: "g_granted g \<subseteq> G"
    and cache: "ts_cache st' = ts_cache st"
    and via: "\<forall>r \<in> set (t_approvals (ts_db st')). ar_via r \<noteq> None \<longrightarrow> ar_decision r \<noteq> None"
    and grant: "\<forall>r \<in> set (t_approvals (ts_db st')). ar_via r = Some SESSION_GRANT
       \<longrightarrow> ar_decision r = Some APPROVED \<and> within_grants G r"
  shows "coherent (logged st' (g\<lparr>g_granted := G\<rparr>))"
proof -
  let ?c = "logged st' (g\<lparr>g_granted := G\<rparr>)"
  have log: "g_log (snd ?c) = remember (ts_db st') (g_log g)" "fst ?c = st'" "g_granted (snd ?c) = G"
    by (simp_all add: logged_def)
  have "rows_logged ?c"
    unfolding rows_logged_def log
  proof (intro conjI ballI allI impI)
    show d: "distinct (map ar_id (t_approvals (ts_db st')))" using t by (simp add: table_ok_def)
    show "remember (ts_db st') (g_log g) (ar_id r) = Some r" if "r \<in> set (t_approvals (ts_db st'))" for r
      using get_action_approval_row [OF d that] by (simp add: remember_def)
    show "ar_id r = i" if "remember (ts_db st') (g_log g) i = Some r" for i r
      using that c by (cases rule: remember_cases) (auto simp: coherent_def rows_logged_def)
    show "ar_decision r \<noteq> None" if "remember (ts_db st') (g_log g) i = Some r" "ar_via r \<noteq> None" for i r
      using that c via by (cases rule: remember_cases) (auto simp: coherent_def rows_logged_def)
  qed
  moreover have "wakes_true ?c"
    using wakes_true_mono [of st g "snd ?c" st'] c evolves_logged [OF t G] cache
    by (simp add: coherent_def logged_def)
  moreover have "grants_true ?c"
    unfolding grants_true_def log
  proof (intro conjI allI impI)
    show "(s, a, x) \<in> G" if "(session_grant_key s a x, v) \<in> set (ts_cache st')" for s a x v
      using that c G unfolding coherent_def grants_true_def fst_conv snd_conv cache by blast
    have "ar_decision r = Some APPROVED \<and> within_grants G r"
      if "remember (ts_db st') (g_log g) i = Some r" "ar_via r = Some SESSION_GRANT" for i r
      using that(1)
    proof (cases rule: remember_cases)
      case 2
      then show ?thesis using c G that(2) by (fastforce simp: coherent_def grants_true_def within_grants_def)
    qed (use grant that(2) in auto)
    then show "ar_decision r = Some APPROVED" "within_grants G r"
      if "remember (ts_db st') (g_log g) i = Some r" "ar_via r = Some SESSION_GRANT" for i r
      using that by blast+
  qed
  ultimately show ?thesis by (simp add: coherent_def)
qed

lemma coherent_row: "coherent (st, g) \<Longrightarrow> r \<in> set (t_approvals (ts_db st)) \<Longrightarrow> g_log g (ar_id r) = Some r"
  by (simp add: coherent_def rows_logged_def)

lemma coherent_via: "coherent (st, g) \<Longrightarrow> r \<in> set (t_approvals (ts_db st)) \<Longrightarrow> ar_via r \<noteq> None \<Longrightarrow> ar_decision r \<noteq> None"
  by (auto simp: coherent_def rows_logged_def)

lemma coherent_session_grant: "coherent (st, g) \<Longrightarrow> r \<in> set (t_approvals (ts_db st)) \<Longrightarrow> ar_via r = Some SESSION_GRANT
    \<Longrightarrow> ar_decision r = Some APPROVED \<and> within_grants (g_granted g) r"
  using coherent_row [of st g r] by (auto simp: coherent_def grants_true_def)

lemma coherent_distinct: "coherent (st, g) \<Longrightarrow> distinct (map ar_id (t_approvals (ts_db st)))"
  by (simp add: coherent_def rows_logged_def)

lemma within_grants_mono: "within_grants G r \<Longrightarrow> G \<subseteq> H \<Longrightarrow> within_grants H r"
  by (auto simp: within_grants_def)

lemma within_grants_evolves: "within_grants G r \<Longrightarrow> row_evolves r r' \<Longrightarrow> within_grants G r'"
  by (auto simp: within_grants_def row_evolves_def ask_types_def)

lemma table_ok_append:
  "coherent (st, g) \<Longrightarrow> g_log g (ar_id r) = None \<Longrightarrow> table_ok g (t_approvals (ts_db st) @ [r])"
  using coherent_row [of st g] by (fastforce simp: table_ok_def coherent_distinct dest: coherent_row)

lemma table_ok_map:
  assumes c: "coherent (st, g)" and f: "\<And>r. r \<in> set (t_approvals (ts_db st)) \<Longrightarrow> row_evolves r (f r)"
  shows "table_ok g (map f (t_approvals (ts_db st)))"
proof -
  have ids: "map ar_id (map f (t_approvals (ts_db st))) = map ar_id (t_approvals (ts_db st))"
    using f by (simp add: row_evolves_def)
  have "row_evolves r' (f r)" if "r \<in> set (t_approvals (ts_db st))" "g_log g (ar_id (f r)) = Some r'" for r r'
    using that f [OF that(1)] coherent_row [OF c that(1)] by (simp add: row_evolves_def)
  then show ?thesis
    unfolding table_ok_def ids set_map using coherent_distinct [OF c] by blast
qed

lemma table_ok_filter: "coherent (st, g) \<Longrightarrow> table_ok g (filter P (t_approvals (ts_db st)))"
  by (auto simp: table_ok_def distinct_map_filter coherent_distinct dest: coherent_row)

lemma insert_row:
  assumes "insert_action_approval now i s acts nm pay app d via db = Inr (r, db')"
  shows "t_approvals db' = t_approvals db @ [r]" "ar_id r = i" "ar_session r = s" "ar_decision r = d" "ar_via r = via"
    "ar_app r = app" "ar_decided_at r = (if d = None then None else Some now)"
  using assms by (auto simp: insert_action_approval_def bind_r_Inr_iff Let_def split: if_splits option.splits)

lemma try_record_rows:
  "t_approvals (snd (try_record_decision now i d via db))
    = map (\<lambda>r. if r \<in> pending_rows db i then decide now d via r else r) (t_approvals db)"
  by (auto simp: try_record_decision_def pending_rows_def Let_def)

lemma row_evolves_decide: "ar_decision r = None \<Longrightarrow> row_evolves r (decide now d via r)"
  by (simp add: row_evolves_def decide_def)

lemma within_grants_decide [simp]: "within_grants G (decide now d via r) \<longleftrightarrow> within_grants G r"
  by (simp add: within_grants_def decide_def ask_types_def)

lemma decide_fields [simp]: "ar_decision (decide now d via r) = Some d" "ar_via (decide now d via r) = via"
  "ar_id (decide now d via r) = ar_id r" "ar_session (decide now d via r) = ar_session r"
  "ar_app (decide now d via r) = ar_app r" "ask_types (decide now d via r) = ask_types r"
  by (simp_all add: decide_def ask_types_def)

lemma coherent_decided:
  assumes c: "coherent (st, g)" and G: "g_granted g \<subseteq> G"
    and via: "via = Some SESSION_GRANT \<Longrightarrow> d = APPROVED \<and> (\<forall>r \<in> pending_rows (ts_db st) i. within_grants G r)"
  shows "coherent (logged (st\<lparr>ts_db := snd (try_record_decision now i d via (ts_db st))\<rparr>) (g\<lparr>g_granted := G\<rparr>))
    \<and> evolves g (snd (logged (st\<lparr>ts_db := snd (try_record_decision now i d via (ts_db st))\<rparr>) (g\<lparr>g_granted := G\<rparr>)))"
proof -
  let ?st = "st\<lparr>ts_db := snd (try_record_decision now i d via (ts_db st))\<rparr>"
  let ?f = "\<lambda>r. if r \<in> pending_rows (ts_db st) i then decide now d via r else r"
  have rows: "t_approvals (ts_db ?st) = map ?f (t_approvals (ts_db st))"
    by (simp add: try_record_rows)
  have t: "table_ok g (t_approvals (ts_db ?st))"
    unfolding rows by (rule table_ok_map [OF c]) (auto simp: pending_rows_def intro: row_evolves_decide)
  have a: "ar_decision (?f r) = Some APPROVED \<and> within_grants G (?f r)"
    if "r \<in> set (t_approvals (ts_db st))" "ar_via (?f r) = Some SESSION_GRANT" for r
    using that via coherent_session_grant [OF c that(1)] within_grants_mono [OF _ G] by (auto split: if_splits)
  have "\<forall>r \<in> set (t_approvals (ts_db ?st)). ar_via r = Some SESSION_GRANT
      \<longrightarrow> ar_decision r = Some APPROVED \<and> within_grants G r"
    unfolding rows set_map ball_simps using a by blast
  moreover have b: "ar_decision (?f r) \<noteq> None" if "r \<in> set (t_approvals (ts_db st))" "ar_via (?f r) \<noteq> None" for r
    using that coherent_via [OF c that(1)] by (auto split: if_splits)
  have "\<forall>r \<in> set (t_approvals (ts_db ?st)). ar_via r \<noteq> None \<longrightarrow> ar_decision r \<noteq> None"
    unfolding rows set_map ball_simps using b by blast
  ultimately show ?thesis
    by (intro conjI coherent_logged [OF c t G] evolves_logged [OF t G]) simp_all
qed

subsection \<open>Steps of the cache\<close>

lemma in_dict_set: "(k, x) \<in> set (dict_set k' x' d) \<Longrightarrow> k = k' \<and> x = x' \<or> (k, x) \<in> set d"
  by (induction k' x' d rule: dict_set.induct) (auto split: if_splits)

lemma in_pg_expire: "(k, (v, e)) \<in> set (pg_expire now k' d s) \<Longrightarrow> \<exists>e'. (k, (v, e')) \<in> set s"
  by (auto simp: pg_expire_def split: if_splits)

lemma wake_prefix_inj [simp]: "prefix (wake_prefix i) (wake_prefix j @ x) \<longleftrightarrow> i = j"
proof
  assume "prefix (wake_prefix i) (wake_prefix j @ x)"
  then obtain y where "wake_prefix i @ y = wake_prefix j @ x" by (auto simp: prefix_def)
  then have "uuid_str i @ '':'' @ y = uuid_str j @ '':'' @ x" by (simp add: wake_prefix_def wake_key_def)
  then have "uuid_str i = uuid_str j" by (simp add: append_eq_append_conv)
  then show "i = j" by simp
qed simp

lemma wake_item_key: "list_item_key (wake_key i) t u = wake_prefix i @ nat_str t @ '':'' @ hex_digits 32 u"
  by (simp add: list_item_key_def wake_prefix_def)

lemma grant_key_no_wake [simp]: "\<not> prefix (wake_prefix i) (session_grant_key s a t)"
  "wake_prefix i @ x \<noteq> session_grant_key s a t" "session_grant_key s a t \<noteq> wake_prefix i @ x"
  by (simp_all add: wake_prefix_def session_grant_key_def list_key_prefix_def)

lemma cache_of_wake:
  "(k, (v, e)) \<in> set (ts_cache (send_wake_best_effort p i d st)) \<Longrightarrow>
    (\<exists>x. k = wake_prefix i @ x \<and> v = decision_value d) \<or> (\<exists>e'. (k, (v, e')) \<in> set (ts_cache st))"
  by (auto simp: send_wake_best_effort_def send_wake_def pg_rpush_def pg_set_def wake_item_key Let_def
      split: push_fault.splits dest!: in_pg_expire in_dict_set)

lemma send_wake_db [simp]: "ts_db (send_wake_best_effort p i d st) = ts_db st"
  by (simp add: send_wake_best_effort_def split: push_fault.split)

lemma decision_value_inj [simp]: "decision_value d = decision_value d' \<longleftrightarrow> d = d'"
  by (metis parse_decision_value sum.inject(2))

lemma coherent_cache:
  assumes c: "coherent (st, g)" and db: "ts_db st' = ts_db st"
    and wakes: "\<And>i k v e. (k, (v, e)) \<in> set (ts_cache st') \<Longrightarrow> prefix (wake_prefix i) k \<Longrightarrow> v = decision_value APPROVED
      \<Longrightarrow> (\<exists>e'. (k, (v, e')) \<in> set (ts_cache st)) \<or> (\<exists>r. g_log g i = Some r \<and> ar_decision r = Some APPROVED)"
    and grants: "\<And>s a t v e. (session_grant_key s a t, (v, e)) \<in> set (ts_cache st')
      \<Longrightarrow> (\<exists>e'. (session_grant_key s a t, (v, e')) \<in> set (ts_cache st)) \<or> (s, a, t) \<in> g_granted g"
  shows "coherent (st', g)"
proof -
  have "wakes_true (st', g)"
    using c wakes unfolding coherent_def wakes_true_def fst_conv snd_conv by blast
  moreover have "grants_true (st', g)"
    using c grants unfolding coherent_def grants_true_def fst_conv snd_conv by (metis prod.collapse)
  ultimately show ?thesis using c db by (simp add: coherent_def rows_logged_def)
qed

section \<open>Every step keeps the invariants\<close>

lemma logged_same: "logged st g = logged st (g\<lparr>g_granted := g_granted g\<rparr>)"
  by simp

lemma pending_coherent: "coherent (st, g) \<Longrightarrow> r \<in> pending_rows (ts_db st) i \<Longrightarrow> g_log g i = Some r"
  by (auto simp: pending_rows_def dest: coherent_row)

lemma coherent_inserted:
  assumes c: "coherent (st, g)" and rows: "t_approvals db = t_approvals (ts_db st) @ [r]"
    and new: "g_log g (ar_id r) = None" and via: "ar_via r \<noteq> None \<Longrightarrow> ar_decision r \<noteq> None"
    and grant: "ar_via r = Some SESSION_GRANT \<Longrightarrow> ar_decision r = Some APPROVED \<and> within_grants (g_granted g) r"
  shows "coherent (logged (st\<lparr>ts_db := db\<rparr>) g) \<and> evolves g (snd (logged (st\<lparr>ts_db := db\<rparr>) g))"
proof -
  have t: "table_ok g (t_approvals (ts_db (st\<lparr>ts_db := db\<rparr>)))"
    using table_ok_append [OF c new] by (simp add: rows)
  have s: "g\<lparr>g_granted := g_granted g\<rparr> = g" by simp
  note c' = coherent_logged [OF c t order_refl, unfolded s] and e' = evolves_logged [OF t order_refl, unfolded s]
  show ?thesis
    by (intro conjI c' e') (use via grant coherent_via [OF c] coherent_session_grant [OF c] in \<open>auto simp: rows\<close>)
qed

lemma coherent_reduced:
  assumes c: "coherent (st, g)" and t: "table_ok g (t_approvals db)"
    and origin: "\<And>r'. r' \<in> set (t_approvals db) \<Longrightarrow> \<exists>r \<in> set (t_approvals (ts_db st)). row_evolves r r'
      \<and> ar_via r' = ar_via r \<and> ar_decision r' = ar_decision r"
  shows "coherent (logged (st\<lparr>ts_db := db\<rparr>) g) \<and> evolves g (snd (logged (st\<lparr>ts_db := db\<rparr>) g))"
proof -
  have s: "g\<lparr>g_granted := g_granted g\<rparr> = g" by simp
  have t': "table_ok g (t_approvals (ts_db (st\<lparr>ts_db := db\<rparr>)))" using t by simp
  note c' = coherent_logged [OF c t' order_refl, unfolded s] and e' = evolves_logged [OF t' order_refl, unfolded s]
  have "\<forall>r \<in> set (t_approvals db). ar_via r \<noteq> None \<longrightarrow> ar_decision r \<noteq> None"
    using origin coherent_via [OF c] by metis
  moreover have "\<forall>r \<in> set (t_approvals db). ar_via r = Some SESSION_GRANT
      \<longrightarrow> ar_decision r = Some APPROVED \<and> within_grants (g_granted g) r"
    using origin coherent_session_grant [OF c] within_grants_evolves by metis
  ultimately show ?thesis by (intro conjI c' e') simp_all
qed

lemma coherent_step: "step c c' \<Longrightarrow> coherent c \<Longrightarrow> coherent c' \<and> evolves (snd c) (snd c')"
proof (induction rule: step.induct)
  case (ask now i s acts nm pay app st r db g)
  then show ?case
    using coherent_inserted [OF ask(3) insert_row(1) [OF ask(1)]] insert_row [OF ask(1)] by simp
next
  case (granted now i s acts nm pay app via st r db g)
  then show ?case
    using coherent_inserted [OF granted(5) insert_row(1) [OF granted(1)]] insert_row [OF granted(1)] by simp
next
  case (decide via d st i g now)
  have s: "g\<lparr>g_granted := g_granted g\<rparr> = g" by simp
  show ?case using coherent_decided [OF decide(2) order_refl decide(1), unfolded s] by simp
next
  case (user_grant st g now i)
  have "within_grants (g_granted g \<union> \<Union> (row_grants ` pending_rows (ts_db st) i)) r"
    if "r \<in> pending_rows (ts_db st) i" for r
    using that by (auto simp: within_grants_def row_grants_def)
  then show ?case
    using coherent_decided [OF user_grant, of "g_granted g \<union> \<Union> (row_grants ` pending_rows (ts_db st) i)"
        "Some SESSION_GRANT" APPROVED i now] by simp
next
  case (wake d g i st p)
  have "coherent (send_wake_best_effort p i d st, g)"
  proof (rule coherent_cache [OF wake(2)])
    fix j k v e
    assume "(k, (v, e)) \<in> set (ts_cache (send_wake_best_effort p i d st))"
      and "prefix (wake_prefix j) k" "v = decision_value APPROVED"
    then show "(\<exists>e'. (k, (v, e')) \<in> set (ts_cache st)) \<or> (\<exists>r. g_log g j = Some r \<and> ar_decision r = Some APPROVED)"
      using wake(1) by (auto dest!: cache_of_wake)
  next
    fix s a t v e
    assume "(session_grant_key s a t, (v, e)) \<in> set (ts_cache (send_wake_best_effort p i d st))"
    then show "(\<exists>e'. (session_grant_key s a t, (v, e')) \<in> set (ts_cache st)) \<or> (s, a, t) \<in> g_granted g"
      by (auto dest!: cache_of_wake)
  qed simp
  then show ?case by simp
next
  case (cache_grant s a t g st now v ex)
  have "coherent (st\<lparr>ts_cache := pg_set now (session_grant_key s a t) v ex (ts_cache st)\<rparr>, g)"
    by (rule coherent_cache [OF cache_grant(2)])
      (use cache_grant(1) in \<open>auto simp: pg_set_def Let_def dest!: in_dict_set\<close>)
  then show ?case by simp
next
  case (cache_else st c g)
  have "coherent (st\<lparr>ts_cache := c\<rparr>, g)"
    by (rule coherent_cache [OF cache_else(2)])
      (use cache_else(1) in \<open>fastforce simp: keeps_protected_def protected_key_def\<close>)+
  then show ?case by simp
next
  case (session_deleted st g s)
  have "table_ok g (t_approvals (drop_session s (ts_db st)))"
    by (simp add: drop_session_def table_ok_filter [OF session_deleted])
  from coherent_reduced [OF session_deleted this] show ?case by (auto simp: drop_session_def)
next
  case (apps_changed st g e)
  let ?f = "\<lambda>r. case ar_app r of None \<Rightarrow> r
      | Some a \<Rightarrow> if a \<in> ea_id ` set (t_apps e) then r else r\<lparr>ar_app := None\<rparr>"
  have f: "row_evolves r (?f r) \<and> ar_via (?f r) = ar_via r \<and> ar_decision (?f r) = ar_decision r" for r
    by (auto simp: row_evolves_def split: option.split)
  have rows: "t_approvals (with_apps e (ts_db st)) = map ?f (t_approvals (ts_db st))"
    by (simp add: with_apps_def)
  have "table_ok g (t_approvals (with_apps e (ts_db st)))"
    unfolding rows by (rule table_ok_map [OF apps_changed]) (use f in blast)
  moreover have "\<exists>r \<in> set (t_approvals (ts_db st)). row_evolves r r' \<and> ar_via r' = ar_via r \<and> ar_decision r' = ar_decision r"
    if "r' \<in> set (t_approvals (with_apps e (ts_db st)))" for r'
    using that f unfolding rows set_map by blast
  ultimately show ?case using coherent_reduced [OF apps_changed] by simp
next
  case (tables_else db st g)
  have "table_ok g (t_approvals db)"
    using table_ok_filter [OF tables_else(2), of "\<lambda>_. True"] tables_else(1) by simp
  from coherent_reduced [OF tables_else(2) this] show ?case by (auto simp: tables_else(1))
qed

lemma coherent_steps: "steps c c' \<Longrightarrow> coherent c \<Longrightarrow> coherent c' \<and> evolves (snd c) (snd c')"
  by (induction rule: rtranclp_induct) (use coherent_step evolves_trans in \<open>blast+\<close>)

text \<open>An empty database and a cache without signals and grants.\<close>

definition initial :: "config \<Rightarrow> bool" where
  "initial c \<longleftrightarrow> t_approvals (ts_db (fst c)) = [] \<and> (\<forall>(k, x) \<in> set (ts_cache (fst c)). \<not> protected_key k)
     \<and> snd c = \<lparr>g_log = Map.empty, g_granted = {}\<rparr>"

lemma coherent_initial: "initial c \<Longrightarrow> coherent c"
  by (fastforce simp: initial_def coherent_def rows_logged_def wakes_true_def grants_true_def protected_key_def)

definition reachable :: "config \<Rightarrow> bool" where
  "reachable c \<longleftrightarrow> (\<exists>c0. initial c0 \<and> steps c0 c)"

lemma reachable_coherent: "reachable c \<Longrightarrow> coherent c"
  using coherent_steps coherent_initial unfolding reachable_def by blast

lemma reachable_step: "reachable c \<Longrightarrow> step c c' \<Longrightarrow> reachable c'"
  unfolding reachable_def by (meson rtranclp.rtrancl_into_rtrancl)

lemma reachable_steps: "reachable c \<Longrightarrow> steps c c' \<Longrightarrow> reachable c'"
  unfolding reachable_def by (meson rtranclp_trans)

lemma steps_evolve: "reachable c \<Longrightarrow> steps c c' \<Longrightarrow> evolves (snd c) (snd c')"
  using coherent_steps reachable_coherent by blast

text \<open>Other requests take steps of the program, whatever state they find.\<close>

definition lawful :: "others \<Rightarrow> bool" where
  "lawful others \<longleftrightarrow> (\<forall>n st g. reachable (st, g) \<longrightarrow> (\<exists>g'. steps (st, g) (others n st, g')))"

lemma lawfulD: "lawful others \<Longrightarrow> reachable (st, g) \<Longrightarrow>
    \<exists>g'. steps (st, g) (others n st, g') \<and> reachable (others n st, g') \<and> evolves g g'"
  using reachable_steps steps_evolve unfolding lawful_def by (metis snd_conv)

lemma lawful_none: "lawful (\<lambda>n st. st)"
  by (auto simp: lawful_def)

section \<open>The endpoints take steps\<close>

definition recorded :: "ghost \<Rightarrow> uuid \<Rightarrow> approval_decision \<Rightarrow> bool" where
  "recorded g i d \<longleftrightarrow> (\<exists>r. g_log g i = Some r \<and> ar_decision r = Some d)"

lemma recorded_evolves: "recorded g i d \<Longrightarrow> evolves g g' \<Longrightarrow> recorded g' i d"
  using evolves_approved unfolding recorded_def by blast

lemma recorded_unique: "recorded g i d \<Longrightarrow> recorded g i d' \<Longrightarrow> d = d'"
  by (auto simp: recorded_def)

lemma recorded_row: "reachable (st, g) \<Longrightarrow> get_action_approval (ts_db st) i = Some r \<Longrightarrow> ar_decision r = Some d \<Longrightarrow> recorded g i d"
  unfolding recorded_def by (metis coherent_row get_action_approval_Some reachable_coherent)

lemma recorded_in_table: "reachable (st, g) \<Longrightarrow> recorded g i d \<Longrightarrow> get_action_approval (ts_db st) i = Some r \<Longrightarrow> ar_decision r = Some d"
  unfolding recorded_def by (metis coherent_row get_action_approval_Some option.inject reachable_coherent)

lemma get_for_user_Some: "get_action_approval_for_user db i u = Some r \<Longrightarrow> r \<in> set (t_approvals db) \<and> ar_id r = i"
  by (auto simp: get_action_approval_for_user_def find_Some_iff)

lemma recorded_for_user: "reachable (st, g) \<Longrightarrow> get_action_approval_for_user (ts_db st) i u = Some r
    \<Longrightarrow> ar_decision r = Some d \<Longrightarrow> recorded g i d"
  unfolding recorded_def by (metis coherent_row get_for_user_Some reachable_coherent)

lemma find_SomeD: "find P xs = Some x \<Longrightarrow> x \<in> set xs \<and> P x"
  by (induction xs) (auto split: if_splits)

lemma try_record_pending: "fst (try_record_decision now i d via db) = None \<longleftrightarrow> pending_rows db i = {}"
  by (auto simp: try_record_decision_def pending_rows_def Let_def find_None_iff)

lemma try_record_None: "fst (try_record_decision now i d via db) = None \<Longrightarrow> snd (try_record_decision now i d via db) = db"
proof -
  assume "fst (try_record_decision now i d via db) = None"
  then have "pending_rows db i = {}"
    by (simp add: try_record_pending)
  then have "map (\<lambda>r. if ar_id r = i \<and> ar_decision r = None then decide now d via r else r) (t_approvals db) = t_approvals db"
    by (intro map_idI) (auto simp: pending_rows_def)
  then show ?thesis by (simp add: try_record_decision_def Let_def)
qed

lemma try_record_Some: "fst (try_record_decision now i d via db) = Some r'
    \<Longrightarrow> \<exists>r \<in> pending_rows db i. r' = decide now d via r"
  by (auto simp: try_record_decision_def pending_rows_def Let_def dest!: find_SomeD)

lemma recorded_by_update:
  assumes "distinct (map ar_id (t_approvals db))" and "fst (try_record_decision now i d via db) = Some r'"
  shows "get_action_approval (snd (try_record_decision now i d via db)) i = Some r'"
proof -
  obtain r where r: "r \<in> pending_rows db i" "r' = decide now d via r"
    using try_record_Some [OF assms(2)] by blast
  let ?db = "snd (try_record_decision now i d via db)"
  have "map ar_id (t_approvals ?db) = map ar_id (t_approvals db)"
    by (simp add: try_record_rows)
  then have "distinct (map ar_id (t_approvals ?db))" using assms(1) by simp
  moreover have "r' \<in> set (t_approvals ?db)" and "ar_id r' = i"
    using r by (auto simp: try_record_rows pending_rows_def)
  ultimately show ?thesis using get_action_approval_row by blast
qed

lemma decided_step:
  assumes "reachable (st, g)" and "step (st, g) (logged (st\<lparr>ts_db := snd (try_record_decision now i d via (ts_db st))\<rparr>) G)"
    and "try_record_decision now i d via (ts_db st) = (Some r', db)"
  shows "\<exists>g'. steps (st, g) (st\<lparr>ts_db := db\<rparr>, g') \<and> reachable (st\<lparr>ts_db := db\<rparr>, g') \<and> evolves g g'
    \<and> g_log g' i = Some r' \<and> ar_decision r' = Some d"
proof -
  obtain g' where g': "logged (st\<lparr>ts_db := snd (try_record_decision now i d via (ts_db st))\<rparr>) G = (st\<lparr>ts_db := db\<rparr>, g')"
    and log: "g_log g' = remember db (g_log G)"
    using assms(3) by (auto simp: logged_def)
  have "get_action_approval db i = Some r'"
    using recorded_by_update [OF coherent_distinct [OF reachable_coherent [OF assms(1)]], of now i d via r'] assms(3) by simp
  moreover have "ar_decision r' = Some d" using try_record_Some [of now i d via "ts_db st" r'] assms(3) by auto
  ultimately show ?thesis
    using assms(1,2) reachable_step [OF assms(1,2)] coherent_step [OF assms(2) reachable_coherent [OF assms(1)]]
    by (auto simp: g' log remember_def)
qed

lemma existing_decision: "bind_r (view_of r) (existing_decision_response d) = Inr v \<Longrightarrow> ar_decision r = Some d"
  by (auto simp: bind_r_Inr_iff view_of_def existing_decision_response_def split: if_splits)

lemma lost_race_recorded:
  "reachable (st, g) \<Longrightarrow> lost_race (\<lambda>w. bind_r (view_of w) (existing_decision_response d)) i st = Inr v \<Longrightarrow> recorded g i d"
  by (auto simp: lost_race_def split: option.splits if_splits dest!: existing_decision intro: recorded_row)

lemma wake_steps:
  assumes "reachable (st, g)" and "recorded g i d"
  shows "step (st, g) (send_wake_best_effort p i d st, g)"
  using assms by (intro step.wake) (auto simp: recorded_def)

lemma submit_decision_steps:
  assumes r: "reachable (st, g)" and l: "lawful others"
    and run: "submit_decision others p now i d u st = (res, st')"
  shows "\<exists>g'. steps (st, g) (st', g') \<and> (\<forall>v. res = Inr v \<longrightarrow> recorded g' i d)"
proof (cases "d = EXPIRED \<or> get_action_approval_for_user (ts_db st) i u = None")
  case True
  then show ?thesis using run by (auto simp: submit_decision_def split: option.splits if_splits)
next
  case False
  then obtain current where cur: "d \<noteq> EXPIRED" "get_action_approval_for_user (ts_db st) i u = Some current" by auto
  show ?thesis
  proof (cases "ar_decision current")
    case (Some x)
    then have "st' = st" "res = bind_r (view_of current) (existing_decision_response d)"
      using run cur by (auto simp: submit_decision_def)
    then show ?thesis using recorded_for_user [OF r cur(2)] by (auto dest: existing_decision)
  next
    case None
    obtain g1 where g1: "steps (st, g) (others 0 st, g1)" "reachable (others 0 st, g1)"
      using lawfulD [OF l r] by blast
    obtain got db where t: "try_record_decision now i d (Some USER) (ts_db (others 0 st)) = (got, db)" by fastforce
    show ?thesis
    proof (cases got)
      case None2: None
      obtain g2 where g2: "steps (others 0 st, g1) (others 1 (others 0 st), g2)" "reachable (others 1 (others 0 st), g2)"
        using lawfulD [OF l g1(2)] by blast
      have "st' = others 1 (others 0 st)"
        "res = lost_race (\<lambda>w. bind_r (view_of w) (existing_decision_response d)) i (others 1 (others 0 st))"
        using run cur None t None2 by (auto simp: submit_decision_def Let_def)
      then show ?thesis using lost_race_recorded [OF g2(2)] rtranclp_trans [OF g1(1) g2(1)] by blast
    next
      case (Some decided)
      note t = t [unfolded Some]
      obtain g2 where g2: "steps (others 0 st, g1) ((others 0 st)\<lparr>ts_db := db\<rparr>, g2)"
          "reachable ((others 0 st)\<lparr>ts_db := db\<rparr>, g2)" "recorded g2 i d"
        using decided_step [OF g1(2) step.decide t] unfolding recorded_def by blast
      obtain g3 where g3: "steps ((others 0 st)\<lparr>ts_db := db\<rparr>, g2) (others 1 ((others 0 st)\<lparr>ts_db := db\<rparr>), g3)"
          "reachable (others 1 ((others 0 st)\<lparr>ts_db := db\<rparr>), g3)" "recorded g3 i d"
        using lawfulD [OF l g2(2)] recorded_evolves [OF g2(3)] by blast
      have "st' = send_wake_best_effort p i d (others 1 ((others 0 st)\<lparr>ts_db := db\<rparr>))"
        using run cur None t by (auto simp: submit_decision_def Let_def)
      then have "steps (st, g) (st', g3)"
        using g1(1) g2(1) g3(1) wake_steps [OF g3(2,3)] by (metis rtranclp.rtrancl_into_rtrancl rtranclp_trans)
      then show ?thesis using g3(3) by blast
    qed
  qed
qed

lemma fold_steps:
  assumes "\<And>x st. x \<in> set xs \<Longrightarrow> reachable (st, g) \<Longrightarrow> step (st, g) (f x st, g)" and "reachable (st, g)"
  shows "steps (st, g) (fold f xs st, g) \<and> reachable (fold f xs st, g)"
  using assms
proof (induction xs arbitrary: st)
  case (Cons x xs)
  have 1: "step (st, g) (f x st, g)" using Cons.prems by simp
  have "steps (f x st, g) (fold f xs (f x st), g) \<and> reachable (fold f xs (f x st), g)"
    using Cons.IH Cons.prems reachable_step [OF Cons.prems(2) 1] by simp
  then show ?case using 1 by simp (meson converse_rtranclp_into_rtranclp)
qed simp

lemma fold_cache: "fold (\<lambda>x st. st\<lparr>ts_cache := h x (ts_cache st)\<rparr>) xs st = st\<lparr>ts_cache := fold h xs (ts_cache st)\<rparr>"
  by (induction xs arbitrary: st) auto

lemma row_grants_steps:
  assumes "reachable (st, g)" and "\<And>t. t \<in> set (ask_types r) \<Longrightarrow> (s, a, t) \<in> g_granted g"
  shows "steps (st, g) (st\<lparr>ts_cache := cache_row_grants now s a n r (ts_cache st)\<rparr>, g)
    \<and> reachable (st\<lparr>ts_cache := cache_row_grants now s a n r (ts_cache st)\<rparr>, g)"
proof -
  let ?h = "\<lambda>t. pg_set now (session_grant_key s a t) (uuid_str (ar_id r)) (Some session_grant_ttl_s)"
  have "step (st, g) (st\<lparr>ts_cache := ?h t (ts_cache st)\<rparr>, g)"
    if "t \<in> set (remdups (take n (ask_types r)))" for t and st :: tenant_data
    using assms(2) that by (intro step.cache_grant) (auto dest: in_set_takeD)
  then show ?thesis
    using fold_steps [of "remdups (take n (ask_types r))" g "\<lambda>t st. st\<lparr>ts_cache := ?h t (ts_cache st)\<rparr>" st] assms(1)
    by (simp add: fold_cache [of ?h] cache_row_grants_def cache_session_grant_actions_def)
qed

lemma rows_grants_steps:
  assumes "reachable (st, g)" and "\<And>r t. r \<in> set rows \<Longrightarrow> t \<in> set (ask_types r) \<Longrightarrow> (s, a, t) \<in> g_granted g"
  shows "steps (st, g) (st\<lparr>ts_cache := fold (\<lambda>r. cache_row_grants now s a (n r) r) rows (ts_cache st)\<rparr>, g)
    \<and> reachable (st\<lparr>ts_cache := fold (\<lambda>r. cache_row_grants now s a (n r) r) rows (ts_cache st)\<rparr>, g)"
  using assms
proof (induction rows arbitrary: st)
  case (Cons r rows)
  have sub: "\<And>t. t \<in> set (ask_types r) \<Longrightarrow> (s, a, t) \<in> g_granted g" using Cons.prems(2) [of r] by simp
  from row_grants_steps [OF Cons.prems(1) sub, of r now "n r"]
  have 1: "steps (st, g) (st\<lparr>ts_cache := cache_row_grants now s a (n r) r (ts_cache st)\<rparr>, g)"
    "reachable (st\<lparr>ts_cache := cache_row_grants now s a (n r) r (ts_cache st)\<rparr>, g)" by simp_all
  from Cons.IH [OF 1(2)] Cons.prems(2) 1(1) show ?case by (auto intro: rtranclp_trans)
qed simp

lemma cache_grants_steps:
  assumes "reachable (st, g)" and "\<And>r t. r \<in> set rows \<Longrightarrow> t \<in> set (ask_types r) \<Longrightarrow> (s, a, t) \<in> g_granted g"
  shows "steps (st, g) (st\<lparr>ts_cache := cache_grants now fault s a rows (ts_cache st)\<rparr>, g)
    \<and> reachable (st\<lparr>ts_cache := cache_grants now fault s a rows (ts_cache st)\<rparr>, g)"
proof (cases fault)
  case None
  then show ?thesis using rows_grants_steps [of st g rows s a now "\<lambda>r. length (ask_types r)"] assms
    by (simp add: cache_grants_def)
next
  case (Some x)
  obtain i n where x: "x = (i, n)" by fastforce
  let ?c = "fold (\<lambda>r. cache_row_grants now s a (length (ask_types r)) r) (take i rows) (ts_cache st)"
  have 1: "steps (st, g) (st\<lparr>ts_cache := ?c\<rparr>, g)" "reachable (st\<lparr>ts_cache := ?c\<rparr>, g)"
    using rows_grants_steps [of st g "take i rows" s a now "\<lambda>r. length (ask_types r)"] assms
    by (auto dest: in_set_takeD)
  show ?thesis
  proof (cases "i < length rows")
    case True
    then have sub: "\<And>t. t \<in> set (ask_types (rows ! i)) \<Longrightarrow> (s, a, t) \<in> g_granted g"
      using assms(2) [OF nth_mem [OF True]] by blast
    have "cache_grants now fault s a rows (ts_cache st) = cache_row_grants now s a n (rows ! i) ?c"
      using True by (simp add: cache_grants_def Some x Let_def)
    then show ?thesis
      using row_grants_steps [OF 1(2) sub, of "rows ! i" now n] rtranclp_trans [OF 1(1)] by simp
  qed (use 1 in \<open>simp add: cache_grants_def Some x Let_def\<close>)
qed

lemma granted_by_sources:
  assumes "reachable (st, g)" and "r \<in> set (list_session_grant_action_approvals (ts_db st) s a)" and "t \<in> set (ask_types r)"
  shows "(s, a, t) \<in> g_granted g"
proof -
  have "r \<in> set (t_approvals (ts_db st))" "ar_session r = s" "ar_app r = Some a" "ar_via r = Some SESSION_GRANT"
    using assms(2) by (auto simp: list_session_grant_action_approvals_def Let_def)
  then show ?thesis using coherent_session_grant [OF reachable_coherent [OF assms(1)]] assms(3)
    by (auto simp: within_grants_def)
qed

lemma approve_covered_steps:
  assumes "reachable (st, g)"
    and "\<And>r. r \<in> set rows \<Longrightarrow> ar_session r = s \<and> (\<exists>r'. g_log g (ar_id r) = Some r' \<and> row_evolves r r')"
    and "\<And>t. t \<in> granted \<Longrightarrow> (s, a, t) \<in> g_granted g" and "\<And>j. j \<in> set ids \<Longrightarrow> recorded g j APPROVED"
    and "approve_covered now i a granted rows (ids, ts_db st) = (ids', db')"
  shows "\<exists>g'. steps (st, g) (st\<lparr>ts_db := db'\<rparr>, g') \<and> reachable (st\<lparr>ts_db := db'\<rparr>, g')
    \<and> evolves g g' \<and> (\<forall>j \<in> set ids'. recorded g' j APPROVED)"
  using assms
proof (induction rows arbitrary: st g ids)
  case Nil
  then show ?case by auto
next
  case (Cons r rows)
  have row: "ar_session r = s" "\<exists>r'. g_log g (ar_id r) = Some r' \<and> row_evolves r r'"
    using Cons.prems(2) [of r] by simp_all
  have rest: "ar_session x = s \<and> (\<exists>r'. g_log g (ar_id x) = Some r' \<and> row_evolves x r')" if "x \<in> set rows" for x
    using Cons.prems(2) [of x] that by simp
  show ?case
  proof (cases "ar_id r = i \<or> ar_app r \<noteq> Some a \<or> \<not> covered_by granted r")
    case True
    then show ?thesis using Cons.IH [OF Cons.prems(1) rest Cons.prems(3,4)] Cons.prems(5) by simp
  next
    case False
    obtain got db where t: "try_record_decision now (ar_id r) APPROVED (Some SESSION_GRANT) (ts_db st) = (got, db)"
      by fastforce
    show ?thesis
    proof (cases got)
      case None
      then have "db = ts_db st"
        using t try_record_None [of now "ar_id r" APPROVED "Some SESSION_GRANT" "ts_db st"] by simp
      then show ?thesis using Cons.IH [OF Cons.prems(1) rest Cons.prems(3,4)] Cons.prems(5) False t None by simp
    next
      case (Some d)
      have "within_grants (g_granted g) x" if "x \<in> pending_rows (ts_db st) (ar_id r)" for x
      proof -
        have "row_evolves r x" using row(2) pending_coherent [OF reachable_coherent [OF Cons.prems(1)] that] by auto
        moreover have "within_grants (g_granted g) r"
          using False Cons.prems(3) row(1) by (auto simp: within_grants_def covered_by_def)
        ultimately show ?thesis using within_grants_evolves by blast
      qed
      then have st: "step (st, g) (logged (st\<lparr>ts_db := snd (try_record_decision now (ar_id r) APPROVED (Some SESSION_GRANT) (ts_db st))\<rparr>) g)"
        by (intro step.decide) simp
      obtain g1 where g1: "steps (st, g) (st\<lparr>ts_db := db\<rparr>, g1)" "reachable (st\<lparr>ts_db := db\<rparr>, g1)" "evolves g g1"
          "recorded g1 (ar_id r) APPROVED"
        using decided_step [OF Cons.prems(1) st t [unfolded Some]] unfolding recorded_def by blast
      have rest1: "ar_session x = s \<and> (\<exists>r'. g_log g1 (ar_id x) = Some r' \<and> row_evolves x r')" if "x \<in> set rows" for x
        using rest [OF that] g1(3) unfolding evolves_def by (meson row_evolves_trans)
      have sub: "(s, a, t) \<in> g_granted g1" if "t \<in> granted" for t
        using Cons.prems(3) [OF that] g1(3) by (auto simp: evolves_def)
      have ids: "recorded g1 j APPROVED" if "j \<in> set (ids @ [ar_id r])" for j
        using that recorded_evolves [OF Cons.prems(4) g1(3)] g1(4) by auto
      have "approve_covered now i a granted rows (ids @ [ar_id r], ts_db (st\<lparr>ts_db := db\<rparr>)) = (ids', db')"
        using Cons.prems(5) False t Some by simp
      from Cons.IH [OF g1(2) rest1 sub ids this] g1(1,3) show ?thesis
        by (auto intro: rtranclp_trans evolves_trans)
    qed
  qed
qed

lemma pending_logged:
  assumes "reachable (st, g)" and "r \<in> set (list_session_pending_action_approvals (ts_db st) s c)"
  shows "ar_session r = s \<and> g_log g (ar_id r) = Some r"
  using assms(2) coherent_row [OF reachable_coherent [OF assms(1)]]
  by (auto simp: list_session_pending_action_approvals_def)

lemma after_grant_steps:
  assumes r: "reachable (st, g)" and l: "lawful others" and i: "recorded g i APPROVED"
  shows "\<exists>g'. steps (st, g) (after_grant others p fault wait_s now i s a st, g') \<and> evolves g g'"
proof -
  obtain g1 where 1: "steps (st, g) (others 1 st, g1)" "reachable (others 1 st, g1)" "evolves g g1"
    using lawfulD [OF l r] by blast
  let ?w = "send_wake_best_effort (p 0) i APPROVED (others 1 st)"
  have w: "step (others 1 st, g1) (?w, g1)" by (rule wake_steps [OF 1(2) recorded_evolves [OF i 1(3)]])
  then have ws: "steps (others 1 st, g1) (?w, g1)" by blast
  obtain g2 where 2: "steps (?w, g1) (others 2 ?w, g2)" "reachable (others 2 ?w, g2)" "evolves g1 g2"
    using lawfulD [OF l reachable_step [OF 1(2) w]] by blast
  let ?sources = "list_session_grant_action_approvals (ts_db (others 2 ?w)) s a"
  let ?granted = "\<Union>r \<in> set ?sources. set (ask_types r)"
  let ?c = "(others 2 ?w)\<lparr>ts_cache := cache_grants now fault s a ?sources (ts_cache (others 2 ?w))\<rparr>"
  have c: "steps (others 2 ?w, g2) (?c, g2)" "reachable (?c, g2)"
    using cache_grants_steps [OF 2(2)] granted_by_sources [OF 2(2)] by blast+
  obtain g3 where 3: "steps (?c, g2) (others 3 ?c, g3)" "reachable (others 3 ?c, g3)" "evolves g2 g3"
    using lawfulD [OF l c(2)] by blast
  let ?pending = "list_session_pending_action_approvals (ts_db (others 3 ?c)) s (Some (now - wait_s * second))"
  obtain g4 where 4: "steps (others 3 ?c, g3) (others 4 (others 3 ?c), g4)" "reachable (others 4 (others 3 ?c), g4)" "evolves g3 g4"
    using lawfulD [OF l 3(2)] by blast
  obtain ids db' where a: "approve_covered now i a ?granted ?pending ([], ts_db (others 4 (others 3 ?c))) = (ids, db')"
    by fastforce
  have rows: "ar_session r = s \<and> (\<exists>r'. g_log g4 (ar_id r) = Some r' \<and> row_evolves r r')" if "r \<in> set ?pending" for r
    using pending_logged [OF 3(2) that] 4(3) unfolding evolves_def by blast
  have sub: "(s, a, t) \<in> g_granted g4" if "t \<in> ?granted" for t
    using that granted_by_sources [OF 2(2)] 3(3) 4(3) by (fastforce simp: evolves_def)
  obtain g5 where 5: "steps (others 4 (others 3 ?c), g4) ((others 4 (others 3 ?c))\<lparr>ts_db := db'\<rparr>, g5)"
      "reachable ((others 4 (others 3 ?c))\<lparr>ts_db := db'\<rparr>, g5)" "evolves g4 g5" "\<forall>j \<in> set ids. recorded g5 j APPROVED"
    using approve_covered_steps [OF 4(2) rows sub _ a] by auto
  let ?e = "others 5 ((others 4 (others 3 ?c))\<lparr>ts_db := db'\<rparr>)"
  obtain g6 where 6: "steps ((others 4 (others 3 ?c))\<lparr>ts_db := db'\<rparr>, g5) (?e, g6)" "reachable (?e, g6)" "evolves g5 g6"
    using lawfulD [OF l 5(2)] by blast
  have "step (x, g6) (send_wake_best_effort (p (Suc k)) j APPROVED x, g6)"
    if "(k, j) \<in> set (enumerate 0 ids)" "reachable (x, g6)" for k j x
  proof -
    have "j \<in> set ids" using that(1) by (auto simp: enumerate_eq_zip dest: set_zip_rightD)
    then show ?thesis using wake_steps [OF that(2)] recorded_evolves 5(4) 6(3) by blast
  qed
  then have 7: "steps (?e, g6) (fold (\<lambda>(k, j). send_wake_best_effort (p (Suc k)) j APPROVED) (enumerate 0 ids) ?e, g6)"
    using fold_steps [of "enumerate 0 ids" g6 "\<lambda>(k, j). send_wake_best_effort (p (Suc k)) j APPROVED" ?e] 6(2) by auto
  have "after_grant others p fault wait_s now i s a st
      = fold (\<lambda>(k, j). send_wake_best_effort (p (Suc k)) j APPROVED) (enumerate 0 ids) ?e"
    unfolding after_grant_def Let_def a by simp
  then have "steps (st, g) (after_grant others p fault wait_s now i s a st, g6)"
    using rtranclp_trans [OF 1(1) rtranclp_trans [OF ws rtranclp_trans [OF 2(1) rtranclp_trans [OF c(1)
        rtranclp_trans [OF 3(1) rtranclp_trans [OF 4(1) rtranclp_trans [OF 5(1) rtranclp_trans [OF 6(1) 7]]]]]]]] by simp
  moreover have "evolves g g6"
    by (rule evolves_trans [OF 1(3) evolves_trans [OF 2(3) evolves_trans [OF 3(3) evolves_trans [OF 4(3) evolves_trans [OF 5(3) 6(3)]]]]])
  ultimately show ?thesis by blast
qed

lemma submit_session_grant_steps:
  assumes r: "reachable (st, g)" and l: "lawful others"
    and run: "submit_session_grant others p fault wait_s now i u st = (res, st')"
  shows "\<exists>g'. steps (st, g) (st', g') \<and> (\<forall>v. res = Inr v \<longrightarrow> recorded g' i APPROVED)"
proof (cases "st' = st \<and> isl res")
  case True
  then show ?thesis by (auto simp: isl_def)
next
  case False
  then obtain current a where cur: "get_action_approval_for_user (ts_db st) i u = Some current" "ar_app current = Some a"
      "ar_decision current = None" "\<not> ar_created_at current < now - wait_s * second" "ask_types current \<noteq> []"
    using run by (auto simp: submit_session_grant_def isl_def split: option.splits if_splits)
  obtain g1 where g1: "steps (st, g) (others 0 st, g1)" "reachable (others 0 st, g1)"
    using lawfulD [OF l r] by blast
  obtain got db where t: "try_record_decision now i APPROVED (Some SESSION_GRANT) (ts_db (others 0 st)) = (got, db)" by fastforce
  show ?thesis
  proof (cases got)
    case None
    obtain g2 where g2: "steps (others 0 st, g1) (others 1 (others 0 st), g2)" "reachable (others 1 (others 0 st), g2)"
      using lawfulD [OF l g1(2)] by blast
    have "st' = others 1 (others 0 st)" "res = lost_race (\<lambda>_. Inl (OnyxError CONFLICT)) i (others 1 (others 0 st))"
      using run cur t None by (auto simp: submit_session_grant_def Let_def)
    moreover have "isl (lost_race (\<lambda>_. Inl (OnyxError CONFLICT)) i (others 1 (others 0 st)))"
      by (simp add: lost_race_def split: option.split)
    ultimately show ?thesis using rtranclp_trans [OF g1(1) g2(1)] by (auto simp: isl_def)
  next
    case (Some decided)
    obtain g2 where g2: "steps (others 0 st, g1) ((others 0 st)\<lparr>ts_db := db\<rparr>, g2)"
        "reachable ((others 0 st)\<lparr>ts_db := db\<rparr>, g2)" "recorded g2 i APPROVED"
      using decided_step [OF g1(2) step.user_grant t [unfolded Some]] unfolding recorded_def by blast
    obtain g3 where g3: "steps ((others 0 st)\<lparr>ts_db := db\<rparr>, g2)
        (after_grant others p fault wait_s now i (ar_session current) a ((others 0 st)\<lparr>ts_db := db\<rparr>), g3)" "evolves g2 g3"
      using after_grant_steps [OF g2(2) l g2(3)] by blast
    have "st' = after_grant others p fault wait_s now i (ar_session current) a ((others 0 st)\<lparr>ts_db := db\<rparr>)"
      using run cur t Some by (simp add: submit_session_grant_def Let_def)
    then show ?thesis
      using rtranclp_trans [OF g1(1) rtranclp_trans [OF g2(1) g3(1)]] recorded_evolves [OF g2(3) g3(2)] by blast
  qed
qed

section \<open>The first decision is final\<close>

lemma same_decision:
  assumes r: "reachable (st, g)" and l: "lawful others" "lawful others'" "lawful between"
    and first: "submit_decision others p now i d u st = (Inr v, st1)"
    and then_second: "submit_decision others' p' now' i d' u' (between 0 st1) = (Inr v', st2)"
  shows "d' = d \<and> (\<forall>r. get_action_approval (ts_db st2) i = Some r \<longrightarrow> ar_decision r = Some d)"
proof -
  obtain g1 where g1: "steps (st, g) (st1, g1)" "recorded g1 i d"
    using submit_decision_steps [OF r l(1) first] by blast
  obtain g2 where g2: "reachable (between 0 st1, g2)" "recorded g2 i d"
    using lawfulD [OF l(3) reachable_steps [OF r g1(1)]] recorded_evolves [OF g1(2)] by blast
  obtain g3 where g3: "steps (between 0 st1, g2) (st2, g3)" "recorded g3 i d'"
    using submit_decision_steps [OF g2(1) l(2) then_second] by blast
  have d: "recorded g3 i d" using recorded_evolves [OF g2(2)] steps_evolve [OF g2(1) g3(1)] by simp
  then show ?thesis
    using recorded_unique [OF g3(2)] recorded_in_table [OF reachable_steps [OF g2(1) g3(1)]] by blast
qed

text \<open>C2: The first decision wins.  Two submissions for one approval that are both answered with success
  asked for the same decision, whoever sends them and whatever other requests, proxies, timeouts and
  deletions do before, between and during them; and the row, if it still exists, carries that decision.\<close>

theorem first_decision_wins:
  assumes "reachable (st, g)" and "lawful others" and "lawful others'" and "lawful between"
    and "submit_decision others p now i d u st = (Inr v, st1)"
    and "submit_decision others' p' now' i d' u' (between 0 st1) = (Inr v', st2)"
  shows "d' = d \<and> (\<forall>r. get_action_approval (ts_db st2) i = Some r \<longrightarrow> ar_decision r = Some d)"
  using assms by (rule same_decision)

lemma popped_item:
  assumes "pg_scan t [key] c = Some ((k, w), c')"
  shows "\<exists>k' e. (k', (w, e)) \<in> set c \<and> prefix (list_key_prefix @ key @ '':'') k' \<and> c' = dict_del k' c"
proof -
  obtain k' e rest where r: "list_range t key c = (k', w, e) # rest" "c' = dict_del k' c"
    using assms by (auto split: list.splits)
  then have "(k', w, e) \<in> set (list_range t key c)" by simp
  then show ?thesis using r(2) by (auto simp: list_range_eq)
qed

lemma woken_approved:
  assumes "reachable (st, g)" and "pg_scan t [wake_key i] (ts_cache st) = Some ((k, w), c)"
    and "parse_decision w = Inr APPROVED"
  shows "recorded g i APPROVED"
proof -
  obtain k' e where "(k', (w, e)) \<in> set (ts_cache st)" "prefix (wake_prefix i) k'"
    using popped_item [OF assms(2)] by (auto simp: wake_prefix_def)
  moreover have "w = decision_value APPROVED"
    using assms(3) by (auto simp: parse_decision_def decision_value_def split: if_splits)
  ultimately show ?thesis
    using reachable_coherent [OF assms(1)] by (auto simp: coherent_def wakes_true_def recorded_def)
qed


section \<open>What a session grant approves\<close>

lemma approve_covered_rows:
  assumes "approve_covered now i a granted rows (ids, db) = (ids', db')"
  shows "t_approvals db' = map (\<lambda>r. if ar_decision r = None
      \<and> ar_id r \<in> ar_id ` {x \<in> set rows. ar_id x \<noteq> i \<and> ar_app x = Some a \<and> covered_by granted x}
    then decide now APPROVED (Some SESSION_GRANT) r else r) (t_approvals db)"
  using assms
proof (induction rows arbitrary: ids db)
  case Nil
  then show ?case by simp
next
  case (Cons x rows)
  let ?P = "\<lambda>x. ar_id x \<noteq> i \<and> ar_app x = Some a \<and> covered_by granted x"
  show ?case
  proof (cases "?P x")
    case True
    obtain got db1 where t: "try_record_decision now (ar_id x) APPROVED (Some SESSION_GRANT) db = (got, db1)" by fastforce
    then have db1: "db1 = snd (try_record_decision now (ar_id x) APPROVED (Some SESSION_GRANT) db)" by simp
    obtain ids1 where this_run: "approve_covered now i a granted rows (ids1, db1) = (ids', db')"
      using Cons.prems True t by (cases got) auto
    have ins: "{y \<in> set (x # rows). ?P y} = insert x {y \<in> set rows. ?P y}" using True by auto
    from Cons.IH [OF this_run] have "t_approvals db' = map (\<lambda>r. if ar_decision r = None \<and> ar_id r \<in> ar_id ` {x \<in> set rows. ?P x}
        then decide now APPROVED (Some SESSION_GRANT) r else r) (t_approvals db1)" .
    also have "\<dots> = map (\<lambda>r. if ar_decision r = None \<and> ar_id r \<in> ar_id ` {y \<in> set (x # rows). ?P y}
        then decide now APPROVED (Some SESSION_GRANT) r else r) (t_approvals db)"
      unfolding db1 try_record_rows map_map ins image_insert by (rule map_cong [OF refl]) (auto simp: pending_rows_def)
    finally show ?thesis .
  next
    case False
    then have "{y \<in> set (x # rows). ?P y} = {y \<in> set rows. ?P y}" by auto
    moreover have "approve_covered now i a granted rows (ids, db) = (ids', db')" using Cons.prems False by auto
    ultimately show ?thesis using Cons.IH by simp
  qed
qed

lemma fold_send_wake_db [simp]: "ts_db (fold (\<lambda>(k, j). send_wake_best_effort (p k) j d) xs st) = ts_db st"
  by (induction xs arbitrary: st) auto

lemma after_grant_rows:
  assumes "distinct (map ar_id (t_approvals (ts_db st)))" and "\<And>r. r \<in> set (t_approvals (ts_db st)) \<Longrightarrow> ar_id r = i \<Longrightarrow> ar_decision r \<noteq> None"
  shows "t_approvals (ts_db (after_grant (\<lambda>_ s. s) p fault wait_s now i s a st)) = map (\<lambda>r. if is_live wait_s now r
      \<and> ar_session r = s \<and> ar_app r = Some a
      \<and> covered_by (\<Union>x \<in> set (list_session_grant_action_approvals (ts_db st) s a). set (ask_types x)) r
    then decide now APPROVED (Some SESSION_GRANT) r else r) (t_approvals (ts_db st))"
proof -
  let ?granted = "\<Union>x \<in> set (list_session_grant_action_approvals (ts_db st) s a). set (ask_types x)"
  let ?pending = "list_session_pending_action_approvals (ts_db st) s (Some (now - wait_s * second))"
  obtain ids db' where c: "approve_covered now i a ?granted ?pending ([], ts_db st) = (ids, db')" by fastforce
  have db: "ts_db (after_grant (\<lambda>_ s. s) p fault wait_s now i s a st) = db'"
    using fold_send_wake_db [of "\<lambda>k. p (Suc k)"] by (simp add: after_grant_def Let_def c)
  have iff: "(ar_decision r = None \<and> ar_id r \<in> ar_id ` {x \<in> set ?pending. ar_id x \<noteq> i \<and> ar_app x = Some a \<and> covered_by ?granted x})
      \<longleftrightarrow> (is_live wait_s now r \<and> ar_session r = s \<and> ar_app r = Some a \<and> covered_by ?granted r)"
    if r: "r \<in> set (t_approvals (ts_db st))" for r
  proof -
    have "x = r" if "x \<in> set ?pending" "ar_id r = ar_id x" for x
      using that r assms(1) by (auto simp: list_session_pending_action_approvals_def distinct_map dest: inj_onD)
    then have k: "ar_id r \<in> ar_id ` {x \<in> set ?pending. ar_id x \<noteq> i \<and> ar_app x = Some a \<and> covered_by ?granted x}
        \<longleftrightarrow> r \<in> set ?pending \<and> ar_id r \<noteq> i \<and> ar_app r = Some a \<and> covered_by ?granted r" by auto
    show ?thesis
      unfolding k using r assms(2) [OF r] by (auto simp: list_session_pending_action_approvals_def is_live_def)
  qed
  show ?thesis unfolding db approve_covered_rows [OF c] by (rule map_cong [OF refl]) (simp only: iff)
qed

lemma set_session_grants: "set (list_session_grant_action_approvals db s a)
    = {r \<in> set (t_approvals db). ar_session r = s \<and> ar_app r = Some a \<and> ar_decision r = Some APPROVED \<and> ar_via r = Some SESSION_GRANT}"
  by (auto simp: list_session_grant_action_approvals_def Let_def)

definition granted_types :: "build_db \<Rightarrow> uuid \<Rightarrow> int \<Rightarrow> string set" where
  "granted_types db s a = (\<Union>r \<in> set (list_session_grant_action_approvals db s a). set (ask_types r))"

lemma granted_types_after:
  assumes "pending_rows db i = {current}"
  shows "granted_types (snd (try_record_decision now i APPROVED (Some SESSION_GRANT) db)) (ar_session current) a
    = (if ar_app current = Some a then set (ask_types current) else {}) \<union> granted_types db (ar_session current) a"
proof -
  let ?d = "decide now APPROVED (Some SESSION_GRANT) current"
  have cur: "current \<in> set (t_approvals db)" "ar_decision current = None"
    using assms by (auto simp: pending_rows_def)
  let ?Q = "\<lambda>r. ar_session r = ar_session current \<and> ar_app r = Some a \<and> ar_decision r = Some APPROVED \<and> ar_via r = Some SESSION_GRANT"
  have rows: "set (t_approvals (snd (try_record_decision now i APPROVED (Some SESSION_GRANT) db)))
      = insert ?d (set (t_approvals db) - {current})"
    unfolding try_record_rows assms using cur(1) by auto
  have "{r \<in> insert ?d (set (t_approvals db) - {current}). ?Q r}
      = (if ar_app current = Some a then {?d} else {}) \<union> {r \<in> set (t_approvals db). ?Q r}"
    using cur(2) by auto
  then show ?thesis
    unfolding granted_types_def set_session_grants rows by simp
qed

lemma try_record_ids [simp]: "map ar_id (t_approvals (snd (try_record_decision now i d via db))) = map ar_id (t_approvals db)"
  by (simp add: try_record_rows)

lemma session_grant_rows:
  assumes d: "distinct (map ar_id (t_approvals (ts_db st)))"
    and cur: "current \<in> set (t_approvals (ts_db st))" "ar_id current = i" "ar_decision current = None" "ar_app current = Some a"
    and t: "db = snd (try_record_decision now i APPROVED (Some SESSION_GRANT) (ts_db st))"
  shows "t_approvals (ts_db (after_grant (\<lambda>_ s. s) p fault wait_s now i (ar_session current) a (st\<lparr>ts_db := db\<rparr>)))
    = map (\<lambda>r. if r = current \<or> is_live wait_s now r \<and> ar_session r = ar_session current \<and> ar_app r = Some a
        \<and> covered_by (set (ask_types current) \<union> granted_types (ts_db st) (ar_session current) a) r
      then decide now APPROVED (Some SESSION_GRANT) r else r) (t_approvals (ts_db st))"
proof -
  have only: "r = current" if "r \<in> set (t_approvals (ts_db st))" "ar_id r = i" for r
    using that d cur(1,2) by (metis distinct_map inj_onD)
  have p: "pending_rows (ts_db st) i = {current}"
    using cur by (auto simp: pending_rows_def dest: only)
  have rows: "t_approvals db = map (\<lambda>r. if r = current then decide now APPROVED (Some SESSION_GRANT) r else r) (t_approvals (ts_db st))"
    unfolding t try_record_rows p by simp
  have "distinct (map ar_id (t_approvals (ts_db (st\<lparr>ts_db := db\<rparr>))))"
    using d by (simp add: t)
  moreover have "ar_decision r \<noteq> None" if "r \<in> set (t_approvals (ts_db (st\<lparr>ts_db := db\<rparr>)))" "ar_id r = i" for r
    using that by (auto simp: rows split: if_splits dest: only)
  ultimately have "t_approvals (ts_db (after_grant (\<lambda>_ s. s) p fault wait_s now i (ar_session current) a (st\<lparr>ts_db := db\<rparr>)))
    = map (\<lambda>r. if is_live wait_s now r \<and> ar_session r = ar_session current \<and> ar_app r = Some a
        \<and> covered_by (granted_types db (ar_session current) a) r
      then decide now APPROVED (Some SESSION_GRANT) r else r) (t_approvals db)"
    using after_grant_rows [of "st\<lparr>ts_db := db\<rparr>" i] by (simp add: granted_types_def)
  also have "granted_types db (ar_session current) a = set (ask_types current) \<union> granted_types (ts_db st) (ar_session current) a"
    unfolding t granted_types_after [OF p] using cur(4) by simp
  finally have rows': "t_approvals (ts_db (after_grant (\<lambda>_ s. s) p fault wait_s now i (ar_session current) a (st\<lparr>ts_db := db\<rparr>)))
    = map (\<lambda>r. if is_live wait_s now r \<and> ar_session r = ar_session current \<and> ar_app r = Some a
        \<and> covered_by (set (ask_types current) \<union> granted_types (ts_db st) (ar_session current) a) r
      then decide now APPROVED (Some SESSION_GRANT) r else r) (t_approvals db)" .
  have "\<not> is_live wait_s now (decide now APPROVED (Some SESSION_GRANT) current)" by (simp add: is_live_def)
  then show ?thesis
    unfolding rows' unfolding rows map_map by (intro map_cong [OF refl]) (simp only: o_def split: if_split, blast)
qed

lemma session_grant_current:
  assumes "submit_session_grant others p fault wait_s now i u st = (Inr v, st')"
  obtains current a where "get_action_approval_for_user (ts_db st) i u = Some current" "ar_app current = Some a"
    "ar_decision current = None" "\<not> ar_created_at current < now - wait_s * second" "ask_types current \<noteq> []"
proof (cases "get_action_approval_for_user (ts_db st) i u")
  case None
  then show ?thesis using assms by (simp add: submit_session_grant_def)
next
  case (Some current)
  then show ?thesis
    using assms that by (cases "ar_app current"; simp add: submit_session_grant_def split: if_splits)
qed

text \<open>C4: A session grant approves the request it is given for and, of the session's other live requests to the
  same app, exactly those all of whose actions that need approval the session has now been granted;
  every other row of the table stays as it is.\<close>

theorem session_grant_approves_exactly:
  assumes "reachable (st, g)"
    and "submit_session_grant (\<lambda>_ s. s) p fault wait_s now i u st = (Inr v, st')"
  shows "\<exists>current a. get_action_approval_for_user (ts_db st) i u = Some current \<and> ar_app current = Some a
    \<and> t_approvals (ts_db st') = map (\<lambda>r. if r = current
        \<or> is_live wait_s now r \<and> ar_session r = ar_session current \<and> ar_app r = Some a
          \<and> covered_by (set (ask_types current) \<union> granted_types (ts_db st) (ar_session current) a) r
      then decide now APPROVED (Some SESSION_GRANT) r else r) (t_approvals (ts_db st))"
proof -
  obtain current a where cur: "get_action_approval_for_user (ts_db st) i u = Some current" "ar_app current = Some a"
      "ar_decision current = None" "\<not> ar_created_at current < now - wait_s * second" "ask_types current \<noteq> []"
    using session_grant_current [OF assms(2)] .
  obtain got db where t: "try_record_decision now i APPROVED (Some SESSION_GRANT) (ts_db st) = (got, db)" by fastforce
  have c: "current \<in> set (t_approvals (ts_db st))" "ar_id current = i" using get_for_user_Some [OF cur(1)] by simp_all
  then have "pending_rows (ts_db st) i \<noteq> {}" using cur(3) by (auto simp: pending_rows_def)
  then obtain decided where "got = Some decided"
    using t try_record_pending [of now i APPROVED "Some SESSION_GRANT" "ts_db st"] by (cases got) auto
  then have st': "st' = after_grant (\<lambda>_ s. s) p fault wait_s now i (ar_session current) a (st\<lparr>ts_db := db\<rparr>)"
    using assms(2) cur t by (simp add: submit_session_grant_def)
  have db: "db = snd (try_record_decision now i APPROVED (Some SESSION_GRANT) (ts_db st))" using t by simp
  show ?thesis
    unfolding st' using cur(1,2)
      session_grant_rows [OF coherent_distinct [OF reachable_coherent [OF assms(1)]] c cur(3,2) db] by blast
qed

section \<open>An example\<close>

definition ask_mail :: pyval where
  "ask_mail = action_dump \<lparr>ma_type = ''mail.send'', ma_name = ''Send'', ma_description = '''', ma_policy = ASK\<rparr>"

definition empty_state :: tenant_data where
  "empty_state = \<lparr>ts_db = \<lparr>t_external = example_app_db, t_sessions = [\<lparr>bs_id = 1, bs_user = Some 7\<rparr>], t_approvals = [],
     t_runs = [], t_pre_approved = [], t_sandboxes = []\<rparr>, ts_cache = []\<rparr>"

definition mail_row :: "uuid \<Rightarrow> approval_row" where
  "mail_row i = \<lparr>ar_id = i, ar_session = 1, ar_actions = [ask_mail], ar_app_name = ''Mail'', ar_payload = [],
     ar_created_at = 0, ar_decision = None, ar_decided_at = None, ar_via = None, ar_app = Some 3\<rparr>"

definition asked_state :: "uuid list \<Rightarrow> tenant_data" where
  "asked_state is = empty_state\<lparr>ts_db := (ts_db empty_state)\<lparr>t_approvals := map mail_row is\<rparr>\<rparr>"

lemma insert_mail_row: "insert_action_approval 0 i 1 [ask_mail] ''Mail'' [] (Some 3) None None (ts_db (asked_state is))
    = Inr (mail_row i, (ts_db empty_state)\<lparr>t_approvals := map mail_row is @ [mail_row i]\<rparr>)"
proof -
  have "sorted_actions [ask_mail] = Inr [ask_mail]" by code_simp
  then show ?thesis
    by (simp add: insert_action_approval_def Let_def asked_state_def empty_state_def mail_row_def example_app_db_def example_app_def)
qed

lemma asked_reachable:
  "distinct is \<Longrightarrow> \<exists>g. reachable (asked_state is, g) \<and> g_granted g = {} \<and> (\<forall>i. i \<notin> set is \<longrightarrow> g_log g i = None)"
proof (induction "is" rule: rev_induct)
  case Nil
  have "initial (asked_state [], \<lparr>g_log = Map.empty, g_granted = {}\<rparr>)"
    by (simp add: initial_def asked_state_def empty_state_def)
  then show ?case by (intro exI [of _ "\<lparr>g_log = Map.empty, g_granted = {}\<rparr>"]) (auto simp: reachable_def)
next
  case (snoc i "is")
  then obtain g where g: "reachable (asked_state is, g)" "g_granted g = {}" "\<forall>j. j \<notin> set is \<longrightarrow> g_log g j = None" by auto
  have st: "(asked_state is)\<lparr>ts_db := (ts_db empty_state)\<lparr>t_approvals := map mail_row is @ [mail_row i]\<rparr>\<rparr> = asked_state (is @ [i])"
    by (simp add: asked_state_def)
  have "step (asked_state is, g) (logged (asked_state (is @ [i])) g)"
    using step.ask [OF insert_mail_row, of g i "is"] g(3) snoc.prems by (simp add: st)
  from reachable_step [OF g(1) this] show ?case
    using g by (intro exI [of _ "snd (logged (asked_state (is @ [i])) g)"])
      (auto simp: logged_def remember_def asked_state_def mail_row_def get_action_approval_None split: option.splits
        dest!: get_action_approval_Some)
qed

definition quiet :: push_stamp where
  "quiet = \<lparr>ps_now = 0, ps_time_ns = 0, ps_nonce = 0, ps_fault = NotPushed\<rparr>"

lemma first_decision_wins_witness:
  "let (r1, st1) = submit_decision (\<lambda>_ s. s) quiet 5 11 APPROVED 7 (asked_state [11]);
       (r2, st2) = submit_decision (\<lambda>_ s. s) quiet 6 11 APPROVED 7 st1;
       (r3, st3) = submit_decision (\<lambda>_ s. s) quiet 6 11 REJECTED 7 st1
   in \<not> isl r1 \<and> \<not> isl r2 \<and> r3 = Inl (OnyxError CONFLICT)
     \<and> (\<forall>r. get_action_approval (ts_db st2) 11 = Some r \<longrightarrow> ar_decision r = Some APPROVED)"
proof -
  obtain r1 st1 where 1: "submit_decision (\<lambda>_ s. s) quiet 5 11 APPROVED 7 (asked_state [11]) = (r1, st1)" by fastforce
  obtain r2 st2 where 2: "submit_decision (\<lambda>_ s. s) quiet 6 11 APPROVED 7 st1 = (r2, st2)" by fastforce
  obtain r3 st3 where 3: "submit_decision (\<lambda>_ s. s) quiet 6 11 REJECTED 7 st1 = (r3, st3)" by fastforce
  have "let (r1, st1) = submit_decision (\<lambda>_ s. s) quiet 5 11 APPROVED 7 (asked_state [11])
    in \<not> isl r1 \<and> \<not> isl (fst (submit_decision (\<lambda>_ s. s) quiet 6 11 APPROVED 7 st1))
      \<and> fst (submit_decision (\<lambda>_ s. s) quiet 6 11 REJECTED 7 st1) = Inl (OnyxError CONFLICT)" by code_simp
  then have ok: "\<not> isl r1" "\<not> isl r2" "r3 = Inl (OnyxError CONFLICT)" by (simp_all add: 1 2 3)
  then obtain v v' where v: "r1 = Inr v" "r2 = Inr v'" by (cases r1; cases r2) auto
  obtain g where "reachable (asked_state [11], g)" using asked_reachable [of "[11]"] by auto
  from first_decision_wins [OF this lawful_none lawful_none lawful_none 1 [unfolded v] 2 [unfolded v]]
  show ?thesis using ok by (simp add: 1 2 3)
qed


lemma session_grant_approves_exactly_witness:
  "\<exists>v st'. submit_session_grant (\<lambda>_ s. s) (\<lambda>_. quiet) None 180 5 11 7 (asked_state [11, 12]) = (Inr v, st')
     \<and> (\<forall>r \<in> set (t_approvals (ts_db st')). ar_decision r = Some APPROVED)"
proof -
  obtain r st' where run: "submit_session_grant (\<lambda>_ s. s) (\<lambda>_. quiet) None 180 5 11 7 (asked_state [11, 12]) = (r, st')" by fastforce
  have "\<not> isl (fst (submit_session_grant (\<lambda>_ s. s) (\<lambda>_. quiet) None 180 5 11 7 (asked_state [11, 12])))" by code_simp
  then obtain v where v: "r = Inr v" using run by (cases r) auto
  obtain g where "reachable (asked_state [11, 12], g)" using asked_reachable [of "[11, 12]"] by auto
  from session_grant_approves_exactly [OF this run [unfolded v]]
  obtain current where rows: "t_approvals (ts_db st') = map (\<lambda>r. if r = current
        \<or> is_live 180 5 r \<and> ar_session r = ar_session current \<and> ar_app r = ar_app current
          \<and> covered_by (set (ask_types current) \<union> granted_types (ts_db (asked_state [11, 12])) (ar_session current) (the (ar_app current))) r
      then decide 5 APPROVED (Some SESSION_GRANT) r else r) (t_approvals (ts_db (asked_state [11, 12])))"
    and "get_action_approval_for_user (ts_db (asked_state [11, 12])) 11 7 = Some current" by fastforce
  moreover have "get_action_approval_for_user (ts_db (asked_state [11, 12])) 11 7 = Some (mail_row 11)" by code_simp
  moreover have "actions_requiring_approval [Persisted ask_mail] = [''mail.send'']" by code_simp
  ultimately have "t_approvals (ts_db st') = map (decide 5 APPROVED (Some SESSION_GRANT)) [mail_row 11, mail_row 12]"
    by (simp add: asked_state_def mail_row_def is_live_def covered_by_def ask_types_def second_def)
  then have "\<forall>r \<in> set (t_approvals (ts_db st')). ar_decision r = Some APPROVED" by simp
  then show ?thesis using run v by blast
qed

end
