(* ===== verification/AppTokens.thy ===== *)
theory AppTokens
  imports Approvals
begin

text \<open>
  Access tokens of external apps: the expiry stamped on a token and the test for staleness
  (\<open>onyx/external_apps/token_utils.py\<close>), what the providers make of a token response
  (\<open>onyx/external_apps/providers\<close>), the lazy refresh the egress gate asks for (\<open>token_refresh.py\<close>) and the
  OAuth flow that connects an app (\<open>server/features/build/external_apps/oauth.py\<close>).  The HTTP client and the
  text of dates are arguments; other requests act wherever the code holds no transaction.
\<close>

section \<open>Expiry\<close>

text \<open>A date is an instant in microseconds since 1970, or one without a time zone.\<close>

datatype parsed_dt = Aware int | Naive int

record token_env =
  te_post :: "string \<Rightarrow> (string, pyval) dict \<Rightarrow> (int \<times> pyval option) option"
  te_isoformat :: "int \<Rightarrow> string"
  te_fromisoformat :: "string \<Rightarrow> parsed_dt option"

definition default_refresh_skew_seconds :: int where "default_refresh_skew_seconds = 120"

text \<open>A time delta has less than ten to the nine days; a date lies in the years 1 to 9999.\<close>

definition timedelta_seconds :: "int \<Rightarrow> int result" where
  "timedelta_seconds s = (if - 86400 * 999999999 \<le> s \<and> s < 86400 * 1000000000 then Inr (s * second) else Inl OverflowError)"

definition min_date :: int where "min_date = - 62135596800 * second"
definition max_date :: int where "max_date = 253402300800 * second - 1"

definition add_date :: "int \<Rightarrow> int \<Rightarrow> int result" where
  "add_date t d = (if min_date \<le> t + d \<and> t + d \<le> max_date then Inr (t + d) else Inl OverflowError)"

definition stamp_expires_at :: "token_env \<Rightarrow> int \<Rightarrow> (string, pyval) dict \<Rightarrow> (string, pyval) dict result" where
  "stamp_expires_at te now credentials = (case dict_get credentials ''expires_in'' of
     None \<Rightarrow> Inr credentials
   | Some PNone \<Rightarrow> Inr credentials
   | Some expires_in \<Rightarrow>
       (let seconds = (case py_int_of expires_in of Inl _ \<Rightarrow> 0 | Inr s \<Rightarrow> s) in
        bind_r (timedelta_seconds seconds) (\<lambda>d. bind_r (add_date now d) (\<lambda>t.
          Inr (dict_set ''expires_at'' (PStr (te_isoformat te t)) credentials)))))"

definition as_utc :: "parsed_dt \<Rightarrow> int" where
  "as_utc d = (case d of Aware t \<Rightarrow> t | Naive t \<Rightarrow> t)"

definition needs_refresh :: "token_env \<Rightarrow> int \<Rightarrow> (string, pyval) dict \<Rightarrow> bool" where
  "needs_refresh te now credentials = (case dict_get credentials ''expires_at'' of
     None \<Rightarrow> False
   | Some (PStr s) \<Rightarrow> (case te_fromisoformat te s of
        None \<Rightarrow> True
      | Some d \<Rightarrow> as_utc d - now \<le> default_refresh_skew_seconds * second)
   | Some _ \<Rightarrow> True)"

section \<open>Token responses\<close>

definition get_or_none :: "(string, pyval) dict \<Rightarrow> string \<Rightarrow> pyval" where
  "get_or_none d k = (case dict_get d k of Some v \<Rightarrow> v | None \<Rightarrow> PNone)"

definition token_response_error :: "int \<Rightarrow> pyval \<Rightarrow> pyval option" where
  "token_response_error status body = (case body of
     PDict d \<Rightarrow>
       if 400 \<le> status then Some (pv_or (pv_or (get_or_none d ''error'') (get_or_none d ''error_description'')) (PStr ''unknown''))
       else if get_or_none d ''ok'' = PBool False then Some (pv_or (get_or_none d ''error'') (PStr ''unknown''))
       else None
   | _ \<Rightarrow> if 400 \<le> status then Some (PStr (''unexpected token response (status='' @ int_str status @ '')'')) else None)"

definition classify_token_response :: "app_type \<Rightarrow> int \<Rightarrow> pyval \<Rightarrow> pyval option" where
  "classify_token_response t status body = (case (t, body) of
     (GITHUB, PDict d) \<Rightarrow> if py_truthy (get_or_none d ''error'') then Some (PStr (py_str (get_or_none d ''error'')))
        else token_response_error status body
   | (HUBSPOT, PDict d) \<Rightarrow> if 400 \<le> status \<and> py_truthy (get_or_none d ''status'') then Some (PStr (py_str (get_or_none d ''status'')))
        else token_response_error status body
   | _ \<Rightarrow> token_response_error status body)"

definition terminal_refresh_errors :: "app_type \<Rightarrow> string list" where
  "terminal_refresh_errors t = (case t of
     GITHUB \<Rightarrow> [''invalid_grant'', ''bad_refresh_token'']
   | HUBSPOT \<Rightarrow> [''invalid_grant'', ''BAD_REFRESH_TOKEN'']
   | _ \<Rightarrow> [''invalid_grant''])"

definition copy_truthy :: "(string, pyval) dict \<Rightarrow> string list \<Rightarrow> (string, pyval) dict \<Rightarrow> (string, pyval) dict" where
  "copy_truthy d ks creds = fold (\<lambda>k c. if py_truthy (get_or_none d k) then dict_set k (get_or_none d k) c else c) ks creds"

text \<open>\<open>x.get(k)\<close> and \<open>(x or {}).get(k)\<close>\<close>

definition get_key :: "pyval \<Rightarrow> string \<Rightarrow> pyval result" where
  "get_key x k = pv_get x k PNone"

definition extract_plain :: "string list \<Rightarrow> string list \<Rightarrow> pyval \<Rightarrow> (string, pyval) dict result" where
  "extract_plain kept optional response_data = bind_r (get_key response_data ''access_token'') (\<lambda>token.
     if \<not> py_truthy token then Inl (OnyxError BAD_GATEWAY)
     else case response_data of
       PDict d \<Rightarrow> Inr (copy_truthy d optional ((''access_token'', token) # map (\<lambda>k. (k, get_or_none d k)) kept))
     | _ \<Rightarrow> Inl AttributeError)"

definition extract_slack :: "pyval \<Rightarrow> (string, pyval) dict result" where
  "extract_slack response_data =
    bind_r (get_key response_data ''authed_user'') (\<lambda>u. let authed_user = pv_or u (PDict []) in
    bind_r (get_key authed_user ''access_token'') (\<lambda>token.
     if \<not> py_truthy token then Inl (OnyxError BAD_GATEWAY)
     else bind_r (get_key response_data ''team'') (\<lambda>t. let team = pv_or t (PDict []) in
       bind_r (get_key team ''id'') (\<lambda>team_id. bind_r (get_key team ''name'') (\<lambda>team_name.
         case authed_user of
           PDict d \<Rightarrow> Inr (copy_truthy d [''refresh_token'', ''expires_in'']
             [(''access_token'', token), (''team_id'', team_id), (''team_name'', team_name),
              (''authed_user_id'', get_or_none d ''id''), (''scope'', get_or_none d ''scope'')])
         | _ \<Rightarrow> Inl AttributeError)))))"

definition extract_github where
  "extract_github = extract_plain [''scope'', ''token_type''] [''refresh_token'', ''expires_in'']"
definition extract_google where
  "extract_google = extract_plain [''scope'', ''token_type''] [''refresh_token'', ''expires_in'', ''id_token'']"
definition extract_hubspot where
  "extract_hubspot = extract_plain [''token_type''] [''refresh_token'', ''expires_in'']"
definition extract_linear where
  "extract_linear = extract_plain [''scope'', ''token_type''] [''refresh_token'', ''expires_in'']"

definition extract_credentials :: "app_type \<Rightarrow> pyval \<Rightarrow> (string, pyval) dict result" where
  "extract_credentials t = (case t of
     SLACK \<Rightarrow> extract_slack | GITHUB \<Rightarrow> extract_github | HUBSPOT \<Rightarrow> extract_hubspot | LINEAR \<Rightarrow> extract_linear
   | _ \<Rightarrow> extract_google)"


section \<open>Refreshing\<close>

text \<open>How the exchange of a refresh token ends: \<open>Escapes\<close> is an exception outside the two documented ones.\<close>

datatype refresh_outcome = Refreshed "(string, pyval) dict" | TerminalError | TransientError | Escapes exn

definition build_refresh_request :: "pyval \<Rightarrow> pyval \<Rightarrow> pyval \<Rightarrow> (string, pyval) dict" where
  "build_refresh_request refresh_token client_id client_secret =
     [(''grant_type'', PStr ''refresh_token''), (''client_id'', client_id), (''client_secret'', client_secret),
      (''refresh_token'', refresh_token)]"

text \<open>\<open>error in terminal_refresh_errors\<close> hashes the error.\<close>

definition refresh_credentials :: "token_env \<Rightarrow> provider_spec \<Rightarrow> (string, pyval) dict \<Rightarrow> pyval \<Rightarrow> pyval \<Rightarrow> refresh_outcome" where
  "refresh_credentials te p stored client_id client_secret =
    (let t = ps_app_type p; refresh_token = get_or_none stored ''refresh_token'' in
     if \<not> py_truthy refresh_token then TerminalError
     else case te_post te (of_token_url (ps_oauth p)) (build_refresh_request refresh_token client_id client_secret) of
       None \<Rightarrow> TransientError
     | Some (status, None) \<Rightarrow> TransientError
     | Some (status, Some body) \<Rightarrow>
        (case classify_token_response t status body of
           Some error \<Rightarrow> if \<not> hashable error then Escapes TypeError
              else if error \<in> PStr ` set (terminal_refresh_errors t) then TerminalError else TransientError
         | None \<Rightarrow> (case extract_credentials t body of
              Inl e \<Rightarrow> TransientError
            | Inr mapped \<Rightarrow> Refreshed (dict_update stored mapped))))"

text \<open>A run meets other requests, databases that are down (by session), the clock, and the Redis lock:
  how its acquisition ends and whether its release fails.\<close>

datatype lock_result = LockAcquired | LockContended | LockDown

record refresh_run =
  rr_others :: others
  rr_down :: "nat \<Rightarrow> bool"
  rr_now :: "nat \<Rightarrow> int"
  rr_lock :: lock_result
  rr_release_fails :: bool

definition read_stored_credentials :: "app_db \<Rightarrow> int \<Rightarrow> uuid \<Rightarrow> (string, pyval) dict option" where
  "read_stored_credentials db app_id user_id = map_option auc_credentials (get_external_app_user_credential db app_id user_id)"

definition client_credentials :: "external_app \<Rightarrow> (pyval \<times> pyval) option" where
  "client_credentials app = (let org = ea_org_credentials app; i = get_or_none org ''client_id''; s = get_or_none org ''client_secret'' in
     if py_truthy i \<and> py_truthy s then Some (i, s) else None)"

definition load_refresh_inputs ::
  "token_env \<Rightarrow> int \<Rightarrow> app_db \<Rightarrow> int \<Rightarrow> uuid \<Rightarrow> (provider_spec \<times> (string, pyval) dict \<times> pyval \<times> pyval) option" where
  "load_refresh_inputs te now db app_id user_id = (case get_external_app_by_id db app_id of
     None \<Rightarrow> None
   | Some app \<Rightarrow> (case dict_get providers (ea_type app) of
        None \<Rightarrow> None
      | Some p \<Rightarrow> (case read_stored_credentials db app_id user_id of
           None \<Rightarrow> None
         | Some stored \<Rightarrow> if \<not> needs_refresh te now stored then None
             else map_option (\<lambda>(i, s). (p, stored, i, s)) (client_credentials app))))"

definition on_apps :: "(app_db \<Rightarrow> app_db) \<Rightarrow> tenant_data \<Rightarrow> tenant_data" where
  "on_apps f st = st\<lparr>ts_db := (ts_db st)\<lparr>t_external := f (t_external (ts_db st))\<rparr>\<rparr>"

definition persist_refreshed ::
  "token_env \<Rightarrow> int \<Rightarrow> int \<Rightarrow> uuid \<Rightarrow> (string, pyval) dict \<Rightarrow> tenant_data \<Rightarrow> unit result \<times> tenant_data" where
  "persist_refreshed te now app_id user_id refreshed st =
    (case bind_r (stamp_expires_at te now refreshed) (\<lambda>c.
        upsert_external_app_user_credential app_id user_id (FromOAuth c) (t_external (ts_db st))) of
       Inl e \<Rightarrow> (Inl e, st)
     | Inr db \<Rightarrow> (Inr (), on_apps (\<lambda>_. db) st))"

definition refresh_under_lock :: "token_env \<Rightarrow> refresh_run \<Rightarrow> int \<Rightarrow> uuid \<Rightarrow> tenant_data \<Rightarrow> unit result \<times> tenant_data" where
  "refresh_under_lock te run app_id user_id st =
    (if rr_down run 1 then (Inl SQLAlchemyError, st)
     else case load_refresh_inputs te (rr_now run 1) (t_external (ts_db st)) app_id user_id of
       None \<Rightarrow> (Inr (), st)
     | Some (p, stored, client_id, client_secret) \<Rightarrow>
        (let st1 = rr_others run 1 st in
         case refresh_credentials te p stored client_id client_secret of
           Escapes e \<Rightarrow> (Inl e, st1)
         | TransientError \<Rightarrow> (Inr (), st1)
         | TerminalError \<Rightarrow> if rr_down run 2 then (Inl SQLAlchemyError, st1)
             else (Inr (), on_apps (delete_external_app_user_credential app_id user_id) st1)
         | Refreshed c \<Rightarrow> if rr_down run 2 then (Inl SQLAlchemyError, st1)
             else persist_refreshed te (rr_now run 2) app_id user_id c st1))"

text \<open>Failures of the lock and of the databases are swallowed; leaving the lock may replace an exception.\<close>

definition swallow :: "unit result \<Rightarrow> unit result" where
  "swallow r = (if r \<in> {Inl RedisSharedLockAcquisitionError, Inl RedisError, Inl SQLAlchemyError} then Inr () else r)"

definition ensure_fresh_credentials :: "token_env \<Rightarrow> refresh_run \<Rightarrow> int \<Rightarrow> uuid \<Rightarrow> tenant_data \<Rightarrow> unit result \<times> tenant_data" where
  "ensure_fresh_credentials te run app_id user_id st =
    (if rr_down run 0 then (swallow (Inl SQLAlchemyError), st)
     else case read_stored_credentials (t_external (ts_db st)) app_id user_id of
       None \<Rightarrow> (Inr (), st)
     | Some stored \<Rightarrow>
        if \<not> needs_refresh te (rr_now run 0) stored then (Inr (), st)
        else let st1 = rr_others run 0 st in
          (case rr_lock run of
             LockContended \<Rightarrow> (swallow (Inl RedisSharedLockAcquisitionError), st1)
           | LockDown \<Rightarrow> (swallow (Inl RedisError), st1)
           | LockAcquired \<Rightarrow> (case refresh_under_lock te run app_id user_id st1 of
               (r, st2) \<Rightarrow> (swallow (if rr_release_fails run then Inl RedisError else r), st2))))"

section \<open>Connecting an app\<close>

text \<open>\<open>base64.urlsafe_b64encode\<close> with the padding stripped, on the bytes of an identifier.\<close>

definition b64_char :: "nat \<Rightarrow> char" where
  "b64_char n = (if n < 26 then char_of (65 + n) else if n < 52 then char_of (71 + n)
     else if n < 62 then char_of (n - 4) else if n = 62 then CHR ''-'' else CHR ''_'')"

fun b64_encode :: "nat list \<Rightarrow> string" where
  "b64_encode (a # b # c # bs) = [b64_char (a div 4), b64_char (a mod 4 * 16 + b div 16),
     b64_char (b mod 16 * 4 + c div 64), b64_char (c mod 64)] @ b64_encode bs"
| "b64_encode [a, b] = [b64_char (a div 4), b64_char (a mod 4 * 16 + b div 16), b64_char (b mod 16 * 4)]"
| "b64_encode [a] = [b64_char (a div 4), b64_char (a mod 4 * 16)]"
| "b64_encode [] = []"

text \<open>The lenient decoder: characters outside the alphabet are skipped, a complete padding ends the text.
  \<open>quad\<close> counts the characters of the current group, \<open>left\<close> holds the bits not yet used.\<close>

definition b64_value :: "char \<Rightarrow> nat option" where
  "b64_value ch = (let n = (of_char ch :: nat) in
     if 65 \<le> n \<and> n \<le> 90 then Some (n - 65) else if 97 \<le> n \<and> n \<le> 122 then Some (n - 71)
     else if 48 \<le> n \<and> n \<le> 57 then Some (n + 4)
     else if ch = CHR ''-'' \<or> ch = CHR ''+'' then Some 62 else if ch = CHR ''_'' \<or> ch = CHR ''/'' then Some 63 else None)"

fun b64_decode :: "nat \<Rightarrow> nat \<Rightarrow> nat \<Rightarrow> string \<Rightarrow> nat list option" where
  "b64_decode quad left pads [] = (if quad = 0 then Some [] else None)"
| "b64_decode quad left pads (ch # chs) =
    (if ch = CHR ''='' then
       (if 2 \<le> quad then if 4 \<le> quad + (pads + 1) then Some [] else b64_decode quad left (pads + 1) chs
        else b64_decode quad left pads chs)
     else case b64_value ch of
       None \<Rightarrow> b64_decode quad left pads chs
     | Some v \<Rightarrow>
        if quad = 0 then b64_decode 1 v 0 chs
        else if quad = 1 then map_option ((#) (left * 4 + v div 16)) (b64_decode 2 (v mod 16) 0 chs)
        else if quad = 2 then map_option ((#) (left * 16 + v div 4)) (b64_decode 3 (v mod 4) 0 chs)
        else map_option ((#) (left * 64 + v)) (b64_decode 0 0 0 chs))"

definition uuid_bytes :: "uuid \<Rightarrow> nat list" where
  "uuid_bytes u = map (\<lambda>k. unat (take_bit 8 (drop_bit (8 * k) u))) (rev [0..<16])"

definition uuid_of_bytes :: "nat list \<Rightarrow> uuid option" where
  "uuid_of_bytes bs = (if length bs \<noteq> 16 then None else Some (foldl (\<lambda>u b. push_bit 8 u + of_nat b) 0 bs))"

definition encode_state :: "uuid \<Rightarrow> string" where
  "encode_state u = b64_encode (uuid_bytes u)"

definition decode_state :: "string \<Rightarrow> uuid option" where
  "decode_state s = (if \<exists>c \<in> set s. (128 :: nat) \<le> of_char c then None else Option.bind (b64_decode 0 0 0 (s @ replicate (nat (- int (length s) mod 4)) (CHR ''=''))) uuid_of_bytes)"

text \<open>What Redis keeps for ten minutes between the two requests of the flow.\<close>

record oauth_state_record =
  os_user :: string
  os_app :: int

type_synonym redis_states = "(string, oauth_state_record \<times> int) dict"

definition redis_key_prefix :: string where "redis_key_prefix = ''da_ea_oauth:''"
definition redis_state_ttl_seconds :: int where "redis_state_ttl_seconds = 600"
definition frontend_callback_path :: string where "frontend_callback_path = ''/craft/v1/apps/oauth/callback''"

definition redis_get :: "int \<Rightarrow> string \<Rightarrow> redis_states \<Rightarrow> oauth_state_record option" where
  "redis_get now k r = (case dict_get r k of
     Some (v, e) \<Rightarrow> if now < e then Some v else None
   | None \<Rightarrow> None)"

definition oauth_client_credentials :: "external_app \<Rightarrow> (pyval \<times> pyval) result" where
  "oauth_client_credentials app = (let org = ea_org_credentials app; i = get_or_none org ''client_id''; s = get_or_none org ''client_secret'' in
     if \<not> py_truthy i \<or> \<not> py_truthy s then Inl (OnyxError INVALID_INPUT) else Inr (i, s))"

definition frontend_callback_url :: "string \<Rightarrow> string" where
  "frontend_callback_url web_domain = web_domain @ frontend_callback_path"

text \<open>Every provider of the registry authenticates by OAuth.\<close>

definition oauth_provider_or_raise :: "external_app \<Rightarrow> provider_spec result" where
  "oauth_provider_or_raise app = (case dict_get providers (ea_type app) of
     None \<Rightarrow> Inl (OnyxError INVALID_INPUT) | Some p \<Rightarrow> Inr p)"

definition start_external_app_oauth ::
  "string \<Rightarrow> int \<Rightarrow> uuid \<Rightarrow> int \<Rightarrow> uuid \<Rightarrow> app_db \<Rightarrow> redis_states \<Rightarrow> string result \<times> redis_states" where
  "start_external_app_oauth web_domain now oauth_uuid app_id user_id db r = (case get_external_app_by_id db app_id of
     None \<Rightarrow> (Inl (OnyxError NOT_FOUND), r)
   | Some app \<Rightarrow>
      if \<not> sk_enabled (ea_skill app) then (Inl (OnyxError INVALID_INPUT), r)
      else (case bind_r (oauth_provider_or_raise app) (\<lambda>p. bind_r (oauth_client_credentials app) (\<lambda>(i, _). Inr (p, i))) of
          Inl e \<Rightarrow> (Inl e, r)
        | Inr (p, client_id) \<Rightarrow>
           (let oauth = ps_oauth p;
                params = dict_update (dict_set ''state'' (PStr (encode_state oauth_uuid))
                    (dict_set (of_scope_param oauth) (PStr (of_scope oauth))
                      [(''client_id'', client_id), (''redirect_uri'', PStr (frontend_callback_url web_domain))]))
                    (map (\<lambda>(k, v). (k, PStr v)) (of_extra_params oauth))
            in (Inr (of_authorize_url oauth @ ''?'' @ urlencode (map (apsnd py_str) params)),
                dict_set (redis_key_prefix @ uuid_str oauth_uuid)
                  (\<lparr>os_user = uuid_str user_id, os_app = app_id\<rparr>, now + redis_state_ttl_seconds * second) r))))"

definition code_request :: "string \<Rightarrow> pyval \<Rightarrow> pyval \<Rightarrow> string \<Rightarrow> (string, pyval) dict" where
  "code_request web_domain client_id client_secret code =
     [(''grant_type'', PStr ''authorization_code''), (''client_id'', client_id), (''client_secret'', client_secret),
      (''code'', PStr code), (''redirect_uri'', PStr (frontend_callback_url web_domain))]"

text \<open>What the token endpoint's answer is worth: the credentials to store.\<close>

definition exchanged :: "token_env \<Rightarrow> int \<Rightarrow> provider_spec \<Rightarrow> (int \<times> pyval option) option \<Rightarrow> (string, pyval) dict result" where
  "exchanged te now p response = (case response of
     None \<Rightarrow> Inl (OnyxError BAD_GATEWAY)
   | Some (status, None) \<Rightarrow> Inl (OnyxError BAD_GATEWAY)
   | Some (status, Some response_data) \<Rightarrow>
      (case classify_token_response (ps_app_type p) status response_data of
         Some _ \<Rightarrow> Inl (OnyxError BAD_GATEWAY)
       | None \<Rightarrow> bind_r (extract_credentials (ps_app_type p) response_data) (stamp_expires_at te now)))"

text \<open>The argument \<open>others\<close> is what happens during the exchange.\<close>

definition handle_external_app_oauth_callback ::
  "token_env \<Rightarrow> string \<Rightarrow> (app_db \<times> redis_states \<Rightarrow> app_db \<times> redis_states) \<Rightarrow> (nat \<Rightarrow> int)
    \<Rightarrow> string \<Rightarrow> string \<Rightarrow> uuid \<Rightarrow> app_db \<times> redis_states \<Rightarrow> int result \<times> app_db \<times> redis_states" where
  "handle_external_app_oauth_callback te web_domain others now state code user_id w = (case decode_state state of
     None \<Rightarrow> (Inl (OnyxError INVALID_INPUT), w)
   | Some oauth_uuid \<Rightarrow> (let redis_key = redis_key_prefix @ uuid_str oauth_uuid in
      (case redis_get (now 0) redis_key (snd w) of
         None \<Rightarrow> (Inl (OnyxError INVALID_INPUT), w)
       | Some rec \<Rightarrow>
          if os_user rec \<noteq> uuid_str user_id then (Inl (OnyxError UNAUTHENTICATED), w)
          else (case get_external_app_by_id (fst w) (os_app rec) of
             None \<Rightarrow> (Inl (OnyxError NOT_FOUND), w)
           | Some app \<Rightarrow>
              (case bind_r (oauth_provider_or_raise app) (\<lambda>p. bind_r (oauth_client_credentials app) (\<lambda>(i, s). Inr (p, i, s))) of
                 Inl e \<Rightarrow> (Inl e, w)
               | Inr (p, client_id, client_secret) \<Rightarrow>
                  (let (db, r) = others w in
                   case bind_r (exchanged te (now 1) p
                         (te_post te (of_token_url (ps_oauth p)) (code_request web_domain client_id client_secret code)))
                       (\<lambda>c. upsert_external_app_user_credential (ea_id app) user_id (FromOAuth c) db) of
                     Inl e \<Rightarrow> (Inl e, db, r)
                   | Inr db' \<Rightarrow> (Inr (ea_id app), db', dict_del redis_key r)))))))"

section \<open>The state of the flow survives the round trip\<close>

lemma b64_char_code: "n < 64 \<Longrightarrow> (of_char (b64_char n) :: nat) = (if n < 26 then 65 + n else if n < 52 then 71 + n
    else if n < 62 then n - 4 else if n = 62 then 45 else 95)"
  by (simp add: b64_char_def)

lemma b64_char_plain: "n < 64 \<Longrightarrow> b64_char n \<noteq> CHR ''='' \<and> (of_char (b64_char n) :: nat) < 128"
proof -
  assume n: "n < 64"
  then have "(of_char (b64_char n) :: nat) \<noteq> of_char (CHR ''='')" by (simp add: b64_char_code) linarith
  then have "b64_char n \<noteq> CHR ''=''" by metis
  then show ?thesis using n by (auto simp: b64_char_code)
qed

lemma b64_value_char: "n < 64 \<Longrightarrow> b64_value (b64_char n) = Some n"
proof (cases "n < 62")
  case False
  moreover assume "n < 64"
  ultimately have "n = 62 \<or> n = 63" by linarith
  then show ?thesis by (auto simp: b64_char_def b64_value_def)
qed (auto simp: b64_value_def b64_char_code Let_def)

declare b64_decode.simps(2) [simp del]

lemma b64_step [simp]:
  assumes "v < 64"
  shows "b64_decode 0 l p (b64_char v # chs) = b64_decode 1 v 0 chs"
    "b64_decode (Suc 0) l p (b64_char v # chs) = map_option ((#) (l * 4 + v div 16)) (b64_decode 2 (v mod 16) 0 chs)"
    "b64_decode 2 l p (b64_char v # chs) = map_option ((#) (l * 16 + v div 4)) (b64_decode 3 (v mod 4) 0 chs)"
    "b64_decode 3 l p (b64_char v # chs) = map_option ((#) (l * 64 + v)) (b64_decode 0 0 0 chs)"
  using assms by (simp_all add: b64_decode.simps(2) b64_value_char b64_char_plain)

lemma b64_padding [simp]:
  "2 \<le> quad \<Longrightarrow> b64_decode quad l p (CHR ''='' # chs) = (if 4 \<le> quad + (p + 1) then Some [] else b64_decode quad l (p + 1) chs)"
  by (simp add: b64_decode.simps(2))

lemma replicate_two: "replicate 2 x = [x, x]"
  by (simp add: numeral_2_eq_2)

lemma sextets:
  assumes "(a :: nat) < 256" and "b < 256" and "c < 256"
  shows "a div 4 < 64" "a mod 4 * 16 + b div 16 < 64" "b mod 16 * 4 + c div 64 < 64" "c mod 64 < 64" "a mod 4 * 16 < 64" "b mod 16 * 4 < 64"
    "a div 4 * 4 + (a mod 4 * 16 + b div 16) div 16 = a" "(a mod 4 * 16 + b div 16) mod 16 * 16 + (b mod 16 * 4 + c div 64) div 4 = b"
    "(b mod 16 * 4 + c div 64) mod 4 * 64 + c mod 64 = c"
    "a div 4 * 4 + a mod 4 * 16 div 16 = a" "(a mod 4 * 16 + b div 16) mod 16 * 16 + b mod 16 * 4 div 4 = b"
proof -
  note split = div_mult_mod_eq [of a 4] div_mult_mod_eq [of b 16] div_mult_mod_eq [of c 64]
  have 16: "(x * 16 + y) div 16 = x" "(x * 16 + y) mod 16 = y" if "y < 16" for x y :: nat
    using that by simp_all
  have 4: "(x * 4 + y) div 4 = x" "(x * 4 + y) mod 4 = y" if "y < 4" for x y :: nat
    using that by simp_all
  have less: "b div 16 < 16" "c div 64 < 4" "a mod 4 < 4" "b mod 16 < 16" "a div 4 < 64"
    using assms by (simp_all add: less_mult_imp_div_less)
  show "a div 4 < 64" "a mod 4 * 16 + b div 16 < 64" "b mod 16 * 4 + c div 64 < 64" "c mod 64 < 64" "a mod 4 * 16 < 64" "b mod 16 * 4 < 64"
    using less by simp_all
  show "a div 4 * 4 + (a mod 4 * 16 + b div 16) div 16 = a" "(a mod 4 * 16 + b div 16) mod 16 * 16 + (b mod 16 * 4 + c div 64) div 4 = b"
    "(b mod 16 * 4 + c div 64) mod 4 * 64 + c mod 64 = c" "a div 4 * 4 + a mod 4 * 16 div 16 = a"
    "(a mod 4 * 16 + b div 16) mod 16 * 16 + b mod 16 * 4 div 4 = b"
    using split less by (simp_all add: 16 4)
qed

lemma b64_roundtrip:
  "\<forall>x \<in> set bs. x < 256 \<Longrightarrow> b64_decode 0 0 0 (b64_encode bs @ replicate (nat (- int (length (b64_encode bs)) mod 4)) (CHR ''='')) = Some bs"
proof (induction bs rule: b64_encode.induct)
  case (1 a b c bs)
  have "- int (length (b64_encode (a # b # c # bs))) mod 4 = - int (length (b64_encode bs)) mod 4"
    by (simp add: zmod_zminus1_eq_if) presburger
  moreover have p: "a < 256" "b < 256" "c < 256" "\<forall>x \<in> set bs. x < 256" using 1(2) by simp_all
  ultimately show ?case using 1(1) [OF p(4)] by (simp add: sextets [OF p(1-3)])
next
  case (2 a b)
  then have p: "a < 256" "b < 256" by simp_all
  then have "b div 16 < 16" by (simp add: less_mult_imp_div_less)
  then show ?case by (simp add: sextets [OF p, of 0])
next
  case (3 a)
  then have "a < 256" by simp
  from sextets [OF this, of 0 0] show ?case by (simp add: replicate_two)
qed simp

lemma fold_bytes: "foldl (\<lambda>u b. push_bit 8 u + of_nat b) a (map (\<lambda>k. unat (take_bit 8 (drop_bit (8 * k) u))) (rev [0..<n]))
    = push_bit (8 * n) a + take_bit (8 * n) (u :: uuid)"
proof (induction n arbitrary: a)
  case (Suc n)
  have "take_bit (8 * Suc n) u = push_bit (8 * n) (take_bit 8 (drop_bit (8 * n) u)) + take_bit (8 * n) u"
    using bits_ident [of "8 * n" "take_bit (8 * Suc n) u"] by (simp add: drop_bit_take_bit)
  then show ?case using Suc by (simp add: push_bit_add ac_simps)
qed simp

lemma uuid_of_bytes_inverse: "uuid_of_bytes (uuid_bytes u) = Some u"
  using fold_bytes [of 0 u 16] by (simp add: uuid_of_bytes_def uuid_bytes_def take_bit_word_eq_self)

lemma b64_encode_chars: "\<forall>x \<in> set bs. x < 256 \<Longrightarrow> \<forall>c \<in> set (b64_encode bs). (of_char c :: nat) < 128"
proof (induction bs rule: b64_encode.induct)
  case (1 a b c bs)
  then have p: "a < 256" "b < 256" "c < 256" by simp_all
  show ?case using 1 by (simp add: b64_char_plain sextets [OF p])
next
  case (2 a b)
  then have p: "a < 256" "b < 256" by simp_all
  show ?case by (simp add: b64_char_plain sextets [OF p, of 0])
next
  case (3 a)
  then have "a < 256" by simp
  from sextets [OF this, of 0 0] show ?case by (simp add: b64_char_plain)
qed simp

lemma decode_encode_state [simp]: "decode_state (encode_state u) = Some u"
proof -
  have "unat (take_bit 8 w) < 256" for w :: uuid
    using take_bit_nat_less_exp [of 8 "unat w"] by (simp add: unsigned_take_bit_eq)
  then have bytes: "\<forall>x \<in> set (uuid_bytes u). x < 256" by (auto simp: uuid_bytes_def)
  then show ?thesis
    using b64_roundtrip [OF bytes] b64_encode_chars [OF bytes] uuid_of_bytes_inverse [of u]
    by (auto simp: decode_state_def encode_state_def not_le [symmetric])
qed

section \<open>Expiry of a stamped token\<close>

lemma stamped:
  "stamp_expires_at te now c = Inr c' \<Longrightarrow> dict_get c ''expires_in'' = Some (PInt n) \<Longrightarrow>
     c' = dict_set ''expires_at'' (PStr (te_isoformat te (now + n * second))) c"
  by (auto simp: stamp_expires_at_def py_int_of_def Let_def bind_r_Inr_iff timedelta_seconds_def add_date_def split: if_splits)

text \<open>C23: A stamped token counts as stale from two minutes before its announced expiry on, not earlier and not
  later, whatever the number of seconds; numbers for which the expiry is not a date raise an overflow.\<close>

theorem stamped_token_expires_on_time:
  assumes iso: "\<forall>t. te_fromisoformat te (te_isoformat te t) = Some (Aware t)"
    and expires: "dict_get credentials ''expires_in'' = Some (PInt n)"
    and now: "min_date \<le> now" "now \<le> max_date"
  shows "(stamp_expires_at te now credentials = Inl OverflowError \<longleftrightarrow> now + n * second < min_date \<or> max_date < now + n * second)
    \<and> (\<forall>c. stamp_expires_at te now credentials = Inr c \<longrightarrow>
         (\<forall>t. needs_refresh te t c \<longleftrightarrow> now + (n - default_refresh_skew_seconds) * second \<le> t))"
proof (intro conjI allI impI)
  show "stamp_expires_at te now credentials = Inl OverflowError \<longleftrightarrow> now + n * second < min_date \<or> max_date < now + n * second"
    using expires now by (auto simp: stamp_expires_at_def py_int_of_def Let_def timedelta_seconds_def add_date_def
        min_date_def max_date_def second_def)
next
  fix c t assume "stamp_expires_at te now credentials = Inr c"
  from stamped [OF this expires] show "needs_refresh te t c \<longleftrightarrow> now + (n - default_refresh_skew_seconds) * second \<le> t"
    using iso by (simp add: needs_refresh_def as_utc_def default_refresh_skew_seconds_def second_def) linarith
qed

section \<open>What a refresh changes\<close>

lemma read_stored_credentials_store [simp]:
  "read_stored_credentials (store_user_credential a u c db) a' u' = (if a' = a \<and> u' = u then Some c else read_stored_credentials db a' u')"
proof -
  let ?f = "\<lambda>r. if auc_app r = a \<and> auc_user r = u then r\<lparr>auc_credentials := c\<rparr> else r"
  have same: "map_option auc_credentials (find (\<lambda>r. auc_app r = a' \<and> auc_user r = u') (map ?f rows))
      = (if a' = a \<and> u' = u then map_option (\<lambda>_. c) (find (\<lambda>r. auc_app r = a \<and> auc_user r = u) rows)
         else map_option auc_credentials (find (\<lambda>r. auc_app r = a' \<and> auc_user r = u') rows))" for rows a' u'
    by (induction rows) auto
  have added: "find P (rows @ [x]) = (case find P rows of None \<Rightarrow> if P x then Some x else None | Some y \<Rightarrow> Some y)" for P rows x
    by (induction rows) auto
  show ?thesis
    by (cases "find (\<lambda>r. auc_app r = a \<and> auc_user r = u) (t_app_user_creds db)"; cases "a' = a \<and> u' = u")
      (simp_all add: read_stored_credentials_def store_user_credential_def get_external_app_user_credential_def same added
        del: map_option_eq_Some split: option.splits, auto)
qed

lemma read_stored_credentials_delete [simp]:
  "read_stored_credentials (delete_external_app_user_credential a u db) a' u'
     = (if a' = a \<and> u' = u then None else read_stored_credentials db a' u')"
proof -
  have "find (\<lambda>r. auc_app r = a' \<and> auc_user r = u') (filter (\<lambda>r. \<not> (auc_app r = a \<and> auc_user r = u)) rows)
      = (if a' = a \<and> u' = u then None else find (\<lambda>r. auc_app r = a' \<and> auc_user r = u') rows)" for rows
    by (induction rows) auto
  from this [of "t_app_user_creds db"] show ?thesis
    by (cases "a' = a \<and> u' = u")
      (auto simp: read_stored_credentials_def delete_external_app_user_credential_def get_external_app_user_credential_def)
qed

definition stored_for :: "tenant_data \<Rightarrow> int \<Rightarrow> uuid \<Rightarrow> (string, pyval) dict option" where
  "stored_for st a u = read_stored_credentials (t_external (ts_db st)) a u"

lemma stored_for_simps [simp]:
  "stored_for (on_apps f st) a u = read_stored_credentials (f (t_external (ts_db st))) a u"
  by (simp add: stored_for_def on_apps_def)

definition only_credentials_differ :: "tenant_data \<Rightarrow> tenant_data \<Rightarrow> bool" where
  "only_credentials_differ st st' \<longleftrightarrow> (\<exists>rows. st' = on_apps (\<lambda>db. db\<lparr>t_app_user_creds := rows\<rparr>) st)"

lemma only_credentials_differ_refl [simp]: "only_credentials_differ st st"
  unfolding only_credentials_differ_def
  by (rule exI [of _ "t_app_user_creds (t_external (ts_db st))"]) (simp add: on_apps_def)

lemma only_credentials_stored:
  "only_credentials_differ st (on_apps (\<lambda>_. store_user_credential a u c (t_external (ts_db st))) st)"
  "only_credentials_differ st (on_apps (delete_external_app_user_credential a u) st)"
  unfolding only_credentials_differ_def
  by (auto simp: on_apps_def store_user_credential_def delete_external_app_user_credential_def)

lemma upsert_oauth:
  "upsert_external_app_user_credential a u (FromOAuth c) db
     = (if get_external_app_by_id db a = None then Inl (OnyxError NOT_FOUND) else Inr (store_user_credential a u c db))"
  by (simp add: upsert_external_app_user_credential_def)

lemma stamp_error: "stamp_expires_at te now c = Inl e \<Longrightarrow> e = OverflowError"
  by (auto simp: stamp_expires_at_def Let_def bind_r_def timedelta_seconds_def add_date_def split: option.splits pyval.splits if_splits)

lemma persist_refreshed_cases:
  assumes "persist_refreshed te now a u c st = (r, st')"
  obtains e where "r = Inl e" "e \<in> {OverflowError, OnyxError NOT_FOUND}" "st' = st"
  | c' where "r = Inr ()" "stamp_expires_at te now c = Inr c'" "st' = on_apps (\<lambda>_. store_user_credential a u c' (t_external (ts_db st))) st"
  using assms stamp_error [of te now c]
  by (cases "stamp_expires_at te now c") (auto simp: persist_refreshed_def upsert_oauth split: if_splits)
text \<open>The cases of a refresh: nothing beyond what others do, or one of the two ways it ends.\<close>

lemma refresh_under_lock_cases:
  assumes "refresh_under_lock te run a u st = (r, st')"
  obtains "st' = st" | "st' = rr_others run 1 st"
  | p stored i s where "load_refresh_inputs te (rr_now run 1) (t_external (ts_db st)) a u = Some (p, stored, i, s)"
      "refresh_credentials te p stored i s = TerminalError"
      "st' = on_apps (delete_external_app_user_credential a u) (rr_others run 1 st)"
  | p stored i s c c' where "load_refresh_inputs te (rr_now run 1) (t_external (ts_db st)) a u = Some (p, stored, i, s)"
      "refresh_credentials te p stored i s = Refreshed c" "stamp_expires_at te (rr_now run 2) c = Inr c'"
      "st' = on_apps (\<lambda>_. store_user_credential a u c' (t_external (ts_db (rr_others run 1 st)))) (rr_others run 1 st)"
proof (cases "load_refresh_inputs te (rr_now run 1) (t_external (ts_db st)) a u")
  case None
  then show ?thesis using assms that(1) by (auto simp: refresh_under_lock_def split: if_splits)
next
  case (Some x)
  obtain p stored i s where x: "x = (p, stored, i, s)" by (cases x)
  show ?thesis
  proof (cases "rr_down run 1 \<or> rr_down run 2")
    case True
    then show ?thesis using assms Some x that(1,2)
      by (auto simp: refresh_under_lock_def Let_def split: if_splits refresh_outcome.splits)
  next
    case False
    show ?thesis
    proof (cases "refresh_credentials te p stored i s")
      case (Refreshed c)
      then have "persist_refreshed te (rr_now run 2) a u c (rr_others run 1 st) = (r, st')"
        using assms Some x False by (simp add: refresh_under_lock_def Let_def)
      then show ?thesis
        by (cases rule: persist_refreshed_cases) (use that(2,4) Some x Refreshed in auto)
    qed (use assms Some x False that(2,3) in \<open>auto simp: refresh_under_lock_def Let_def\<close>)
  qed
qed

lemma ensure_fresh_cases:
  assumes "ensure_fresh_credentials te run a u st = (r, st')"
  obtains "st' = st" | "st' = rr_others run 0 st"
  | r' where "refresh_under_lock te run a u (rr_others run 0 st) = (r', st')"
  using assms that
  by (auto simp: ensure_fresh_credentials_def Let_def split: if_splits option.splits lock_result.splits prod.splits)


text \<open>A reconnection during a refresh is lost.  Whatever others store for the app and user while the old
  refresh token is being exchanged, the refresh ends by removing the credential when the old grant turns
  out to be dead, and otherwise by overwriting it with the token of the old grant.\<close>

theorem reconnection_during_refresh_is_lost:
  assumes "ensure_fresh_credentials te run app user st = (Inr (), st')"
    and "\<not> rr_down run 0" "\<not> rr_down run 1" "\<not> rr_down run 2" "rr_lock run = LockAcquired" "\<not> rr_release_fails run"
    and "stored_for st app user = Some old" "needs_refresh te (rr_now run 0) old"
    and "load_refresh_inputs te (rr_now run 1) (t_external (ts_db (rr_others run 0 st))) app user = Some (p, stored, i, s)"
  shows "(refresh_credentials te p stored i s = TerminalError \<longrightarrow> stored_for st' app user = None)
    \<and> (\<forall>c. refresh_credentials te p stored i s = Refreshed c \<longrightarrow>
         (\<exists>c'. stamp_expires_at te (rr_now run 2) c = Inr c' \<and> stored_for st' app user = Some c'))"
proof -
  obtain r where r: "refresh_under_lock te run app user (rr_others run 0 st) = (r, st')" "swallow r = Inr ()"
    using assms(1-8) by (auto simp: ensure_fresh_credentials_def stored_for_def Let_def split: prod.splits)
  show ?thesis
  proof (intro conjI impI allI)
    assume "refresh_credentials te p stored i s = TerminalError"
    then show "stored_for st' app user = None" using r(1) assms by (auto simp: refresh_under_lock_def Let_def)
  next
    fix c assume "refresh_credentials te p stored i s = Refreshed c"
    then have "persist_refreshed te (rr_now run 2) app user c (rr_others run 1 (rr_others run 0 st)) = (r, st')"
      using r(1) assms by (simp add: refresh_under_lock_def Let_def)
    then show "\<exists>c'. stamp_expires_at te (rr_now run 2) c = Inr c' \<and> stored_for st' app user = Some c'"
      by (cases rule: persist_refreshed_cases) (use r(2) in \<open>auto simp: swallow_def\<close>)
  qed
qed

text \<open>An error object in place of an error code is a \<open>TypeError\<close> when it is looked up among the codes.\<close>

lemma error_object_escapes:
  assumes "\<not> rr_down run 0" "\<not> rr_down run 1" "rr_lock run = LockAcquired" "\<not> rr_release_fails run"
    and "stored_for st app user = Some old" "needs_refresh te (rr_now run 0) old"
    and "load_refresh_inputs te (rr_now run 1) (t_external (ts_db (rr_others run 0 st))) app user = Some (p, stored, i, s)"
    and "py_truthy (get_or_none stored ''refresh_token'')" "ps_app_type p \<notin> {GITHUB, HUBSPOT}"
    and "te_post te (of_token_url (ps_oauth p)) (build_refresh_request (get_or_none stored ''refresh_token'') i s) = Some (status, Some (PDict d))"
    and "400 \<le> status" "get_or_none d ''error'' = PDict (x # xs)"
  shows "fst (ensure_fresh_credentials te run app user st) = Inl TypeError"
proof -
  have "classify_token_response (ps_app_type p) status (PDict d) = Some (PDict (x # xs))"
    using assms(9,11,12) by (cases "ps_app_type p") (auto simp: classify_token_response_def token_response_error_def pv_or_def)
  then have "refresh_credentials te p stored i s = Escapes TypeError"
    using assms(8,10) by (simp add: refresh_credentials_def Let_def)
  then have "fst (refresh_under_lock te run app user (rr_others run 0 st)) = Inl TypeError"
    using assms(2,7) by (simp add: refresh_under_lock_def)
  then show ?thesis
    using assms(1,3-6) by (auto simp: ensure_fresh_credentials_def stored_for_def swallow_def Let_def split: prod.splits)
qed

section \<open>The OAuth flow\<close>

lemma join_part: "x \<in> set xs \<Longrightarrow> \<exists>a b. join sep xs = a @ x @ b"
proof (induction xs)
  case (Cons y xs)
  show ?case
  proof (cases "xs = []")
    case False
    then have j: "join sep (y # xs) = y @ sep @ join sep xs" by (rule join_Cons)
    show ?thesis
    proof (cases "x = y")
      case False
      then obtain a b where "join sep xs = a @ x @ b" using Cons by auto
      then have "join sep (y # xs) = (y @ sep @ a) @ x @ b" using j by simp
      then show ?thesis by blast
    qed (use j in \<open>force intro: exI [of _ "[]"]\<close>)
  qed (use Cons.prems in \<open>force intro: exI [of _ "[]"]\<close>)
qed simp

lemma provider_params:
  assumes "dict_get providers t = Some p"
  shows "distinct (dict_keys (of_extra_params (ps_oauth p)))" "''state'' \<notin> fst ` set (of_extra_params (ps_oauth p))"
proof -
  have "(t, p) \<in> set providers" using assms by (simp add: dict_get_def map_of_SomeD)
  then have "distinct (dict_keys (of_extra_params (ps_oauth p))) \<and> ''state'' \<notin> fst ` set (of_extra_params (ps_oauth p))"
    by (auto simp: providers_def provider_specs_def slack_spec_def google_calendar_spec_def google_drive_spec_def
        gmail_spec_def linear_spec_def github_spec_def hubspot_spec_def build_google_spec_def)
  then show "distinct (dict_keys (of_extra_params (ps_oauth p)))" "''state'' \<notin> fst ` set (of_extra_params (ps_oauth p))" by simp_all
qed

lemma b64_char_unquoted: "n < 64 \<Longrightarrow> quote_plus_char (b64_char n) = [b64_char n]"
proof -
  let ?m = "of_char (b64_char n) :: nat"
  assume n: "n < 64"
  have "48 \<le> ?m \<and> ?m \<le> 57 \<or> 65 \<le> ?m \<and> ?m \<le> 90 \<or> 97 \<le> ?m \<and> ?m \<le> 122 \<or> b64_char n \<in> set ''_.-~''"
  proof (cases "n < 62")
    case True
    then show ?thesis by (auto simp: b64_char_code)
  qed (use n in \<open>auto simp: b64_char_def\<close>)
  then show ?thesis unfolding quote_plus_char_def Let_def by (simp only: if_True)
qed

lemma b64_encode_unquoted: "\<forall>x \<in> set bs. x < 256 \<Longrightarrow> quote_plus (b64_encode bs) = b64_encode bs"
proof (induction bs rule: b64_encode.induct)
  case (1 a b c bs)
  then have p: "a < 256" "b < 256" "c < 256" by simp_all
  show ?case using 1 by (simp add: quote_plus_def b64_char_unquoted sextets [OF p])
next
  case (2 a b)
  then have p: "a < 256" "b < 256" by simp_all
  show ?case by (simp add: quote_plus_def b64_char_unquoted sextets [OF p, of 0])
next
  case (3 a)
  then have "a < 256" by simp
  from sextets [OF this, of 0 0] show ?case by (simp add: quote_plus_def b64_char_unquoted)
qed (simp add: quote_plus_def)

lemma uuid_bytes_less: "\<forall>x \<in> set (uuid_bytes u). x < 256"
proof -
  have "unat (take_bit 8 w) < 256" for w :: uuid
    using take_bit_nat_less_exp [of 8 "unat w"] by (simp add: unsigned_take_bit_eq)
  then show ?thesis by (auto simp: uuid_bytes_def)
qed

text \<open>What a successful start leaves behind.\<close>

lemma oauth_started:
  assumes "start_external_app_oauth web now u app user db r = (Inr url, r')"
  shows "dict_get r' (redis_key_prefix @ uuid_str u) = Some (\<lparr>os_user = uuid_str user, os_app = app\<rparr>, now + redis_state_ttl_seconds * second)"
    and "\<exists>a b. url = a @ ''state='' @ encode_state u @ b"
proof -
  obtain a where a: "get_external_app_by_id db app = Some a" "sk_enabled (ea_skill a)"
    using assms by (auto simp: start_external_app_oauth_def split: option.splits if_splits)
  then obtain p i where p: "dict_get providers (ea_type a) = Some p"
      "bind_r (oauth_provider_or_raise a) (\<lambda>p. bind_r (oauth_client_credentials a) (\<lambda>(i, _). Inr (p, i))) = Inr (p, i)"
    using assms by (auto simp: start_external_app_oauth_def bind_r_Inr_iff oauth_provider_or_raise_def split: sum.splits option.splits)
  define extra where "extra = map (\<lambda>(k, v). (k, PStr v)) (of_extra_params (ps_oauth p))"
  define params where "params = dict_update (dict_set ''state'' (PStr (encode_state u))
      (dict_set (of_scope_param (ps_oauth p)) (PStr (of_scope (ps_oauth p)))
        [(''client_id'', i), (''redirect_uri'', PStr (frontend_callback_url web))])) extra"
  have start: "start_external_app_oauth web now u app user db r = (Inr (of_authorize_url (ps_oauth p) @ ''?'' @ urlencode (map (apsnd py_str) params)),
      dict_set (redis_key_prefix @ uuid_str u) (\<lparr>os_user = uuid_str user, os_app = app\<rparr>, now + redis_state_ttl_seconds * second) r)"
    using a p(2) by (simp add: start_external_app_oauth_def params_def extra_def Let_def)
  show "dict_get r' (redis_key_prefix @ uuid_str u) = Some (\<lparr>os_user = uuid_str user, os_app = app\<rparr>, now + redis_state_ttl_seconds * second)"
    using assms start by auto
  have keys: "dict_keys extra = dict_keys (of_extra_params (ps_oauth p))"
    unfolding extra_def by (simp add: case_prod_beta comp_def)
  then have "distinct (dict_keys extra)" using provider_params(1) [OF p(1)] by simp
  moreover have "dict_get extra ''state'' = None"
    using provider_params(2) [OF p(1)] keys unfolding dict_get_None_iff by (metis list.set_map)
  ultimately have "dict_get params ''state'' = Some (PStr (encode_state u))" by (simp add: params_def dict_get_update)
  then have "(''state'', PStr (encode_state u)) \<in> set params" by (simp add: dict_get_def map_of_SomeD)
  then have entry: "(''state'', encode_state u) \<in> set (map (apsnd py_str) params)" by force
  have "quote_plus ''state'' = ''state''" by code_simp
  moreover have "quote_plus (encode_state u) = encode_state u"
    unfolding encode_state_def by (rule b64_encode_unquoted [OF uuid_bytes_less])
  ultimately have "''state='' @ encode_state u \<in> set (map (\<lambda>(k, v). quote_plus k @ ''='' @ quote_plus v) (map (apsnd py_str) params))"
    unfolding set_map [of "\<lambda>(k, v). quote_plus k @ ''='' @ quote_plus v"] by (intro image_eqI [OF _ entry]) simp
  from join_part [OF this, of "''&''"] obtain x y where "urlencode (map (apsnd py_str) params) = x @ (''state='' @ encode_state u) @ y"
    unfolding urlencode_def by blast
  then have "url = (of_authorize_url (ps_oauth p) @ ''?'' @ x) @ ''state='' @ encode_state u @ y"
    using assms start by simp
  then show "\<exists>a b. url = a @ ''state='' @ encode_state u @ b" by blast
qed

lemma callback_succeeds:
  assumes call: "handle_external_app_oauth_callback te web others now (encode_state u) code user (db1, r1) = (Inr a, db2, r2)"
    and rec: "redis_get (now 0) (redis_key_prefix @ uuid_str u) r1 = Some rec" and w: "others (db1, r1) = (dbx, rx)"
  obtains p reply c where "os_user rec = uuid_str user" "a = os_app rec" "exchanged te (now 1) p reply = Inr c"
    "db2 = store_user_credential a user c dbx" "r2 = dict_del (redis_key_prefix @ uuid_str u) rx"
proof -
  have user: "os_user rec = uuid_str user"
    using call rec by (auto simp: handle_external_app_oauth_callback_def Let_def split: if_splits)
  obtain x where x: "get_external_app_by_id db1 (os_app rec) = Some x"
    using call rec user by (cases "get_external_app_by_id db1 (os_app rec)") (auto simp: handle_external_app_oauth_callback_def Let_def)
  obtain p i s where inputs: "bind_r (oauth_provider_or_raise x) (\<lambda>p. bind_r (oauth_client_credentials x) (\<lambda>(i, s). Inr (p, i, s))) = Inr (p, i, s)"
    using call rec user x
    by (cases "bind_r (oauth_provider_or_raise x) (\<lambda>p. bind_r (oauth_client_credentials x) (\<lambda>(i, s). Inr (p, i, s)))")
      (auto simp: handle_external_app_oauth_callback_def Let_def)
  let ?reply = "te_post te (of_token_url (ps_oauth p)) (code_request web i s code)"
  let ?upsert = "\<lambda>c. upsert_external_app_user_credential (ea_id x) user (FromOAuth c) dbx"
  have run: "(case bind_r (exchanged te (now 1) p ?reply) ?upsert of
        Inl e \<Rightarrow> (Inl e, dbx, rx)
      | Inr db' \<Rightarrow> (Inr (ea_id x), db', dict_del (redis_key_prefix @ uuid_str u) rx)) = (Inr a, db2, r2)"
    using call rec user x inputs w by (simp add: handle_external_app_oauth_callback_def Let_def)
  obtain db' where db': "bind_r (exchanged te (now 1) p ?reply) ?upsert = Inr db'"
    using run by (cases "bind_r (exchanged te (now 1) p ?reply) ?upsert") auto
  obtain c where "exchanged te (now 1) p ?reply = Inr c" "db' = store_user_credential (ea_id x) user c dbx"
    using db' by (auto simp: bind_r_Inr_iff upsert_oauth split: if_splits)
  moreover have "ea_id x = os_app rec" using x by (auto simp: get_external_app_by_id_def find_Some_iff)
  ultimately show ?thesis using that user run db' by auto
qed


section \<open>An example\<close>

definition example_tokens :: token_env where
  "example_tokens = \<lparr>te_post = (\<lambda>url form. Some (200, Some (PDict [(''access_token'', PStr ''new''), (''expires_in'', PInt 3600)]))),
     te_isoformat = int_str,
     te_fromisoformat = (\<lambda>s. case py_int s of Inr t \<Rightarrow> Some (Aware t) | Inl e \<Rightarrow> None)\<rparr>"

definition linear_app :: external_app where
  "linear_app = example_app\<lparr>ea_type := LINEAR, ea_org_credentials := [(''client_id'', PStr ''id''), (''client_secret'', PStr ''secret'')]\<rparr>"

definition stale_token :: "(string, pyval) dict" where
  "stale_token = [(''access_token'', PStr ''old''), (''refresh_token'', PStr ''r''), (''expires_at'', PStr ''0'')]"

definition connected :: tenant_data where
  "connected = \<lparr>ts_db = \<lparr>t_external = \<lparr>t_apps = [linear_app], t_app_policies = [],
       t_app_user_creds = [\<lparr>auc_app = 3, auc_user = 7, auc_credentials = stale_token\<rparr>], t_other_slugs = []\<rparr>,
     t_sessions = [], t_approvals = [], t_runs = [], t_pre_approved = [], t_sandboxes = []\<rparr>, ts_cache = []\<rparr>"

definition refresh_alone :: refresh_run where
  "refresh_alone = \<lparr>rr_others = (\<lambda>_ s. s), rr_down = (\<lambda>_. False), rr_now = (\<lambda>_. second), rr_lock = LockAcquired, rr_release_fails = False\<rparr>"

text \<open>The user connects the app again while the refresh is at the provider.\<close>

definition refresh_with_reconnection :: refresh_run where
  "refresh_with_reconnection = refresh_alone\<lparr>rr_others := (\<lambda>k. if k = 1 then on_apps (store_user_credential 3 7 [(''access_token'', PStr ''reconnected'')]) else id)\<rparr>"

lemma example_dates: "te_fromisoformat example_tokens (te_isoformat example_tokens t) = Some (Aware t)"
  by (simp add: example_tokens_def)

lemma stamped_token_expires_on_time_witness:
  "stamp_expires_at example_tokens 0 [(''expires_in'', PInt (10 ^ 12))] = Inl OverflowError
   \<and> (\<exists>c. stamp_expires_at example_tokens 0 [(''expires_in'', PInt 3600)] = Inr c
        \<and> \<not> needs_refresh example_tokens (3479 * second) c \<and> needs_refresh example_tokens (3480 * second) c)"
proof -
  have dates: "min_date \<le> 0" "0 \<le> max_date" by (simp_all add: min_date_def max_date_def second_def)
  have "stamp_expires_at example_tokens 0 [(''expires_in'', PInt (10 ^ 12))] = Inl OverflowError"
    using stamped_token_expires_on_time [of example_tokens "[(''expires_in'', PInt (10 ^ 12))]" "10 ^ 12" 0] dates example_dates
    by (simp add: min_date_def max_date_def second_def)
  moreover obtain c where c: "stamp_expires_at example_tokens 0 [(''expires_in'', PInt 3600)] = Inr c"
    by (simp add: stamp_expires_at_def py_int_of_def timedelta_seconds_def add_date_def min_date_def max_date_def second_def)
  moreover have "needs_refresh example_tokens t c \<longleftrightarrow> 3480 * second \<le> t" for t
    using stamped_token_expires_on_time [of example_tokens "[(''expires_in'', PInt 3600)]" 3600 0] dates example_dates c
    by (simp add: default_refresh_skew_seconds_def second_def)
  ultimately show ?thesis by (simp add: second_def)
qed

lemma linear_provider: "dict_get providers LINEAR = Some linear_spec" "ps_app_type linear_spec = LINEAR"
  by (simp_all add: providers_def provider_specs_def slack_spec_def google_calendar_spec_def google_drive_spec_def
      gmail_spec_def linear_spec_def github_spec_def hubspot_spec_def build_google_spec_def)

lemma stale_token_stale: "needs_refresh example_tokens second stale_token" "stored_for connected 3 7 = Some stale_token"
  by (code_simp, simp add: stored_for_def read_stored_credentials_def get_external_app_user_credential_def connected_def)

lemma example_inputs: "load_refresh_inputs example_tokens second (t_external (ts_db connected)) 3 7
    = Some (linear_spec, stale_token, PStr ''id'', PStr ''secret'')"
  using stale_token_stale
  by (simp add: load_refresh_inputs_def stored_for_def get_external_app_by_id_def connected_def linear_app_def example_app_def
      linear_provider client_credentials_def get_or_none_def Let_def)

definition renewed_token :: "(string, pyval) dict" where
  "renewed_token = dict_update stale_token [(''access_token'', PStr ''new''), (''scope'', PNone), (''token_type'', PNone), (''expires_in'', PInt 3600)]"

lemma example_refreshed: "refresh_credentials example_tokens linear_spec stale_token (PStr ''id'') (PStr ''secret'') = Refreshed renewed_token"
  by (simp add: refresh_credentials_def linear_provider example_tokens_def stale_token_def get_or_none_def classify_token_response_def
      token_response_error_def extract_credentials_def extract_linear_def extract_plain_def get_key_def copy_truthy_def
      renewed_token_def Let_def)

lemma example_stamped: "stamp_expires_at example_tokens second renewed_token
    = Inr (dict_set ''expires_at'' (PStr (int_str (3601 * second))) renewed_token)"
  by (simp add: stamp_expires_at_def renewed_token_def stale_token_def py_int_of_def timedelta_seconds_def add_date_def
      min_date_def max_date_def second_def example_tokens_def)

lemmas refresh_run_simps = refresh_alone_def refresh_with_reconnection_def

lemma linear_known: "get_external_app_by_id (t_external (ts_db connected)) 3 = Some linear_app"
  by (simp add: get_external_app_by_id_def connected_def linear_app_def example_app_def)


lemma reconnection_during_refresh_is_lost_witness:
  "stored_for (rr_others refresh_with_reconnection 1 connected) 3 7 = Some [(''access_token'', PStr ''reconnected'')]
   \<and> (\<exists>c st'. ensure_fresh_credentials example_tokens refresh_with_reconnection 3 7 connected = (Inr (), st')
        \<and> stored_for st' 3 7 = Some c \<and> dict_get c ''refresh_token'' = Some (PStr ''r''))"
proof -
  let ?run = refresh_with_reconnection
  have up: "\<not> rr_down ?run 0" "\<not> rr_down ?run 1" "\<not> rr_down ?run 2" "rr_lock ?run = LockAcquired" "\<not> rr_release_fails ?run"
      "rr_others ?run 0 connected = connected" "rr_now ?run k = second" for k
    by (simp_all add: refresh_run_simps)
  have reconnected: "stored_for (rr_others ?run 1 connected) 3 7 = Some [(''access_token'', PStr ''reconnected'')]"
    by (simp add: refresh_run_simps)
  have known: "get_external_app_by_id (t_external (ts_db (rr_others ?run (Suc 0) connected))) 3 = Some linear_app"
    using linear_known by (simp add: refresh_run_simps on_apps_def get_external_app_by_id_def store_user_credential_def)
  obtain st' where run: "ensure_fresh_credentials example_tokens ?run 3 7 connected = (Inr (), st')"
    using stale_token_stale up
    by (simp add: ensure_fresh_credentials_def stored_for_def refresh_under_lock_def persist_refreshed_def upsert_oauth
        example_inputs example_refreshed example_stamped known swallow_def Let_def)
  obtain c where c: "stamp_expires_at example_tokens second renewed_token = Inr c" "stored_for st' 3 7 = Some c"
    using reconnection_during_refresh_is_lost [OF run up(1-5) stale_token_stale(2)] stale_token_stale(1) example_inputs
      example_refreshed up(6,7) by auto
  moreover have "dict_get c ''refresh_token'' = Some (PStr ''r'')"
    using stamped [OF c(1), of 3600] by (simp add: renewed_token_def stale_token_def)
  ultimately show ?thesis using run reconnected by blast
qed


end
