(* ===== verification/EgressGate.thy ===== *)
theory EgressGate
  imports ApprovalHistory AppTokens
begin

text \<open>
  The gate every outbound request of a sandbox passes (\<open>onyx/sandbox_proxy/addons/gate.py\<close>), with the
  identity behind a source address (\<open>identity.py\<close>) and the injection of credentials
  (\<open>credential_injection.py\<close>, \<open>resolvers/\<close>).  The state is the proxy's own memory and the tables and
  cache of the tenant the sandbox belongs to; the rest of the program acts at every await.  Logging,
  notifications and metrics are left out.
\<close>

section \<open>Destinations\<close>

text \<open>\<open>ipaddress\<close>: dotted IPv4 addresses are modelled; of every other text an argument says whether it is
  an IPv6 address, which IPv4 address it embeds and whether it is global.\<close>

datatype ip_address = IPv4 "32 word" | IPv6 "32 word option" bool

definition octet :: "string \<Rightarrow> int result" where
  "octet s = (if s = [] \<or> list_ex (\<lambda>c. dec_value c = None) s \<or> 3 < length s \<or> (s \<noteq> ''0'' \<and> hd s = CHR ''0'') then Inl ValueError
     else bind_r (py_int s) (\<lambda>i. if 255 < i then Inl ValueError else Inr i))"

definition ipv4_address :: "string \<Rightarrow> 32 word result" where
  "ipv4_address s = (let octets = split_on (CHR ''.'') s in
     if length octets \<noteq> 4 then Inl ValueError
     else bind_r (map_r octet octets) (\<lambda>xs. Inr (word_of_int (foldl (\<lambda>a x. a * 256 + x) 0 xs))))"

definition in_network :: "32 word \<Rightarrow> nat \<Rightarrow> 32 word \<Rightarrow> bool" where
  "in_network net len a \<longleftrightarrow> drop_bit (32 - len) a = drop_bit (32 - len) net"

definition private_networks :: "(32 word \<times> nat) list" where
  "private_networks = [(0x00000000, 8), (0x0A000000, 8), (0x7F000000, 8), (0xA9FE0000, 16), (0xAC100000, 12),
     (0xC0000000, 24), (0xC00000AA, 31), (0xC0000200, 24), (0xC0A80000, 16), (0xC6120000, 15), (0xC6336400, 24),
     (0xCB007100, 24), (0xF0000000, 4), (0xFFFFFFFF, 32)]"

definition private_exceptions :: "(32 word \<times> nat) list" where
  "private_exceptions = [(0xC0000009, 32), (0xC000000A, 32)]"

definition ipv4_is_global :: "32 word \<Rightarrow> bool" where
  "ipv4_is_global a \<longleftrightarrow> \<not> in_network 0x64400000 10 a
     \<and> \<not> (list_ex (\<lambda>(n, l). in_network n l a) private_networks \<and> \<not> list_ex (\<lambda>(n, l). in_network n l a) private_exceptions)"

record gate_env =
  ge_api :: "(string \<times> int) option"
  ge_ipv6_address :: "string \<Rightarrow> ip_address option"
  ge_getaddrinfo :: "string \<Rightarrow> int \<Rightarrow> string list result"
  ge_wait_s :: int

definition ip_address_of :: "gate_env \<Rightarrow> string \<Rightarrow> ip_address result" where
  "ip_address_of ge s = (case ipv4_address s of
     Inr a \<Rightarrow> Inr (IPv4 a)
   | Inl _ \<Rightarrow> (case ge_ipv6_address ge s of Some a \<Rightarrow> Inr a | None \<Rightarrow> Inl ValueError))"

definition ip_is_internal :: "gate_env \<Rightarrow> string \<Rightarrow> bool" where
  "ip_is_internal ge ip_str = (case ip_address_of ge ip_str of
     Inl e \<Rightarrow> False
   | Inr (IPv4 a) \<Rightarrow> \<not> ipv4_is_global a
   | Inr (IPv6 (Some a) _) \<Rightarrow> \<not> ipv4_is_global a
   | Inr (IPv6 None is_global) \<Rightarrow> \<not> is_global)"

definition is_api_server :: "gate_env \<Rightarrow> string \<Rightarrow> int \<Rightarrow> bool" where
  "is_api_server ge host port \<longleftrightarrow> ge_api ge = Some (host, port)"

definition destination_is_blocked :: "gate_env \<Rightarrow> string \<Rightarrow> int \<Rightarrow> bool result" where
  "destination_is_blocked ge host port =
    (let host = lower (strip host) in
     if host = [] then Inr False
     else if is_api_server ge host port then Inr False
     else case ip_address_of ge host of
         Inr _ \<Rightarrow> Inr (ip_is_internal ge host)
       | Inl _ \<Rightarrow> (case ge_getaddrinfo ge host port of
             Inl OSError \<Rightarrow> Inr True
           | Inl e \<Rightarrow> Inl e
           | Inr infos \<Rightarrow> Inr (list_ex (ip_is_internal ge) infos)))"

section \<open>Identities\<close>

record sandbox_identity =
  si_sandbox :: uuid
  si_tenant :: string
  si_name :: string
  si_ip :: string

record resolved_sandbox =
  rs_sandbox :: uuid
  rs_user :: uuid
  rs_tenant :: string
  rs_name :: string
  rs_ip :: string

record session_context = resolved_sandbox +
  sc_session :: uuid

definition with_session :: "resolved_sandbox \<Rightarrow> uuid \<Rightarrow> session_context" where
  "with_session s session_id = resolved_sandbox.extend s (session_context.fields session_id)"

definition without_session :: "session_context \<Rightarrow> resolved_sandbox" where
  "without_session c = resolved_sandbox.truncate c"

definition resolve_sandbox :: "(string \<Rightarrow> sandbox_identity option) \<Rightarrow> build_db \<Rightarrow> string \<Rightarrow> resolved_sandbox option" where
  "resolve_sandbox ip_lookup db src_ip = (case ip_lookup src_ip of
     None \<Rightarrow> None
   | Some i \<Rightarrow> (case find (\<lambda>s. sb_id s = si_sandbox i) (t_sandboxes db) of
        None \<Rightarrow> None
      | Some s \<Rightarrow> Some \<lparr>rs_sandbox = si_sandbox i, rs_user = sb_user s, rs_tenant = si_tenant i,
            rs_name = si_name i, rs_ip = si_ip i\<rparr>))"

definition resolve_session_by_id :: "build_db \<Rightarrow> uuid \<Rightarrow> uuid \<Rightarrow> uuid option" where
  "resolve_session_by_id db session_id user_id = map_option bs_id (get_build_session db session_id user_id)"

section \<open>Flows and session tags\<close>

text \<open>The error code \<open>INTERNAL_ERROR\<close> of the proxy is \<open>SANDBOX_INTERNAL_ERROR\<close> here.\<close>

datatype sandbox_error = UNIDENTIFIED_SANDBOX | NO_ACTIVE_SESSION | BODY_TOO_LARGE | USER_REJECTED | NOT_AUTHORIZED
  | SANDBOX_INTERNAL_ERROR | POLICY_DENIED | CREDENTIAL_ERROR | DESTINATION_BLOCKED

text \<open>Header names are in lower case; \<open>None\<close> as response lets the request be forwarded.\<close>

record flow =
  fl_host :: string
  fl_port :: int
  fl_src :: "string option"
  fl_conn :: "string option"
  fl_request :: http_request
  fl_headers :: "(string, string) dict"
  fl_response :: "sandbox_error option"

text \<open>\<open>value.split(None, 1)\<close>\<close>

definition split_space :: "string \<Rightarrow> string list" where
  "split_space s = (let t = dropWhile is_space s; word = takeWhile (\<lambda>c. \<not> is_space c) t;
      rest = dropWhile is_space (dropWhile (\<lambda>c. \<not> is_space c) t)
    in if t = [] then [] else if rest = [] then [word] else [word, rest])"

text \<open>\<open>b64\<close> is the strict decoder of base64 followed by that of UTF-8.\<close>

definition parse_proxy_auth_username :: "(string \<Rightarrow> string option) \<Rightarrow> string option \<Rightarrow> string option" where
  "parse_proxy_auth_username b64 header_value =
    (if \<not> truthy header_value then None
     else (case split_space (the header_value) of
        [scheme, payload] \<Rightarrow>
          if lower scheme \<noteq> ''basic'' then None
          else (case b64 payload of
              None \<Rightarrow> None
            | Some decoded \<Rightarrow> (let username = takeWhile (\<lambda>c. c \<noteq> CHR '':'') decoded in
                if username = [] then None else Some username))
      | _ \<Rightarrow> None))"

definition proxy_authorization :: string where "proxy_authorization = ''proxy-authorization''"

type_synonym parked = "(string, uuid set) dict"

definition parked_add :: "string \<Rightarrow> uuid \<Rightarrow> parked \<Rightarrow> parked" where
  "parked_add tenant i p = dict_set tenant (insert i (case dict_get p tenant of None \<Rightarrow> {} | Some s \<Rightarrow> s)) p"

definition parked_remove :: "string \<Rightarrow> uuid \<Rightarrow> parked \<Rightarrow> parked" where
  "parked_remove tenant i p = (case dict_get p tenant of
     None \<Rightarrow> p
   | Some s \<Rightarrow> if s - {i} = {} then dict_del tenant p else dict_set tenant (s - {i}) p)"

record gate_state =
  gs_parked :: parked
  gs_tags :: "(string, string) dict"
  gs_grants :: "(uuid, (uuid \<times> int list) option \<times> int) dict"

definition http_connect :: "gate_env \<Rightarrow> (string \<Rightarrow> string option) \<Rightarrow> flow \<Rightarrow> gate_state \<Rightarrow> (flow \<times> gate_state) result" where
  "http_connect ge b64 fl gs = bind_r (destination_is_blocked ge (fl_host fl) (fl_port fl)) (\<lambda>blocked.
     if blocked then Inr (fl\<lparr>fl_response := Some DESTINATION_BLOCKED\<rparr>, gs)
     else (case (fl_conn fl, parse_proxy_auth_username b64 (dict_get (fl_headers fl) proxy_authorization)) of
         (Some c, Some tag) \<Rightarrow> Inr (fl, gs\<lparr>gs_tags := dict_set c tag (gs_tags gs)\<rparr>)
       | _ \<Rightarrow> Inr (fl, gs)))"

definition client_disconnected :: "string option \<Rightarrow> gate_state \<Rightarrow> gate_state" where
  "client_disconnected conn gs = (case conn of None \<Rightarrow> gs | Some c \<Rightarrow> gs\<lparr>gs_tags := dict_del c (gs_tags gs)\<rparr>)"

text \<open>The last check before a connection is opened; \<open>True\<close> is a kill.\<close>

definition server_connect :: "gate_env \<Rightarrow> bool \<Rightarrow> (string \<times> int) option \<Rightarrow> bool result" where
  "server_connect ge failed address = (case address of
     None \<Rightarrow> Inr failed
   | Some (host, port) \<Rightarrow> if failed then Inr True else destination_is_blocked ge host port)"

definition extract_session_tag :: "(string \<Rightarrow> string option) \<Rightarrow> flow \<Rightarrow> gate_state \<Rightarrow> string option" where
  "extract_session_tag b64 fl gs = py_or (if truthy (fl_conn fl) then dict_get (gs_tags gs) (the (fl_conn fl)) else None)
     (parse_proxy_auth_username b64 (dict_get (fl_headers fl) proxy_authorization))"

definition resolve_gated_session :: "(string \<Rightarrow> string option) \<Rightarrow> flow \<Rightarrow> gate_state \<Rightarrow> resolved_sandbox \<Rightarrow> build_db \<Rightarrow> uuid option" where
  "resolve_gated_session b64 fl gs sandbox db = (case extract_session_tag b64 fl gs of
     None \<Rightarrow> None
   | Some tag \<Rightarrow> (case uuid_of_str tag of
        Inl e \<Rightarrow> None
      | Inr tagged_id \<Rightarrow> resolve_session_by_id db tagged_id (rs_user sandbox)))"

section \<open>Credential injection\<close>

record injection_context =
  ic_sandbox :: resolved_sandbox
  ic_matched :: "all_matched option"

datatype injection_outcome = PASS_THROUGH | CLAIMED | INJECTED | BLOCKED

text \<open>A resolver claims a request and renders its headers; rendering may refresh a token first.\<close>

record resolver =
  rv_claims :: "flow \<Rightarrow> injection_context \<Rightarrow> bool result"
  rv_resolve :: "flow \<Rightarrow> injection_context \<Rightarrow> tenant_data \<Rightarrow> (string, string) dict result \<times> tenant_data"

fun pick :: "resolver list \<Rightarrow> flow \<Rightarrow> injection_context \<Rightarrow> resolver option" where
  "pick [] fl ctx = None"
| "pick (r # rs) fl ctx = (if rv_claims r fl ctx = Inr True then Some r else pick rs fl ctx)"

definition apply_injection :: "resolver list \<Rightarrow> flow \<Rightarrow> injection_context \<Rightarrow> tenant_data \<Rightarrow> injection_outcome \<times> flow \<times> tenant_data" where
  "apply_injection resolvers fl ctx st = (case pick resolvers fl ctx of
     None \<Rightarrow> (PASS_THROUGH, fl, st)
   | Some r \<Rightarrow> (case rv_resolve r fl ctx st of
        (Inl e, st') \<Rightarrow> (BLOCKED, fl, st')
      | (Inr headers, st') \<Rightarrow>
          if headers = [] then (CLAIMED, fl, st')
          else (INJECTED, fl\<lparr>fl_headers := fold (\<lambda>(n, v). dict_set (lower n) v) headers (fl_headers fl)\<rparr>, st')))"

definition dispatch_injection_or_block :: "resolver list \<Rightarrow> flow \<Rightarrow> resolved_sandbox \<Rightarrow> all_matched option \<Rightarrow> tenant_data \<Rightarrow> injection_outcome \<times> flow \<times> tenant_data" where
  "dispatch_injection_or_block resolvers fl sandbox matched st =
    (let (outcome, fl', st') = apply_injection resolvers fl \<lparr>ic_sandbox = sandbox, ic_matched = matched\<rparr> st in
     (outcome, if outcome = BLOCKED then fl'\<lparr>fl_response := Some CREDENTIAL_ERROR\<rparr> else fl', st'))"

definition bearer_prefix :: string where "bearer_prefix = ''Bearer ''"
definition api_key_header_name :: string where "api_key_header_name = ''Authorization''"
definition api_key_header_alternative_name :: string where "api_key_header_alternative_name = ''X-Onyx-Authorization''"

text \<open>The personal access token of the sandbox, decrypted by an argument.\<close>

definition onyx_pat_resolver :: "(string \<times> int) option \<Rightarrow> (string \<Rightarrow> string result) \<Rightarrow> resolver" where
  "onyx_pat_resolver api decrypt = \<lparr>rv_claims = (\<lambda>fl ctx. Inr (api = Some (lower (fl_host fl), fl_port fl))),
     rv_resolve = (\<lambda>fl ctx st. (case find (\<lambda>s. sb_id s = rs_sandbox (ic_sandbox ctx)) (t_sandboxes (ts_db st)) of
         None \<Rightarrow> Inl CredentialUnavailableError
       | Some s \<Rightarrow> (case sb_pat s of
            None \<Rightarrow> Inl CredentialUnavailableError
          | Some blob \<Rightarrow> (case decrypt blob of
               Inl e \<Rightarrow> Inl CredentialUnavailableError
             | Inr raw \<Rightarrow> Inr [(api_key_header_name, bearer_prefix @ raw),
                  (api_key_header_alternative_name, bearer_prefix @ raw)])), st))\<rparr>"

definition host_to_provider :: "(string, string \<times> string \<times> string) dict" where
  "host_to_provider = [(''api.openai.com'', (''openai'', api_key_header_name, bearer_prefix)),
     (''api.anthropic.com'', (''anthropic'', ''x-api-key'', '''')),
     (''openrouter.ai'', (''openrouter'', api_key_header_name, bearer_prefix))]"

text \<open>The providers a user may use, with their keys, are an argument; \<open>None\<close> is an unknown user.\<close>

definition llm_provider_key_resolver :: "(uuid \<Rightarrow> (string \<times> string option) list option) \<Rightarrow> resolver" where
  "llm_provider_key_resolver accessible = \<lparr>rv_claims = (\<lambda>fl ctx. Inr (dict_get host_to_provider (lower (fl_host fl)) \<noteq> None)),
     rv_resolve = (\<lambda>fl ctx st. (case dict_get host_to_provider (lower (fl_host fl)) of
         None \<Rightarrow> Inl KeyError
       | Some (provider_type, header, pre) \<Rightarrow> (case accessible (rs_user (ic_sandbox ctx)) of
            None \<Rightarrow> Inl CredentialUnavailableError
          | Some ps \<Rightarrow> (case find (\<lambda>(t, _). t = provider_type) ps of
               None \<Rightarrow> Inl CredentialUnavailableError
             | Some (_, api_key) \<Rightarrow> if \<not> truthy api_key then Inl CredentialUnavailableError
                 else Inr [(header, pre @ the api_key)])), st))\<rparr>"

text \<open>The token is refreshed first; whatever that does, the headers are rendered from the tables.\<close>

definition external_app_resolver :: "token_env \<Rightarrow> refresh_run \<Rightarrow> formatter \<Rightarrow> resolver" where
  "external_app_resolver te run fmt = \<lparr>rv_claims = (\<lambda>fl ctx. Inr (ic_matched ctx \<noteq> None)),
     rv_resolve = (\<lambda>fl ctx st. case ic_matched ctx of
         None \<Rightarrow> (Inl CredentialUnavailableError, st)
       | Some m \<Rightarrow>
          (case ensure_fresh_credentials te run (am_app_id m) (rs_user (ic_sandbox ctx)) st of
             (Inl e, st1) \<Rightarrow> (Inl e, st1)
           | (Inr _, st1) \<Rightarrow> let st2 = rr_others run 2 st1 in
               (resolve_injection_headers fmt (t_external (ts_db st2)) (am_app_id m) (rs_user (ic_sandbox ctx)), st2)))\<rparr>"

definition build_resolvers where
  "build_resolvers api decrypt accessible te run fmt =
     [onyx_pat_resolver api decrypt, llm_provider_key_resolver accessible, external_app_resolver te run fmt]"

section \<open>Grants\<close>

definition grant_cache_ttl_s :: int where "grant_cache_ttl_s = 60"
definition grant_cache_max_entries :: nat where "grant_cache_max_entries = 4096"

text \<open>\<open>cachetools.TTLCache\<close>: storing drops expired entries and, when full, the one stored first.\<close>

definition ttl_cache_get :: "int \<Rightarrow> 'k \<Rightarrow> ('k, 'v \<times> int) dict \<Rightarrow> 'v option" where
  "ttl_cache_get now k c = (case dict_get c k of
     Some (v, t) \<Rightarrow> if now < t + grant_cache_ttl_s * second then Some v else None
   | None \<Rightarrow> None)"

definition ttl_cache_set :: "int \<Rightarrow> 'k \<Rightarrow> 'v \<Rightarrow> ('k, 'v \<times> int) dict \<Rightarrow> ('k, 'v \<times> int) dict" where
  "ttl_cache_set now k v c =
    (let live = dict_del k (filter (\<lambda>(_, _, t). now < t + grant_cache_ttl_s * second) c)
     in (if grant_cache_max_entries \<le> length live then tl live else live) @ [(k, (v, now))])"

definition live_grants :: "int \<Rightarrow> build_db \<Rightarrow> uuid \<Rightarrow> gate_state \<Rightarrow> (uuid \<times> int list) option \<times> gate_state" where
  "live_grants now db session_id gs = (case ttl_cache_get now session_id (gs_grants gs) of
     Some v \<Rightarrow> (v, gs)
   | None \<Rightarrow> let fresh = get_live_scheduled_run_grants db session_id in
       (fresh, gs\<lparr>gs_grants := ttl_cache_set now session_id fresh (gs_grants gs)\<rparr>))"

definition scheduled_task_grant :: "int \<Rightarrow> build_db \<Rightarrow> session_context \<Rightarrow> all_matched \<Rightarrow> gate_state \<Rightarrow> decided_via option \<times> gate_state" where
  "scheduled_task_grant now db ctx m gs = (case live_grants now db (sc_session ctx) gs of
     (None, gs') \<Rightarrow> (None, gs')
   | (Some (run_id, app_ids), gs') \<Rightarrow> (if am_app_id m \<in> set app_ids then Some PRE_APPROVAL else None, gs'))"

text \<open>How the cache behaves during a check: it answers, fails (after renewing some keys), or cannot be had;
  and how far the writing of found grants gets.\<close>

datatype cache_check = Answers | FailsAfter nat | NoCache

definition session_grant ::
  "int \<Rightarrow> cache_check \<Rightarrow> (nat \<times> nat) option \<Rightarrow> session_context \<Rightarrow> all_matched \<Rightarrow> tenant_data \<Rightarrow> decided_via option \<times> tenant_data" where
  "session_grant now check fault ctx m st =
    (let types = actions_requiring_approval (map Live (am_actions m));
         s = sc_session ctx; a = am_app_id m;
         (hit, c) = (case check of
             Answers \<Rightarrow> cached_session_grants_cover postgres_backend now s a types (ts_cache st)
           | FailsAfter n \<Rightarrow> (False, let keys = map (session_grant_key s a) types in
                 if list_ex (\<lambda>k. pg_get now k (ts_cache st) = None) keys then ts_cache st
                 else fold (\<lambda>k. pg_expire now k session_grant_ttl_s) (take n keys) (ts_cache st))
           | NoCache \<Rightarrow> (False, ts_cache st));
         st1 = st\<lparr>ts_cache := c\<rparr>
     in if types = [] then (None, st)
        else if hit then (Some SESSION_GRANT, st1)
        else let rows = list_session_grant_action_approvals (ts_db st1) s a in
          if \<not> set types \<subseteq> (\<Union>r \<in> set rows. set (ask_types r)) then (None, st1)
          else (Some SESSION_GRANT,
                if check = NoCache then st1 else st1\<lparr>ts_cache := cache_grants now fault s a rows c\<rparr>))"

definition resolve_approval_grant where
  "resolve_approval_grant now check fault ctx m gs st = (case scheduled_task_grant now (ts_db st) ctx m gs of
     (Some via, gs') \<Rightarrow> (Some via, gs', st)
   | (None, gs') \<Rightarrow> (let (g, st') = session_grant now check fault ctx m st in (g, gs', st')))"

section \<open>Recognising a request\<close>

definition parser_max_body_bytes :: nat where "parser_max_body_bytes = 32 * 1024 * 1024"

record proxy_env = gate_env +
  pe_lookup :: "string \<Rightarrow> sandbox_identity option"
  pe_readers :: gate_readers
  pe_resolvers :: "resolver list"
  pe_b64 :: "string \<Rightarrow> string option"

text \<open>
  What a run of the hook meets: the rest of the program between its steps, databases that are down, the
  clock, fresh identifiers, the faults of the cache, and the wait: its start, its turns (clock of the
  deadline check, start and scans of a blocking pop, what happens before the next turn) and how it ends
  when no turn ends it, and whether the client goes away while grants are looked up a second time.
\<close>

datatype wait_end = StillWaiting | ClientGone | CacheRaises

type_synonym scan = "int \<times> int \<times> (tenant_data \<Rightarrow> tenant_data)"
type_synonym turn = "int \<times> int \<times> scan list \<times> (tenant_data \<Rightarrow> tenant_data)"

record gate_run =
  gr_others :: others
  gr_down :: "nat \<Rightarrow> bool"
  gr_now :: "nat \<Rightarrow> int"
  gr_id :: "nat \<Rightarrow> uuid"
  gr_stamp :: "nat \<Rightarrow> push_stamp"
  gr_check :: "nat \<Rightarrow> cache_check"
  gr_fault :: "nat \<Rightarrow> (nat \<times> nat) option"
  gr_start :: int
  gr_turns :: "turn list"
  gr_wait_end :: wait_end
  gr_gone_at_recheck :: bool

definition refuse :: "sandbox_error \<Rightarrow> flow \<Rightarrow> flow" where
  "refuse e fl = fl\<lparr>fl_response := Some e\<rparr>"

definition identify :: "proxy_env \<Rightarrow> gate_run \<Rightarrow> flow \<Rightarrow> tenant_data \<Rightarrow> resolved_sandbox option" where
  "identify pe run fl st = (case fl_src fl of
     None \<Rightarrow> None
   | Some ip \<Rightarrow> if gr_down run 0 then None else resolve_sandbox (pe_lookup pe) (ts_db st) ip)"

text \<open>A crash of the evaluator counts as a request of no known app.\<close>

definition match_request :: "proxy_env \<Rightarrow> gate_run \<Rightarrow> flow \<Rightarrow> resolved_sandbox \<Rightarrow> tenant_data \<Rightarrow> all_matched option" where
  "match_request pe run fl sandbox st =
    (if gr_down run 1 then None
     else case evaluate (pe_readers pe) (t_external (ts_db st)) (fl_request fl) (rs_user sandbox) of
        Inl e \<Rightarrow> None
      | Inr m \<Rightarrow> m)"

definition oversize :: "http_request \<Rightarrow> bool" where
  "oversize rq \<longleftrightarrow> (case hr_body rq of None \<Rightarrow> True | Some b \<Rightarrow> parser_max_body_bytes < length b)"

definition resolve_and_match ::
  "proxy_env \<Rightarrow> gate_run \<Rightarrow> flow \<Rightarrow> gate_state \<Rightarrow> tenant_data
    \<Rightarrow> flow \<times> (session_context \<times> all_matched) option \<times> tenant_data" where
  "resolve_and_match pe run fl gs st = (case identify pe run fl st of
     None \<Rightarrow> (refuse UNIDENTIFIED_SANDBOX fl, None, st)
   | Some sandbox \<Rightarrow>
      if oversize (fl_request fl) then (refuse BODY_TOO_LARGE fl, None, st)
      else let st1 = gr_others run 1 st in
        case match_request pe run fl sandbox st1 of
          None \<Rightarrow> (let (_, fl', st') = dispatch_injection_or_block (pe_resolvers pe) fl sandbox None st1 in (fl', None, st'))
        | Some m \<Rightarrow>
           (case ma_policy (governing_action m) of
              DENY \<Rightarrow> (refuse POLICY_DENIED fl, None, st1)
            | ALWAYS \<Rightarrow> (let (_, fl', st') = dispatch_injection_or_block (pe_resolvers pe) fl sandbox (Some m)
                    (gr_others run 2 st1) in (fl', None, st'))
            | ASK \<Rightarrow> let st2 = gr_others run 2 st1 in
                (case (if gr_down run 2 then None else resolve_gated_session (pe_b64 pe) fl gs sandbox (ts_db st2)) of
                   None \<Rightarrow> (refuse NO_ACTIVE_SESSION fl, None, st2)
                 | Some session_id \<Rightarrow> (fl, Some (with_session sandbox session_id, m), st2))))"

section \<open>Approval\<close>

definition matched_dump :: "all_matched \<Rightarrow> pyval list" where
  "matched_dump m = map action_dump (am_actions m)"

text \<open>A grant found is recorded: a new row decided at once, or the pending row; any failure means no grant.\<close>

definition apply_approval_grant ::
  "gate_run \<Rightarrow> nat \<Rightarrow> session_context \<Rightarrow> all_matched \<Rightarrow> uuid option \<Rightarrow> gate_state \<Rightarrow> tenant_data
    \<Rightarrow> uuid option \<times> gate_state \<times> tenant_data" where
  "apply_approval_grant run k ctx m approval_id gs st =
    (if gr_down run k then (None, gs, st)
     else case resolve_approval_grant (gr_now run k) (gr_check run k) (gr_fault run k) ctx m gs st of
       (None, gs', st') \<Rightarrow> (None, gs', st')
     | (Some via, gs', st') \<Rightarrow>
        (let st1 = gr_others run k st' in
         case approval_id of
           None \<Rightarrow>
            (case insert_action_approval (gr_now run k) (gr_id run k) (sc_session ctx) (matched_dump m) (am_app_name m)
                (am_payload m) (Some (am_app_id m)) (Some APPROVED) (Some via) (ts_db st1) of
               Inl e \<Rightarrow> (None, gs', st1)
             | Inr (row, db) \<Rightarrow> (Some (ar_id row), gs', st1\<lparr>ts_db := db\<rparr>))
         | Some i \<Rightarrow>
            (case try_record_decision (gr_now run k) i APPROVED (Some via) (ts_db st1) of
               (None, _) \<Rightarrow> (None, gs', st1)
             | (Some _, db) \<Rightarrow> (Some i, gs', st1\<lparr>ts_db := db\<rparr>))))"

definition announce_best_effort :: "push_stamp \<Rightarrow> uuid \<Rightarrow> uuid \<Rightarrow> tenant_data \<Rightarrow> tenant_data" where
  "announce_best_effort p approval_id session_id st = (case ps_fault p of
     NotPushed \<Rightarrow> st
   | NotExpired \<Rightarrow> st\<lparr>ts_cache := pg_rpush (ps_now p) (ps_time_ns p) (ps_nonce p) (announce_key session_id)
         (uuid_str approval_id) (ts_cache st)\<rparr>
   | Pushed \<Rightarrow> st\<lparr>ts_cache := announce_approval (ps_now p) (ps_time_ns p) (ps_nonce p) approval_id session_id (ts_cache st)\<rparr>)"

definition persist_approval_row ::
  "gate_run \<Rightarrow> session_context \<Rightarrow> all_matched \<Rightarrow> gate_state \<Rightarrow> tenant_data \<Rightarrow> (uuid \<times> gate_state \<times> tenant_data) result" where
  "persist_approval_row run ctx m gs st =
    (if gr_down run 4 then Inl RuntimeError
     else bind_r (insert_action_approval (gr_now run 4) (gr_id run 4) (sc_session ctx) (matched_dump m) (am_app_name m)
         (am_payload m) (Some (am_app_id m)) None None (ts_db st))
       (\<lambda>(row, db). Inr (ar_id row, gs\<lparr>gs_parked := parked_add (rs_tenant ctx) (ar_id row) (gs_parked gs)\<rparr>,
           announce_best_effort (gr_stamp run 4) (ar_id row) (sc_session ctx) (gr_others run 4 (st\<lparr>ts_db := db\<rparr>)))))"

text \<open>The winner is read in the transaction of the refused update.\<close>

definition claim_expired_or_read_winner :: "int \<Rightarrow> uuid \<Rightarrow> tenant_data \<Rightarrow> approval_decision \<times> tenant_data" where
  "claim_expired_or_read_winner now i st = (case try_record_decision now i EXPIRED None (ts_db st) of
     (Some _, db) \<Rightarrow> (EXPIRED, st\<lparr>ts_db := db\<rparr>)
   | (None, _) \<Rightarrow> (case get_action_approval (ts_db st) i of
        None \<Rightarrow> (EXPIRED, st)
      | Some r \<Rightarrow> (case ar_decision r of None \<Rightarrow> (EXPIRED, st) | Some d \<Rightarrow> (d, st))))"

fun scan_wake :: "int \<Rightarrow> uuid \<Rightarrow> scan list \<Rightarrow> tenant_data \<Rightarrow> tenant_data \<times> string option option" where
  "scan_wake deadline i [] st = (st, None)"
| "scan_wake deadline i ((now, clock, others) # scans) st = (case pg_scan now [wake_key i] (ts_cache st) of
     Some ((_, v), c) \<Rightarrow> (st\<lparr>ts_cache := c\<rparr>, Some (Some v))
   | None \<Rightarrow> if deadline \<le> clock then (st, Some None) else scan_wake deadline i scans (others st))"

fun park :: "int \<Rightarrow> uuid \<Rightarrow> turn list \<Rightarrow> tenant_data \<Rightarrow> tenant_data \<times> approval_decision option option" where
  "park deadline i [] st = (st, None)"
| "park deadline i ((clock, start, scans, others) # turns) st =
    (if deadline - clock \<le> 0 then (st, Some None)
     else case scan_wake (start + second) i scans st of
        (st', None) \<Rightarrow> (st', None)
      | (st', Some None) \<Rightarrow> park deadline i turns (others st')
      | (st', Some (Some v)) \<Rightarrow>
          (others st', Some (case parse_decision v of Inl e \<Rightarrow> None | Inr d \<Rightarrow> Some d)))"

text \<open>How the wait for a decision ends.\<close>

datatype wait_result = Decided approval_decision | Raised | Cancelled | Waiting

definition await_decision :: "int \<Rightarrow> gate_run \<Rightarrow> uuid \<Rightarrow> tenant_data \<Rightarrow> wait_result \<times> tenant_data" where
  "await_decision wait_s run i st =
    (let (st1, r) = (if wait_s \<le> 0 then (st, Some None) else park (gr_start run + wait_s * second) i (gr_turns run) st);
         claim = (if gr_down run 6 then (Raised, st1)
                  else (let (d, st2) = claim_expired_or_read_winner (gr_now run 6) i st1 in (Decided d, st2)))
     in case r of
        Some (Some d) \<Rightarrow> (Decided d, st1)
      | Some None \<Rightarrow> claim
      | None \<Rightarrow> (case gr_wait_end run of
            StillWaiting \<Rightarrow> (Waiting, st1)
          | CacheRaises \<Rightarrow> (Raised, st1)
          | ClientGone \<Rightarrow> (if gr_down run 6 then Raised else Cancelled, snd claim)))"

definition terminalize_after_unhandled_error :: "gate_run \<Rightarrow> uuid \<Rightarrow> tenant_data \<Rightarrow> tenant_data" where
  "terminalize_after_unhandled_error run i st =
    (if gr_down run 9 then st
     else let (d, st') = claim_expired_or_read_winner (gr_now run 9) i st in send_wake_best_effort (gr_stamp run 9) i d st')"

section \<open>The hook\<close>

datatype hook_end = Returned | HookRaised exn | HookCancelled | HookWaiting

definition dispatch_approved_request ::
  "proxy_env \<Rightarrow> session_context \<Rightarrow> all_matched \<Rightarrow> flow \<Rightarrow> tenant_data \<Rightarrow> flow \<times> tenant_data" where
  "dispatch_approved_request pe ctx m fl st = snd (dispatch_injection_or_block (pe_resolvers pe) fl (without_session ctx) (Some m) st)"

definition write_response_for_decision :: "approval_decision \<Rightarrow> flow \<Rightarrow> flow" where
  "write_response_for_decision d fl = (case d of
     APPROVED \<Rightarrow> fl | REJECTED \<Rightarrow> refuse USER_REJECTED fl | EXPIRED \<Rightarrow> refuse NOT_AUTHORIZED fl)"

definition unpark :: "session_context \<Rightarrow> uuid \<Rightarrow> gate_state \<Rightarrow> gate_state" where
  "unpark ctx i gs = gs\<lparr>gs_parked := parked_remove (rs_tenant ctx) i (gs_parked gs)\<rparr>"

definition ask_user ::
  "proxy_env \<Rightarrow> gate_run \<Rightarrow> session_context \<Rightarrow> all_matched \<Rightarrow> flow \<Rightarrow> gate_state \<Rightarrow> tenant_data
    \<Rightarrow> hook_end \<times> flow \<times> gate_state \<times> tenant_data" where
  "ask_user pe run ctx m fl gs st = (case persist_approval_row run ctx m gs st of
     Inl e \<Rightarrow> (Returned, refuse SANDBOX_INTERNAL_ERROR fl, gs, st)
   | Inr (i, gs1, st1) \<Rightarrow>
      (case apply_approval_grant run 5 ctx m (Some i) gs1 st1 of (granted, gs2, st2) \<Rightarrow>
        if gr_gone_at_recheck run then (HookCancelled, fl, gs2, st2)
        else if granted \<noteq> None then
          (let (fl', st3) = dispatch_approved_request pe ctx m fl (gr_others run 7 st2) in (Returned, fl', unpark ctx i gs2, st3))
        else (case await_decision (ge_wait_s pe) run i (gr_others run 8 st2) of
            (Decided d, st3) \<Rightarrow>
              (let fl1 = write_response_for_decision d fl in
               if d = APPROVED then
                 (let (fl', st4) = dispatch_approved_request pe ctx m fl1 (gr_others run 7 st3) in (Returned, fl', unpark ctx i gs2, st4))
               else (Returned, fl1, unpark ctx i gs2, st3))
          | (Raised, st3) \<Rightarrow> (Returned, refuse SANDBOX_INTERNAL_ERROR fl, unpark ctx i gs2, terminalize_after_unhandled_error run i st3)
          | (Cancelled, st3) \<Rightarrow> (HookCancelled, fl, unpark ctx i gs2, st3)
          | (Waiting, st3) \<Rightarrow> (HookWaiting, fl, gs2, st3))))"

definition gated_request ::
  "proxy_env \<Rightarrow> gate_run \<Rightarrow> session_context \<Rightarrow> all_matched \<Rightarrow> flow \<Rightarrow> gate_state \<Rightarrow> tenant_data
    \<Rightarrow> hook_end \<times> flow \<times> gate_state \<times> tenant_data" where
  "gated_request pe run ctx m fl gs st = (case apply_approval_grant run 3 ctx m None gs st of
     (Some i, gs1, st1) \<Rightarrow>
       (let (fl', st2) = dispatch_approved_request pe ctx m fl (gr_others run 7 st1) in (Returned, fl', gs1, st2))
   | (None, gs1, st1) \<Rightarrow> ask_user pe run ctx m fl gs1 (gr_others run 10 st1))"

definition request ::
  "proxy_env \<Rightarrow> gate_run \<Rightarrow> flow \<Rightarrow> gate_state \<Rightarrow> tenant_data \<Rightarrow> hook_end \<times> flow \<times> gate_state \<times> tenant_data" where
  "request pe run fl gs st = (case destination_is_blocked (gate_env.truncate pe) (fl_host fl) (fl_port fl) of
     Inl e \<Rightarrow> (HookRaised e, fl, gs, st)
   | Inr True \<Rightarrow> (Returned, refuse DESTINATION_BLOCKED fl, gs, st)
   | Inr False \<Rightarrow>
      (case resolve_and_match pe run fl gs (gr_others run 0 st) of (fl1, target, st1) \<Rightarrow>
        let fl2 = fl1\<lparr>fl_headers := dict_del proxy_authorization (fl_headers fl1)\<rparr> in
        (case target of
           None \<Rightarrow> (Returned, fl2, gs, st1)
         | Some (ctx, m) \<Rightarrow> gated_request pe run ctx m fl2 gs (gr_others run 11 st1))))"

text \<open>Terminating the proxy: every parked approval is decided and its waiter woken.\<close>

fun drain_approvals :: "(nat \<Rightarrow> bool) \<Rightarrow> (nat \<Rightarrow> int) \<Rightarrow> (nat \<Rightarrow> push_stamp) \<Rightarrow> (nat \<times> uuid) list \<Rightarrow> tenant_data \<Rightarrow> tenant_data" where
  "drain_approvals down now p [] st = st"
| "drain_approvals down now p ((k, i) # ids) st =
    (if down k then drain_approvals down now p ids st
     else case claim_expired_or_read_winner (now k) i st of (d, st') \<Rightarrow>
       drain_approvals down now p ids (send_wake_best_effort (p k) i d st'))"

end
