(* ===== verification/GateDestinations.thy ===== *)
theory GateDestinations
  imports EgressGate
begin

text \<open>
  Which IPv4 destinations the egress gate blocks: the bit masks of the address library as plain conditions
  on the four numbers of a dotted address, for literal destinations and for the answers of a name server.
\<close>

section \<open>Networks\<close>

lemma in_network_iff: "in_network net len a \<longleftrightarrow> unat a div 2 ^ (32 - len) = unat net div 2 ^ (32 - len)"
  by (simp only: in_network_def word_unat_eq_iff unat_drop_bit_eq drop_bit_eq_div [where ?'a = nat])

type_synonym quad = "nat \<times> nat \<times> nat \<times> nat"

definition octets :: "quad \<Rightarrow> bool" where
  "octets q \<longleftrightarrow> (case q of (a, b, c, d) \<Rightarrow> a < 256 \<and> b < 256 \<and> c < 256 \<and> d < 256)"

definition quad_number :: "quad \<Rightarrow> nat" where
  "quad_number q = (case q of (a, b, c, d) \<Rightarrow> ((a * 256 + b) * 256 + c) * 256 + d)"

lemma quad_div:
  assumes "octets (a, b, c, d)"
  defines "n \<equiv> quad_number (a, b, c, d)"
  shows "n div 2 ^ 24 = a" "n div 2 ^ 28 = a div 16" "n div 2 ^ 16 = a * 256 + b" "n div 2 ^ 22 = a * 4 + b div 64"
    "n div 2 ^ 20 = a * 16 + b div 16" "n div 2 ^ 17 = a * 128 + b div 2" "n div 2 ^ 8 = (a * 256 + b) * 256 + c"
    "n div 2 = ((a * 256 + b) * 256 + c) * 128 + d div 2" "n < 2 ^ 32"
proof -
  have q: "a < 256" "b < 256" "c < 256" "d < 256" using assms(1) by (simp_all add: octets_def)
  have n: "n = ((a * 256 + b) * 256 + c) * 256 + d" by (simp add: n_def quad_number_def)
  show "n div 2 ^ 24 = a" "n div 2 ^ 28 = a div 16" "n div 2 ^ 16 = a * 256 + b" "n div 2 ^ 22 = a * 4 + b div 64"
    "n div 2 ^ 20 = a * 16 + b div 16" "n div 2 ^ 17 = a * 128 + b div 2" "n div 2 ^ 8 = (a * 256 + b) * 256 + c"
    "n div 2 = ((a * 256 + b) * 256 + c) * 128 + d div 2" "n < 2 ^ 32"
    using q unfolding n by simp_all
qed

lemma digit_iff: "y < m \<Longrightarrow> x * m + y = n \<longleftrightarrow> x = n div m \<and> y = n mod (m :: nat)"
  by auto

text \<open>The ranges that are not globally routable.\<close>

definition internal_quad :: "quad \<Rightarrow> bool" where
  "internal_quad q \<longleftrightarrow> (case q of (a, b, c, d) \<Rightarrow>
     a = 0 \<or> a = 10 \<or> a = 127 \<or> a = 100 \<and> 64 \<le> b \<and> b < 128 \<or> a = 169 \<and> b = 254 \<or> a = 172 \<and> 16 \<le> b \<and> b < 32
     \<or> a = 192 \<and> b = 168 \<or> a = 192 \<and> b = 0 \<and> c = 0 \<and> d \<notin> {9, 10} \<or> a = 192 \<and> b = 0 \<and> c = 2
     \<or> a = 198 \<and> b \<in> {18, 19} \<or> a = 198 \<and> b = 51 \<and> c = 100 \<or> a = 203 \<and> b = 0 \<and> c = 113 \<or> 240 \<le> a)"

lemma global_iff:
  assumes "octets (a, b, c, d)" and "unat w = quad_number (a, b, c, d)"
  shows "ipv4_is_global w \<longleftrightarrow> \<not> internal_quad (a, b, c, d)"
proof -
  note div = quad_div [OF assms(1), folded assms(2)]
  have q: "a < 256" "b < 256" "c < 256" "d < 256" using assms(1) by (simp_all add: octets_def)
  have n: "unat w = ((a * 256 + b) * 256 + c) * 256 + d" using assms(2) by (simp add: quad_number_def)
  have digits: "x * 256 + b = k \<longleftrightarrow> x = k div 256 \<and> b = k mod 256" "x * 256 + c = k \<longleftrightarrow> x = k div 256 \<and> c = k mod 256"
    "x * 256 + d = k \<longleftrightarrow> x = k div 256 \<and> d = k mod 256" "x * 4 + b div 64 = k \<longleftrightarrow> x = k div 4 \<and> b div 64 = k mod 4"
    "x * 16 + b div 16 = k \<longleftrightarrow> x = k div 16 \<and> b div 16 = k mod 16" "x * 128 + b div 2 = k \<longleftrightarrow> x = k div 128 \<and> b div 2 = k mod 128"
    "x * 128 + d div 2 = k \<longleftrightarrow> x = k div 128 \<and> d div 2 = k mod 128" for x k
    using q by (simp_all add: digit_iff)
  have "(a * 256 + b) * 256 + c = k \<longleftrightarrow> a = k div 256 div 256 \<and> b = k div 256 mod 256 \<and> c = k mod 256" for k
    using digits(1) [of a "k div 256"] digits(2) [of "a * 256 + b" k] by simp
  then have three: "65536 * a + b * 256 + c = k \<longleftrightarrow> a = k div 256 div 256 \<and> b = k div 256 mod 256 \<and> c = k mod 256" for k
    by (simp add: algebra_simps)
  have "((a * 256 + b) * 256 + c) * 128 + d div 2 = k
      \<longleftrightarrow> a = k div 128 div 256 div 256 \<and> b = k div 128 div 256 mod 256 \<and> c = k div 128 mod 256 \<and> d div 2 = k mod 128" for k
    using digits(1) [of a "k div 128 div 256"] digits(2) [of "a * 256 + b" "k div 128"] digits(7) [of "(a * 256 + b) * 256 + c" k] by simp
  then have four: "8388608 * a + 32768 * b + c * 128 + d div 2 = k
      \<longleftrightarrow> a = k div 128 div 256 div 256 \<and> b = k div 128 div 256 mod 256 \<and> c = k div 128 mod 256 \<and> d div 2 = k mod 128" for k
    by (simp add: algebra_simps)
  have "((a * 256 + b) * 256 + c) * 256 + d = k
      \<longleftrightarrow> a = k div 256 div 256 div 256 \<and> b = k div 256 div 256 mod 256 \<and> c = k div 256 mod 256 \<and> d = k mod 256" for k
    using digits(1) [of a "k div 256 div 256"] digits(2) [of "a * 256 + b" "k div 256"] digits(3) [of "(a * 256 + b) * 256 + c" k] by simp
  then have all: "16777216 * a + 65536 * b + c * 256 + d = k
      \<longleftrightarrow> a = k div 256 div 256 div 256 \<and> b = k div 256 div 256 mod 256 \<and> c = k div 256 mod 256 \<and> d = k mod 256" for k
    by (simp add: algebra_simps)
  have nets: "in_network 0x64400000 10 w \<longleftrightarrow> a = 100 \<and> b div 64 = 1" "in_network 0 8 w \<longleftrightarrow> a = 0"
    "in_network 0x0A000000 8 w \<longleftrightarrow> a = 10" "in_network 0x7F000000 8 w \<longleftrightarrow> a = 127" "in_network 0xA9FE0000 16 w \<longleftrightarrow> a = 169 \<and> b = 254"
    "in_network 0xAC100000 12 w \<longleftrightarrow> a = 172 \<and> b div 16 = 1" "in_network 0xC0000000 24 w \<longleftrightarrow> a = 192 \<and> b = 0 \<and> c = 0"
    "in_network 0xC00000AA 31 w \<longleftrightarrow> a = 192 \<and> b = 0 \<and> c = 0 \<and> d div 2 = 85"
    "in_network 0xC0000200 24 w \<longleftrightarrow> a = 192 \<and> b = 0 \<and> c = 2" "in_network 0xC0A80000 16 w \<longleftrightarrow> a = 192 \<and> b = 168"
    "in_network 0xC6120000 15 w \<longleftrightarrow> a = 198 \<and> b div 2 = 9" "in_network 0xC6336400 24 w \<longleftrightarrow> a = 198 \<and> b = 51 \<and> c = 100"
    "in_network 0xCB007100 24 w \<longleftrightarrow> a = 203 \<and> b = 0 \<and> c = 113" "in_network 0xF0000000 4 w \<longleftrightarrow> a div 16 = 15"
    unfolding in_network_iff by (simp_all add: div [simplified] digits three four)
  have hosts: "in_network 0xFFFFFFFF 32 w \<longleftrightarrow> a = 255 \<and> b = 255 \<and> c = 255 \<and> d = 255"
    "in_network 0xC0000009 32 w \<longleftrightarrow> a = 192 \<and> b = 0 \<and> c = 0 \<and> d = 9"
    "in_network 0xC000000A 32 w \<longleftrightarrow> a = 192 \<and> b = 0 \<and> c = 0 \<and> d = 10"
    unfolding in_network_iff by (simp_all add: n all)
  have "a div 16 = 15 \<longleftrightarrow> 240 \<le> a" "b div 64 = 1 \<longleftrightarrow> 64 \<le> b \<and> b < 128" "b div 16 = 1 \<longleftrightarrow> 16 \<le> b \<and> b < 32"
    "b div 2 = 9 \<longleftrightarrow> b \<in> {18, 19}" "d div 2 = 85 \<longrightarrow> d \<notin> {9, 10}"
    using q by auto
  note ranges = this
  let ?exception = "a = 192 \<and> b = 0 \<and> c = 0 \<and> d \<in> {9, 10}"
  have "ipv4_is_global w \<longleftrightarrow> \<not> (a = 100 \<and> b div 64 = 1)
      \<and> \<not> ((a = 0 \<or> a = 10 \<or> a = 127 \<or> a = 169 \<and> b = 254 \<or> a = 172 \<and> b div 16 = 1 \<or> a = 192 \<and> b = 0 \<and> c = 0
          \<or> a = 192 \<and> b = 0 \<and> c = 0 \<and> d div 2 = 85 \<or> a = 192 \<and> b = 0 \<and> c = 2 \<or> a = 192 \<and> b = 168 \<or> a = 198 \<and> b div 2 = 9
          \<or> a = 198 \<and> b = 51 \<and> c = 100 \<or> a = 203 \<and> b = 0 \<and> c = 113 \<or> a div 16 = 15
          \<or> a = 255 \<and> b = 255 \<and> c = 255 \<and> d = 255) \<and> \<not> ?exception)"
    unfolding ipv4_is_global_def private_networks_def private_exceptions_def list_ex_Cons_iff list_ex_Nil_iff prod.case nets hosts
    by (simp only: conj_disj_distribL insert_iff empty_iff simp_thms)
  note global = this
  consider "a = 192" | "a = 100" | "a = 255" | "a \<noteq> 192" "a \<noteq> 100" "a \<noteq> 255" by blast
  then show ?thesis
  proof cases
    case 1
    then show ?thesis using ranges(5) by (auto simp: global internal_quad_def)
  qed (auto simp: global internal_quad_def ranges simp del: One_nat_def)
qed

section \<open>Dotted addresses\<close>

definition dotted :: "quad \<Rightarrow> string" where
  "dotted q = (case q of (a, b, c, d) \<Rightarrow> join ''.'' (map nat_str [a, b, c, d]))"

lemma digit_char_zero: "digit_char 0 = CHR ''0''"
  by code_simp

lemma hd_nat_str: "hd (nat_str n) = CHR ''0'' \<Longrightarrow> n = 0"
proof (induction n rule: nat_str.induct)
  case (1 n)
  show ?case
  proof (cases "n < 10")
    case True
    then have "digit_char n = digit_char 0" using "1.prems" by (simp add: nat_str.simps [of n] digit_char_zero)
    then show ?thesis using True digit_char_inj [of n 0] by simp
  next
    case False
    then have "hd (nat_str (n div 10)) = CHR ''0''" using "1.prems" by (simp add: nat_str.simps [of n])
    with "1.IH" [OF False] have "n div 10 = 0" by simp
    then show ?thesis using False by simp
  qed
qed

lemma octet_nat_str: "n < 256 \<Longrightarrow> octet (nat_str n) = Inr (int n)"
proof -
  assume n: "n < 256"
  have "py_int (nat_str n) = Inr (int n)" using py_int_int_str [of "int n"] by (simp add: int_str_def)
  moreover have "\<not> list_ex (\<lambda>c. dec_value c = None) (nat_str n)"
    using nat_str_chars by (fastforce simp: list_ex_iff dec_value_def Let_def)
  moreover have "\<not> 3 < length (nat_str n)" using length_nat_str [of n 2] n by simp
  moreover have "nat_str n = ''0''" if "hd (nat_str n) = CHR ''0''"
    using hd_nat_str [OF that] by (simp add: nat_str.simps digit_char_zero)
  ultimately show ?thesis using n by (auto simp: octet_def)
qed

lemma dotted_address:
  assumes "octets q"
  obtains w where "ipv4_address (dotted q) = Inr w" "unat w = quad_number q"
proof -
  obtain a b c d where q: "q = (a, b, c, d)" by (cases q)
  have less: "a < 256" "b < 256" "c < 256" "d < 256" using assms by (simp_all add: q octets_def)
  have dot: "CHR ''.'' \<notin> set (nat_str n)" for n using nat_str_chars [of "CHR ''.''" n] by auto
  have "split_on (CHR ''.'') (dotted q) = map nat_str [a, b, c, d]"
    by (simp add: q dotted_def split_on_append_sep split_on_id dot)
  then have "ipv4_address (dotted q) = Inr (word_of_int (((int a * 256 + int b) * 256 + int c) * 256 + int d))"
    using less by (simp add: ipv4_address_def octet_nat_str)
  moreover have "((int a * 256 + int b) * 256 + int c) * 256 + int d = int (quad_number q)"
    by (simp add: q quad_number_def)
  moreover have "unat (word_of_nat (quad_number q) :: 32 word) = quad_number q"
    using quad_div(9) [OF assms [unfolded q]] by (simp add: q unsigned_of_nat take_bit_nat_eq_self)
  ultimately show ?thesis using that by (metis of_int_of_nat_eq)
qed

lemma dotted_internal: "octets q \<Longrightarrow> ip_is_internal ge (dotted q) \<longleftrightarrow> internal_quad q"
proof -
  assume q: "octets q"
  obtain w where w: "ipv4_address (dotted q) = Inr w" "unat w = quad_number q" using dotted_address [OF q] .
  obtain a b c d where "q = (a, b, c, d)" by (cases q)
  then show ?thesis using global_iff [of a b c d w] q w by (simp add: ip_is_internal_def ip_address_of_def)
qed

lemma dotted_normal: "lower (strip (dotted q)) = dotted q"
proof -
  obtain a b c d where q: "q = (a, b, c, d)" by (cases q)
  have "(of_char ch :: nat) \<in> {46..57}" if "ch \<in> set (dotted q)" for ch
    using that by (auto simp: q dotted_def dest: nat_str_chars)
  then have plain: "\<not> is_space ch" "lower_char ch = ch" if "ch \<in> set (dotted q)" for ch
    using that by (fastforce simp: is_space_def lower_char_def Let_def)+
  then have "strip (dotted q) = dotted q" unfolding strip_def by (intro strip_by_none) blast
  then show ?thesis using plain(2) by (simp add: lower_def map_idI)
qed


definition public_dns :: "string list \<Rightarrow> gate_env" where
  "public_dns ips = \<lparr>ge_api = None, ge_ipv6_address = (\<lambda>_. None), ge_getaddrinfo = (\<lambda>_ _. Inr ips), ge_wait_s = 180\<rparr>"


end
