(* ===== verification/GateSafety.thy ===== *)
theory GateSafety
  imports GateDestinations
begin

text \<open>
  What the egress gate guarantees.  Its steps are steps of the approval history, so the invariants of
  \<open>ApprovalHistory\<close> hold while it runs; a request leaves the proxy only when its destination is public,
  its sandbox is known and its strictest policy allows it, which for a policy that asks means a row of
  the approval table, created for this very request, that records an approval.
\<close>

section \<open>Runs of the gate are runs of the program\<close>

text \<open>Identifiers drawn at random are not in use before the gate stores a row under them.\<close>

definition fresh :: "uuid set \<Rightarrow> ghost \<Rightarrow> bool" where
  "fresh U g \<longleftrightarrow> (\<forall>i \<in> U. g_log g i = None)"

definition leads :: "uuid set \<Rightarrow> config \<Rightarrow> config \<Rightarrow> bool" where
  "leads U c c' \<longleftrightarrow> steps c c' \<and> (fresh U (snd c) \<longrightarrow> fresh U (snd c'))"

lemma leads_refl [simp, intro]: "leads U c c"
  by (simp add: leads_def)

lemma leads_trans [trans]: "leads U a b \<Longrightarrow> leads U b c \<Longrightarrow> leads U a c"
  by (auto simp: leads_def intro: rtranclp_trans [of step a b c])

lemma leads_reachable: "leads U c c' \<Longrightarrow> reachable c \<Longrightarrow> reachable c'"
  by (auto simp: leads_def intro: reachable_steps)

lemma leads_evolves: "leads U c c' \<Longrightarrow> reachable c \<Longrightarrow> evolves (snd c) (snd c')"
  by (auto simp: leads_def intro: steps_evolve)

lemma leads_fresh: "leads U c c' \<Longrightarrow> fresh U (snd c) \<Longrightarrow> fresh U (snd c')"
  by (simp add: leads_def)

lemma leads_weaken: "leads U c c' \<Longrightarrow> leads {} c c'"
  by (simp add: leads_def fresh_def)

lemma leads_step: "step c c' \<Longrightarrow> (fresh U (snd c) \<Longrightarrow> fresh U (snd c')) \<Longrightarrow> leads U c c'"
  by (auto simp: leads_def)

lemma leads_steps: "steps (st, g) (st', g) \<Longrightarrow> leads U (st, g) (st', g)"
  by (simp add: leads_def)

definition well_behaved :: "uuid set \<Rightarrow> (tenant_data \<Rightarrow> tenant_data) \<Rightarrow> bool" where
  "well_behaved U f \<longleftrightarrow> (\<forall>st g. reachable (st, g) \<longrightarrow> (\<exists>g'. leads U (st, g) (f st, g')))"

lemma well_behavedE:
  assumes "well_behaved U f" and "reachable (st, g)"
  obtains g' where "leads U (st, g) (f st, g')" "reachable (f st, g')" "evolves g g'"
  using assms unfolding well_behaved_def by (metis leads_evolves leads_reachable snd_conv)

lemma well_behaved_id [simp, intro]: "well_behaved U (\<lambda>st. st)" "well_behaved U id"
  by (auto simp: well_behaved_def)

lemma well_behaved_weaken: "well_behaved U f \<Longrightarrow> well_behaved {} f"
  unfolding well_behaved_def by (meson leads_weaken)

lemma well_behaved_comp: "well_behaved U f \<Longrightarrow> well_behaved U h \<Longrightarrow> well_behaved U (\<lambda>st. h (f st))"
  unfolding well_behaved_def by (meson leads_trans leads_reachable)

lemma well_behaved_if: "well_behaved U f \<Longrightarrow> well_behaved U h \<Longrightarrow> well_behaved U (\<lambda>st. if P st then f st else h st)"
  by (simp add: well_behaved_def)

lemma fresh_logged:
  assumes "fresh U g" and "\<forall>r \<in> set (t_approvals (ts_db st')). ar_id r \<notin> U"
  shows "fresh U (snd (logged st' g))"
  using assms
  by (auto simp: fresh_def logged_def remember_def get_action_approval_None split: option.splits dest!: get_action_approval_Some)

lemma fresh_row: "reachable (st, g) \<Longrightarrow> fresh U g \<Longrightarrow> r \<in> set (t_approvals (ts_db st)) \<Longrightarrow> ar_id r \<notin> U"
  using coherent_row [OF reachable_coherent] by (fastforce simp: fresh_def)

lemma well_behaved_apps: "well_behaved U (on_apps f)"
  unfolding well_behaved_def
proof (intro allI impI)
  fix st g assume r: "reachable (st, g)"
  let ?db = "(ts_db st)\<lparr>t_external := f (t_external (ts_db st))\<rparr>"
  have "step (st, g) (logged (st\<lparr>ts_db := ?db\<rparr>) g)" by (rule step.tables_else) simp
  moreover have "logged (st\<lparr>ts_db := ?db\<rparr>) g = (on_apps f st, snd (logged (st\<lparr>ts_db := ?db\<rparr>) g))"
    by (simp add: logged_def on_apps_def)
  moreover have "fresh U (snd (logged (st\<lparr>ts_db := ?db\<rparr>) g))" if "fresh U g"
    by (rule fresh_logged [OF that]) (use fresh_row [OF r that] in simp)
  ultimately show "\<exists>g'. leads U (st, g) (on_apps f st, g')"
    by (intro exI [of _ "snd (logged (st\<lparr>ts_db := ?db\<rparr>) g)"] leads_step) auto
qed

section \<open>Injection\<close>

definition lawful_resolver :: "uuid set \<Rightarrow> resolver \<Rightarrow> bool" where
  "lawful_resolver U r \<longleftrightarrow> (\<forall>fl ctx. well_behaved U (\<lambda>st. snd (rv_resolve r fl ctx st)))"

text \<open>Refreshing a token takes steps of the program.\<close>

lemma refresh_well_behaved:
  assumes "\<And>k. well_behaved U (rr_others run k)"
  shows "well_behaved U (\<lambda>st. snd (ensure_fresh_credentials te run a u st))"
  unfolding well_behaved_def
proof (intro allI impI)
  fix st g assume r: "reachable (st, g)"
  obtain res st' where run: "ensure_fresh_credentials te run a u st = (res, st')" by fastforce
  obtain g0 where g0: "leads U (st, g) (rr_others run 0 st, g0)" "reachable (rr_others run 0 st, g0)"
    using well_behavedE [OF assms r] .
  obtain g1 where g1: "leads U (rr_others run 0 st, g0) (rr_others run 1 (rr_others run 0 st), g1)"
      "reachable (rr_others run 1 (rr_others run 0 st), g1)"
    using well_behavedE [OF assms g0(2)] .
  have apps: "\<exists>g'. leads U (rr_others run 0 st, g0) (on_apps f (rr_others run 1 (rr_others run 0 st)), g')" for f
    using well_behavedE [OF well_behaved_apps g1(2)] leads_trans [OF g1(1)] by metis
  have "\<exists>g'. leads U (st, g) (st', g')"
    using run
  proof (cases rule: ensure_fresh_cases)
    case (3 r')
    then have "\<exists>g'. leads U (rr_others run 0 st, g0) (st', g')"
      by (cases rule: refresh_under_lock_cases) (use g1(1) apps in auto)
    then show ?thesis using leads_trans [OF g0(1)] by blast
  qed (use g0(1) in auto)
  then show "\<exists>g'. leads U (st, g) (snd (ensure_fresh_credentials te run a u st), g')" by (simp add: run)
qed

lemma build_resolvers_lawful:
  assumes "\<And>k. well_behaved U (rr_others run k)"
  shows "\<forall>r \<in> set (build_resolvers api decrypt accessible te run fmt). lawful_resolver U r"
proof -
  have "well_behaved U (\<lambda>st. snd (rv_resolve (external_app_resolver te run fmt) fl ctx st))" for fl ctx
  proof (cases "ic_matched ctx")
    case (Some m)
    let ?f = "\<lambda>st. ensure_fresh_credentials te run (am_app_id m) (rs_user (ic_sandbox ctx)) st"
    have "well_behaved U (\<lambda>st. if isl (fst (?f st)) then snd (?f st) else rr_others run 2 (snd (?f st)))"
      using well_behaved_if [OF refresh_well_behaved [OF assms] well_behaved_comp [OF refresh_well_behaved [OF assms] assms [of 2]]] .
    moreover have "snd (rv_resolve (external_app_resolver te run fmt) fl ctx st)
        = (if isl (fst (?f st)) then snd (?f st) else rr_others run 2 (snd (?f st)))" for st
      using Some by (auto simp: external_app_resolver_def Let_def split: prod.splits sum.splits)
    ultimately show ?thesis by simp
  qed (simp add: external_app_resolver_def)
  then show ?thesis
    by (simp add: build_resolvers_def lawful_resolver_def onyx_pat_resolver_def llm_provider_key_resolver_def)
qed

lemma pick_in: "pick rs fl ctx = Some r \<Longrightarrow> r \<in> set rs"
  by (induction rs) (auto split: if_splits)

lemma dispatch_leads:
  assumes "reachable (st, g)" and "\<forall>r \<in> set rs. lawful_resolver U r"
    and "dispatch_injection_or_block rs fl sandbox m st = (out, fl', st')"
  shows "\<exists>g'. leads U (st, g) (st', g')"
proof (cases "pick rs fl \<lparr>ic_sandbox = sandbox, ic_matched = m\<rparr>")
  case None
  then show ?thesis using assms(3) by (auto simp: dispatch_injection_or_block_def apply_injection_def Let_def)
next
  case (Some r)
  let ?ctx = "\<lparr>ic_sandbox = sandbox, ic_matched = m\<rparr>"
  have "st' = snd (rv_resolve r fl ?ctx st)"
    using assms(3) Some
    by (auto simp: dispatch_injection_or_block_def apply_injection_def Let_def split: prod.splits sum.splits if_splits)
  moreover have "well_behaved U (\<lambda>st. snd (rv_resolve r fl ?ctx st))"
    using assms(2) pick_in [OF Some] by (simp add: lawful_resolver_def)
  ultimately show ?thesis using assms(1) unfolding well_behaved_def by blast
qed

section \<open>Grants\<close>

abbreviation asked_types :: "all_matched \<Rightarrow> string list" where
  "asked_types m \<equiv> actions_requiring_approval (map Live (am_actions m))"

lemma set_asked [simp]: "set (actions_requiring_approval xs) = {t. \<exists>x \<in> set xs. approval_type x = Some t}"
  by (simp add: actions_requiring_approval_def List.map_filter_def) force

lemma approval_type_dump [simp]: "approval_type (Persisted (action_dump a)) = approval_type (Live a)"
  by (simp add: approval_type_def action_dump_def)

lemma sorted_actions_set: "sorted_actions xs = Inr ys \<Longrightarrow> set ys = set xs"
proof -
  assume "sorted_actions xs = Inr ys"
  then obtain keys where k: "map_r policy_key xs = Inr keys" "ys = map snd (sort_key (\<lambda>(k, a). - k) (zip keys xs))"
    by (auto simp: sorted_actions_def bind_r_Inr_iff)
  have "set ys = set (map snd (zip keys xs))" by (simp add: k(2))
  also have "map snd (zip keys xs) = xs" using map_r_length [OF k(1)] by simp
  finally show ?thesis .
qed

text \<open>The row stored for a request asks for the actions the gate asked about.\<close>

lemma ask_types_stored:
  assumes "sorted_actions (matched_dump m) = Inr (ar_actions r)"
  shows "set (ask_types r) = set (asked_types m)"
  using sorted_actions_set [OF assms] by (auto simp: ask_types_def matched_dump_def)

lemma in_fold_expire: "(k, (v, e)) \<in> set (fold (\<lambda>x. pg_expire now x ttl) ks c) \<Longrightarrow> \<exists>e'. (k, (v, e')) \<in> set c"
  by (induction ks arbitrary: c) (fastforce dest: in_pg_expire)+

lemma fold_expire_protected: "keeps_protected c (fold (\<lambda>x. pg_expire now x ttl) ks c)"
  by (auto simp: keeps_protected_def dest: in_fold_expire)

lemma keeps_protected_refl: "keeps_protected c c"
  by (auto simp: keeps_protected_def)

lemma cached_grant:
  assumes "reachable (st, g)" and "pg_get t (session_grant_key s a x) (ts_cache st) = Some v"
  shows "(s, a, x) \<in> g_granted g"
proof -
  obtain w where "(session_grant_key s a x, w) \<in> set (ts_cache st)"
    using assms(2) by (auto simp: pg_get_def dict_get_def split: option.splits dest!: map_of_SomeD)
  then show ?thesis
    using reachable_coherent [OF assms(1)] unfolding coherent_def grants_true_def fst_conv snd_conv by blast
qed

lemma session_grant_leads:
  assumes r: "reachable (st, g)" and run: "session_grant now check fault ctx m st = (via, st')"
  shows "leads U (st, g) (st', g) \<and> (\<forall>v. via = Some v \<longrightarrow> v = SESSION_GRANT
    \<and> (\<forall>t \<in> set (asked_types m). (sc_session ctx, am_app_id m, t) \<in> g_granted g))"
proof -
  let ?s = "sc_session ctx" and ?a = "am_app_id m"
  define hc where "hc = (case check of
       Answers \<Rightarrow> cached_session_grants_cover postgres_backend now ?s ?a (asked_types m) (ts_cache st)
     | FailsAfter n \<Rightarrow> (False, let keys = map (session_grant_key ?s ?a) (asked_types m) in
           if list_ex (\<lambda>k. pg_get now k (ts_cache st) = None) keys then ts_cache st
           else fold (\<lambda>k. pg_expire now k session_grant_ttl_s) (take n keys) (ts_cache st))
     | NoCache \<Rightarrow> (False, ts_cache st))"
  obtain hit c where hit: "hc = (hit, c)" by fastforce
  have c: "keeps_protected (ts_cache st) c"
    using hit unfolding hc_def
    by (auto simp: cached_session_grants_cover_def Let_def fold_expire_protected keeps_protected_refl split: cache_check.splits if_splits)
  have covered: "\<forall>t \<in> set (asked_types m). (?s, ?a, t) \<in> g_granted g" if h: hit
  proof
    fix t assume "t \<in> set (asked_types m)"
    then obtain v where "pg_get now (session_grant_key ?s ?a t) (ts_cache st) = Some v"
      using h hit unfolding hc_def
      by (auto simp: cached_session_grants_cover_def Let_def list_ex_iff simp del: set_asked split: cache_check.splits if_splits)
    then show "(?s, ?a, t) \<in> g_granted g" by (rule cached_grant [OF r])
  qed
  let ?st1 = "st\<lparr>ts_cache := c\<rparr>"
  have 1: "leads U (st, g) (?st1, g)" using step.cache_else [OF c] by (auto intro: leads_step)
  note r1 = leads_reachable [OF 1 r]
  let ?rows = "list_session_grant_action_approvals (ts_db ?st1) ?s ?a"
  have sub: "(?s, ?a, t) \<in> g_granted g" if "x \<in> set ?rows" "t \<in> set (ask_types x)" for x t
    using granted_by_sources [OF r1 that] .
  have 2: "leads U (st, g) (?st1\<lparr>ts_cache := cache_grants now fault ?s ?a ?rows c\<rparr>, g)"
    using cache_grants_steps [OF r1, of ?rows ?s ?a now fault] sub leads_trans [OF 1 leads_steps] by fastforce
  have "session_grant now check fault ctx m st = (if asked_types m = [] then (None, st)
      else if hit then (Some SESSION_GRANT, ?st1)
      else if \<not> set (asked_types m) \<subseteq> (\<Union>r \<in> set ?rows. set (ask_types r)) then (None, ?st1)
      else (Some SESSION_GRANT, if check = NoCache then ?st1 else ?st1\<lparr>ts_cache := cache_grants now fault ?s ?a ?rows c\<rparr>))"
    using hit unfolding session_grant_def hc_def Let_def by (simp del: set_asked)
  then show ?thesis
    using run 1 2 covered sub by (auto simp del: set_asked split: if_splits)
qed

lemma resolve_approval_grant_leads:
  assumes r: "reachable (st, g)" and run: "resolve_approval_grant now check fault ctx m gs st = (via, gs', st')"
  shows "leads U (st, g) (st', g) \<and> (\<forall>v. via = Some v \<longrightarrow> v \<noteq> USER
    \<and> (v = SESSION_GRANT \<longrightarrow> (\<forall>t \<in> set (asked_types m). (sc_session ctx, am_app_id m, t) \<in> g_granted g)))"
proof (cases "fst (scheduled_task_grant now (ts_db st) ctx m gs)")
  case None
  then obtain gs1 where "session_grant now check fault ctx m st = (via, st')"
    using run by (auto simp: resolve_approval_grant_def Let_def split: prod.splits option.splits)
  from session_grant_leads [OF r this] show ?thesis by auto
next
  case (Some v)
  then have "v = PRE_APPROVAL" by (auto simp: scheduled_task_grant_def split: option.splits prod.splits if_splits)
  then show ?thesis using run Some by (auto simp: resolve_approval_grant_def split: prod.splits option.splits)
qed

section \<open>Rows of requests\<close>

text \<open>The row under an identifier belongs to this request of this session.\<close>

definition describes :: "ghost \<Rightarrow> uuid \<Rightarrow> session_context \<Rightarrow> all_matched \<Rightarrow> bool" where
  "describes g i ctx m \<longleftrightarrow> (\<exists>r. g_log g i = Some r \<and> ar_session r = sc_session ctx
     \<and> sorted_actions (matched_dump m) = Inr (ar_actions r) \<and> ar_payload r = am_payload m
     \<and> ar_app_name r = am_app_name m \<and> ar_app r \<in> {Some (am_app_id m), None})"

definition approved_for :: "ghost \<Rightarrow> uuid \<Rightarrow> session_context \<Rightarrow> all_matched \<Rightarrow> bool" where
  "approved_for g i ctx m \<longleftrightarrow> describes g i ctx m \<and> recorded g i APPROVED"

lemma describes_evolves: "describes g i ctx m \<Longrightarrow> evolves g g' \<Longrightarrow> describes g' i ctx m"
  unfolding describes_def evolves_def row_evolves_def by fastforce

lemma approved_evolves: "approved_for g i ctx m \<Longrightarrow> evolves g g' \<Longrightarrow> approved_for g' i ctx m"
  using describes_evolves recorded_evolves unfolding approved_for_def by blast

definition insert_for where
  "insert_for now i ctx m d via db = insert_action_approval now i (sc_session ctx) (matched_dump m) (am_app_name m)
     (am_payload m) (Some (am_app_id m)) d via db"

lemma insert_for_row:
  assumes "insert_for now i ctx m d via db = Inr (r, db')"
  shows "ar_id r = i" "ar_session r = sc_session ctx" "ar_decision r = d" "ar_via r = via" "ar_app r = Some (am_app_id m)"
    "sorted_actions (matched_dump m) = Inr (ar_actions r)" "ar_payload r = am_payload m" "ar_app_name r = am_app_name m"
    "t_approvals db' = t_approvals db @ [r]"
  using assms by (auto simp: insert_for_def insert_action_approval_def bind_r_Inr_iff Let_def split: if_splits)

lemma inserted_leads:
  assumes r: "reachable (st, g)" and row: "insert_for now i ctx m d via (ts_db st) = Inr (row, db)" and new: "g_log g i = None"
    and how: "d = None \<and> via = None \<or> (\<exists>v. d = Some APPROVED \<and> via = Some v \<and> v \<noteq> USER
      \<and> (v = SESSION_GRANT \<longrightarrow> (\<forall>t \<in> set (asked_types m). (sc_session ctx, am_app_id m, t) \<in> g_granted g)))"
  shows "\<exists>g'. leads {} (st, g) (st\<lparr>ts_db := db\<rparr>, g') \<and> reachable (st\<lparr>ts_db := db\<rparr>, g') \<and> describes g' i ctx m
    \<and> (d = Some APPROVED \<longrightarrow> recorded g' i APPROVED)"
proof -
  note row' = insert_for_row [OF row]
  let ?c = "logged (st\<lparr>ts_db := db\<rparr>) g"
  have "step (st, g) ?c"
    using how
  proof (elim disjE exE conjE)
    assume n: "d = None" "via = None"
    show ?thesis using step.ask [OF row [unfolded insert_for_def n], of g] new by simp
  next
    fix v assume v: "d = Some APPROVED" "via = Some v" "v \<noteq> USER"
      "v = SESSION_GRANT \<longrightarrow> (\<forall>t \<in> set (asked_types m). (sc_session ctx, am_app_id m, t) \<in> g_granted g)"
    have "within_grants (g_granted g) row" if "v = SESSION_GRANT"
      using v(4) that ask_types_stored [OF row'(6)] row'(2,5) unfolding within_grants_def by simp
    then show ?thesis
      using step.granted [OF row [unfolded insert_for_def v(1,2)], of g] new v(3) by (simp del: set_asked)
  qed
  moreover have log: "g_log (snd ?c) i = Some row"
  proof -
    have "row \<in> set (t_approvals db)" by (simp add: row'(9))
    moreover have "distinct (map ar_id (t_approvals db))"
      using coherent_distinct [OF reachable_coherent [OF r]] new coherent_row [OF reachable_coherent [OF r]]
      by (auto simp: row'(1,9))
    ultimately show ?thesis using get_action_approval_row [of db row] by (simp add: logged_def remember_def row'(1))
  qed
  moreover obtain g' where c: "?c = (st\<lparr>ts_db := db\<rparr>, g')" by (simp add: logged_def)
  ultimately have s: "step (st, g) (st\<lparr>ts_db := db\<rparr>, g')" and "g_log g' i = Some row" by (simp_all only: c snd_conv)
  then have "describes g' i ctx m" "d = Some APPROVED \<longrightarrow> recorded g' i APPROVED"
    using row' by (auto simp: describes_def recorded_def)
  then show ?thesis using s reachable_step [OF r s] by (auto simp: leads_def fresh_def)
qed

lemma apply_grant_new:
  assumes r: "reachable (st, g)" and run: "apply_approval_grant run k ctx m None gs st = (res, gs', st')"
    and wb: "well_behaved U (gr_others run k)" and new: "fresh U g" "gr_id run k \<in> U"
  shows "\<exists>g'. leads {} (st, g) (st', g') \<and> (res = None \<longrightarrow> leads U (st, g) (st', g'))
    \<and> (\<forall>i. res = Some i \<longrightarrow> i = gr_id run k \<and> approved_for g' i ctx m)"
proof (cases "gr_down run k")
  case True
  then show ?thesis using run by (auto simp: apply_approval_grant_def)
next
  case False
  obtain via gs1 st1 where g: "resolve_approval_grant (gr_now run k) (gr_check run k) (gr_fault run k) ctx m gs st = (via, gs1, st1)"
    by (metis prod_cases3)
  have 1: "leads U (st, g) (st1, g)"
    and granted: "\<And>v. via = Some v \<Longrightarrow> v \<noteq> USER \<and> (v = SESSION_GRANT \<longrightarrow> (\<forall>t \<in> set (asked_types m). (sc_session ctx, am_app_id m, t) \<in> g_granted g))"
    using resolve_approval_grant_leads [OF r g, of U] by blast+
  show ?thesis
  proof (cases via)
    case None
    then show ?thesis using run False g 1 leads_weaken [OF 1] by (auto simp: apply_approval_grant_def)
  next
    case (Some v)
    obtain g2 where 2: "leads U (st1, g) (gr_others run k st1, g2)" "reachable (gr_others run k st1, g2)" "evolves g g2"
      using well_behavedE [OF wb leads_reachable [OF 1 r]] .
    note 3 = leads_trans [OF 1 2(1)]
    let ?ins = "insert_for (gr_now run k) (gr_id run k) ctx m (Some APPROVED) (Some v) (ts_db (gr_others run k st1))"
    show ?thesis
    proof (cases ?ins)
      case (Inl e)
      then show ?thesis using run False g Some 3 leads_weaken [OF 3] by (auto simp: apply_approval_grant_def insert_for_def)
    next
      case (Inr x)
      obtain row db where x: "x = (row, db)" by fastforce
      have "g_log g2 (gr_id run k) = None" using leads_fresh [OF 3] new by (simp add: fresh_def)
      moreover have "v = SESSION_GRANT \<longrightarrow> (\<forall>t \<in> set (asked_types m). (sc_session ctx, am_app_id m, t) \<in> g_granted g2)"
        using granted [OF Some] 2(3) unfolding evolves_def by blast
      ultimately obtain g' where g': "leads {} (gr_others run k st1, g2) ((gr_others run k st1)\<lparr>ts_db := db\<rparr>, g')"
          "describes g' (gr_id run k) ctx m" "recorded g' (gr_id run k) APPROVED"
        using inserted_leads [OF 2(2) Inr [unfolded x]] granted [OF Some] by blast
      moreover have "res = Some (gr_id run k)" "st' = (gr_others run k st1)\<lparr>ts_db := db\<rparr>"
        using run False g Some Inr x insert_for_row(1) [OF Inr [unfolded x]] by (auto simp: apply_approval_grant_def insert_for_def Let_def)
      ultimately show ?thesis
        using leads_trans [OF leads_weaken [OF 3] g'(1)] unfolding approved_for_def by blast
    qed
  qed
qed

lemma apply_grant_pending:
  assumes r: "reachable (st, g)" and run: "apply_approval_grant run k ctx m (Some i) gs st = (res, gs', st')"
    and wb: "well_behaved {} (gr_others run k)" and row: "describes g i ctx m"
  shows "\<exists>g'. leads {} (st, g) (st', g') \<and> (\<forall>j. res = Some j \<longrightarrow> j = i \<and> approved_for g' i ctx m)"
proof (cases "gr_down run k")
  case True
  then show ?thesis using run by (auto simp: apply_approval_grant_def)
next
  case False
  obtain via gs1 st1 where g: "resolve_approval_grant (gr_now run k) (gr_check run k) (gr_fault run k) ctx m gs st = (via, gs1, st1)"
    by (metis prod_cases3)
  have 1: "leads {} (st, g) (st1, g)"
    and granted: "\<And>v. via = Some v \<Longrightarrow> v = SESSION_GRANT \<Longrightarrow> \<forall>t \<in> set (asked_types m). (sc_session ctx, am_app_id m, t) \<in> g_granted g"
    using resolve_approval_grant_leads [OF r g, of "{}"] by blast+
  show ?thesis
  proof (cases via)
    case None
    then show ?thesis using run False g 1 by (auto simp: apply_approval_grant_def)
  next
    case (Some v)
    obtain g2 where 2: "leads {} (st1, g) (gr_others run k st1, g2)" "reachable (gr_others run k st1, g2)" "evolves g g2"
      using well_behavedE [OF wb leads_reachable [OF 1 r]] .
    note 3 = leads_trans [OF 1 2(1)] and row2 = describes_evolves [OF row 2(3)]
    let ?st2 = "gr_others run k st1"
    obtain got db where t: "try_record_decision (gr_now run k) i APPROVED (Some v) (ts_db ?st2) = (got, db)" by fastforce
    show ?thesis
    proof (cases got)
      case None
      then show ?thesis using run False g Some t 3 by (auto simp: apply_approval_grant_def Let_def)
    next
      case (Some decided)
      have "within_grants (g_granted g2) x" if "v = SESSION_GRANT" "x \<in> pending_rows (ts_db ?st2) i" for x
      proof -
        have "g_log g2 i = Some x" using pending_coherent [OF reachable_coherent [OF 2(2)] that(2)] .
        then have x: "ar_session x = sc_session ctx" "ar_app x \<in> {Some (am_app_id m), None}" "set (ask_types x) = set (asked_types m)"
          using row2 ask_types_stored by (auto simp: describes_def simp del: set_asked)
        moreover have "\<forall>t \<in> set (asked_types m). (sc_session ctx, am_app_id m, t) \<in> g_granted g2"
          using granted [OF \<open>via = Some v\<close> that(1)] 2(3) unfolding evolves_def by blast
        ultimately show ?thesis unfolding within_grants_def by (auto simp del: set_asked)
      qed
      then have "step (?st2, g2) (logged (?st2\<lparr>ts_db := snd (try_record_decision (gr_now run k) i APPROVED (Some v) (ts_db ?st2))\<rparr>) g2)"
        by (intro step.decide) auto
      from decided_step [OF 2(2) this t [unfolded Some]] obtain g' where g': "steps (?st2, g2) (?st2\<lparr>ts_db := db\<rparr>, g')"
          "evolves g2 g'" "g_log g' i = Some decided" "ar_decision decided = Some APPROVED" by blast
      have "leads {} (st, g) (?st2\<lparr>ts_db := db\<rparr>, g')"
        using leads_trans [OF 3] g'(1) by (simp add: leads_def fresh_def)
      moreover have "approved_for g' i ctx m"
        using describes_evolves [OF row2 g'(2)] g'(3,4) by (auto simp: approved_for_def recorded_def)
      moreover have "res = Some i" "st' = ?st2\<lparr>ts_db := db\<rparr>"
        using run False g \<open>via = Some v\<close> t Some by (auto simp: apply_approval_grant_def Let_def)
      ultimately show ?thesis by blast
    qed
  qed
qed

section \<open>Waiting\<close>

lemma claim_leads:
  assumes r: "reachable (st, g)" and run: "claim_expired_or_read_winner now i st = (d, st')"
  shows "\<exists>g'. leads {} (st, g) (st', g') \<and> (recorded g' i d \<or> d = EXPIRED \<and> get_action_approval (ts_db st') i = None)"
proof -
  obtain got db where t: "try_record_decision now i EXPIRED None (ts_db st) = (got, db)" by fastforce
  show ?thesis
  proof (cases got)
    case None
    then have "pending_rows (ts_db st) i = {}" using t try_record_pending [of now i EXPIRED None "ts_db st"] by simp
    then have "ar_decision x \<noteq> None" if "get_action_approval (ts_db st) i = Some x" for x
      using get_action_approval_Some [OF that] by (auto simp: pending_rows_def)
    then show ?thesis
      using run t None recorded_row [OF r]
      by (auto simp: claim_expired_or_read_winner_def split: option.splits intro!: exI [of _ g])
  next
    case (Some decided)
    have "step (st, g) (logged (st\<lparr>ts_db := snd (try_record_decision now i EXPIRED None (ts_db st))\<rparr>) g)"
      by (intro step.decide) auto
    from decided_step [OF r this t [unfolded Some]] show ?thesis
      using run t Some by (auto simp: claim_expired_or_read_winner_def leads_def fresh_def recorded_def)
  qed
qed

lemma pop_leads:
  assumes r: "reachable (st, g)" and pop: "pg_scan now [wake_key i] (ts_cache st) = Some ((k, v), c)"
  shows "leads U (st, g) (st\<lparr>ts_cache := c\<rparr>, g) \<and> (parse_decision v = Inr APPROVED \<longrightarrow> recorded g i APPROVED)"
proof -
  have "keeps_protected (ts_cache st) c"
    using popped_item [OF pop] by (auto simp: keeps_protected_def dict_del_def)
  from step.cache_else [OF this] have "leads U (st, g) (st\<lparr>ts_cache := c\<rparr>, g)" by (rule leads_step) simp
  then show ?thesis using woken_approved [OF r pop] by blast
qed

lemma scan_leads:
  assumes "reachable (st, g)" and "\<forall>(now, clock, f) \<in> set scans. well_behaved {} f" and "scan_wake deadline i scans st = (st', res)"
  shows "\<exists>g'. leads {} (st, g) (st', g') \<and> (\<forall>v. res = Some (Some v) \<longrightarrow> parse_decision v = Inr APPROVED \<longrightarrow> recorded g' i APPROVED)"
  using assms
proof (induction scans arbitrary: st g)
  case (Cons s scans)
  obtain now clock f where s: "s = (now, clock, f)" by (cases s)
  show ?case
  proof (cases "pg_scan now [wake_key i] (ts_cache st)")
    case (Some x)
    obtain k v c where x: "x = ((k, v), c)" by (metis prod.exhaust)
    from pop_leads [OF Cons.prems(1) Some [unfolded x], of "{}"] show ?thesis
      using Cons.prems(3) Some x by (auto simp: s simp del: pg_scan.simps)
  next
    case None
    show ?thesis
    proof (cases "deadline \<le> clock")
      case False
      have "well_behaved {} f" using Cons.prems(2) s by simp
      then obtain g1 where g1: "leads {} (st, g) (f st, g1)" "reachable (f st, g1)"
        using well_behavedE [OF _ Cons.prems(1)] by blast
      have "scan_wake deadline i scans (f st) = (st', res)"
        using Cons.prems(3) None False by (simp add: s del: pg_scan.simps)
      from Cons.IH [OF g1(2) _ this] Cons.prems(2) show ?thesis using leads_trans [OF g1(1)] by fastforce
    qed (use Cons.prems(3) None in \<open>auto simp: s simp del: pg_scan.simps\<close>)
  qed
qed auto

definition lawful_turn :: "turn \<Rightarrow> bool" where
  "lawful_turn t \<longleftrightarrow> (case t of (clock, start, scans, f) \<Rightarrow> well_behaved {} f \<and> (\<forall>(now, clock, h) \<in> set scans. well_behaved {} h))"

lemma park_leads:
  assumes "reachable (st, g)" and "\<forall>t \<in> set turns. lawful_turn t" and "park deadline i turns st = (st', res)"
  shows "\<exists>g'. leads {} (st, g) (st', g') \<and> (res = Some (Some APPROVED) \<longrightarrow> recorded g' i APPROVED)"
  using assms
proof (induction turns arbitrary: st g)
  case (Cons t turns)
  obtain clock start scans f where t: "t = (clock, start, scans, f)" by (cases t)
  have lawful: "well_behaved {} f" "\<forall>(now, clock, h) \<in> set scans. well_behaved {} h"
    using Cons.prems(2) by (auto simp: t lawful_turn_def)
  show ?case
  proof (cases "deadline - clock \<le> 0")
    case False
    obtain st1 res1 where scan: "scan_wake (start + second) i scans st = (st1, res1)" by fastforce
    obtain g1 where g1: "leads {} (st, g) (st1, g1)" "\<And>v. res1 = Some (Some v) \<Longrightarrow> parse_decision v = Inr APPROVED \<Longrightarrow> recorded g1 i APPROVED"
      using scan_leads [OF Cons.prems(1) lawful(2) scan] by blast
    note r1 = leads_reachable [OF g1(1) Cons.prems(1)]
    obtain g2 where g2: "leads {} (st1, g1) (f st1, g2)" "reachable (f st1, g2)" "evolves g1 g2"
      using well_behavedE [OF lawful(1) r1] .
    consider "res1 = None" | "res1 = Some None" | v where "res1 = Some (Some v)" by (metis option.exhaust)
    then show ?thesis
    proof cases
      case 1
      then show ?thesis using Cons.prems(3) False scan g1(1) by (auto simp: t)
    next
      case 2
      then have "park deadline i turns (f st1) = (st', res)" using Cons.prems(3) False scan by (simp add: t)
      from Cons.IH [OF g2(2) _ this] Cons.prems(2) show ?thesis
        using leads_trans [OF leads_trans [OF g1(1) g2(1)]] by fastforce
    next
      case 3
      then have "st' = f st1" "res = Some (case parse_decision v of Inl e \<Rightarrow> None | Inr d \<Rightarrow> Some d)"
        using Cons.prems(3) False scan by (auto simp: t)
      then show ?thesis
        using leads_trans [OF g1(1) g2(1)] g1(2) [OF 3] recorded_evolves [OF _ g2(3)] by (auto split: sum.splits)
    qed
  qed (use Cons.prems(3) in \<open>auto simp: t\<close>)
qed auto

lemma await_leads:
  assumes r: "reachable (st, g)" and turns: "\<forall>t \<in> set (gr_turns run). lawful_turn t" and run: "await_decision wait_s run i st = (res, st')"
  shows "\<exists>g'. leads {} (st, g) (st', g') \<and> (res = Decided APPROVED \<longrightarrow> recorded g' i APPROVED)"
proof -
  define pr where "pr = (if wait_s \<le> 0 then (st, Some None) else park (gr_start run + wait_s * second) i (gr_turns run) st)"
  obtain st1 w where pr: "pr = (st1, w)" by fastforce
  obtain g1 where g1: "leads {} (st, g) (st1, g1)" "w = Some (Some APPROVED) \<Longrightarrow> recorded g1 i APPROVED"
    using park_leads [OF r turns, of "gr_start run + wait_s * second" i st1 w] pr by (auto simp: pr_def split: if_splits)
  obtain d st2 where c: "claim_expired_or_read_winner (gr_now run 6) i st1 = (d, st2)" by fastforce
  obtain g2 where g2: "leads {} (st1, g1) (st2, g2)" "recorded g2 i d \<or> d = EXPIRED"
    using claim_leads [OF leads_reachable [OF g1(1) r] c] by blast
  have claimed: "leads {} (st, g) (st2, g2)" by (rule leads_trans [OF g1(1) g2(1)])
  have "await_decision wait_s run i st = (let claim = (if gr_down run 6 then (Raised, st1) else (Decided d, st2)) in
     case w of Some (Some d) \<Rightarrow> (Decided d, st1) | Some None \<Rightarrow> claim
     | None \<Rightarrow> (case gr_wait_end run of StillWaiting \<Rightarrow> (Waiting, st1) | CacheRaises \<Rightarrow> (Raised, st1)
         | ClientGone \<Rightarrow> (if gr_down run 6 then Raised else Cancelled, snd claim)))"
    using pr c unfolding await_decision_def pr_def by (simp add: Let_def split: option.splits wait_end.splits)
  then show ?thesis
    using run g1 g2(2) claimed by (auto simp: Let_def split: option.splits if_splits wait_end.splits)
qed

lemma terminalize_leads:
  assumes r: "reachable (st, g)"
  shows "\<exists>g'. leads {} (st, g) (terminalize_after_unhandled_error run i st, g')"
proof -
  obtain d st' where c: "claim_expired_or_read_winner (gr_now run 9) i st = (d, st')" by fastforce
  obtain g' where g': "leads {} (st, g) (st', g')" "recorded g' i d \<or> d = EXPIRED"
    using claim_leads [OF r c] by blast
  note r' = leads_reachable [OF g'(1) r]
  have "step (st', g') (send_wake_best_effort (gr_stamp run 9) i d st', g')"
    using g'(2) by (intro step.wake) (auto simp: recorded_def)
  then have "leads {} (st', g') (send_wake_best_effort (gr_stamp run 9) i d st', g')" by (rule leads_step) simp
  from leads_trans [OF g'(1) this] show ?thesis
    by (cases "gr_down run 9") (auto simp: terminalize_after_unhandled_error_def c)
qed

lemma announce_leads: "leads U (st, g) (announce_best_effort p i s st, g)"
proof -
  have key: "\<not> protected_key (list_item_key (announce_key s) t u)" for t u
    by (simp add: protected_key_def list_item_key_def announce_key_def wake_prefix_def wake_key_def session_grant_key_def list_key_prefix_def)
  have push: "keeps_protected c (pg_rpush now t u (announce_key s) v c)" for now t u v c
    using key by (auto simp: keeps_protected_def pg_rpush_def pg_set_def Let_def dest!: in_dict_set)
  have pushed: "keeps_protected c (pg_expire now k d (pg_rpush now' t u (announce_key s) v c))" for now now' k d t u v c
    using push [of c now' t u v] unfolding keeps_protected_def by (meson in_pg_expire)
  have "keeps_protected (ts_cache st) (ts_cache (announce_best_effort p i s st))"
    by (cases "ps_fault p") (simp_all add: announce_best_effort_def announce_approval_def push pushed keeps_protected_refl)
  from step.cache_else [OF this, of g] show ?thesis
    by (intro leads_step) (auto simp: announce_best_effort_def split: push_fault.splits)
qed

lemma persist_leads:
  assumes r: "reachable (st, g)" and run: "persist_approval_row run ctx m gs st = Inr (i, gs', st')"
    and wb: "well_behaved {} (gr_others run 4)" and new: "g_log g (gr_id run 4) = None"
  shows "\<exists>g'. leads {} (st, g) (st', g') \<and> i = gr_id run 4 \<and> describes g' i ctx m"
proof -
  let ?ins = "insert_for (gr_now run 4) (gr_id run 4) ctx m None None (ts_db st)"
  obtain row db where ins: "?ins = Inr (row, db)" "i = ar_id row"
      "st' = announce_best_effort (gr_stamp run 4) (ar_id row) (sc_session ctx) (gr_others run 4 (st\<lparr>ts_db := db\<rparr>))"
    using run by (auto simp: persist_approval_row_def insert_for_def bind_r_Inr_iff split: if_splits)
  obtain g1 where g1: "leads {} (st, g) (st\<lparr>ts_db := db\<rparr>, g1)" "reachable (st\<lparr>ts_db := db\<rparr>, g1)" "describes g1 (gr_id run 4) ctx m"
    using inserted_leads [OF r ins(1) new] by blast
  obtain g2 where g2: "leads {} (st\<lparr>ts_db := db\<rparr>, g1) (gr_others run 4 (st\<lparr>ts_db := db\<rparr>), g2)" "evolves g1 g2"
    using well_behavedE [OF wb g1(2)] by blast
  have "leads {} (st, g) (st', g2)"
    unfolding ins(3) by (rule leads_trans [OF leads_trans [OF g1(1) g2(1)] announce_leads])
  then show ?thesis using ins(2) insert_for_row(1) [OF ins(1)] describes_evolves [OF g1(3) g2(2)] by auto
qed

section \<open>The hook\<close>

definition lawful_gate :: "proxy_env \<Rightarrow> gate_run \<Rightarrow> bool" where
  "lawful_gate pe run \<longleftrightarrow> (\<forall>k. well_behaved {gr_id run 3, gr_id run 4} (gr_others run k))
     \<and> (\<forall>r \<in> set (pe_resolvers pe). lawful_resolver {gr_id run 3, gr_id run 4} r)
     \<and> (\<forall>t \<in> set (gr_turns run). lawful_turn t)"

lemma lawful_gateD:
  assumes "lawful_gate pe run"
  shows "well_behaved {gr_id run 3, gr_id run 4} (gr_others run k)" "well_behaved {} (gr_others run k)"
    "\<forall>r \<in> set (pe_resolvers pe). lawful_resolver {gr_id run 3, gr_id run 4} r" "\<forall>r \<in> set (pe_resolvers pe). lawful_resolver {} r"
    "\<forall>t \<in> set (gr_turns run). lawful_turn t"
  using assms well_behaved_weaken unfolding lawful_gate_def lawful_resolver_def by blast+

lemma approved_dispatch_leads:
  assumes r: "reachable (st, g)" and l: "lawful_gate pe run"
    and run: "dispatch_approved_request pe ctx m fl (gr_others run k st) = (fl', st')"
  shows "\<exists>g'. leads {} (st, g) (st', g')"
proof -
  obtain g1 where g1: "leads {} (st, g) (gr_others run k st, g1)" "reachable (gr_others run k st, g1)"
    using well_behavedE [OF lawful_gateD(2) [OF l] r] .
  obtain out where "dispatch_injection_or_block (pe_resolvers pe) fl (without_session ctx) (Some m) (gr_others run k st) = (out, fl', st')"
    using run by (cases "dispatch_injection_or_block (pe_resolvers pe) fl (without_session ctx) (Some m) (gr_others run k st)")
      (auto simp: dispatch_approved_request_def)
  from dispatch_leads [OF g1(2) lawful_gateD(4) [OF l] this] show ?thesis using leads_trans [OF g1(1)] by blast
qed

lemma ask_user_leads:
  assumes r: "reachable (st, g)" and l: "lawful_gate pe run" and new: "g_log g (gr_id run 4) = None"
    and run: "ask_user pe run ctx m fl gs st = (e, fl', gs', st')"
  shows "\<exists>g'. leads {} (st, g) (st', g')
    \<and> (e = Returned \<longrightarrow> fl_response fl' = None \<longrightarrow> approved_for g' (gr_id run 4) ctx m)"
proof (cases "persist_approval_row run ctx m gs st")
  case (Inl x)
  then show ?thesis using run by (auto simp: ask_user_def refuse_def)
next
  case (Inr x)
  obtain i gs1 st1 where x: "x = (i, gs1, st1)" by (cases x)
  obtain g1 where g1: "leads {} (st, g) (st1, g1)" "i = gr_id run 4" "describes g1 i ctx m"
    using persist_leads [OF r Inr [unfolded x] lawful_gateD(2) [OF l] new] by blast
  note r1 = leads_reachable [OF g1(1) r]
  obtain granted gs2 st2 where ap: "apply_approval_grant run 5 ctx m (Some i) gs1 st1 = (granted, gs2, st2)"
    by (metis prod_cases3)
  obtain g2 where g2: "leads {} (st1, g1) (st2, g2)" "\<And>j. granted = Some j \<Longrightarrow> approved_for g2 i ctx m"
    using apply_grant_pending [OF r1 ap lawful_gateD(2) [OF l] g1(3)] by blast
  note 2 = leads_trans [OF g1(1) g2(1)] and r2 = leads_reachable [OF g2(1) r1]
  have d2: "describes g2 i ctx m"
    using describes_evolves [OF g1(3)] leads_evolves [OF g2(1) r1] by simp
  have body: "(if gr_gone_at_recheck run then (HookCancelled, fl, gs2, st2)
        else if granted \<noteq> None then
          (let (fl', st3) = dispatch_approved_request pe ctx m fl (gr_others run 7 st2) in (Returned, fl', unpark ctx i gs2, st3))
        else (case await_decision (ge_wait_s pe) run i (gr_others run 8 st2) of
            (Decided d, st3) \<Rightarrow>
              (let fl1 = write_response_for_decision d fl in
               if d = APPROVED then
                 (let (fl', st4) = dispatch_approved_request pe ctx m fl1 (gr_others run 7 st3) in (Returned, fl', unpark ctx i gs2, st4))
               else (Returned, fl1, unpark ctx i gs2, st3))
          | (Raised, st3) \<Rightarrow> (Returned, refuse SANDBOX_INTERNAL_ERROR fl, unpark ctx i gs2, terminalize_after_unhandled_error run i st3)
          | (Cancelled, st3) \<Rightarrow> (HookCancelled, fl, unpark ctx i gs2, st3)
          | (Waiting, st3) \<Rightarrow> (HookWaiting, fl, gs2, st3))) = (e, fl', gs', st')"
    using run Inr x ap by (simp add: ask_user_def)
  show ?thesis
  proof (cases "gr_gone_at_recheck run \<or> granted \<noteq> None")
    case True
    show ?thesis
    proof (cases "gr_gone_at_recheck run")
      case False
      then obtain j where j: "granted = Some j" using True by auto
      then have "dispatch_approved_request pe ctx m fl (gr_others run 7 st2) = (fl', st')"
        using body False by (auto split: prod.splits)
      from approved_dispatch_leads [OF r2 l this] obtain g3 where g3: "leads {} (st2, g2) (st', g3)" by blast
      then show ?thesis
        using leads_trans [OF 2 g3] approved_evolves [OF g2(2) [OF j]] leads_evolves [OF g3 r2] g1(2) by auto
    qed (use body 2 in auto)
  next
    case False
    obtain g3 where g3: "leads {} (st2, g2) (gr_others run 8 st2, g3)" "reachable (gr_others run 8 st2, g3)" "evolves g2 g3"
      using well_behavedE [OF lawful_gateD(2) [OF l] r2] .
    obtain w st4 where w: "await_decision (ge_wait_s pe) run i (gr_others run 8 st2) = (w, st4)" by fastforce
    obtain g4 where g4: "leads {} (gr_others run 8 st2, g3) (st4, g4)" "w = Decided APPROVED \<Longrightarrow> recorded g4 i APPROVED"
      using await_leads [OF g3(2) lawful_gateD(5) [OF l] w] by blast
    note 4 = leads_trans [OF leads_trans [OF 2 g3(1)] g4(1)] and r4 = leads_reachable [OF g4(1) g3(2)]
    have d4: "describes g4 i ctx m"
      using describes_evolves [OF describes_evolves [OF d2 g3(3)]] leads_evolves [OF g4(1) g3(2)] by simp
    show ?thesis
    proof (cases "w = Decided APPROVED")
      case True
      then have "dispatch_approved_request pe ctx m fl (gr_others run 7 st4) = (fl', st')"
        using body False w by (auto simp: write_response_for_decision_def split: prod.splits)
      from approved_dispatch_leads [OF r4 l this] obtain g5 where g5: "leads {} (st4, g4) (st', g5)" by blast
      have "approved_for g4 i ctx m" using d4 g4(2) [OF True] by (simp add: approved_for_def)
      then show ?thesis
        using leads_trans [OF 4 g5] approved_evolves leads_evolves [OF g5 r4] g1(2) by auto
    next
      case not_approved: False
      then have "e = Returned \<Longrightarrow> fl_response fl' \<noteq> None" and "st' = st4 \<or> st' = terminalize_after_unhandled_error run i st4"
        using body False w
        by (auto simp: write_response_for_decision_def refuse_def Let_def split: wait_result.splits if_splits approval_decision.splits)
      moreover obtain g5 where "leads {} (st4, g4) (terminalize_after_unhandled_error run i st4, g5)"
        using terminalize_leads [OF r4] by blast
      ultimately obtain g6 where "leads {} (st, g) (st', g6)" using 4 leads_trans [OF 4] by blast
      then show ?thesis using \<open>e = Returned \<Longrightarrow> fl_response fl' \<noteq> None\<close> by (intro exI [of _ g6]) auto
    qed
  qed
qed

lemma gated_request_leads:
  assumes r: "reachable (st, g)" and l: "lawful_gate pe run" and new: "fresh {gr_id run 3, gr_id run 4} g"
    and run: "gated_request pe run ctx m fl gs st = (e, fl', gs', st')"
  shows "\<exists>g'. leads {} (st, g) (st', g') \<and> (e = Returned \<longrightarrow> fl_response fl' = None
    \<longrightarrow> (\<exists>i \<in> {gr_id run 3, gr_id run 4}. approved_for g' i ctx m))"
proof -
  obtain granted gs1 st1 where ap: "apply_approval_grant run 3 ctx m None gs st = (granted, gs1, st1)"
    by (metis prod_cases3)
  obtain g1 where g1: "leads {} (st, g) (st1, g1)" "granted = None \<Longrightarrow> leads {gr_id run 3, gr_id run 4} (st, g) (st1, g1)"
      "\<And>i. granted = Some i \<Longrightarrow> i = gr_id run 3 \<and> approved_for g1 i ctx m"
    using apply_grant_new [OF r ap lawful_gateD(1) [OF l] new] by auto
  note r1 = leads_reachable [OF g1(1) r]
  show ?thesis
  proof (cases granted)
    case None
    obtain g2 where g2: "leads {gr_id run 3, gr_id run 4} (st1, g1) (gr_others run 10 st1, g2)" "reachable (gr_others run 10 st1, g2)"
      using well_behavedE [OF lawful_gateD(1) [OF l] r1] .
    note 2 = leads_trans [OF g1(2) [OF None] g2(1)]
    have "g_log g2 (gr_id run 4) = None" using leads_fresh [OF 2] new by (simp add: fresh_def)
    moreover have "ask_user pe run ctx m fl gs1 (gr_others run 10 st1) = (e, fl', gs', st')"
      using run ap None by (simp add: gated_request_def)
    ultimately show ?thesis
      using ask_user_leads [OF g2(2) l] leads_trans [OF leads_weaken [OF 2]] by (metis insertI1 insertI2)
  next
    case (Some i)
    then have d: "dispatch_approved_request pe ctx m fl (gr_others run 7 st1) = (fl', st')"
      using run ap by (auto simp: gated_request_def split: prod.splits)
    obtain g2 where g2: "leads {} (st1, g1) (st', g2)" using approved_dispatch_leads [OF r1 l d] by blast
    then show ?thesis
      using leads_trans [OF g1(1) g2] g1(3) [OF Some] approved_evolves leads_evolves [OF g2 r1] by auto
  qed
qed

lemma dispatch_response:
  "dispatch_injection_or_block rs fl sandbox m st = (out, fl', st') \<Longrightarrow> fl_response fl' = None \<Longrightarrow> fl_response fl = None"
  by (auto simp: dispatch_injection_or_block_def apply_injection_def Let_def split: option.splits prod.splits sum.splits if_splits)

text \<open>What the recognition of a request settles.\<close>

lemma resolve_and_match_cases:
  assumes run: "resolve_and_match pe run fl gs st = (fl1, target, st1)"
  obtains x where "fl1 = refuse x fl" "target = None" "st1 \<in> {st, gr_others run 1 st, gr_others run 2 (gr_others run 1 st)}"
  | sandbox out where "identify pe run fl st = Some sandbox" "\<not> oversize (fl_request fl)" "target = None"
      "match_request pe run fl sandbox (gr_others run 1 st) = None"
      "dispatch_injection_or_block (pe_resolvers pe) fl sandbox None (gr_others run 1 st) = (out, fl1, st1)"
  | sandbox m out where "identify pe run fl st = Some sandbox" "\<not> oversize (fl_request fl)" "target = None"
      "match_request pe run fl sandbox (gr_others run 1 st) = Some m" "ma_policy (governing_action m) = ALWAYS"
      "dispatch_injection_or_block (pe_resolvers pe) fl sandbox (Some m) (gr_others run 2 (gr_others run 1 st)) = (out, fl1, st1)"
  | sandbox m s where "identify pe run fl st = Some sandbox" "\<not> oversize (fl_request fl)" "fl1 = fl"
      "match_request pe run fl sandbox (gr_others run 1 st) = Some m" "ma_policy (governing_action m) = ASK"
      "resolve_gated_session (pe_b64 pe) fl gs sandbox (ts_db (gr_others run 2 (gr_others run 1 st))) = Some s"
      "target = Some (with_session sandbox s, m)" "st1 = gr_others run 2 (gr_others run 1 st)"
proof (cases "identify pe run fl st")
  case None
  then show ?thesis using run that(1) by (auto simp: resolve_and_match_def)
next
  case (Some sandbox)
  show ?thesis
  proof (cases "oversize (fl_request fl)")
    case True
    then show ?thesis using run Some that(1) by (auto simp: resolve_and_match_def)
  next
    case False
    show ?thesis
    proof (cases "match_request pe run fl sandbox (gr_others run 1 st)")
      case None
      then show ?thesis using run Some False that(2) by (auto simp: resolve_and_match_def Let_def split: prod.splits)
    next
      case m: (Some m)
      show ?thesis
      proof (cases "ma_policy (governing_action m)")
        case ALWAYS
        then show ?thesis using run Some False m that(3) by (auto simp: resolve_and_match_def Let_def split: prod.splits)
      next
        case ASK
        let ?st2 = "gr_others run 2 (gr_others run 1 st)"
        let ?s = "if gr_down run 2 then None else resolve_gated_session (pe_b64 pe) fl gs sandbox (ts_db ?st2)"
        have ask: "(case ?s of None \<Rightarrow> (refuse NO_ACTIVE_SESSION fl, None, ?st2)
            | Some s \<Rightarrow> (fl, Some (with_session sandbox s, m), ?st2)) = (fl1, target, st1)"
          using run Some False m ASK by (simp add: resolve_and_match_def Let_def del: One_nat_def)
        show ?thesis
        proof (cases ?s)
          case None
          then show ?thesis using ask that(1) unfolding None by auto
        next
          case (Some s)
          have e: "fl1 = fl" "target = Some (with_session sandbox s, m)" "st1 = ?st2" using ask unfolding Some by simp_all
          have "resolve_gated_session (pe_b64 pe) fl gs sandbox (ts_db ?st2) = Some s" using Some by (simp split: if_splits)
          then show ?thesis by (rule that(4) [OF \<open>identify pe run fl st = Some sandbox\<close> False e(1) m ASK _ e(2,3)])
        qed
      next
        case DENY
        then show ?thesis using run Some False m that(1) by (auto simp: resolve_and_match_def Let_def)
      qed
    qed
  qed
qed

lemma resolve_and_match_leads:
  assumes r: "reachable (st, g)" and l: "lawful_gate pe run" and run: "resolve_and_match pe run fl gs st = (fl1, target, st1)"
  shows "\<exists>g'. leads {gr_id run 3, gr_id run 4} (st, g) (st1, g')"
proof -
  note wb = lawful_gateD(1) [OF l]
  obtain g1 where g1: "leads {gr_id run 3, gr_id run 4} (st, g) (gr_others run 1 st, g1)" "reachable (gr_others run 1 st, g1)"
    using well_behavedE [OF wb r] .
  obtain g2 where g2: "leads {gr_id run 3, gr_id run 4} (gr_others run 1 st, g1) (gr_others run 2 (gr_others run 1 st), g2)"
      "reachable (gr_others run 2 (gr_others run 1 st), g2)"
    using well_behavedE [OF wb g1(2)] .
  note 2 = leads_trans [OF g1(1) g2(1)]
  show ?thesis
    using run
  proof (cases rule: resolve_and_match_cases)
    case (2 sandbox out)
    from dispatch_leads [OF g1(2) lawful_gateD(3) [OF l] 2(5)] show ?thesis using leads_trans [OF g1(1)] by blast
  next
    case (3 sandbox m out)
    from dispatch_leads [OF g2(2) lawful_gateD(3) [OF l] 3(6)] show ?thesis
      using leads_trans [OF leads_trans [OF g1(1) g2(1)]] by blast
  qed (use 2 g1(1) in auto)
qed

section \<open>Requests that leave the proxy\<close>

text \<open>The last clause: the owner of the sandbox has approved this request, in the session its tag names, and
  the session is the owner's.\<close>

definition authorised :: "proxy_env \<Rightarrow> gate_run \<Rightarrow> flow \<Rightarrow> gate_state \<Rightarrow> tenant_data \<Rightarrow> ghost \<Rightarrow> bool" where
  "authorised pe run fl gs st g \<longleftrightarrow> (\<exists>sandbox body. identify pe run fl st = Some sandbox
     \<and> hr_body (fl_request fl) = Some body \<and> length body \<le> parser_max_body_bytes
     \<and> (case match_request pe run fl sandbox (gr_others run 1 st) of
          None \<Rightarrow> True
        | Some m \<Rightarrow> (case ma_policy (governing_action m) of
             DENY \<Rightarrow> False
           | ALWAYS \<Rightarrow> True
           | ASK \<Rightarrow> (\<exists>s x i. resolve_gated_session (pe_b64 pe) fl gs sandbox (ts_db (gr_others run 2 (gr_others run 1 st))) = Some s
                \<and> x \<in> set (t_sessions (ts_db (gr_others run 2 (gr_others run 1 st)))) \<and> bs_id x = s \<and> bs_user x = Some (rs_user sandbox)
                \<and> i \<in> {gr_id run 3, gr_id run 4} \<and> approved_for g i (with_session sandbox s) m))))"

lemma gated_session_owner:
  assumes "resolve_gated_session b64 fl gs sandbox db = Some s"
  shows "\<exists>x \<in> set (t_sessions db). bs_id x = s \<and> bs_user x = Some (rs_user sandbox)"
  using assms
  by (auto simp: resolve_gated_session_def resolve_session_by_id_def get_build_session_def split: option.splits sum.splits
      dest!: find_SomeD)

text \<open>C1: Nothing leaves a sandbox that should not.  When the hook returns without setting a response, so that
  the proxy forwards the request, the destination was not blocked, the sandbox behind the connection is
  known, the body was small enough to be inspected, no matched action is denied, and an action that asks
  has a row of its own in the history of approvals that records the decision \<open>approved\<close> for these actions
  in a session of the sandbox's owner.  Other requests, timeouts and deletions may interfere at every
  await, the wake signal may come from anywhere, databases and caches may fail.\<close>

theorem forwarded_only_when_allowed:
  assumes "reachable (st, g)" and "lawful_gate pe run" and "fresh {gr_id run 3, gr_id run 4} g"
    and "request pe run fl gs st = (Returned, fl', gs', st')" and "fl_response fl' = None"
  shows "destination_is_blocked (gate_env.truncate pe) (fl_host fl) (fl_port fl) = Inr False
    \<and> (\<exists>g'. steps (st, g) (st', g') \<and> authorised pe run fl gs (gr_others run 0 st) g')"
proof -
  let ?U = "{gr_id run 3, gr_id run 4}" and ?st0 = "gr_others run 0 st"
  note wb = lawful_gateD(1) [OF assms(2)]
  obtain fl1 target st1 where m: "resolve_and_match pe run fl gs ?st0 = (fl1, target, st1)" by (metis prod_cases3)
  have open_dest: "destination_is_blocked (gate_env.truncate pe) (fl_host fl) (fl_port fl) = Inr False"
    using assms(4,5) by (auto simp: request_def refuse_def split: sum.splits bool.splits)
  let ?fl2 = "fl1\<lparr>fl_headers := dict_del proxy_authorization (fl_headers fl1)\<rparr>"
  have hook: "(case target of None \<Rightarrow> (Returned, ?fl2, gs, st1)
      | Some (ctx, m) \<Rightarrow> gated_request pe run ctx m ?fl2 gs (gr_others run 11 st1)) = (Returned, fl', gs', st')"
    using assms(4) open_dest m by (simp add: request_def Let_def)
  obtain g0 where g0: "leads ?U (st, g) (?st0, g0)" "reachable (?st0, g0)"
    using well_behavedE [OF wb assms(1)] .
  obtain g1 where g1: "leads ?U (?st0, g0) (st1, g1)" using resolve_and_match_leads [OF g0(2) assms(2) m] by blast
  note 1 = leads_trans [OF g0(1) g1] and r1 = leads_reachable [OF g1 g0(2)]
  have small: "\<exists>body. hr_body rq = Some body \<and> length body \<le> parser_max_body_bytes" if "\<not> oversize rq" for rq
    using that by (auto simp: oversize_def split: option.splits)
  have "\<exists>g'. steps (st, g) (st', g') \<and> authorised pe run fl gs ?st0 g'"
    using m
  proof (cases rule: resolve_and_match_cases)
    case (4 sandbox m s)
    obtain g2 where g2: "leads ?U (st1, g1) (gr_others run 11 st1, g2)" "reachable (gr_others run 11 st1, g2)"
      using well_behavedE [OF wb r1] .
    note 2 = leads_trans [OF 1 g2(1)]
    have "gated_request pe run (with_session sandbox s) m ?fl2 gs (gr_others run 11 st1) = (Returned, fl', gs', st')"
      using hook 4(7) by simp
    from gated_request_leads [OF g2(2) assms(2) _ this] leads_fresh [OF 2] assms(3,5)
    obtain g3 i where "leads {} (gr_others run 11 st1, g2) (st', g3)" "i \<in> ?U" "approved_for g3 i (with_session sandbox s) m" by auto
    then show ?thesis
      using leads_trans [OF leads_weaken [OF 2]] 4(1,4,5,6) small [OF 4(2)] gated_session_owner [OF 4(6)]
      by (fastforce simp: leads_def authorised_def)
  next
    case (1 x)
    then show ?thesis using hook assms(5) by (auto simp: refuse_def)
  next
    case (2 sandbox out)
    then show ?thesis using hook 1 small [OF 2(2)] by (auto simp: leads_def authorised_def)
  next
    case (3 sandbox m out)
    then show ?thesis using hook 1 small [OF 3(2)] by (auto simp: leads_def authorised_def)
  qed
  then show ?thesis using open_dest by blast
qed

section \<open>An example\<close>

text \<open>A scheduled task's run asks to delete a repository; the task pre-approves the app.\<close>

definition gate_example_state :: tenant_data where
  "gate_example_state = \<lparr>ts_db = \<lparr>t_external = github_db, t_sessions = [\<lparr>bs_id = 1, bs_user = Some 7\<rparr>], t_approvals = [],
     t_runs = [\<lparr>tr_id = 9, tr_task = 4, tr_session = Some 1, tr_status = RUN_RUNNING\<rparr>],
     t_pre_approved = [\<lparr>pa_id = 1, pa_task = 4, pa_app = 3\<rparr>], t_sandboxes = [\<lparr>sb_id = 5, sb_user = 7, sb_pat = None\<rparr>]\<rparr>,
     ts_cache = []\<rparr>"

definition gate_example_env :: proxy_env where
  "gate_example_env = \<lparr>ge_api = None, ge_ipv6_address = (\<lambda>_. None), ge_getaddrinfo = (\<lambda>_ _. Inl OSError), ge_wait_s = 180,
     pe_lookup = (\<lambda>_. Some \<lparr>si_sandbox = 5, si_tenant = ''t'', si_name = ''s'', si_ip = ''10.0.0.5''\<rparr>),
     pe_readers = viewer_readers\<lparr>read_json := (\<lambda>s. Inl ValueError)\<rparr>, pe_resolvers = [],
     pe_b64 = (\<lambda>s. Some (uuid_str 1 @ '':x''))\<rparr>"

definition gate_example_flow :: flow where
  "gate_example_flow = \<lparr>fl_host = ''93.184.216.34'', fl_port = 443, fl_src = Some ''10.0.0.5'', fl_conn = None,
     fl_request = delete_repo, fl_headers = [(''proxy-authorization'', ''Basic eA=='')], fl_response = None\<rparr>"

definition gate_example_run :: gate_run where
  "gate_example_run = \<lparr>gr_others = (\<lambda>_ st. st), gr_down = (\<lambda>_. False), gr_now = (\<lambda>_. 0), gr_id = (\<lambda>k. if k = 3 then 103 else 104),
     gr_stamp = (\<lambda>_. quiet), gr_check = (\<lambda>_. Answers), gr_fault = (\<lambda>_. None), gr_start = 0, gr_turns = [],
     gr_wait_end = StillWaiting, gr_gone_at_recheck = False\<rparr>"

definition empty_gate :: gate_state where
  "empty_gate = \<lparr>gs_parked = [], gs_tags = [], gs_grants = []\<rparr>"

lemmas gate_example_defs = gate_example_state_def gate_example_env_def gate_example_flow_def gate_example_run_def empty_gate_def

lemma gate_example_runs [simp]: "gr_others gate_example_run k = (\<lambda>st. st)" "gr_down gate_example_run k = False"
  "gr_now gate_example_run k = 0" "fl_response gate_example_flow = None" "pe_resolvers gate_example_env = []"
  by (simp_all add: gate_example_run_def gate_example_flow_def gate_example_env_def)

lemma gate_example_open:
  "destination_is_blocked (gate_env.truncate gate_example_env) (fl_host gate_example_flow) (fl_port gate_example_flow) = Inr False"
proof -
  have "ipv4_address ''93.184.216.34'' = Inr 0x5DB8D822" "lower (strip ''93.184.216.34'') = ''93.184.216.34''" by code_simp+
  moreover have "ipv4_is_global 0x5DB8D822"
    by (simp add: ipv4_is_global_def in_network_iff private_networks_def private_exceptions_def)
  ultimately show ?thesis
    by (simp add: gate_example_defs destination_is_blocked_def is_api_server_def ip_address_of_def ip_is_internal_def Let_def
      gate_env.defs)
qed

abbreviation (input) example_sandbox :: resolved_sandbox where
  "example_sandbox \<equiv> \<lparr>rs_sandbox = 5, rs_user = 7, rs_tenant = ''t'', rs_name = ''s'', rs_ip = ''10.0.0.5''\<rparr>"

lemma gate_example_identified: "identify gate_example_env gate_example_run gate_example_flow gate_example_state = Some example_sandbox"
  "\<not> oversize (fl_request gate_example_flow)"
  "resolve_gated_session (pe_b64 gate_example_env) gate_example_flow empty_gate example_sandbox (ts_db gate_example_state) = Some 1"
proof -
  show "identify gate_example_env gate_example_run gate_example_flow gate_example_state = Some example_sandbox"
    by (simp add: gate_example_defs identify_def resolve_sandbox_def)
  show "\<not> oversize (fl_request gate_example_flow)"
    by (simp add: gate_example_flow_def delete_repo_def oversize_def parser_max_body_bytes_def)
qed code_simp

lemma gate_example_asks: obtains m where
  "match_request gate_example_env gate_example_run gate_example_flow example_sandbox gate_example_state = Some m"
  "ma_policy (governing_action m) = ASK" "am_app_id m = 3" "am_actions m \<noteq> []"
proof -
  have "map_option (\<lambda>m. (ma_policy (governing_action m), am_app_id m, am_actions m = []))
      (match_request gate_example_env gate_example_run gate_example_flow example_sandbox gate_example_state) = Some (ASK, 3, False)"
    by code_simp
  then show ?thesis using that by auto
qed

lemma gate_example_id [simp]: "gr_id gate_example_run 3 = 103" "gr_turns gate_example_run = []" "gr_id gate_example_run 4 = 104"
  by (simp_all add: gate_example_run_def)

lemma sorted_dump: obtains acts where "sorted_actions (matched_dump m) = Inr acts"
proof -
  have "policy_key (action_dump a) = Inr (policy_severity (ma_policy a))" for a
    by (simp add: policy_key_def action_dump_def)
  then have "map_r policy_key (map action_dump xs) = Inr (map (\<lambda>a. policy_severity (ma_policy a)) xs)" for xs
    by (induction xs) simp_all
  then show ?thesis using that by (simp add: sorted_actions_def matched_dump_def)
qed

lemma gate_example_forwards: obtains fl' gs' st' where
  "request gate_example_env gate_example_run gate_example_flow empty_gate gate_example_state = (Returned, fl', gs', st')"
  "fl_response fl' = None"
proof -
  obtain m where m: "match_request gate_example_env gate_example_run gate_example_flow example_sandbox gate_example_state = Some m"
      "ma_policy (governing_action m) = ASK" "am_app_id m = 3" "am_actions m \<noteq> []" by (rule gate_example_asks)
  obtain acts where acts: "sorted_actions (matched_dump m) = Inr acts" by (rule sorted_dump)
  let ?ctx = "with_session example_sandbox 1" and ?fl = "gate_example_flow\<lparr>fl_headers := []\<rparr>"
  have "live_grants 0 (ts_db gate_example_state) 1 empty_gate = (Some (9, [3]), empty_gate\<lparr>gs_grants := [(1, (Some (9, [3]), 0))]\<rparr>)"
    by code_simp
  then have grant: "resolve_approval_grant 0 check fault ?ctx m empty_gate gate_example_state
      = (Some PRE_APPROVAL, empty_gate\<lparr>gs_grants := [(1, (Some (9, [3]), 0))]\<rparr>, gate_example_state)" for check fault
    using m(3) by (simp add: resolve_approval_grant_def scheduled_task_grant_def with_session_def resolved_sandbox.defs session_context.defs)
  have known: "1 \<in> bs_id ` set (t_sessions (ts_db gate_example_state))" "3 \<in> ea_id ` set (t_apps (t_external (ts_db gate_example_state)))"
    by code_simp+
  have session: "sc_session ?ctx = 1" by (simp add: with_session_def resolved_sandbox.defs session_context.defs)
  have "matched_dump m \<noteq> []" using m(4) by (simp add: matched_dump_def)
  then obtain row db where "insert_action_approval 0 103 1 (matched_dump m) (am_app_name m) (am_payload m) (Some 3)
      (Some APPROVED) (Some PRE_APPROVAL) (ts_db gate_example_state) = Inr (row, db)"
    using acts known by (auto simp: insert_action_approval_def Let_def)
  then obtain i gs1 st1 where "apply_approval_grant gate_example_run 3 ?ctx m None empty_gate gate_example_state = (Some i, gs1, st1)"
    using grant m(3) session by (simp add: apply_approval_grant_def)
  moreover have "dict_del proxy_authorization (fl_headers gate_example_flow) = []" by code_simp
  ultimately have "request gate_example_env gate_example_run gate_example_flow empty_gate gate_example_state = (Returned, ?fl, gs1, st1)"
    using gate_example_open gate_example_identified m
    by (simp add: request_def resolve_and_match_def gated_request_def dispatch_approved_request_def
      dispatch_injection_or_block_def apply_injection_def Let_def)
  then show ?thesis using that by simp
qed

lemma forwarded_only_when_allowed_witness:
  "\<exists>g'. steps (gate_example_state, \<lparr>g_log = Map.empty, g_granted = {}\<rparr>) (snd (snd (snd (request gate_example_env gate_example_run gate_example_flow
      empty_gate gate_example_state))), g')
    \<and> authorised gate_example_env gate_example_run gate_example_flow empty_gate gate_example_state g'"
proof -
  obtain fl' gs' st' where run: "request gate_example_env gate_example_run gate_example_flow empty_gate gate_example_state
      = (Returned, fl', gs', st')" "fl_response fl' = None" by (rule gate_example_forwards)
  let ?c = "(gate_example_state, \<lparr>g_log = Map.empty, g_granted = {}\<rparr>)"
  have "initial ?c" by (simp add: initial_def gate_example_state_def)
  then have "reachable ?c" "fresh U (snd ?c)" for U by (auto simp: reachable_def fresh_def)
  moreover have "lawful_gate gate_example_env gate_example_run"
    by (simp add: lawful_gate_def well_behaved_id)
  ultimately show ?thesis using forwarded_only_when_allowed [OF _ _ _ run] by (simp add: run(1))
qed

end
