(* ===== verification/GateLiveness.thy ===== *)
theory GateLiveness
  imports GateSafety
begin

text \<open>
  The egress gate never holds a request for ever: the wait for a decision is a loop of blocking reads of
  the cache, and every turn of it takes a second of the clock that bounds the loop
  (\<open>sandbox_proxy/addons/gate.py\<close>, \<open>_await_decision\<close> and \<open>_wait_for_decision\<close>).  And it forgets a request
  when it is done with it: the set of parked approvals, which a drain works off, is left as it was.
\<close>

section \<open>The wait\<close>

text \<open>
  Clocks do not run backwards: a turn starts after the one before it has ended, a blocking read starts
  after the deadline was checked, and one of its scans finds that its second has passed.
\<close>

fun timely :: "int \<Rightarrow> turn list \<Rightarrow> bool" where
  "timely t [] \<longleftrightarrow> True"
| "timely t ((clock, start, scans, others) # turns) \<longleftrightarrow> t \<le> clock \<and> clock \<le> start
     \<and> list_ex (\<lambda>(now, c, h). start + second \<le> c) scans \<and> timely (start + second) turns"

lemma scan_wake_ends: "list_ex (\<lambda>(now, c, h). dl \<le> c) scans \<Longrightarrow> snd (scan_wake dl i scans st) \<noteq> None"
proof (induction scans arbitrary: st)
  case (Cons s scans)
  then show ?case by (cases s) (auto split: option.splits simp del: pg_scan.simps)
qed simp

text \<open>The seconds left go down with every turn.\<close>

lemma park_ends:
  assumes "timely t turns" and "dl \<le> t + (int (length turns) - 1) * second" and "turns \<noteq> []"
  shows "snd (park dl i turns st) \<noteq> None"
  using assms
proof (induction turns arbitrary: t st)
  case (Cons x turns)
  obtain clock start scans f where x: "x = (clock, start, scans, f)" by (cases x)
  have turn: "t \<le> clock" "clock \<le> start" "timely (start + second) turns" "list_ex (\<lambda>(now, c, h). start + second \<le> c) scans"
    using Cons.prems(1) by (simp_all add: x)
  show ?case
  proof (cases "dl - clock \<le> 0")
    case False
    then have "turns \<noteq> []" using Cons.prems(2) turn(1) by auto
    moreover have "dl \<le> start + second + (int (length turns) - 1) * second"
      using Cons.prems(2) turn(1,2) by (simp add: algebra_simps)
    ultimately have "snd (park dl i turns (f st')) \<noteq> None" for st' using Cons.IH [OF turn(3)] by blast
    moreover obtain st1 r where "scan_wake (start + second) i scans st = (st1, Some r)"
      using scan_wake_ends [OF turn(4), of i st] by (cases "scan_wake (start + second) i scans st") auto
    ultimately show ?thesis using False by (auto simp: x split: option.splits)
  qed (simp add: x)
qed simp

definition patient :: "proxy_env \<Rightarrow> gate_run \<Rightarrow> bool" where
  "patient pe run \<longleftrightarrow> timely (gr_start run) (gr_turns run) \<and> ge_wait_s pe < int (length (gr_turns run))"

lemma await_ends:
  assumes "patient pe run"
  shows "fst (await_decision (ge_wait_s pe) run i st) \<noteq> Waiting"
proof -
  have "snd (park (gr_start run + ge_wait_s pe * second) i (gr_turns run) st) \<noteq> None" if "\<not> ge_wait_s pe \<le> 0"
  proof (rule park_ends)
    show "timely (gr_start run) (gr_turns run)" "gr_turns run \<noteq> []" using assms that by (auto simp: patient_def)
    have "ge_wait_s pe \<le> int (length (gr_turns run)) - 1" using assms by (simp add: patient_def)
    then show "gr_start run + ge_wait_s pe * second \<le> gr_start run + (int (length (gr_turns run)) - 1) * second"
      by (simp add: second_def)
  qed
  then show ?thesis by (auto simp: await_decision_def Let_def split: prod.splits option.splits)
qed

section \<open>Parked approvals\<close>

definition parked_in :: "gate_state \<Rightarrow> string \<Rightarrow> uuid \<Rightarrow> bool" where
  "parked_in gs tenant i \<longleftrightarrow> (case dict_get (gs_parked gs) tenant of None \<Rightarrow> False | Some ids \<Rightarrow> i \<in> ids)"

lemma parked_grants [simp]: "parked_in (gs\<lparr>gs_grants := x\<rparr>) = parked_in gs"
  by (simp add: parked_in_def fun_eq_iff)

lemma parked_add [simp]:
  "parked_in (gs\<lparr>gs_parked := parked_add tenant i (gs_parked gs)\<rparr>) t j \<longleftrightarrow> parked_in gs t j \<or> t = tenant \<and> j = i"
  by (auto simp: parked_in_def parked_add_def split: option.splits)

lemma parked_remove [simp]:
  "parked_in (gs\<lparr>gs_parked := parked_remove tenant i (gs_parked gs)\<rparr>) t j \<longleftrightarrow> parked_in gs t j \<and> \<not> (t = tenant \<and> j = i)"
  by (auto simp: parked_in_def parked_remove_def split: option.splits)

lemma apply_grant_parked: "apply_approval_grant run k ctx m x gs st = (r, gs', st') \<Longrightarrow> parked_in gs' = parked_in gs"
  by (auto simp: apply_approval_grant_def resolve_approval_grant_def scheduled_task_grant_def live_grants_def Let_def
      split: if_splits prod.splits option.splits sum.splits)

lemma ask_user_ends:
  assumes "patient pe run" and run: "ask_user pe run ctx m fl gs st = (e, fl', gs', st')"
  shows "e \<noteq> HookWaiting \<and> (\<not> gr_gone_at_recheck run \<longrightarrow> \<not> parked_in gs (rs_tenant ctx) (gr_id run 4) \<longrightarrow> parked_in gs' = parked_in gs)"
proof (cases "persist_approval_row run ctx m gs st")
  case (Inl x)
  then show ?thesis using run by (auto simp: ask_user_def)
next
  case (Inr x)
  obtain i gs1 st1 where x: "x = (i, gs1, st1)" by (cases x)
  have i: "i = gr_id run 4" "gs1 = gs\<lparr>gs_parked := parked_add (rs_tenant ctx) i (gs_parked gs)\<rparr>"
    using Inr x by (auto simp: persist_approval_row_def bind_r_Inr_iff insert_action_approval_def Let_def split: if_splits)
  obtain granted gs2 st2 where ap: "apply_approval_grant run 5 ctx m (Some i) gs1 st1 = (granted, gs2, st2)"
    by (metis prod_cases3)
  have "parked_in (unpark ctx i gs2) = parked_in gs" if "\<not> parked_in gs (rs_tenant ctx) i"
    using that apply_grant_parked [OF ap] by (auto simp: unpark_def i(2) fun_eq_iff)
  moreover obtain w st4 where w: "await_decision (ge_wait_s pe) run i (gr_others run 8 st2) = (w, st4)" by fastforce
  moreover have "w \<noteq> Waiting" using await_ends [OF assms(1)] w by (metis fst_conv)
  ultimately show ?thesis
    using run Inr x ap i(1) by (auto simp: ask_user_def Let_def split: if_splits prod.splits wait_result.splits)
qed


text \<open>The exception is real: a client that leaves at that point leaves its row parked, and pending when nobody
  decides it meanwhile.\<close>

lemma client_gone_leaves_parked:
  assumes "persist_approval_row run ctx m gs st = Inr (i, gs1, st1)" and "gr_gone_at_recheck run"
    and "ask_user pe run ctx m fl gs st = (e, fl', gs', st')"
  shows "e = HookCancelled \<and> parked_in gs' (rs_tenant ctx) (gr_id run 4)
    \<and> (gr_down run 5 \<longrightarrow> st' = st1)"
proof -
  have "gs1 = gs\<lparr>gs_parked := parked_add (rs_tenant ctx) (gr_id run 4) (gs_parked gs)\<rparr>"
    using assms(1) by (auto simp: persist_approval_row_def bind_r_Inr_iff insert_action_approval_def Let_def split: if_splits)
  moreover obtain granted where "apply_approval_grant run 5 ctx m (Some i) gs1 st1 = (granted, gs', st')" "e = HookCancelled"
    using assms by (auto simp: ask_user_def split: prod.splits)
  ultimately show ?thesis using apply_grant_parked [of run 5 ctx m "Some i" gs1 st1 granted gs' st']
    by (auto simp: apply_approval_grant_def)
qed

definition waiting_run :: gate_run where
  "waiting_run = gate_example_run\<lparr>gr_turns := [(0, 0, [(0, 0, id), (second, second, id)], id),
     (second, second, [(second, 2 * second, id)], id)]\<rparr>"


end
