(* ===== verification/Citations.thy ===== *)
theory Citations
  imports PyValue
begin

text \<open>
  Citations in streamed answers (\<open>chat/citation_processor.py\<close>, \<open>chat/citation_utils.py\<close>): the tokens of a
  model's answer arrive one by one, markers like \<open>[1, 2]\<close> are found although tokens split them, and are
  removed, kept or turned into links; afterwards the numbers of an answer are collapsed.  Texts are lists
  of code points, because the markers may use wide brackets.
\<close>

section \<open>Texts\<close>

type_synonym ustring = "nat list"

definition points :: "string \<Rightarrow> ustring" where
  "points s = map of_char s"

text \<open>The tables of Unicode are an argument: the value of a decimal digit and what counts as white space.\<close>

record unicode =
  uc_decimal :: "nat \<Rightarrow> nat option"
  uc_space :: "nat \<Rightarrow> bool"

definition is_decimal :: "unicode \<Rightarrow> nat \<Rightarrow> bool" where
  "is_decimal u c \<longleftrightarrow> uc_decimal u c \<noteq> None"

text \<open>\<open>s.split(sep)\<close> for a separator that is not empty.\<close>

function split_text :: "ustring \<Rightarrow> ustring \<Rightarrow> ustring list" where
  "split_text sep [] = [[]]"
| "split_text sep (c # s) =
    (if sep \<noteq> [] \<and> prefix sep (c # s) then [] # split_text sep (drop (length sep) (c # s))
     else (case split_text sep s of p # ps \<Rightarrow> (c # p) # ps | [] \<Rightarrow> [[c]]))"
  by pat_completeness auto
termination by (relation "measure (\<lambda>(sep, s). length s)") auto

definition triple_backtick :: ustring where
  "triple_backtick = points ''```''"

definition in_code_block :: "ustring \<Rightarrow> bool" where
  "in_code_block s \<longleftrightarrow> odd (length (split_text triple_backtick s) - 1)"

section \<open>Patterns\<close>

definition open_brackets :: "nat list" where "open_brackets = [0x5B, 0x3010, 0xFF3B]"
definition close_brackets :: "nat list" where "close_brackets = [0x5D, 0x3011, 0xFF3D]"
abbreviation comma :: nat where "comma \<equiv> 44"
abbreviation blank :: nat where "blank \<equiv> 32"

text \<open>One or more digits; what follows them.\<close>

definition after_digits :: "(nat \<Rightarrow> bool) \<Rightarrow> ustring \<Rightarrow> ustring option" where
  "after_digits d s = (case s of [] \<Rightarrow> None | c # r \<Rightarrow> if d c then Some (dropWhile d r) else None)"

text \<open>A comma, at most one blank, and digits.\<close>

definition next_number :: "(nat \<Rightarrow> bool) \<Rightarrow> ustring \<Rightarrow> ustring option" where
  "next_number d s = (case s of [] \<Rightarrow> None
     | c # r \<Rightarrow> if c = comma then after_digits d (case r of x # q \<Rightarrow> if x = blank then q else r | [] \<Rightarrow> []) else None)"

text \<open>Any blanks, a comma, any blanks, and digits.\<close>

definition next_spaced_number :: "(nat \<Rightarrow> bool) \<Rightarrow> ustring \<Rightarrow> ustring option" where
  "next_spaced_number d s = (case dropWhile (\<lambda>c. c = blank) s of [] \<Rightarrow> None
     | c # r \<Rightarrow> if c = comma then after_digits d (dropWhile (\<lambda>c. c = blank) r) else None)"

text \<open>A step repeated as often as it applies and consumes something.\<close>

function skip :: "(ustring \<Rightarrow> ustring option) \<Rightarrow> ustring \<Rightarrow> ustring" where
  "skip step s = (case step s of None \<Rightarrow> s | Some r \<Rightarrow> if length r < length s then skip step r else s)"
  by pat_completeness auto
termination by (relation "measure (\<lambda>(step, s). length s)") auto

declare skip.simps [simp del]

text \<open>Two brackets around one number, or one bracket around numbers; what follows the match.\<close>

definition double_at :: "(nat \<Rightarrow> bool) \<Rightarrow> ustring \<Rightarrow> ustring option" where
  "double_at d s = (case s of
     a # b # r \<Rightarrow> if a \<in> set open_brackets \<and> b \<in> set open_brackets then
         (case after_digits d r of
            Some (x # y # q) \<Rightarrow> if x \<in> set close_brackets \<and> y \<in> set close_brackets then Some q else None
          | _ \<Rightarrow> None) else None
   | _ \<Rightarrow> None)"

definition single_at :: "(nat \<Rightarrow> bool) \<Rightarrow> (ustring \<Rightarrow> ustring option) \<Rightarrow> ustring \<Rightarrow> ustring option" where
  "single_at d step s = (case s of
     a # r \<Rightarrow> if a \<in> set open_brackets then
         (case after_digits d r of
            Some t \<Rightarrow> (case skip step t of x # q \<Rightarrow> if x \<in> set close_brackets then Some q else None | [] \<Rightarrow> None)
          | None \<Rightarrow> None) else None
   | [] \<Rightarrow> None)"

definition citation_at :: "(nat \<Rightarrow> bool) \<Rightarrow> (ustring \<Rightarrow> ustring option) \<Rightarrow> ustring \<Rightarrow> (bool \<times> ustring) option" where
  "citation_at d step s = (case double_at d s of Some q \<Rightarrow> Some (True, q) | None \<Rightarrow> map_option (Pair False) (single_at d step s))"

lemma after_digits_shorter: "after_digits d s = Some r \<Longrightarrow> length r < length s"
  by (auto simp: after_digits_def length_dropWhile_le le_imp_less_Suc split: list.splits if_splits)

lemma skip_shorter: "length (skip step s) \<le> length s"
  by (induction step s rule: skip.induct) (subst skip.simps, auto split: option.splits)

lemma citation_at_shorter: "citation_at d step s = Some (f, r) \<Longrightarrow> length r < length s"
proof -
  have "length q < length s" if "double_at d s = Some q" for q
    using that by (auto simp: double_at_def dest!: after_digits_shorter split: list.splits option.splits if_splits)
  moreover have "length q < length s" if single: "single_at d step s = Some q" for q
  proof -
    obtain a r t x where "s = a # r" "after_digits d r = Some t" "skip step t = x # q"
      using single by (auto simp: single_at_def split: list.splits option.splits if_splits)
    then show ?thesis using skip_shorter [of step t] after_digits_shorter [of d r t] by simp
  qed
  moreover assume "citation_at d step s = Some (f, r)"
  ultimately show ?thesis by (auto simp: citation_at_def split: option.splits)
qed

text \<open>
  \<open>finditer\<close>: the matches from the left, each with the text before it, the form of its brackets and its own
  text, and the text after the last one.
\<close>

function find_citations :: "(nat \<Rightarrow> bool) \<Rightarrow> (ustring \<Rightarrow> ustring option) \<Rightarrow> ustring \<Rightarrow> ustring \<Rightarrow> (ustring \<times> bool \<times> ustring) list \<times> ustring" where
  "find_citations d step acc [] = ([], acc)"
| "find_citations d step acc (c # s) = (case citation_at d step (c # s) of
     None \<Rightarrow> find_citations d step (acc @ [c]) s
   | Some (f, r) \<Rightarrow> (let (ms, rest) = find_citations d step [] r
        in ((acc, f, take (length (c # s) - length r) (c # s)) # ms, rest)))"
  by pat_completeness auto
termination
  by (relation "measure (\<lambda>(d, step, acc, s). length s)") (auto dest: citation_at_shorter)

text \<open>The end of the text, where \<open>$\<close> matches: also before a last line feed.\<close>

definition at_end :: "ustring \<Rightarrow> bool" where
  "at_end s \<longleftrightarrow> s = [] \<or> s = [10]"

text \<open>Brackets, then perhaps numbers, then perhaps a comma and a blank, then the end.\<close>

definition possible_at :: "(nat \<Rightarrow> bool) \<Rightarrow> ustring \<Rightarrow> bool" where
  "possible_at d s \<longleftrightarrow> (case s of [] \<Rightarrow> False
     | c # _ \<Rightarrow> c \<in> set open_brackets \<and> (let r = dropWhile (\<lambda>c. c \<in> set open_brackets) s in
         at_end r \<or> (case after_digits d r of None \<Rightarrow> False
           | Some t \<Rightarrow> (case skip (next_number d) t of [] \<Rightarrow> True
               | x # q \<Rightarrow> at_end (x # q) \<or> x = comma \<and> (at_end q \<or> (case q of [] \<Rightarrow> False | y # z \<Rightarrow> y = blank \<and> at_end z))))))"

fun possible_citation :: "(nat \<Rightarrow> bool) \<Rightarrow> ustring \<Rightarrow> bool" where
  "possible_citation d [] = False"
| "possible_citation d (c # s) = (possible_at d (c # s) \<or> possible_citation d s)"

section \<open>The processor\<close>

record search_doc =
  sd_id :: string
  sd_link :: "ustring option"

datatype citation_mode = REMOVE | KEEP_MARKERS | HYPERLINK

text \<open>What is yielded: text to show, or the number and the document of a new citation.\<close>

datatype yielded = Shown ustring | CitationInfo int string

type_synonym citation_mapping = "(int, search_doc) dict"

record processor =
  citation_to_doc :: citation_mapping
  seen_citations :: citation_mapping
  llm_out :: ustring
  curr_segment :: ustring
  hold :: ustring
  stop_stream :: "ustring option"
  mode :: citation_mode
  cited_documents_in_order :: "search_doc list"
  cited_document_ids :: "string set"
  recent_cited_documents :: "string set"
  non_citation_count :: nat

definition new_processor :: "citation_mode \<Rightarrow> ustring option \<Rightarrow> processor" where
  "new_processor m stop = \<lparr>citation_to_doc = [], seen_citations = [], llm_out = [], curr_segment = [], hold = [],
     stop_stream = stop, mode = m, cited_documents_in_order = [], cited_document_ids = {}, recent_cited_documents = {},
     non_citation_count = 0\<rparr>"

definition update_citation_mapping :: "citation_mapping \<Rightarrow> bool \<Rightarrow> processor \<Rightarrow> processor" where
  "update_citation_mapping cm update_duplicate_keys p =
    p\<lparr>citation_to_doc := dict_update (citation_to_doc p)
       (if update_duplicate_keys then cm else filter (\<lambda>(k, _). k \<notin> set (dict_keys (citation_to_doc p))) cm)\<rparr>"

text \<open>\<open>int\<close> of decimal digits; more than 4300 are refused.\<close>

definition int_max_str_digits :: nat where "int_max_str_digits = 4300"

definition parse_number :: "unicode \<Rightarrow> ustring \<Rightarrow> int option" where
  "parse_number u s = (if s = [] \<or> int_max_str_digits < length s \<or> \<not> list_all (is_decimal u) s then None
     else Some (int (foldl (\<lambda>n c. 10 * n + the (uc_decimal u c)) 0 s)))"

text \<open>The text between the brackets of a match, cut at commas.\<close>

definition citation_content :: "bool \<Rightarrow> ustring \<Rightarrow> ustring" where
  "citation_content formatted m = (let k = if formatted then 2 else 1 in take (length m - 2 * k) (drop k m))"

definition number_texts :: "unicode \<Rightarrow> bool \<Rightarrow> ustring \<Rightarrow> ustring list" where
  "number_texts u formatted m = map (strip_by (uc_space u)) (split_on comma (citation_content formatted m))"

definition citation_link :: "int \<Rightarrow> search_doc \<Rightarrow> ustring" where
  "citation_link num doc = points (''[['' @ int_str num @ '']]('') @ (case sd_link doc of None \<Rightarrow> [] | Some l \<Rightarrow> l) @ points '')''"

text \<open>Only a document that is neither recent nor cited before is announced.\<close>

definition note_cited :: "int \<Rightarrow> search_doc \<Rightarrow> processor \<Rightarrow> yielded list \<times> processor" where
  "note_cited num doc p =
    (if sd_id doc \<in> recent_cited_documents p then ([], p)
     else let p1 = p\<lparr>recent_cited_documents := insert (sd_id doc) (recent_cited_documents p)\<rparr> in
       if sd_id doc \<in> cited_document_ids p1 then ([], p1)
       else ([CitationInfo num (sd_id doc)],
             p1\<lparr>cited_document_ids := insert (sd_id doc) (cited_document_ids p1),
                cited_documents_in_order := cited_documents_in_order p1 @ [doc]\<rparr>))"

fun cite_numbers :: "unicode \<Rightarrow> ustring list \<Rightarrow> processor \<Rightarrow> ustring list \<times> yielded list \<times> processor" where
  "cite_numbers u [] p = ([], [], p)"
| "cite_numbers u (s # ss) p = (case parse_number u s of
     None \<Rightarrow> cite_numbers u ss p
   | Some num \<Rightarrow> (case dict_get (citation_to_doc p) num of
        None \<Rightarrow> cite_numbers u ss p
      | Some doc \<Rightarrow>
         (let p1 = p\<lparr>seen_citations := dict_set num doc (seen_citations p)\<rparr> in
          if mode p1 \<noteq> HYPERLINK then cite_numbers u ss p1
          else (let (info, p2) = note_cited num doc p1; (parts, infos, p3) = cite_numbers u ss p2
                in (citation_link num doc # parts, info @ infos, p3)))))"

definition process_citation :: "unicode \<Rightarrow> bool \<Rightarrow> ustring \<Rightarrow> bool \<Rightarrow> processor \<Rightarrow> ustring \<times> yielded list \<times> processor" where
  "process_citation u formatted m has_leading_space p =
    (let (parts, infos, p') = cite_numbers u (number_texts u formatted m) p; shown = join [blank] parts
     in (if shown \<noteq> [] \<and> \<not> has_leading_space then blank # shown else shown, infos, p'))"

definition shown_text :: "ustring \<Rightarrow> yielded list" where
  "shown_text s = (if s = [] then [] else [Shown s])"

definition no_space_before :: "unicode \<Rightarrow> nat \<Rightarrow> bool" where
  "no_space_before u c \<longleftrightarrow> uc_space u c \<or> c \<in> set (points ''.,;:!?)]}'')"

text \<open>
  The matches of a segment in turn, with the text that remains after each.  The test for a space before a
  citation without text before it looks at \<open>match_idx\<close> after that was set to the end of the match, so it
  always finds a position greater than 0 and reports a space.
\<close>

fun emit_citations :: "unicode \<Rightarrow> (ustring \<times> bool \<times> ustring) list \<Rightarrow> ustring \<Rightarrow> processor \<Rightarrow> yielded list \<times> processor" where
  "emit_citations u [] rest p = ([], p)"
| "emit_citations u ((intermatch, formatted, m) # ms) rest p =
    (let count = non_citation_count p + length intermatch;
         has_leading_space = (if intermatch \<noteq> [] then uc_space u (last intermatch) else True);
         p1 = p\<lparr>non_citation_count := count,
            recent_cited_documents := (if 5 < count then {} else recent_cited_documents p)\<rparr>;
         (shown, infos, p2) = process_citation u formatted m has_leading_space p1;
         remaining = concat (map (\<lambda>(a, _, b). a @ b) ms) @ rest;
         out = (case mode p of
            HYPERLINK \<Rightarrow> shown_text intermatch @ infos @ shown_text shown
          | KEEP_MARKERS \<Rightarrow> shown_text intermatch @ [Shown m]
          | REMOVE \<Rightarrow> shown_text (if intermatch \<noteq> [] \<and> uc_space u (last intermatch) \<and> remaining \<noteq> [] \<and> no_space_before u (hd remaining)
               then rev (dropWhile (uc_space u) (rev intermatch)) else intermatch));
         (outs, p3) = emit_citations u ms rest (p2\<lparr>non_citation_count := 0\<rparr>)
     in (out @ outs, p3))"

text \<open>A code block that starts in this segment without a language is given one.\<close>

definition add_language :: "ustring \<Rightarrow> ustring \<Rightarrow> ustring" where
  "add_language out seg =
    (if 96 \<notin> set seg \<or> last seg = 96 then seg
     else case split_text triple_backtick seg of
        _ # (c # _) # _ \<Rightarrow> if c = 10 \<and> in_code_block out
            then join (triple_backtick @ points ''plaintext'') (split_text triple_backtick seg) else seg
      | _ \<Rightarrow> seg)"

definition proceed :: "unicode \<Rightarrow> ustring \<Rightarrow> processor \<Rightarrow> yielded list \<times> processor" where
  "proceed u token p =
    (let out = llm_out p @ token; seg = add_language out (curr_segment p @ token); d = is_decimal u;
         (ms, rest) = find_citations d (next_number d) [] seg;
         p1 = p\<lparr>llm_out := out, curr_segment := seg\<rparr>;
         (outs, p2) = (if ms \<noteq> [] \<and> \<not> in_code_block out
            then (let (outs, p2) = emit_citations u ms rest p1
                  in (outs, p2\<lparr>curr_segment := rest, non_citation_count := length rest\<rparr>))
            else ([], p1))
     in if possible_citation d seg then (outs, p2)
        else (outs @ shown_text (curr_segment p2),
              p2\<lparr>curr_segment := [], non_citation_count := non_citation_count p2 + length (curr_segment p2)\<rparr>))"

text \<open>A token, or the end of the stream.\<close>

definition process_token :: "unicode \<Rightarrow> ustring option \<Rightarrow> processor \<Rightarrow> yielded list \<times> processor" where
  "process_token u token p = (case token of
     None \<Rightarrow> (shown_text (curr_segment p), p)
   | Some tok \<Rightarrow> (case stop_stream p of
        None \<Rightarrow> proceed u tok p
      | Some stop \<Rightarrow> if stop = [] then proceed u tok p
          else let next_hold = hold p @ tok; parts = split_text stop next_hold in
            if 1 < length parts then (if hd parts = [] then ([], p) else proceed u (hd parts) (p\<lparr>hold := []\<rparr>))
            else if prefix next_hold stop then ([], p\<lparr>hold := next_hold\<rparr>)
            else proceed u next_hold (p\<lparr>hold := []\<rparr>)))"

definition get_cited_document_ids :: "processor \<Rightarrow> string list" where
  "get_cited_document_ids p = map sd_id (cited_documents_in_order p)"

definition reset_recent_citations :: "processor \<Rightarrow> processor" where
  "reset_recent_citations p = p\<lparr>recent_cited_documents := {}\<rparr>"

text \<open>One more than the greatest number in use.\<close>

definition first_free :: "citation_mapping \<Rightarrow> int" where
  "first_free cm = (if cm = [] then 1 else Max (set (dict_keys cm)) + 1)"

definition get_next_citation_number :: "processor \<Rightarrow> int" where
  "get_next_citation_number p = first_free (citation_to_doc p)"

section \<open>Afterwards\<close>

definition citeable_docs :: "search_doc list \<Rightarrow> (int, string) dict \<Rightarrow> citation_mapping" where
  "citeable_docs docs cm = fold (\<lambda>(num, i) acc. case find (\<lambda>x. sd_id x = i) docs of
     None \<Rightarrow> acc | Some x \<Rightarrow> dict_set num x acc) cm []"

text \<open>The tool that was called, if any, and its search result, if it is one.\<close>

definition update_from_tool_response ::
  "string list \<Rightarrow> string option \<Rightarrow> (search_doc list \<times> (int, string) dict) option \<Rightarrow> processor \<Rightarrow> processor" where
  "update_from_tool_response citeable_tools tool response p = (case (tool, response) of
     (Some name, Some (docs, cm)) \<Rightarrow> if name \<in> set citeable_tools
        then update_citation_mapping (citeable_docs docs cm) False p else p
   | _ \<Rightarrow> p)"

definition extract_citation_order_from_text :: "unicode \<Rightarrow> ustring \<Rightarrow> int list" where
  "extract_citation_order_from_text u s =
    (let d = is_decimal u; (ms, _) = find_citations d (next_spaced_number d) [] s;
         nums = List.map_filter (parse_number u) (concat (map (\<lambda>(_, formatted, m). number_texts u formatted m) ms))
     in rev (remdups (rev nums)))"

text \<open>The new number of each old one, and the new part of the mapping.\<close>

fun assign_numbers :: "(string, int) dict \<Rightarrow> int \<Rightarrow> citation_mapping \<Rightarrow> (int \<times> int \<times> string) list \<Rightarrow> (int \<times> int \<times> string) list \<times> citation_mapping" where
  "assign_numbers existing next_num [] assigned = (assigned, [])"
| "assign_numbers existing next_num ((old, doc) # new_citations) assigned = (case dict_get existing (sd_id doc) of
     Some n \<Rightarrow> assign_numbers existing next_num new_citations (assigned @ [(old, n, sd_id doc)])
   | None \<Rightarrow> (case find (\<lambda>(_, _, i). i = sd_id doc) assigned of
        Some (_, n, _) \<Rightarrow> assign_numbers existing next_num new_citations (assigned @ [(old, n, sd_id doc)])
      | None \<Rightarrow> (let (a, more) = assign_numbers existing (next_num + 1) new_citations (assigned @ [(old, next_num, sd_id doc)])
           in (a, (next_num, doc) # more))))"

definition existing_numbers :: "citation_mapping \<Rightarrow> (string, int) dict" where
  "existing_numbers existing = fold (\<lambda>(n, doc). dict_set (sd_id doc) n) existing []"

definition replace_citation :: "unicode \<Rightarrow> (int, int) dict \<Rightarrow> ustring \<Rightarrow> ustring" where
  "replace_citation u old_to_new m =
    (let k = (if take 2 m \<in> set (map (\<lambda>b. [b, b]) open_brackets) then 2 else 1);
         nums = filter (\<lambda>s. s \<noteq> []) (map (strip_by (uc_space u)) (split_on comma (take (length m - 2 * k) (drop k m))));
         new = map (\<lambda>s. case parse_number u s of None \<Rightarrow> s
                 | Some n \<Rightarrow> (case dict_get old_to_new n of Some n' \<Rightarrow> points (int_str n') | None \<Rightarrow> s)) nums
     in take k m @ join (points '', '') new @ drop (length m - k) m)"

definition collapse_citations :: "unicode \<Rightarrow> ustring \<Rightarrow> citation_mapping \<Rightarrow> citation_mapping \<Rightarrow> ustring \<times> citation_mapping" where
  "collapse_citations u answer existing new_citations =
    (let (assigned, more) = assign_numbers (existing_numbers existing) (first_free existing) new_citations [];
         old_to_new = map (\<lambda>(old, n, _). (old, n)) assigned; d = is_decimal u;
         (ms, rest) = find_citations d (next_number d) [] answer
     in (concat (map (\<lambda>(a, _, m). a @ replace_citation u old_to_new m) ms) @ rest, dict_update existing more))"

section \<open>Matches in a longer text\<close>

text \<open>Brackets, commas, blanks and line feeds are no digits.\<close>

definition regular :: "unicode \<Rightarrow> bool" where
  "regular u \<longleftrightarrow> list_all (\<lambda>c. uc_decimal u c = None) (open_brackets @ close_brackets @ [comma, blank, 10])"

lemma regularD:
  assumes "regular u"
  shows "x \<in> set open_brackets \<Longrightarrow> \<not> is_decimal u x" "x \<in> set close_brackets \<Longrightarrow> \<not> is_decimal u x"
    "\<not> is_decimal u comma" "\<not> is_decimal u blank" "\<not> is_decimal u 10"
  using assms by (auto simp: regular_def is_decimal_def list_all_iff)

lemma bracket_facts [simp]:
  "x \<in> set close_brackets \<Longrightarrow> x \<notin> set open_brackets" "x \<in> set open_brackets \<Longrightarrow> x \<notin> set close_brackets"
  "comma \<notin> set open_brackets" "comma \<notin> set close_brackets" "blank \<notin> set open_brackets" "blank \<notin> set close_brackets"
  "10 \<notin> set close_brackets" "10 \<notin> set open_brackets" "96 \<notin> set open_brackets" "96 \<notin> set close_brackets"
  by (auto simp: open_brackets_def close_brackets_def)

lemma after_digits_append:
  "after_digits d s = Some r \<Longrightarrow> r \<noteq> [] \<Longrightarrow> after_digits d (s @ t) = Some (r @ t)"
  by (auto simp: after_digits_def dropWhile_append dropWhile_eq_Nil_conv split: list.splits if_splits)

lemma after_digits_append_None: "after_digits d s = None \<Longrightarrow> s \<noteq> [] \<Longrightarrow> after_digits d (s @ t) = None"
  by (auto simp: after_digits_def split: list.splits if_splits)

lemma next_number_append:
  assumes "next_number d s = Some r" and "r \<noteq> []"
  shows "next_number d (s @ t) = Some (r @ t)"
proof -
  obtain q where s: "s = comma # q" and a: "after_digits d (case q of x # q \<Rightarrow> if x = blank then q else x # q | [] \<Rightarrow> []) = Some r"
    using assms(1) by (auto simp: next_number_def split: list.splits if_splits)
  then have "q \<noteq> []" by (auto simp: after_digits_def)
  then show ?thesis using s after_digits_append [OF a assms(2), of t] by (auto simp: next_number_def split: list.splits if_splits)
qed

lemma skip_append:
  assumes "skip (next_number d) s = w" and "w \<noteq> []" and "next_number d (w @ t) = None"
  shows "skip (next_number d) (s @ t) = w @ t"
  using assms
proof (induction "length s" arbitrary: s rule: less_induct)
  case less
  show ?case
  proof (cases "next_number d s")
    case None
    then have "s = w" using less.prems(1) by (simp add: skip.simps)
    then show ?thesis using less.prems(3) by (simp add: skip.simps)
  next
    case (Some r)
    show ?thesis
    proof (cases "length r < length s")
      case True
      then have w: "skip (next_number d) r = w" using less.prems(1) Some by (simp add: skip.simps)
      then have "r \<noteq> []" using less.prems(2) by (auto simp: skip.simps next_number_def)
      then show ?thesis
        using less.hyps [OF True w less.prems(2,3)] next_number_append [OF Some] True by (simp add: skip.simps [of _ "s @ t"])
    next
      case False
      then have "s = w" using less.prems(1) Some by (simp add: skip.simps)
      then show ?thesis using less.prems(3) by (simp add: skip.simps)
    qed
  qed
qed

lemma next_number_shorter: "next_number d s = Some r \<Longrightarrow> length r < length s"
  by (auto simp: next_number_def dest!: after_digits_shorter split: list.splits if_splits)

lemma skip_stops: "next_number d (skip (next_number d) s) = None"
proof (induction "length s" arbitrary: s rule: less_induct)
  case less
  then show ?case
    by (cases "next_number d s") (auto simp: skip.simps [of _ s] dest: next_number_shorter)
qed

lemma double_atE:
  assumes "double_at d s = Some q"
  obtains a b r x y where "s = a # b # r" "a \<in> set open_brackets" "b \<in> set open_brackets" "after_digits d r = Some (x # y # q)"
    "x \<in> set close_brackets" "y \<in> set close_brackets"
  using assms by (auto simp: double_at_def split: list.splits option.splits if_splits)

lemma double_at_append: "double_at d s = Some q \<Longrightarrow> double_at d (s @ t) = Some (q @ t)"
proof (erule double_atE)
  fix a b r x y
  assume "s = a # b # r" "a \<in> set open_brackets" "b \<in> set open_brackets" "x \<in> set close_brackets" "y \<in> set close_brackets"
    and r: "after_digits d r = Some (x # y # q)"
  then show "double_at d (s @ t) = Some (q @ t)" using after_digits_append [OF r, of t] by (simp add: double_at_def)
qed

lemma single_atE:
  assumes "single_at d step s = Some q"
  obtains a z t x where "s = a # z" "a \<in> set open_brackets" "after_digits d z = Some t" "skip step t = x # q"
    "x \<in> set close_brackets"
  using assms by (auto simp: single_at_def split: list.splits option.splits if_splits)

text \<open>A match stays a match.\<close>

lemma citation_at_append:
  assumes u: "regular u" and m: "citation_at (is_decimal u) (next_number (is_decimal u)) s = Some (f, r)"
  shows "citation_at (is_decimal u) (next_number (is_decimal u)) (s @ t) = Some (f, r @ t)"
proof (cases "double_at (is_decimal u) s")
  case (Some q)
  then show ?thesis using m double_at_append [OF Some] by (simp add: citation_at_def)
next
  case None
  let ?d = "is_decimal u"
  have "single_at ?d (next_number ?d) s = Some r" and f: "\<not> f" using m None by (auto simp: citation_at_def)
  then obtain a z t1 x where s: "s = a # z" "a \<in> set open_brackets" "after_digits ?d z = Some t1"
      "skip (next_number ?d) t1 = x # r" "x \<in> set close_brackets"
    by (auto elim: single_atE)
  have "t1 \<noteq> []" using s(4) by (auto simp: skip.simps next_number_def)
  then have t1: "after_digits ?d (z @ t) = Some (t1 @ t)" using after_digits_append [OF s(3)] by blast
  have "next_number ?d ((x # r) @ t) = None" using s(5) by (auto simp: next_number_def)
  from skip_append [OF s(4) _ this] have "single_at ?d (next_number ?d) (s @ t) = Some (r @ t)"
    using s t1 by (simp add: single_at_def)
  moreover have "double_at ?d (s @ t) = None"
    using s(1,3) regularD(1) [OF u] by (auto simp: double_at_def after_digits_def split: list.splits if_splits)
  ultimately show ?thesis using f by (simp add: citation_at_def)
qed

text \<open>What is not yet a match but becomes one with more text: an unfinished marker, which is held, or a double
  bracket that lacks its last bracket.\<close>

lemma possible_at_numbers:
  assumes u: "regular u" and "ops \<noteq> []" "set ops \<subseteq> set open_brackets" and a: "after_digits (is_decimal u) s = Some w"
    and "skip (next_number (is_decimal u)) w \<in> {[], [comma], [comma, blank]}"
  shows "possible_at (is_decimal u) (ops @ s)"
proof -
  obtain o' ops' where ops: "ops = o' # ops'" "o' \<in> set open_brackets" using assms(2,3) by (cases ops) auto
  obtain c s' where s: "s = c # s'" "is_decimal u c" using a by (auto simp: after_digits_def split: list.splits if_splits)
  then have "c \<notin> set open_brackets" using regularD(1) [OF u] by blast
  then have "dropWhile (\<lambda>c. c \<in> set open_brackets) (ops @ s) = s" using assms(3) by (simp add: s(1) subset_iff dropWhile_append)
  then show ?thesis
    using assms(5) a ops by (auto simp: possible_at_def at_end_def Let_def split: list.splits)
qed

lemma possible_at_brackets:
  assumes "ops \<noteq> []" "set ops \<subseteq> set open_brackets"
  shows "possible_at d ops"
proof -
  have "dropWhile (\<lambda>c. c \<in> set open_brackets) ops = []" using assms(2) by (auto simp: dropWhile_eq_Nil_conv)
  then show ?thesis using assms by (auto simp: possible_at_def at_end_def Let_def split: list.splits)
qed

definition unclosed_double :: "unicode \<Rightarrow> ustring \<Rightarrow> bool" where
  "unclosed_double u s \<longleftrightarrow> (\<exists>a b ds c. s = a # b # ds @ [c] \<and> a \<in> set open_brackets \<and> b \<in> set open_brackets
     \<and> ds \<noteq> [] \<and> (\<forall>x \<in> set ds. is_decimal u x) \<and> c \<in> set close_brackets)"

lemma after_digits_split: "after_digits d s = Some w \<Longrightarrow> \<exists>ds. s = ds @ w \<and> ds \<noteq> [] \<and> (\<forall>x \<in> set ds. d x)"
proof -
  assume a: "after_digits d s = Some w"
  then obtain c r where "s = c # r" "d c" "w = dropWhile d r" by (auto simp: after_digits_def split: list.splits if_splits)
  then have "s = (c # takeWhile d r) @ w" "\<forall>x \<in> set (c # takeWhile d r). d x" by (auto dest: set_takeWhileD)
  then show ?thesis by blast
qed

lemma number_blocked:
  assumes "next_number d v = None" and "v \<noteq> []" and "next_number d (v @ t) \<noteq> None"
  shows "v \<in> {[comma], [comma, blank]}"
proof -
  obtain v' where v: "v = comma # v'" using assms(2,3) by (cases v) (auto simp: next_number_def split: if_splits)
  show ?thesis
  proof (cases v')
    case (Cons y v2)
    show ?thesis
    proof (cases "y = blank")
      case True
      then show ?thesis using assms v Cons by (cases v2) (auto simp: next_number_def after_digits_def split: if_splits)
    qed (use assms v Cons in \<open>auto simp: next_number_def after_digits_def split: if_splits\<close>)
  qed (simp add: v)
qed

lemma becomes_match:
  assumes u: "regular u" and "s \<noteq> []" and no: "citation_at (is_decimal u) (next_number (is_decimal u)) s = None"
    and yes: "citation_at (is_decimal u) (next_number (is_decimal u)) (s @ t) = Some (f, r)"
  shows "possible_at (is_decimal u) s \<or> f \<and> unclosed_double u s \<and> (\<exists>c \<in> set close_brackets. t = c # r)"
proof -
  let ?d = "is_decimal u"
  have no2: "double_at ?d s = None" "single_at ?d (next_number ?d) s = None"
    using no by (auto simp: citation_at_def split: option.splits)
  obtain a s1 where s: "s = a # s1" using assms(2) by (cases s) auto
  show ?thesis
  proof (cases "double_at ?d (s @ t)")
    case (Some q)
    then have f: "f" "q = r" using yes by (simp_all add: citation_at_def)
    obtain b z x y where z: "s1 @ t = b # z" "a \<in> set open_brackets" "b \<in> set open_brackets" "after_digits ?d z = Some (x # y # r)"
        "x \<in> set close_brackets" "y \<in> set close_brackets"
      using Some unfolding f s by (auto elim!: double_atE)
    show ?thesis
    proof (cases s1)
      case Nil
      then show ?thesis using possible_at_brackets [of "[a]"] z(2) s by simp
    next
      case (Cons b' s2)
      then have b: "b' = b" "z = s2 @ t" using z(1) by auto
      consider "s2 = []" | "s2 \<noteq> []" "after_digits ?d s2 = None" | w where "after_digits ?d s2 = Some w" by fastforce
      then show ?thesis
      proof cases
        case 1
        then show ?thesis using possible_at_brackets [of "[a, b]"] z(2,3) s Cons b by simp
      next
        case 2
        then show ?thesis using after_digits_append_None z(4) b by fastforce
      next
        case (3 w)
        show ?thesis
        proof (cases "w = []")
          case True
          then show ?thesis using possible_at_numbers [OF u, of "[a, b]" s2 w] 3 z(2,3) s Cons b by (simp add: skip.simps next_number_def)
        next
          case False
          then have w: "w @ t = x # y # r" using after_digits_append [OF 3 False, of t] z(4) b by simp
          obtain ds where ds: "s2 = ds @ w" "ds \<noteq> []" "\<forall>x \<in> set ds. ?d x" using after_digits_split [OF 3] by blast
          show ?thesis
          proof (cases "tl w")
            case Nil
            then have "w = [x]" "t = y # r" using w False by (cases w; simp)+
            then show ?thesis using f(1) ds z s Cons b by (auto simp: unclosed_double_def)
          next
            case (Cons y' w')
            then have "w = x # y # w'" using w False by (cases w) auto
            then have "double_at ?d s = Some w'" using 3 z s \<open>s1 = b' # s2\<close> b by (simp add: double_at_def)
            then show ?thesis using no2 by simp
          qed
        qed
      qed
    qed
  next
    case None
    then have "single_at ?d (next_number ?d) (s @ t) = Some r" using yes by (auto simp: citation_at_def)
    then obtain t1 x where z: "a \<in> set open_brackets" "after_digits ?d (s1 @ t) = Some t1" "skip (next_number ?d) t1 = x # r"
        "x \<in> set close_brackets"
      unfolding s by (auto elim!: single_atE)
    consider "s1 = []" | "s1 \<noteq> []" "after_digits ?d s1 = None" | w where "after_digits ?d s1 = Some w" by fastforce
    then show ?thesis
    proof cases
      case 1
      then show ?thesis using possible_at_brackets [of "[a]"] z(1) s by simp
    next
      case 2
      then show ?thesis using after_digits_append_None z(2) by fastforce
    next
      case (3 w)
      let ?v = "skip (next_number ?d) w"
      have possible: "possible_at ?d s" if "?v \<in> {[], [comma], [comma, blank]}"
        using possible_at_numbers [OF u, of "[a]" s1 w] 3 z(1) s that by simp
      show ?thesis
      proof (cases "?v \<in> {[], [comma], [comma, blank]}")
        case False
        then have "?v \<noteq> []" by simp
        then have "w \<noteq> []" by (auto simp: skip.simps next_number_def)
        then have t1: "t1 = w @ t" using after_digits_append [OF 3, of t] z(2) by simp
        have "next_number ?d (?v @ t) = None" using number_blocked [OF skip_stops \<open>?v \<noteq> []\<close>] False by blast
        from skip_append [OF refl \<open>?v \<noteq> []\<close> this] have "?v @ t = x # r" using z(3) t1 by simp
        then have "\<exists>q. ?v = x # q" using \<open>?v \<noteq> []\<close> by (cases ?v) auto
        then have "single_at ?d (next_number ?d) s \<noteq> None" using 3 z(1,4) s by (auto simp: single_at_def)
        then show ?thesis using no2 by simp
      qed (use possible in blast)
    qed
  qed
qed

section \<open>Numbers of a text\<close>

definition match_numbers :: "unicode \<Rightarrow> (ustring \<times> bool \<times> ustring) list \<Rightarrow> int set" where
  "match_numbers u ms = set (List.map_filter (parse_number u) (concat (map (\<lambda>(_, f, m). number_texts u f m) ms)))"

abbreviation matches :: "unicode \<Rightarrow> ustring \<Rightarrow> (ustring \<times> bool \<times> ustring) list \<times> ustring" where
  "matches u \<equiv> find_citations (is_decimal u) (next_number (is_decimal u)) []"

abbreviation match_at :: "unicode \<Rightarrow> ustring \<Rightarrow> (bool \<times> ustring) option" where
  "match_at u \<equiv> citation_at (is_decimal u) (next_number (is_decimal u))"

definition cited_numbers :: "unicode \<Rightarrow> ustring \<Rightarrow> int set" where
  "cited_numbers u s = match_numbers u (fst (matches u s))"

lemma match_numbers_simps [simp]: "match_numbers u [] = {}"
  "match_numbers u ((a, f, m) # ms) = set (List.map_filter (parse_number u) (number_texts u f m)) \<union> match_numbers u ms"
  by (simp_all add: match_numbers_def List.map_filter_def)

text \<open>The text before the first match is only carried along.\<close>

lemma find_citations_acc:
  "find_citations d step acc s = (let (ms, rest) = find_citations d step [] s in
     case ms of [] \<Rightarrow> ([], acc @ rest) | (a, x) # ms' \<Rightarrow> ((acc @ a, x) # ms', rest))"
proof (induction "length s" arbitrary: s acc rule: less_induct)
  case less
  show ?case
  proof (cases s)
    case (Cons c s')
    show ?thesis
    proof (cases "citation_at d step s")
      case None
      have "length s' < length s" using Cons by simp
      note IH = less.hyps [OF this]
      show ?thesis using None Cons IH [of "acc @ [c]"] IH [of "[c]"] by (auto simp: Let_def split: prod.splits list.splits)
    next
      case (Some fr)
      then show ?thesis using Cons by (auto simp: Let_def split: prod.splits)
    qed
  qed simp
qed

lemma after_digits_suffix: "after_digits d s = Some r \<Longrightarrow> suffix r s"
  by (metis after_digits_split suffixI)

lemma next_number_suffix: "next_number d s = Some r \<Longrightarrow> suffix r s"
  by (fastforce simp: next_number_def dest!: after_digits_suffix intro: suffix_ConsI split: list.splits if_splits)

lemma skip_suffix: "suffix (skip (next_number d) s) s"
proof (induction "length s" arbitrary: s rule: less_induct)
  case less
  show ?case
  proof (cases "next_number d s")
    case None
    then show ?thesis by (simp add: skip.simps)
  next
    case (Some r)
    then show ?thesis
      using less [of r] next_number_shorter [OF Some] next_number_suffix [OF Some]
      by (simp add: skip.simps [of _ s])
  qed
qed

lemma match_at_suffix: "match_at u s = Some (f, r) \<Longrightarrow> s = take (length s - length r) s @ r"
proof -
  have double: "suffix q s" if d: "double_at (is_decimal u) s = Some q" for q
  proof -
    obtain a b r x y where "s = a # b # r" and r: "after_digits (is_decimal u) r = Some (x # y # q)" using d by (rule double_atE)
    then show ?thesis using after_digits_suffix [OF r] by (auto simp: suffix_def)
  qed
  have single: "suffix q s" if d: "single_at (is_decimal u) (next_number (is_decimal u)) s = Some q" for q
  proof -
    obtain a z t x where z: "s = a # z" "after_digits (is_decimal u) z = Some t" "skip (next_number (is_decimal u)) t = x # q"
      using d by (rule single_atE)
    have "suffix (x # q) z" using after_digits_suffix [OF z(2)] skip_suffix [of "is_decimal u" t] z(3) by (metis suffix_order.trans)
    then show ?thesis by (auto simp: z(1) suffix_def)
  qed
  assume "match_at u s = Some (f, r)"
  then have "suffix r s" using double single by (auto simp: citation_at_def split: option.splits)
  then show ?thesis by (auto simp: suffix_def)
qed

text \<open>The matches and what lies between them are the text.\<close>

lemma matches_text: "matches u s = (ms, rest) \<Longrightarrow> concat (map (\<lambda>(a, _, m). a @ m) ms) @ rest = s"
proof (induction "length s" arbitrary: s ms rest rule: less_induct)
  case less
  show ?case
  proof (cases s)
    case Nil
    then show ?thesis using less.prems by simp
  next
    case (Cons c s')
    show ?thesis
    proof (cases "match_at u s")
      case None
      obtain ms' rest' where m: "matches u s' = (ms', rest')" by fastforce
      then have "concat (map (\<lambda>(a, _, m). a @ m) ms') @ rest' = s'" using less.hyps Cons by simp
      moreover have "find_citations (is_decimal u) (next_number (is_decimal u)) [c] s' = (ms, rest)"
        using less.prems None Cons by simp
      ultimately show ?thesis using m Cons by (auto simp: find_citations_acc [of _ _ "[c]"] split: list.splits)
    next
      case (Some fr)
      obtain f r where fr: "fr = (f, r)" by (cases fr)
      have short: "length r < length s" using citation_at_shorter Some fr by blast
      obtain ms' where m: "matches u r = (ms', rest)" "ms = ([], f, take (length s - length r) s) # ms'"
        using less.prems Some fr Cons by (auto simp: Let_def split: prod.splits)
      have "concat (map (\<lambda>(a, _, m). a @ m) ms') @ rest = r" using less.hyps [OF short m(1)] .
      then show ?thesis using match_at_suffix [OF Some [unfolded fr]] m(2) by simp
    qed
  qed
qed

lemma cited_numbers_Nil [simp]: "cited_numbers u [] = {}"
  by (simp add: cited_numbers_def)

lemma cited_numbers_Cons:
  "cited_numbers u (c # s) = (case match_at u (c # s) of
     None \<Rightarrow> cited_numbers u s
   | Some (f, r) \<Rightarrow> set (List.map_filter (parse_number u) (number_texts u f (take (length (c # s) - length r) (c # s)))) \<union> cited_numbers u r)"
proof (cases "match_at u (c # s)")
  case None
  then show ?thesis
    by (auto simp: cited_numbers_def find_citations_acc [of _ _ "[c]"] Let_def split: prod.splits list.splits)
next
  case (Some fr)
  then show ?thesis by (auto simp: cited_numbers_def Let_def split: prod.splits)
qed

text \<open>A double bracket cites the number that its inner single bracket cites.\<close>

lemma after_digits_all:
  "ds \<noteq> [] \<Longrightarrow> \<forall>x \<in> set ds. d x \<Longrightarrow> \<not> d c \<Longrightarrow> after_digits d (ds @ c # r) = Some (c # r)"
  by (cases ds) (simp_all add: after_digits_def)

lemma unclosed_double_match:
  assumes u: "regular u" and s: "unclosed_double u s" and c: "c \<in> set close_brackets"
  obtains a s' where "s = a # s'" "match_at u s = None" "match_at u s' = Some (False, [])" "match_at u (s @ c # r) = Some (True, r)"
    "number_texts u True (s @ [c]) = number_texts u False s'"
proof -
  let ?d = "is_decimal u"
  obtain a b ds e where e: "s = a # b # ds @ [e]" "a \<in> set open_brackets" "b \<in> set open_brackets" "ds \<noteq> []"
      "\<forall>x \<in> set ds. ?d x" "e \<in> set close_brackets"
    using s unfolding unclosed_double_def by blast
  note all = after_digits_all [OF e(4,5) regularD(2) [OF u e(6)]]
  have skip: "skip (next_number ?d) (e # q) = e # q" for q using e(6) by (auto simp: skip.simps next_number_def)
  have "after_digits ?d (b # q) = None" for q using regularD(1) [OF u e(3)] by (simp add: after_digits_def)
  then have "match_at u s = None" "match_at u (s @ c # r) = Some (True, r)"
    using e c all by (auto simp: citation_at_def double_at_def single_at_def)
  moreover have "match_at u (b # ds @ [e]) = Some (False, [])"
  proof -
    obtain x xs where "ds = x # xs" "?d x" using e(4,5) by (cases ds) auto
    then have "double_at ?d (b # ds @ [e]) = None" using regularD(1) [OF u] by (auto simp: double_at_def)
    then show ?thesis using e all skip by (simp add: citation_at_def single_at_def)
  qed
  moreover have "number_texts u True (s @ [c]) = number_texts u False (b # ds @ [e])"
    by (simp add: e(1) number_texts_def citation_content_def)
  ultimately show ?thesis using that e(1) by blast
qed

lemma possible_citation_suffix: "\<not> possible_citation d s \<Longrightarrow> suffix r s \<Longrightarrow> \<not> possible_citation d r"
  by (induction s) (auto simp: suffix_Cons)

lemma cited_numbers_closer: "c \<in> set close_brackets \<Longrightarrow> cited_numbers u (c # r) = cited_numbers u r"
  by (auto simp: cited_numbers_Cons citation_at_def double_at_def single_at_def split: list.splits)

lemma match_at_shown: "match_at u s = Some (f, r) \<Longrightarrow> take (length (s @ t) - length (r @ t)) (s @ t) = take (length s - length r) s"
  by simp

text \<open>A text that does not end in an unfinished marker can be cut off: the numbers of what follows do not
  depend on it.\<close>

lemma cited_numbers_append:
  assumes u: "regular u"
  shows "\<not> possible_citation (is_decimal u) s \<Longrightarrow> cited_numbers u (s @ t) = cited_numbers u s \<union> cited_numbers u t"
proof (induction "length s" arbitrary: s rule: less_induct)
  case less
  show ?case
  proof (cases s)
    case (Cons c s')
    note not_possible = less.prems
    show ?thesis
    proof (cases "match_at u s")
      case (Some fr)
      obtain f r where fr: "fr = (f, r)" by (cases fr)
      note m = Some [unfolded fr]
      have "suffix r s" using match_at_suffix [OF m] by (metis suffixI)
      then have "cited_numbers u (r @ t) = cited_numbers u r \<union> cited_numbers u t"
        using less.hyps [OF citation_at_shorter [OF m]] possible_citation_suffix [OF not_possible] by blast
      moreover have "take (Suc (length s') - length r) (c # s' @ t) = take (Suc (length s') - length r) (c # s')"
        using take_append [of "Suc (length s') - length r" "c # s'" t] by simp
      ultimately show ?thesis
        using m citation_at_append [OF u m, of t] unfolding Cons by (simp add: cited_numbers_Cons Un_assoc)
    next
      case None
      have "\<not> possible_at (is_decimal u) s" and tail: "\<not> possible_citation (is_decimal u) s'"
        using not_possible Cons by simp_all
      have IH: "cited_numbers u (s' @ t) = cited_numbers u s' \<union> cited_numbers u t"
        using less.hyps [of s'] tail Cons by simp
      show ?thesis
      proof (cases "match_at u (s @ t)")
        case None
        then show ?thesis using IH \<open>match_at u s = None\<close> Cons by (simp add: cited_numbers_Cons)
      next
        case (Some fr)
        obtain f r where fr: "fr = (f, r)" by (cases fr)
        have "s \<noteq> []" using Cons by simp
        from becomes_match [OF u this \<open>match_at u s = None\<close> Some [unfolded fr]]
        obtain x where x: "f" "unclosed_double u s" "x \<in> set close_brackets" "t = x # r"
          using \<open>\<not> possible_at (is_decimal u) s\<close> by blast
        obtain a s2 where s2: "s = a # s2" "match_at u s2 = Some (False, [])" "match_at u (s @ x # r) = Some (True, r)"
            "number_texts u True (s @ [x]) = number_texts u False s2"
          using unclosed_double_match [OF u x(2,3), of r] by metis
        have "s2 \<noteq> []" using s2(2) by (auto simp: citation_at_def double_at_def single_at_def)
        then have "cited_numbers u s = set (List.map_filter (parse_number u) (number_texts u False s2))"
          using \<open>match_at u s = None\<close> s2(1,2) cited_numbers_Cons [of u "hd s2" "tl s2"] by (simp add: cited_numbers_Cons)
        moreover have "cited_numbers u (s @ t) = set (List.map_filter (parse_number u) (number_texts u True (s @ [x]))) \<union> cited_numbers u r"
          using s2(1,3) x(4) by (simp add: cited_numbers_Cons)
        ultimately show ?thesis using s2(4) cited_numbers_closer [OF x(3)] x(4) by simp
      qed
    qed
  qed simp
qed

text \<open>The same after a match: only the text behind the last match matters.\<close>

lemma no_closer_no_match: "set s \<inter> set close_brackets = {} \<Longrightarrow> match_at u s = None"
proof -
  assume s: "set s \<inter> set close_brackets = {}"
  have "\<not> (x \<in> set close_brackets \<and> suffix (x # q) s)" for x q using s set_mono_suffix [of "x # q" s] by auto
  moreover have "suffix (x # y # q) s" if "s = a # b # r" "after_digits d r = Some (x # y # q)" for x y q a b r d
    using after_digits_suffix [OF that(2)] that(1) by (simp add: suffix_Cons)
  moreover have "suffix (x # q) s" if "s = a # z" "after_digits d z = Some t" "skip (next_number d) t = x # q" for x q a z t d
    using after_digits_suffix [OF that(2)] skip_suffix [of d t] that(1,3) by (metis suffix_ConsI suffix_order.trans)
  ultimately have "double_at (is_decimal u) s = None" "single_at (is_decimal u) (next_number (is_decimal u)) s = None"
    by (metis double_atE option.exhaust, metis single_atE option.exhaust)
  then show ?thesis by (simp add: citation_at_def)
qed

lemma no_closer_no_matches: "set s \<inter> set close_brackets = {} \<Longrightarrow> find_citations (is_decimal u) (next_number (is_decimal u)) acc s = ([], acc @ s)"
proof (induction s arbitrary: acc)
  case (Cons c s)
  then show ?case using no_closer_no_match [OF Cons.prems] by simp
qed simp

lemma next_number_chars: "next_number d s = Some r \<Longrightarrow> \<exists>q. s = q @ r \<and> (\<forall>x \<in> set q. d x \<or> x = comma \<or> x = blank)"
proof -
  assume n: "next_number d s = Some r"
  then obtain q where s: "s = comma # q" and a: "after_digits d (case q of x # q \<Rightarrow> if x = blank then q else x # q | [] \<Rightarrow> []) = Some r"
    by (auto simp: next_number_def split: list.splits if_splits)
  let ?q = "case q of x # q \<Rightarrow> if x = blank then q else x # q | [] \<Rightarrow> []"
  obtain ds where ds: "?q = ds @ r" "\<forall>x \<in> set ds. d x" using after_digits_split [OF a] by blast
  have "q = ?q \<or> q = blank # ?q" by (auto split: list.splits)
  then have "s = (comma # ds) @ r \<or> s = (comma # blank # ds) @ r" using s ds(1) by auto
  then show ?thesis
  proof
    assume "s = (comma # ds) @ r"
    then show ?thesis using ds(2) by (intro exI [of _ "comma # ds"]) auto
  next
    assume "s = (comma # blank # ds) @ r"
    then show ?thesis using ds(2) by (intro exI [of _ "comma # blank # ds"]) auto
  qed
qed

lemma skip_chars: "x \<in> set s \<Longrightarrow> x \<in> set (skip (next_number d) s) \<or> d x \<or> x = comma \<or> x = blank"
proof (induction "length s" arbitrary: s rule: less_induct)
  case less
  show ?case
  proof (cases "next_number d s")
    case None
    then show ?thesis using less.prems by (simp add: skip.simps)
  next
    case (Some r)
    have "x \<in> set r \<or> d x \<or> x = comma \<or> x = blank" using next_number_chars [OF Some] less.prems by auto
    then show ?thesis
      using less.hyps [OF next_number_shorter [OF Some]] next_number_shorter [OF Some] Some by (auto simp: skip.simps [of _ s])
  qed
qed

lemma possible_at_no_closer:
  assumes u: "regular u" and "possible_at (is_decimal u) s"
  shows "set s \<inter> set close_brackets = {}"
proof -
  let ?d = "is_decimal u"
  let ?r = "dropWhile (\<lambda>c. c \<in> set open_brackets) s"
  have fin: "set q \<inter> set close_brackets = {}" if "at_end q" for q using that by (auto simp: at_end_def)
  have "at_end ?r \<or> (\<exists>t. after_digits ?d ?r = Some t \<and> (\<forall>x \<in> set (skip (next_number ?d) t). x \<notin> set close_brackets))"
  proof (cases "at_end ?r")
    case False
    then obtain t where t: "after_digits ?d ?r = Some t"
        "case skip (next_number ?d) t of [] \<Rightarrow> True | x # q \<Rightarrow> at_end (x # q) \<or> x = comma
          \<and> (at_end q \<or> (case q of [] \<Rightarrow> False | y # z \<Rightarrow> y = blank \<and> at_end z))"
      using assms(2) unfolding possible_at_def Let_def
      by (cases s; cases "after_digits ?d ?r") (simp_all del: dropWhile.simps)
    have "x \<notin> set close_brackets" if "x \<in> set (skip (next_number ?d) t)" for x
    proof (cases "skip (next_number ?d) t")
      case (Cons y q)
      then show ?thesis using t(2) that fin by (cases q) (auto simp: at_end_def)
    qed (use that in simp)
    then show ?thesis using t(1) by blast
  qed simp
  then have "set ?r \<inter> set close_brackets = {}"
  proof (elim disjE exE conjE)
    fix t assume t: "after_digits ?d ?r = Some t" "\<forall>x \<in> set (skip (next_number ?d) t). x \<notin> set close_brackets"
    then obtain ds where "?r = ds @ t" "\<forall>x \<in> set ds. ?d x" using after_digits_split by blast
    moreover have "x \<notin> set close_brackets" if "x \<in> set t" for x
      using skip_chars [OF that, of ?d] t(2) regularD(2) [OF u] by auto
    ultimately show ?thesis using regularD(2) [OF u] by auto
  qed (use fin in blast)
  moreover have "set (takeWhile (\<lambda>c. c \<in> set open_brackets) s) \<inter> set close_brackets = {}" by (auto dest: set_takeWhileD)
  moreover have "set s = set (takeWhile (\<lambda>c. c \<in> set open_brackets) s) \<union> set ?r" by (metis set_append takeWhile_dropWhile_id)
  ultimately show ?thesis by blast
qed

lemma cited_numbers_after_match:
  assumes u: "regular u"
  shows "matches u s = (ms, rest) \<Longrightarrow> ms \<noteq> [] \<Longrightarrow> cited_numbers u (s @ t) = cited_numbers u s \<union> cited_numbers u (rest @ t)"
proof (induction "length s" arbitrary: s ms rest rule: less_induct)
  case less
  show ?case
  proof (cases s)
    case (Cons c s')
    show ?thesis
    proof (cases "match_at u s")
      case (Some fr)
      obtain f r where fr: "fr = (f, r)" by (cases fr)
      note m = Some [unfolded fr]
      have cut: "take (Suc (length s') - length r) (c # s' @ t) = take (Suc (length s') - length r) (c # s')"
        using take_append [of "Suc (length s') - length r" "c # s'" t] by simp
      obtain ms' where ms': "matches u r = (ms', rest)"
        using less.prems(1) m Cons by (auto simp: Let_def split: prod.splits)
      have "cited_numbers u (r @ t) = cited_numbers u r \<union> cited_numbers u (rest @ t)"
      proof (cases "ms' = []")
        case True
        then have "rest = r" using matches_text [OF ms'] by simp
        then show ?thesis using True ms' by (simp add: cited_numbers_def)
      qed (use less.hyps [OF citation_at_shorter [OF m] ms'] in blast)
      then show ?thesis
        using m citation_at_append [OF u m, of t] cut unfolding Cons by (simp add: cited_numbers_Cons Un_assoc)
    next
      case None
      obtain ms' rest' where ms': "matches u s' = (ms', rest')" by fastforce
      then have rest: "ms' \<noteq> []" "rest' = rest"
        using less.prems None Cons by (auto simp: find_citations_acc [of _ _ "[c]"] split: list.splits)
      have IH: "cited_numbers u (s' @ t) = cited_numbers u s' \<union> cited_numbers u (rest @ t)"
        using less.hyps [of s'] ms' rest Cons by simp
      have "\<not> possible_at (is_decimal u) s"
      proof
        assume "possible_at (is_decimal u) s"
        from possible_at_no_closer [OF u this] have "set s' \<inter> set close_brackets = {}" by (simp add: Cons)
        from no_closer_no_matches [OF this, of u "[]"] show False using ms' rest by simp
      qed
      show ?thesis
      proof (cases "match_at u (s @ t)")
        case None
        then show ?thesis using IH \<open>match_at u s = None\<close> Cons by (simp add: cited_numbers_Cons)
      next
        case (Some fr)
        obtain f r where fr: "fr = (f, r)" by (cases fr)
        have "s \<noteq> []" using Cons by simp
        from becomes_match [OF u this \<open>match_at u s = None\<close> Some [unfolded fr]]
        obtain x where x: "f" "unclosed_double u s" "x \<in> set close_brackets" "t = x # r"
          using \<open>\<not> possible_at (is_decimal u) s\<close> by blast
        obtain a where s2: "s = a # s'" "match_at u s' = Some (False, [])" "match_at u (s @ x # r) = Some (True, r)"
            "number_texts u True (s @ [x]) = number_texts u False s'"
          using unclosed_double_match [OF u x(2,3), of r] Cons by (metis list.inject)
        then have "s' \<noteq> []" by (auto simp: citation_at_def double_at_def single_at_def)
        then have "cited_numbers u s = set (List.map_filter (parse_number u) (number_texts u False s'))" "rest = []"
          using \<open>match_at u s = None\<close> s2(1,2) ms' rest cited_numbers_Cons [of u "hd s'" "tl s'"] find_citations.simps(2) [of _ _ "[]" "hd s'" "tl s'"]
          by (simp_all add: cited_numbers_Cons)
        moreover have "cited_numbers u (s @ t) = set (List.map_filter (parse_number u) (number_texts u True (s @ [x]))) \<union> cited_numbers u r"
          using s2(1,3) x(4) by (simp add: cited_numbers_Cons)
        ultimately show ?thesis using s2(4) cited_numbers_closer [OF x(3)] x(4) by simp
      qed
    qed
  qed (use less.prems in simp)
qed

end
