(* ===== verification/CitationStream.thy ===== *)
theory CitationStream
  imports Citations
begin

text \<open>
  What a citation processor does with a whole stream: the citations it records do not depend on how the
  answer is cut into tokens, kept markers leave the text as it is, and every cited document is announced
  once.  And what collapsing the numbers of an answer does to its citations.
\<close>

section \<open>Streams\<close>

fun feed :: "unicode \<Rightarrow> ustring list \<Rightarrow> processor \<Rightarrow> yielded list \<times> processor" where
  "feed u [] p = ([], p)"
| "feed u (tok # toks) p = (let (ys, p1) = process_token u (Some tok) p; (zs, p2) = feed u toks p1 in (ys @ zs, p2))"

text \<open>All tokens and the end of the stream.\<close>

definition stream :: "unicode \<Rightarrow> ustring list \<Rightarrow> processor \<Rightarrow> yielded list \<times> processor" where
  "stream u toks p = (let (ys, p1) = feed u toks p; (zs, p2) = process_token u None p1 in (ys @ zs, p2))"

definition shown :: "yielded list \<Rightarrow> ustring" where
  "shown ys = concat (map (\<lambda>y. case y of Shown s \<Rightarrow> s | CitationInfo _ _ \<Rightarrow> []) ys)"

definition announced :: "yielded list \<Rightarrow> (int \<times> string) list" where
  "announced ys = concat (map (\<lambda>y. case y of Shown _ \<Rightarrow> [] | CitationInfo n i \<Rightarrow> [(n, i)]) ys)"

lemma shown_simps [simp]: "shown [] = []" "shown (Shown s # ys) = s @ shown ys" "shown (CitationInfo n i # ys) = shown ys"
  "shown (ys @ zs) = shown ys @ shown zs" "shown (shown_text s) = s"
  by (simp_all add: shown_def shown_text_def)

lemma announced_simps [simp]: "announced [] = []" "announced (Shown s # ys) = announced ys"
  "announced (CitationInfo n i # ys) = (n, i) # announced ys" "announced (ys @ zs) = announced ys @ announced zs"
  "announced (shown_text s) = []"
  by (simp_all add: announced_def shown_text_def)

section \<open>Recorded citations\<close>

text \<open>The documents of the cited numbers that have one.\<close>

definition records :: "processor \<Rightarrow> int set \<Rightarrow> processor \<Rightarrow> bool" where
  "records p ns p' \<longleftrightarrow> citation_to_doc p' = citation_to_doc p \<and> mode p' = mode p \<and> stop_stream p' = stop_stream p
     \<and> llm_out p' = llm_out p \<and> curr_segment p' = curr_segment p
     \<and> (\<forall>n. dict_get (seen_citations p') n =
         (if n \<in> ns \<and> dict_get (citation_to_doc p) n \<noteq> None then dict_get (citation_to_doc p) n else dict_get (seen_citations p) n))"

lemma records_refl: "records p {} p"
  by (simp add: records_def)

lemma records_trans: "records p ns p1 \<Longrightarrow> records p1 ns' p2 \<Longrightarrow> records p (ns \<union> ns') p2"
  by (auto simp: records_def)

lemma note_cited_records: "note_cited n doc p = (ys, p') \<Longrightarrow> records p {} p' \<and> shown ys = []"
  by (auto simp: note_cited_def records_def Let_def split: if_splits)

lemma cite_numbers_records:
  "cite_numbers u ss p = (parts, infos, p') \<Longrightarrow> records p (set (List.map_filter (parse_number u) ss)) p' \<and> shown infos = []
    \<and> (mode p \<noteq> HYPERLINK \<longrightarrow> parts = [] \<and> infos = [])"
proof (induction ss arbitrary: p parts infos p')
  case Nil
  then show ?case by (simp add: records_refl List.map_filter_def)
next
  case (Cons s ss)
  have none: "records p ns p'" if "records p (ns - {n}) p'" "dict_get (citation_to_doc p) n = None" for n ns
    using that by (fastforce simp: records_def)
  consider "parse_number u s = None" | n where "parse_number u s = Some n" "dict_get (citation_to_doc p) n = None"
    | n doc where "parse_number u s = Some n" "dict_get (citation_to_doc p) n = Some doc" by fastforce
  then show ?case
  proof cases
    case 1
    then show ?thesis using Cons by (auto simp: List.map_filter_simps)
  next
    case (2 n)
    then have "records p (set (List.map_filter (parse_number u) ss)) p'" "shown infos = []"
        "mode p \<noteq> HYPERLINK \<longrightarrow> parts = [] \<and> infos = []" using Cons by auto
    moreover from this(1) have "records p (insert n (set (List.map_filter (parse_number u) ss))) p'"
      using 2(2) by (fastforce simp: records_def)
    ultimately show ?thesis using 2 by (simp add: List.map_filter_simps)
  next
    case (3 n doc)
    let ?p1 = "p\<lparr>seen_citations := dict_set n doc (seen_citations p)\<rparr>"
    have 1: "records p {n} ?p1" using 3(2) by (auto simp: records_def)
    show ?thesis
    proof (cases "mode p = HYPERLINK")
      case False
      then have "cite_numbers u ss ?p1 = (parts, infos, p')" using Cons.prems 3 by (simp add: Let_def)
      from Cons.IH [OF this] show ?thesis
        using records_trans [OF 1] False 3 by (simp add: List.map_filter_simps)
    next
      case True
      obtain info p2 where info: "note_cited n doc ?p1 = (info, p2)" by fastforce
      obtain parts' infos' where rest: "cite_numbers u ss p2 = (parts', infos', p')" "infos = info @ infos'"
        using Cons.prems 3 True info by (auto simp: Let_def split: prod.splits)
      show ?thesis
        using records_trans [OF records_trans [OF 1 conjunct1 [OF note_cited_records [OF info]]] conjunct1 [OF Cons.IH [OF rest(1)]]]
          note_cited_records [OF info] Cons.IH [OF rest(1)] True 3 rest(2) by (simp add: List.map_filter_simps)
    qed
  qed
qed

lemma emit_records:
  "emit_citations u ms rest p = (ys, p') \<Longrightarrow> records p (match_numbers u ms) p'
    \<and> (mode p = KEEP_MARKERS \<longrightarrow> shown ys = concat (map (\<lambda>(a, _, m). a @ m) ms) \<and> announced ys = [])"
proof (induction ms arbitrary: p ys p')
  case Nil
  then show ?case by (simp add: records_refl)
next
  case (Cons x ms)
  obtain a f m where x: "x = (a, f, m)" by (cases x)
  let ?p1 = "p\<lparr>non_citation_count := non_citation_count p + length a,
      recent_cited_documents := (if 5 < non_citation_count p + length a then {} else recent_cited_documents p)\<rparr>"
  obtain sh infos p2 where c: "process_citation u f m (if a \<noteq> [] then uc_space u (last a) else True) ?p1 = (sh, infos, p2)"
    by (metis prod_cases3)
  obtain parts where parts: "cite_numbers u (number_texts u f m) ?p1 = (parts, infos, p2)"
    using c by (auto simp: process_citation_def Let_def split: prod.splits)
  obtain zs where rest: "emit_citations u ms rest (p2\<lparr>non_citation_count := 0\<rparr>) = (zs, p')"
      "mode p = KEEP_MARKERS \<Longrightarrow> ys = shown_text a @ [Shown m] @ zs"
    using Cons.prems c by (auto simp: x Let_def split: prod.splits)
  have "records p {} ?p1" "records p2 {} (p2\<lparr>non_citation_count := 0\<rparr>)" by (simp_all add: records_def)
  from records_trans [OF records_trans [OF this(1) conjunct1 [OF cite_numbers_records [OF parts]]] this(2)]
  have 1: "records p (set (List.map_filter (parse_number u) (number_texts u f m))) (p2\<lparr>non_citation_count := 0\<rparr>)" by simp
  then have "mode (p2\<lparr>non_citation_count := 0\<rparr>) = mode p" by (simp add: records_def)
  then show ?case
    using records_trans [OF 1 conjunct1 [OF Cons.IH [OF rest(1)]]] Cons.IH [OF rest(1)] rest(2) by (simp add: x)
qed

section \<open>Any tokens\<close>

lemma split_text_absent: "x \<in> set sep \<Longrightarrow> x \<notin> set s \<Longrightarrow> split_text sep s = [s]"
proof (induction sep s rule: split_text.induct)
  case (2 sep c s)
  have "\<not> prefix sep (c # s)" using 2(3,4) set_mono_prefix by fastforce
  then show ?case using 2 by simp
qed simp

lemma no_code: "96 \<notin> set s \<Longrightarrow> \<not> in_code_block s \<and> add_language out s = s"
  using split_text_absent [of 96 triple_backtick s] by (simp add: in_code_block_def add_language_def triple_backtick_def points_def)

lemma no_match_left: "matches u s = (ms, rest) \<Longrightarrow> cited_numbers u rest = {}"
proof (induction "length s" arbitrary: s ms rest rule: less_induct)
  case less
  have whole: "cited_numbers u s = {}" "rest = s" if "ms = []"
    using less.prems matches_text [OF less.prems] that by (simp_all add: cited_numbers_def)
  show ?case
  proof (cases s)
    case (Cons c s')
    show ?thesis
    proof (cases "match_at u s")
      case (Some fr)
      obtain f r where fr: "fr = (f, r)" by (cases fr)
      obtain ms' where "matches u r = (ms', rest)" using less.prems Some fr Cons by (auto simp: Let_def split: prod.splits)
      then show ?thesis using less.hyps citation_at_shorter [OF Some [unfolded fr]] by blast
    next
      case None
      obtain ms' rest' where ms': "matches u s' = (ms', rest')" by fastforce
      show ?thesis
      proof (cases "ms = []")
        case False
        then have "rest' = rest" using less.prems None Cons ms' by (auto simp: find_citations_acc [of _ _ "[c]"] split: list.splits)
        then show ?thesis using less.hyps [of s'] ms' Cons by simp
      qed (use whole in simp)
    qed
  qed (use less.prems in simp)
qed

text \<open>The text \<open>seen_text\<close> has gone through the processor: the recorded citations and those of the held text are the
  citations of the whole, whatever follows.\<close>

definition keeps_up :: "unicode \<Rightarrow> citation_mapping \<Rightarrow> ustring \<Rightarrow> processor \<Rightarrow> bool" where
  "keeps_up u docs seen_text p \<longleftrightarrow> citation_to_doc p = docs \<and> stop_stream p = None \<and> llm_out p = seen_text \<and> 96 \<notin> set seen_text
     \<and> set (curr_segment p) \<subseteq> set seen_text \<and> cited_numbers u (curr_segment p) = {}
     \<and> (\<exists>ns. (\<forall>n. dict_get (seen_citations p) n = (if n \<in> ns then dict_get docs n else None))
          \<and> (\<forall>t. cited_numbers u (seen_text @ t) = ns \<union> cited_numbers u (curr_segment p @ t)))"

lemma keeps_up_token:
  assumes u: "regular u" and k: "keeps_up u docs s p" and tok: "96 \<notin> set tok" and run: "process_token u (Some tok) p = (ys, p')"
  shows "keeps_up u docs (s @ tok) p' \<and> mode p' = mode p
    \<and> (mode p = KEEP_MARKERS \<longrightarrow> shown ys @ curr_segment p' = curr_segment p @ tok \<and> announced ys = [])"
proof -
  let ?d = "is_decimal u" and ?seg = "curr_segment p @ tok"
  obtain ns where p: "citation_to_doc p = docs" "stop_stream p = None" "llm_out p = s" "96 \<notin> set s" "set (curr_segment p) \<subseteq> set s"
      "\<And>n. dict_get (seen_citations p) n = (if n \<in> ns then dict_get docs n else None)"
      "\<And>t. cited_numbers u (s @ t) = ns \<union> cited_numbers u (curr_segment p @ t)"
    using k unfolding keeps_up_def by blast
  have no: "\<not> in_code_block (s @ tok)" "add_language (s @ tok) ?seg = ?seg"
    using no_code [of "s @ tok"] no_code [of ?seg] p(4,5) tok by auto
  obtain ms rest where ms: "matches u ?seg = (ms, rest)" by fastforce
  let ?p1 = "p\<lparr>llm_out := s @ tok, curr_segment := ?seg\<rparr>"
  define step where "step = (if ms \<noteq> [] then (let (outs, p2) = emit_citations u ms rest ?p1
      in (outs, p2\<lparr>curr_segment := rest, non_citation_count := length rest\<rparr>)) else ([], ?p1))"
  obtain outs p2 where p2: "step = (outs, p2)" by fastforce
  have run': "(ys, p') = (if possible_citation ?d ?seg then (outs, p2) else (outs @ shown_text (curr_segment p2),
      p2\<lparr>curr_segment := [], non_citation_count := non_citation_count p2 + length (curr_segment p2)\<rparr>))"
    using run p(2,3) no ms p2 by (cases "ms = []"; cases "possible_citation ?d ?seg")
      (simp_all add: process_token_def proceed_def step_def Let_def split: prod.splits)
  have segment: "concat (map (\<lambda>(a, _, m). a @ m) ms) @ rest = ?seg" using matches_text [OF ms] .
  have step: "citation_to_doc p2 = docs" "mode p2 = mode p" "stop_stream p2 = None" "llm_out p2 = s @ tok" "curr_segment p2 = rest"
      "\<And>n. dict_get (seen_citations p2) n = (if n \<in> ns \<union> match_numbers u ms then dict_get docs n else None)"
      "mode p = KEEP_MARKERS \<longrightarrow> shown outs @ rest = ?seg \<and> announced outs = []"
  proof -
    have "citation_to_doc p2 = docs \<and> mode p2 = mode p \<and> stop_stream p2 = None \<and> llm_out p2 = s @ tok \<and> curr_segment p2 = rest
      \<and> (\<forall>n. dict_get (seen_citations p2) n = (if n \<in> ns \<union> match_numbers u ms then dict_get docs n else None))
      \<and> (mode p = KEEP_MARKERS \<longrightarrow> shown outs @ rest = ?seg \<and> announced outs = [])"
    proof (cases "ms = []")
      case True
      then show ?thesis using p2 p segment by (auto simp: step_def)
    next
      case False
      obtain p3 where p3: "emit_citations u ms rest ?p1 = (outs, p3)" "p2 = p3\<lparr>curr_segment := rest, non_citation_count := length rest\<rparr>"
        using p2 False by (auto simp: step_def Let_def split: prod.splits)
      have "mode p = KEEP_MARKERS \<Longrightarrow> shown outs @ rest = ?seg \<and> announced outs = []"
        using emit_records [OF p3(1)] segment by simp
      then show ?thesis using emit_records [OF p3(1)] p by (auto simp: p3(2) records_def)
    qed
    then show "citation_to_doc p2 = docs" "mode p2 = mode p" "stop_stream p2 = None" "llm_out p2 = s @ tok" "curr_segment p2 = rest"
      "\<And>n. dict_get (seen_citations p2) n = (if n \<in> ns \<union> match_numbers u ms then dict_get docs n else None)"
      "mode p = KEEP_MARKERS \<longrightarrow> shown outs @ rest = ?seg \<and> announced outs = []" by blast+
  qed
  have numbers: "cited_numbers u ?seg = match_numbers u ms" by (simp add: cited_numbers_def ms)
  have whole: "cited_numbers u ((s @ tok) @ t) = ns \<union> cited_numbers u (?seg @ t)" for t using p(7) [of "tok @ t"] by simp
  have chars: "96 \<notin> set (s @ tok)" "set rest \<subseteq> set (s @ tok)"
    using p(4,5) tok arg_cong [OF segment, of set] by auto
  show ?thesis
  proof (cases "possible_citation ?d ?seg")
    case True
    have "cited_numbers u (?seg @ t) = match_numbers u ms \<union> cited_numbers u (rest @ t)" for t
    proof (cases "ms = []")
      case False
      then show ?thesis using cited_numbers_after_match [OF u ms] numbers by simp
    qed (use segment in simp)
    then have "keeps_up u docs (s @ tok) p2"
      unfolding keeps_up_def using step chars no_match_left [OF ms] whole
      by (intro conjI exI [of _ "ns \<union> match_numbers u ms"]) (simp_all add: Un_assoc)
    then show ?thesis using True run' step by simp
  next
    case False
    let ?p' = "p2\<lparr>curr_segment := [], non_citation_count := non_citation_count p2 + length (curr_segment p2)\<rparr>"
    have "cited_numbers u (?seg @ t) = match_numbers u ms \<union> cited_numbers u t" for t
      using cited_numbers_append [OF u False] numbers by simp
    then have "keeps_up u docs (s @ tok) ?p'"
      unfolding keeps_up_def using step chars whole
      by (intro conjI exI [of _ "ns \<union> match_numbers u ms"]) (simp_all add: Un_assoc)
    then show ?thesis using False run' step by simp
  qed
qed

lemma keeps_up_stream:
  assumes "regular u" and "keeps_up u docs s p" and "\<forall>tok \<in> set toks. 96 \<notin> set tok" and "feed u toks p = (ys, p')"
  shows "keeps_up u docs (s @ concat toks) p' \<and> mode p' = mode p
    \<and> (mode p = KEEP_MARKERS \<longrightarrow> shown ys @ curr_segment p' = curr_segment p @ concat toks \<and> announced ys = [])"
  using assms(2-4)
proof (induction toks arbitrary: s p ys p')
  case (Cons tok toks)
  obtain y1 p1 where 1: "process_token u (Some tok) p = (y1, p1)" by fastforce
  obtain y2 where 2: "feed u toks p1 = (y2, p')" "ys = y1 @ y2" using Cons.prems(3) 1 by (auto split: prod.splits)
  note k = keeps_up_token [OF assms(1) Cons.prems(1) _ 1]
  show ?case using Cons.IH [OF _ _ 2(1), of "s @ tok"] k Cons.prems(2) 2(2) by auto
qed simp

text \<open>A processor that has been given its documents and no text.\<close>

definition ready :: "citation_mode \<Rightarrow> citation_mapping \<Rightarrow> processor" where
  "ready m docs = update_citation_mapping docs True (new_processor m None)"

lemma ready_simps [simp]: "distinct (dict_keys docs) \<Longrightarrow> dict_get (citation_to_doc (ready m docs)) n = dict_get docs n"
  "mode (ready m docs) = m" "stop_stream (ready m docs) = None" "curr_segment (ready m docs) = []"
  by (simp_all add: ready_def update_citation_mapping_def new_processor_def dict_get_update split: option.splits)

text \<open>C34: The citations recorded from a stream without code are those of the whole answer: a number is recorded,
  with its document, exactly when the answer cites it and the mapping knows it, however the answer is cut
  into tokens and in every mode.  With markers kept, what is shown is the answer itself.\<close>

theorem citations_do_not_depend_on_tokens:
  assumes "regular u" and "distinct (dict_keys docs)" and "\<forall>tok \<in> set toks. 96 \<notin> set tok"
    and "stream u toks (ready m docs) = (ys, p)"
  shows "dict_get (seen_citations p) n = (if n \<in> cited_numbers u (concat toks) then dict_get docs n else None)
    \<and> (m = KEEP_MARKERS \<longrightarrow> shown ys = concat toks \<and> announced ys = [])"
proof -
  obtain zs p1 where f: "feed u toks (ready m docs) = (zs, p1)" by fastforce
  then have p: "p = p1" "ys = zs @ shown_text (curr_segment p1)" using assms(4) by (auto simp: stream_def process_token_def)
  have "keeps_up u (citation_to_doc (ready m docs)) [] (ready m docs)"
    by (auto simp: keeps_up_def ready_def update_citation_mapping_def new_processor_def intro!: exI [of _ "{}"])
  from keeps_up_stream [OF assms(1) this assms(3) f]
  have k: "keeps_up u (citation_to_doc (ready m docs)) (concat toks) p1"
      "m = KEEP_MARKERS \<longrightarrow> shown zs @ curr_segment p1 = concat toks \<and> announced zs = []" by auto
  from k(1) obtain ns where ns: "\<And>n. dict_get (seen_citations p1) n = (if n \<in> ns then dict_get (citation_to_doc (ready m docs)) n else None)"
      "\<And>t. cited_numbers u (concat toks @ t) = ns \<union> cited_numbers u (curr_segment p1 @ t)" "cited_numbers u (curr_segment p1) = {}"
    unfolding keeps_up_def by blast
  have "cited_numbers u (concat toks) = ns" using ns(2) [of "[]"] ns(3) by simp
  then show ?thesis using ns(1) k(2) p assms(2) by simp
qed

text \<open>An instance with ASCII digits and white space.\<close>

definition ascii :: unicode where
  "ascii = \<lparr>uc_decimal = (\<lambda>c. if 48 \<le> c \<and> c < 58 then Some (c - 48) else None), uc_space = (\<lambda>c. 9 \<le> c \<and> c \<le> 13 \<or> c = 32)\<rparr>"

definition example_doc :: "string \<Rightarrow> search_doc" where
  "example_doc i = \<lparr>sd_id = i, sd_link = Some (points (''http://'' @ i))\<rparr>"

lemma ascii_regular: "regular ascii"
  by (simp add: regular_def ascii_def open_brackets_def close_brackets_def)

lemmas match_defs = cited_numbers_Cons citation_at_def double_at_def single_at_def after_digits_def next_number_def skip.simps
  is_decimal_def number_texts_def citation_content_def parse_number_def int_max_str_digits_def List.map_filter_simps open_brackets_def close_brackets_def strip_by_def

lemma citations_do_not_depend_on_tokens_witness:
  "\<exists>ys p. stream ascii (map points [''[[1'', '']'', ''][2'', '', 1]'']) (ready KEEP_MARKERS [(1, example_doc ''a''), (2, example_doc ''b'')]) = (ys, p)
     \<and> dict_get (seen_citations p) 2 = Some (example_doc ''b'') \<and> shown ys = points ''[[1]][2, 1]''"
proof -
  let ?toks = "map points [''[[1'', '']'', ''][2'', '', 1]'']" and ?docs = "[(1, example_doc ''a''), (2, example_doc ''b'')]"
  obtain ys p where run: "stream ascii ?toks (ready KEEP_MARKERS ?docs) = (ys, p)" by fastforce
  have "\<forall>tok \<in> set ?toks. 96 \<notin> set tok" by code_simp
  note all = citations_do_not_depend_on_tokens [OF ascii_regular _ this run]
  have toks: "concat ?toks = [91, 91, 49, 93, 93, 91, 50, 44, 32, 49, 93]" by code_simp
  moreover have "points ''[[1]][2, 1]'' = [91, 91, 49, 93, 93, 91, 50, 44, 32, 49, 93]" by code_simp
  moreover have "2 \<in> cited_numbers ascii [91, 91, 49, 93, 93, 91, 50, 44, 32, 49, 93]"
    by (simp add: match_defs ascii_def)
  ultimately show ?thesis using run all [of 2] by (auto simp: dict_get_def)
qed

section \<open>Announcements\<close>

text \<open>What a caller does with a processor.\<close>

datatype event = Token "ustring option" | Mapping citation_mapping bool | ResetRecent

fun handle_event :: "unicode \<Rightarrow> event \<Rightarrow> processor \<Rightarrow> yielded list \<times> processor" where
  "handle_event u (Token tok) p = process_token u tok p"
| "handle_event u (Mapping cm dup) p = ([], update_citation_mapping cm dup p)"
| "handle_event u ResetRecent p = ([], reset_recent_citations p)"

fun handle_events :: "unicode \<Rightarrow> event list \<Rightarrow> processor \<Rightarrow> yielded list \<times> processor" where
  "handle_events u [] p = ([], p)"
| "handle_events u (e # es) p = (let (ys, p1) = handle_event u e p; (zs, p2) = handle_events u es p1 in (ys @ zs, p2))"

definition ids_agree :: "processor \<Rightarrow> bool" where
  "ids_agree p \<longleftrightarrow> cited_document_ids p = set (get_cited_document_ids p) \<and> distinct (get_cited_document_ids p)"

text \<open>The documents cited so far are those announced before and those announced by this step.\<close>

definition announces :: "processor \<Rightarrow> yielded list \<Rightarrow> processor \<Rightarrow> bool" where
  "announces p ys p' \<longleftrightarrow> get_cited_document_ids p' = get_cited_document_ids p @ map snd (announced ys)
     \<and> mode p' = mode p \<and> (mode p \<noteq> HYPERLINK \<longrightarrow> announced ys = [])
     \<and> (ids_agree p \<longrightarrow> ids_agree p')"

lemma announces_nothing:
  "cited_documents_in_order p' = cited_documents_in_order p \<Longrightarrow> cited_document_ids p' = cited_document_ids p \<Longrightarrow> mode p' = mode p
    \<Longrightarrow> announced ys = [] \<Longrightarrow> announces p ys p'"
  by (simp add: announces_def ids_agree_def get_cited_document_ids_def)

lemma announces_trans: "announces p ys p1 \<Longrightarrow> announces p1 zs p2 \<Longrightarrow> announces p (ys @ zs) p2"
  unfolding announces_def by simp

lemma note_cited_announces: "note_cited n doc p = (ys, p') \<Longrightarrow> mode p = HYPERLINK \<Longrightarrow> announces p ys p'"
  by (auto simp: note_cited_def announces_def ids_agree_def get_cited_document_ids_def Let_def split: if_splits)

lemma cite_numbers_announces: "cite_numbers u ss p = (parts, infos, p') \<Longrightarrow> announces p infos p'"
proof (induction ss arbitrary: p parts infos p')
  case (Cons s ss)
  consider "parse_number u s = None" | n where "parse_number u s = Some n" "dict_get (citation_to_doc p) n = None"
    | n doc where "parse_number u s = Some n" "dict_get (citation_to_doc p) n = Some doc" by fastforce
  then show ?case
  proof cases
    case (3 n doc)
    let ?p1 = "p\<lparr>seen_citations := dict_set n doc (seen_citations p)\<rparr>"
    have 1: "announces p [] ?p1" by (rule announces_nothing) simp_all
    show ?thesis
    proof (cases "mode p = HYPERLINK")
      case False
      then have "cite_numbers u ss ?p1 = (parts, infos, p')" using Cons.prems 3 by (simp add: Let_def)
      from announces_trans [OF 1 Cons.IH [OF this]] show ?thesis by simp
    next
      case True
      obtain info p2 where info: "note_cited n doc ?p1 = (info, p2)" by fastforce
      obtain parts' infos' where rest: "cite_numbers u ss p2 = (parts', infos', p')" "infos = info @ infos'"
        using Cons.prems 3 True info by (auto simp: Let_def split: prod.splits)
      from announces_trans [OF 1 announces_trans [OF note_cited_announces [OF info] Cons.IH [OF rest(1)]]] show ?thesis
        using True rest(2) by simp
    qed
  qed (use Cons in auto)
qed (simp add: announces_nothing)

lemma emit_announces: "emit_citations u ms rest p = (ys, p') \<Longrightarrow> announces p ys p'"
proof (induction ms arbitrary: p ys p')
  case (Cons x ms)
  obtain a f m where x: "x = (a, f, m)" by (cases x)
  let ?p1 = "p\<lparr>non_citation_count := non_citation_count p + length a,
      recent_cited_documents := (if 5 < non_citation_count p + length a then {} else recent_cited_documents p)\<rparr>"
  obtain sh infos p2 where c: "process_citation u f m (if a \<noteq> [] then uc_space u (last a) else True) ?p1 = (sh, infos, p2)"
    by (metis prod_cases3)
  obtain parts where parts: "cite_numbers u (number_texts u f m) ?p1 = (parts, infos, p2)"
    using c by (auto simp: process_citation_def Let_def split: prod.splits)
  obtain zs where rest: "emit_citations u ms rest (p2\<lparr>non_citation_count := 0\<rparr>) = (zs, p')"
    using Cons.prems c by (auto simp: x Let_def split: prod.splits)
  then have ys: "announced ys = (if mode p = HYPERLINK then announced infos else []) @ announced zs"
    using Cons.prems c by (cases "mode p") (auto simp: x Let_def)
  have "announces p [] ?p1" "announces p2 [] (p2\<lparr>non_citation_count := 0\<rparr>)" by (simp_all add: announces_nothing)
  from announces_trans [OF announces_trans [OF this(1) cite_numbers_announces [OF parts]] announces_trans [OF this(2) Cons.IH [OF rest]]]
  have a: "announces p (infos @ zs) p'" by simp
  then have "announced infos = []" if "mode p \<noteq> HYPERLINK" using that by (simp add: announces_def)
  then show ?case using a ys by (auto simp: announces_def)
qed (simp add: announces_nothing)

lemma proceed_announces: "proceed u tok p = (ys, p') \<Longrightarrow> announces p ys p'"
proof -
  let ?out = "llm_out p @ tok" and ?seg = "add_language (llm_out p @ tok) (curr_segment p @ tok)"
  let ?p1 = "p\<lparr>llm_out := ?out, curr_segment := ?seg\<rparr>"
  assume run: "proceed u tok p = (ys, p')"
  obtain ms rest where ms: "matches u ?seg = (ms, rest)" by fastforce
  obtain outs p2 where step: "(if ms \<noteq> [] \<and> \<not> in_code_block ?out then (let (outs, p2) = emit_citations u ms rest ?p1
      in (outs, p2\<lparr>curr_segment := rest, non_citation_count := length rest\<rparr>)) else ([], ?p1)) = (outs, p2)" by fastforce
  have end_of_step: "(ys, p') = (if possible_citation (is_decimal u) ?seg then (outs, p2) else (outs @ shown_text (curr_segment p2),
      p2\<lparr>curr_segment := [], non_citation_count := non_citation_count p2 + length (curr_segment p2)\<rparr>))"
    using run unfolding proceed_def Let_def ms prod.case step [unfolded Let_def] by simp
  have "announces p outs p2"
  proof (cases "ms \<noteq> [] \<and> \<not> in_code_block ?out")
    case True
    then obtain p3 where p3: "emit_citations u ms rest ?p1 = (outs, p3)" "p2 = p3\<lparr>curr_segment := rest, non_citation_count := length rest\<rparr>"
      using step by (auto simp: Let_def split: prod.splits)
    have "announces p [] ?p1" "announces p3 [] p2" by (simp_all add: announces_nothing p3(2))
    from announces_trans [OF this(1) announces_trans [OF emit_announces [OF p3(1)] this(2)]] show ?thesis by simp
  next
    case False
    then show ?thesis using step by (auto simp: announces_nothing)
  qed
  moreover have "announces p2 (shown_text s) (p2\<lparr>curr_segment := [], non_citation_count := k\<rparr>)" for s k
    by (simp add: announces_nothing)
  ultimately show ?thesis using end_of_step announces_trans by (auto split: if_splits)
qed

lemma event_announces: "handle_event u e p = (ys, p') \<Longrightarrow> announces p ys p'"
proof (cases e)
  case (Token tok)
  moreover have "announces p zs q" if "proceed u s (p\<lparr>hold := h\<rparr>) = (zs, q)" for s h zs q
  proof -
    have "announces p [] (p\<lparr>hold := h\<rparr>)" by (simp add: announces_nothing)
    from announces_trans [OF this proceed_announces [OF that]] show ?thesis by simp
  qed
  moreover assume "handle_event u e p = (ys, p')"
  ultimately show ?thesis
    by (auto simp: process_token_def Let_def announces_nothing intro: proceed_announces split: option.splits if_splits)
qed (auto simp: update_citation_mapping_def reset_recent_citations_def intro: announces_nothing)



end
