(* ===== verification/CitationCollapse.thy ===== *)
theory CitationCollapse
  imports CitationStream PyNumbers
begin

text \<open>
  Collapsing the citations of an answer (\<open>collapse_citations\<close> in \<open>chat/citation_utils.py\<close>): the numbers are
  replaced by the smallest free ones, and the answer cites the same documents as before.
\<close>

section \<open>The shape of markers\<close>

definition digits :: "unicode \<Rightarrow> ustring \<Rightarrow> bool" where
  "digits u s \<longleftrightarrow> s \<noteq> [] \<and> list_all (is_decimal u) s"

text \<open>Further numbers: a comma, perhaps a blank, digits.\<close>

definition further :: "(bool \<times> ustring) list \<Rightarrow> ustring" where
  "further ns = concat (map (\<lambda>(b, e). comma # (if b then [blank] else []) @ e) ns)"

lemma further_simps [simp]: "further [] = []" "further ((b, e) # ns) = comma # (if b then [blank] else []) @ e @ further ns"
  by (simp_all add: further_def)

text \<open>White space and digits are told apart, and ASCII digits have their value.\<close>

definition sensible :: "unicode \<Rightarrow> bool" where
  "sensible u \<longleftrightarrow> regular u \<and> uc_space u blank \<and> (\<forall>c. is_decimal u c \<longrightarrow> \<not> uc_space u c)
     \<and> (\<forall>k < 10. uc_decimal u (48 + k) = Some k)"

lemma sensibleD:
  assumes "sensible u"
  shows "regular u" "uc_space u blank" "is_decimal u c \<Longrightarrow> \<not> uc_space u c" "k < 10 \<Longrightarrow> uc_decimal u (48 + k) = Some k"
  using assms by (auto simp: sensible_def)

lemma after_digits_iff:
  "after_digits (is_decimal u) s = Some w \<longleftrightarrow> (\<exists>ds. digits u ds \<and> s = ds @ w \<and> (w = [] \<or> \<not> is_decimal u (hd w)))"
proof
  assume a: "after_digits (is_decimal u) s = Some w"
  then obtain ds where "s = ds @ w" "ds \<noteq> []" "\<forall>x \<in> set ds. is_decimal u x" using after_digits_split by blast
  moreover have "w = [] \<or> \<not> is_decimal u (hd w)"
    using a by (auto simp: after_digits_def hd_dropWhile split: list.splits if_splits)
  ultimately show "\<exists>ds. digits u ds \<and> s = ds @ w \<and> (w = [] \<or> \<not> is_decimal u (hd w))" by (auto simp: digits_def list_all_iff)
next
  assume "\<exists>ds. digits u ds \<and> s = ds @ w \<and> (w = [] \<or> \<not> is_decimal u (hd w))"
  then obtain ds where ds: "ds \<noteq> []" "\<forall>x \<in> set ds. is_decimal u x" "s = ds @ w" "w = [] \<or> \<not> is_decimal u (hd w)"
    by (auto simp: digits_def list_all_iff)
  obtain x xs where x: "ds = x # xs" using ds(1) by (cases ds) auto
  have "dropWhile (is_decimal u) (xs @ w) = w" using ds(2,4) unfolding x by (cases w) (simp_all add: dropWhile_append3)
  then show "after_digits (is_decimal u) s = Some w" using ds(2,3) x by (simp add: after_digits_def)
qed

lemma skip_further: "\<exists>ns. s = further ns @ skip (next_number (is_decimal u)) s \<and> list_all (digits u \<circ> snd) ns"
proof (induction "length s" arbitrary: s rule: less_induct)
  case less
  show ?case
  proof (cases "next_number (is_decimal u) s")
    case None
    then show ?thesis by (intro exI [of _ "[]"]) (simp add: skip.simps)
  next
    case (Some r)
    then have skip: "skip (next_number (is_decimal u)) s = skip (next_number (is_decimal u)) r"
      using next_number_shorter [OF Some] by (simp add: skip.simps [of _ s])
    obtain ns where ns: "r = further ns @ skip (next_number (is_decimal u)) r" "list_all (digits u \<circ> snd) ns"
      using less [OF next_number_shorter [OF Some]] by blast
    obtain q where q: "s = comma # q" "after_digits (is_decimal u) (case q of x # q \<Rightarrow> if x = blank then q else x # q | [] \<Rightarrow> []) = Some r"
      using Some by (auto simp: next_number_def split: list.splits if_splits)
    then obtain ds where ds: "digits u ds" "(case q of x # q \<Rightarrow> if x = blank then q else x # q | [] \<Rightarrow> []) = ds @ r"
      unfolding after_digits_iff by blast
    have "q = ds @ r \<or> q = blank # ds @ r" using ds(2) by (auto split: list.splits if_splits)
    then have "s = comma # (if q = blank # ds @ r then [blank] else []) @ ds @ r" using q(1) by auto
    then obtain b where "s = comma # (if b then [blank] else []) @ ds @ r" by blast
    moreover have "further ((b, ds) # ns) @ skip (next_number (is_decimal u)) s = comma # (if b then [blank] else []) @ ds @ r"
      by (simp only: skip further_simps append.simps append_assoc ns(1) [symmetric])
    ultimately have "s = further ((b, ds) # ns) @ skip (next_number (is_decimal u)) s" by metis
    then show ?thesis using ds(1) ns(2) by (intro exI [of _ "(b, ds) # ns"]) simp
  qed
qed

lemma digits_hd: "digits u e \<Longrightarrow> \<exists>x xs. e = x # xs \<and> is_decimal u x"
  by (cases e) (auto simp: digits_def)

lemma skip_further_back:
  assumes u: "regular u" and "list_all (digits u \<circ> snd) ns" and w: "w \<noteq> []" "\<not> is_decimal u (hd w)" "next_number (is_decimal u) w = None"
  shows "skip (next_number (is_decimal u)) (further ns @ w) = w"
  using assms(2)
proof (induction ns)
  case Nil
  then show ?case using w(3) by (simp add: skip.simps)
next
  case (Cons n ns)
  obtain b e where n: "n = (b, e)" by (cases n)
  have e: "digits u e" using Cons.prems by (simp add: n)
  obtain x xs where x: "e = x # xs" "is_decimal u x" using digits_hd [OF e] by blast
  have "further ns @ w = [] \<or> \<not> is_decimal u (hd (further ns @ w))"
    using w(2) regularD(3) [OF u] by (cases ns) (auto simp: further_def)
  then have "after_digits (is_decimal u) (e @ further ns @ w) = Some (further ns @ w)" using e after_digits_iff by blast
  moreover have "x \<noteq> blank" using x(2) regularD(4) [OF u] by auto
  ultimately have next_one: "next_number (is_decimal u) (further (n # ns) @ w) = Some (further ns @ w)"
    using x(1) by (auto simp: n next_number_def)
  then show ?case
    using next_number_shorter [OF next_one] Cons by (subst skip.simps) (simp del: further_simps)
qed

definition single_marker :: "unicode \<Rightarrow> nat \<Rightarrow> ustring \<Rightarrow> (bool \<times> ustring) list \<Rightarrow> nat \<Rightarrow> bool" where
  "single_marker u a d ns x \<longleftrightarrow> a \<in> set open_brackets \<and> x \<in> set close_brackets \<and> digits u d \<and> list_all (digits u \<circ> snd) ns"

definition double_marker :: "unicode \<Rightarrow> nat \<Rightarrow> nat \<Rightarrow> ustring \<Rightarrow> nat \<Rightarrow> nat \<Rightarrow> bool" where
  "double_marker u a b d x y \<longleftrightarrow> {a, b} \<subseteq> set open_brackets \<and> {x, y} \<subseteq> set close_brackets \<and> digits u d"

lemma closer_stops: "x \<in> set close_brackets \<Longrightarrow> next_number d (x # q) = None"
  by (auto simp: next_number_def)

lemma match_at_cases:
  assumes u: "regular u" and m: "match_at u s = Some (f, q)"
  obtains a d ns x where "\<not> f" "single_marker u a d ns x" "s = a # d @ further ns @ x # q"
  | a b d x y where f "double_marker u a b d x y" "s = a # b # d @ x # y # q"
proof (cases "double_at (is_decimal u) s")
  case (Some q')
  then have q: "q' = q" f using m by (auto simp: citation_at_def)
  obtain a b r x y where "s = a # b # r" "a \<in> set open_brackets" "b \<in> set open_brackets" "after_digits (is_decimal u) r = Some (x # y # q)"
      "x \<in> set close_brackets" "y \<in> set close_brackets"
    using Some unfolding q(1) by (rule double_atE)
  then show ?thesis using that(2) q(2) unfolding after_digits_iff double_marker_def by blast
next
  case None
  then have q: "single_at (is_decimal u) (next_number (is_decimal u)) s = Some q" "\<not> f" using m by (auto simp: citation_at_def)
  obtain a z t x where z: "s = a # z" "a \<in> set open_brackets" "after_digits (is_decimal u) z = Some t"
      "skip (next_number (is_decimal u)) t = x # q" "x \<in> set close_brackets"
    using q(1) by (rule single_atE)
  obtain ns where ns: "t = further ns @ x # q" "list_all (digits u \<circ> snd) ns" using skip_further [of t u] z(4) by auto
  obtain d where "digits u d" "z = d @ t" using z(3) unfolding after_digits_iff by blast
  then show ?thesis using that(1) [OF q(2), of a d ns x] z ns by (simp add: single_marker_def)
qed

lemma single_marker_match:
  assumes u: "regular u" and m: "single_marker u a d ns x"
  shows "match_at u (a # d @ further ns @ x # q) = Some (False, q)"
proof -
  have x: "\<not> is_decimal u x" using regularD(2) [OF u] m by (simp add: single_marker_def)
  then have "\<not> is_decimal u (hd (further ns @ x # q))" using regularD(3) [OF u] by (cases ns) (auto simp: further_def)
  then have "after_digits (is_decimal u) (d @ further ns @ x # q) = Some (further ns @ x # q)"
    unfolding after_digits_iff using m by (auto simp: single_marker_def)
  moreover have "skip (next_number (is_decimal u)) (further ns @ x # q) = x # q"
    using skip_further_back [OF u _ _ _ closer_stops] m x by (simp add: single_marker_def)
  moreover obtain c cs where "d = c # cs" "is_decimal u c" using m digits_hd unfolding single_marker_def by blast
  moreover from this have "double_at (is_decimal u) (a # d @ further ns @ x # q) = None"
    using regularD(1) [OF u] by (auto simp: double_at_def)
  ultimately show ?thesis using m by (simp add: citation_at_def single_at_def single_marker_def)
qed

lemma double_marker_match:
  assumes u: "regular u" and m: "double_marker u a b d x y"
  shows "match_at u (a # b # d @ x # y # q) = Some (True, q)"
proof -
  have "after_digits (is_decimal u) (d @ x # y # q) = Some (x # y # q)"
    unfolding after_digits_iff using m regularD(2) [OF u] by (auto simp: double_marker_def)
  then show ?thesis using m by (simp add: citation_at_def double_at_def double_marker_def)
qed

section \<open>The numbers of a marker\<close>

lemma digits_plain:
  assumes u: "sensible u" and d: "digits u d"
  shows "comma \<notin> set d" "strip_by (uc_space u) d = d" "strip_by (uc_space u) (blank # d) = d"
proof -
  have all: "\<forall>c \<in> set d. is_decimal u c" using d by (simp add: digits_def list_all_iff)
  then show "comma \<notin> set d" using regularD(3) [OF sensibleD(1) [OF u]] by blast
  have "\<forall>c \<in> set d. \<not> uc_space u c" using all sensibleD(3) [OF u] by blast
  then show s: "strip_by (uc_space u) d = d" by (rule strip_by_none)
  show "strip_by (uc_space u) (blank # d) = d" using s sensibleD(2) [OF u] by (simp add: strip_by_def)
qed

lemma split_further:
  assumes u: "sensible u" and "list_all (digits u \<circ> snd) ns" and d: "comma \<notin> set d"
  shows "map (strip_by (uc_space u)) (split_on comma (d @ further ns)) = strip_by (uc_space u) d # map snd ns"
  using assms(2,3)
proof (induction ns arbitrary: d)
  case (Cons n ns)
  obtain b e where n: "n = (b, e)" by (cases n)
  have e: "digits u e" using Cons.prems by (simp add: n)
  note plain = digits_plain [OF u e]
  have "comma \<notin> set ((if b then [blank] else []) @ e)" using plain(1) by simp
  from Cons.IH [OF _ this] show ?case
    using Cons.prems plain by (simp add: n split_on_append_sep split: if_splits)
qed (simp add: split_on_id)

lemma number_texts_single:
  assumes "sensible u" and m: "single_marker u a d ns x"
  shows "number_texts u False (a # d @ further ns @ [x]) = d # map snd ns"
  using split_further [OF assms(1), of ns d] digits_plain [OF assms(1), of d] m
  by (simp add: number_texts_def citation_content_def single_marker_def)

lemma number_texts_double:
  assumes "sensible u" and m: "double_marker u a b d x y"
  shows "number_texts u True (a # b # d @ [x, y]) = [d]"
  using digits_plain [OF assms(1), of d] m
  by (simp add: number_texts_def citation_content_def double_marker_def split_on_id)

lemma printed_digits:
  assumes u: "sensible u"
  shows "digits u (points (nat_str n))" "foldl (\<lambda>n c. 10 * n + the (uc_decimal u c)) 0 (points (nat_str n)) = n"
proof -
  have d: "(of_char (digit_char k) :: nat) = 48 + k" if "k < 10" for k using that of_char_digit by simp
  have v: "uc_decimal u (of_char (digit_char k)) = Some k" if "k < 10" for k using sensibleD(4) [OF u that] d [OF that] by simp
  then show "digits u (points (nat_str n))"
    by (auto simp: digits_def points_def list_all_iff is_decimal_def dest!: nat_str_digits)
  show "foldl (\<lambda>n c. 10 * n + the (uc_decimal u c)) 0 (points (nat_str n)) = n"
  proof (induction n rule: nat_str.induct)
    case (1 n)
    then show ?case by (cases "n < 10") (simp_all add: nat_str.simps [of n] points_def sensibleD(4) [OF u])
  qed
qed

lemma parse_printed:
  assumes u: "sensible u" and "0 \<le> n" "n < 10 ^ int_max_str_digits"
  shows "digits u (points (int_str n))" "parse_number u (points (int_str n)) = Some n"
proof -
  have s: "int_str n = nat_str (nat n)" using assms(2) by (simp add: int_str_def)
  show "digits u (points (int_str n))" using printed_digits(1) [OF u] by (simp add: s)
  obtain k where k: "int_max_str_digits = Suc k" by (cases int_max_str_digits) (simp_all add: int_max_str_digits_def)
  have "nat n < 10 ^ Suc k" using assms(2,3) by (simp add: nat_less_iff k)
  then have "length (points (int_str n)) \<le> int_max_str_digits" using length_nat_str [of "nat n" k] by (simp add: s points_def k)
  then show "parse_number u (points (int_str n)) = Some n"
    using printed_digits [OF u, of "nat n"] assms(2) by (simp add: parse_number_def digits_def s)
qed

section \<open>Replaced markers\<close>

definition new_number :: "(int, int) dict \<Rightarrow> int \<Rightarrow> int" where
  "new_number otn n = (case dict_get otn n of Some n' \<Rightarrow> n' | None \<Rightarrow> n)"

definition new_text :: "unicode \<Rightarrow> (int, int) dict \<Rightarrow> ustring \<Rightarrow> ustring" where
  "new_text u otn s = (case parse_number u s of None \<Rightarrow> s
     | Some n \<Rightarrow> (case dict_get otn n of Some n' \<Rightarrow> points (int_str n') | None \<Rightarrow> s))"

text \<open>Numbers that can be written and read again.\<close>

definition writable :: "(int, int) dict \<Rightarrow> bool" where
  "writable otn \<longleftrightarrow> (\<forall>(_, n) \<in> set otn. 0 \<le> n \<and> n < 10 ^ int_max_str_digits)"

lemma new_text_digits:
  assumes u: "sensible u" and w: "writable otn" and d: "digits u d"
  shows "digits u (new_text u otn d)" "parse_number u (new_text u otn d) = map_option (new_number otn) (parse_number u d)"
proof -
  have "digits u (points (int_str n')) \<and> parse_number u (points (int_str n')) = Some n'" if "dict_get otn n = Some n'" for n n'
    using parse_printed [OF u] w that unfolding writable_def dict_get_def by (fastforce dest!: map_of_SomeD)
  then show "digits u (new_text u otn d)" "parse_number u (new_text u otn d) = map_option (new_number otn) (parse_number u d)"
    using d by (auto simp: new_text_def new_number_def split: option.splits)
qed

lemma join_further: "join (points '', '') (d # ds) = d @ further (map (Pair True) ds)"
  by (induction ds arbitrary: d) (simp_all add: points_def)

lemma not_double: "single_marker u a d ns x \<Longrightarrow> regular u \<Longrightarrow> take 2 (a # d @ r) \<notin> set (map (\<lambda>b. [b, b]) open_brackets)"
  using digits_hd [of u d] regularD(1) [of u] by (auto simp: single_marker_def)

lemma replace_single:
  assumes u: "sensible u" and m: "single_marker u a d ns x"
  shows "replace_citation u otn (a # d @ further ns @ [x])
      = a # new_text u otn d @ further (map (Pair True \<circ> new_text u otn \<circ> snd) ns) @ [x]"
proof -
  let ?m = "a # d @ further ns @ [x]"
  have "take 2 ?m \<notin> set (map (\<lambda>b. [b, b]) open_brackets)" using not_double [OF m sensibleD(1) [OF u]] .
  moreover have "map (strip_by (uc_space u)) (split_on comma (take (length ?m - 2) (drop 1 ?m))) = d # map snd ns"
    using number_texts_single [OF u m] by (simp add: number_texts_def citation_content_def)
  moreover have "filter (\<lambda>s. s \<noteq> []) (d # map snd ns) = d # map snd ns"
    using m by (auto simp: single_marker_def digits_def list_all_iff intro!: filter_True)
  moreover have "take 1 ?m = [a]" "drop (length ?m - 1) ?m = [x]" by simp_all
  ultimately show ?thesis
    using join_further [of "new_text u otn d" "map (new_text u otn \<circ> snd) ns"]
    by (simp add: replace_citation_def Let_def new_text_def [abs_def] comp_def del: One_nat_def)
qed

lemma replace_double:
  assumes u: "sensible u" and m: "double_marker u a a d x y"
  shows "replace_citation u otn (a # a # d @ [x, y]) = a # a # new_text u otn d @ [x, y]"
proof -
  let ?m = "a # a # d @ [x, y]"
  have "take 2 ?m \<in> set (map (\<lambda>b. [b, b]) open_brackets)" using m by (simp add: double_marker_def)
  moreover have "map (strip_by (uc_space u)) (split_on comma (take (length ?m - 4) (drop 2 ?m))) = [d]"
    using number_texts_double [OF u m] by (simp add: number_texts_def citation_content_def)
  moreover have "d \<noteq> []" using m by (simp add: double_marker_def digits_def)
  ultimately show ?thesis by (simp add: replace_citation_def Let_def new_text_def)
qed

section \<open>The collapsed text\<close>

text \<open>A text before a marker takes part in a match only as the first bracket of a double one.\<close>

lemma match_over_bracket:
  assumes u: "regular u" and p: "p \<noteq> []" "match_at u p = None" and o: "b \<in> set open_brackets"
    and m: "match_at u (p @ b # t) = Some (f, q)"
  shows "\<exists>a d x y. p = [a] \<and> t = d @ x # y # q \<and> double_marker u a b d x y"
  using match_at_cases [OF u m]
proof cases
  case (2 a b' d x y)
  obtain p1 where p1: "p = a # p1" using p(1) 2(3) by (cases p) auto
  show ?thesis
  proof (cases p1)
    case Nil
    then show ?thesis using 2 p1 by auto
  next
    case (Cons c p2)
    then have rest: "p2 @ b # t = d @ x # y # q" "c = b'" using 2(3) p1 by simp_all
    have d: "\<forall>z \<in> set d. is_decimal u z" "x \<in> set close_brackets" "y \<in> set close_brackets"
      using 2(2) by (auto simp: double_marker_def digits_def list_all_iff)
    from rest(1) consider r where "p2 = d @ x # y # r" | "p2 = d @ [x]" "b = y" | r where "d = p2 @ r" "b # t = r @ x # y # q"
      by (auto simp: append_eq_append_conv2 append_eq_Cons_conv Cons_eq_append_conv)
    then show ?thesis
    proof cases
      case (1 r)
      then have "p = a # b' # d @ x # y # r" using p1 Cons rest(2) by simp
      then show ?thesis using double_marker_match [OF u 2(2), of r] p(2) by simp
    next
      case (3 r)
      then have "b \<in> set d \<or> b = x" by (cases r) auto
      then show ?thesis using d regularD(1) [OF u o] o by auto
    qed (use d o in auto)
  qed
next
  case (1 a d ns x)
  obtain p1 where p1: "p = a # p1" using p(1) 1(3) by (cases p) auto
  have eq: "p1 @ b # t = d @ further ns @ x # q" using 1(3) p1 by simp
  have x: "x \<in> set close_brackets" using 1(2) by (simp add: single_marker_def)
  have "b \<notin> set (d @ further ns @ [x])"
  proof -
    have "c \<in> set (further ns) \<Longrightarrow> is_decimal u c \<or> c = comma \<or> c = blank" for c
      using 1(2) by (induction ns) (auto simp: single_marker_def digits_def list_all_iff split: if_splits)
    from this [of b] have "b \<notin> set (further ns)" using regularD(1) [OF u o] o by auto
    then show ?thesis
      using 1(2) regularD(1) [OF u o] o x by (auto simp: single_marker_def digits_def list_all_iff)
  qed
  moreover have "p1 @ b # t = (d @ further ns @ [x]) @ q" using eq by simp
  moreover have "\<exists>r. p1 = w @ r" if "p1 @ b # t = w @ q" "b \<notin> set w" for w
    using that by (auto simp: append_eq_append_conv2 Cons_eq_append_conv)
  ultimately obtain r where "p1 = (d @ further ns @ [x]) @ r" by blast
  then have "p = a # d @ further ns @ x # r" using p1 by simp
  then show ?thesis using single_marker_match [OF u 1(2), of r] p(2) by simp
qed

definition same_brackets :: "(ustring \<times> bool \<times> ustring) list \<Rightarrow> bool" where
  "same_brackets ms \<longleftrightarrow> list_all (\<lambda>(_, f, m). f \<longrightarrow> take 2 m \<in> set (map (\<lambda>b. [b, b]) open_brackets)) ms"

definition replaced :: "unicode \<Rightarrow> (int, int) dict \<Rightarrow> (ustring \<times> bool \<times> ustring) list \<Rightarrow> (ustring \<times> bool \<times> ustring) list" where
  "replaced u otn ms = map (\<lambda>(a, f, m). (a, f, replace_citation u otn m)) ms"

abbreviation written :: "(ustring \<times> bool \<times> ustring) list \<Rightarrow> ustring" where
  "written ms \<equiv> concat (map (\<lambda>(a, _, m). a @ m) ms)"

text \<open>A replaced marker is a marker of the same form, with the new numbers, and starts with the same bracket.\<close>

lemma replace_marker:
  assumes u: "sensible u" and w: "writable otn" and m: "match_at u (m @ r) = Some (f, r)"
    and same: "f \<Longrightarrow> take 2 m \<in> set (map (\<lambda>b. [b, b]) open_brackets)"
  shows "match_at u (replace_citation u otn m @ q) = Some (f, q)"
    and "List.map_filter (parse_number u) (number_texts u f (replace_citation u otn m))
      = map (new_number otn) (List.map_filter (parse_number u) (number_texts u f m))"
    and "\<exists>b z z'. m = b # z \<and> replace_citation u otn m = b # z' \<and> b \<in> set open_brackets"
    and "replace_citation u otn m = b # d @ [x] \<Longrightarrow> digits u d \<Longrightarrow> \<not> f \<Longrightarrow> \<exists>d'. digits u d' \<and> m = b # d' @ [x]"
proof -
  have "(match_at u (replace_citation u otn m @ q) = Some (f, q)
    \<and> List.map_filter (parse_number u) (number_texts u f (replace_citation u otn m))
      = map (new_number otn) (List.map_filter (parse_number u) (number_texts u f m)))
    \<and> (\<exists>b z z'. m = b # z \<and> replace_citation u otn m = b # z' \<and> b \<in> set open_brackets)
    \<and> (\<forall>b d x. replace_citation u otn m = b # d @ [x] \<longrightarrow> digits u d \<longrightarrow> \<not> f \<longrightarrow> (\<exists>d'. digits u d' \<and> m = b # d' @ [x]))"
    using match_at_cases [OF sensibleD(1) [OF u] m]
  proof cases
    case (1 a d ns x)
    then have m': "m = a # d @ further ns @ [x]" by simp
    let ?ns = "map (Pair True \<circ> new_text u otn \<circ> snd) ns"
    have ds: "digits u d" "\<forall>n \<in> set ns. digits u (snd n)" using 1(2) by (auto simp: single_marker_def list_all_iff)
    note new = new_text_digits [OF u w]
    have marker: "single_marker u a (new_text u otn d) ?ns x"
      using 1(2) new(1) ds by (auto simp: single_marker_def list_all_iff)
    note rep = replace_single [OF u 1(2), of otn, folded m']
    have texts: "number_texts u False m = d # map snd ns" "number_texts u False (replace_citation u otn m) = map (new_text u otn) (d # map snd ns)"
      using number_texts_single [OF u 1(2)] number_texts_single [OF u marker] unfolding rep by (simp_all add: m' comp_def)
    have filter_map: "List.map_filter (parse_number u) (map (new_text u otn) es) = map (new_number otn) (List.map_filter (parse_number u) es)"
      if "\<forall>e \<in> set es. digits u e" for es
      using that new(2) by (induction es) (auto simp: List.map_filter_simps split: option.splits)
    have "\<forall>e \<in> set (d # map snd ns). digits u e" using ds by simp
    from filter_map [OF this] have nums: "List.map_filter (parse_number u) (number_texts u False (replace_citation u otn m))
        = map (new_number otn) (List.map_filter (parse_number u) (number_texts u False m))"
      unfolding texts .
    have plain: "\<exists>d'. digits u d' \<and> m = b # d' @ [x']" if p: "replace_citation u otn m = b # e @ [x']" "digits u e" for b e x'
    proof -
      have "comma \<notin> set e" using digits_plain(1) [OF u p(2)] .
      moreover have "new_text u otn d @ further ?ns @ [x] = e @ [x']" using p(1) rep by simp
      then have "new_text u otn d @ further ?ns = e" by (metis append_assoc butlast_snoc)
      ultimately have "ns = []" by (cases ns) (auto simp: further_def)
      then show ?thesis using p(1) rep m' ds(1) by auto
    qed
    show ?thesis
      using single_marker_match [OF sensibleD(1) [OF u] marker, of q] 1(1,2) nums plain rep m' by (auto simp: single_marker_def)
  next
    case (2 a b d x y)
    then have m': "m = a # b # d @ [x, y]" by simp
    then have ab: "b = a" using same [OF 2(1)] by auto
    note rep = replace_double [OF u 2(2) [unfolded ab], of otn]
    have d: "digits u d" using 2(2) by (simp add: double_marker_def)
    have marker: "double_marker u a a (new_text u otn d) x y"
      using 2(2) new_text_digits(1) [OF u w d] by (simp add: double_marker_def ab)
    have "number_texts u True m = [d]" "number_texts u True (replace_citation u otn m) = [new_text u otn d]"
      using number_texts_double [OF u 2(2)] number_texts_double [OF u marker] rep by (simp_all add: m' ab)
    then have "List.map_filter (parse_number u) (number_texts u True (replace_citation u otn m))
        = map (new_number otn) (List.map_filter (parse_number u) (number_texts u True m))"
      using new_text_digits(2) [OF u w d] by (simp add: List.map_filter_simps split: option.splits)
    then show ?thesis
      using double_marker_match [OF sensibleD(1) [OF u] marker, of q] 2(1,2) rep m' ab by (simp add: double_marker_def)
  qed
  then show "match_at u (replace_citation u otn m @ q) = Some (f, q)"
    "List.map_filter (parse_number u) (number_texts u f (replace_citation u otn m))
      = map (new_number otn) (List.map_filter (parse_number u) (number_texts u f m))"
    "\<exists>b z z'. m = b # z \<and> replace_citation u otn m = b # z' \<and> b \<in> set open_brackets"
    "replace_citation u otn m = b # d @ [x] \<Longrightarrow> digits u d \<Longrightarrow> \<not> f \<Longrightarrow> \<exists>d'. digits u d' \<and> m = b # d' @ [x]"
    by blast+
qed

lemma found_markers: "matches u s = (ms, rest) \<Longrightarrow> (a, f, m) \<in> set ms \<Longrightarrow> \<exists>r. match_at u (m @ r) = Some (f, r)"
proof (induction "length s" arbitrary: s ms rest a rule: less_induct)
  case less
  show ?case
  proof (cases s)
    case (Cons c s')
    show ?thesis
    proof (cases "match_at u s")
      case (Some fr)
      obtain f' r where fr: "fr = (f', r)" by (cases fr)
      obtain ms' where ms': "matches u r = (ms', rest)" "ms = ([], f', take (length s - length r) s) # ms'"
        using less.prems(1) Some fr Cons by (auto simp: Let_def split: prod.splits)
      show ?thesis
      proof (cases "(a, f, m) \<in> set ms'")
        case True
        then show ?thesis using less.hyps [OF citation_at_shorter [OF Some [unfolded fr]] ms'(1)] by blast
      next
        case False
        then have "f = f'" "m = take (length s - length r) s" using less.prems(2) ms'(2) by auto
        then have "m @ r = s" using match_at_suffix [OF Some [unfolded fr]] by simp
        then show ?thesis using Some fr \<open>f = f'\<close> by auto
      qed
    next
      case None
      obtain ms' rest' where ms': "matches u s' = (ms', rest')" by fastforce
      then have "\<exists>a'. (a', f, m) \<in> set ms'"
        using less.prems None Cons by (fastforce simp: find_citations_acc [of _ _ "[c]"] split: list.splits)
      then show ?thesis using less.hyps [of s'] ms' Cons by auto
    qed
  qed (use less.prems in simp)
qed

lemma after_digits_unique:
  assumes "d @ w = d' @ w'" "digits u d" "digits u d'" "w \<noteq> []" "\<not> is_decimal u (hd w)" "w' \<noteq> []" "\<not> is_decimal u (hd w')"
  shows "d = d' \<and> w = w'"
proof -
  have "after_digits (is_decimal u) (d @ w) = Some w" "after_digits (is_decimal u) (d @ w) = Some w'"
    unfolding after_digits_iff using assms by blast+
  then show ?thesis using assms(1) by simp
qed

lemma matches_replaced:
  assumes u: "sensible u" and w: "writable otn"
  shows "matches u s = (ms, rest) \<Longrightarrow> same_brackets ms
    \<Longrightarrow> matches u (written (replaced u otn ms) @ rest) = (replaced u otn ms, rest)"
proof (induction "length s" arbitrary: s ms rest rule: less_induct)
  case less
  note reg = sensibleD(1) [OF u]
  have same: "take 2 m \<in> set (map (\<lambda>b. [b, b]) open_brackets)" if "(a, f, m) \<in> set ms" f for a f m
    using that less.prems(2) by (auto simp: same_brackets_def list_all_iff)
  note marker = replace_marker [OF u w]
  show ?case
  proof (cases s)
    case Nil
    then show ?thesis using less.prems by (simp add: replaced_def)
  next
    case (Cons c s')
    show ?thesis
    proof (cases "match_at u s")
      case (Some fr)
      obtain f r where fr: "fr = (f, r)" by (cases fr)
      let ?m = "take (length s - length r) s"
      obtain ms' where ms': "matches u r = (ms', rest)" "ms = ([], f, ?m) # ms'"
        using less.prems(1) Some fr Cons by (auto simp: Let_def split: prod.splits)
      have "same_brackets ms'" using less.prems(2) ms'(2) by (simp add: same_brackets_def)
      note IH = less.hyps [OF citation_at_shorter [OF Some [unfolded fr]] ms'(1) this]
      let ?t = "written (replaced u otn ms') @ rest"
      have m: "match_at u (?m @ r) = Some (f, r)" using Some fr match_at_suffix [OF Some [unfolded fr]] by metis
      have f: "f \<Longrightarrow> take 2 ?m \<in> set (map (\<lambda>b. [b, b]) open_brackets)" using same [of "[]" f ?m] ms'(2) by simp
      obtain b z where b: "replace_citation u otn ?m = b # z" using marker(3) [OF m f] by blast
      have "match_at u (b # z @ ?t) = Some (f, ?t)" using marker(1) [OF m f, of ?t] b by simp
      then have "matches u (b # z @ ?t) = (([], f, b # z) # replaced u otn ms', rest)"
        using IH by (simp add: Let_def)
      then show ?thesis by (simp add: ms'(2) replaced_def b)
    next
      case None
      show ?thesis
      proof (cases ms)
        case Nil
        then show ?thesis using less.prems(1) matches_text [OF less.prems(1)] by (simp add: replaced_def)
      next
        case first: (Cons x ms2)
        obtain ms' rest' where m': "matches u s' = (ms', rest')" by fastforce
        then obtain a f m where x: "ms' = (a, f, m) # ms2" "x = (c # a, f, m)" "rest' = rest"
          using less.prems(1) None Cons first by (auto simp: find_citations_acc [of _ _ "[c]"] split: list.splits)
        have "same_brackets ms'" using less.prems(2) first x by (simp add: same_brackets_def)
        then have IH: "matches u (written (replaced u otn ms') @ rest) = (replaced u otn ms', rest)"
          using less.hyps [of s'] m' x(3) Cons by simp
        obtain r where m: "match_at u (m @ r) = Some (f, r)" using found_markers [OF m'] x(1) by fastforce
        have f: "f \<Longrightarrow> take 2 m \<in> set (map (\<lambda>b. [b, b]) open_brackets)" using same [of "c # a" f m] first x(2) by simp
        obtain b z z' where b: "m = b # z" "replace_citation u otn m = b # z'" "b \<in> set open_brackets" using marker(3) [OF m f] by blast
        let ?t = "written (replaced u otn ms2) @ rest"
        have s: "s = (c # a) @ m @ written ms2 @ rest" using matches_text [OF m'] x Cons by simp
        have new: "written (replaced u otn ms') @ rest = a @ b # z' @ ?t" using x(1) b(2) by (simp add: replaced_def)
        have "match_at u (c # a @ b # z' @ ?t) = None"
        proof (rule ccontr)
          assume "match_at u (c # a @ b # z' @ ?t) \<noteq> None"
          then obtain f0 q where over: "match_at u ((c # a) @ b # z' @ ?t) = Some (f0, q)" by auto
          have "match_at u (c # a) = None"
          proof (rule ccontr)
            assume "match_at u (c # a) \<noteq> None"
            then obtain g h where "match_at u (c # a) = Some (g, h)" by auto
            from citation_at_append [OF reg this, of "m @ written ms2 @ rest"] show False using None s by simp
          qed
          from match_over_bracket [OF reg _ this b(3) over] obtain d x1 y where
            over': "a = []" "z' @ ?t = d @ x1 # y # q" "double_marker u c b d x1 y" by auto
          have d: "digits u d" and closers: "x1 \<in> set close_brackets" "y \<in> set close_brackets"
            using over'(3) by (auto simp: double_marker_def)
          have "match_at u (b # z' @ ?t) = Some (f, ?t)" using marker(1) [OF m f, of ?t] b(2) by simp
          from match_at_cases [OF reg this] show False
          proof cases
            case (1 a1 d1 ns x2)
            then have eq: "d1 @ further ns @ x2 # ?t = d @ x1 # y # q" using over'(2) by simp
            have d1: "digits u d1" "x2 \<in> set close_brackets" using 1(2) by (auto simp: single_marker_def)
            have "\<not> is_decimal u (hd (further ns @ x2 # ?t))" 
              using regularD(2,3) [OF reg] d1(2) by (cases ns) (auto simp: further_def)
            moreover have "\<not> is_decimal u (hd (x1 # y # q))" using regularD(2) [OF reg closers(1)] by simp
            ultimately have "d1 = d" "further ns @ x2 # ?t = x1 # y # q"
              using after_digits_unique [OF eq d1(1) d] by auto
            then have "ns = []" "x2 = x1" "?t = y # q" using closers(1) by (cases ns; auto simp: further_def)+
            then have "replace_citation u otn m = b # d @ [x1]" using 1(3) \<open>d1 = d\<close> b(2) by simp
            from marker(4) [OF m f this d] 1(1) obtain d' where d': "digits u d'" "m = b # d' @ [x1]" by blast
            have "\<exists>q'. written ms2 @ rest = y # q'"
            proof (cases ms2)
              case Nil
              then show ?thesis using \<open>?t = y # q\<close> by (simp add: replaced_def)
            next
              case (Cons v ms3)
              obtain a3 f3 m3 where v: "v = (a3, f3, m3)" by (cases v)
              have "(a3, f3, m3) \<in> set ms'" "(a3, f3, m3) \<in> set ms" using x(1) first Cons v by auto
              then obtain r3 where "match_at u (m3 @ r3) = Some (f3, r3)" using found_markers [OF m'] by blast
              from marker(3) [OF this same [OF \<open>(a3, f3, m3) \<in> set ms\<close>]] obtain b3 k3 where
                "replace_citation u otn m3 = b3 # k3" "b3 \<in> set open_brackets" by blast
              then show ?thesis using \<open>?t = y # q\<close> closers(2) v Cons by (cases a3) (auto simp: replaced_def)
            qed
            then obtain q' where "s = c # b # d' @ x1 # y # q'" using s over'(1) d'(2) by auto
            moreover have "double_marker u c b d' x1 y" using over'(3) d'(1) by (simp add: double_marker_def)
            ultimately show False using double_marker_match [OF reg, of c b d' x1 y q'] None by simp
          next
            case (2 a1 b1 d1 x2 y2)
            then have "z' @ ?t = b1 # d1 @ x2 # y2 # ?t" "b1 \<in> set open_brackets" by (auto simp: double_marker_def)
            then show False using over'(2) digits_hd [OF d] regularD(1) [OF reg] by auto
          qed
        qed
        then have "matches u (c # a @ b # z' @ ?t) = find_citations (is_decimal u) (next_number (is_decimal u)) [c] (a @ b # z' @ ?t)"
          by simp
        also have "\<dots> = ((c # a, f, b # z') # replaced u otn ms2, rest)"
          using IH unfolding new by (simp add: find_citations_acc [of _ _ "[c]"] x(1) replaced_def b(2))
        finally show ?thesis using first x(2) b(2) by (simp add: replaced_def)
      qed
    qed
  qed
qed

section \<open>The new numbers\<close>

definition renumbering :: "citation_mapping \<Rightarrow> citation_mapping \<Rightarrow> (int, int) dict" where
  "renumbering existing new_citations = map (\<lambda>(old, n, _). (old, n))
     (fst (assign_numbers (existing_numbers existing) (first_free existing) new_citations []))"

definition citation_numbers :: "unicode \<Rightarrow> ustring \<Rightarrow> int list" where
  "citation_numbers u s = List.map_filter (parse_number u) (concat (map (\<lambda>(_, f, m). number_texts u f m) (fst (matches u s))))"

lemma existing_numbers_get: "dict_get (existing_numbers existing) i = Some n \<Longrightarrow> \<exists>doc. (n, doc) \<in> set existing \<and> sd_id doc = i"
proof -
  have "dict_get (fold (\<lambda>(n, doc). dict_set (sd_id doc) n) xs acc) i = Some n
      \<Longrightarrow> dict_get acc i = Some n \<or> (\<exists>doc. (n, doc) \<in> set xs \<and> sd_id doc = i)" for xs acc
    by (induction xs arbitrary: acc) (fastforce split: if_splits)+
  moreover assume "dict_get (existing_numbers existing) i = Some n"
  ultimately show ?thesis by (fastforce simp: existing_numbers_def)
qed

text \<open>Every document gets the number it has among the existing ones, or one of the following numbers.\<close>

lemma assign_numbers_spec:
  assumes "assign_numbers ex k cm assigned = (assigned', fresh)"
    and "\<forall>(old, n, i) \<in> set assigned. dict_get ex i = Some n \<or> (n, i) \<in> before"
  shows "map fst assigned' = map fst assigned @ map fst cm \<and> set assigned \<subseteq> set assigned'
    \<and> (\<forall>(old, doc) \<in> set cm. \<exists>n. (old, n, sd_id doc) \<in> set assigned')
    \<and> (\<forall>(old, n, i) \<in> set assigned'. dict_get ex i = Some n \<or> (n, i) \<in> before \<union> (\<lambda>(n, doc). (n, sd_id doc)) ` set fresh)
    \<and> map fst fresh = [k .. k + int (length fresh) - 1]"
  using assms
proof (induction ex k cm assigned arbitrary: before assigned' fresh rule: assign_numbers.induct)
  case (2 ex k old doc cm assigned)
  consider n where "dict_get ex (sd_id doc) = Some n"
    | o' n where "dict_get ex (sd_id doc) = None" "find (\<lambda>(_, _, i). i = sd_id doc) assigned = Some (o', n, sd_id doc)"
    | "dict_get ex (sd_id doc) = None" "find (\<lambda>(_, _, i). i = sd_id doc) assigned = None"
    by (cases "dict_get ex (sd_id doc)"; cases "find (\<lambda>(_, _, i). i = sd_id doc) assigned") (auto simp: find_Some_iff)
  then show ?case
  proof cases
    case (1 n)
    let ?as = "assigned @ [(old, n, sd_id doc)]"
    have run: "assign_numbers ex k cm ?as = (assigned', fresh)" using "2.prems"(1) 1 by simp
    have "\<forall>(old, n, i) \<in> set ?as. dict_get ex i = Some n \<or> (n, i) \<in> before" using "2.prems"(2) 1 by auto
    from "2.IH"(3) [OF 1 run this] show ?thesis by auto
  next
    case (2 o' n)
    let ?as = "assigned @ [(old, n, sd_id doc)]"
    have run: "assign_numbers ex k cm ?as = (assigned', fresh)" using "2.prems"(1) 2 by simp
    have "(o', n, sd_id doc) \<in> set assigned" using 2(2) unfolding find_Some_iff by (metis nth_mem)
    then have "\<forall>(old, n, i) \<in> set ?as. dict_get ex i = Some n \<or> (n, i) \<in> before" using "2.prems"(2) by auto
    from "2.IH"(2) [OF 2(1,2) refl refl run this] show ?thesis by auto
  next
    case 3
    let ?as = "assigned @ [(old, k, sd_id doc)]"
    obtain fresh' where run: "assign_numbers ex (k + 1) cm ?as = (assigned', fresh')" "fresh = (k, doc) # fresh'"
      using "2.prems"(1) 3 by (auto split: prod.splits)
    have "\<forall>(old, n, i) \<in> set ?as. dict_get ex i = Some n \<or> (n, i) \<in> insert (k, sd_id doc) before" using "2.prems"(2) by auto
    note IH = "2.IH"(1) [OF 3 run(1) this]
    have "k # [k + 1..k + 1 + int (length fresh') - 1] = [k..k + int (length fresh) - 1]"
      using upto_rec1 [of k "k + int (length fresh) - 1"] run(2) by simp
    then show ?thesis using IH run(2) by auto
  qed
qed auto

lemma find_member: "find P xs = Some x \<Longrightarrow> x \<in> set xs \<and> P x"
  by (induction xs) (auto split: if_splits)

lemma assigned_ids:
  "assign_numbers ex k cm assigned = (assigned', fresh)
    \<Longrightarrow> distinct (map (sd_id \<circ> snd) fresh) \<and> (sd_id \<circ> snd) ` set fresh
      = {i \<in> (sd_id \<circ> snd) ` set cm. dict_get ex i = None \<and> i \<notin> (snd \<circ> snd) ` set assigned}"
proof (induction ex k cm assigned arbitrary: assigned' fresh rule: assign_numbers.induct)
  case (2 ex k old doc cm assigned)
  show ?case
  proof (cases "dict_get ex (sd_id doc)")
    case None
    show ?thesis
    proof (cases "find (\<lambda>(_, _, i). i = sd_id doc) assigned")
      case none: None
      then have new: "sd_id doc \<notin> (snd \<circ> snd) ` set assigned" by (auto simp: find_None_iff)
      obtain fresh' where run: "assign_numbers ex (k + 1) cm (assigned @ [(old, k, sd_id doc)]) = (assigned', fresh')" "fresh = (k, doc) # fresh'"
        using "2.prems" None none by (auto split: prod.splits)
      from "2.IH"(1) [OF None none run(1)] show ?thesis using None new run(2) by auto
    next
      case (Some x)
      obtain o' n j where x: "x = (o', n, j)" by (cases x)
      have "x \<in> set assigned" "j = sd_id doc" using Some x by (auto dest: find_member)
      then have old: "(o', n, sd_id doc) \<in> set assigned" using x by simp
      have "assign_numbers ex k cm (assigned @ [(old, n, sd_id doc)]) = (assigned', fresh)" using "2.prems" None Some x by simp
      from "2.IH"(2) [OF None Some [unfolded x] refl refl this] show ?thesis using old None by (force simp: comp_def)
    qed
  next
    case (Some n)
    then have "assign_numbers ex k cm (assigned @ [(old, n, sd_id doc)]) = (assigned', fresh)" using "2.prems" by simp
    from "2.IH"(3) [OF Some this] show ?thesis using Some by auto
  qed
qed auto

lemma dict_set_append: "k \<notin> fst ` set d \<Longrightarrow> dict_set k v d = d @ [(k, v)]"
  by (induction d rule: dict_set.induct) auto

lemma dict_update_append: "distinct (dict_keys (d @ e)) \<Longrightarrow> dict_update d e = d @ e"
  by (induction e arbitrary: d) (auto simp: dict_set_append)

lemma existing_numbers_None: "dict_get (existing_numbers existing) i = None \<longleftrightarrow> i \<notin> (sd_id \<circ> snd) ` set existing"
proof -
  have "dict_get (fold (\<lambda>(n, doc). dict_set (sd_id doc) n) xs acc) i = None
      \<longleftrightarrow> dict_get acc i = None \<and> i \<notin> (sd_id \<circ> snd) ` set xs" for xs acc
    by (induction xs arbitrary: acc) (auto split: if_splits)
  from this [of existing "[]"] show ?thesis by (simp add: existing_numbers_def)
qed

lemma above_existing: "(n, doc) \<in> set existing \<Longrightarrow> n < first_free existing"
  by (force simp: first_free_def intro: le_imp_less_Suc zle_add1_eq_le [THEN iffD2] Max_ge)

lemma map_filter_concat: "List.map_filter f (concat xss) = concat (map (List.map_filter f) xss)"
  by (induction xss) (auto simp: List.map_filter_def)

lemma citation_numbers_replaced:
  assumes u: "sensible u" and w: "writable otn" and m: "matches u s = (ms, rest)" and same: "same_brackets ms"
  shows "citation_numbers u (written (replaced u otn ms) @ rest) = map (new_number otn) (citation_numbers u s)"
proof -
  have "List.map_filter (parse_number u) (number_texts u f (replace_citation u otn m'))
      = map (new_number otn) (List.map_filter (parse_number u) (number_texts u f m'))" if "(a, f, m') \<in> set ms" for a f m'
    using replace_marker(2) [OF u w] found_markers [OF m that] same that
    unfolding same_brackets_def list_all_iff by blast
  then have "map (\<lambda>(_, f, m). List.map_filter (parse_number u) (number_texts u f m)) (replaced u otn ms)
      = map (map (new_number otn) \<circ> (\<lambda>(_, f, m). List.map_filter (parse_number u) (number_texts u f m))) ms"
    by (auto simp: replaced_def)
  then show ?thesis
    using matches_replaced [OF u w m same] m by (simp add: citation_numbers_def map_filter_concat map_concat comp_def split_def)
qed

lemma renumbering_documents:
  assumes run: "assign_numbers (existing_numbers existing) (first_free existing) new_citations [] = (assigned, fresh)"
    and distinct: "distinct (dict_keys existing)" "distinct (dict_keys new_citations)"
  shows "distinct (dict_keys (existing @ fresh))"
    and "dict_keys fresh = [first_free existing .. first_free existing
           + int (card ((sd_id \<circ> snd) ` set new_citations - (sd_id \<circ> snd) ` set existing)) - 1]"
    and "(old, doc) \<in> set new_citations \<Longrightarrow> \<exists>doc'. (new_number (renumbering existing new_citations) old, doc') \<in> set (existing @ fresh)
           \<and> sd_id doc' = sd_id doc"
proof -
  note spec = assign_numbers_spec [OF run, of "{}", simplified]
  note ids = assigned_ids [OF run, simplified, unfolded existing_numbers_None]
  have keys: "dict_keys fresh = [first_free existing .. first_free existing + int (length fresh) - 1]" using spec by blast
  have "distinct (dict_keys fresh)" unfolding keys by (rule distinct_upto)
  moreover have "first_free existing \<le> n" if "n \<in> set (dict_keys fresh)" for n using that unfolding keys by simp
  ultimately show "distinct (dict_keys (existing @ fresh))" using distinct(1) above_existing by (force simp: not_less)
  have "length fresh = card (set (map (sd_id \<circ> snd) fresh))" using ids distinct_card [of "map (sd_id \<circ> snd) fresh"] by simp
  also have "set (map (sd_id \<circ> snd) fresh) = (sd_id \<circ> snd) ` set new_citations - (sd_id \<circ> snd) ` set existing" using ids by auto
  finally show "dict_keys fresh = [first_free existing .. first_free existing
      + int (card ((sd_id \<circ> snd) ` set new_citations - (sd_id \<circ> snd) ` set existing)) - 1]" using keys by simp
  assume new: "(old, doc) \<in> set new_citations"
  then obtain n where n: "(old, n, sd_id doc) \<in> set assigned" using spec by blast
  have "dict_keys (renumbering existing new_citations) = dict_keys new_citations"
    using spec by (simp add: renumbering_def run comp_def split_def)
  moreover have "(old, n) \<in> set (renumbering existing new_citations)" using n by (force simp: renumbering_def run)
  ultimately have "dict_get (renumbering existing new_citations) old = Some n"
    using distinct(2) by (simp add: dict_get_def)
  then have number: "new_number (renumbering existing new_citations) old = n" by (simp add: new_number_def)
  have "dict_get (existing_numbers existing) (sd_id doc) = Some n \<or> (n, sd_id doc) \<in> (\<lambda>(n, doc). (n, sd_id doc)) ` set fresh"
    using n spec by blast
  then show "\<exists>doc'. (new_number (renumbering existing new_citations) old, doc') \<in> set (existing @ fresh) \<and> sd_id doc' = sd_id doc"
    unfolding number by (auto dest: existing_numbers_get)
qed



end
