(* ===== verification/Permissions.thy ===== *)
theory Permissions
  imports PyValue
begin

text \<open>
  Permissions and who may pass a route (\<open>db/enums.py\<close>, \<open>auth/permissions.py\<close>, \<open>db/permissions.py\<close>,
  \<open>auth/users.py\<close>, \<open>auth/utils.py\<close>): granted permissions are expanded with the implied ones when they are
  read, and a request that carries a scoped token is capped by the scopes of that token.
\<close>

section \<open>Permissions\<close>

datatype permission =
    BASIC_ACCESS
  | READ_CONNECTORS | READ_DOCUMENT_SETS | READ_AGENTS | READ_USERS
  | READ_SEARCH | READ_CHAT | WRITE_CHAT | READ_ADMIN
  | ADD_AGENTS | MANAGE_AGENTS | MANAGE_DOCUMENT_SETS | ADD_CONNECTORS | MANAGE_CONNECTORS | MANAGE_LLMS
  | READ_AGENT_ANALYTICS | MANAGE_ACTIONS | READ_QUERY_HISTORY | MANAGE_USER_GROUPS | CREATE_USER_API_KEYS
  | CREATE_SERVICE_ACCOUNT_API_KEYS | CREATE_SLACK_DISCORD_BOTS
  | CRAFT_SANDBOX | CRAFT_REQUEST_APP_SETUP
  | FULL_ADMIN_PANEL_ACCESS

fun perm_value :: "permission \<Rightarrow> string" where
  "perm_value BASIC_ACCESS = ''basic''"
| "perm_value READ_CONNECTORS = ''read:connectors''"
| "perm_value READ_DOCUMENT_SETS = ''read:document_sets''"
| "perm_value READ_AGENTS = ''read:agents''"
| "perm_value READ_USERS = ''read:users''"
| "perm_value READ_SEARCH = ''read:search''"
| "perm_value READ_CHAT = ''read:chat''"
| "perm_value WRITE_CHAT = ''write:chat''"
| "perm_value READ_ADMIN = ''read:admin''"
| "perm_value ADD_AGENTS = ''add:agents''"
| "perm_value MANAGE_AGENTS = ''manage:agents''"
| "perm_value MANAGE_DOCUMENT_SETS = ''manage:document_sets''"
| "perm_value ADD_CONNECTORS = ''add:connectors''"
| "perm_value MANAGE_CONNECTORS = ''manage:connectors''"
| "perm_value MANAGE_LLMS = ''manage:llms''"
| "perm_value READ_AGENT_ANALYTICS = ''read:agent_analytics''"
| "perm_value MANAGE_ACTIONS = ''manage:actions''"
| "perm_value READ_QUERY_HISTORY = ''read:query_history''"
| "perm_value MANAGE_USER_GROUPS = ''manage:user_groups''"
| "perm_value CREATE_USER_API_KEYS = ''create:user_api_keys''"
| "perm_value CREATE_SERVICE_ACCOUNT_API_KEYS = ''create:service_account_api_keys''"
| "perm_value CREATE_SLACK_DISCORD_BOTS = ''create:slack_discord_bots''"
| "perm_value CRAFT_SANDBOX = ''craft_sandbox''"
| "perm_value CRAFT_REQUEST_APP_SETUP = ''craft:request_app_setup''"
| "perm_value FULL_ADMIN_PANEL_ACCESS = ''admin''"

definition permissions :: "permission list" where
  "permissions = [BASIC_ACCESS, READ_CONNECTORS, READ_DOCUMENT_SETS, READ_AGENTS, READ_USERS,
     READ_SEARCH, READ_CHAT, WRITE_CHAT, READ_ADMIN, ADD_AGENTS, MANAGE_AGENTS, MANAGE_DOCUMENT_SETS, ADD_CONNECTORS,
     MANAGE_CONNECTORS, MANAGE_LLMS, READ_AGENT_ANALYTICS, MANAGE_ACTIONS, READ_QUERY_HISTORY, MANAGE_USER_GROUPS,
     CREATE_USER_API_KEYS, CREATE_SERVICE_ACCOUNT_API_KEYS, CREATE_SLACK_DISCORD_BOTS, CRAFT_SANDBOX,
     CRAFT_REQUEST_APP_SETUP, FULL_ADMIN_PANEL_ACCESS]"

text \<open>The permissions that are only implied, and those no administrator toggles.\<close>

definition IMPLIED :: "permission list" where
  "IMPLIED = [READ_CONNECTORS, READ_DOCUMENT_SETS, READ_AGENTS, READ_USERS, READ_SEARCH, READ_CHAT, WRITE_CHAT,
     READ_ADMIN, CRAFT_REQUEST_APP_SETUP]"

definition NON_TOGGLEABLE_PERMISSIONS :: "permission list" where
  "NON_TOGGLEABLE_PERMISSIONS = [BASIC_ACCESS, FULL_ADMIN_PANEL_ACCESS, CRAFT_SANDBOX] @ IMPLIED"

text \<open>\<open>Permission(value)\<close>, and the values of a stored list without the unknown ones.\<close>

definition parse_permission :: "string \<Rightarrow> permission option" where
  "parse_permission s = find (\<lambda>p. perm_value p = s) permissions"

definition parse_permission_values :: "string list \<Rightarrow> permission list" where
  "parse_permission_values = List.map_filter parse_permission"

lemma permissions_all [simp]: "p \<in> set permissions"
  by (cases p) (simp_all add: permissions_def)

lemma perm_value_inject [simp]: "perm_value p = perm_value q \<longleftrightarrow> p = q"
proof -
  have "distinct (map perm_value permissions)" by (simp add: permissions_def)
  then show ?thesis by (auto simp: distinct_map inj_on_eq_iff)
qed

lemma parse_permission_value [simp]: "parse_permission (perm_value p) = Some p"
  by (cases p) (simp_all add: parse_permission_def permissions_def)

lemma parse_permission_Some [simp]: "parse_permission s = Some p \<longleftrightarrow> s = perm_value p"
proof
  assume "parse_permission s = Some p"
  then show "s = perm_value p" by (auto simp: parse_permission_def find_Some_iff)
qed simp

lemma set_parse_permission_values [simp]: "p \<in> set (parse_permission_values ss) \<longleftrightarrow> perm_value p \<in> set ss"
  by (induction ss) (auto simp: parse_permission_values_def List.map_filter_simps split: option.splits)

declare perm_value.simps [simp del]

section \<open>Implied permissions\<close>

definition implied_permissions :: "(string, string list) dict" where
  "implied_permissions = map (\<lambda>(p, ps). (perm_value p, map perm_value ps))
    [(ADD_AGENTS, [READ_AGENTS]),
     (MANAGE_AGENTS, [ADD_AGENTS, READ_AGENTS]),
     (MANAGE_DOCUMENT_SETS, [READ_DOCUMENT_SETS, READ_CONNECTORS]),
     (ADD_CONNECTORS, [READ_CONNECTORS]),
     (MANAGE_CONNECTORS, [ADD_CONNECTORS, READ_CONNECTORS]),
     (MANAGE_USER_GROUPS, [READ_CONNECTORS, READ_DOCUMENT_SETS, READ_AGENTS, READ_USERS]),
     (BASIC_ACCESS, [READ_SEARCH, READ_CHAT, WRITE_CHAT]),
     (WRITE_CHAT, [READ_CHAT]),
     (CRAFT_SANDBOX, [READ_SEARCH, CRAFT_REQUEST_APP_SETUP])]"

text \<open>A set is a list in the order of insertion.  One round over a snapshot, and rounds until nothing changes.\<close>

fun expand_round :: "string list \<Rightarrow> string list \<Rightarrow> bool \<Rightarrow> string list \<times> bool" where
  "expand_round [] effective changed = (effective, changed)"
| "expand_round (perm # snapshot) effective changed = (case dict_get implied_permissions perm of
     Some implied \<Rightarrow> if \<not> set implied \<subseteq> set effective
        then expand_round snapshot (effective @ filter (\<lambda>q. q \<notin> set effective) implied) True
        else expand_round snapshot effective changed
   | None \<Rightarrow> expand_round snapshot effective changed)"

definition implied_values :: "string set" where
  "implied_values = \<Union> (set ` snd ` set implied_permissions)"

lemma expand_round_bounds:
  "expand_round snapshot eff b = (eff', b') \<Longrightarrow> set eff \<subseteq> set eff' \<and> set eff' \<subseteq> set eff \<union> implied_values
    \<and> (b' \<longrightarrow> b \<or> set eff \<noteq> set eff')"
proof (induction snapshot eff b rule: expand_round.induct)
  case (2 perm snapshot eff b)
  show ?case
  proof (cases "dict_get implied_permissions perm")
    case (Some implied)
    then have v: "set implied \<subseteq> implied_values"
      unfolding implied_values_def dict_get_def by (force dest: map_of_SomeD)
    show ?thesis
    proof (cases "set implied \<subseteq> set eff")
      case False
      let ?eff = "eff @ filter (\<lambda>q. q \<notin> set eff) implied"
      have "expand_round snapshot ?eff True = (eff', b')" using "2.prems" Some False by simp
      from "2.IH"(2) [OF Some False this] have "set ?eff \<subseteq> set eff'" "set eff' \<subseteq> set ?eff \<union> implied_values" by blast+
      moreover obtain q where "q \<in> set implied" "q \<notin> set eff" using False by blast
      ultimately show ?thesis using v by auto
    qed (use 2 Some in simp)
  qed (use 2 in simp)
qed simp

lemma expand_round_progress:
  assumes "(eff', True) = expand_round eff eff False"
  shows "card (implied_values - set eff') < card (implied_values - set eff)"
proof (rule psubset_card_mono)
  show "finite (implied_values - set eff)" by (simp add: implied_values_def)
  show "implied_values - set eff' \<subset> implied_values - set eff"
    using expand_round_bounds [OF assms [symmetric]] by blast
qed

function expand :: "string list \<Rightarrow> string list" where
  "expand effective = (case expand_round effective effective False of
     (effective', changed) \<Rightarrow> if changed then expand effective' else effective')"
  by pat_completeness auto
termination
  by (relation "measure (\<lambda>eff. card (implied_values - set eff))") (auto intro!: expand_round_progress)

declare expand.simps [simp del]

definition resolve_effective_permissions :: "string list \<Rightarrow> string list" where
  "resolve_effective_permissions granted =
    (if perm_value FULL_ADMIN_PANEL_ACCESS \<in> set granted then map perm_value permissions else expand granted)"

text \<open>
  The permissions of a user from the stored column.  The code converts the expanded values back with
  \<open>Permission(p)\<close>, which cannot fail: lemma \<open>expanded_values_known\<close>.
\<close>

definition get_effective_permissions :: "string list \<Rightarrow> permission list" where
  "get_effective_permissions stored =
    (let granted = parse_permission_values stored in
     if FULL_ADMIN_PANEL_ACCESS \<in> set granted then permissions
     else map (the \<circ> parse_permission) (resolve_effective_permissions (map perm_value granted)))"

section \<open>The closure\<close>

definition implies_directly :: "(string \<times> string) set" where
  "implies_directly = {(p, q). \<exists>qs. dict_get implied_permissions p = Some qs \<and> q \<in> set qs}"

lemma closure_least: "A \<subseteq> r\<^sup>* `` B \<Longrightarrow> r\<^sup>* `` A \<subseteq> r\<^sup>* `` B"
  by (blast intro: rtrancl_trans)

lemma expand_round_sound:
  "expand_round snapshot eff b = (eff', b') \<Longrightarrow> set snapshot \<subseteq> set eff \<Longrightarrow> set eff' \<subseteq> implies_directly\<^sup>* `` set eff"
proof (induction snapshot eff b rule: expand_round.induct)
  case (2 perm snapshot eff b)
  show ?case
  proof (cases "dict_get implied_permissions perm")
    case (Some implied)
    show ?thesis
    proof (cases "set implied \<subseteq> set eff")
      case False
      let ?eff = "eff @ filter (\<lambda>q. q \<notin> set eff) implied"
      have "expand_round snapshot ?eff True = (eff', b')" using "2.prems" Some False by simp
      from "2.IH"(2) [OF Some False this] "2.prems"(2) have "set eff' \<subseteq> implies_directly\<^sup>* `` set ?eff" by auto
      also have "set ?eff \<subseteq> implies_directly\<^sup>* `` set eff"
        using Some "2.prems"(2) by (auto simp: implies_directly_def)
      then have "implies_directly\<^sup>* `` set ?eff \<subseteq> implies_directly\<^sup>* `` set eff" by (rule closure_least)
      finally show ?thesis .
    qed (use 2 Some in simp)
  qed (use 2 in simp)
qed auto

text \<open>A round that changes nothing has found everything its snapshot implies.\<close>

lemma expand_round_changed: "expand_round snapshot eff True = (eff', b') \<Longrightarrow> b'"
  by (induction snapshot eff True arbitrary: eff' rule: expand_round.induct) (auto split: option.splits if_splits)

lemma expand_round_done:
  "expand_round snapshot eff False = (eff', False) \<Longrightarrow> eff' = eff \<and> implies_directly `` set snapshot \<subseteq> set eff"
proof (induction snapshot)
  case (Cons perm snapshot)
  have *: "expand_round snapshot eff False = (eff', False) \<and> implies_directly `` {perm} \<subseteq> set eff"
    using Cons.prems by (auto simp: implies_directly_def dest: expand_round_changed split: option.splits if_splits)
  then show ?case using Cons.IH by auto
qed simp

lemma expand_is_closure: "set (expand eff) = implies_directly\<^sup>* `` set eff"
proof (induction eff rule: expand.induct)
  case (1 eff)
  obtain eff' changed where r: "expand_round eff eff False = (eff', changed)" by fastforce
  note sound = expand_round_sound [OF r subset_refl]
  show ?case
  proof (cases changed)
    case True
    then have "set (expand eff) = implies_directly\<^sup>* `` set eff'" using 1 r by (simp add: expand.simps [of eff])
    moreover have "set eff \<subseteq> set eff'" using expand_round_bounds [OF r] by blast
    ultimately show ?thesis using closure_least [OF sound] by blast
  next
    case False
    then have "eff' = eff" "implies_directly `` set eff \<subseteq> set eff" using expand_round_done [of eff eff eff'] r by simp_all
    moreover from this(2) have "implies_directly\<^sup>* `` set eff \<subseteq> set eff" by (rule Image_closed_trancl [THEN equalityD1])
    ultimately show ?thesis using r False by (auto simp: expand.simps [of eff])
  qed
qed

lemma implied_known: "(p, q) \<in> implies_directly \<Longrightarrow> q \<in> range perm_value"
proof -
  have "dict_get (map (\<lambda>(p, ps). (perm_value p, map perm_value ps)) xs) p = Some qs \<Longrightarrow> set qs \<subseteq> range perm_value" for xs qs
    by (induction xs) (auto simp: dict_get_def split: if_splits)
  moreover assume "(p, q) \<in> implies_directly"
  ultimately show ?thesis unfolding implies_directly_def implied_permissions_def by blast
qed

lemma expanded_values_known: "(p, q) \<in> implies_directly\<^sup>* \<Longrightarrow> p \<in> range perm_value \<Longrightarrow> q \<in> range perm_value"
  by (induction rule: rtrancl_induct) (use implied_known in blast)+

lemma set_resolve: "set (resolve_effective_permissions granted) =
    (if perm_value FULL_ADMIN_PANEL_ACCESS \<in> set granted then range perm_value else implies_directly\<^sup>* `` set granted)"
  using permissions_all by (auto simp: resolve_effective_permissions_def expand_is_closure)

lemma set_get_effective: "set (get_effective_permissions stored) =
     (if perm_value FULL_ADMIN_PANEL_ACCESS \<in> set stored then UNIV
      else {p. \<exists>q. perm_value q \<in> set stored \<and> (perm_value q, perm_value p) \<in> implies_directly\<^sup>*})"
proof (cases "perm_value FULL_ADMIN_PANEL_ACCESS \<in> set stored")
  case True
  then show ?thesis by (auto simp: get_effective_permissions_def)
next
  case False
  have "(the \<circ> parse_permission) ` (implies_directly\<^sup>* `` A) = {p. \<exists>q \<in> A. (q, perm_value p) \<in> implies_directly\<^sup>*}"
    if "A \<subseteq> range perm_value" for A
  proof (intro set_eqI iffI)
    fix p assume "p \<in> (the \<circ> parse_permission) ` (implies_directly\<^sup>* `` A)"
    then obtain v q where q: "q \<in> A" "(q, v) \<in> implies_directly\<^sup>*" "p = the (parse_permission v)" by auto
    have "v \<in> range perm_value" using expanded_values_known [OF q(2)] q(1) that by auto
    then obtain p' where "v = perm_value p'" by auto
    then show "p \<in> {p. \<exists>q \<in> A. (q, perm_value p) \<in> implies_directly\<^sup>*}" using q by auto
  next
    fix p assume "p \<in> {p. \<exists>q \<in> A. (q, perm_value p) \<in> implies_directly\<^sup>*}"
    then have "perm_value p \<in> implies_directly\<^sup>* `` A" by auto
    then show "p \<in> (the \<circ> parse_permission) ` (implies_directly\<^sup>* `` A)" by (rule rev_image_eqI) simp
  qed
  note image = this [of "perm_value ` set (parse_permission_values stored)"]
  have none: "perm_value FULL_ADMIN_PANEL_ACCESS \<notin> perm_value ` set (parse_permission_values stored)" using False by auto
  have "set (get_effective_permissions stored)
      = (the \<circ> parse_permission) ` (implies_directly\<^sup>* `` (perm_value ` set (parse_permission_values stored)))"
    using False none by (simp add: get_effective_permissions_def set_resolve image_image)
  also have "\<dots> = {p. \<exists>q \<in> perm_value ` set (parse_permission_values stored). (q, perm_value p) \<in> implies_directly\<^sup>*}"
    by (rule image) blast
  finally show ?thesis using False by auto
qed

text \<open>C37: The expansion always ends, and a user has exactly the permissions that follow from the stored ones by
  any number of implications, or all of them with the administrator's permission; unknown stored values give none.\<close>

theorem effective_permissions_are_the_closure:
  "set (resolve_effective_permissions granted) =
     (if perm_value FULL_ADMIN_PANEL_ACCESS \<in> set granted then range perm_value else implies_directly\<^sup>* `` set granted)
   \<and> set (get_effective_permissions stored) =
     (if perm_value FULL_ADMIN_PANEL_ACCESS \<in> set stored then UNIV
      else {p. \<exists>q. perm_value q \<in> set stored \<and> (perm_value q, perm_value p) \<in> implies_directly\<^sup>*})"
  by (intro conjI set_resolve set_get_effective)

end
