(* ===== verification/RequestAuth.thy ===== *)
theory RequestAuth
  imports Permissions PyNumbers
begin

text \<open>
  Tokens and the way of a request to its user (\<open>auth/pat.py\<close>, \<open>auth/api_key.py\<close>, \<open>auth/utils.py\<close>,
  \<open>db/pat.py\<close>, \<open>server/pat\<close>, \<open>server/features/build/db/sandbox.py\<close>, the dependencies of \<open>auth/users.py\<close>
  and \<open>require_permission\<close> in \<open>auth/permissions.py\<close>).  The hash functions, the random part of a token, the
  clock, the user of a browser session and the settings are arguments.
\<close>

section \<open>Users and tokens\<close>

datatype account_type = STANDARD | BOT | EXT_PERM_ACCOUNT | SERVICE_ACCOUNT | ANONYMOUS

datatype user_role = LIMITED | BASIC | ADMIN | CURATOR | GLOBAL_CURATOR | SLACK_USER | EXT_PERM_USER

record auth_user =
  au_id :: uuid
  au_role :: user_role
  au_account :: account_type
  au_active :: bool
  au_verified :: bool
  au_oidc_expiry :: "int option"
  au_effective_permissions :: "string list"

datatype pat_type = USER | CRAFT

record pat_row =
  pat_id :: int
  pat_name :: string
  pat_hashed_token :: string
  pat_token_display :: string
  pat_user_id :: uuid
  pat_expires_at :: "int option"
  pat_is_revoked :: bool
  pat_kind :: pat_type
  pat_scopes :: "string list option"

record api_key_row =
  key_hashed :: string
  key_user_id :: uuid

record auth_db =
  t_auth_users :: "auth_user list"
  t_pats :: "pat_row list"
  t_api_keys :: "api_key_row list"

text \<open>Settings, and \<open>sha256(x).hexdigest()\<close> and \<open>sha256_crypt\<close>.\<close>

record auth_env =
  multi_tenant :: bool
  sha256 :: "string \<Rightarrow> string"
  sha256_crypt :: "string \<Rightarrow> string"
  need_verification :: bool
  anonymous_enabled :: bool

datatype refusal = BasicAuthenticationError | InsufficientPermissions | MultipleResultsFound

definition PAT_PREFIX :: string where "PAT_PREFIX = ''onyx_pat_''"
definition API_KEY_PREFIX :: string where "API_KEY_PREFIX = ''on_''"
definition DEPRECATED_API_KEY_PREFIX :: string where "DEPRECATED_API_KEY_PREFIX = ''dn_''"
definition BEARER_PREFIX :: string where "BEARER_PREFIX = ''Bearer ''"

text \<open>\<open>urllib.parse.quote\<close> and \<open>unquote\<close> of ASCII texts.\<close>

definition url_safe :: "char \<Rightarrow> bool" where
  "url_safe c \<longleftrightarrow> (let n = (of_char c :: nat) in
     (48 \<le> n \<and> n \<le> 57) \<or> (65 \<le> n \<and> n \<le> 90) \<or> (97 \<le> n \<and> n \<le> 122) \<or> c \<in> set ''_.-~/'')"

definition quote :: "string \<Rightarrow> string" where
  "quote s = concat (map (\<lambda>c. if url_safe c then [c]
     else [CHR ''%'', hex_upper (of_char c div 16), hex_upper (of_char c mod 16)]) s)"

definition hex_digit_value :: "char \<Rightarrow> nat option" where
  "hex_digit_value c = (let n = (of_char c :: nat) in
     if 48 \<le> n \<and> n \<le> 57 then Some (n - 48)
     else if 65 \<le> n \<and> n \<le> 70 then Some (n - 55)
     else if 97 \<le> n \<and> n \<le> 102 then Some (n - 87) else None)"

fun unquote :: "string \<Rightarrow> string" where
  "unquote (c # a # b # s) = (if c = CHR ''%'' then (case (hex_digit_value a, hex_digit_value b) of
       (Some h, Some l) \<Rightarrow> char_of (16 * h + l) # unquote s
     | _ \<Rightarrow> c # unquote (a # b # s)) else c # unquote (a # b # s))"
| "unquote s = s"

definition generate_token :: "auth_env \<Rightarrow> string \<Rightarrow> string option \<Rightarrow> string \<Rightarrow> string" where
  "generate_token env token_prefix tenant_id random =
    (if multi_tenant env \<and> truthy tenant_id then token_prefix @ quote (the tenant_id) @ ''.'' @ random else token_prefix @ random)"

definition generate_pat :: "auth_env \<Rightarrow> string option \<Rightarrow> string \<Rightarrow> string" where
  "generate_pat env = generate_token env PAT_PREFIX"

definition generate_api_key :: "auth_env \<Rightarrow> string option \<Rightarrow> string \<Rightarrow> string" where
  "generate_api_key env = generate_token env API_KEY_PREFIX"

definition hash_pat :: "auth_env \<Rightarrow> string \<Rightarrow> string" where
  "hash_pat env token = sha256 env token"

definition hash_api_key :: "auth_env \<Rightarrow> string \<Rightarrow> string result" where
  "hash_api_key env api_key =
    (if prefix API_KEY_PREFIX api_key then Inr (sha256 env api_key)
     else if prefix DEPRECATED_API_KEY_PREFIX api_key then Inr (sha256_crypt env api_key)
     else Inl ValueError)"

definition build_displayable_pat :: "string \<Rightarrow> string" where
  "build_displayable_pat token = take 12 token @ ''****'' @ drop (length token - 4) token"

text \<open>The last microsecond of the day so many days ahead; the range of dates ends with the year 9999.\<close>

definition day :: int where "day = 24 * 60 * 60 * 1000000"

definition last_date :: int where "last_date = 2932896 * day + (day - 1)"

definition calculate_expiration :: "int \<Rightarrow> int option \<Rightarrow> int option result" where
  "calculate_expiration now days = (case days of None \<Rightarrow> Inr None
     | Some n \<Rightarrow> let expiry = (now div day + n) * day + (day - 1) in
         if n < -999999999 \<or> 999999999 < n \<or> expiry < - 719162 * day \<or> last_date < expiry then Inl OverflowError
         else Inr (Some expiry))"

section \<open>Headers\<close>

text \<open>The two headers that may carry a token.\<close>

record auth_headers =
  hd_alternative :: "string option"
  hd_authorization :: "string option"

definition bearer_token :: "string \<Rightarrow> string" where
  "bearer_token auth_header = strip (drop (length BEARER_PREFIX) auth_header)"

definition get_hashed_bearer_token_from_request ::
  "auth_headers \<Rightarrow> string list \<Rightarrow> (string \<Rightarrow> string result) \<Rightarrow> bool \<Rightarrow> string option result" where
  "get_hashed_bearer_token_from_request headers valid_prefixes hash_fn allow_non_bearer =
    (let auth_header = py_or (hd_alternative headers) (hd_authorization headers) in
     if \<not> truthy auth_header then Inr None
     else let h = the auth_header in
       if \<not> prefix BEARER_PREFIX h \<and> \<not> allow_non_bearer then Inr None
       else let token = (if prefix BEARER_PREFIX h then bearer_token h else h) in
         if valid_prefixes \<noteq> [] \<and> \<not> list_ex (\<lambda>p. prefix p token) valid_prefixes then Inr None
         else bind_r (hash_fn token) (\<lambda>t. Inr (Some t)))"

definition get_hashed_pat_from_request :: "auth_env \<Rightarrow> auth_headers \<Rightarrow> string option result" where
  "get_hashed_pat_from_request env headers =
    get_hashed_bearer_token_from_request headers [PAT_PREFIX] (\<lambda>t. Inr (hash_pat env t)) False"

definition get_hashed_api_key_from_request :: "auth_env \<Rightarrow> auth_headers \<Rightarrow> string option result" where
  "get_hashed_api_key_from_request env headers =
    get_hashed_bearer_token_from_request headers [API_KEY_PREFIX, DEPRECATED_API_KEY_PREFIX] (hash_api_key env) True"

definition extract_tenant_from_bearer_token :: "auth_headers \<Rightarrow> string list \<Rightarrow> string option" where
  "extract_tenant_from_bearer_token headers valid_prefixes =
    (let auth_header = py_or (hd_alternative headers) (hd_authorization headers) in
     if \<not> truthy auth_header \<or> \<not> prefix BEARER_PREFIX (the auth_header) then None
     else let token = bearer_token (the auth_header) in
       case find (\<lambda>p. prefix p token) valid_prefixes of None \<Rightarrow> None
       | Some matched_prefix \<Rightarrow> if matched_prefix = [] then None
           else (case split_on (CHR ''.'') (drop (length matched_prefix) token) of
               tenant_id # _ # _ \<Rightarrow> if tenant_id \<noteq> [] then Some (unquote tenant_id) else None
             | _ \<Rightarrow> None))"

definition extract_tenant_from_auth_header :: "auth_headers \<Rightarrow> string option" where
  "extract_tenant_from_auth_header headers =
    extract_tenant_from_bearer_token headers [API_KEY_PREFIX, DEPRECATED_API_KEY_PREFIX, PAT_PREFIX]"

section \<open>The table of personal access tokens\<close>

definition pat_unexpired :: "int \<Rightarrow> pat_row \<Rightarrow> bool" where
  "pat_unexpired now r \<longleftrightarrow> (case pat_expires_at r of None \<Rightarrow> True | Some t \<Rightarrow> now < t)"

definition resolve_pat :: "auth_db \<Rightarrow> string \<Rightarrow> int \<Rightarrow> refusal + (auth_user \<times> permission list option) option" where
  "resolve_pat db hashed_token now =
    (case [(u, r). r \<leftarrow> t_pats db, u \<leftarrow> t_auth_users db, au_id u = pat_user_id r,
                   pat_hashed_token r = hashed_token \<and> au_active u \<and> pat_unexpired now r] of
       [] \<Rightarrow> Inr None
     | [(u, r)] \<Rightarrow> Inr (Some (u, map_option parse_permission_values (pat_scopes r)))
     | _ \<Rightarrow> Inl MultipleResultsFound)"

text \<open>The new row takes the next identifier; the raw token is what the user sees once.\<close>

definition create_pat ::
  "auth_env \<Rightarrow> int \<Rightarrow> int \<Rightarrow> string option \<Rightarrow> string \<Rightarrow> uuid \<Rightarrow> string \<Rightarrow> int option \<Rightarrow> pat_type \<Rightarrow> permission list option \<Rightarrow> auth_db
    \<Rightarrow> (string \<times> auth_db) result" where
  "create_pat env now next_id tenant_id random user_id name expiration_days kind scopes db =
    (case find (\<lambda>u. au_id u = user_id) (t_auth_users db) of
       None \<Rightarrow> Inl ValueError
     | Some u \<Rightarrow> if \<not> au_active u then Inl ValueError
         else let raw_token = generate_pat env tenant_id random in
           bind_r (calculate_expiration now expiration_days) (\<lambda>expires_at.
             Inr (raw_token, db\<lparr>t_pats := t_pats db @ [\<lparr>pat_id = next_id, pat_name = name, pat_hashed_token = hash_pat env raw_token,
               pat_token_display = build_displayable_pat raw_token, pat_user_id = user_id, pat_expires_at = expires_at,
               pat_is_revoked = False, pat_kind = kind, pat_scopes = map_option (map perm_value) scopes\<rparr>]\<rparr>)))"

definition list_user_pats :: "auth_db \<Rightarrow> int \<Rightarrow> uuid \<Rightarrow> pat_type option \<Rightarrow> pat_row list" where
  "list_user_pats db now user_id kind =
    filter (\<lambda>r. pat_user_id r = user_id \<and> pat_unexpired now r \<and> (case kind of None \<Rightarrow> True | Some k \<Rightarrow> pat_kind r = k)) (t_pats db)"

definition revoke_pat :: "auth_db \<Rightarrow> int \<Rightarrow> int \<Rightarrow> uuid \<Rightarrow> pat_type option \<Rightarrow> bool \<times> auth_db" where
  "revoke_pat db now i user_id kind =
    (case find (\<lambda>r. pat_id r = i) (list_user_pats db now user_id kind) of
       None \<Rightarrow> (False, db)
     | Some _ \<Rightarrow> (True, db\<lparr>t_pats := map (\<lambda>r. if pat_id r = i then r\<lparr>pat_expires_at := Some now, pat_is_revoked := True\<rparr> else r) (t_pats db)\<rparr>))"

section \<open>The endpoints of a user's tokens\<close>

definition SELECTABLE_PAT_SCOPES :: "permission list" where
  "SELECTABLE_PAT_SCOPES = [READ_SEARCH, READ_CHAT, WRITE_CHAT]"

definition validate_assignable_scopes :: "permission list option \<Rightarrow> unit result" where
  "validate_assignable_scopes scopes = (case scopes of None \<Rightarrow> Inr ()
     | Some ss \<Rightarrow> if ss = [] \<or> filter (\<lambda>s. s \<notin> set SELECTABLE_PAT_SCOPES) ss \<noteq> [] then Inl (OnyxError INVALID_INPUT) else Inr ())"

definition create_token ::
  "auth_env \<Rightarrow> int \<Rightarrow> int \<Rightarrow> string option \<Rightarrow> string \<Rightarrow> auth_user \<Rightarrow> string \<Rightarrow> int option \<Rightarrow> permission list option \<Rightarrow> auth_db
    \<Rightarrow> (string \<times> auth_db) result" where
  "create_token env now next_id tenant_id random user name expiration_days scopes db =
    bind_r (validate_assignable_scopes scopes) (\<lambda>_.
      case create_pat env now next_id tenant_id random (au_id user) name expiration_days USER scopes db of
        Inl e \<Rightarrow> Inl (if e = ValueError then OnyxError INVALID_INPUT else e)
      | Inr r \<Rightarrow> Inr r)"

definition delete_token :: "int \<Rightarrow> int \<Rightarrow> auth_user \<Rightarrow> auth_db \<Rightarrow> auth_db result" where
  "delete_token now token_id user db =
    (case revoke_pat db now token_id (au_id user) (Some USER) of
       (True, db') \<Rightarrow> Inr db' | (False, _) \<Rightarrow> Inl (OnyxError NOT_FOUND))"

text \<open>The token of a sandbox: kept when it is the only one and as wanted, else replaced.\<close>

definition ensure_sandbox_pat ::
  "auth_env \<Rightarrow> int \<Rightarrow> int \<Rightarrow> string option \<Rightarrow> string \<Rightarrow> string option \<Rightarrow> auth_user \<Rightarrow> string \<Rightarrow> auth_db \<Rightarrow> (string \<times> auth_db) result" where
  "ensure_sandbox_pat env now next_id tenant_id random encrypted_pat user name db =
    (let existing_craft_pats = list_user_pats db now (au_id user) (Some CRAFT);
         fresh = create_pat env now next_id tenant_id random (au_id user) name (Some 30) CRAFT (Some [CRAFT_SANDBOX])
           (fold (\<lambda>r db. snd (revoke_pat db now (pat_id r) (au_id user) None)) existing_craft_pats db)
     in case (encrypted_pat, existing_craft_pats) of
          (Some raw_token, [existing]) \<Rightarrow>
            if hash_pat env raw_token = pat_hashed_token existing \<and> pat_scopes existing = Some [perm_value CRAFT_SANDBOX]
            then Inr (raw_token, db) else fresh
        | _ \<Rightarrow> fresh)"

section \<open>Requests\<close>

text \<open>What a route depends on, as far as it matters for scoped tokens; \<open>None\<close> when it is no API route.\<close>

datatype route_dependency = RequirePermission | ScopeExempt | OtherDependency

record auth_request =
  rq_headers :: auth_headers
  rq_session_user :: "auth_user option"
  rq_route :: "route_dependency list option"

definition scoped_pat_permitted_on_route :: "permission list option \<Rightarrow> route_dependency list option \<Rightarrow> bool" where
  "scoped_pat_permitted_on_route token_scopes route = (case token_scopes of None \<Rightarrow> True
     | Some _ \<Rightarrow> (case route of None \<Rightarrow> False | Some ds \<Rightarrow> list_ex (\<lambda>d. d = RequirePermission \<or> d = ScopeExempt) ds))"

definition fetch_user_for_api_key :: "auth_db \<Rightarrow> string \<Rightarrow> auth_user option" where
  "fetch_user_for_api_key db hashed_api_key =
    (case [u. u \<leftarrow> t_auth_users db, k \<leftarrow> t_api_keys db, key_user_id k = au_id u, key_hashed k = hashed_api_key] of
       [] \<Rightarrow> None | u # _ \<Rightarrow> Some u)"

text \<open>The user of a request, if any, and the scopes of its token.  A browser session comes first.\<close>

definition optional_user ::
  "auth_env \<Rightarrow> auth_db \<Rightarrow> int \<Rightarrow> auth_request \<Rightarrow> refusal + auth_user option \<times> permission list option" where
  "optional_user env db now rq =
    (let finish = (\<lambda>user token_scopes. if scoped_pat_permitted_on_route token_scopes (rq_route rq)
           then Inr (user, token_scopes) else Inl InsufficientPermissions) in
     case rq_session_user rq of Some u \<Rightarrow> Inr (Some u, None)
     | None \<Rightarrow> (case get_hashed_pat_from_request env (rq_headers rq) of
         Inl _ \<Rightarrow> Inr (None, None)
       | Inr hashed_pat \<Rightarrow> if truthy hashed_pat then
             (case resolve_pat db (the hashed_pat) now of
                Inl e \<Rightarrow> Inl e
              | Inr None \<Rightarrow> finish None None
              | Inr (Some (user, scopes)) \<Rightarrow> finish (Some user) scopes)
           else (case get_hashed_api_key_from_request env (rq_headers rq) of
                Inl _ \<Rightarrow> Inr (None, None)
              | Inr hashed_api_key \<Rightarrow> if truthy hashed_api_key
                  then finish (fetch_user_for_api_key db (the hashed_api_key)) None else finish None None)))"

definition is_limited_user :: "auth_user \<Rightarrow> bool" where
  "is_limited_user u \<longleftrightarrow> au_account u = ANONYMOUS \<or> au_account u = SERVICE_ACCOUNT \<and> au_effective_permissions u = []"

definition get_anonymous_user :: auth_user where
  "get_anonymous_user = \<lparr>au_id = 2, au_role = LIMITED, au_account = ANONYMOUS, au_active = True, au_verified = True,
     au_oidc_expiry = None, au_effective_permissions = [perm_value BASIC_ACCESS]\<rparr>"

definition double_check_user ::
  "auth_env \<Rightarrow> int \<Rightarrow> auth_user option \<Rightarrow> bool \<Rightarrow> bool \<Rightarrow> refusal + auth_user" where
  "double_check_user env now user include_expired allow_anonymous_access = (case user of
     Some u \<Rightarrow> if need_verification env \<and> \<not> au_verified u then Inl BasicAuthenticationError
       else if (case au_oidc_expiry u of None \<Rightarrow> False | Some t \<Rightarrow> t < now) \<and> \<not> include_expired then Inl BasicAuthenticationError
       else Inr u
   | None \<Rightarrow> if allow_anonymous_access then Inr get_anonymous_user else Inl BasicAuthenticationError)"

definition current_chat_accessible_user :: "auth_env \<Rightarrow> int \<Rightarrow> auth_user option \<Rightarrow> refusal + auth_user" where
  "current_chat_accessible_user env now user = double_check_user env now user False (anonymous_enabled env)"

definition current_user :: "auth_env \<Rightarrow> int \<Rightarrow> auth_user option \<Rightarrow> refusal + auth_user" where
  "current_user env now user = (case double_check_user env now user False False of
     Inl e \<Rightarrow> Inl e | Inr u \<Rightarrow> if is_limited_user u then Inl BasicAuthenticationError else Inr u)"

text \<open>The check of \<open>require_permission\<close> itself, and a request that runs through the dependencies before it.\<close>

definition permitted :: "permission \<Rightarrow> bool \<Rightarrow> permission list option \<Rightarrow> auth_user \<Rightarrow> bool" where
  "permitted required require_scoped_token token_scopes user =
    (let token_implies = (case token_scopes of None \<Rightarrow> False
           | Some ss \<Rightarrow> perm_value required \<in> set (resolve_effective_permissions (map perm_value ss))) in
     if require_scoped_token then token_implies
     else required \<in> set (get_effective_permissions (au_effective_permissions user)) \<and> (token_scopes = None \<or> token_implies))"

definition require_permission ::
  "auth_env \<Rightarrow> auth_db \<Rightarrow> int \<Rightarrow> permission \<Rightarrow> bool \<Rightarrow> bool \<Rightarrow> auth_request \<Rightarrow> refusal + auth_user" where
  "require_permission env db now required allow_anonymous require_scoped_token rq =
    (case optional_user env db now rq of
       Inl e \<Rightarrow> Inl e
     | Inr (user, token_scopes) \<Rightarrow>
         (case (if allow_anonymous then current_chat_accessible_user env now user else current_user env now user) of
            Inl e \<Rightarrow> Inl e
          | Inr u \<Rightarrow> if permitted required require_scoped_token token_scopes u then Inr u else Inl InsufficientPermissions))"

section \<open>What a token may do\<close>

lemma scopes_grant:
  "perm_value p \<in> set (resolve_effective_permissions (map perm_value (parse_permission_values ss))) \<longleftrightarrow> p \<in> set (get_effective_permissions ss)"
proof -
  have "perm_value p \<in> implies_directly\<^sup>* `` (perm_value ` set (parse_permission_values ss))
      \<longleftrightarrow> (\<exists>q. perm_value q \<in> set ss \<and> (perm_value q, perm_value p) \<in> implies_directly\<^sup>*)" by auto
  then show ?thesis
    unfolding set_resolve set_get_effective by (auto simp: image_iff)
qed

lemma resolve_pat_row:
  assumes "resolve_pat db h now = Inr (Some (u, scopes))"
  shows "\<exists>r \<in> set (t_pats db). pat_hashed_token r = h \<and> pat_user_id r = au_id u \<and> u \<in> set (t_auth_users db) \<and> au_active u
    \<and> pat_unexpired now r \<and> scopes = map_option parse_permission_values (pat_scopes r)"
proof -
  let ?rows = "[(u, r). r \<leftarrow> t_pats db, u \<leftarrow> t_auth_users db, au_id u = pat_user_id r,
                   pat_hashed_token r = h \<and> au_active u \<and> pat_unexpired now r]"
  obtain v r where "?rows = [(v, r)]" "u = v" "scopes = map_option parse_permission_values (pat_scopes r)"
    using assms by (auto simp: resolve_pat_def split: list.splits)
  moreover have "\<forall>(u, r) \<in> set ?rows. r \<in> set (t_pats db) \<and> pat_hashed_token r = h \<and> pat_user_id r = au_id u \<and> u \<in> set (t_auth_users db)
      \<and> au_active u \<and> pat_unexpired now r" by auto
  ultimately show ?thesis by auto
qed

lemma double_checked: "double_check_user env now (Some v) b c = Inr u \<Longrightarrow> u = v"
  by (auto simp: double_check_user_def split: if_splits)

text \<open>A request with a token that passes acts for the owner of the token, or for an anonymous visitor.\<close>

lemma request_with_token:
  assumes "rq_session_user rq = None" and "get_hashed_pat_from_request env (rq_headers rq) = Inr (Some h)" and "h \<noteq> []"
    and "require_permission env db now required allow_anonymous machine_only rq = Inr u"
  obtains (token) r where "r \<in> set (t_pats db)" "pat_hashed_token r = h" "pat_user_id r = au_id u" "u \<in> set (t_auth_users db)" "au_active u"
      "pat_unexpired now r" "case pat_scopes r of None \<Rightarrow> \<not> machine_only
        | Some ss \<Rightarrow> required \<in> set (get_effective_permissions ss) \<and> scoped_pat_permitted_on_route (Some []) (rq_route rq)"
      "machine_only \<or> required \<in> set (get_effective_permissions (au_effective_permissions u))"
    | (visitor) "u = get_anonymous_user" "allow_anonymous" "anonymous_enabled env" "\<not> machine_only"
      "required \<in> set (get_effective_permissions [perm_value BASIC_ACCESS])"
proof -
  let ?base = "\<lambda>user. if allow_anonymous then current_chat_accessible_user env now user else current_user env now user"
  obtain user scopes where opt: "optional_user env db now rq = Inr (user, scopes)" "?base user = Inr u"
      "permitted required machine_only scopes u"
    using assms(4) by (auto simp: require_permission_def split: sum.splits if_splits)
  obtain r where r: "resolve_pat db h now = Inr r"
    using opt(1) assms(1-3) by (auto simp: optional_user_def truthy_def split: sum.splits)
  show ?thesis
  proof (cases r)
    case None
    then have "user = None" "scopes = None"
      using opt(1) assms(1-3) r by (auto simp: optional_user_def truthy_def split: if_splits)
    then have "u = get_anonymous_user \<and> allow_anonymous \<and> anonymous_enabled env"
      using opt(2) by (auto simp: current_chat_accessible_user_def current_user_def double_check_user_def split: if_splits)
    then show ?thesis using opt(3) \<open>scopes = None\<close> by (intro visitor) (auto simp: permitted_def get_anonymous_user_def split: if_splits)
  next
    case (Some x)
    obtain v ss where x: "x = (v, ss)" by (cases x)
    have user: "user = Some v" "scopes = ss" and route: "scoped_pat_permitted_on_route ss (rq_route rq)"
      using opt(1) assms(1-3) r Some x by (auto simp: optional_user_def truthy_def split: if_splits)
    have u: "u = v" using opt(2) user(1) double_checked
      by (auto simp: current_chat_accessible_user_def current_user_def split: if_splits sum.splits)
    obtain p where p: "p \<in> set (t_pats db)" "pat_hashed_token p = h" "pat_user_id p = au_id v" "v \<in> set (t_auth_users db)" "au_active v"
        "pat_unexpired now p" "ss = map_option parse_permission_values (pat_scopes p)"
      using resolve_pat_row r Some x by blast
    have "case pat_scopes p of None \<Rightarrow> \<not> machine_only
        | Some ss \<Rightarrow> required \<in> set (get_effective_permissions ss) \<and> scoped_pat_permitted_on_route (Some []) (rq_route rq)"
      using opt(3) route p(7) user(2)
      by (auto simp: permitted_def Let_def scopes_grant scoped_pat_permitted_on_route_def split: option.splits if_splits)
    moreover have "machine_only \<or> required \<in> set (get_effective_permissions (au_effective_permissions u))"
      using opt(3) by (auto simp: permitted_def split: if_splits)
    ultimately show ?thesis using p u by (intro token) auto
  qed
qed

text \<open>C8: A request that passes \<open>require_permission\<close> with a personal access token acts for the active owner of an
  unexpired token with that hash; a scoped token reaches only guarded routes whose permission follows from its
  scopes, an unscoped one none of the routes for machines, and elsewhere the owner must have the permission as
  well.  A token that does not resolve leaves only what an anonymous visitor may do, where that is enabled.
\<close>

theorem scoped_token_caps_its_request:
  assumes "rq_session_user rq = None" and "get_hashed_pat_from_request env (rq_headers rq) = Inr (Some h)" and "h \<noteq> []"
    and "require_permission env db now required allow_anonymous machine_only rq = Inr u"
  shows "(\<exists>r \<in> set (t_pats db). pat_hashed_token r = h \<and> pat_user_id r = au_id u \<and> u \<in> set (t_auth_users db) \<and> au_active u \<and> pat_unexpired now r
      \<and> (case pat_scopes r of None \<Rightarrow> \<not> machine_only
          | Some ss \<Rightarrow> required \<in> set (get_effective_permissions ss) \<and> scoped_pat_permitted_on_route (Some []) (rq_route rq))
      \<and> (machine_only \<or> required \<in> set (get_effective_permissions (au_effective_permissions u))))
    \<or> u = get_anonymous_user \<and> allow_anonymous \<and> anonymous_enabled env \<and> \<not> machine_only
      \<and> required \<in> set (get_effective_permissions [perm_value BASIC_ACCESS])"
  using assms by (cases rule: request_with_token) blast+

definition example_user :: "uuid \<Rightarrow> string list \<Rightarrow> auth_user" where
  "example_user i ps = \<lparr>au_id = i, au_role = BASIC, au_account = STANDARD, au_active = True, au_verified = True,
     au_oidc_expiry = None, au_effective_permissions = ps\<rparr>"

definition example_auth_env :: auth_env where
  "example_auth_env = \<lparr>multi_tenant = False, sha256 = (\<lambda>s. s), sha256_crypt = (\<lambda>s. s), need_verification = False, anonymous_enabled = False\<rparr>"

definition example_auth_db :: auth_db where
  "example_auth_db = \<lparr>t_auth_users = [example_user 7 [''basic'']], t_pats = [], t_api_keys = []\<rparr>"

definition example_request :: "string \<Rightarrow> auth_request" where
  "example_request token = \<lparr>rq_headers = \<lparr>hd_alternative = None, hd_authorization = Some (''Bearer '' @ token)\<rparr>,
     rq_session_user = None, rq_route = Some [RequirePermission]\<rparr>"

theorem scoped_token_caps_its_request_witness:
  "let db = snd (projr (create_token example_auth_env 0 1 None ''abcd'' (example_user 7 []) ''cli'' (Some 30) (Some [READ_SEARCH]) example_auth_db)) in
     require_permission example_auth_env db 0 READ_SEARCH False False (example_request ''onyx_pat_abcd'') = Inr (example_user 7 [''basic''])
     \<and> READ_SEARCH \<in> set (get_effective_permissions [''basic''])"
proof -
  let ?db = "snd (projr (create_token example_auth_env 0 1 None ''abcd'' (example_user 7 []) ''cli'' (Some 30) (Some [READ_SEARCH]) example_auth_db))"
  let ?rq = "example_request ''onyx_pat_abcd''"
  have run: "require_permission example_auth_env ?db 0 READ_SEARCH False False ?rq = Inr (example_user 7 [''basic''])" by code_simp
  have "rq_session_user ?rq = None" "get_hashed_pat_from_request example_auth_env (rq_headers ?rq) = Inr (Some ''onyx_pat_abcd'')" by code_simp+
  from scoped_token_caps_its_request [OF this _ run]
  have "READ_SEARCH \<in> set (get_effective_permissions (au_effective_permissions (example_user 7 [''basic''])))" by blast
  then show ?thesis using run unfolding Let_def by (simp add: example_user_def)
qed

section \<open>Stored permissions\<close>

lemma double_checked_user: "double_check_user env now user b c = Inr u \<Longrightarrow> user = Some u \<or> user = None \<and> c \<and> u = get_anonymous_user"
  by (auto simp: double_check_user_def split: option.splits if_splits)

lemma optional_user_known:
  assumes "optional_user env db now rq = Inr (Some v, scopes)"
  shows "rq_session_user rq = Some v \<or> v \<in> set (t_auth_users db)"
proof (cases "rq_session_user rq")
  case None
  have api: "v \<in> set (t_auth_users db)" if "fetch_user_for_api_key db h = Some v" for h
  proof -
    have first: "x \<in> set xs" if "(case xs of [] \<Rightarrow> None | y # _ \<Rightarrow> Some y) = Some x" for xs and x :: auth_user
      using that by (cases xs) simp_all
    from first [OF that [unfolded fetch_user_for_api_key_def]] show ?thesis by auto
  qed
  have pat: "v \<in> set (t_auth_users db)" if "resolve_pat db h now = Inr (Some (v, ss))" for h ss
    using resolve_pat_row [OF that] by blast
  have "\<exists>h ss. fetch_user_for_api_key db h = Some v \<or> resolve_pat db h now = Inr (Some (v, ss))"
    using assms None unfolding optional_user_def Let_def by (auto split: sum.splits option.splits if_splits) blast+
  then show ?thesis using api pat by blast
qed (use assms in \<open>simp add: optional_user_def\<close>)

text \<open>
  What a server relies on: a table of accounts whose stored permissions are among those each account is
  entitled to.
\<close>

locale stored_permissions =
  fixes valid :: "'s \<Rightarrow> bool" and accounts :: "'s \<Rightarrow> auth_user list" and entitled :: "'s \<Rightarrow> uuid \<Rightarrow> permission set"
  assumes stored_entitled: "valid s \<Longrightarrow> u \<in> set (accounts s) \<Longrightarrow> perm_value p \<in> set (au_effective_permissions u) \<Longrightarrow> p \<in> entitled s (au_id u)"
begin

lemma effective_entitled:
  assumes "valid s" "u \<in> set (accounts s)" "p \<in> set (get_effective_permissions (au_effective_permissions u))"
  shows "\<exists>q \<in> entitled s (au_id u). q = FULL_ADMIN_PANEL_ACCESS \<or> (perm_value q, perm_value p) \<in> implies_directly\<^sup>*"
  using assms(3) stored_entitled [OF assms(1,2)] unfolding set_get_effective by (auto split: if_splits)

lemma passed_entitled:
  assumes "valid s" "t_auth_users db = accounts s" "\<forall>v. rq_session_user rq = Some v \<longrightarrow> v \<in> set (accounts s)"
    and pass: "require_permission env db now required allow_anonymous False rq = Inr u"
  shows "u = get_anonymous_user \<and> allow_anonymous \<and> anonymous_enabled env
    \<or> u \<in> set (accounts s) \<and> (\<exists>q \<in> entitled s (au_id u). q = FULL_ADMIN_PANEL_ACCESS \<or> (perm_value q, perm_value required) \<in> implies_directly\<^sup>*)"
proof -
  obtain user scopes where opt: "optional_user env db now rq = Inr (user, scopes)" "permitted required False scopes u"
      "(if allow_anonymous then current_chat_accessible_user env now user else current_user env now user) = Inr u"
    using pass by (auto simp: require_permission_def split: sum.splits if_splits)
  have "user = Some u \<or> u = get_anonymous_user \<and> allow_anonymous \<and> anonymous_enabled env"
    using opt(3) double_checked_user by (fastforce simp: current_chat_accessible_user_def current_user_def split: if_splits sum.splits)
  moreover have "u \<in> set (accounts s)" if "user = Some u"
    using optional_user_known [of env db now rq u scopes] opt(1) that assms(2,3) by auto
  moreover have "required \<in> set (get_effective_permissions (au_effective_permissions u))" using opt(2) by (simp add: permitted_def)
  ultimately show ?thesis using effective_entitled [OF assms(1)] by blast
qed

end

section \<open>The history of the tokens\<close>

text \<open>Users, API keys and the clock change as they like; tokens go with their users.\<close>

inductive token_history :: "auth_env \<Rightarrow> auth_db \<Rightarrow> int \<Rightarrow> bool" for env where
  first: "t_pats db = [] \<Longrightarrow> token_history env db now"
| others: "token_history env db now \<Longrightarrow> now \<le> now' \<Longrightarrow> t_pats db' = filter keeps (t_pats db) \<Longrightarrow> token_history env db' now'"
| created: "token_history env db now \<Longrightarrow> create_token env now i tenant random user name days scopes db = Inr (raw, db')
    \<Longrightarrow> hash_pat env (generate_pat env tenant random) \<notin> pat_hashed_token ` set (t_pats db) \<Longrightarrow> token_history env db' now"
| deleted: "token_history env db now \<Longrightarrow> delete_token now i user db = Inr db' \<Longrightarrow> token_history env db' now"
| sandbox: "token_history env db now \<Longrightarrow> ensure_sandbox_pat env now i tenant random stored user name db = Inr (raw, db')
    \<Longrightarrow> hash_pat env (generate_pat env tenant random) \<notin> pat_hashed_token ` set (t_pats db) \<Longrightarrow> token_history env db' now"

definition allowed_scopes :: "pat_type \<Rightarrow> string list option \<Rightarrow> bool" where
  "allowed_scopes kind scopes \<longleftrightarrow> (case kind of
     USER \<Rightarrow> (case scopes of None \<Rightarrow> True | Some ss \<Rightarrow> ss \<noteq> [] \<and> set ss \<subseteq> perm_value ` set SELECTABLE_PAT_SCOPES)
   | CRAFT \<Rightarrow> scopes = Some [perm_value CRAFT_SANDBOX])"

definition sound_pat :: "int \<Rightarrow> pat_row \<Rightarrow> bool" where
  "sound_pat now r \<longleftrightarrow> (pat_is_revoked r \<longrightarrow> (\<exists>t \<le> now. pat_expires_at r = Some t)) \<and> allowed_scopes (pat_kind r) (pat_scopes r)"

definition sound_pats :: "auth_db \<Rightarrow> int \<Rightarrow> bool" where
  "sound_pats db now \<longleftrightarrow> distinct (map pat_hashed_token (t_pats db)) \<and> (\<forall>r \<in> set (t_pats db). sound_pat now r)"

lemma revoke_pat_hashes: "map pat_hashed_token (t_pats (snd (revoke_pat db now i user_id kind))) = map pat_hashed_token (t_pats db)"
  by (simp add: revoke_pat_def split: option.splits)

lemma revoke_pat_sound:
  assumes "sound_pats db now"
  shows "sound_pats (snd (revoke_pat db now i user_id kind)) now"
    and "pat_hashed_token ` set (t_pats (snd (revoke_pat db now i user_id kind))) = pat_hashed_token ` set (t_pats db)"
proof -
  have "\<forall>r \<in> set (t_pats (snd (revoke_pat db now i user_id kind))). sound_pat now r"
    using assms by (auto simp: revoke_pat_def sound_pats_def sound_pat_def split: option.splits)
  then show "sound_pats (snd (revoke_pat db now i user_id kind)) now"
    using assms by (simp add: sound_pats_def revoke_pat_hashes)
  show "pat_hashed_token ` set (t_pats (snd (revoke_pat db now i user_id kind))) = pat_hashed_token ` set (t_pats db)"
    using revoke_pat_hashes by (metis list.set_map)
qed

lemma create_pat_sound:
  assumes "sound_pats db now" and "create_pat env now i tenant random user_id name days kind scopes db = Inr (raw, db')"
    and "hash_pat env (generate_pat env tenant random) \<notin> pat_hashed_token ` set (t_pats db)"
    and "allowed_scopes kind (map_option (map perm_value) scopes)"
  shows "sound_pats db' now"
proof -
  obtain expires where "t_pats db' = t_pats db @ [\<lparr>pat_id = i, pat_name = name, pat_hashed_token = hash_pat env (generate_pat env tenant random),
      pat_token_display = build_displayable_pat (generate_pat env tenant random), pat_user_id = user_id, pat_expires_at = expires,
      pat_is_revoked = False, pat_kind = kind, pat_scopes = map_option (map perm_value) scopes\<rparr>]"
    using assms(2) by (auto simp: create_pat_def Let_def bind_r_Inr_iff split: option.splits if_splits)
  then show ?thesis using assms(1,3,4) by (simp add: sound_pats_def sound_pat_def)
qed

lemma assignable_scopes: "validate_assignable_scopes scopes = Inr () \<Longrightarrow> allowed_scopes USER (map_option (map perm_value) scopes)"
  by (auto simp: validate_assignable_scopes_def allowed_scopes_def filter_empty_conv split: option.splits if_splits)

lemma token_history_sound: "token_history env db now \<Longrightarrow> sound_pats db now"
proof (induction rule: token_history.induct)
  case (others db now now' db' keeps)
  have "sound_pat now' r" if "sound_pat now r" for r using that others.hyps(2) by (force simp: sound_pat_def)
  then show ?case using others by (simp add: sound_pats_def distinct_map_filter)
next
  case (created db now i tenant random user name days scopes raw db')
  have "validate_assignable_scopes scopes = Inr ()"
    and "create_pat env now i tenant random (au_id user) name days USER scopes db = Inr (raw, db')"
    using created.hyps(2) by (auto simp: create_token_def bind_r_Inr_iff split: sum.splits)
  then show ?case using create_pat_sound [OF created.IH _ created.hyps(3)] assignable_scopes by blast
next
  case (deleted db now i user db')
  then show ?case
    using revoke_pat_sound(1) [OF deleted.IH, of i "au_id user" "Some USER"]
    by (auto simp: delete_token_def split: prod.splits bool.splits)
next
  case (sandbox db now i tenant random stored user name raw db')
  have "sound_pats (fold (\<lambda>r db. snd (revoke_pat db now (pat_id r) (au_id user) None)) rs d) now
      \<and> pat_hashed_token ` set (t_pats (fold (\<lambda>r db. snd (revoke_pat db now (pat_id r) (au_id user) None)) rs d)) = pat_hashed_token ` set (t_pats d)"
    if "sound_pats d now" for rs d
    using that by (induction rs arbitrary: d) (simp_all add: revoke_pat_sound)
  note revoked = this [OF sandbox.IH, of "list_user_pats db now (au_id user) (Some CRAFT)"]
  let ?fresh = "create_pat env now i tenant random (au_id user) name (Some 30) CRAFT (Some [CRAFT_SANDBOX])
    (fold (\<lambda>r db. snd (revoke_pat db now (pat_id r) (au_id user) None)) (list_user_pats db now (au_id user) (Some CRAFT)) db)"
  have "db' = db \<or> ?fresh = Inr (raw, db')"
    using sandbox.hyps(2) by (auto simp: ensure_sandbox_pat_def Let_def split: option.splits list.splits if_splits)
  then show ?case
  proof
    assume "?fresh = Inr (raw, db')"
    from create_pat_sound [OF _ this] revoked sandbox.hyps(3) show ?thesis by (simp add: allowed_scopes_def)
  qed (use sandbox.IH in simp)
qed (simp add: sound_pats_def)

lemma implied_within:
  assumes "implies_directly `` S \<subseteq> S" and "perm_value FULL_ADMIN_PANEL_ACCESS \<notin> S" and "set ss \<subseteq> S" and "p \<in> set (get_effective_permissions ss)"
  shows "perm_value p \<in> S"
proof -
  obtain q where "perm_value q \<in> set ss" "(perm_value q, perm_value p) \<in> implies_directly\<^sup>*"
    using assms(2-4) unfolding set_get_effective by (auto split: if_splits)
  then show ?thesis using assms(1,3) Image_closed_trancl [OF assms(1)] by blast
qed

lemma selectable_scopes_closed: "implies_directly `` (perm_value ` set SELECTABLE_PAT_SCOPES) \<subseteq> perm_value ` set SELECTABLE_PAT_SCOPES"
  by (auto simp: implies_directly_def implied_permissions_def dict_get_def SELECTABLE_PAT_SCOPES_def)

abbreviation craft_permissions :: "permission set" where
  "craft_permissions \<equiv> {CRAFT_SANDBOX, READ_SEARCH, CRAFT_REQUEST_APP_SETUP}"

lemma craft_scopes_closed: "implies_directly `` (perm_value ` craft_permissions) \<subseteq> perm_value ` craft_permissions"
  by (auto simp: implies_directly_def implied_permissions_def dict_get_def)

text \<open>C7: However tokens are created, revoked and replaced, a revoked token never resolves again, a scoped token
  that a user made passes only checks for reading the search and reading and writing chats, and the token of a
  sandbox only those for the sandbox, the search and the request to set up an app, whatever its owner may do.
\<close>

theorem tokens_keep_to_their_kind:
  assumes "token_history env db now" and "r \<in> set (t_pats db)" and "now \<le> later"
    and "rq_session_user rq = None" and "get_hashed_pat_from_request env (rq_headers rq) = Inr (Some (pat_hashed_token r))"
    and "pat_hashed_token r \<noteq> []"
  shows "(pat_is_revoked r \<longrightarrow> resolve_pat db (pat_hashed_token r) later = Inr None)
    \<and> (require_permission env db later required False machine_only rq = Inr u \<longrightarrow> \<not> pat_is_revoked r \<and> au_id u = pat_user_id r
        \<and> (case pat_kind r of CRAFT \<Rightarrow> required \<in> craft_permissions
           | USER \<Rightarrow> pat_scopes r = None \<and> \<not> machine_only \<or> required \<in> set SELECTABLE_PAT_SCOPES))"
proof -
  note sound = token_history_sound [OF assms(1)]
  have expired: "\<not> pat_unexpired later r" if "pat_is_revoked r"
    using that sound assms(2,3) by (auto simp: sound_pats_def sound_pat_def pat_unexpired_def)
  have same: "r' = r" if "r' \<in> set (t_pats db)" "pat_hashed_token r' = pat_hashed_token r" for r'
    using sound that assms(2) by (auto simp: sound_pats_def distinct_map dest: inj_onD)
  have "resolve_pat db (pat_hashed_token r) later = Inr None" if "pat_is_revoked r"
  proof -
    have "[(u, r'). r' \<leftarrow> t_pats db, u \<leftarrow> t_auth_users db, au_id u = pat_user_id r',
        pat_hashed_token r' = pat_hashed_token r \<and> au_active u \<and> pat_unexpired later r'] = []"
      using same expired [OF that] by (auto simp: concat_eq_Nil_conv)
    then show ?thesis unfolding resolve_pat_def by (rule ssubst) simp
  qed
  moreover have "\<not> pat_is_revoked r \<and> au_id u = pat_user_id r \<and> (case pat_kind r of CRAFT \<Rightarrow> required \<in> craft_permissions
      | USER \<Rightarrow> pat_scopes r = None \<and> \<not> machine_only \<or> required \<in> set SELECTABLE_PAT_SCOPES)"
    if pass: "require_permission env db later required False machine_only rq = Inr u"
  proof -
    have "\<exists>r'. r' \<in> set (t_pats db) \<and> pat_hashed_token r' = pat_hashed_token r \<and> pat_user_id r' = au_id u \<and> pat_unexpired later r'
        \<and> (case pat_scopes r' of None \<Rightarrow> \<not> machine_only | Some ss \<Rightarrow> required \<in> set (get_effective_permissions ss))"
      using assms(4-6) pass by (cases rule: request_with_token) (auto split: option.splits)
    then obtain r' where "r' \<in> set (t_pats db)" "pat_hashed_token r' = pat_hashed_token r" "pat_user_id r' = au_id u" "pat_unexpired later r'"
      and scopes: "case pat_scopes r' of None \<Rightarrow> \<not> machine_only | Some ss \<Rightarrow> required \<in> set (get_effective_permissions ss)" by blast
    with same have r: "r' = r" "pat_user_id r = au_id u" "\<not> pat_is_revoked r" using expired by blast+
    have allowed: "allowed_scopes (pat_kind r) (pat_scopes r)" using sound assms(2) by (simp add: sound_pats_def sound_pat_def)
    have "required \<in> set SELECTABLE_PAT_SCOPES" if "pat_kind r = USER" "pat_scopes r = Some ss" for ss
      using implied_within [OF selectable_scopes_closed, of ss required] that allowed scopes r(1)
      by (auto simp: allowed_scopes_def SELECTABLE_PAT_SCOPES_def)
    moreover have "required \<in> craft_permissions" if "pat_kind r = CRAFT"
      using implied_within [OF craft_scopes_closed, of "[perm_value CRAFT_SANDBOX]" required] that allowed scopes r(1)
      by (auto simp: allowed_scopes_def)
    ultimately show ?thesis using r scopes by (auto split: pat_type.splits option.splits)
  qed
  ultimately show ?thesis by blast
qed

theorem tokens_keep_to_their_kind_witness:
  "\<exists>db r. r \<in> set (t_pats db) \<and> pat_is_revoked r \<and> resolve_pat db ''onyx_pat_abcd'' 5 = Inr None"
proof -
  let ?db = "snd (projr (create_token example_auth_env 0 1 None ''abcd'' (example_user 7 []) ''cli'' (Some 30) (Some [READ_SEARCH]) example_auth_db))"
  let ?db2 = "projr (delete_token 0 1 (example_user 7 []) ?db)"
  let ?r = "hd (t_pats ?db2)" and ?rq = "example_request ''onyx_pat_abcd''"
  have "create_token example_auth_env 0 1 None ''abcd'' (example_user 7 []) ''cli'' (Some 30) (Some [READ_SEARCH]) example_auth_db
      = Inr (''onyx_pat_abcd'', ?db)" by code_simp
  then have "token_history example_auth_env ?db 0"
    by (rule token_history.created [rotated]) (auto simp: example_auth_db_def intro: token_history.first)
  moreover have "delete_token 0 1 (example_user 7 []) ?db = Inr ?db2" by code_simp
  ultimately have history: "token_history example_auth_env ?db2 0" by (rule token_history.deleted)
  have "t_pats ?db2 \<noteq> []" by code_simp
  then have r: "?r \<in> set (t_pats ?db2)" by simp
  have "pat_is_revoked ?r" "pat_hashed_token ?r = ''onyx_pat_abcd''" "rq_session_user ?rq = None"
    "get_hashed_pat_from_request example_auth_env (rq_headers ?rq) = Inr (Some ''onyx_pat_abcd'')" by code_simp+
  then have "resolve_pat ?db2 ''onyx_pat_abcd'' 5 = Inr None \<and> pat_is_revoked ?r"
    using tokens_keep_to_their_kind [OF history r, of 5 ?rq] by simp
  then show ?thesis using r by blast
qed
section \<open>The tenant in a token\<close>

lemma nibbles: "(of_char c :: nat) div 16 < 16" "(of_char c :: nat) mod 16 < 16"
  using less_mult_imp_div_less [of "of_char c" 16 16] nat_of_char_less_256 [of c] by simp_all

lemma hex_digit_value_hex_upper: "d < 16 \<Longrightarrow> hex_digit_value (hex_upper d) = Some d"
  by (auto simp: hex_upper_def hex_digit_value_def Let_def)

lemma unquote_Cons: "c \<noteq> CHR ''%'' \<Longrightarrow> unquote (c # s) = c # unquote s"
  by (cases s rule: unquote.cases) auto

lemma unquote_quote: "unquote (quote s) = s"
proof (induction s)
  case (Cons c s)
  have percent: "\<not> url_safe (CHR ''%'')" by (simp add: url_safe_def)
  have "unquote (CHR ''%'' # hex_upper (of_char c div 16) # hex_upper (of_char c mod 16) # quote s) = c # unquote (quote s)"
    by (simp add: hex_digit_value_hex_upper nibbles)
  moreover have "unquote (c # quote s) = c # unquote (quote s)" if "url_safe c" using that percent unquote_Cons [of c] by blast
  ultimately show ?case using Cons by (simp add: quote_def)
qed (simp add: quote_def)

lemma quote_chars: "c \<in> set (quote s) \<Longrightarrow> \<not> is_space c"
proof -
  have hex: "\<not> is_space (hex_upper d)" if "d < 16" for d using that by (auto simp: is_space_def hex_upper_def Let_def)
  have "\<not> is_space c" if "url_safe c" for c
    using that by (auto simp: url_safe_def is_space_def Let_def)
  then show "c \<in> set (quote s) \<Longrightarrow> \<not> is_space c"
    using hex nibbles by (auto simp: quote_def is_space_def split: if_splits)
qed

lemma quote_dot: "CHR ''.'' \<in> set (quote s) \<Longrightarrow> CHR ''.'' \<in> set s"
proof -
  have hex: "CHR ''.'' \<noteq> hex_upper d" if "d < 16" for d
  proof
    assume "CHR ''.'' = hex_upper d"
    then have "hex_digit_value (CHR ''.'') = Some d" using hex_digit_value_hex_upper [OF that] by simp
    then show False by (simp add: hex_digit_value_def)
  qed
  then show "CHR ''.'' \<in> set (quote s) \<Longrightarrow> CHR ''.'' \<in> set s"
    using nibbles by (auto simp: quote_def split: if_splits)
qed

text \<open>With many tenants, the tenant read from the header of a request is the one its token or API key was made
  for, provided the name of the tenant has no dot.
\<close>

theorem tenant_travels_in_token:
  assumes "multi_tenant env" and "tenant \<noteq> []" and "CHR ''.'' \<notin> set tenant" and "\<forall>c \<in> set random. \<not> is_space c"
    and "token \<in> {generate_pat env (Some tenant) random, generate_api_key env (Some tenant) random}"
  shows "extract_tenant_from_auth_header \<lparr>hd_alternative = alternative, hd_authorization = Some (BEARER_PREFIX @ token)\<rparr>
    = (if truthy alternative then extract_tenant_from_auth_header \<lparr>hd_alternative = alternative, hd_authorization = None\<rparr> else Some tenant)"
proof (cases "truthy alternative")
  case False
  let ?rest = "quote tenant @ CHR ''.'' # random"
  have rest: "token = PAT_PREFIX @ ?rest \<or> token = API_KEY_PREFIX @ ?rest"
    using assms(1,2,5) by (auto simp: generate_pat_def generate_api_key_def generate_token_def)
  have "\<forall>c \<in> set token. \<not> is_space c"
    using rest assms(4) quote_chars [of _ tenant] by (auto simp: PAT_PREFIX_def API_KEY_PREFIX_def is_space_def)
  then have "bearer_token (BEARER_PREFIX @ token) = token" by (simp add: bearer_token_def strip_def strip_by_none)
  moreover have "split_on (CHR ''.'') ?rest = quote tenant # split_on (CHR ''.'') random"
    by (rule split_on_append_sep) (use assms(3) quote_dot in blast)
  moreover have "quote tenant \<noteq> []" using assms(2) by (cases tenant) (auto simp: quote_def)
  moreover have "find (\<lambda>p. prefix p token) [API_KEY_PREFIX, DEPRECATED_API_KEY_PREFIX, PAT_PREFIX]
      = (if token = API_KEY_PREFIX @ ?rest then Some API_KEY_PREFIX else Some PAT_PREFIX)"
    using rest by (auto simp: PAT_PREFIX_def API_KEY_PREFIX_def DEPRECATED_API_KEY_PREFIX_def)
  ultimately show ?thesis
    using False rest unquote_quote [of tenant]
    by (auto simp: extract_tenant_from_auth_header_def extract_tenant_from_bearer_token_def py_or_def truthy_def BEARER_PREFIX_def
        PAT_PREFIX_def API_KEY_PREFIX_def split: list.splits)
qed (simp add: extract_tenant_from_auth_header_def extract_tenant_from_bearer_token_def py_or_def)

theorem tenant_travels_in_token_witness:
  "extract_tenant_from_auth_header \<lparr>hd_alternative = None,
      hd_authorization = Some (BEARER_PREFIX @ generate_pat (example_auth_env\<lparr>multi_tenant := True\<rparr>) (Some ''tenant 1'') ''ab.c'')\<rparr> = Some ''tenant 1''"
  using tenant_travels_in_token [of "example_auth_env\<lparr>multi_tenant := True\<rparr>" "''tenant 1''" "''ab.c''" _ None]
  by (simp add: truthy_def is_space_def)

end
