(* ===== verification/GroupPermissions.thy ===== *)
theory GroupPermissions
  imports RequestAuth
begin

text \<open>
  Where the stored permissions of users come from (\<open>db/permissions.py\<close>, the group operations of
  \<open>ee/onyx/db/user_group.py\<close>, \<open>ee/onyx/server/user_group/api.py\<close> and \<open>ee/onyx/server/scim/api.py\<close>, default groups
  and roles in \<open>db/users.py\<close>, \<open>db/user_preferences.py\<close> and \<open>db/api_key.py\<close>): groups have grants, users have
  the grants of their groups, and each operation on groups writes the permissions of the users it affects.
  Rows of other tables (connectors, personas, credentials of a group) are left out.
\<close>

section \<open>Tables\<close>

record group_row =
  grp_id :: int
  grp_name :: string
  grp_up_to_date :: bool
  grp_for_deletion :: bool
  grp_default :: bool

record member_row =
  mbr_group :: int
  mbr_user :: uuid
  mbr_curator :: bool

datatype grant_source = USER_GRANT | SCIM_GRANT | SYSTEM_GRANT

record grant_row =
  grt_group :: int
  grt_permission :: permission
  grt_source :: grant_source
  grt_deleted :: bool

record group_db =
  g_users :: "auth_user list"
  g_groups :: "group_row list"
  g_members :: "member_row list"
  g_grants :: "grant_row list"
  g_keys :: "(int \<times> uuid) list"

definition is_member :: "group_db \<Rightarrow> int \<Rightarrow> uuid \<Rightarrow> bool" where
  "is_member db gid uid \<longleftrightarrow> list_ex (\<lambda>m. mbr_group m = gid \<and> mbr_user m = uid) (g_members db)"

definition members_of :: "group_db \<Rightarrow> int \<Rightarrow> uuid list" where
  "members_of db gid = map mbr_user (filter (\<lambda>m. mbr_group m = gid) (g_members db))"

definition find_group :: "group_db \<Rightarrow> int \<Rightarrow> group_row option" where
  "find_group db gid = find (\<lambda>g. grp_id g = gid) (g_groups db)"

definition find_user :: "group_db \<Rightarrow> uuid \<Rightarrow> auth_user option" where
  "find_user db uid = find (\<lambda>u. au_id u = uid) (g_users db)"

definition set_user :: "uuid \<Rightarrow> (auth_user \<Rightarrow> auth_user) \<Rightarrow> group_db \<Rightarrow> group_db" where
  "set_user uid f db = db\<lparr>g_users := map (\<lambda>u. if au_id u = uid then f u else u) (g_users db)\<rparr>"

definition set_group :: "int \<Rightarrow> (group_row \<Rightarrow> group_row) \<Rightarrow> group_db \<Rightarrow> group_db" where
  "set_group gid f db = db\<lparr>g_groups := map (\<lambda>g. if grp_id g = gid then f g else g) (g_groups db)\<rparr>"

section \<open>Recomputing\<close>

text \<open>The values of the grants in force for a user, sorted.\<close>

definition granted_values :: "group_db \<Rightarrow> uuid \<Rightarrow> string list" where
  "granted_values db uid = sorted_list_of_set (set [perm_value (grt_permission g).
     m \<leftarrow> g_members db, mbr_user m = uid, g \<leftarrow> g_grants db, grt_group g = mbr_group m \<and> \<not> grt_deleted g])"

definition recompute_user_permissions :: "uuid list \<Rightarrow> group_db \<Rightarrow> group_db" where
  "recompute_user_permissions user_ids db = db\<lparr>g_users := map (\<lambda>u. if au_id u \<in> set user_ids
     then u\<lparr>au_effective_permissions := granted_values db (au_id u)\<rparr> else u) (g_users db)\<rparr>"

definition recompute_permissions_for_group :: "int \<Rightarrow> group_db \<Rightarrow> group_db" where
  "recompute_permissions_for_group group_id db = recompute_user_permissions (members_of db group_id) db"

section \<open>Groups\<close>

definition add_member :: "int \<Rightarrow> uuid \<Rightarrow> group_db \<Rightarrow> group_db" where
  "add_member gid uid db = (if is_member db gid uid then db
     else db\<lparr>g_members := g_members db @ [\<lparr>mbr_group = gid, mbr_user = uid, mbr_curator = False\<rparr>]\<rparr>)"

definition add_members :: "int \<Rightarrow> uuid list \<Rightarrow> group_db \<Rightarrow> group_db" where
  "add_members gid user_ids = fold (add_member gid) user_ids"

text \<open>\<open>if user_ids:\<close> restricts the deletion; an empty list deletes all members.\<close>

definition cleanup_members :: "int \<Rightarrow> uuid list \<Rightarrow> group_db \<Rightarrow> group_db" where
  "cleanup_members gid user_ids db = db\<lparr>g_members := filter (\<lambda>m. \<not> (mbr_group m = gid \<and> (user_ids = [] \<or> mbr_user m \<in> set user_ids))) (g_members db)\<rparr>"

text \<open>Foreign keys: a membership needs its user.\<close>

definition insert_user_group :: "bool \<Rightarrow> int \<Rightarrow> string \<Rightarrow> uuid list \<Rightarrow> group_db \<Rightarrow> group_db result" where
  "insert_user_group disable_vector_db new_id name user_ids db =
    (if list_ex (\<lambda>g. grp_name g = name) (g_groups db) \<or> list_ex (\<lambda>uid. find_user db uid = None) user_ids then Inl IntegrityError
     else let db1 = db\<lparr>g_groups := g_groups db @ [\<lparr>grp_id = new_id, grp_name = name, grp_up_to_date = disable_vector_db,
             grp_for_deletion = False, grp_default = False\<rparr>],
           g_grants := g_grants db @ [\<lparr>grt_group = new_id, grt_permission = BASIC_ACCESS, grt_source = SYSTEM_GRANT, grt_deleted = False\<rparr>]\<rparr>
       in Inr (recompute_user_permissions user_ids (add_members new_id user_ids db1)))"

definition check_user_group_is_modifiable :: "group_row \<Rightarrow> unit result" where
  "check_user_group_is_modifiable g = (if grp_up_to_date g then Inr () else Inl ValueError)"

definition validate_curator_status :: "uuid \<Rightarrow> group_db \<Rightarrow> group_db" where
  "validate_curator_status uid db = set_user uid (\<lambda>u.
     if list_ex (\<lambda>m. mbr_user m = uid \<and> mbr_curator m) (g_members db) then u\<lparr>au_role := CURATOR\<rparr>
     else if au_role u = CURATOR then u\<lparr>au_role := BASIC\<rparr> else u) db"

text \<open>The new members, whether the connectors change, and the whole update.\<close>

definition update_user_group :: "bool \<Rightarrow> int \<Rightarrow> uuid list \<Rightarrow> bool \<Rightarrow> group_db \<Rightarrow> group_db result" where
  "update_user_group disable_vector_db gid user_ids cc_pairs_updated db = (case find_group db gid of
     None \<Rightarrow> Inl ValueError
   | Some g \<Rightarrow> bind_r (check_user_group_is_modifiable g) (\<lambda>_.
       let current = members_of db gid;
           added = remdups (filter (\<lambda>uid. uid \<notin> set current) user_ids);
           removed = remdups (filter (\<lambda>uid. uid \<notin> set user_ids) current)
       in if list_ex (\<lambda>uid. find_user db uid = None) added then Inl ValueError
          else let db1 = (if removed \<noteq> [] then cleanup_members gid removed db else db);
                   db2 = add_members gid added db1;
                   db3 = (if cc_pairs_updated \<and> \<not> disable_vector_db then set_group gid (\<lambda>g. g\<lparr>grp_up_to_date := False\<rparr>) db2 else db2);
                   validated = filter (\<lambda>uid. case find_user db3 uid of None \<Rightarrow> False | Some u \<Rightarrow> au_role u \<notin> {ADMIN, GLOBAL_CURATOR}) removed;
                   db4 = fold validate_curator_status validated db3
               in Inr (recompute_user_permissions (added @ removed) db4)))"

definition add_users_to_user_group :: "bool \<Rightarrow> int \<Rightarrow> uuid list \<Rightarrow> group_db \<Rightarrow> group_db result" where
  "add_users_to_user_group disable_vector_db gid user_ids db = (case find_group db gid of
     None \<Rightarrow> Inl ValueError
   | Some g \<Rightarrow> if list_ex (\<lambda>uid. find_user db uid = None) user_ids then Inl ValueError
       else bind_r (check_user_group_is_modifiable g) (\<lambda>_.
         let current = members_of db gid; new_user_ids = filter (\<lambda>uid. uid \<notin> set current) user_ids
         in if new_user_ids = [] then Inr db else update_user_group disable_vector_db gid (current @ new_user_ids) False db))"

definition prepare_user_group_for_deletion :: "int \<Rightarrow> group_db \<Rightarrow> group_db result" where
  "prepare_user_group_for_deletion gid db = (case find_group db gid of
     None \<Rightarrow> Inl ValueError
   | Some g \<Rightarrow> bind_r (check_user_group_is_modifiable g) (\<lambda>_.
       let affected = members_of db gid; db1 = cleanup_members gid [] db
       in Inr (set_group gid (\<lambda>g. g\<lparr>grp_up_to_date := False, grp_for_deletion := True\<rparr>) (recompute_user_permissions affected db1))))"

text \<open>The rows that belong to the group go with it.\<close>

definition delete_user_group :: "int \<Rightarrow> group_db \<Rightarrow> group_db" where
  "delete_user_group gid db = db\<lparr>g_groups := filter (\<lambda>g. grp_id g \<noteq> gid) (g_groups db),
     g_members := filter (\<lambda>m. mbr_group m \<noteq> gid) (g_members db), g_grants := filter (\<lambda>g. grt_group g \<noteq> gid) (g_grants db)\<rparr>"

definition rename_user_group :: "bool \<Rightarrow> int \<Rightarrow> string \<Rightarrow> group_db \<Rightarrow> group_db result" where
  "rename_user_group disable_vector_db gid new_name db = (case find_group db gid of
     None \<Rightarrow> Inl ValueError
   | Some g \<Rightarrow> bind_r (check_user_group_is_modifiable g) (\<lambda>_.
       if list_ex (\<lambda>h. grp_name h = new_name \<and> grp_id h \<noteq> gid) (g_groups db) then Inl IntegrityError
       else Inr (set_group gid (\<lambda>g. g\<lparr>grp_name := new_name, grp_up_to_date := grp_up_to_date g \<and> disable_vector_db\<rparr>) db)))"

definition mark_user_group_as_synced :: "int \<Rightarrow> group_db \<Rightarrow> group_db" where
  "mark_user_group_as_synced gid = set_group gid (\<lambda>g. g\<lparr>grp_up_to_date := True\<rparr>)"

text \<open>The worker that watches the synchronisation of a group: the documents to start with, if it runs, and those left.\<close>

definition monitor_usergroup_taskset :: "int option \<Rightarrow> nat \<Rightarrow> int \<Rightarrow> group_db \<Rightarrow> group_db result" where
  "monitor_usergroup_taskset initial_count count usergroup_id db =
    (if initial_count = None \<or> count > 0 then Inr db
     else case find_group db usergroup_id of None \<Rightarrow> Inr db
       | Some user_group \<Rightarrow>
          if grp_for_deletion user_group
          then bind_r (prepare_user_group_for_deletion usergroup_id (mark_user_group_as_synced usergroup_id db))
            (\<lambda>db1. Inr (delete_user_group usergroup_id db1))
          else Inr (mark_user_group_as_synced usergroup_id db))"

section \<open>Grants\<close>

definition set_group_permission :: "int \<Rightarrow> permission \<Rightarrow> bool \<Rightarrow> group_db \<Rightarrow> group_db result" where
  "set_group_permission gid permission enabled db =
    (let this = (\<lambda>g. grt_group g = gid \<and> grt_permission g = permission);
         stored = (case find this (g_grants db) of
            Some existing \<Rightarrow> Inr (if grt_deleted existing = enabled
                then db\<lparr>g_grants := map (\<lambda>g. if this g then g\<lparr>grt_deleted := \<not> enabled\<rparr> else g) (g_grants db)\<rparr> else db)
          | None \<Rightarrow> if \<not> enabled then Inr db
              else if permission \<in> set IMPLIED then Inl ValueError
              else Inr (db\<lparr>g_grants := g_grants db @ [\<lparr>grt_group = gid, grt_permission = permission, grt_source = USER_GRANT, grt_deleted = False\<rparr>]\<rparr>))
     in bind_r stored (\<lambda>db1. Inr (recompute_permissions_for_group gid db1)))"

definition set_user_group_permission :: "int \<Rightarrow> permission \<Rightarrow> bool \<Rightarrow> group_db \<Rightarrow> group_db result" where
  "set_user_group_permission gid permission enabled db = (case find_group db gid of
     None \<Rightarrow> Inl (OnyxError NOT_FOUND)
   | Some _ \<Rightarrow> if permission \<in> set NON_TOGGLEABLE_PERMISSIONS then Inl (OnyxError INVALID_INPUT)
       else set_group_permission gid permission enabled db)"

definition get_user_group_permissions :: "int \<Rightarrow> group_db \<Rightarrow> permission list result" where
  "get_user_group_permissions gid db = (case find_group db gid of
     None \<Rightarrow> Inl (OnyxError NOT_FOUND)
   | Some _ \<Rightarrow> Inr [grt_permission g. g \<leftarrow> g_grants db, grt_group g = gid \<and> \<not> grt_deleted g])"

text \<open>The endpoints that curators may call.\<close>

definition current_curator_or_admin_user :: "auth_user \<Rightarrow> unit result" where
  "current_curator_or_admin_user caller =
    (if is_limited_user caller \<or> au_role caller \<notin> {GLOBAL_CURATOR, CURATOR, ADMIN} then Inl HTTPError else Inr ())"

definition not_found :: "'a result \<Rightarrow> 'a result" where
  "not_found r = (case r of Inl ValueError \<Rightarrow> Inl HTTPError | _ \<Rightarrow> r)"

definition patch_user_group :: "auth_user \<Rightarrow> bool \<Rightarrow> int \<Rightarrow> uuid list \<Rightarrow> bool \<Rightarrow> group_db \<Rightarrow> group_db result" where
  "patch_user_group caller disable_vector_db gid user_ids cc_pairs_updated db =
    bind_r (current_curator_or_admin_user caller) (\<lambda>_. not_found (update_user_group disable_vector_db gid user_ids cc_pairs_updated db))"

definition add_users :: "auth_user \<Rightarrow> bool \<Rightarrow> int \<Rightarrow> uuid list \<Rightarrow> group_db \<Rightarrow> group_db result" where
  "add_users caller disable_vector_db gid user_ids db =
    bind_r (current_curator_or_admin_user caller) (\<lambda>_. not_found (add_users_to_user_group disable_vector_db gid user_ids db))"

definition delete_user_group_endpoint :: "bool \<Rightarrow> int \<Rightarrow> group_db \<Rightarrow> group_db result" where
  "delete_user_group_endpoint disable_vector_db gid db =
    (if (case find_group db gid of None \<Rightarrow> False | Some g \<Rightarrow> grp_default g) then Inl (OnyxError CONFLICT)
     else bind_r (not_found (prepare_user_group_for_deletion gid db))
       (\<lambda>db1. Inr (if disable_vector_db then delete_user_group gid db1 else db1)))"

definition rename_user_group_endpoint :: "bool \<Rightarrow> int \<Rightarrow> string \<Rightarrow> group_db \<Rightarrow> group_db result" where
  "rename_user_group_endpoint disable_vector_db gid new_name db =
    (if (case find_group db gid of None \<Rightarrow> False | Some g \<Rightarrow> grp_default g) then Inl (OnyxError CONFLICT)
     else case rename_user_group disable_vector_db gid new_name db of
         Inl IntegrityError \<Rightarrow> Inl (OnyxError DUPLICATE_RESOURCE)
       | Inl ValueError \<Rightarrow> Inl (OnyxError (if find_group db gid = None then NOT_FOUND else CONFLICT))
       | r \<Rightarrow> r)"

section \<open>Curators\<close>

text \<open>Whether the caller may change curators of the group, and whether the target may become one.\<close>

definition validate_curator_requester :: "int \<Rightarrow> auth_user \<Rightarrow> group_db \<Rightarrow> unit result" where
  "validate_curator_requester gid caller db =
    (if au_role caller = ADMIN then Inr ()
     else if list_ex (\<lambda>m. mbr_group m = gid \<and> mbr_user m = au_id caller \<and> (au_role caller = CURATOR \<longrightarrow> mbr_curator m)) (g_members db)
     then Inr () else Inl ValueError)"

definition validate_curator_request :: "int \<Rightarrow> auth_user \<Rightarrow> group_db \<Rightarrow> unit result" where
  "validate_curator_request gid target db =
    (if au_role target \<notin> {CURATOR, BASIC} \<or> \<not> is_member db gid (au_id target) then Inl ValueError else Inr ())"

definition update_user_curator_relationship :: "int \<Rightarrow> uuid \<Rightarrow> bool \<Rightarrow> auth_user \<Rightarrow> group_db \<Rightarrow> group_db result" where
  "update_user_curator_relationship gid uid curator caller db = (case find_user db uid of
     None \<Rightarrow> Inl ValueError
   | Some target \<Rightarrow> bind_r (validate_curator_request gid target db) (\<lambda>_. bind_r (validate_curator_requester gid caller db) (\<lambda>_.
       Inr (validate_curator_status uid (if is_member db gid uid
         then db\<lparr>g_members := map (\<lambda>m. if mbr_group m = gid \<and> mbr_user m = uid then m\<lparr>mbr_curator := curator\<rparr> else m) (g_members db)\<rparr>
         else db\<lparr>g_members := g_members db @ [\<lparr>mbr_group = gid, mbr_user = uid, mbr_curator = True\<rparr>]\<rparr>)))))"

definition remove_curator_status :: "uuid \<Rightarrow> group_db \<Rightarrow> group_db" where
  "remove_curator_status uid db = validate_curator_status uid
    (db\<lparr>g_members := map (\<lambda>m. if mbr_user m = uid then m\<lparr>mbr_curator := False\<rparr> else m) (g_members db)\<rparr>)"

section \<open>Default groups, roles and API keys\<close>

definition assign_user_to_default_groups :: "uuid \<Rightarrow> bool \<Rightarrow> group_db \<Rightarrow> group_db result" where
  "assign_user_to_default_groups uid is_admin db = (case find_user db uid of None \<Rightarrow> Inr db
   | Some user \<Rightarrow> if au_account user \<in> {BOT, EXT_PERM_ACCOUNT, ANONYMOUS} then Inr db
       else (case find (\<lambda>g. grp_name g = (if is_admin then ''Admin'' else ''Basic'') \<and> grp_default g) (g_groups db) of
           None \<Rightarrow> Inl RuntimeError
         | Some default_group \<Rightarrow> if is_member db (grp_id default_group) uid then Inr db
             else Inr (recompute_user_permissions [uid] (add_member (grp_id default_group) uid db))))"

definition leave_default_groups :: "uuid \<Rightarrow> group_db \<Rightarrow> group_db" where
  "leave_default_groups uid db = db\<lparr>g_members := filter (\<lambda>m. \<not> (mbr_user m = uid
     \<and> list_ex (\<lambda>g. grp_id g = mbr_group m \<and> grp_default g) (g_groups db))) (g_members db)\<rparr>"

definition role_to_account_type :: "user_role \<Rightarrow> account_type option" where
  "role_to_account_type role = (case role of SLACK_USER \<Rightarrow> Some BOT | EXT_PERM_USER \<Rightarrow> Some EXT_PERM_ACCOUNT | _ \<Rightarrow> None)"

definition update_user_role :: "uuid \<Rightarrow> user_role \<Rightarrow> group_db \<Rightarrow> group_db result" where
  "update_user_role uid new_role db = (case find_user db uid of None \<Rightarrow> Inr db
   | Some user \<Rightarrow>
      (let account = (case role_to_account_type new_role of Some a \<Rightarrow> a
             | None \<Rightarrow> if au_account user \<in> {BOT, EXT_PERM_ACCOUNT} then STANDARD else au_account user);
           db1 = set_user uid (\<lambda>u. u\<lparr>au_role := new_role, au_account := account\<rparr>) db
       in if au_role user = new_role then Inr db1
          else bind_r (let db2 = leave_default_groups uid db1 in
                 if is_limited_user (user\<lparr>au_account := account\<rparr>) then Inr db2 else assign_user_to_default_groups uid (new_role = ADMIN) db2)
               (\<lambda>db3. Inr (recompute_user_permissions [uid] db3))))"

definition validate_user_role_update :: "user_role \<Rightarrow> account_type \<Rightarrow> bool \<Rightarrow> unit result" where
  "validate_user_role_update requested_role account explicit_override =
    (if account \<in> {BOT, EXT_PERM_ACCOUNT, ANONYMOUS, SERVICE_ACCOUNT} then Inl HTTPError
     else if explicit_override then Inr ()
     else if requested_role \<in> {CURATOR, LIMITED, SLACK_USER, EXT_PERM_USER} then Inl HTTPError else Inr ())"

definition set_user_role :: "auth_user \<Rightarrow> uuid \<Rightarrow> user_role \<Rightarrow> bool \<Rightarrow> group_db \<Rightarrow> group_db result" where
  "set_user_role caller uid requested_role explicit_override db = (case find_user db uid of
     None \<Rightarrow> Inl HTTPError
   | Some user \<Rightarrow> if requested_role = au_role user then Inr db
      else bind_r (validate_user_role_update requested_role (au_account user) explicit_override) (\<lambda>_.
        if au_id user = au_id caller then Inl HTTPError
        else update_user_role uid requested_role (if requested_role = CURATOR then remove_curator_status uid db else db)))"

definition deactivate_user :: "uuid \<Rightarrow> group_db \<Rightarrow> group_db" where
  "deactivate_user uid = set_user uid (\<lambda>u. u\<lparr>au_active := False\<rparr>)"

definition activate_user :: "uuid \<Rightarrow> group_db \<Rightarrow> group_db result" where
  "activate_user uid db = (let db1 = set_user uid (\<lambda>u. u\<lparr>au_active := True\<rparr>) db in
     case find_user db1 uid of None \<Rightarrow> Inr db1
     | Some user \<Rightarrow> if is_limited_user user then Inr db1 else assign_user_to_default_groups uid (au_role user = ADMIN) db1)"

definition insert_api_key :: "int \<Rightarrow> uuid \<Rightarrow> user_role \<Rightarrow> group_db \<Rightarrow> group_db result" where
  "insert_api_key key_id uid role db =
    (let user = \<lparr>au_id = uid, au_role = role, au_account = SERVICE_ACCOUNT, au_active = True, au_verified = True, au_oidc_expiry = None,
           au_effective_permissions = []\<rparr>;
         db1 = db\<lparr>g_users := g_users db @ [user], g_keys := g_keys db @ [(key_id, uid)]\<rparr>
     in if role \<in> {ADMIN, BASIC} then assign_user_to_default_groups uid (role = ADMIN) db1
        else Inr (if role = LIMITED then set_user uid (\<lambda>u. u\<lparr>au_effective_permissions := [perm_value WRITE_CHAT]\<rparr>) db1 else db1))"

definition update_api_key :: "int \<Rightarrow> user_role \<Rightarrow> group_db \<Rightarrow> group_db result" where
  "update_api_key key_id role db = (case map_of (g_keys db) key_id of
     None \<Rightarrow> Inl ValueError
   | Some uid \<Rightarrow> (case find_user db uid of
        None \<Rightarrow> Inl RuntimeError
      | Some user \<Rightarrow>
         (let db1 = set_user uid (\<lambda>u. u\<lparr>au_role := role\<rparr>) db in
          if au_role user = role then Inr db1
          else let db2 = leave_default_groups uid db1 in
            if role \<in> {ADMIN, BASIC} then assign_user_to_default_groups uid (role = ADMIN) db2
            else if role = LIMITED then Inr (set_user uid (\<lambda>u. u\<lparr>au_effective_permissions := [perm_value WRITE_CHAT]\<rparr>) db2)
            else Inr (recompute_user_permissions [uid] db2))))"

definition delete_user_from_db :: "uuid \<Rightarrow> group_db \<Rightarrow> group_db" where
  "delete_user_from_db uid db = db\<lparr>g_users := filter (\<lambda>u. au_id u \<noteq> uid) (g_users db),
     g_members := filter (\<lambda>m. mbr_user m \<noteq> uid) (g_members db)\<rparr>"

definition remove_api_key :: "int \<Rightarrow> group_db \<Rightarrow> group_db result" where
  "remove_api_key key_id db = (case map_of (g_keys db) key_id of
     None \<Rightarrow> Inl ValueError
   | Some uid \<Rightarrow> if find_user db uid = None then Inl ValueError
       else Inr (delete_user_from_db uid (db\<lparr>g_keys := filter (\<lambda>(k, _). k \<noteq> key_id) (g_keys db)\<rparr>)))"

section \<open>Provisioning (SCIM)\<close>

definition reserved_group_names :: "string list" where
  "reserved_group_names = [''Admin'', ''Basic'']"

definition scim_get_group :: "group_db \<Rightarrow> int \<Rightarrow> group_row option" where
  "scim_get_group db gid = (case find_group db gid of None \<Rightarrow> None | Some g \<Rightarrow> if grp_for_deletion g then None else Some g)"

text \<open>The answers: a status and a new state.  A name that another group has violates the unique key, which is not caught.\<close>

definition scim_create_group :: "int \<Rightarrow> string \<Rightarrow> uuid list \<Rightarrow> group_db \<Rightarrow> nat \<times> group_db" where
  "scim_create_group new_id name member_uuids db =
    (if name \<in> set reserved_group_names \<or> list_ex (\<lambda>g. grp_name g = name) (g_groups db) then (409, db)
     else if list_ex (\<lambda>uid. find_user db uid = None) member_uuids then (400, db)
     else let db1 = db\<lparr>g_groups := g_groups db @ [\<lparr>grp_id = new_id, grp_name = name, grp_up_to_date = True,
             grp_for_deletion = False, grp_default = False\<rparr>],
           g_grants := g_grants db @ [\<lparr>grt_group = new_id, grt_permission = BASIC_ACCESS, grt_source = SYSTEM_GRANT, grt_deleted = False\<rparr>]\<rparr>
       in (201, recompute_user_permissions member_uuids (add_members new_id member_uuids db1)))"

definition scim_replace_group :: "int \<Rightarrow> string \<Rightarrow> uuid list \<Rightarrow> group_db \<Rightarrow> nat \<times> group_db" where
  "scim_replace_group gid name member_uuids db = (case scim_get_group db gid of
     None \<Rightarrow> (404, db)
   | Some g \<Rightarrow> if name \<noteq> grp_name g \<and> (grp_name g \<in> set reserved_group_names \<or> name \<in> set reserved_group_names) then (409, db)
      else if list_ex (\<lambda>uid. find_user db uid = None) member_uuids then (400, db)
      else if list_ex (\<lambda>h. grp_name h = name \<and> grp_id h \<noteq> gid) (g_groups db) then (500, db)
      else let old_member_ids = members_of db gid;
               db1 = add_members gid member_uuids (cleanup_members gid [] (set_group gid (\<lambda>g. g\<lparr>grp_name := name\<rparr>) db))
           in (200, recompute_user_permissions (filter (\<lambda>uid. uid \<notin> set member_uuids) old_member_ids)
                (recompute_permissions_for_group gid db1)))"

text \<open>The patched name and the identifiers added and removed come from the operations of the request.\<close>

definition scim_patch_group :: "int \<Rightarrow> string \<Rightarrow> uuid list \<Rightarrow> uuid list \<Rightarrow> group_db \<Rightarrow> nat \<times> group_db" where
  "scim_patch_group gid name add_uuids remove_uuids db = (case scim_get_group db gid of
     None \<Rightarrow> (404, db)
   | Some g \<Rightarrow> if name \<noteq> grp_name g \<and> (grp_name g \<in> set reserved_group_names \<or> name \<in> set reserved_group_names) then (409, db)
      else if list_ex (\<lambda>h. grp_name h = name \<and> grp_id h \<noteq> gid) (g_groups db) then (500, db)
      else if list_ex (\<lambda>uid. find_user db uid = None) add_uuids then (400, db)
      else let db1 = add_members gid add_uuids (set_group gid (\<lambda>g. g\<lparr>grp_name := name\<rparr>) db);
               db2 = (if remove_uuids = [] then db1 else cleanup_members gid remove_uuids db1)
           in (200, recompute_user_permissions (add_uuids @ remove_uuids) db2))"

definition scim_delete_group :: "int \<Rightarrow> group_db \<Rightarrow> nat \<times> group_db" where
  "scim_delete_group gid db = (case scim_get_group db gid of
     None \<Rightarrow> (404, db)
   | Some g \<Rightarrow> if grp_name g \<in> set reserved_group_names then (409, db)
      else let affected = members_of db gid; db1 = cleanup_members gid [] db
           in (204, recompute_user_permissions affected
                (db1\<lparr>g_groups := filter (\<lambda>g. grp_id g \<noteq> gid) (g_groups db1), g_grants := filter (\<lambda>g. grt_group g \<noteq> gid) (g_grants db1)\<rparr>)))"

end
