(* ===== verification/PermissionHistory.thy ===== *)
theory PermissionHistory
  imports GroupPermissions
begin

text \<open>
  What holds of the permissions of all users whatever administrators, curators and provisioning do, and what
  curators can do with the operations of \<open>GroupPermissions\<close>.
\<close>

section \<open>Grants in force\<close>

definition in_force :: "group_db \<Rightarrow> uuid \<Rightarrow> permission \<Rightarrow> bool" where
  "in_force db uid p \<longleftrightarrow> (\<exists>m \<in> set (g_members db). mbr_user m = uid
     \<and> (\<exists>g \<in> set (g_grants db). grt_group g = mbr_group m \<and> \<not> grt_deleted g \<and> grt_permission g = p))"

lemma granted_values_in_force: "granted_values db uid = sorted_list_of_set (perm_value ` {p. in_force db uid p})"
proof -
  have "set [perm_value (grt_permission g). m \<leftarrow> g_members db, mbr_user m = uid, g \<leftarrow> g_grants db, grt_group g = mbr_group m \<and> \<not> grt_deleted g]
      = perm_value ` {p. in_force db uid p}"
    by (auto simp: in_force_def)
  then show ?thesis unfolding granted_values_def by (rule arg_cong)
qed

lemma set_granted_values [simp]: "perm_value p \<in> set (granted_values db uid) \<longleftrightarrow> in_force db uid p"
proof -
  have "finite {p. in_force db uid p}" by (rule finite_subset [of _ "set permissions"]) auto
  then show ?thesis by (auto simp: granted_values_in_force)
qed

text \<open>A user is up to date when the stored permissions are those in force, or those of a limited key.\<close>

definition up_to_date :: "group_db \<Rightarrow> auth_user \<Rightarrow> bool" where
  "up_to_date db u \<longleftrightarrow> au_effective_permissions u = granted_values db (au_id u)
     \<or> au_role u = LIMITED \<and> au_effective_permissions u = [perm_value WRITE_CHAT]"

definition all_up_to_date :: "group_db \<Rightarrow> bool" where
  "all_up_to_date db \<longleftrightarrow> (\<forall>u \<in> set (g_users db). up_to_date db u)"

text \<open>A change that leaves users outside a set alone.\<close>

definition spares :: "uuid set \<Rightarrow> group_db \<Rightarrow> group_db \<Rightarrow> bool" where
  "spares A db db' \<longleftrightarrow> (\<forall>u' \<in> set (g_users db'). au_id u' \<notin> A \<longrightarrow>
     (\<exists>u \<in> set (g_users db). au_id u = au_id u' \<and> au_role u = au_role u' \<and> au_effective_permissions u = au_effective_permissions u')
     \<and> (\<forall>p. in_force db' (au_id u') p = in_force db (au_id u') p))"

lemma up_to_date_spared:
  assumes "all_up_to_date db" "spares A db db'" "u' \<in> set (g_users db')" "au_id u' \<notin> A"
  shows "up_to_date db' u'"
proof -
  obtain u where "u \<in> set (g_users db)" "au_id u = au_id u'" "au_role u = au_role u'" "au_effective_permissions u = au_effective_permissions u'"
      "\<forall>p. in_force db' (au_id u') p = in_force db (au_id u') p"
    using assms(2-4) unfolding spares_def by blast
  then show ?thesis using assms(1) by (auto simp: all_up_to_date_def up_to_date_def granted_values_in_force)
qed

lemma recompute_simps [simp]:
  "g_members (recompute_user_permissions ids db) = g_members db"
  "g_grants (recompute_user_permissions ids db) = g_grants db"
  "g_groups (recompute_user_permissions ids db) = g_groups db"
  "g_keys (recompute_user_permissions ids db) = g_keys db"
  "map au_id (g_users (recompute_user_permissions ids db)) = map au_id (g_users db)"
  "map au_account (g_users (recompute_user_permissions ids db)) = map au_account (g_users db)"
  by (simp_all add: recompute_user_permissions_def comp_def if_distrib cong: if_cong)

lemma granted_values_recompute [simp]: "granted_values (recompute_user_permissions ids db) = granted_values db"
  by (simp add: granted_values_def fun_eq_iff)

lemma g_users_recompute: "g_users (recompute_user_permissions ids db) = map (\<lambda>u. if au_id u \<in> set ids
    then u\<lparr>au_effective_permissions := granted_values db (au_id u)\<rparr> else u) (g_users db)"
  by (simp add: recompute_user_permissions_def)

lemma recompute_up_to_date:
  assumes "all_up_to_date db" and "spares A db db'" and "A \<subseteq> set ids"
  shows "all_up_to_date (recompute_user_permissions ids db')"
proof -
  have "up_to_date db' u" if "u \<in> set (g_users db')" "au_id u \<notin> set ids" for u
    using up_to_date_spared [OF assms(1,2) that(1)] that(2) assms(3) by blast
  moreover have "up_to_date (recompute_user_permissions ids db') u = up_to_date db' u" for u by (simp add: up_to_date_def)
  ultimately show ?thesis by (auto simp: all_up_to_date_def g_users_recompute) (simp add: up_to_date_def)
qed

lemma spared_up_to_date: "all_up_to_date db \<Longrightarrow> spares {} db db' \<Longrightarrow> all_up_to_date db'"
  using up_to_date_spared by (auto simp: all_up_to_date_def)

section \<open>Consistent tables\<close>

text \<open>
  Keys, foreign keys, the group of the administrators (the first group, a default group that stays), and
  grants: only that group has the permission of administrators, no group an implied one.
\<close>

definition consistent :: "group_db \<Rightarrow> bool" where
  "consistent db \<longleftrightarrow> distinct (map au_id (g_users db))
    \<and> mbr_user ` set (g_members db) \<subseteq> au_id ` set (g_users db)
    \<and> mbr_group ` set (g_members db) \<subseteq> grp_id ` set (g_groups db)
    \<and> grt_group ` set (g_grants db) \<subseteq> grp_id ` set (g_groups db)
    \<and> (\<forall>u \<in> set (g_users db). au_id u \<in> snd ` set (g_keys db) \<longrightarrow> au_account u = SERVICE_ACCOUNT)
    \<and> 1 \<in> grp_id ` set (g_groups db)
    \<and> (\<forall>g \<in> set (g_groups db). grp_id g = 1 \<longrightarrow> grp_default g \<and> grp_name g = ''Admin'' \<and> \<not> grp_for_deletion g)
    \<and> (\<forall>g \<in> set (g_grants db). grt_permission g \<notin> set IMPLIED \<and> grt_permission g \<noteq> CRAFT_SANDBOX
         \<and> (grt_permission g = FULL_ADMIN_PANEL_ACCESS \<longrightarrow> grt_group g = 1))"

section \<open>Changes of the tables\<close>

lemma spares_trans: "spares A db db1 \<Longrightarrow> spares B db1 db2 \<Longrightarrow> spares (A \<union> B) db db2"
  unfolding spares_def by (metis UnCI)

lemma spares_refl [simp]: "spares A db db"
  by (auto simp: spares_def)

lemma spares_mono: "spares A db db' \<Longrightarrow> A \<subseteq> B \<Longrightarrow> spares B db db'"
  unfolding spares_def by blast

lemma spares_members:
  assumes "g_users db' = g_users db" "g_grants db' = g_grants db"
    and "\<And>m. mbr_user m \<notin> A \<Longrightarrow> m \<in> set (g_members db') \<longleftrightarrow> m \<in> set (g_members db)"
  shows "spares A db db'"
  using assms unfolding spares_def in_force_def by metis

lemma add_member_spares: "spares {uid} db (add_member gid uid db)"
  by (rule spares_members) (auto simp: add_member_def)

lemma add_members_spares: "spares (set uids) db (add_members gid uids db)"
proof (induction uids arbitrary: db)
  case (Cons uid uids)
  from spares_trans [OF add_member_spares Cons] show ?case by (simp add: add_members_def)
qed (simp add: add_members_def)

lemma cleanup_members_spares: "spares (if uids = [] then set (members_of db gid) else set uids) db (cleanup_members gid uids db)"
  by (rule spares_members) (auto simp: cleanup_members_def members_of_def split: if_splits)

lemma set_user_simps [simp]:
  "g_members (set_user uid f db) = g_members db" "g_grants (set_user uid f db) = g_grants db"
  "g_groups (set_user uid f db) = g_groups db" "g_keys (set_user uid f db) = g_keys db"
  by (simp_all add: set_user_def)

lemma set_group_simps [simp]:
  "g_members (set_group gid f db) = g_members db" "g_grants (set_group gid f db) = g_grants db"
  "g_users (set_group gid f db) = g_users db" "g_keys (set_group gid f db) = g_keys db"
  by (simp_all add: set_group_def)

lemma in_force_cong: "g_members db' = g_members db \<Longrightarrow> g_grants db' = g_grants db \<Longrightarrow> in_force db' = in_force db"
  by (simp add: in_force_def fun_eq_iff)

lemma set_user_spares:
  assumes "\<And>u. au_id (f u) = au_id u"
  shows "spares {uid} db (set_user uid f db)"
  using in_force_cong [of "set_user uid f db" db] assms by (auto simp: spares_def set_user_def)

lemma set_group_spares: "spares {} db (set_group gid f db)"
  by (rule spares_members) simp_all

lemma memberD:
  assumes "consistent db" "m \<in> set (g_members db)"
  shows "mbr_user m \<in> au_id ` set (g_users db)" "mbr_group m \<in> grp_id ` set (g_groups db)"
  using assms by (auto simp: consistent_def)

text \<open>Only identifiers and account types of users matter.\<close>

lemma consistent_users:
  assumes "consistent db" "g_members db' = g_members db" "g_grants db' = g_grants db" "g_groups db' = g_groups db" "g_keys db' = g_keys db"
    and ids: "map au_id (g_users db') = map au_id (g_users db)"
    and account: "\<And>u'. u' \<in> set (g_users db') \<Longrightarrow> \<exists>u \<in> set (g_users db). au_id u = au_id u' \<and> (au_account u = SERVICE_ACCOUNT \<longrightarrow> au_account u' = SERVICE_ACCOUNT)"
  shows "consistent db'"
proof -
  have "au_id ` set (g_users db') = au_id ` set (g_users db)" using ids by (metis list.set_map)
  moreover have "au_account u' = SERVICE_ACCOUNT" if key: "au_id u' \<in> snd ` set (g_keys db)" "u' \<in> set (g_users db')" for u'
  proof -
    obtain u where "u \<in> set (g_users db)" "au_id u = au_id u'" "au_account u = SERVICE_ACCOUNT \<longrightarrow> au_account u' = SERVICE_ACCOUNT"
      using account [OF key(2)] by blast
    moreover from this(1,2) have "au_account u = SERVICE_ACCOUNT" using assms(1) key(1) unfolding consistent_def by auto
    ultimately show ?thesis by simp
  qed
  ultimately show ?thesis using assms(1-5) ids unfolding consistent_def by auto
qed

lemma consistent_recompute: "consistent db \<Longrightarrow> consistent (recompute_user_permissions ids db)"
  by (erule consistent_users) (simp_all only: recompute_simps, auto simp: g_users_recompute)

lemma find_user_Some: "find_user db uid = Some u \<Longrightarrow> u \<in> set (g_users db) \<and> au_id u = uid"
  by (auto simp: find_user_def find_Some_iff)

lemma find_user_None: "find_user db uid = None \<longleftrightarrow> uid \<notin> au_id ` set (g_users db)"
  by (auto simp: find_user_def find_None_iff)

lemma find_group_Some: "find_group db gid = Some g \<Longrightarrow> g \<in> set (g_groups db) \<and> grp_id g = gid"
  by (auto simp: find_group_def find_Some_iff)

lemma consistent_members:
  assumes "consistent db" "g_users db' = g_users db" "g_grants db' = g_grants db" "g_groups db' = g_groups db" "g_keys db' = g_keys db"
    and "\<And>m. m \<in> set (g_members db') \<Longrightarrow> mbr_user m \<in> au_id ` set (g_users db) \<and> mbr_group m \<in> grp_id ` set (g_groups db)"
  shows "consistent db'"
  using assms unfolding consistent_def by auto

lemma add_members_simps [simp]:
  "g_users (add_members gid uids db) = g_users db" "g_grants (add_members gid uids db) = g_grants db"
  "g_groups (add_members gid uids db) = g_groups db" "g_keys (add_members gid uids db) = g_keys db"
  by (induction uids arbitrary: db) (simp_all add: add_members_def add_member_def)

lemma add_members_new: "m \<in> set (g_members (add_members gid uids db)) \<Longrightarrow> m \<in> set (g_members db) \<or> mbr_group m = gid \<and> mbr_user m \<in> set uids"
  by (induction uids arbitrary: db) (fastforce simp: add_members_def add_member_def split: if_splits)+

lemma consistent_add_members:
  assumes "consistent db" and "gid \<in> grp_id ` set (g_groups db)" and "set uids \<subseteq> au_id ` set (g_users db)"
  shows "consistent (add_members gid uids db)"
  using assms(1)
proof (rule consistent_members)
  fix m assume "m \<in> set (g_members (add_members gid uids db))"
  then show "mbr_user m \<in> au_id ` set (g_users db) \<and> mbr_group m \<in> grp_id ` set (g_groups db)"
    using add_members_new [of m gid uids db] assms unfolding consistent_def by auto
qed simp_all

lemma cleanup_members_simps [simp]:
  "g_users (cleanup_members gid uids db) = g_users db" "g_grants (cleanup_members gid uids db) = g_grants db"
  "g_groups (cleanup_members gid uids db) = g_groups db" "g_keys (cleanup_members gid uids db) = g_keys db"
  by (simp_all add: cleanup_members_def)

lemma consistent_cleanup_members:
  assumes "consistent db"
  shows "consistent (cleanup_members gid uids db)"
  using assms
proof (rule consistent_members)
  fix m assume "m \<in> set (g_members (cleanup_members gid uids db))"
  then show "mbr_user m \<in> au_id ` set (g_users db) \<and> mbr_group m \<in> grp_id ` set (g_groups db)"
    using memberD [OF assms] by (simp add: cleanup_members_def)
qed simp_all

lemma consistent_set_user:
  assumes "consistent db" and "\<And>u. au_id (f u) = au_id u" and "\<And>u. au_account u = SERVICE_ACCOUNT \<Longrightarrow> au_account (f u) = SERVICE_ACCOUNT"
  shows "consistent (set_user uid f db)"
  using assms(1) by (rule consistent_users) (auto simp: set_user_def assms)

lemma consistent_set_group:
  assumes "consistent db" and "\<And>g. grp_id (f g) = grp_id g"
    and "\<And>g. gid = 1 \<Longrightarrow> grp_default g \<Longrightarrow> grp_name g = ''Admin'' \<Longrightarrow> \<not> grp_for_deletion g \<Longrightarrow>
      grp_default (f g) \<and> grp_name (f g) = ''Admin'' \<and> \<not> grp_for_deletion (f g)"
  shows "consistent (set_group gid f db)"
proof -
  have "map grp_id (g_groups (set_group gid f db)) = map grp_id (g_groups db)" by (simp add: set_group_def assms(2))
  then have "grp_id ` set (g_groups (set_group gid f db)) = grp_id ` set (g_groups db)" by (metis list.set_map)
  moreover have "\<forall>g \<in> set (g_groups (set_group gid f db)). grp_id g = 1 \<longrightarrow> grp_default g \<and> grp_name g = ''Admin'' \<and> \<not> grp_for_deletion g"
    using assms unfolding consistent_def set_group_def by (auto simp: assms(2) split: if_splits)
  ultimately show ?thesis using assms(1) unfolding consistent_def by simp
qed

text \<open>A group with a fresh identifier.\<close>

abbreviation new_group :: "group_row \<Rightarrow> group_db \<Rightarrow> group_db" where
  "new_group g db \<equiv> db\<lparr>g_groups := g_groups db @ [g],
     g_grants := g_grants db @ [\<lparr>grt_group = grp_id g, grt_permission = BASIC_ACCESS, grt_source = SYSTEM_GRANT, grt_deleted = False\<rparr>]\<rparr>"

lemma new_group_sound:
  assumes "consistent db" and "grp_id g \<notin> grp_id ` set (g_groups db)"
  shows "consistent (new_group g db)" "spares {} db (new_group g db)"
proof -
  show "consistent (new_group g db)" using assms by (auto simp: consistent_def IMPLIED_def)
  have "\<forall>m \<in> set (g_members db). mbr_group m \<noteq> grp_id g" using assms(2) memberD(2) [OF assms(1)] by metis
  then have "in_force (new_group g db) = in_force db" by (auto simp: in_force_def fun_eq_iff)
  then show "spares {} db (new_group g db)" by (auto simp: spares_def)
qed

section \<open>Operations keep the tables sound\<close>

definition sound :: "group_db \<Rightarrow> bool" where
  "sound db \<longleftrightarrow> consistent db \<and> all_up_to_date db"

lemma sound_recompute: "sound db \<Longrightarrow> spares A db db' \<Longrightarrow> A \<subseteq> set ids \<Longrightarrow> consistent db' \<Longrightarrow> sound (recompute_user_permissions ids db')"
  using recompute_up_to_date [of db A db' ids] by (simp add: sound_def consistent_recompute)

lemma sound_spared: "sound db \<Longrightarrow> spares {} db db' \<Longrightarrow> consistent db' \<Longrightarrow> sound db'"
  by (auto simp: sound_def intro: spared_up_to_date)

lemma all_found: "\<not> list_ex (\<lambda>uid. find_user db uid = None) uids \<Longrightarrow> set uids \<subseteq> au_id ` set (g_users db)"
  by (auto simp: list_ex_iff find_user_None)

lemma insert_user_group_sound:
  assumes "sound db" "insert_user_group dv i name uids db = Inr db'" "i \<notin> grp_id ` set (g_groups db)"
  shows "sound db'"
proof -
  let ?g = "\<lparr>grp_id = i, grp_name = name, grp_up_to_date = dv, grp_for_deletion = False, grp_default = False\<rparr>"
  let ?db1 = "new_group ?g db"
  have new: "consistent ?db1" "spares {} db ?db1" using new_group_sound [of db ?g] assms(1,3) by (auto simp: sound_def)
  have db': "db' = recompute_user_permissions uids (add_members i uids ?db1)" and found: "set uids \<subseteq> au_id ` set (g_users db)"
    using assms(2) all_found [of db uids] by (auto simp: insert_user_group_def Let_def split: if_splits)
  show ?thesis unfolding db'
  proof (rule sound_recompute [OF assms(1)])
    show "spares ({} \<union> set uids) db (add_members i uids ?db1)" by (rule spares_trans [OF new(2) add_members_spares])
    show "consistent (add_members i uids ?db1)" using consistent_add_members [OF new(1), of i uids] found by simp
  qed simp
qed

lemma scim_create_group_sound:
  assumes "sound db" "i \<notin> grp_id ` set (g_groups db)"
  shows "sound (snd (scim_create_group i name uids db))"
proof -
  let ?g = "\<lparr>grp_id = i, grp_name = name, grp_up_to_date = True, grp_for_deletion = False, grp_default = False\<rparr>"
  let ?db1 = "new_group ?g db"
  have new: "consistent ?db1" "spares {} db ?db1" using new_group_sound [of db ?g] assms by (auto simp: sound_def)
  have "sound (recompute_user_permissions uids (add_members i uids ?db1))" if "\<not> list_ex (\<lambda>uid. find_user db uid = None) uids"
  proof (rule sound_recompute [OF assms(1)])
    show "spares ({} \<union> set uids) db (add_members i uids ?db1)" by (rule spares_trans [OF new(2) add_members_spares])
    show "consistent (add_members i uids ?db1)" using consistent_add_members [OF new(1), of i uids] all_found [OF that] by simp
  qed simp
  then show ?thesis using assms(1) by (simp add: scim_create_group_def)
qed

lemma validate_curators_spares: "spares (set uids) db (fold validate_curator_status uids db)"
proof (induction uids arbitrary: db)
  case (Cons uid uids)
  have "spares {uid} db (validate_curator_status uid db)" unfolding validate_curator_status_def by (rule set_user_spares) simp
  from spares_trans [OF this Cons] show ?case by simp
qed simp

lemma consistent_validate_curator: "consistent db \<Longrightarrow> consistent (validate_curator_status uid db)"
  unfolding validate_curator_status_def by (erule consistent_set_user) simp_all

lemma consistent_validate_curators: "consistent db \<Longrightarrow> consistent (fold validate_curator_status uids db)"
  by (induction uids arbitrary: db) (simp_all add: consistent_validate_curator)

lemma update_user_group_sound:
  assumes "sound db" "update_user_group dv gid uids cc db = Inr db'"
  shows "sound db'"
proof -
  let ?added = "remdups (filter (\<lambda>uid. uid \<notin> set (members_of db gid)) uids)"
    and ?removed = "remdups (filter (\<lambda>uid. uid \<notin> set uids) (members_of db gid))"
  let ?db1 = "if ?removed \<noteq> [] then cleanup_members gid ?removed db else db"
  let ?db2 = "add_members gid ?added ?db1"
  let ?db3 = "if cc \<and> \<not> dv then set_group gid (\<lambda>g. g\<lparr>grp_up_to_date := False\<rparr>) ?db2 else ?db2"
  let ?validated = "filter (\<lambda>uid. case find_user ?db3 uid of None \<Rightarrow> False | Some u \<Rightarrow> au_role u \<notin> {ADMIN, GLOBAL_CURATOR}) ?removed"
  obtain g where group: "find_group db gid = Some g"
    using assms(2) by (cases "find_group db gid") (simp_all add: update_user_group_def)
  have found: "\<not> list_ex (\<lambda>uid. find_user db uid = None) ?added"
    using assms(2) group by (intro notI) (simp add: update_user_group_def bind_r_Inr_iff)
  have db': "db' = recompute_user_permissions (?added @ ?removed) (fold validate_curator_status ?validated ?db3)"
    using assms(2) group found unfolding update_user_group_def Let_def by (simp add: bind_r_Inr_iff)
  have c: "consistent db" using assms(1) by (simp add: sound_def)
  have s1: "spares (set ?removed) db ?db1"
  proof (cases "?removed = []")
    case False
    then show ?thesis using cleanup_members_spares [of ?removed db gid] by presburger
  qed simp
  have s3: "spares {} ?db2 ?db3" using set_group_spares by simp
  note s = spares_trans [OF spares_trans [OF spares_trans [OF s1 add_members_spares] s3] validate_curators_spares]
  have "gid \<in> grp_id ` set (g_groups db)" using find_group_Some [OF group] by auto
  then have "consistent ?db2" using c all_found [OF found]
    by (intro consistent_add_members) (simp_all add: consistent_cleanup_members)
  then have "consistent ?db3" by (simp add: consistent_set_group)
  then have "consistent (fold validate_curator_status ?validated ?db3)" by (rule consistent_validate_curators)
  then show ?thesis unfolding db' by (rule sound_recompute [OF assms(1) s, rotated]) auto
qed

lemma add_users_to_user_group_sound: "sound db \<Longrightarrow> add_users_to_user_group dv gid uids db = Inr db' \<Longrightarrow> sound db'"
  by (auto simp: add_users_to_user_group_def Let_def bind_r_Inr_iff update_user_group_sound split: option.splits if_splits)

lemma prepare_user_group_for_deletion_sound:
  assumes "sound db" "prepare_user_group_for_deletion gid db = Inr db'" "gid \<noteq> 1"
  shows "sound db'"
proof -
  have db': "db' = set_group gid (\<lambda>g. g\<lparr>grp_up_to_date := False, grp_for_deletion := True\<rparr>)
      (recompute_user_permissions (members_of db gid) (cleanup_members gid [] db))"
    using assms(2) by (auto simp: prepare_user_group_for_deletion_def Let_def bind_r_Inr_iff split: option.splits)
  have c: "consistent (cleanup_members gid [] db)" using assms(1) by (simp add: sound_def consistent_cleanup_members)
  have "spares (set (members_of db gid)) db (cleanup_members gid [] db)" using cleanup_members_spares [of "[]" db gid] by simp
  from sound_recompute [OF assms(1) this subset_refl c]
  have "sound (recompute_user_permissions (members_of db gid) (cleanup_members gid [] db))" .
  from sound_spared [OF this set_group_spares] this show ?thesis
    unfolding db' using assms(3) by (simp add: sound_def consistent_set_group)
qed

lemma remove_group_sound:
  assumes "sound db" "\<forall>m \<in> set (g_members db). mbr_group m \<noteq> gid" "gid \<noteq> 1"
  shows "sound (db\<lparr>g_groups := filter (\<lambda>g. grp_id g \<noteq> gid) (g_groups db), g_grants := filter (\<lambda>g. grt_group g \<noteq> gid) (g_grants db)\<rparr>)" (is "sound ?db")
proof (rule sound_spared [OF assms(1)])
  have "in_force ?db = in_force db" using assms(2) by (fastforce simp: in_force_def fun_eq_iff)
  then show "spares {} db ?db" by (auto simp: spares_def)
  have "mbr_group m \<in> grp_id ` {g \<in> set (g_groups db). grp_id g \<noteq> gid}" if "m \<in> set (g_members db)" for m
    using memberD(2) [of db m] assms(1,2) that by (fastforce simp: sound_def)
  then show "consistent ?db" using assms(1,3) by (auto simp: sound_def consistent_def)
qed

lemma delete_user_group_sound:
  assumes "sound db" "prepare_user_group_for_deletion gid db = Inr db'" "gid \<noteq> 1"
  shows "sound (delete_user_group gid db')"
proof -
  have none: "\<forall>m \<in> set (g_members db'). mbr_group m \<noteq> gid"
    using assms(2) by (auto simp: prepare_user_group_for_deletion_def Let_def bind_r_Inr_iff cleanup_members_def split: option.splits)
  then have "filter (\<lambda>m. mbr_group m \<noteq> gid) (g_members db') = g_members db'" by simp
  then show ?thesis
    using remove_group_sound [OF prepare_user_group_for_deletion_sound [OF assms] none assms(3)] by (simp add: delete_user_group_def)
qed

lemma grants_sound:
  assumes "sound db" and "consistent (db\<lparr>g_grants := grants\<rparr>)"
    and "\<And>g. grt_group g \<noteq> gid \<Longrightarrow> g \<in> set grants \<longleftrightarrow> g \<in> set (g_grants db)"
  shows "sound (recompute_permissions_for_group gid (db\<lparr>g_grants := grants\<rparr>))"
  unfolding recompute_permissions_for_group_def
proof (rule sound_recompute [OF assms(1) _ _ assms(2)])
  have "in_force (db\<lparr>g_grants := grants\<rparr>) uid p = in_force db uid p" if "uid \<notin> set (members_of db gid)" for uid p
  proof -
    have "(\<exists>g \<in> set grants. grt_group g = mbr_group m \<and> \<not> grt_deleted g \<and> grt_permission g = p)
        \<longleftrightarrow> (\<exists>g \<in> set (g_grants db). grt_group g = mbr_group m \<and> \<not> grt_deleted g \<and> grt_permission g = p)"
      if "m \<in> set (g_members db)" "mbr_user m = uid" for m
    proof -
      have "mbr_group m \<noteq> gid" using that \<open>uid \<notin> set (members_of db gid)\<close> by (auto simp: members_of_def)
      then have "grt_group g = mbr_group m \<Longrightarrow> g \<in> set grants \<longleftrightarrow> g \<in> set (g_grants db)" for g using assms(3) by metis
      then show ?thesis by auto
    qed
    then show ?thesis unfolding in_force_def by (intro bex_cong) auto
  qed
  then show "spares (set (members_of db gid)) db (db\<lparr>g_grants := grants\<rparr>)" by (auto simp: spares_def)
qed (simp add: members_of_def)

lemma consistent_grants:
  assumes "consistent db"
    and "\<And>g. g \<in> set grants \<Longrightarrow> (\<exists>h \<in> set (g_grants db). grt_group h = grt_group g \<and> grt_permission h = grt_permission g)
      \<or> grt_group g \<in> grp_id ` set (g_groups db) \<and> grt_permission g \<notin> set NON_TOGGLEABLE_PERMISSIONS"
  shows "consistent (db\<lparr>g_grants := grants\<rparr>)"
proof -
  have "grt_group g \<in> grp_id ` set (g_groups db) \<and> grt_permission g \<notin> set IMPLIED \<and> grt_permission g \<noteq> CRAFT_SANDBOX
      \<and> (grt_permission g = FULL_ADMIN_PANEL_ACCESS \<longrightarrow> grt_group g = 1)" if "g \<in> set grants" for g
    using assms(2) [OF that]
  proof
    assume "\<exists>h \<in> set (g_grants db). grt_group h = grt_group g \<and> grt_permission h = grt_permission g"
    then obtain h where "h \<in> set (g_grants db)" "grt_group h = grt_group g" "grt_permission h = grt_permission g" by blast
    then show ?thesis using assms(1) unfolding consistent_def by (metis image_subset_iff)
  qed (simp add: NON_TOGGLEABLE_PERMISSIONS_def)
  then show ?thesis using assms(1) by (auto simp: consistent_def)
qed

lemma set_user_group_permission_sound:
  assumes "sound db" "set_user_group_permission gid p enabled db = Inr db'"
  shows "sound db'"
proof -
  let ?sel = "\<lambda>g. grt_group g = gid \<and> grt_permission g = p"
  let ?mapped = "map (\<lambda>g. if ?sel g then g\<lparr>grt_deleted := \<not> enabled\<rparr> else g) (g_grants db)"
  let ?new = "g_grants db @ [\<lparr>grt_group = gid, grt_permission = p, grt_source = USER_GRANT, grt_deleted = False\<rparr>]"
  have ok: "set_group_permission gid p enabled db = Inr db'" "p \<notin> set NON_TOGGLEABLE_PERMISSIONS" "gid \<in> grp_id ` set (g_groups db)"
    using assms(2) find_group_Some [of db gid] by (auto simp: set_user_group_permission_def split: option.splits if_splits)
  have c: "consistent db" using assms(1) by (simp add: sound_def)
  have "sound (recompute_permissions_for_group gid (db\<lparr>g_grants := ?mapped\<rparr>))"
  proof (rule grants_sound [OF assms(1)])
    show "consistent (db\<lparr>g_grants := ?mapped\<rparr>)" using c
    proof (rule consistent_grants)
      fix g assume "g \<in> set ?mapped"
      then obtain h where "h \<in> set (g_grants db)" "g = (if ?sel h then h\<lparr>grt_deleted := \<not> enabled\<rparr> else h)" by auto
      then show "(\<exists>h \<in> set (g_grants db). grt_group h = grt_group g \<and> grt_permission h = grt_permission g)
          \<or> grt_group g \<in> grp_id ` set (g_groups db) \<and> grt_permission g \<notin> set NON_TOGGLEABLE_PERMISSIONS"
        by (intro disjI1 bexI [of _ h]) auto
    qed
    show "g \<in> set ?mapped \<longleftrightarrow> g \<in> set (g_grants db)" if "grt_group g \<noteq> gid" for g using that by (auto simp: image_iff)
  qed
  moreover have "sound (recompute_permissions_for_group gid (db\<lparr>g_grants := ?new\<rparr>))"
    using assms(1)
  proof (rule grants_sound)
    show "consistent (db\<lparr>g_grants := ?new\<rparr>)" by (rule consistent_grants [OF c]) (use ok(2,3) in auto)
  qed auto
  moreover have "sound (recompute_permissions_for_group gid (db\<lparr>g_grants := g_grants db\<rparr>))"
    using c by (intro grants_sound [OF assms(1)]) simp_all
  ultimately show ?thesis
    using ok(1) by (auto simp: set_group_permission_def Let_def bind_r_Inr_iff split: option.splits if_splits)
qed

lemma up_to_date_role: "up_to_date db u \<Longrightarrow> au_role u \<noteq> LIMITED \<or> r = LIMITED \<Longrightarrow> up_to_date db (u\<lparr>au_role := r\<rparr>)"
  by (auto simp: up_to_date_def)

lemma set_user_up_to_date:
  assumes "all_up_to_date db" and "\<And>u. u \<in> set (g_users db) \<Longrightarrow> au_id u = uid \<Longrightarrow> up_to_date db u \<Longrightarrow> up_to_date db (f u)"
  shows "all_up_to_date (set_user uid f db)"
proof -
  have "granted_values (set_user uid f db) = granted_values db" by (simp add: granted_values_def fun_eq_iff)
  then have "up_to_date (set_user uid f db) = up_to_date db" by (simp add: up_to_date_def fun_eq_iff)
  then show ?thesis using assms by (auto simp: all_up_to_date_def set_user_def)
qed

text \<open>The members stay the same but for the mark of curators.\<close>

lemma curators_sound:
  assumes "sound db" and "map (\<lambda>m. (mbr_group m, mbr_user m)) ms = map (\<lambda>m. (mbr_group m, mbr_user m)) (g_members db)"
  shows "sound (db\<lparr>g_members := ms\<rparr>)"
proof -
  have same: "(\<lambda>m. (mbr_group m, mbr_user m)) ` set ms = (\<lambda>m. (mbr_group m, mbr_user m)) ` set (g_members db)"
    using arg_cong [OF assms(2), of set] by simp
  have ex: "(\<exists>m \<in> set ms. P (mbr_group m, mbr_user m)) \<longleftrightarrow> (\<exists>m \<in> set (g_members db). P (mbr_group m, mbr_user m))" for P
    using arg_cong [OF same, of "\<lambda>S. \<exists>x \<in> S. P x"] by simp
  have "in_force (db\<lparr>g_members := ms\<rparr>) uid p = in_force db uid p" for uid p
    using ex [of "\<lambda>(i, v). v = uid \<and> (\<exists>g \<in> set (g_grants db). grt_group g = i \<and> \<not> grt_deleted g \<and> grt_permission g = p)"]
    by (simp add: in_force_def)
  then have "spares {} db (db\<lparr>g_members := ms\<rparr>)" by (auto simp: spares_def)
  moreover have "consistent (db\<lparr>g_members := ms\<rparr>)"
  proof -
    have c: "consistent db" using assms(1) by (simp add: sound_def)
    show ?thesis
    proof (rule consistent_members [OF c])
      fix m assume "m \<in> set (g_members (db\<lparr>g_members := ms\<rparr>))"
      then obtain n where "n \<in> set (g_members db)" "mbr_group n = mbr_group m" "mbr_user n = mbr_user m"
        using ex [of "\<lambda>x. x = (mbr_group m, mbr_user m)"] by auto
      then show "mbr_user m \<in> au_id ` set (g_users db) \<and> mbr_group m \<in> grp_id ` set (g_groups db)" using memberD [OF c, of n] by simp
    qed simp_all
  qed
  ultimately show ?thesis by (rule sound_spared [OF assms(1)])
qed

lemma validate_curator_sound:
  assumes "sound db" and "\<And>u. u \<in> set (g_users db) \<Longrightarrow> au_id u = uid \<Longrightarrow> au_role u = LIMITED \<Longrightarrow> \<not> list_ex (\<lambda>m. mbr_user m = uid \<and> mbr_curator m) (g_members db)"
  shows "sound (validate_curator_status uid db)"
proof -
  have "all_up_to_date (validate_curator_status uid db)" unfolding validate_curator_status_def
    using assms by (intro set_user_up_to_date) (auto simp: sound_def intro!: up_to_date_role)
  then show ?thesis using assms(1) by (simp add: sound_def consistent_validate_curator)
qed

lemma update_user_curator_relationship_sound:
  assumes "sound db" "update_user_curator_relationship gid uid curator caller db = Inr db'"
  shows "sound db'"
proof -
  obtain target where target: "find_user db uid = Some target" "validate_curator_request gid target db = Inr ()"
    using assms(2) by (auto simp: update_user_curator_relationship_def bind_r_Inr_iff split: option.splits)
  have unique: "u = target" if "u \<in> set (g_users db)" "au_id u = uid" for u
    using find_user_Some [OF target(1)] that assms(1) by (auto simp: sound_def consistent_def distinct_map dest: inj_onD)
  have request: "au_role target \<in> {CURATOR, BASIC}" "is_member db gid uid"
    using target(2) find_user_Some [OF target(1)] by (auto simp: validate_curator_request_def split: if_splits)
  let ?ms = "map (\<lambda>m. if mbr_group m = gid \<and> mbr_user m = uid then m\<lparr>mbr_curator := curator\<rparr> else m) (g_members db)"
  have "db' = validate_curator_status uid (db\<lparr>g_members := ?ms\<rparr>)"
    using assms(2) target(1) request(2) by (simp add: update_user_curator_relationship_def bind_r_Inr_iff)
  moreover have "sound (db\<lparr>g_members := ?ms\<rparr>)" using assms(1) by (rule curators_sound) (simp add: comp_def)
  ultimately show ?thesis using request(1) unique by (auto intro!: validate_curator_sound)
qed

lemma remove_curator_status_sound: "sound db \<Longrightarrow> sound (remove_curator_status uid db)"
  unfolding remove_curator_status_def
  by (rule validate_curator_sound [OF curators_sound]) (auto simp: list_ex_iff)

lemma set_user_member: "u' \<in> set (g_users (set_user uid f db)) \<Longrightarrow> \<exists>u \<in> set (g_users db). u' = (if au_id u = uid then f u else u)"
  unfolding set_user_def by auto

lemma keyD: "consistent db \<Longrightarrow> au_id u \<in> snd ` set (g_keys db) \<Longrightarrow> u \<in> set (g_users db) \<Longrightarrow> au_account u = SERVICE_ACCOUNT"
  by (auto simp: consistent_def)

lemma ids_set_group:
  assumes "\<And>g. grp_id (f g) = grp_id g"
  shows "grp_id ` set (g_groups (set_group gid f db)) = grp_id ` set (g_groups db)"
proof -
  have "map grp_id (g_groups (set_group gid f db)) = map grp_id (g_groups db)" by (simp add: set_group_def assms)
  from arg_cong [OF this, of set] show ?thesis by simp
qed

lemma ids_set_user:
  assumes "\<And>u. au_id (f u) = au_id u"
  shows "au_id ` set (g_users (set_user uid f db)) = au_id ` set (g_users db)"
proof -
  have "map au_id (g_users (set_user uid f db)) = map au_id (g_users db)" by (simp add: set_user_def assms)
  from arg_cong [OF this, of set] show ?thesis by simp
qed

text \<open>Where a user leaves or enters default groups, the permissions of that user alone are written.\<close>

lemma leave_default_groups_spares: "spares {uid} db (leave_default_groups uid db)"
  by (rule spares_members) (auto simp: leave_default_groups_def)

lemma consistent_leave_default_groups:
  assumes "consistent db"
  shows "consistent (leave_default_groups uid db)"
  using assms
proof (rule consistent_members)
  fix m assume "m \<in> set (g_members (leave_default_groups uid db))"
  then show "mbr_user m \<in> au_id ` set (g_users db) \<and> mbr_group m \<in> grp_id ` set (g_groups db)"
    using memberD [OF assms] by (simp add: leave_default_groups_def)
qed (simp_all add: leave_default_groups_def)

text \<open>Assigning either writes the permissions of the user, or changes nothing.\<close>

lemma assign_cases:
  assumes "assign_user_to_default_groups uid admin db = Inr db'" and "consistent db"
  shows "db' = db \<and> (\<forall>u. find_user db uid = Some u \<longrightarrow> au_account u \<in> {BOT, EXT_PERM_ACCOUNT, ANONYMOUS}
        \<or> (\<exists>g \<in> set (g_groups db). grp_default g \<and> is_member db (grp_id g) uid))
    \<or> (\<exists>db1. db' = recompute_user_permissions [uid] db1 \<and> spares {uid} db db1 \<and> consistent db1)"
proof (cases "find_user db uid")
  case (Some u)
  show ?thesis
  proof (cases "au_account u \<in> {BOT, EXT_PERM_ACCOUNT, ANONYMOUS}")
    case False
    then obtain g where g: "find (\<lambda>g. grp_name g = (if admin then ''Admin'' else ''Basic'') \<and> grp_default g) (g_groups db) = Some g"
        "db' = (if is_member db (grp_id g) uid then db else recompute_user_permissions [uid] (add_member (grp_id g) uid db))"
      using assms(1) Some by (auto simp: assign_user_to_default_groups_def split: option.splits if_splits)
    then have grp: "g \<in> set (g_groups db)" "grp_default g" by (auto simp: find_Some_iff)
    have "consistent (add_members (grp_id g) [uid] db)"
      using grp(1) find_user_Some [OF Some] by (intro consistent_add_members [OF assms(2)]) auto
    then show ?thesis using g(2) grp add_member_spares [of uid db "grp_id g"] by (auto simp: add_members_def)
  qed (use assms(1) Some in \<open>auto simp: assign_user_to_default_groups_def\<close>)
qed (use assms(1) in \<open>auto simp: assign_user_to_default_groups_def\<close>)

lemma assign_sound:
  assumes "sound db" "assign_user_to_default_groups uid admin db = Inr db'"
  shows "sound db'"
  using assign_cases [OF assms(2)] assms(1) sound_recompute [OF assms(1), of "{uid}" _ "[uid]"] by (auto simp: sound_def)

lemma update_user_role_sound:
  assumes "sound db" "update_user_role uid r db = Inr db'" and human: "\<And>u. find_user db uid = Some u \<Longrightarrow> au_account u \<noteq> SERVICE_ACCOUNT"
  shows "sound db'"
proof (cases "find_user db uid")
  case (Some u)
  define account where "account = (case role_to_account_type r of Some a \<Rightarrow> a
      | None \<Rightarrow> if au_account u \<in> {BOT, EXT_PERM_ACCOUNT} then STANDARD else au_account u)"
  let ?db1 = "set_user uid (\<lambda>v. v\<lparr>au_role := r, au_account := account\<rparr>) db"
  let ?db2 = "leave_default_groups uid ?db1"
  have c: "consistent db" using assms(1) by (simp add: sound_def)
  have unique: "v = u" if "v \<in> set (g_users db)" "au_id v = uid" for v
    using find_user_Some [OF Some] that c by (auto simp: consistent_def distinct_map dest: inj_onD)
  have service: "v \<in> set (g_users db) \<Longrightarrow> au_id v = uid \<Longrightarrow> au_account v \<noteq> SERVICE_ACCOUNT" for v using unique human [OF Some] by simp
  have c1: "consistent ?db1"
  proof (rule consistent_users [OF c])
    fix u' assume "u' \<in> set (g_users ?db1)"
    then obtain v where "v \<in> set (g_users db)" "u' = (if au_id v = uid then v\<lparr>au_role := r, au_account := account\<rparr> else v)"
      by (auto simp: set_user_def)
    then show "\<exists>u \<in> set (g_users db). au_id u = au_id u' \<and> (au_account u = SERVICE_ACCOUNT \<longrightarrow> au_account u' = SERVICE_ACCOUNT)"
      using service by (intro bexI [of _ v]) auto
  qed (auto simp: set_user_def)
  have s1: "spares {uid} db ?db1" by (rule set_user_spares) simp
  have s2: "spares {uid} db ?db2" using spares_trans [OF s1 leave_default_groups_spares [of uid]] by simp
  have c2: "consistent ?db2" using c1 by (rule consistent_leave_default_groups)
  show ?thesis
  proof (cases "au_role u = r")
    case True
    then have "db' = ?db1" using assms(2) Some by (simp add: update_user_role_def account_def)
    moreover have "all_up_to_date ?db1"
      using assms(1) True unique by (intro set_user_up_to_date) (auto simp: sound_def up_to_date_def)
    ultimately show ?thesis using c1 by (simp add: sound_def)
  next
    case False
    then obtain db3 where db3: "db' = recompute_user_permissions [uid] db3"
        "db3 = ?db2 \<or> assign_user_to_default_groups uid (r = ADMIN) ?db2 = Inr db3"
      using assms(2) Some by (auto simp: update_user_role_def account_def Let_def bind_r_Inr_iff split: if_splits)
    from db3(2) have "spares {uid} db db3 \<and> consistent db3"
    proof
      assume a: "assign_user_to_default_groups uid (r = ADMIN) ?db2 = Inr db3"
      from assign_cases [OF a c2] show ?thesis
      proof
        assume "\<exists>db1. db3 = recompute_user_permissions [uid] db1 \<and> spares {uid} ?db2 db1 \<and> consistent db1"
        then obtain db4 where db4: "db3 = recompute_user_permissions [uid] db4" "spares {uid} ?db2 db4" "consistent db4" by blast
        have "spares {uid} db4 db3" unfolding db4(1) by (auto simp: spares_def g_users_recompute in_force_def)
        from spares_trans [OF spares_trans [OF s2 db4(2)] this] show ?thesis
          using db4(1,3) by (simp add: consistent_recompute)
      qed (use s2 c2 in simp)
    qed (use s2 c2 in simp)
    then show ?thesis unfolding db3(1) by (intro sound_recompute [OF assms(1)]) auto
  qed
qed (use assms(1,2) in \<open>simp add: update_user_role_def\<close>)

lemma find_user_remove_curator: "map_option au_account (find_user (remove_curator_status uid db) uid) = map_option au_account (find_user db uid)"
proof -
  have "map_option au_account (find_user (set_user uid f db) uid) = map_option au_account (find_user db uid)"
    if "\<And>u. au_id (f u) = au_id u" "\<And>u. au_account (f u) = au_account u" for f and db
  proof -
    have "map_option au_account (find (\<lambda>u. au_id u = uid) (map (\<lambda>u. if au_id u = uid then f u else u) us))
        = map_option au_account (find (\<lambda>u. au_id u = uid) us)" for us
      by (induction us) (auto simp: that)
    then show ?thesis by (simp add: find_user_def set_user_def)
  qed
  then show ?thesis unfolding remove_curator_status_def validate_curator_status_def by (simp add: find_user_def)
qed

lemma set_user_role_sound:
  assumes "sound db" "set_user_role caller uid r override db = Inr db'"
  shows "sound db'"
proof (cases "find_user db uid")
  case (Some u)
  let ?db = "if r = CURATOR then remove_curator_status uid db else db"
  consider "db' = db" | "validate_user_role_update r (au_account u) override = Inr ()" "update_user_role uid r ?db = Inr db'"
    using assms(2) Some by (auto simp: set_user_role_def bind_r_Inr_iff split: if_splits)
  then show ?thesis
  proof cases
    case 2
    have "au_account u \<noteq> SERVICE_ACCOUNT" using 2(1) by (auto simp: validate_user_role_update_def)
    then have "au_account v \<noteq> SERVICE_ACCOUNT" if "find_user ?db uid = Some v" for v
      using that Some find_user_remove_curator [of uid db] by (auto split: if_splits)
    moreover have "sound ?db" using assms(1) remove_curator_status_sound by simp
    ultimately show ?thesis using update_user_role_sound 2(2) by blast
  qed (use assms(1) in simp)
qed (use assms(2) in \<open>simp add: set_user_role_def\<close>)

lemma activate_user_sound:
  assumes "sound db" "activate_user uid db = Inr db'"
  shows "sound db'"
proof -
  let ?db1 = "set_user uid (\<lambda>u. u\<lparr>au_active := True\<rparr>) db"
  have "all_up_to_date ?db1" using assms(1) by (intro set_user_up_to_date) (auto simp: sound_def up_to_date_def)
  then have "sound ?db1" using assms(1) by (simp add: sound_def consistent_set_user)
  then show ?thesis using assms(2) assign_sound by (auto simp: activate_user_def Let_def split: option.splits if_splits)
qed

lemma deactivate_user_sound: "sound db \<Longrightarrow> sound (deactivate_user uid db)"
  unfolding deactivate_user_def sound_def
  by (auto intro!: consistent_set_user set_user_up_to_date simp: up_to_date_def)

text \<open>A new user has no groups and no permissions.\<close>

lemma new_user_sound:
  assumes "sound db" and "au_id u \<notin> au_id ` set (g_users db)" and "au_effective_permissions u = []"
    and "keys = g_keys db \<or> keys = g_keys db @ [(k, au_id u)] \<and> au_account u = SERVICE_ACCOUNT"
    and "au_id u \<notin> snd ` set (g_keys db)"
  shows "sound (db\<lparr>g_users := g_users db @ [u], g_keys := keys\<rparr>)" (is "sound ?db")
proof -
  have c: "consistent db" using assms(1) by (simp add: sound_def)
  have "in_force ?db = in_force db" by (simp add: in_force_def fun_eq_iff)
  moreover have "\<not> in_force db (au_id u) p" for p using assms(2) memberD(1) [OF c] unfolding in_force_def by metis
  ultimately have "granted_values ?db (au_id u) = []" "granted_values ?db = granted_values db"
    by (simp_all add: granted_values_in_force fun_eq_iff)
  then have "all_up_to_date ?db" using assms(1,3) by (auto simp: sound_def all_up_to_date_def up_to_date_def)
  moreover have "\<forall>v \<in> set (g_users db @ [u]). au_id v \<in> snd ` set keys \<longrightarrow> au_account v = SERVICE_ACCOUNT"
  proof
    fix v assume v: "v \<in> set (g_users db @ [u])"
    show "au_id v \<in> snd ` set keys \<longrightarrow> au_account v = SERVICE_ACCOUNT"
    proof (cases "v = u")
      case False
      then have "au_id v \<noteq> au_id u" "v \<in> set (g_users db)" using v assms(2) by (auto simp: rev_image_eqI)
      then have "au_id v \<in> snd ` set keys \<longrightarrow> au_id v \<in> snd ` set (g_keys db)" using assms(4) by auto
      then show ?thesis using keyD [OF c] \<open>v \<in> set (g_users db)\<close> by blast
    qed (use assms(4,5) in auto)
  qed
  then have "consistent ?db" using c assms(2) by (auto simp: consistent_def)
  ultimately show ?thesis by (simp add: sound_def)
qed

lemma insert_api_key_sound:
  assumes "sound db" "insert_api_key k uid r db = Inr db'" "uid \<notin> au_id ` set (g_users db)" "uid \<notin> snd ` set (g_keys db)"
  shows "sound db'"
proof -
  let ?u = "\<lparr>au_id = uid, au_role = r, au_account = SERVICE_ACCOUNT, au_active = True, au_verified = True, au_oidc_expiry = None,
    au_effective_permissions = []\<rparr>"
  let ?db1 = "db\<lparr>g_users := g_users db @ [?u], g_keys := g_keys db @ [(k, uid)]\<rparr>"
  have s: "sound ?db1" using new_user_sound [OF assms(1), of ?u _ k] assms(3,4) by simp
  have "sound (set_user uid (\<lambda>u. u\<lparr>au_effective_permissions := [perm_value WRITE_CHAT]\<rparr>) ?db1)" if "r = LIMITED"
  proof -
    have "au_role v = LIMITED" if "v \<in> set (g_users ?db1)" "au_id v = uid" for v
      by (cases "v = ?u") (simp add: \<open>r = LIMITED\<close>, use that assms(3) in auto)
    then have "all_up_to_date (set_user uid (\<lambda>u. u\<lparr>au_effective_permissions := [perm_value WRITE_CHAT]\<rparr>) ?db1)"
      using s by (intro set_user_up_to_date) (auto simp: sound_def up_to_date_def)
    then show ?thesis using s by (simp add: sound_def consistent_set_user)
  qed
  then show ?thesis using assms(2) s assign_sound by (auto simp: insert_api_key_def Let_def split: if_splits)
qed

lemma update_api_key_sound:
  assumes "sound db" "update_api_key k r db = Inr db'"
  shows "sound db'"
proof -
  obtain uid u where key: "(k, uid) \<in> set (g_keys db)" "find_user db uid = Some u" "map_of (g_keys db) k = Some uid"
    using assms(2) by (auto simp: update_api_key_def dest: map_of_SomeD split: option.splits)
  let ?db1 = "set_user uid (\<lambda>u. u\<lparr>au_role := r\<rparr>) db"
  let ?db2 = "leave_default_groups uid ?db1"
  let ?limited = "\<lambda>u. u\<lparr>au_effective_permissions := [perm_value WRITE_CHAT]\<rparr>"
  have c: "consistent db" using assms(1) by (simp add: sound_def)
  have unique: "v = u" if "v \<in> set (g_users db)" "au_id v = uid" for v
    using find_user_Some [OF key(2)] that c by (auto simp: consistent_def distinct_map dest: inj_onD)
  have c2: "consistent ?db2" using c by (intro consistent_leave_default_groups consistent_set_user) simp_all
  have s2: "spares {uid} db ?db2"
    using spares_trans [OF set_user_spares leave_default_groups_spares, of "\<lambda>u. u\<lparr>au_role := r\<rparr>" uid uid db] by simp
  show ?thesis
  proof (cases "au_role u = r")
    case True
    then have "db' = ?db1" using assms(2) key by (simp add: update_api_key_def)
    moreover have "all_up_to_date ?db1"
      using assms(1) True unique by (intro set_user_up_to_date) (auto simp: sound_def up_to_date_def)
    ultimately show ?thesis using c by (simp add: sound_def consistent_set_user)
  next
    case False
    then consider "r \<in> {ADMIN, BASIC}" "assign_user_to_default_groups uid (r = ADMIN) ?db2 = Inr db'"
      | "r = LIMITED" "db' = set_user uid ?limited ?db2" | "db' = recompute_user_permissions [uid] ?db2"
      using assms(2) key by (auto simp: update_api_key_def Let_def split: if_splits)
    then show ?thesis
    proof cases
      case 1
      have "au_account v = SERVICE_ACCOUNT" if "find_user ?db2 uid = Some v" for v
        using find_user_Some [OF that] keyD [OF c2, of v] key(1) by (force simp: leave_default_groups_def)
      moreover have "\<not> is_member ?db2 (grp_id g) uid" if "g \<in> set (g_groups ?db2)" "grp_default g" for g
        using that by (auto simp: is_member_def leave_default_groups_def list_ex_iff)
      moreover have "find_user ?db2 uid \<noteq> None"
        using find_user_Some [OF key(2)] ids_set_user [of "\<lambda>u. u\<lparr>au_role := r\<rparr>" uid db]
        by (auto simp: find_user_None leave_default_groups_def)
      ultimately obtain db1 where db1: "db' = recompute_user_permissions [uid] db1" "spares {uid} ?db2 db1" "consistent db1"
        using assign_cases [OF 1(2) c2] by force
      have "spares {uid} db db1" using spares_trans [OF s2 db1(2)] by simp
      then show ?thesis unfolding db1(1) using db1(3) by (intro sound_recompute [OF assms(1)]) auto
    next
      case 2
      have "spares {uid} db db'" using spares_trans [OF s2 set_user_spares, of ?limited uid] 2(2) by simp
      moreover have "au_role v = LIMITED \<and> au_effective_permissions v = [perm_value WRITE_CHAT]" if v: "v \<in> set (g_users db')" "au_id v = uid" for v
      proof -
        obtain w where w: "w \<in> set (g_users ?db2)" "v = (if au_id w = uid then ?limited w else w)"
          using set_user_member [of v uid ?limited ?db2] v(1) [unfolded 2(2)] by blast
        obtain x where "w = (if au_id x = uid then x\<lparr>au_role := r\<rparr> else x)"
          using w(1) set_user_member [of w uid _ db] by (auto simp: leave_default_groups_def)
        moreover have "au_id w = uid" using w(2) v(2) by (simp split: if_splits)
        ultimately show ?thesis using w(2) 2(1) by (simp split: if_splits)
      qed
      ultimately have "all_up_to_date db'"
        using up_to_date_spared [of db "{uid}" db'] assms(1) by (auto simp: all_up_to_date_def sound_def) (auto simp: up_to_date_def)
      then show ?thesis using 2(2) c2 by (simp add: sound_def consistent_set_user)
    qed (use sound_recompute [OF assms(1) s2, of "[uid]"] c2 in simp)
  qed
qed

lemma delete_user_sound:
  assumes "sound db" and "keys = g_keys db \<or> keys = filter P (g_keys db)"
  shows "sound (delete_user_from_db uid (db\<lparr>g_keys := keys\<rparr>))" (is "sound ?db")
proof (rule sound_spared [OF assms(1)])
  have "in_force ?db v p = in_force db v p" if "v \<noteq> uid" for v p
    using that by (auto simp: in_force_def delete_user_from_db_def)
  then show "spares {} db ?db" by (auto simp: spares_def delete_user_from_db_def)
  have c: "consistent db" using assms(1) by (simp add: sound_def)
  have "mbr_user m \<in> au_id ` {u \<in> set (g_users db). au_id u \<noteq> uid} \<and> mbr_group m \<in> grp_id ` set (g_groups db)"
    if "m \<in> set (g_members db)" "mbr_user m \<noteq> uid" for m
    using memberD [OF c that(1)] that(2) by auto
  moreover have "\<forall>u \<in> set (g_users db). au_id u \<in> snd ` set keys \<longrightarrow> au_account u = SERVICE_ACCOUNT"
  proof (intro ballI impI)
    fix u assume "u \<in> set (g_users db)" "au_id u \<in> snd ` set keys"
    moreover from this(2) have "au_id u \<in> snd ` set (g_keys db)" using assms(2) by auto
    ultimately show "au_account u = SERVICE_ACCOUNT" using keyD [OF c] by blast
  qed
  ultimately show "consistent ?db" using c by (auto simp: consistent_def delete_user_from_db_def distinct_map_filter)
qed

lemma remove_api_key_sound: "sound db \<Longrightarrow> remove_api_key k db = Inr db' \<Longrightarrow> sound db'"
  using delete_user_sound [of db "filter (\<lambda>(i, _). i \<noteq> k) (g_keys db)"]
  by (auto simp: remove_api_key_def split: option.splits if_splits)

section \<open>Provisioning\<close>

lemma reserved_group:
  assumes "consistent db" "find_group db gid = Some g" "grp_name g \<notin> set reserved_group_names"
  shows "gid \<noteq> 1"
  using assms find_group_Some [of db gid g] by (auto simp: consistent_def reserved_group_names_def)

lemma scim_get_group_Some: "scim_get_group db gid = Some g \<Longrightarrow> find_group db gid = Some g"
  by (auto simp: scim_get_group_def split: option.splits if_splits)

text \<open>Only a group that is not reserved changes its name.\<close>

lemma consistent_rename:
  assumes "consistent db" "scim_get_group db gid = Some g" "name = grp_name g \<or> grp_name g \<notin> set reserved_group_names"
  shows "consistent (set_group gid (\<lambda>g. g\<lparr>grp_name := name\<rparr>) db)"
  using assms(1)
proof (rule consistent_set_group)
  have "gid = 1 \<Longrightarrow> name = ''Admin''"
    using reserved_group [OF assms(1) scim_get_group_Some [OF assms(2)]] assms(3) find_group_Some [OF scim_get_group_Some [OF assms(2)]] assms(1)
    by (auto simp: consistent_def)
  then show "gid = 1 \<Longrightarrow> grp_default h \<Longrightarrow> grp_name h = ''Admin'' \<Longrightarrow> \<not> grp_for_deletion h \<Longrightarrow>
      grp_default (h\<lparr>grp_name := name\<rparr>) \<and> grp_name (h\<lparr>grp_name := name\<rparr>) = ''Admin'' \<and> \<not> grp_for_deletion (h\<lparr>grp_name := name\<rparr>)" for h by simp
qed simp

lemma scim_patch_group_sound:
  assumes "sound db"
  shows "sound (snd (scim_patch_group gid name adds removes db))"
proof (cases "scim_get_group db gid")
  case (Some g)
  let ?db0 = "set_group gid (\<lambda>g. g\<lparr>grp_name := name\<rparr>) db"
  let ?db1 = "add_members gid adds ?db0"
  let ?db2 = "if removes = [] then ?db1 else cleanup_members gid removes ?db1"
  have c: "consistent db" using assms by (simp add: sound_def)
  have "sound (recompute_user_permissions (adds @ removes) ?db2)"
    if name: "name = grp_name g \<or> grp_name g \<notin> set reserved_group_names" and found: "\<not> list_ex (\<lambda>uid. find_user db uid = None) adds"
  proof -
    have "gid \<in> grp_id ` set (g_groups ?db0)"
      using find_group_Some [OF scim_get_group_Some [OF Some]] by (auto simp: ids_set_group)
    then have "consistent ?db1" using consistent_rename [OF c Some name] all_found [OF found] by (intro consistent_add_members) simp_all
    then have c2: "consistent ?db2" by (simp add: consistent_cleanup_members)
    have "spares (set removes) ?db1 ?db2"
    proof (cases "removes = []")
      case False
      then show ?thesis using cleanup_members_spares [of removes ?db1 gid] by presburger
    qed simp
    note s = spares_trans [OF spares_trans [OF set_group_spares add_members_spares] this]
    show ?thesis by (rule sound_recompute [OF assms s _ c2]) auto
  qed
  then show ?thesis using Some assms by (auto simp: scim_patch_group_def Let_def)
qed (use assms in \<open>simp add: scim_patch_group_def\<close>)

lemma scim_delete_group_sound:
  assumes "sound db"
  shows "sound (snd (scim_delete_group gid db))"
proof (cases "scim_get_group db gid")
  case (Some g)
  let ?db1 = "cleanup_members gid [] db"
  let ?delete = "\<lambda>db. db\<lparr>g_groups := filter (\<lambda>g. grp_id g \<noteq> gid) (g_groups db), g_grants := filter (\<lambda>g. grt_group g \<noteq> gid) (g_grants db)\<rparr>"
  have c: "consistent db" using assms by (simp add: sound_def)
  have "sound (recompute_user_permissions (members_of db gid) (?delete ?db1))" if "grp_name g \<notin> set reserved_group_names"
  proof -
    have gid: "gid \<noteq> 1" using reserved_group [OF c scim_get_group_Some [OF Some] that] .
    have s: "spares (set (members_of db gid)) db ?db1" using cleanup_members_spares [of "[]" db gid] by simp
    have "sound (recompute_user_permissions (members_of db gid) ?db1)"
      using sound_recompute [OF assms s subset_refl] c by (simp add: consistent_cleanup_members)
    then have "sound (?delete (recompute_user_permissions (members_of db gid) ?db1))"
      using gid by (intro remove_group_sound) (auto simp: cleanup_members_def)
    moreover have "?delete (recompute_user_permissions (members_of db gid) ?db1) = recompute_user_permissions (members_of db gid) (?delete ?db1)"
    proof -
      have "in_force (?delete ?db1) = in_force ?db1" by (fastforce simp: in_force_def fun_eq_iff cleanup_members_def)
      then have "granted_values (?delete ?db1) = granted_values ?db1" by (simp add: granted_values_in_force fun_eq_iff)
      then show ?thesis by (simp add: recompute_user_permissions_def)
    qed
    ultimately show ?thesis by simp
  qed
  then show ?thesis using Some assms by (auto simp: scim_delete_group_def Let_def)
qed (use assms in \<open>simp add: scim_delete_group_def\<close>)

lemma members_of_iff: "uid \<in> set (members_of db gid) \<longleftrightarrow> is_member db gid uid"
  by (auto simp: is_member_def members_of_def list_ex_iff)

lemma scim_replace_group_sound:
  assumes "sound db"
  shows "sound (snd (scim_replace_group gid name uids db))"
proof (cases "scim_get_group db gid")
  case (Some g)
  let ?db0 = "set_group gid (\<lambda>g. g\<lparr>grp_name := name\<rparr>) db"
  let ?db1 = "add_members gid uids (cleanup_members gid [] ?db0)"
  let ?rest = "filter (\<lambda>uid. uid \<notin> set uids) (members_of db gid)"
  have c: "consistent db" using assms by (simp add: sound_def)
  have "sound (recompute_user_permissions ?rest (recompute_permissions_for_group gid ?db1))"
    if name: "name = grp_name g \<or> grp_name g \<notin> set reserved_group_names" and found: "\<not> list_ex (\<lambda>uid. find_user db uid = None) uids"
  proof -
    have "gid \<in> grp_id ` set (g_groups ?db0)"
      using find_group_Some [OF scim_get_group_Some [OF Some]] by (auto simp: ids_set_group)
    then have c1: "consistent ?db1"
      using consistent_cleanup_members [OF consistent_rename [OF c Some name]] all_found [OF found] by (intro consistent_add_members) simp_all
    have "spares (set (members_of db gid)) ?db0 (cleanup_members gid [] ?db0)"
      using cleanup_members_spares [of "[]" ?db0 gid] by (simp add: members_of_def)
    note s = spares_trans [OF spares_trans [OF set_group_spares this] add_members_spares]
    have new: "set uids \<subseteq> set (members_of ?db1 gid)"
    proof -
      have "uid \<in> set us \<Longrightarrow> is_member (add_members gid us d) gid uid" and "is_member d gid uid \<Longrightarrow> is_member (add_members gid us d) gid uid" for us d uid
        by (induction us arbitrary: d) (auto simp: add_members_def add_member_def is_member_def)
      then show ?thesis unfolding subset_iff members_of_iff by blast
    qed
    have "recompute_user_permissions a (recompute_user_permissions b d) = recompute_user_permissions (a @ b) d" for a b d
      unfolding recompute_user_permissions_def [of a] granted_values_recompute by (auto simp: recompute_user_permissions_def)
    moreover have "sound (recompute_user_permissions (?rest @ members_of ?db1 gid) ?db1)"
      by (rule sound_recompute [OF assms s _ c1]) (use new in auto)
    ultimately show ?thesis by (simp add: recompute_permissions_for_group_def)
  qed
  then show ?thesis using Some assms by (auto simp: scim_replace_group_def Let_def)
qed (use assms in \<open>simp add: scim_replace_group_def\<close>)

section \<open>Histories\<close>

lemma rename_user_group_endpoint_sound:
  assumes "sound db" "rename_user_group_endpoint dv gid name db = Inr db'"
  shows "sound db'"
proof -
  obtain g where g: "find_group db gid = Some g" "\<not> grp_default g"
      "db' = set_group gid (\<lambda>g. g\<lparr>grp_name := name, grp_up_to_date := grp_up_to_date g \<and> dv\<rparr>) db"
    using assms(2) by (auto simp: rename_user_group_endpoint_def rename_user_group_def bind_r_Inr_iff split: option.splits if_splits sum.splits exn.splits)
  have c: "consistent db" using assms(1) by (simp add: sound_def)
  have "gid \<noteq> 1" using c g(2) find_group_Some [OF g(1)] by (auto simp: consistent_def)
  then have "consistent db'" unfolding g(3) using c by (intro consistent_set_group) simp_all
  then show ?thesis using sound_spared [OF assms(1)] set_group_spares [of db gid] unfolding g(3) by blast
qed

lemma delete_user_group_endpoint_sound:
  assumes "sound db" "delete_user_group_endpoint dv gid db = Inr db'"
  shows "sound db'"
proof -
  obtain g where g: "find_group db gid = Some g" "\<not> grp_default g"
    using assms(2) by (cases "find_group db gid") (auto simp: delete_user_group_endpoint_def not_found_def prepare_user_group_for_deletion_def bind_r_def split: if_splits)
  then have "gid \<noteq> 1" using assms(1) find_group_Some [OF g(1)] by (auto simp: sound_def consistent_def)
  moreover obtain db1 where "prepare_user_group_for_deletion gid db = Inr db1" "db' = db1 \<or> db' = delete_user_group gid db1"
    using assms(2) g by (auto simp: delete_user_group_endpoint_def not_found_def bind_r_Inr_iff split: if_splits sum.splits exn.splits)
  ultimately show ?thesis
    using prepare_user_group_for_deletion_sound [OF assms(1)] delete_user_group_sound [OF assms(1)] by blast
qed

lemma not_found_Inr [simp]: "not_found r = Inr x \<longleftrightarrow> r = Inr x"
  by (auto simp: not_found_def split: sum.splits exn.splits)

text \<open>The tables after the migration that seeds the default groups of a new deployment.\<close>

definition seeded :: group_db where
  "seeded = \<lparr>g_users = [],
     g_groups = [\<lparr>grp_id = 1, grp_name = ''Admin'', grp_up_to_date = True, grp_for_deletion = False, grp_default = True\<rparr>,
       \<lparr>grp_id = 2, grp_name = ''Basic'', grp_up_to_date = True, grp_for_deletion = False, grp_default = True\<rparr>],
     g_members = [],
     g_grants = [\<lparr>grt_group = 1, grt_permission = FULL_ADMIN_PANEL_ACCESS, grt_source = SYSTEM_GRANT, grt_deleted = False\<rparr>,
       \<lparr>grt_group = 2, grt_permission = BASIC_ACCESS, grt_source = SYSTEM_GRANT, grt_deleted = False\<rparr>],
     g_keys = []\<rparr>"

text \<open>
  Every successful operation is a step.  New rows have new identifiers.
\<close>

inductive permission_step :: "group_db \<Rightarrow> group_db \<Rightarrow> bool" where
  sign_up: "au_id u \<notin> au_id ` set (g_users db) \<Longrightarrow> au_id u \<notin> snd ` set (g_keys db) \<Longrightarrow> au_effective_permissions u = [] \<Longrightarrow>
     permission_step db (db\<lparr>g_users := g_users db @ [u]\<rparr>)"
| touch: "permission_step db (set_user uid (\<lambda>u. u\<lparr>au_active := a, au_verified := v, au_oidc_expiry := e\<rparr>) db)"
| assign: "assign_user_to_default_groups uid admin db = Inr db' \<Longrightarrow> permission_step db db'"
| activate: "activate_user uid db = Inr db' \<Longrightarrow> permission_step db db'"
| deactivate: "permission_step db (deactivate_user uid db)"
| set_role: "set_user_role caller uid r override db = Inr db' \<Longrightarrow> permission_step db db'"
| delete_user: "permission_step db (delete_user_from_db uid db)"
| new_key: "uid \<notin> au_id ` set (g_users db) \<Longrightarrow> uid \<notin> snd ` set (g_keys db) \<Longrightarrow> insert_api_key k uid r db = Inr db' \<Longrightarrow> permission_step db db'"
| update_key: "update_api_key k r db = Inr db' \<Longrightarrow> permission_step db db'"
| remove_key: "remove_api_key k db = Inr db' \<Longrightarrow> permission_step db db'"
| new_group: "i \<notin> grp_id ` set (g_groups db) \<Longrightarrow> insert_user_group dv i name uids db = Inr db' \<Longrightarrow> permission_step db db'"
| patch_group: "patch_user_group caller dv gid uids cc db = Inr db' \<Longrightarrow> permission_step db db'"
| group_users: "add_users caller dv gid uids db = Inr db' \<Longrightarrow> permission_step db db'"
| delete_group: "delete_user_group_endpoint dv gid db = Inr db' \<Longrightarrow> permission_step db db'"
| rename_group: "rename_user_group_endpoint dv gid name db = Inr db' \<Longrightarrow> permission_step db db'"
| sync_group: "permission_step db (mark_user_group_as_synced gid db)"
| monitor_group: "monitor_usergroup_taskset initial count gid db = Inr db' \<Longrightarrow> permission_step db db'"
| toggle: "set_user_group_permission gid p enabled db = Inr db' \<Longrightarrow> permission_step db db'"
| set_curator: "update_user_curator_relationship gid uid curator caller db = Inr db' \<Longrightarrow> permission_step db db'"
| scim_create: "i \<notin> grp_id ` set (g_groups db) \<Longrightarrow> permission_step db (snd (scim_create_group i name uids db))"
| scim_replace: "permission_step db (snd (scim_replace_group gid name uids db))"
| scim_patch: "permission_step db (snd (scim_patch_group gid name adds removes db))"
| scim_delete: "permission_step db (snd (scim_delete_group gid db))"

inductive permission_history :: "group_db \<Rightarrow> bool" where
  start: "permission_history seeded"
| step: "permission_history db \<Longrightarrow> permission_step db db' \<Longrightarrow> permission_history db'"

lemma set_user_attributes_sound: "sound db \<Longrightarrow> sound (set_user uid (\<lambda>u. u\<lparr>au_active := a, au_verified := v, au_oidc_expiry := e\<rparr>) db)"
  unfolding sound_def by (auto intro!: consistent_set_user set_user_up_to_date simp: up_to_date_def)

lemma mark_user_group_as_synced_sound: "sound db \<Longrightarrow> sound (mark_user_group_as_synced gid db)"
  using sound_spared [OF _ set_group_spares, of db gid] by (simp add: mark_user_group_as_synced_def sound_def consistent_set_group)

lemma monitor_sound:
  assumes "sound db" "monitor_usergroup_taskset initial count gid db = Inr db'"
  shows "sound db'"
proof (cases "find_group db gid")
  case (Some g)
  note synced = mark_user_group_as_synced_sound [OF assms(1), of gid]
  consider "db' = db" | "db' = mark_user_group_as_synced gid db"
    | db1 where "grp_for_deletion g" "prepare_user_group_for_deletion gid (mark_user_group_as_synced gid db) = Inr db1" "db' = delete_user_group gid db1"
    using assms(2) Some by (auto simp: monitor_usergroup_taskset_def bind_r_Inr_iff split: if_splits)
  then show ?thesis
  proof cases
    case 3
    have "gid \<noteq> 1" using 3(1) assms(1) find_group_Some [OF Some] by (auto simp: sound_def consistent_def)
    then show ?thesis using delete_user_group_sound [OF synced 3(2)] 3(3) by simp
  qed (use assms(1) synced in simp_all)
qed (use assms in \<open>simp add: monitor_usergroup_taskset_def split: if_splits\<close>)

lemma permission_step_sound:
  assumes "permission_step db db'" "sound db"
  shows "sound db'"
  using assms(1)
proof cases
  case (sign_up u)
  then show ?thesis using new_user_sound [OF assms(2), of u "g_keys db" undefined] by simp
next
  case (delete_user uid)
  then show ?thesis using delete_user_sound [OF assms(2), of "g_keys db"] by simp
next
  case (patch_group caller dv gid uids cc)
  then show ?thesis using update_user_group_sound [OF assms(2)] by (auto simp: patch_user_group_def bind_r_Inr_iff)
next
  case (group_users caller dv gid uids)
  then show ?thesis using add_users_to_user_group_sound [OF assms(2)] by (auto simp: add_users_def bind_r_Inr_iff)
next
  case (monitor_group initial count gid)
  then show ?thesis using monitor_sound [OF assms(2)] by simp
qed (simp_all add: assms(2) set_user_attributes_sound deactivate_user_sound mark_user_group_as_synced_sound scim_create_group_sound
    scim_replace_group_sound scim_patch_group_sound scim_delete_group_sound assign_sound [OF assms(2)] activate_user_sound [OF assms(2)]
    set_user_role_sound [OF assms(2)] insert_api_key_sound [OF assms(2)] update_api_key_sound [OF assms(2)] remove_api_key_sound [OF assms(2)]
    insert_user_group_sound [OF assms(2)] delete_user_group_endpoint_sound [OF assms(2)] rename_user_group_endpoint_sound [OF assms(2)]
    set_user_group_permission_sound [OF assms(2)] update_user_curator_relationship_sound [OF assms(2)])

lemma seeded_sound: "sound seeded"
  by (auto simp: seeded_def sound_def consistent_def all_up_to_date_def IMPLIED_def)

lemma history_sound: "permission_history db \<Longrightarrow> sound db"
  by (induction rule: permission_history.induct) (rule seeded_sound, rule permission_step_sound)
section \<open>What the groups entitle to\<close>

definition entitled :: "group_db \<Rightarrow> uuid \<Rightarrow> permission set" where
  "entitled db uid = {p. in_force db uid p} \<union> (if \<exists>u \<in> set (g_users db). au_id u = uid \<and> au_role u = LIMITED then {WRITE_CHAT} else {})"

interpretation group_grants: stored_permissions permission_history g_users entitled
proof
  fix db u p
  assume "permission_history db" "u \<in> set (g_users db)" "perm_value p \<in> set (au_effective_permissions u)"
  then have "all_up_to_date db" using history_sound unfolding sound_def by blast
  with \<open>u \<in> set (g_users db)\<close> have "up_to_date db u" unfolding all_up_to_date_def by blast
  then show "p \<in> entitled db (au_id u)"
    unfolding up_to_date_def
  proof
    assume "au_effective_permissions u = granted_values db (au_id u)"
    then show ?thesis using \<open>perm_value p \<in> set (au_effective_permissions u)\<close> by (simp add: entitled_def)
  next
    assume "au_role u = LIMITED \<and> au_effective_permissions u = [perm_value WRITE_CHAT]"
    then show ?thesis
      using \<open>u \<in> set (g_users db)\<close> \<open>perm_value p \<in> set (au_effective_permissions u)\<close> unfolding entitled_def by auto
  qed
qed

lemma entitled_limited:
  assumes "permission_history db" "u \<in> set (g_users db)" "q \<in> entitled db (au_id u)"
  shows "in_force db (au_id u) q \<or> au_role u = LIMITED \<and> q = WRITE_CHAT"
proof -
  have "distinct (map au_id (g_users db))" using history_sound [OF assms(1)] by (simp add: sound_def consistent_def)
  then have "v = u" if "v \<in> set (g_users db)" "au_id v = au_id u" for v using that assms(2) by (auto simp: distinct_map dest: inj_onD)
  then show ?thesis using assms(3) by (auto simp: entitled_def split: if_splits)
qed

lemma implied_by_write_chat: "(perm_value WRITE_CHAT, perm_value p) \<in> implies_directly\<^sup>* \<Longrightarrow> p \<in> {WRITE_CHAT, READ_CHAT}"
proof -
  have "implies_directly `` (perm_value ` {WRITE_CHAT, READ_CHAT}) \<subseteq> perm_value ` {WRITE_CHAT, READ_CHAT}"
    by (auto simp: implies_directly_def implied_permissions_def dict_get_def)
  note closed = Image_closed_trancl [OF this]
  assume "(perm_value WRITE_CHAT, perm_value p) \<in> implies_directly\<^sup>*"
  then have "perm_value p \<in> implies_directly\<^sup>* `` (perm_value ` {WRITE_CHAT, READ_CHAT})" by (rule ImageI) simp
  then show "p \<in> {WRITE_CHAT, READ_CHAT}" unfolding closed by (simp only: image_insert insert_iff image_empty perm_value_inject empty_iff)
qed

section \<open>Permissions follow the groups\<close>


text \<open>A person signs up and becomes an administrator.\<close>

definition person :: auth_user where
  "person = \<lparr>au_id = 7, au_role = GLOBAL_CURATOR, au_account = STANDARD, au_active = True, au_verified = True, au_oidc_expiry = None,
     au_effective_permissions = []\<rparr>"

definition one_curator :: group_db where
  "one_curator = seeded\<lparr>g_users := [person]\<rparr>"

lemma one_curator_history: "permission_history one_curator"
proof -
  have "permission_step seeded (seeded\<lparr>g_users := g_users seeded @ [person]\<rparr>)"
    by (rule sign_up) (simp_all add: seeded_def person_def)
  then show ?thesis using start step unfolding one_curator_def seeded_def by fastforce
qed

text \<open>and gets the default group.\<close>

definition one_member :: group_db where
  "one_member = one_curator\<lparr>g_users := [person\<lparr>au_effective_permissions := [''basic'']\<rparr>],
     g_members := [\<lparr>mbr_group = 2, mbr_user = 7, mbr_curator = False\<rparr>]\<rparr>"

lemma one_member_history: "permission_history one_member"
proof -
  have "assign_user_to_default_groups 7 False one_curator = Inr one_member"
    by (simp add: assign_user_to_default_groups_def one_curator_def one_member_def seeded_def person_def find_user_def is_member_def
        add_member_def recompute_user_permissions_def granted_values_def perm_value.simps)
  then show ?thesis by (rule permission_history.step [OF one_curator_history permission_step.assign])
qed


lemma administrator_permissions: "perm_value FULL_ADMIN_PANEL_ACCESS \<in> set ps \<Longrightarrow> set (get_effective_permissions ps) = UNIV"
  using permissions_all by (auto simp: get_effective_permissions_def)

lemma find_user_recompute:
  assumes "find_user db uid = Some u"
  shows "find_user (recompute_user_permissions [uid] db) uid = Some (u\<lparr>au_effective_permissions := granted_values db uid\<rparr>)"
proof -
  have "find (\<lambda>v. au_id v = uid) (map (\<lambda>v. if au_id v = uid then v\<lparr>au_effective_permissions := granted_values db (au_id v)\<rparr> else v) us)
      = map_option (au_effective_permissions_update (\<lambda>_. granted_values db uid)) (find (\<lambda>v. au_id v = uid) us)" for us :: "auth_user list"
    by (induction us) auto
  then show ?thesis using assms by (simp add: find_user_def recompute_user_permissions_def)
qed

text \<open>C9: A curator who is no administrator can take every permission: the endpoint that adds users to a group asks
  for a curator of any group and not whether the group is the administrators' one.\<close>

theorem curator_can_become_administrator:
  assumes "permission_history db" and "find_user db uid = Some u" and "au_role u \<in> {CURATOR, GLOBAL_CURATOR}" and "au_account u = STANDARD"
    and "find_group db 1 = Some g" and "grp_up_to_date g"
    and "list_ex (\<lambda>g. grt_group g = 1 \<and> grt_permission g = FULL_ADMIN_PANEL_ACCESS \<and> \<not> grt_deleted g) (g_grants db)"
  shows "\<exists>db' u'. add_users u dv 1 [uid] db = Inr db' \<and> find_user db' uid = Some u' \<and> au_role u' = au_role u
    \<and> set (get_effective_permissions (au_effective_permissions u')) = UNIV"
proof -
  have allowed: "current_curator_or_admin_user u = Inr ()"
    using assms(3,4) by (auto simp: current_curator_or_admin_user_def is_limited_user_def)
  have u: "u \<in> set (g_users db)" "au_id u = uid" using find_user_Some [OF assms(2)] by auto
  have granted: "in_force db' uid FULL_ADMIN_PANEL_ACCESS" if "is_member db' 1 uid" "g_grants db' = g_grants db" for db'
    using that assms(7) unfolding in_force_def is_member_def list_ex_iff by metis
  show ?thesis
  proof (cases "is_member db 1 uid")
    case True
    then have "add_users u dv 1 [uid] db = Inr db"
      using assms(2,5,6) allowed members_of_iff [of uid db 1]
      by (simp add: add_users_def add_users_to_user_group_def check_user_group_is_modifiable_def not_found_def)
    moreover have "up_to_date db u" using history_sound [OF assms(1)] u(1) by (simp add: sound_def all_up_to_date_def)
    then have "perm_value FULL_ADMIN_PANEL_ACCESS \<in> set (au_effective_permissions u)"
      using granted [OF True] assms(3) u(2) by (auto simp: up_to_date_def)
    ultimately show ?thesis using administrator_permissions assms(2) by blast
  next
    case False
    let ?db1 = "add_members 1 [uid] db"
    have "remdups (filter (\<lambda>v. v \<notin> set (members_of db 1)) (members_of db 1 @ [uid])) = [uid]"
      "filter (\<lambda>v. v \<notin> set (members_of db 1 @ [uid])) (members_of db 1) = []"
      using False members_of_iff [of uid db 1] by (simp_all add: filter_empty_conv)
    then have "update_user_group dv 1 (members_of db 1 @ [uid]) False db = Inr (recompute_user_permissions [uid] ?db1)"
      using assms(2,5,6) unfolding update_user_group_def Let_def
      by (simp add: check_user_group_is_modifiable_def del: filter_append)
    then have "add_users u dv 1 [uid] db = Inr (recompute_user_permissions [uid] ?db1)"
      using assms(2,5,6) allowed False members_of_iff [of uid db 1]
      by (simp add: add_users_def add_users_to_user_group_def check_user_group_is_modifiable_def not_found_def Let_def)
    moreover have "find_user (recompute_user_permissions [uid] ?db1) uid = Some (u\<lparr>au_effective_permissions := granted_values ?db1 uid\<rparr>)"
      using assms(2) by (intro find_user_recompute) (simp add: find_user_def)
    moreover have "in_force ?db1 uid FULL_ADMIN_PANEL_ACCESS"
      by (rule granted) (use False in \<open>simp_all add: is_member_def add_members_def add_member_def\<close>)
    then have "set (get_effective_permissions (granted_values ?db1 uid)) = UNIV" by (intro administrator_permissions) simp
    ultimately show ?thesis by (intro exI conjI) (assumption, assumption, simp_all)
  qed
qed

lemma curator_can_become_administrator_witness:
  "\<exists>db' u'. add_users person False 1 [7] one_curator = Inr db' \<and> find_user db' 7 = Some u' \<and> au_role u' = au_role person
    \<and> set (get_effective_permissions (au_effective_permissions u')) = UNIV"
  by (rule curator_can_become_administrator [OF one_curator_history, of 7 person "hd (g_groups seeded)"])
    (simp_all add: one_curator_def seeded_def person_def find_user_def find_group_def)

end
